(* ===== verification/Prelude.thy ===== *)
theory Prelude
  imports Main "HOL-Library.Word"
begin

unbundle bit_operations_syntax

text \<open>
  Shared vocabulary of the development: the machine integers of the Rust code, its
  error type and the \<open>Result\<close> operators, checked and saturating arithmetic,
  little-endian byte strings, slices and buffers, and the pieces of text handling
  the components share.

  Rust's \<open>u8\<close>, \<open>u16\<close>, \<open>u32\<close> and \<open>u64\<close> are words of their
  width. A \<open>usize\<close> that counts or indexes the elements of a buffer is a \<open>nat\<close>;
  the conversions between \<open>usize\<close> and \<open>u64\<close> never fail on the 64-bit targets the
  model assumes, so \<open>usize::try_from\<close> is \<open>unat\<close> and \<open>u64::try_from\<close> is
  \<open>word_of_nat\<close>. A Rust \<open>String\<close> is the list of its UTF-8 bytes.
\<close>

section \<open>Machine integers and collections\<close>

type_synonym u8 = "8 word"
type_synonym u16 = "16 word"
type_synonym u32 = "32 word"
type_synonym u64 = "64 word"
type_synonym i32 = "32 word"
type_synonym i64 = "64 word"
type_synonym bytes = "u8 list"

named_theorems result_simps \<open>computation rules of the Result operators\<close>
named_theorems checked_simps \<open>characterisations of checked arithmetic on words\<close>
named_theorems le_simps \<open>lengths and round trips of little-endian integers\<close>

section \<open>Errors\<close>

text \<open>The \<open>std::io::ErrorKind\<close> values the code creates or tests.\<close>

datatype io_kind = UnexpectedEof | InvalidInput | InvalidData | Interrupted | NotFound | OtherKind

text \<open>
  The crate's error type. \<open>Panic\<close> is not one of its constructors: it is the value
  the model gives to a path on which the Rust code panics.
\<close>

datatype ewf_error =
    Io io_kind string
  | InvalidSignature
  | BufferTooShort nat nat
  | NoSegments string
  | PasswordRequired
  | PasswordRejected
  | DecryptionValidationFailed
  | Unsupported string
  | Aborted
  | Malformed string
  | Panic string

type_synonym 'a result = "ewf_error + 'a"

fun is_malformed :: "ewf_error \<Rightarrow> bool" where
  "is_malformed (Malformed _) = True"
| "is_malformed _ = False"

text \<open>The \<open>?\<close> operator, \<open>Option::ok_or_else\<close> and \<open>Result::map_err\<close>.\<close>

definition try_bind :: "'e + 'a \<Rightarrow> ('a \<Rightarrow> 'e + 'b) \<Rightarrow> 'e + 'b" where
  "try_bind r f = (case r of Inl e \<Rightarrow> Inl e | Inr x \<Rightarrow> f x)"

definition ok_or :: "'a option \<Rightarrow> 'e \<Rightarrow> 'e + 'a" where
  "ok_or r e = (case r of None \<Rightarrow> Inl e | Some x \<Rightarrow> Inr x)"

definition map_err :: "('e \<Rightarrow> 'f) \<Rightarrow> 'e + 'a \<Rightarrow> 'f + 'a" where
  "map_err f r = (case r of Inl e \<Rightarrow> Inl (f e) | Inr x \<Rightarrow> Inr x)"

definition is_ok :: "'e + 'a \<Rightarrow> bool" where
  "is_ok r = (case r of Inl _ \<Rightarrow> False | Inr _ \<Rightarrow> True)"

lemma try_bind_simps [simp, result_simps]:
  "try_bind (Inl e) f = Inl e"
  "try_bind (Inr x) f = f x"
  by (simp_all add: try_bind_def)

lemma ok_or_simps [simp, result_simps]:
  "ok_or None e = Inl e"
  "ok_or (Some x) e = Inr x"
  by (simp_all add: ok_or_def)

lemma map_err_simps [simp, result_simps]:
  "map_err f (Inl e) = Inl (f e)"
  "map_err f (Inr x) = Inr x"
  by (simp_all add: map_err_def)

lemma is_ok_simps [simp, result_simps]:
  "is_ok (Inl e) = False"
  "is_ok (Inr x) = True"
  by (simp_all add: is_ok_def)

lemma try_bind_cong [fundef_cong]:
  "r = r' \<Longrightarrow> (\<And>x. r' = Inr x \<Longrightarrow> f x = g x) \<Longrightarrow> try_bind r f = try_bind r' g"
  by (cases r') simp_all

lemma try_bind_Inr_iff [result_simps]:
  "try_bind r f = Inr y \<longleftrightarrow> (\<exists>x. r = Inr x \<and> f x = Inr y)"
  by (cases r) simp_all

lemma try_bind_Inl_iff:
  "try_bind r f = Inl e \<longleftrightarrow> r = Inl e \<or> (\<exists>x. r = Inr x \<and> f x = Inl e)"
  by (cases r) auto

lemma ok_or_Inr_iff [simp, result_simps]: "ok_or r e = Inr x \<longleftrightarrow> r = Some x"
  by (cases r) simp_all

lemma ok_or_Inl_iff [simp]: "ok_or r e = Inl e' \<longleftrightarrow> r = None \<and> e' = e"
  by (cases r) auto

lemma map_err_Inr_iff [simp, result_simps]: "map_err f r = Inr x \<longleftrightarrow> r = Inr x"
  by (cases r) simp_all

lemma is_ok_iff: "is_ok r \<longleftrightarrow> (\<exists>x. r = Inr x)"
  by (cases r) simp_all

lemma if_Inl_Inr_iff [result_simps]:
  "(if b then Inl e else r) = Inr y \<longleftrightarrow> \<not> b \<and> r = Inr y"
  by simp

text \<open>Collecting an iterator of results: the first error wins.\<close>

fun collect_results :: "('a \<Rightarrow> 'e + 'b) \<Rightarrow> 'a list \<Rightarrow> 'e + 'b list" where
  "collect_results f [] = Inr []"
| "collect_results f (x # xs) =
     try_bind (f x) (\<lambda>y. try_bind (collect_results f xs) (\<lambda>ys. Inr (y # ys)))"

lemma collect_results_Inr:
  "collect_results f xs = Inr ys \<longleftrightarrow> list_all2 (\<lambda>x y. f x = Inr y) xs ys"
  by (induction xs arbitrary: ys) (auto simp: try_bind_Inr_iff list_all2_Cons1)

lemma collect_results_map:
  "(\<And>x. x \<in> set xs \<Longrightarrow> f x = Inr (g x)) \<Longrightarrow> collect_results f xs = Inr (map g xs)"
  by (induction xs) simp_all

text \<open>A \<open>for\<close> loop whose body may return early: \<open>try_fold\<close>.\<close>

fun try_fold :: "('s \<Rightarrow> 'a \<Rightarrow> 'e + 's) \<Rightarrow> 's \<Rightarrow> 'a list \<Rightarrow> 'e + 's" where
  "try_fold f s [] = Inr s"
| "try_fold f s (x # xs) = try_bind (f s x) (\<lambda>s'. try_fold f s' xs)"

lemma try_fold_append:
  "try_fold f s (xs @ ys) = try_bind (try_fold f s xs) (\<lambda>s'. try_fold f s' ys)"
proof (induction xs arbitrary: s)
  case (Cons x xs)
  then show ?case by (cases "f s x") simp_all
qed simp

lemma try_fold_invariant:
  assumes "try_fold f s xs = Inr t" "P s"
    and "\<And>u x v. x \<in> set xs \<Longrightarrow> P u \<Longrightarrow> f u x = Inr v \<Longrightarrow> P v"
  shows "P t"
  using assms
proof (induction xs arbitrary: s)
  case (Cons x xs)
  from Cons.prems(1) obtain s' where "f s x = Inr s'" "try_fold f s' xs = Inr t"
    by (auto simp: try_bind_Inr_iff)
  with Cons.prems(2,3) Cons.IH [of s'] show ?case by (metis list.set_intros)
qed simp

section \<open>Checked and saturating arithmetic\<close>

definition checked_add :: "'a::len word \<Rightarrow> 'a word \<Rightarrow> 'a word option" where
  "checked_add a b = (if unat a + unat b < 2 ^ LENGTH('a) then Some (a + b) else None)"

definition checked_sub :: "'a::len word \<Rightarrow> 'a word \<Rightarrow> 'a word option" where
  "checked_sub a b = (if b \<le> a then Some (a - b) else None)"

definition checked_mul :: "'a::len word \<Rightarrow> 'a word \<Rightarrow> 'a word option" where
  "checked_mul a b = (if unat a * unat b < 2 ^ LENGTH('a) then Some (a * b) else None)"

definition saturating_add :: "'a::len word \<Rightarrow> 'a word \<Rightarrow> 'a word" where
  "saturating_add a b = (if unat a + unat b < 2 ^ LENGTH('a) then a + b else - 1)"

definition saturating_sub :: "'a::len word \<Rightarrow> 'a word \<Rightarrow> 'a word" where
  "saturating_sub a b = (if b \<le> a then a - b else 0)"

text \<open>\<open>try_from\<close> between unsigned types, and checked addition on \<open>usize\<close>.\<close>

definition narrow :: "'a::len word \<Rightarrow> 'b::len word option" where
  "narrow x = (if unat x < 2 ^ LENGTH('b) then Some (ucast x) else None)"

definition usize_add :: "nat \<Rightarrow> nat \<Rightarrow> nat option" where
  "usize_add a b = (if a + b < 2 ^ 64 then Some (a + b) else None)"

definition u32_of_usize :: "nat \<Rightarrow> u32 option" where
  "u32_of_usize n = (if n < 2 ^ 32 then Some (word_of_nat n) else None)"

lemma narrow_Some [checked_simps]:
  fixes x :: "'a::len word" and y :: "'b::len word"
  shows "narrow x = Some y \<longleftrightarrow> unat x = unat y"
proof
  assume "narrow x = Some y"
  then show "unat x = unat y"
    by (auto simp: narrow_def unsigned_ucast_eq take_bit_nat_eq_self split: if_splits)
next
  assume eq: "unat x = unat y"
  then have less: "unat x < 2 ^ LENGTH('b)" using unsigned_less [of y, where ?'a = nat] by simp
  then have "unat (ucast x :: 'b word) = unat y"
    using eq by (simp add: unsigned_ucast_eq take_bit_nat_eq_self)
  then show "narrow x = Some y" using less by (simp add: narrow_def word_unat_eq_iff)
qed

lemma narrow_None [checked_simps]:
  fixes x :: "'a::len word"
  shows "(narrow x :: 'b::len word option) = None \<longleftrightarrow> 2 ^ LENGTH('b) \<le> unat x"
  by (auto simp: narrow_def)

lemma usize_add_Some [checked_simps]: "usize_add a b = Some c \<longleftrightarrow> a + b < 2 ^ 64 \<and> c = a + b"
  by (auto simp: usize_add_def)

lemma u32_of_usize_Some [checked_simps]: "u32_of_usize n = Some w \<longleftrightarrow> unat w = n"
  using unsigned_less [of w, where ?'a = nat]
  by (auto simp: u32_of_usize_def unsigned_of_nat take_bit_nat_eq_self)

lemma checked_add_Some [checked_simps]:
  fixes a b c :: "'a::len word"
  shows "checked_add a b = Some c \<longleftrightarrow> unat a + unat b < 2 ^ LENGTH('a) \<and> unat c = unat a + unat b"
  unfolding checked_add_def
  by (auto simp: unat_word_ariths intro!: word_unat_eq_iff [THEN iffD2])

lemma checked_add_None [checked_simps]:
  fixes a b :: "'a::len word"
  shows "checked_add a b = None \<longleftrightarrow> 2 ^ LENGTH('a) \<le> unat a + unat b"
  by (auto simp: checked_add_def)

lemma checked_sub_Some [checked_simps]:
  "checked_sub a b = Some c \<longleftrightarrow> unat b \<le> unat a \<and> unat c = unat a - unat b"
  unfolding checked_sub_def
  by (auto simp: word_le_nat_alt unat_sub intro!: word_unat_eq_iff [THEN iffD2])

lemma checked_sub_None [checked_simps]:
  "checked_sub a b = None \<longleftrightarrow> unat a < unat b"
  by (auto simp: checked_sub_def word_le_nat_alt)

lemma checked_mul_Some [checked_simps]:
  fixes a b c :: "'a::len word"
  shows "checked_mul a b = Some c \<longleftrightarrow> unat a * unat b < 2 ^ LENGTH('a) \<and> unat c = unat a * unat b"
  unfolding checked_mul_def
  by (auto simp: unat_word_ariths intro!: word_unat_eq_iff [THEN iffD2])

lemma checked_mul_None [checked_simps]:
  fixes a b :: "'a::len word"
  shows "checked_mul a b = None \<longleftrightarrow> 2 ^ LENGTH('a) \<le> unat a * unat b"
  by (auto simp: checked_mul_def)

lemma unat_saturating_add [checked_simps]:
  fixes a b :: "'a::len word"
  shows "unat (saturating_add a b) = min (unat a + unat b) (2 ^ LENGTH('a) - 1)"
  by (auto simp: saturating_add_def unat_word_ariths unsigned_minus_1_eq_mask mask_eq_exp_minus_1 min_def)

lemma unat_saturating_sub [checked_simps]:
  "unat (saturating_sub a b) = unat a - unat b"
  by (auto simp: saturating_sub_def word_le_nat_alt unat_sub)

lemmas word_nat_order = word_less_nat_alt word_le_nat_alt

lemma unat_add_less:
  fixes a b :: "'a::len word"
  shows "unat a + unat b < 2 ^ LENGTH('a) \<Longrightarrow> unat (a + b) = unat a + unat b"
  by (simp add: unat_word_ariths)

lemma unat_mult_less:
  fixes a b :: "'a::len word"
  shows "unat a * unat b < 2 ^ LENGTH('a) \<Longrightarrow> unat (a * b) = unat a * unat b"
  by (simp add: unat_word_ariths)

lemma unat_64_less: "unat (a :: u64) < 18446744073709551616"
  using unsigned_less [of a, where ?'a = nat] by simp

lemma unat_32_less: "unat (a :: u32) < 4294967296"
  using unsigned_less [of a, where ?'a = nat] by simp

lemma unat_16_less: "unat (a :: u16) < 65536"
  using unsigned_less [of a, where ?'a = nat] by simp

lemma unat_8_less: "unat (a :: u8) < 256"
  using unsigned_less [of a, where ?'a = nat] by simp

text \<open>Widening a word (\<open>u64::from\<close>) keeps its value.\<close>

lemma unat_ucast_up:
  fixes a :: "'a::len word"
  assumes "LENGTH('a) \<le> LENGTH('b::len)"
  shows "unat (ucast a :: 'b word) = unat a"
proof -
  have "unat a < 2 ^ LENGTH('b)"
    using unsigned_less [of a, where ?'a = nat] assms
    by (meson less_le_trans one_le_numeral power_increasing)
  then show ?thesis by (simp add: unsigned_ucast_eq take_bit_nat_eq_self)
qed

lemma unat_ucast_32_64 [simp]: "unat (ucast (a :: u32) :: u64) = unat a"
  by (rule unat_ucast_up) simp

lemma unat_ucast_16_64 [simp]: "unat (ucast (a :: u16) :: u64) = unat a"
  by (rule unat_ucast_up) simp

lemma unat_ucast_8_64 [simp]: "unat (ucast (a :: u8) :: u64) = unat a"
  by (rule unat_ucast_up) simp

lemma unat_ucast_8_32 [simp]: "unat (ucast (a :: u8) :: u32) = unat a"
  by (rule unat_ucast_up) simp

lemma unat_ucast_16_32 [simp]: "unat (ucast (a :: u16) :: u32) = unat a"
  by (rule unat_ucast_up) simp

section \<open>Slices and buffers\<close>

text \<open>\<open>&xs[a..b]\<close>, and the in-place overwrite \<open>buf[off..off + ys.len()].copy_from_slice(ys)\<close>.\<close>

definition slice :: "'a list \<Rightarrow> nat \<Rightarrow> nat \<Rightarrow> 'a list" where
  "slice xs a b = take (b - a) (drop a xs)"

definition splice :: "'a list \<Rightarrow> nat \<Rightarrow> 'a list \<Rightarrow> 'a list" where
  "splice buf off ys = take off buf @ ys @ drop (off + length ys) buf"

lemma length_slice [simp]: "length (slice xs a b) = min (b - a) (length xs - a)"
  by (simp add: slice_def)

lemma slice_whole [simp]: "slice xs 0 (length xs) = xs"
  by (simp add: slice_def)

lemma slice_empty [simp]: "b \<le> a \<Longrightarrow> slice xs a b = []"
  by (simp add: slice_def)

lemma nth_slice: "i < b - a \<Longrightarrow> b \<le> length xs \<Longrightarrow> slice xs a b ! i = xs ! (a + i)"
  by (simp add: slice_def)

lemma slice_append_left:
  "b \<le> length xs \<Longrightarrow> slice (xs @ ys) a b = slice xs a b"
  by (simp add: slice_def)

lemma slice_append_right:
  "length xs \<le> a \<Longrightarrow> slice (xs @ ys) a b = slice ys (a - length xs) (b - length xs)"
  by (simp add: slice_def)

lemma slice_append_exact:
  "slice (xs @ ys @ zs) (length xs) (length xs + length ys) = ys"
  by (simp add: slice_def)

lemma slice_join: "a \<le> b \<Longrightarrow> b \<le> c \<Longrightarrow> slice xs a b @ slice xs b c = slice xs a c"
proof -
  assume "a \<le> b" "b \<le> c"
  then have "c - a = (b - a) + (c - b)" "b = (b - a) + a" by simp_all
  then show ?thesis unfolding slice_def by (metis drop_drop take_add)
qed

lemma slice_slice:
  "slice (slice xs a b) c d = slice xs (a + c) (min b (a + d))"
proof -
  have "min (d - c) (b - a - c) = min b (a + d) - (a + c)" by arith
  then show ?thesis
    by (simp add: slice_def drop_take add.commute)
qed

lemma drop_slice: "drop n (slice xs a b) = slice xs (a + n) b"
  by (simp add: slice_def drop_take add.commute)

lemma take_slice: "take n (slice xs a b) = slice xs a (min b (a + n))"
proof -
  have "min n (b - a) = min b (a + n) - a" by arith
  then show ?thesis by (simp add: slice_def)
qed

lemma set_slice: "set (slice xs a b) \<subseteq> set xs"
  unfolding slice_def by (meson order_trans set_drop_subset set_take_subset)

lemma length_splice [simp]:
  "off + length ys \<le> length buf \<Longrightarrow> length (splice buf off ys) = length buf"
  by (simp add: splice_def)

lemma splice_empty [simp]: "splice buf off [] = buf"
  by (simp add: splice_def)

lemma slice_splice_same:
  "off + length ys \<le> length buf \<Longrightarrow> slice (splice buf off ys) off (off + length ys) = ys"
  by (simp add: slice_def splice_def)

lemma take_splice_extend:
  "off + length ys \<le> length buf \<Longrightarrow> take (off + length ys) (splice buf off ys) = take off buf @ ys"
  by (simp add: splice_def)

lemma drop_splice_after:
  "off + length ys \<le> n \<Longrightarrow> n \<le> length buf \<Longrightarrow> drop n (splice buf off ys) = drop n buf"
  by (simp add: splice_def)

section \<open>Little-endian integers\<close>

text \<open>\<open>uN::from_le_bytes\<close> and \<open>uN::to_le_bytes\<close>.\<close>

fun from_le :: "bytes \<Rightarrow> 'a::len word" where
  "from_le [] = 0"
| "from_le (b # bs) = ucast b + 256 * from_le bs"

fun to_le :: "nat \<Rightarrow> 'a::len word \<Rightarrow> bytes" where
  "to_le 0 w = []"
| "to_le (Suc n) w = ucast w # to_le n (drop_bit 8 w)"

fun le_nat :: "bytes \<Rightarrow> nat" where
  "le_nat [] = 0"
| "le_nat (b # bs) = unat b + 256 * le_nat bs"

abbreviation u16_at :: "bytes \<Rightarrow> nat \<Rightarrow> u16" where
  "u16_at buf off \<equiv> from_le (slice buf off (off + 2))"

abbreviation u32_at :: "bytes \<Rightarrow> nat \<Rightarrow> u32" where
  "u32_at buf off \<equiv> from_le (slice buf off (off + 4))"

abbreviation u64_at :: "bytes \<Rightarrow> nat \<Rightarrow> u64" where
  "u64_at buf off \<equiv> from_le (slice buf off (off + 8))"

abbreviation le16 :: "u16 \<Rightarrow> bytes" where "le16 w \<equiv> to_le 2 w"
abbreviation le32 :: "u32 \<Rightarrow> bytes" where "le32 w \<equiv> to_le 4 w"
abbreviation le64 :: "u64 \<Rightarrow> bytes" where "le64 w \<equiv> to_le 8 w"

lemma length_to_le [simp, le_simps]: "length (to_le n w) = n"
  by (induction n arbitrary: w) simp_all

lemma le_nat_less: "le_nat bs < 256 ^ length bs"
proof (induction bs)
  case (Cons b bs)
  have "unat b < 256" by (rule unat_8_less)
  with Cons show ?case by simp
qed simp

lemma unat_from_le:
  "8 * length bs \<le> LENGTH('a::len) \<Longrightarrow> unat (from_le bs :: 'a word) = le_nat bs"
proof (induction bs)
  case (Cons b bs)
  let ?r = "from_le bs :: 'a word"
  have le: "8 \<le> LENGTH('a)" and IH: "unat ?r = le_nat bs" using Cons by simp_all
  have ub: "unat (ucast b :: 'a word) = unat b" using le by (simp add: unat_ucast_up)
  have total: "unat b + 256 * le_nat bs < 2 ^ LENGTH('a)"
  proof -
    have "unat b + 256 * le_nat bs < 256 ^ length (b # bs)"
      using le_nat_less [of "b # bs"] by simp
    also have "\<dots> = 2 ^ (8 * length (b # bs))" by (simp only: power_mult) simp
    also have "\<dots> \<le> 2 ^ LENGTH('a)" using Cons.prems by (intro power_increasing) simp_all
    finally show ?thesis .
  qed
  have u256: "unat (256 :: 'a word) * le_nat bs = 256 * le_nat bs"
  proof (cases "LENGTH('a) = 8")
    case True
    with Cons.prems show ?thesis by simp
  next
    case False
    with le have "9 \<le> LENGTH('a)" by simp
    then have "(2::nat) ^ 9 \<le> 2 ^ LENGTH('a)" by (intro power_increasing) simp_all
    then have "unat (256 :: 'a word) = 256"
      by (simp add: unsigned_numeral take_bit_nat_eq_self)
    then show ?thesis by simp
  qed
  have "unat (256 * ?r) = 256 * le_nat bs"
    by (rule unat_mult_less [of "256 :: 'a word" ?r, unfolded IH u256, THEN trans]) (use total in simp_all)
  then show ?case using total ub by (simp add: unat_add_less)
qed simp

lemma from_le_to_le:
  "8 \<le> LENGTH('a::len) \<Longrightarrow> from_le (to_le n (w :: 'a word)) = take_bit (8 * n) w"
proof (induction n arbitrary: w)
  case (Suc n)
  have low: "ucast (ucast w :: u8) = take_bit 8 w"
    by (rule bit_word_eqI) (auto simp: bit_simps)
  have high: "256 * take_bit (8 * n) (drop_bit 8 w) = push_bit 8 (take_bit (8 * n) (drop_bit 8 w))"
    by (simp add: push_bit_eq_mult mult.commute)
  have "take_bit (8 * Suc n) w
      = push_bit 8 (drop_bit 8 (take_bit (8 * Suc n) w)) + take_bit 8 (take_bit (8 * Suc n) w)"
    by (simp only: bits_ident)
  also have "\<dots> = push_bit 8 (take_bit (8 * n) (drop_bit 8 w)) + take_bit 8 w"
    by (simp add: drop_bit_take_bit)
  finally show ?case using Suc low high by (simp add: add.commute)
qed simp

lemma from_le_le16 [simp, le_simps]: "from_le (le16 w) = w"
  by (simp add: from_le_to_le take_bit_word_eq_self)

lemma from_le_le32 [simp, le_simps]: "from_le (le32 w) = w"
  by (simp add: from_le_to_le take_bit_word_eq_self)

lemma from_le_le64 [simp, le_simps]: "from_le (le64 w) = w"
  by (simp add: from_le_to_le take_bit_word_eq_self)


end
