(* ===== verification/Rust_Text.thy ===== *)
theory Rust_Text
  imports Prelude
begin

text \<open>
  The parts of Rust's string library the code uses, on strings held as their UTF-8
  bytes: ASCII classification and case folding, \<open>String::from_utf8_lossy\<close>,
  decimal printing and \<open>str::parse\<close> for unsigned integers, and substring search.
\<close>

section \<open>Bytes and characters\<close>

definition str_of :: "bytes \<Rightarrow> string" where
  "str_of bs = map (\<lambda>b. char_of (unat b)) bs"

definition bytes_of :: "string \<Rightarrow> bytes" where
  "bytes_of s = map (\<lambda>c. word_of_nat (of_char c)) s"

lemma length_str_of [simp]: "length (str_of bs) = length bs"
  by (simp add: str_of_def)

lemma length_bytes_of [simp]: "length (bytes_of s) = length s"
  by (simp add: bytes_of_def)

lemma str_of_bytes_of [simp]: "str_of (bytes_of s) = s"
proof -
  have "char_of (unat (word_of_nat (of_char c) :: u8)) = c" for c :: char
  proof -
    have "(of_char c :: nat) < 256" by simp
    then have "unat (word_of_nat (of_char c) :: u8) = of_char c"
      by (simp add: unsigned_of_nat take_bit_nat_eq_self)
    then show ?thesis by simp
  qed
  then show ?thesis by (simp add: str_of_def bytes_of_def comp_def)
qed

lemma bytes_of_str_of [simp]: "bytes_of (str_of bs) = bs"
proof -
  have "word_of_nat (of_char (char_of (unat b))) = b" for b :: u8
    using unat_8_less [of b] by simp
  then show ?thesis by (simp add: str_of_def bytes_of_def comp_def)
qed

definition code :: "char \<Rightarrow> nat" where
  "code c = of_char c"

lemma code_less: "code c < 256"
  by (simp add: code_def)

lemma code_inj: "code c = code d \<longleftrightarrow> c = d"
  by (simp add: code_def)

definition is_ascii_digit :: "char \<Rightarrow> bool" where
  "is_ascii_digit c \<longleftrightarrow> 48 \<le> code c \<and> code c \<le> 57"

definition to_ascii_lowercase :: "char \<Rightarrow> char" where
  "to_ascii_lowercase c = (if 65 \<le> code c \<and> code c \<le> 90 then char_of (code c + 32) else c)"

definition lowercase :: "string \<Rightarrow> string" where
  "lowercase s = map to_ascii_lowercase s"

definition eq_ignore_ascii_case :: "string \<Rightarrow> string \<Rightarrow> bool" where
  "eq_ignore_ascii_case s t \<longleftrightarrow> lowercase s = lowercase t"

lemma code_to_ascii_lowercase:
  "code (to_ascii_lowercase c) = (if 65 \<le> code c \<and> code c \<le> 90 then code c + 32 else code c)"
  by (simp add: to_ascii_lowercase_def code_def)

lemma lowercase_idem [simp]: "lowercase (lowercase s) = lowercase s"
  by (auto simp: lowercase_def simp flip: code_inj simp: code_to_ascii_lowercase)

lemma eq_ignore_ascii_case_refl [simp]: "eq_ignore_ascii_case s s"
  by (simp add: eq_ignore_ascii_case_def)

lemma eq_ignore_ascii_case_sym: "eq_ignore_ascii_case s t \<longleftrightarrow> eq_ignore_ascii_case t s"
  by (auto simp: eq_ignore_ascii_case_def)

text \<open>\<open>str::contains\<close> with a string pattern.\<close>

fun starts_with :: "'a list \<Rightarrow> 'a list \<Rightarrow> bool" where
  "starts_with s [] = True"
| "starts_with [] (p # ps) = False"
| "starts_with (c # s) (p # ps) = (c = p \<and> starts_with s ps)"

fun contains_str :: "'a list \<Rightarrow> 'a list \<Rightarrow> bool" where
  "contains_str [] p = (p = [])"
| "contains_str (c # s) p = (starts_with (c # s) p \<or> contains_str s p)"

lemma starts_with_append: "starts_with (p @ s) p"
  by (induction p) simp_all

lemma starts_with_iff: "starts_with s p \<longleftrightarrow> (\<exists>t. s = p @ t)"
  by (induction s p rule: starts_with.induct) auto

lemma contains_str_iff: "contains_str s p \<longleftrightarrow> (\<exists>a b. s = a @ p @ b)"
proof (induction s)
  case (Cons c s)
  show ?case
  proof
    assume "contains_str (c # s) p"
    then consider "starts_with (c # s) p" | "contains_str s p" by auto
    then show "\<exists>a b. c # s = a @ p @ b"
    proof cases
      case 1
      then obtain t where "c # s = [] @ p @ t" by (auto simp: starts_with_iff)
      then show ?thesis by blast
    next
      case 2
      then obtain a b where "s = a @ p @ b" using Cons.IH by blast
      then have "c # s = (c # a) @ p @ b" by simp
      then show ?thesis by blast
    qed
  next
    assume "\<exists>a b. c # s = a @ p @ b"
    then obtain a b where ab: "c # s = a @ p @ b" by blast
    show "contains_str (c # s) p"
    proof (cases a)
      case Nil
      with ab have "c # s = p @ b" by simp
      then have "starts_with (c # s) p" by (metis starts_with_append)
      then show ?thesis by simp
    next
      case (Cons x a')
      with ab have "s = a' @ p @ b" by simp
      then show ?thesis using Cons.IH by auto
    qed
  qed
qed auto

section \<open>Lossy UTF-8 decoding\<close>

text \<open>
  One step of the standard library's UTF-8 chunk iterator at the head of a nonempty
  byte string: whether a well-formed sequence starts here, and how many bytes the
  sequence, or the maximal ill-formed prefix, takes.
\<close>

definition utf8_cont :: "bytes \<Rightarrow> nat \<Rightarrow> u8 \<Rightarrow> u8 \<Rightarrow> bool" where
  "utf8_cont bs i lo hi \<longleftrightarrow> i < length bs \<and> lo \<le> bs ! i \<and> bs ! i \<le> hi"

definition utf8_step :: "bytes \<Rightarrow> bool \<times> nat" where
  "utf8_step bs =
     (let b = bs ! 0 in
      if b < 0x80 then (True, 1)
      else if 0xC2 \<le> b \<and> b \<le> 0xDF then
        (if utf8_cont bs 1 0x80 0xBF then (True, 2) else (False, 1))
      else if 0xE0 \<le> b \<and> b \<le> 0xEF then
        (let lo = (if b = 0xE0 then 0xA0 else 0x80); hi = (if b = 0xED then 0x9F else 0xBF) in
         if \<not> utf8_cont bs 1 lo hi then (False, 1)
         else if \<not> utf8_cont bs 2 0x80 0xBF then (False, 2)
         else (True, 3))
      else if 0xF0 \<le> b \<and> b \<le> 0xF4 then
        (let lo = (if b = 0xF0 then 0x90 else 0x80); hi = (if b = 0xF4 then 0x8F else 0xBF) in
         if \<not> utf8_cont bs 1 lo hi then (False, 1)
         else if \<not> utf8_cont bs 2 0x80 0xBF then (False, 2)
         else if \<not> utf8_cont bs 3 0x80 0xBF then (False, 3)
         else (True, 4))
      else (False, 1))"

lemma utf8_step_pos: "0 < snd (utf8_step bs)"
  by (simp add: utf8_step_def Let_def)

text \<open>\<open>String::from_utf8_lossy\<close>: ill-formed sequences become U+FFFD.\<close>

function from_utf8_lossy :: "bytes \<Rightarrow> bytes" where
  "from_utf8_lossy bs =
     (if bs = [] then []
      else let (ok, n) = utf8_step bs in
        (if ok then take n bs else [0xEF, 0xBF, 0xBD]) @ from_utf8_lossy (drop n bs))"
  by pat_completeness auto
termination
proof (relation "measure length")
  fix bs :: bytes and x y ok n
  assume "bs \<noteq> []" "x = utf8_step bs" "(ok, n) = x"
  moreover from this have "0 < n" using utf8_step_pos [of bs] by (metis snd_conv)
  ultimately show "(drop n bs, bs) \<in> measure length" by simp
qed simp

declare from_utf8_lossy.simps [simp del]

lemma from_utf8_lossy_Nil [simp]: "from_utf8_lossy [] = []"
  by (simp add: from_utf8_lossy.simps)

lemma from_utf8_lossy_ascii_Cons:
  "b < 0x80 \<Longrightarrow> from_utf8_lossy (b # bs) = b # from_utf8_lossy bs"
  by (subst from_utf8_lossy.simps) (simp add: utf8_step_def)

text \<open>ASCII text, which is what every section name of the formats is, decodes to itself.\<close>

lemma from_utf8_lossy_ascii:
  "(\<And>b. b \<in> set bs \<Longrightarrow> b < 0x80) \<Longrightarrow> from_utf8_lossy bs = bs"
  by (induction bs) (simp_all add: from_utf8_lossy_ascii_Cons)

section \<open>Decimal integers\<close>

definition digit_char :: "nat \<Rightarrow> char" where
  "digit_char d = char_of (48 + d)"

fun dec :: "nat \<Rightarrow> string" where
  "dec n = (if n < 10 then [digit_char n] else dec (n div 10) @ [digit_char (n mod 10)])"

declare dec.simps [simp del]

lemma dec_nonempty [simp]: "dec n \<noteq> []"
  by (subst dec.simps) simp

text \<open>Zero padding to a width, as \<open>{:0w}\<close> does.\<close>

definition dec_pad :: "nat \<Rightarrow> nat \<Rightarrow> string" where
  "dec_pad w n = replicate (w - length (dec n)) (CHR ''0'') @ dec n"

text \<open>The digits of \<open>str::parse\<close> for an unsigned type whose largest value is \<open>max\<close>.\<close>

fun parse_digits :: "nat \<Rightarrow> nat \<Rightarrow> string \<Rightarrow> nat option" where
  "parse_digits mx acc [] = Some acc"
| "parse_digits mx acc (c # cs) =
     (if \<not> is_ascii_digit c then None
      else let acc' = 10 * acc + (code c - 48) in
        if mx < acc' then None else parse_digits mx acc' cs)"

definition parse_unsigned :: "nat \<Rightarrow> string \<Rightarrow> nat option" where
  "parse_unsigned mx s =
     (case s of
        [] \<Rightarrow> None
      | c # cs \<Rightarrow>
          if c = CHR ''+'' then (if cs = [] then None else parse_digits mx 0 cs)
          else parse_digits mx 0 s)"

lemma code_digit_char: "d < 10 \<Longrightarrow> code (digit_char d) = 48 + d"
  by (simp add: digit_char_def code_def)

lemma is_ascii_digit_digit_char: "d < 10 \<Longrightarrow> is_ascii_digit (digit_char d)"
  by (simp add: is_ascii_digit_def code_digit_char)

lemma parse_digits_append:
  "parse_digits mx acc (s @ t) = Option.bind (parse_digits mx acc s) (\<lambda>a. parse_digits mx a t)"
  by (induction s arbitrary: acc) (simp_all add: Let_def)

lemma parse_digits_dec: "n \<le> mx \<Longrightarrow> parse_digits mx 0 (dec n) = Some n"
proof (induction n rule: dec.induct)
  case (1 n)
  show ?case
  proof (cases "n < 10")
    case True
    with 1 show ?thesis
      by (subst dec.simps) (simp add: is_ascii_digit_digit_char code_digit_char)
  next
    case False
    have m: "n mod 10 < 10" by simp
    from False 1 have "parse_digits mx 0 (dec (n div 10)) = Some (n div 10)" by simp
    with False 1(2) show ?thesis
      by (subst dec.simps)
        (simp add: parse_digits_append is_ascii_digit_digit_char [OF m] code_digit_char [OF m] Let_def)
  qed
qed

lemma dec_digits: "c \<in> set (dec n) \<Longrightarrow> is_ascii_digit c"
proof (induction n rule: dec.induct)
  case (1 n)
  then show ?case
    by (subst (asm) (2) dec.simps) (auto simp: is_ascii_digit_digit_char split: if_splits)
qed

lemma parse_unsigned_dec: "n \<le> mx \<Longrightarrow> parse_unsigned mx (dec n) = Some n"
proof -
  assume le: "n \<le> mx"
  have "hd (dec n) \<noteq> CHR ''+''"
  proof -
    have "is_ascii_digit (hd (dec n))" by (rule dec_digits [of _ n]) simp
    then show ?thesis by (auto simp: is_ascii_digit_def code_def)
  qed
  then show ?thesis
    using parse_digits_dec [OF le] by (cases "dec n") (simp_all add: parse_unsigned_def)
qed

lemma parse_digits_le: "parse_digits mx acc s = Some n \<Longrightarrow> acc \<le> mx \<Longrightarrow> n \<le> mx"
  by (induction s arbitrary: acc) (auto simp: Let_def split: if_splits)

lemma parse_unsigned_le: "parse_unsigned mx s = Some n \<Longrightarrow> n \<le> mx"
  unfolding parse_unsigned_def
  by (auto split: list.splits if_splits simp del: parse_digits.simps
      dest: parse_digits_le [OF _ le0])

end
