(* ===== verification/Checksums.thy ===== *)
theory Checksums
  imports Rust_Text
begin

text \<open>
  Adler-32 as the reader, the metadata parsers and the writer compute it, the checks
  built on it, and reading from a segment held as an immutable byte string
  (\<open>src/image.rs\<close>, \<open>src/types.rs\<close>, \<open>src/metadata.rs\<close>, \<open>src/writer.rs\<close>).
\<close>

section \<open>Reading from a segment\<close>

text \<open>\<open>Read::read_exact\<close> at a position of an immutable segment.\<close>

definition read_exact :: "bytes \<Rightarrow> nat \<Rightarrow> nat \<Rightarrow> bytes result" where
  "read_exact seg pos n =
     (if n = 0 \<or> pos + n \<le> length seg then Inr (slice seg pos (pos + n))
      else Inl (Io UnexpectedEof ''failed to fill whole buffer''))"

definition read_exact_at :: "bytes \<Rightarrow> u64 \<Rightarrow> u64 \<Rightarrow> bytes result" where
  "read_exact_at seg offset count = read_exact seg (unat offset) (unat count)"

lemma read_exact_Inr:
  "read_exact seg pos n = Inr bs \<longleftrightarrow>
     (n = 0 \<or> pos + n \<le> length seg) \<and> bs = slice seg pos (pos + n)"
  by (auto simp: read_exact_def)

lemma read_exact_length: "read_exact seg pos n = Inr bs \<Longrightarrow> length bs = n"
  by (auto simp: read_exact_Inr)

lemma read_exact_ok: "pos + n \<le> length seg \<Longrightarrow> read_exact seg pos n = Inr (slice seg pos (pos + n))"
  by (simp add: read_exact_def)

section \<open>Adler-32\<close>

text \<open>The body of the loop; the state is the pair of 16-bit sums, held in \<open>u32\<close>s.\<close>

fun adler32_loop :: "u32 \<times> u32 \<Rightarrow> bytes \<Rightarrow> u32 \<times> u32" where
  "adler32_loop (a, b) [] = (a, b)"
| "adler32_loop (a, b) (x # xs) =
     (let a' = (a + ucast x) mod 65521; b' = (b + a') mod 65521
      in adler32_loop (a', b') xs)"

definition adler32_update :: "u32 \<Rightarrow> bytes \<Rightarrow> u32" where
  "adler32_update checksum data =
     (let (a, b) = adler32_loop (checksum AND 0xffff, drop_bit 16 checksum) data
      in push_bit 16 b OR a)"

definition adler32 :: "bytes \<Rightarrow> u32" where
  "adler32 data = adler32_update 1 data"

text \<open>The same function as it is repeated in the other modules.\<close>

definition types_adler32 :: "bytes \<Rightarrow> u32" where
  "types_adler32 data = (let (a, b) = adler32_loop (1, 0) data in push_bit 16 b OR a)"

definition metadata_adler32 :: "bytes \<Rightarrow> u32" where
  "metadata_adler32 data = (let (a, b) = adler32_loop (1, 0) data in push_bit 16 b OR a)"

definition writer_adler32 :: "bytes \<Rightarrow> u32" where
  "writer_adler32 data = (let (a, b) = adler32_loop (1, 0) data in push_bit 16 b OR a)"

lemma adler32_start: "(1 :: u32) AND 0xffff = 1" "drop_bit 16 (1 :: u32) = 0"
  by simp_all

lemma adler32_copies [simp]:
  "types_adler32 data = adler32 data"
  "metadata_adler32 data = adler32 data"
  "writer_adler32 data = adler32 data"
  by (simp_all add: types_adler32_def metadata_adler32_def writer_adler32_def
      adler32_def adler32_update_def)

lemma adler32_loop_append:
  "adler32_loop s (xs @ ys) = adler32_loop (adler32_loop s xs) ys"
  by (induction s xs rule: adler32_loop.induct) (simp_all add: Let_def)

lemma u32_mod_less: "x mod 65521 < (65521 :: u32)"
  by (simp add: word_mod_less_divisor)

lemma adler32_loop_less:
  "xs \<noteq> [] \<Longrightarrow> fst (adler32_loop s xs) < 65521 \<and> snd (adler32_loop s xs) < 65521"
proof (induction s xs rule: adler32_loop.induct)
  case (2 a b x xs)
  then show ?case by (cases xs) (simp_all add: Let_def u32_mod_less)
qed simp

lemma take_bit_small_word:
  "unat (w :: 'a::len word) < 2 ^ n \<Longrightarrow> take_bit n w = w"
  by (simp add: word_unat_eq_iff unsigned_take_bit_eq take_bit_nat_eq_self)

text \<open>Packing two 16-bit sums into a checksum and taking them apart again.\<close>

lemma adler32_unpack:
  fixes a b :: u32
  assumes "a < 0x10000" "b < 0x10000"
  shows "(push_bit 16 b OR a) AND 0xffff = a" "drop_bit 16 (push_bit 16 b OR a) = b"
proof -
  have a: "take_bit 16 a = a"
    using assms(1) by (intro take_bit_small_word) (simp add: word_less_nat_alt)
  have b: "take_bit 16 b = b"
    using assms(2) by (intro take_bit_small_word) (simp add: word_less_nat_alt)
  have m: "(0xffff :: u32) = mask 16" by (simp add: mask_eq_exp_minus_1)
  show "(push_bit 16 b OR a) AND 0xffff = a"
    unfolding m by (subst (2) a [symmetric]) (rule bit_word_eqI, auto simp: bit_simps)
  show "drop_bit 16 (push_bit 16 b OR a) = b"
  proof (rule bit_word_eqI)
    fix n assume "n < LENGTH(32)"
    have bb: "bit b n \<longleftrightarrow> n < 16 \<and> bit b n" by (subst (1) b [symmetric]) (simp add: bit_simps)
    have "\<not> bit a (16 + n)" by (subst a [symmetric]) (simp add: bit_simps)
    then show "bit (drop_bit 16 (push_bit 16 b OR a)) n = bit b n"
      using bb by (auto simp: bit_simps)
  qed
qed

lemma adler32_repack: "push_bit 16 (drop_bit 16 c) OR (c AND 0xffff) = (c :: u32)"
proof -
  have m: "(0xffff :: u32) = mask 16" by (simp add: mask_eq_exp_minus_1)
  show ?thesis unfolding m by (rule bit_word_eqI) (auto simp: bit_simps)
qed

lemma adler32_update_Nil [simp]: "adler32_update c [] = c"
  by (simp add: adler32_update_def adler32_repack)

lemma adler32_update_append:
  "adler32_update c (xs @ ys) = adler32_update (adler32_update c xs) ys"
proof (cases "xs = []")
  case False
  let ?s = "adler32_loop (c AND 0xffff, drop_bit 16 c) xs"
  have less: "fst ?s < 0x10000" "snd ?s < 0x10000"
    using adler32_loop_less [OF False, of "(c AND 0xffff, drop_bit 16 c)"]
    by (auto simp: word_less_nat_alt)
  show ?thesis
    using adler32_unpack [OF less]
    by (simp add: adler32_update_def adler32_loop_append case_prod_beta)
qed simp

text \<open>
  The checksum's specification on natural numbers: the two sums modulo 65521. No
  intermediate value of the loop wraps around a \<open>u32\<close>.
\<close>

fun weighted_sum :: "bytes \<Rightarrow> nat" where
  "weighted_sum [] = 0"
| "weighted_sum (x # xs) = length (x # xs) * unat x + weighted_sum xs"

definition adler_low :: "bytes \<Rightarrow> nat" where
  "adler_low data = (1 + sum_list (map unat data)) mod 65521"

definition adler_high :: "bytes \<Rightarrow> nat" where
  "adler_high data = (length data + weighted_sum data) mod 65521"

lemma adler32_loop_sums:
  assumes "unat a < 65521" "unat b < 65521"
  shows "unat (fst (adler32_loop (a, b) xs)) = (unat a + sum_list (map unat xs)) mod 65521 \<and>
    unat (snd (adler32_loop (a, b) xs)) = (unat b + length xs * unat a + weighted_sum xs) mod 65521"
  using assms
proof (induction "(a, b)" xs arbitrary: a b rule: adler32_loop.induct)
  case (2 a b x xs)
  let ?a = "(a + ucast x) mod 65521 :: u32"
  let ?b = "(b + ?a) mod 65521 :: u32"
  have x: "unat x < 256" by (rule unat_8_less)
  have "unat (a + ucast x) = unat a + unat x"
    using 2(2) x by (subst unat_add_less) simp_all
  then have a': "unat ?a = (unat a + unat x) mod 65521" by (simp add: unat_mod)
  then have a'less: "unat ?a < 65521" by simp
  have "unat (b + ?a) = unat b + unat ?a"
    using 2(3) a'less by (subst unat_add_less) simp_all
  then have b': "unat ?b = (unat b + unat ?a) mod 65521" by (simp add: unat_mod)
  then have b'less: "unat ?b < 65521" by simp
  note IH = 2(1) [OF refl refl a'less b'less]
  have "(unat ?a + sum_list (map unat xs)) mod 65521
      = (unat a + sum_list (map unat (x # xs))) mod 65521"
    unfolding a' by (simp add: mod_simps add.assoc)
  moreover have "(unat ?b + length xs * unat ?a + weighted_sum xs) mod 65521
      = (unat b + length (x # xs) * unat a + weighted_sum (x # xs)) mod 65521"
  proof -
    have "(unat ?b + length xs * unat ?a + weighted_sum xs) mod 65521
        = (unat b + (unat a + unat x) + length xs * (unat a + unat x) + weighted_sum xs) mod 65521"
      unfolding a' b' by (metis (no_types, opaque_lifting) mod_add_left_eq mod_add_right_eq mod_mult_right_eq)
    also have "unat b + (unat a + unat x) + length xs * (unat a + unat x) + weighted_sum xs
        = unat b + length (x # xs) * unat a + weighted_sum (x # xs)"
      by (simp add: algebra_simps)
    finally show ?thesis .
  qed
  ultimately show ?case using IH by (simp add: Let_def)
qed simp

lemma unat_pack:
  fixes a b :: u32
  assumes "unat a < 65536" "unat b < 65536"
  shows "unat (push_bit 16 b OR a) = 65536 * unat b + unat a"
proof -
  have "push_bit 16 b OR a = push_bit 16 b + a"
  proof (rule disjunctive_add [symmetric])
    fix n
    have a: "take_bit 16 a = a" using assms(1) by (intro take_bit_small_word) simp
    show "\<not> bit (push_bit 16 b) n \<or> \<not> bit a n"
      by (subst a [symmetric]) (auto simp: bit_simps)
  qed
  moreover have "unat (push_bit 16 b) = 65536 * unat b"
    using assms(2) unat_mult_less [of 65536 b] by (simp add: push_bit_eq_mult mult.commute)
  ultimately show ?thesis using assms by (simp add: unat_add_less)
qed

lemma unat_adler32: "unat (adler32 data) = 65536 * adler_high data + adler_low data"
proof -
  let ?s = "adler32_loop (1, 0) data"
  have sums: "unat (fst ?s) = adler_low data" "unat (snd ?s) = adler_high data"
    using adler32_loop_sums [of 1 0 data] by (simp_all add: adler_low_def adler_high_def)
  have "adler_low data < 65521" "adler_high data < 65521"
    by (simp_all add: adler_low_def adler_high_def)
  with sums show ?thesis
    unfolding adler32_def adler32_update_def
    by (simp add: case_prod_beta unat_pack)
qed

lemma adler32_low: "unat (adler32 data) mod 65536 = adler_low data"
  by (simp add: unat_adler32 adler_low_def)

lemma adler32_differs:
  assumes "x \<noteq> y"
  shows "adler32 (p @ x # s) \<noteq> adler32 (p @ y # s)"
proof
  assume "adler32 (p @ x # s) = adler32 (p @ y # s)"
  then have "adler_low (p @ x # s) = adler_low (p @ y # s)"
    by (metis adler32_low)
  then have "(Suc (sum_list (map unat p) + sum_list (map unat s)) + unat x) mod 65521
      = (Suc (sum_list (map unat p) + sum_list (map unat s)) + unat y) mod 65521"
    by (simp add: adler_low_def ac_simps)
  then have "unat x mod 65521 = unat y mod 65521"
    by (simp only: nat_mod_eq_iff) (auto simp: algebra_simps)
  then have "unat x = unat y" using unat_8_less [of x] unat_8_less [of y] by simp
  with assms show False by (simp add: word_unat_eq_iff)
qed

section \<open>Checksum validation\<close>

definition validate_adler32_checksum_value :: "u32 \<Rightarrow> bytes \<Rightarrow> string \<Rightarrow> unit result" where
  "validate_adler32_checksum_value stored checksum_data label =
     (if stored \<noteq> adler32 checksum_data then Inl (Malformed (label @ '' checksum mismatch''))
      else Inr ())"

definition validate_adler32_checksum :: "bytes \<Rightarrow> nat \<Rightarrow> nat \<Rightarrow> string \<Rightarrow> unit result" where
  "validate_adler32_checksum data checksum_offset checksum_data_size label =
     validate_adler32_checksum_value (u32_at data checksum_offset)
       (slice data 0 checksum_data_size) label"

text \<open>A stored checksum of zero counts as absent.\<close>

definition validate_present_adler32_checksum :: "bytes \<Rightarrow> nat \<Rightarrow> nat \<Rightarrow> string \<Rightarrow> unit result" where
  "validate_present_adler32_checksum data checksum_offset checksum_data_size label =
     (let stored = u32_at data checksum_offset in
      if stored = 0 then Inr ()
      else validate_adler32_checksum_value stored (slice data 0 checksum_data_size) label)"

definition validate_present_ewf1_media_checksum :: "bytes \<Rightarrow> string \<Rightarrow> unit result" where
  "validate_present_ewf1_media_checksum data section_type =
     (if length data < 4 then Inr ()
      else let checksum_offset = length data - 4 in
        validate_present_adler32_checksum data checksum_offset checksum_offset
          (''EWF1 '' @ section_type))"

definition validate_raw_chunk_checksum :: "bytes \<Rightarrow> nat \<Rightarrow> unit result" where
  "validate_raw_chunk_checksum encoded logical_size =
     (if length encoded < logical_size + 4
      then Inl (Malformed ''raw chunk checksum trailer is missing'')
      else validate_adler32_checksum encoded logical_size logical_size ''raw chunk'')"

text \<open>The variant used on encoded chunks handed out to callers (\<open>src/types.rs\<close>).\<close>

definition validate_raw_data_chunk_checksum :: "bytes \<Rightarrow> nat \<Rightarrow> unit result" where
  "validate_raw_data_chunk_checksum encoded logical_size =
     (if 2 ^ 64 \<le> logical_size + 4
      then Inl (Malformed ''raw chunk checksum offset overflow'')
      else let checksum_end = logical_size + 4 in
        if length encoded < checksum_end
        then Inl (Malformed ''raw chunk checksum trailer is missing'')
        else if (from_le (slice encoded logical_size checksum_end) :: u32)
                  \<noteq> types_adler32 (slice encoded 0 logical_size)
        then Inl (Malformed ''raw chunk checksum mismatch'')
        else Inr ())"

definition TABLE_CHECKSUM_BUFFER_SIZE :: nat where
  "TABLE_CHECKSUM_BUFFER_SIZE = 64 * 1024"

text \<open>The streaming loop of \<open>stream_adler32\<close>: the cursor, what remains, the sum so far.\<close>

function stream_adler32_loop :: "bytes \<Rightarrow> nat \<Rightarrow> nat \<Rightarrow> u32 \<Rightarrow> u32 result" where
  "stream_adler32_loop seg pos remaining checksum =
     (if remaining = 0 then Inr checksum
      else let n = min remaining TABLE_CHECKSUM_BUFFER_SIZE in
        try_bind (read_exact seg pos n) (\<lambda>buffer.
          stream_adler32_loop seg (pos + n) (remaining - n) (adler32_update checksum buffer)))"
  by pat_completeness auto
termination
  by (relation "measure (\<lambda>(seg, pos, remaining, checksum). remaining)")
    (auto simp: TABLE_CHECKSUM_BUFFER_SIZE_def)

declare stream_adler32_loop.simps [simp del]

definition stream_adler32 :: "bytes \<Rightarrow> u64 \<Rightarrow> u64 \<Rightarrow> u32 result" where
  "stream_adler32 seg offset count = stream_adler32_loop seg (unat offset) (unat count) 1"

definition validate_present_table_entries_checksum ::
    "bytes \<Rightarrow> u64 \<Rightarrow> u64 \<Rightarrow> u64 \<Rightarrow> string \<Rightarrow> unit result" where
  "validate_present_table_entries_checksum seg entries_offset entry_bytes checksum_offset label =
     try_bind (read_exact_at seg checksum_offset 4) (\<lambda>checksum.
       let stored = from_le checksum in
       if stored = (0 :: u32) then Inr ()
       else try_bind (stream_adler32 seg entries_offset entry_bytes) (\<lambda>calculated.
         if stored \<noteq> calculated then Inl (Malformed (label @ '' checksum mismatch''))
         else Inr ()))"

lemma stream_adler32_loop_ok:
  "pos + remaining \<le> length seg \<Longrightarrow>
   stream_adler32_loop seg pos remaining c
     = Inr (adler32_update c (slice seg pos (pos + remaining)))"
proof (induction seg pos remaining c rule: stream_adler32_loop.induct)
  case (1 seg pos remaining checksum)
  show ?case
  proof (cases "remaining = 0")
    case False
    define n where "n = min remaining TABLE_CHECKSUM_BUFFER_SIZE"
    have n: "n \<le> remaining" by (simp add: n_def)
    then have "stream_adler32_loop seg pos remaining checksum
        = stream_adler32_loop seg (pos + n) (remaining - n)
            (adler32_update checksum (slice seg pos (pos + n)))"
      using False 1(2)
      by (subst stream_adler32_loop.simps) (simp add: Let_def read_exact_ok flip: n_def)
    also have "\<dots> = Inr (adler32_update (adler32_update checksum (slice seg pos (pos + n)))
        (slice seg (pos + n) (pos + remaining)))"
      using 1(1) [OF False n_def read_exact_ok] 1(2) n by simp
    finally show ?thesis
      by (simp add: n slice_join flip: adler32_update_append)
  qed (simp add: stream_adler32_loop.simps)
qed

lemma stream_adler32_eq:
  assumes "unat offset + unat count \<le> length seg"
  shows "stream_adler32 seg offset count
    = Inr (adler32 (slice seg (unat offset) (unat offset + unat count)))"
  using assms by (simp add: stream_adler32_def adler32_def stream_adler32_loop_ok)

lemma validate_raw_chunk_checksum_ok_iff:
  "validate_raw_chunk_checksum encoded n = Inr () \<longleftrightarrow>
     n + 4 \<le> length encoded \<and> u32_at encoded n = adler32 (take n encoded)"
  by (auto simp: validate_raw_chunk_checksum_def validate_adler32_checksum_def
      validate_adler32_checksum_value_def slice_def)

end
