(* ===== verification/Codec.thy ===== *)
theory Codec
  imports Checksums
begin

text \<open>
  Fixed-width records and the tables made of them. Every table of the formats (chunk
  tables, error and session tables, memory extents, single-file hashes) is a header,
  a run of equally long entries and checksums. The interface \<open>fixed_codec\<close> states
  what a pair of an entry writer and an entry parser promises; its clients are proved
  once here and interpreted on each pair of the model.
\<close>

section \<open>Runs of equally long pieces\<close>

text \<open>The first \<open>n\<close> pieces of width \<open>w\<close>, as \<open>chunks_exact(w).take(n)\<close> yields them.\<close>

definition pieces :: "nat \<Rightarrow> nat \<Rightarrow> 'a list \<Rightarrow> 'a list list" where
  "pieces w n bs = map (\<lambda>i. slice bs (i * w) (i * w + w)) [0..<n]"

definition chunks_exact :: "nat \<Rightarrow> 'a list \<Rightarrow> 'a list list" where
  "chunks_exact w bs = pieces w (length bs div w) bs"

lemma length_pieces [simp]: "length (pieces w n bs) = n"
  by (simp add: pieces_def)

lemma pieces_0 [simp]: "pieces w 0 bs = []"
  by (simp add: pieces_def)

lemma nth_pieces: "i < n \<Longrightarrow> pieces w n bs ! i = slice bs (i * w) (i * w + w)"
  by (simp add: pieces_def)

lemma pieces_Suc: "length p = w \<Longrightarrow> pieces w (Suc n) (p @ bs) = p # pieces w n bs"
proof -
  assume w: "length p = w"
  have "slice (p @ bs) (Suc i * w) (Suc i * w + w) = slice bs (i * w) (i * w + w)" for i
    using w by (simp add: slice_append_right ac_simps)
  then have "map (\<lambda>i. slice (p @ bs) (Suc i * w) (Suc i * w + w)) [0..<n] = pieces w n bs"
    unfolding pieces_def by (intro map_cong refl) blast
  moreover have "[0..<Suc n] = 0 # map Suc [0..<n]" by (metis map_Suc_upt upt_conv_Cons zero_less_Suc)
  ultimately show ?thesis
    using w unfolding pieces_def by (simp add: slice_def comp_def)
qed

lemma pieces_concat:
  "(\<And>p. p \<in> set ps \<Longrightarrow> length p = w) \<Longrightarrow> pieces w (length ps) (concat ps @ rest) = ps"
  by (induction ps) (simp_all add: pieces_Suc)

lemma length_concat_width:
  "(\<And>p. p \<in> set ps \<Longrightarrow> length p = w) \<Longrightarrow> length (concat ps) = length ps * w"
  by (induction ps) simp_all

lemma chunks_exact_concat:
  "0 < w \<Longrightarrow> (\<And>p. p \<in> set ps \<Longrightarrow> length p = w) \<Longrightarrow> chunks_exact w (concat ps) = ps"
  using pieces_concat [of ps w "[]"] by (simp add: chunks_exact_def length_concat_width)

section \<open>The interface of an entry codec\<close>

locale fixed_codec =
  fixes w :: nat
    and enc :: "'a \<Rightarrow> bytes"
    and dec :: "bytes \<Rightarrow> ewf_error + 'b"
    and view :: "'a \<Rightarrow> 'b"
    and valid :: "'a \<Rightarrow> bool"
  assumes width_pos: "0 < w"
    and length_enc: "valid x \<Longrightarrow> length (enc x) = w"
    and dec_enc: "valid x \<Longrightarrow> dec (enc x) = Inr (view x)"
begin

lemma enc_widths: "(\<And>x. x \<in> set xs \<Longrightarrow> valid x) \<Longrightarrow> p \<in> set (map enc xs) \<Longrightarrow> length p = w"
  by (auto simp: length_enc)

text \<open>Decoding the entries of a written table gives the entries back, in order.\<close>

lemma length_table:
  "(\<And>x. x \<in> set xs \<Longrightarrow> valid x) \<Longrightarrow> length (concat (map enc xs)) = length xs * w"
  using length_concat_width [of "map enc xs" w, OF enc_widths [of xs]] by simp

lemma pieces_table:
  "(\<And>x. x \<in> set xs \<Longrightarrow> valid x) \<Longrightarrow> pieces w (length xs) (concat (map enc xs) @ rest) = map enc xs"
  using pieces_concat [of "map enc xs" w rest, OF enc_widths [of xs]] by simp

lemma chunks_exact_table:
  "(\<And>x. x \<in> set xs \<Longrightarrow> valid x) \<Longrightarrow> chunks_exact w (concat (map enc xs)) = map enc xs"
  using chunks_exact_concat [of w "map enc xs", OF width_pos enc_widths [of xs]] by simp

lemma collect_table:
  "(\<And>x. x \<in> set xs \<Longrightarrow> valid x) \<Longrightarrow>
   collect_results dec (pieces w (length xs) (concat (map enc xs) @ rest)) = Inr (map view xs)"
  by (subst pieces_table) (auto simp: dec_enc list_all2_conv_all_nth collect_results_Inr)

text \<open>The entry of index \<open>i\<close> stands at \<open>i * w\<close>.\<close>

lemma slice_table:
  assumes "\<And>x. x \<in> set xs \<Longrightarrow> valid x" "i < length xs"
  shows "slice (concat (map enc xs) @ rest) (i * w) (i * w + w) = enc (xs ! i)"
  using nth_pieces [of i "length xs" w "concat (map enc xs) @ rest"] pieces_table [of xs rest] assms
  by simp

lemma dec_slice_table:
  assumes "\<And>x. x \<in> set xs \<Longrightarrow> valid x" "i < length xs"
  shows "dec (slice (concat (map enc xs) @ rest) (i * w) (i * w + w)) = Inr (view (xs ! i))"
  using slice_table [of xs i rest] assms by (simp add: dec_enc)

text \<open>Two tables of equally many entries have the same bytes only when their views agree.\<close>

lemma enc_inj_view: "valid x \<Longrightarrow> valid y \<Longrightarrow> enc x = enc y \<Longrightarrow> view x = view y"
  using dec_enc [of x] dec_enc [of y] by simp

lemma table_inj_view:
  assumes "\<And>x. x \<in> set xs \<Longrightarrow> valid x" "\<And>y. y \<in> set ys \<Longrightarrow> valid y"
    and "concat (map enc xs) = concat (map enc ys)"
  shows "map view xs = map view ys"
proof -
  have "map enc xs = map enc ys"
    using assms by (metis chunks_exact_table)
  then have len: "length xs = length ys" by (metis length_map)
  have "view (xs ! i) = view (ys ! i)" if "i < length xs" for i
    using that len assms(1,2) \<open>map enc xs = map enc ys\<close>
    by (metis enc_inj_view nth_map nth_mem)
  with len show ?thesis by (simp add: list_eq_iff_nth_eq)
qed

end

section \<open>Fields of a buffer under construction\<close>

lemma slice_splice_before:
  "b \<le> off \<Longrightarrow> off \<le> length buf \<Longrightarrow> slice (splice buf off ys) a b = slice buf a b"
  by (auto simp: slice_def splice_def intro!: nth_equalityI)

lemma slice_splice_after:
  "off + length ys \<le> a \<Longrightarrow> off + length ys \<le> length buf \<Longrightarrow>
   slice (splice buf off ys) a b = slice buf a b"
  by (simp add: slice_def splice_def)

lemma slice_splice_exact:
  "a = off \<Longrightarrow> b = off + length ys \<Longrightarrow> off + length ys \<le> length buf \<Longrightarrow>
   slice (splice buf off ys) a b = ys"
  by (simp add: slice_splice_same)

lemma slice_replicate: "slice (replicate n x) a b = replicate (min (b - a) (n - a)) x"
  by (simp add: slice_def)

lemma from_le_replicate_0 [simp]: "from_le (replicate n 0) = 0"
  by (induction n) simp_all

lemmas field_simps' = slice_splice_before slice_splice_after slice_splice_exact slice_replicate

lemma nth_splice_other:
  "off + length ys \<le> length buf \<Longrightarrow> i < off \<or> off + length ys \<le> i \<Longrightarrow>
   splice buf off ys ! i = buf ! i"
  by (auto simp: splice_def nth_append nth_drop)

lemma nth_splice_at:
  "off + length ys \<le> length buf \<Longrightarrow> i < length ys \<Longrightarrow> splice buf off ys ! (off + i) = ys ! i"
  by (simp add: splice_def nth_append)

lemma nth_splice_in:
  "off \<le> i \<Longrightarrow> i < off + length ys \<Longrightarrow> off + length ys \<le> length buf \<Longrightarrow>
   splice buf off ys ! i = ys ! (i - off)"
  using nth_splice_at [of off ys buf "i - off"] by simp

lemma list_update_splice: "i < length buf \<Longrightarrow> buf[i := v] = splice buf i [v]"
  by (simp add: splice_def upd_conv_take_nth_drop)

lemmas nth_field_simps = nth_splice_other nth_splice_in

end
