(* ===== verification/Ewf1_Format.thy ===== *)
theory Ewf1_Format
  imports Codec
begin

text \<open>
  The fixed records of EWF1 files (\<open>src/format/ewf1.rs\<close>), the routines of
  \<open>src/writer.rs\<close> that write them, and the scan for the X-Ways encryption section
  (\<open>src/encryption.rs\<close> for the section's contents). The lemmas are the round trips
  between the writer's records and the parsers.
\<close>

section \<open>Formats and their producers\<close>

datatype image_format = FormatEwf1 | FormatEwf2

datatype format_profile =
    ProfileUnknown | EnCase1 | EnCase2 | EnCase3 | EnCase4 | EnCase5 | EnCase6 | EnCase7
  | Smart | FtkImager | Linen5 | Linen6 | Linen7 | LogicalEnCase5 | LogicalEnCase6
  | LogicalEnCase7 | Ewf2EnCase7 | Ewf2LogicalEnCase7 | ProfileEwf | Ewfx

section \<open>Constants\<close>

definition EVF_SIGNATURE :: bytes where
  "EVF_SIGNATURE = [0x45, 0x56, 0x46, 0x09, 0x0d, 0x0a, 0xff, 0x00]"

definition LVF_SIGNATURE :: bytes where
  "LVF_SIGNATURE = [0x4c, 0x56, 0x46, 0x09, 0x0d, 0x0a, 0xff, 0x00]"

definition XWAYS_ENCRYPTED_ZLIB_MARKER :: u8 where "XWAYS_ENCRYPTED_ZLIB_MARKER = 0x81"
definition XWAYS_ENCRYPTED_ZSTD_MARKER :: u8 where "XWAYS_ENCRYPTED_ZSTD_MARKER = 0xa1"

text \<open>The two sizes every offset computation uses are abbreviations, as numerals.\<close>

abbreviation (input) FILE_HEADER_SIZE :: nat where "FILE_HEADER_SIZE \<equiv> 13"
abbreviation (input) SECTION_DESCRIPTOR_SIZE :: nat where "SECTION_DESCRIPTOR_SIZE \<equiv> 76"
abbreviation (input) VOLUME_DATA_SIZE :: nat where "VOLUME_DATA_SIZE \<equiv> 1052"
abbreviation (input) SMART_VOLUME_SIZE :: nat where "SMART_VOLUME_SIZE \<equiv> 94"

section \<open>Data\<close>

record ewf1_file_header =
  eh_segment_number :: u16
  eh_logical :: bool
  eh_format_marker :: u8

record ewf1_section_descriptor =
  sd_section_type :: string
  sd_next :: u64
  sd_size :: u64
  sd_offset :: u64
  sd_compression_method :: "string option"

record ewf1_volume =
  vol_chunk_count :: u32
  vol_sectors_per_chunk :: u32
  vol_bytes_per_sector :: u32
  vol_sector_count :: u64
  vol_set_identifier :: "bytes option"
  vol_media_type :: "u8 option"
  vol_media_flags :: "u8 option"
  vol_compression_level :: "u8 option"
  vol_error_granularity :: "u32 option"
  vol_smart :: bool

record ewf1_table_entry =
  te1_compressed :: bool
  te1_offset :: u64
  te1_raw :: u32

section \<open>Parsers\<close>

definition ewf1_file_header_parse :: "bytes \<Rightarrow> ewf1_file_header result" where
  "ewf1_file_header_parse buf =
     (if length buf < FILE_HEADER_SIZE then Inl (BufferTooShort FILE_HEADER_SIZE (length buf))
      else try_bind
        (if slice buf 0 8 = EVF_SIGNATURE then Inr False
         else if slice buf 0 8 = LVF_SIGNATURE then Inr True
         else Inl InvalidSignature)
        (\<lambda>logical. Inr \<lparr>eh_segment_number = from_le [buf ! 9, buf ! 10],
            eh_logical = logical, eh_format_marker = buf ! 8\<rparr>))"

text \<open>\<open>iter().position(|&b| b == 0).unwrap_or(len)\<close>.\<close>

definition zero_position :: "bytes \<Rightarrow> nat" where
  "zero_position bs = length (takeWhile (\<lambda>b. b \<noteq> 0) bs)"

definition ewf1_section_descriptor_parse :: "bytes \<Rightarrow> u64 \<Rightarrow> ewf1_section_descriptor result" where
  "ewf1_section_descriptor_parse buf offset =
     (if length buf < SECTION_DESCRIPTOR_SIZE
      then Inl (BufferTooShort SECTION_DESCRIPTOR_SIZE (length buf))
      else let type_end = zero_position (slice buf 0 16);
        compression_end = zero_position (slice buf 32 72)
        in Inr \<lparr>sd_section_type = str_of (from_utf8_lossy (slice buf 0 type_end)),
             sd_next = u64_at buf 16,
             sd_size = u64_at buf 24,
             sd_offset = offset,
             sd_compression_method =
               (if 0 < compression_end
                then Some (str_of (from_utf8_lossy (slice buf 32 (32 + compression_end))))
                else None)\<rparr>)"

definition ewf1_data_size :: "ewf1_section_descriptor \<Rightarrow> u64 result" where
  "ewf1_data_size d =
     (if sd_size d = 0 \<and> sd_section_type d \<in> {''done'', ''next''} then Inr 0
      else ok_or (checked_sub (sd_size d) 76)
        (Malformed ''section is smaller than descriptor''))"

definition ewf1_volume_parse :: "bytes \<Rightarrow> ewf1_volume result" where
  "ewf1_volume_parse buf =
     (if length buf < 24 then Inl (BufferTooShort 24 (length buf))
      else let smart_volume = (length buf = SMART_VOLUME_SIZE);
        sector_count = (if smart_volume then ucast (u32_at buf 16) else u64_at buf 16);
        set_identifier =
          (if smart_volume then None
           else if length buf < 80 then None
           else if slice buf 64 80 \<noteq> replicate 16 0 then Some (slice buf 64 80) else None);
        has_full_volume_profile = (\<not> smart_volume \<and> VOLUME_DATA_SIZE \<le> length buf);
        error_granularity =
          (if has_full_volume_profile \<and> u32_at buf 56 \<noteq> 0 then Some (u32_at buf 56) else None)
        in Inr \<lparr>vol_chunk_count = u32_at buf 4,
             vol_sectors_per_chunk = u32_at buf 8,
             vol_bytes_per_sector = u32_at buf 12,
             vol_sector_count = sector_count,
             vol_set_identifier = set_identifier,
             vol_media_type = (if has_full_volume_profile then Some (buf ! 0) else None),
             vol_media_flags = (if has_full_volume_profile then Some (buf ! 36) else None),
             vol_compression_level = (if 52 < length buf then Some (buf ! 52) else None),
             vol_error_granularity = error_granularity,
             vol_smart = smart_volume\<rparr>)"

definition ewf1_chunk_size :: "ewf1_volume \<Rightarrow> u64 result" where
  "ewf1_chunk_size v =
     ok_or (checked_mul (ucast (vol_sectors_per_chunk v)) (ucast (vol_bytes_per_sector v)))
       (Malformed ''EWF1 chunk size overflow'')"

definition ewf1_logical_size :: "ewf1_volume \<Rightarrow> u64 result" where
  "ewf1_logical_size v =
     ok_or (checked_mul (vol_sector_count v) (ucast (vol_bytes_per_sector v)))
       (Malformed ''EWF1 logical size overflow'')"

definition ewf1_table_entry_parse :: "bytes \<Rightarrow> ewf1_table_entry result" where
  "ewf1_table_entry_parse buf =
     (if length buf < 4 then Inl (BufferTooShort 4 (length buf))
      else let raw = u32_at buf 0 in
        Inr \<lparr>te1_compressed = (raw AND 0x80000000 \<noteq> 0),
          te1_offset = ucast (raw AND 0x7fffffff), te1_raw = raw\<rparr>)"

text \<open>The chunk size of a volume never overflows: two 32-bit factors fit 64 bits.\<close>

lemma ewf1_chunk_size_ok:
  "ewf1_chunk_size v = Inr (ucast (vol_sectors_per_chunk v) * ucast (vol_bytes_per_sector v))"
proof -
  have "unat (vol_sectors_per_chunk v) * unat (vol_bytes_per_sector v) < 4294967296 * 4294967296"
    by (intro mult_strict_mono unat_32_less) simp_all
  then show ?thesis by (simp add: ewf1_chunk_size_def checked_mul_def)
qed

lemma ewf1_data_size_le:
  assumes "ewf1_data_size d = Inr n"
  shows "unat n \<le> unat (sd_size d)"
  using assms by (auto simp: ewf1_data_size_def checked_simps split: if_splits)

end
