(* ===== verification/Range_Tables.thy ===== *)
theory Range_Tables
  imports Codec
begin

text \<open>
  The small tables of a segment and their writers: acquisition errors and sessions
  (\<open>src/metadata.rs\<close>, \<open>src/writer.rs\<close>), memory extents and the auxiliary tables of
  single files (\<open>src/image.rs\<close>, \<open>src/writer.rs\<close>). The lemmas: every payload the writer
  emits parses back to what it was made of, its checksums verified; what a session table
  means is stated on its entries.
\<close>

record acquisition_error =
  ae_first_sector :: u64
  ae_sector_count :: u64

record sector_range =
  sr_first_sector :: u64
  sr_sector_count :: u64

record memory_extent =
  me_start_page :: u64
  me_page_count :: u64

section \<open>Writing error tables\<close>

definition ewf1_error_entry :: "acquisition_error \<Rightarrow> bytes result" where
  "ewf1_error_entry err =
     try_bind (ok_or (narrow (ae_first_sector err))
       (Unsupported ''EWF1 writer acquisition error first sector exceeds u32'')) (\<lambda>first :: u32.
     try_bind (ok_or (narrow (ae_sector_count err))
       (Unsupported ''EWF1 writer acquisition error sector count exceeds u32'')) (\<lambda>count :: u32.
     Inr (le32 first @ le32 count)))"

definition ewf1_error2_payload :: "acquisition_error list \<Rightarrow> bytes option result" where
  "ewf1_error2_payload errors =
     (if errors = [] then Inr None
      else
      try_bind (ok_or (u32_of_usize (length errors))
        (Unsupported ''EWF1 writer acquisition error count exceeds u32'')) (\<lambda>entry_count.
      let payload = splice (replicate 520 0) 0 (le32 entry_count);
        payload = splice payload 516 (le32 (writer_adler32 (slice payload 0 516)));
        entries_start = length payload in
      try_bind (try_fold (\<lambda>payload err. try_bind (ewf1_error_entry err) (\<lambda>entry. Inr (payload @ entry)))
        payload errors) (\<lambda>payload.
      Inr (Some (payload @ le32 (writer_adler32 (drop entries_start payload)))))))"

definition ewf2_error_entry :: "acquisition_error \<Rightarrow> bytes result" where
  "ewf2_error_entry err =
     try_bind (ok_or (narrow (ae_sector_count err))
       (Unsupported ''EWF2 writer acquisition error sector count exceeds u32'')) (\<lambda>count :: u32.
     Inr (le64 (ae_first_sector err) @ le32 count @ replicate 4 0))"

definition ewf2_error_table_payload :: "acquisition_error list \<Rightarrow> bytes option result" where
  "ewf2_error_table_payload errors =
     (if errors = [] then Inr None
      else
      try_bind (ok_or (u32_of_usize (length errors))
        (Unsupported ''EWF2 writer acquisition error count exceeds u32'')) (\<lambda>entry_count.
      let payload = splice (replicate 32 0) 0 (le32 entry_count);
        payload = splice payload 16 (le32 (writer_adler32 (slice payload 0 16)));
        entries_start = length payload in
      try_bind (try_fold (\<lambda>payload err. try_bind (ewf2_error_entry err) (\<lambda>entry. Inr (payload @ entry)))
        payload errors) (\<lambda>payload.
      Inr (Some (payload @ le32 (writer_adler32 (drop entries_start payload)) @ replicate 12 0)))))"

section \<open>Reading error tables\<close>

definition error_table_entry :: "nat \<Rightarrow> bytes \<Rightarrow> nat \<Rightarrow> acquisition_error" where
  "error_table_entry format_version data offset =
     (if format_version = 1
      then \<lparr>ae_first_sector = ucast (u32_at data offset), ae_sector_count = ucast (u32_at data (offset + 4))\<rparr>
      else \<lparr>ae_first_sector = u64_at data offset, ae_sector_count = ucast (u32_at data (offset + 8))\<rparr>)"

definition parse_error_table_data :: "bytes \<Rightarrow> nat \<Rightarrow> string \<Rightarrow> acquisition_error list result" where
  "parse_error_table_data data format_version label =
     try_bind (if format_version = 1 then Inr (520, 8, 4, 516, 516)
        else if format_version = 2 then Inr (32, 16, 16, 16, 16)
        else Inl (Malformed ''unsupported error table format version''))
       (\<lambda>(header_size, entry_size, footer_size, header_checksum_offset, header_checksum_size).
     if length data < header_size then Inl (Malformed (label @ '' section is too short''))
     else if u32_at data header_checksum_offset \<noteq> metadata_adler32 (slice data 0 header_checksum_size)
     then Inl (Malformed (label @ '' header checksum mismatch''))
     else let entry_count = unat (u32_at data 0) in
     if entry_count = 0 then Inr []
     else let entries_end = header_size + entry_count * entry_size;
       required_size = entries_end + footer_size in
     if length data < required_size then Inl (Malformed (label @ '' entries exceed section size''))
     else if u32_at data entries_end \<noteq> metadata_adler32 (slice data header_size entries_end)
     then Inl (Malformed (label @ '' entries checksum mismatch''))
     else Inr (map (\<lambda>index. error_table_entry format_version data (header_size + index * entry_size))
       [0..<entry_count]))"

definition parse_error2_data :: "bytes \<Rightarrow> acquisition_error list result" where
  "parse_error2_data data = parse_error_table_data data 1 ''error2''"

definition parse_ewf2_error_table_data :: "bytes \<Rightarrow> acquisition_error list result" where
  "parse_ewf2_error_table_data data = parse_error_table_data data 2 ''error table''"

section \<open>Sessions\<close>

definition AUDIO_TRACK_FLAG :: u32 where "AUDIO_TRACK_FLAG = 1"

definition session_layout :: "nat \<Rightarrow> (nat \<times> nat \<times> nat \<times> nat \<times> nat) result" where
  "session_layout format_version =
     (if format_version = 1 then Inr (36, 32, 4, 32, 32)
      else if format_version = 2 then Inr (32, 32, 16, 16, 16)
      else Inl (Malformed ''unsupported session section format version''))"

text \<open>
  \<open>sort_by_key\<close> is stable, as \<open>sort_key\<close> is; the key is a pair compared
  lexicographically, here as two stable passes, the lesser component first.
\<close>

definition session_entries :: "sector_range list \<Rightarrow> sector_range list \<Rightarrow> (u64 \<times> u32) list" where
  "session_entries sessions tracks =
     sort_key (\<lambda>(start_sector, flags). start_sector)
       (sort_key (\<lambda>(start_sector, flags). flags AND AUDIO_TRACK_FLAG)
         (map (\<lambda>r. (sr_first_sector r, 0)) sessions @ map (\<lambda>r. (sr_first_sector r, AUDIO_TRACK_FLAG)) tracks))"

definition session_entry :: "nat \<Rightarrow> u64 \<times> u32 \<Rightarrow> bytes result" where
  "session_entry format_version entry =
     (case entry of (start_sector, flags) \<Rightarrow>
      if format_version = 1
      then try_bind (ok_or (narrow start_sector)
        (Unsupported ''EWF1 writer session start sector exceeds u32'')) (\<lambda>start :: u32.
        Inr (le32 flags @ le32 start @ replicate 24 0))
      else Inr (le64 start_sector @ le32 flags @ replicate 20 0))"

definition session_payload ::
    "nat \<Rightarrow> sector_range list \<Rightarrow> sector_range list \<Rightarrow> bytes option result" where
  "session_payload format_version sessions tracks =
     (if sessions = [] \<and> tracks = [] then Inr None
      else let entries = session_entries sessions tracks in
      try_bind (ok_or (u32_of_usize (length entries))
        (Unsupported ''writer session entry count exceeds u32'')) (\<lambda>entry_count.
      try_bind (if format_version = 1 then Inr (36, 32, 32, 4)
          else if format_version = 2 then Inr (32, 16, 16, 16)
          else Inl (Panic ''writer only emits EWF1 or EWF2 sessions''))
        (\<lambda>(header_size, checksum_offset, checksum_data_size, footer_size).
      let payload = splice (replicate header_size 0) 0 (le32 entry_count);
        payload = splice payload checksum_offset (le32 (writer_adler32 (slice payload 0 checksum_data_size)));
        entries_start = length payload in
      try_bind (try_fold (\<lambda>payload e. try_bind (session_entry format_version e) (\<lambda>entry. Inr (payload @ entry)))
        payload entries) (\<lambda>payload.
      let payload = payload @ le32 (writer_adler32 (drop entries_start payload)) in
      Inr (Some (if 4 < footer_size then payload @ replicate (footer_size - 4) 0 else payload))))))"

definition ewf1_session_payload :: "sector_range list \<Rightarrow> sector_range list \<Rightarrow> bytes option result" where
  "ewf1_session_payload sessions tracks = session_payload 1 sessions tracks"

definition ewf2_session_table_payload :: "sector_range list \<Rightarrow> sector_range list \<Rightarrow> bytes option result" where
  "ewf2_session_table_payload sessions tracks = session_payload 2 sessions tracks"

record session_ranges =
  sess_sessions :: "sector_range list"
  sess_tracks :: "sector_range list"

text \<open>The state of the loop over the entries after the first one.\<close>

record session_state =
  ss_ranges :: session_ranges
  ss_session_start :: u64
  ss_track_start :: u64
  ss_previous_start :: u64
  ss_previous_flags :: u32
  ss_current_flags :: u32

definition session_step :: "session_state \<Rightarrow> u64 \<times> u32 \<Rightarrow> session_state result" where
  "session_step st entry =
     (case entry of (start_sector, flags) \<Rightarrow>
      if start_sector < ss_previous_start st then Inl (Malformed ''session start sector moves backwards'')
      else
      let st = (if flags AND AUDIO_TRACK_FLAG = 0
          then st\<lparr>ss_ranges := (ss_ranges st)\<lparr>sess_sessions := sess_sessions (ss_ranges st) @
                [\<lparr>sr_first_sector = ss_session_start st,
                  sr_sector_count = saturating_sub start_sector (ss_session_start st)\<rparr>]\<rparr>,
              ss_session_start := start_sector\<rparr>
          else st);
        st = (if ss_previous_flags st AND AUDIO_TRACK_FLAG \<noteq> 0
          then st\<lparr>ss_ranges := (ss_ranges st)\<lparr>sess_tracks := sess_tracks (ss_ranges st) @
                [\<lparr>sr_first_sector = ss_track_start st,
                  sr_sector_count = saturating_sub start_sector (ss_track_start st)\<rparr>]\<rparr>,
              ss_track_start := start_sector\<rparr>
          else st)
      in Inr (st\<lparr>ss_previous_start := start_sector, ss_previous_flags := flags, ss_current_flags := flags\<rparr>))"

definition session_finish :: "session_state \<Rightarrow> u64 \<Rightarrow> session_ranges" where
  "session_finish st media_sector_count =
     (let ranges = ss_ranges st;
        ranges = ranges\<lparr>sess_sessions := sess_sessions ranges @
          [\<lparr>sr_first_sector = ss_session_start st,
            sr_sector_count = saturating_sub media_sector_count (ss_session_start st)\<rparr>]\<rparr>
      in if ss_current_flags st AND AUDIO_TRACK_FLAG \<noteq> 0
         then ranges\<lparr>sess_tracks := sess_tracks ranges @
          [\<lparr>sr_first_sector = ss_track_start st,
            sr_sector_count = saturating_sub media_sector_count (ss_track_start st)\<rparr>]\<rparr>
         else ranges)"

definition ranges_of_entries :: "(u64 \<times> u32) list \<Rightarrow> u64 \<Rightarrow> session_ranges result" where
  "ranges_of_entries entries media_sector_count =
     try_bind (try_fold session_step
       \<lparr>ss_ranges = \<lparr>sess_sessions = [], sess_tracks = []\<rparr>, ss_session_start = 0, ss_track_start = 0,
        ss_previous_start = fst (hd entries), ss_previous_flags = snd (hd entries), ss_current_flags = 0\<rparr>
       (tl entries)) (\<lambda>st. Inr (session_finish st media_sector_count))"

definition session_table_entry :: "nat \<Rightarrow> bytes \<Rightarrow> nat \<Rightarrow> u64 \<times> u32" where
  "session_table_entry format_version data offset =
     (if format_version = 1 then (ucast (u32_at data (offset + 4)), u32_at data offset)
      else (u64_at data offset, u32_at data (offset + 8)))"

definition parse_session_data :: "bytes \<Rightarrow> nat \<Rightarrow> u64 \<Rightarrow> session_ranges result" where
  "parse_session_data data format_version media_sector_count =
     try_bind (session_layout format_version)
       (\<lambda>(header_size, entry_size, footer_size, header_checksum_offset, header_checksum_size).
     if length data < header_size then Inl (Malformed ''session section is too short'')
     else if u32_at data header_checksum_offset \<noteq> metadata_adler32 (slice data 0 header_checksum_size)
     then Inl (Malformed ''session header checksum mismatch'')
     else let entry_count = unat (u32_at data 0) in
     if entry_count = 0 then Inr \<lparr>sess_sessions = [], sess_tracks = []\<rparr>
     else let entries_end = header_size + entry_count * entry_size;
       required_size = entries_end + footer_size in
     if length data < required_size then Inl (Malformed ''session entries exceed section size'')
     else if u32_at data entries_end \<noteq> metadata_adler32 (slice data header_size entries_end)
     then Inl (Malformed ''session entries checksum mismatch'')
     else ranges_of_entries
       (map (\<lambda>index. session_table_entry format_version data (header_size + index * entry_size)) [0..<entry_count])
       media_sector_count)"

section \<open>Memory extents\<close>

definition ewf2_memory_extents_table_payload :: "memory_extent list \<Rightarrow> bytes option" where
  "ewf2_memory_extents_table_payload extents =
     (if extents = [] then None
      else Some (foldl (\<lambda>payload e. payload @ le64 (me_start_page e) @ le64 (me_page_count e)) [] extents))"

definition memory_extent_of :: "bytes \<Rightarrow> memory_extent" where
  "memory_extent_of entry =
     \<lparr>me_start_page = from_le (slice entry 0 8), me_page_count = from_le (slice entry 8 16)\<rparr>"

definition parse_ewf2_memory_extents_table :: "bytes \<Rightarrow> memory_extent list result" where
  "parse_ewf2_memory_extents_table data =
     (if length data mod 16 \<noteq> 0 then Inl (Malformed ''EWF2 memory extents table has partial entry'')
      else Inr (map memory_extent_of (chunks_exact 16 data)))"

section \<open>Auxiliary tables of single files\<close>

definition ewf2_single_files_aux_table_payload :: "nat \<Rightarrow> bytes \<Rightarrow> bytes result" where
  "ewf2_single_files_aux_table_payload entry_count entry_data =
     try_bind (ok_or (u32_of_usize entry_count) (Panic ''entry count fits u32'')) (\<lambda>entry_count.
     let payload = le32 entry_count @ replicate 12 0;
       payload = payload @ le32 (writer_adler32 payload);
       payload = payload @ replicate 12 0 @ entry_data
     in Inr (payload @ le32 (writer_adler32 entry_data) @ replicate 12 0))"

definition ewf2_single_files_aux_u64_table_payload :: "u64 list \<Rightarrow> bytes option result" where
  "ewf2_single_files_aux_u64_table_payload entries =
     (if entries = [] then Inr None
      else try_bind (ewf2_single_files_aux_table_payload (length entries)
        (foldl (\<lambda>entry_data e. entry_data @ le64 e) [] entries)) (\<lambda>payload. Inr (Some payload)))"

definition ewf2_single_files_md5_hash_table_payload :: "bytes list \<Rightarrow> bytes option result" where
  "ewf2_single_files_md5_hash_table_payload hashes =
     (if hashes = [] then Inr None
      else try_bind (ewf2_single_files_aux_table_payload (length hashes)
        (foldl (\<lambda>entry_data h. entry_data @ h) [] hashes)) (\<lambda>payload. Inr (Some payload)))"

definition parse_ewf2_single_files_aux_table :: "bytes \<Rightarrow> nat \<Rightarrow> string \<Rightarrow> (bytes \<Rightarrow> 'a) \<Rightarrow> 'a list result" where
  "parse_ewf2_single_files_aux_table data entry_size label parse_entry =
     (if length data < 32 + 4 then Inl (Malformed (label @ '' is too short''))
      else try_bind (validate_present_adler32_checksum data 16 16 (label @ '' header'')) (\<lambda>_.
      let entry_bytes = unat (u32_at data 0) * entry_size;
        entries_end = 32 + entry_bytes; footer_end = entries_end + 4 in
      if length data < footer_end then Inl (Malformed (label @ '' entries exceed section''))
      else let stored = u32_at data entries_end in
      try_bind (if stored \<noteq> 0 then validate_adler32_checksum_value stored (slice data 32 entries_end) label
        else Inr ()) (\<lambda>_.
      Inr (map parse_entry (chunks_exact entry_size (slice data 32 entries_end))))))"

definition parse_ewf2_single_files_aux_u64_table :: "bytes \<Rightarrow> string \<Rightarrow> u64 list result" where
  "parse_ewf2_single_files_aux_u64_table data label = parse_ewf2_single_files_aux_table data 8 label from_le"

definition parse_ewf2_single_files_md5_hash_table :: "bytes \<Rightarrow> bytes list result" where
  "parse_ewf2_single_files_md5_hash_table data =
     parse_ewf2_single_files_aux_table data 16 ''EWF2 single files MD5 hash table'' (\<lambda>entry. entry)"


section \<open>Written tables\<close>

text \<open>A loop that appends the bytes of each entry.\<close>

lemma append_loop_iff:
  "try_fold (\<lambda>payload e. try_bind (f e) (\<lambda>entry. Inr (payload @ entry))) start es = Inr out \<longleftrightarrow>
   (\<exists>xs. collect_results f es = Inr xs \<and> out = start @ concat xs)"
  by (induction es arbitrary: start) (fastforce simp: try_bind_Inr_iff)+

lemma foldl_append_concat: "foldl (\<lambda>acc e. acc @ f e) start es = start @ concat (map f es)"
  by (induction es arbitrary: start) simp_all

text \<open>
  The shape all of these tables share: a header with the count and a checksum over what
  precedes the checksum, the entries, their checksum, zeroes.
\<close>

definition header_of_table :: "nat \<Rightarrow> nat \<Rightarrow> u32 \<Rightarrow> bytes \<Rightarrow> bool" where
  "header_of_table header_size checksum_offset n header \<longleftrightarrow>
     length header = header_size \<and> checksum_offset + 4 \<le> header_size \<and> 4 \<le> checksum_offset \<and>
     u32_at header 0 = n \<and> u32_at header checksum_offset = adler32 (slice header 0 checksum_offset)"

definition built_header :: "nat \<Rightarrow> nat \<Rightarrow> u32 \<Rightarrow> bytes" where
  "built_header header_size checksum_offset n =
     (let payload = splice (replicate header_size 0) 0 (le32 n)
      in splice payload checksum_offset (le32 (writer_adler32 (slice payload 0 checksum_offset))))"

lemma built_header_ok:
  "4 \<le> co \<Longrightarrow> co + 4 \<le> hs \<Longrightarrow> header_of_table hs co n (built_header hs co n)"
  by (simp add: header_of_table_def built_header_def Let_def field_simps')

definition written_table :: "bytes \<Rightarrow> bytes \<Rightarrow> nat \<Rightarrow> bytes" where
  "written_table header body tail_size = header @ body @ le32 (adler32 body) @ replicate tail_size 0"

lemma written_table_fields:
  assumes "header_of_table hs co n header"
  shows "length (written_table header body k) = hs + length body + 4 + k"
    and "u32_at (written_table header body k) 0 = n"
    and "u32_at (written_table header body k) co = adler32 (slice (written_table header body k) 0 co)"
    and "u32_at (written_table header body k) (hs + length body) = adler32 body"
    and "slice (written_table header body k) hs (hs + length body) = body"
proof -
  from assms have h: "length header = hs" "co + 4 \<le> hs" "4 \<le> co" "u32_at header 0 = n"
    "u32_at header co = adler32 (slice header 0 co)" by (simp_all add: header_of_table_def)
  let ?rest = "body @ le32 (adler32 body) @ replicate k 0"
  show "length (written_table header body k) = hs + length body + 4 + k"
    using h by (simp add: written_table_def)
  show "u32_at (written_table header body k) 0 = n"
    using h slice_append_left [where b = 4 and xs = header and a = 0 and ys = ?rest] by (simp add: written_table_def)
  show "u32_at (written_table header body k) co = adler32 (slice (written_table header body k) 0 co)"
    using h slice_append_left [where b = "co + 4" and xs = header and a = co and ys = ?rest]
      slice_append_left [where b = co and xs = header and a = 0 and ys = ?rest]
    by (simp add: written_table_def)
  show "slice (written_table header body k) hs (hs + length body) = body"
    using h slice_append_exact [of header body "le32 (adler32 body) @ replicate k 0"]
    by (simp add: written_table_def)
  have "slice (written_table header body k) (hs + length body) (hs + length body + 4) = le32 (adler32 body)"
    using h slice_append_exact [of "header @ body" "le32 (adler32 body)" "replicate k 0"]
    by (simp add: written_table_def)
  then show "u32_at (written_table header body k) (hs + length body) = adler32 body" by simp
qed

text \<open>Field accesses of an entry stay inside it.\<close>

lemma slice_from_entry: "b \<le> w \<Longrightarrow> slice data (off + a) (off + b) = slice (slice data off (off + w)) a b"
  by (simp add: slice_slice min_absorb2)

lemma entry_in_table:
  assumes "slice data hs (hs + length body) = body" "i * w + w \<le> length body"
  shows "slice data (hs + i * w) (hs + i * w + w) = slice body (i * w) (i * w + w)"
proof -
  have "slice body (i * w) (i * w + w) = slice (slice data hs (hs + length body)) (i * w) (i * w + w)"
    by (simp only: assms(1))
  also have "\<dots> = slice data (hs + i * w) (hs + i * w + w)"
    using assms(2) by (simp add: slice_slice min_absorb2 add.assoc)
  finally show ?thesis ..
qed

text \<open>Reading the entries one by one at their offsets decodes the body.\<close>

section \<open>Error tables\<close>

definition error1_valid :: "acquisition_error \<Rightarrow> bool" where
  "error1_valid e \<longleftrightarrow> unat (ae_first_sector e) < 2 ^ 32 \<and> unat (ae_sector_count e) < 2 ^ 32"

definition error1_bytes :: "acquisition_error \<Rightarrow> bytes" where
  "error1_bytes e = le32 (ucast (ae_first_sector e)) @ le32 (ucast (ae_sector_count e))"

definition error2_valid :: "acquisition_error \<Rightarrow> bool" where
  "error2_valid e \<longleftrightarrow> unat (ae_sector_count e) < 2 ^ 32"

definition error2_bytes :: "acquisition_error \<Rightarrow> bytes" where
  "error2_bytes e = le64 (ae_first_sector e) @ le32 (ucast (ae_sector_count e)) @ replicate 4 0"

lemma ucast_narrowed: "unat (x :: u64) < 4294967296 \<Longrightarrow> ucast (ucast x :: u32) = x"
  using take_bit_small_word [of x 32] by (simp add: word_unat_eq_iff unsigned_ucast_eq)

lemma ewf1_error_entry_iff:
  "ewf1_error_entry e = Inr x \<longleftrightarrow> error1_valid e \<and> x = error1_bytes e"
  by (auto simp: ewf1_error_entry_def error1_valid_def error1_bytes_def try_bind_Inr_iff narrow_def)

lemma ewf2_error_entry_iff:
  "ewf2_error_entry e = Inr x \<longleftrightarrow> error2_valid e \<and> x = error2_bytes e"
  by (auto simp: ewf2_error_entry_def error2_valid_def error2_bytes_def try_bind_Inr_iff narrow_def)

lemma collect_exactly:
  assumes "\<And>e x. f e = Inr x \<longleftrightarrow> P e \<and> x = g e"
  shows "collect_results f es = Inr xs \<longleftrightarrow> (\<forall>e \<in> set es. P e) \<and> xs = map g es"
  by (induction es arbitrary: xs) (auto simp: try_bind_Inr_iff assms)

interpretation errors1: fixed_codec 8 error1_bytes "\<lambda>b. Inr (error_table_entry 1 b 0)" id error1_valid
  by unfold_locales
    (simp_all add: error1_bytes_def error1_valid_def error_table_entry_def slice_append_left slice_append_right
      ucast_narrowed slice_def)

interpretation errors2: fixed_codec 16 error2_bytes "\<lambda>b. Inr (error_table_entry 2 b 0)" id error2_valid
  by unfold_locales
    (simp_all add: error2_bytes_def error2_valid_def error_table_entry_def ucast_narrowed slice_def)


lemma error_table_entry_local:
  "error_table_entry 1 data off = error_table_entry 1 (slice data off (off + 8)) 0"
  "error_table_entry 2 data off = error_table_entry 2 (slice data off (off + 16)) 0"
  by (simp_all add: error_table_entry_def slice_slice min_absorb2 add.assoc)

lemma entries_at_offsets:
  assumes "\<And>x. x \<in> set xs \<Longrightarrow> length (enc x) = w" and "\<And>x. x \<in> set xs \<Longrightarrow> rd (enc x) = view x"
    and "slice data hs (hs + length (concat (map enc xs))) = concat (map enc xs)"
    and "\<And>off. entry data off = rd (slice data off (off + w))"
  shows "map (\<lambda>index. entry data (hs + index * w)) [0..<length xs] = map view xs"
proof (rule nth_equalityI)
  fix i assume "i < length (map (\<lambda>index. entry data (hs + index * w)) [0..<length xs])"
  then have i: "i < length xs" by simp
  have len: "length (concat (map enc xs)) = length xs * w"
    using length_concat_width [of "map enc xs" w] assms(1) by auto
  have "Suc i * w \<le> length xs * w" using i by (intro mult_le_mono1) simp
  then have le: "i * w + w \<le> length (concat (map enc xs))" by (simp add: len add.commute)
  have "slice data (hs + i * w) (hs + i * w + w) = slice (concat (map enc xs)) (i * w) (i * w + w)"
    by (rule entry_in_table [OF assms(3) le])
  also have "\<dots> = enc (xs ! i)"
  proof -
    have "pieces w (length xs) (concat (map enc xs)) = map enc xs"
      using pieces_concat [of "map enc xs" w "[]"] assms(1) by auto
    then show ?thesis using nth_pieces [of i "length xs" w "concat (map enc xs)"] i by simp
  qed
  finally show "map (\<lambda>index. entry data (hs + index * w)) [0..<length xs] ! i = map view xs ! i"
    using i assms(2) [of "xs ! i"] by (simp add: assms(4))
qed simp

lemma unat_count: "u32_of_usize (length xs) = Some n \<Longrightarrow> unat n = length xs"
  by (simp add: checked_simps)

lemma parse_written_errors:
  assumes "errors \<noteq> []" "unat n = length errors" "v = 1 \<or> v = 2"
    and "v = 1 \<Longrightarrow> header_of_table 520 516 n header \<and> (\<forall>e \<in> set errors. error1_valid e)"
    and "v = 2 \<Longrightarrow> header_of_table 32 16 n header \<and> (\<forall>e \<in> set errors. error2_valid e) \<and> 12 \<le> k"
    and "enc = (if v = 1 then error1_bytes else error2_bytes)"
  shows "parse_error_table_data (written_table header (concat (map enc errors)) k) v label = Inr errors"
proof (cases "v = 1")
  case True
  note f = written_table_fields [of 520 516 n header "concat (map error1_bytes errors)" k]
  have len: "length (concat (map error1_bytes errors)) = length errors * 8"
    using errors1.length_table [of errors] assms(4) True by simp
  have "map (\<lambda>index. error_table_entry 1 (written_table header (concat (map error1_bytes errors)) k) (520 + index * 8))
      [0..<length errors] = map id errors"
    by (rule entries_at_offsets [where enc = error1_bytes and rd = "\<lambda>b. error_table_entry 1 b 0"])
      (use assms(4) True f(5) errors1.dec_enc errors1.length_enc error_table_entry_local(1) in auto)
  then show ?thesis
    using True assms f by (simp add: parse_error_table_data_def len)
next
  case False
  then have v: "v = 2" using assms(3) by simp
  note f = written_table_fields [of 32 16 n header "concat (map error2_bytes errors)" k]
  have len: "length (concat (map error2_bytes errors)) = length errors * 16"
    using errors2.length_table [of errors] assms(5) v by simp
  have "map (\<lambda>index. error_table_entry 2 (written_table header (concat (map error2_bytes errors)) k) (32 + index * 16))
      [0..<length errors] = map id errors"
    by (rule entries_at_offsets [where enc = error2_bytes and rd = "\<lambda>b. error_table_entry 2 b 0"])
      (use assms(5) v f(5) errors2.dec_enc errors2.length_enc error_table_entry_local(2) in auto)
  then show ?thesis
    using v assms f by (simp add: parse_error_table_data_def len)
qed

lemma ewf1_error2_payload_iff:
  "errors \<noteq> [] \<Longrightarrow> ewf1_error2_payload errors = Inr p \<longleftrightarrow>
   (\<exists>n. unat n = length errors \<and> (\<forall>e \<in> set errors. error1_valid e) \<and>
     p = Some (written_table (built_header 520 516 n) (concat (map error1_bytes errors)) 0))"
  by (auto simp: ewf1_error2_payload_def try_bind_Inr_iff checked_simps Let_def append_loop_iff written_table_def
      collect_exactly [where P = error1_valid and g = error1_bytes, OF ewf1_error_entry_iff] built_header_def)

lemma ewf2_error_table_payload_iff:
  "errors \<noteq> [] \<Longrightarrow> ewf2_error_table_payload errors = Inr p \<longleftrightarrow>
   (\<exists>n. unat n = length errors \<and> (\<forall>e \<in> set errors. error2_valid e) \<and>
     p = Some (written_table (built_header 32 16 n) (concat (map error2_bytes errors)) 12))"
  by (auto simp: ewf2_error_table_payload_def try_bind_Inr_iff checked_simps Let_def append_loop_iff written_table_def
      collect_exactly [where P = error2_valid and g = error2_bytes, OF ewf2_error_entry_iff] built_header_def)

text \<open>What the writer emits for a list of errors reads back as that list.\<close>

lemma error_tables_read_back:
  "ewf1_error2_payload errors = Inr (Some p) \<Longrightarrow> parse_error2_data p = Inr errors"
  "ewf2_error_table_payload errors = Inr (Some q) \<Longrightarrow> parse_ewf2_error_table_data q = Inr errors"
proof -
  assume p: "ewf1_error2_payload errors = Inr (Some p)"
  then have ne: "errors \<noteq> []" by (auto simp: ewf1_error2_payload_def)
  with p show "parse_error2_data p = Inr errors"
    by (auto simp: ewf1_error2_payload_iff parse_error2_data_def built_header_ok intro!: parse_written_errors)
next
  assume q: "ewf2_error_table_payload errors = Inr (Some q)"
  then have ne: "errors \<noteq> []" by (auto simp: ewf2_error_table_payload_def)
  with q show "parse_ewf2_error_table_data q = Inr errors"
    by (auto simp: ewf2_error_table_payload_iff parse_ewf2_error_table_data_def built_header_ok
        intro!: parse_written_errors)
qed


section \<open>Session tables\<close>

definition session_valid :: "nat \<Rightarrow> u64 \<times> u32 \<Rightarrow> bool" where
  "session_valid v e \<longleftrightarrow> (v = 1 \<longrightarrow> unat (fst e) < 2 ^ 32)"

definition session_bytes :: "nat \<Rightarrow> u64 \<times> u32 \<Rightarrow> bytes" where
  "session_bytes v e =
     (if v = 1 then le32 (snd e) @ le32 (ucast (fst e)) @ replicate 24 0
      else le64 (fst e) @ le32 (snd e) @ replicate 20 0)"

lemma session_entry_iff:
  "session_entry v e = Inr x \<longleftrightarrow> session_valid v e \<and> x = session_bytes v e"
  by (cases e) (auto simp: session_entry_def session_valid_def session_bytes_def try_bind_Inr_iff narrow_def)

lemma session_table_entry_local:
  "session_table_entry v data off = session_table_entry v (slice data off (off + 32)) 0"
  by (simp add: session_table_entry_def slice_slice min_absorb2 add.assoc)

interpretation session_table: fixed_codec 32 "session_bytes v" "\<lambda>b. Inr (session_table_entry v b 0)" id
  "session_valid v" for v
  by unfold_locales
    (auto simp: session_bytes_def session_valid_def session_table_entry_def ucast_narrowed slice_def)

lemma parse_written_sessions:
  assumes v: "v = 1 \<and> header_of_table 36 32 n header \<or> v = 2 \<and> header_of_table 32 16 n header \<and> 12 \<le> k"
    and es: "es \<noteq> []" "unat n = length es" "\<forall>e \<in> set es. session_valid v e"
  shows "parse_session_data (written_table header (concat (map (session_bytes v) es)) k) v media
    = ranges_of_entries es media"
proof -
  have len: "length (concat (map (session_bytes v) es)) = length es * 32"
    using session_table.length_table [of es v] es(3) by simp
  let ?hs = "if v = 1 then 36 else 32 :: nat" and ?co = "if v = 1 then 32 else 16 :: nat"
  let ?t = "written_table header (concat (map (session_bytes v) es)) k"
  have h: "header_of_table ?hs ?co n header" using v by auto
  note f = written_table_fields [OF h, of "concat (map (session_bytes v) es)" k]
  have "map (\<lambda>index. session_table_entry v ?t (?hs + index * 32)) [0..<length es] = map id es"
    by (rule entries_at_offsets [where enc = "session_bytes v" and rd = "\<lambda>b. session_table_entry v b 0"])
      (use es(3) f(5) session_table.dec_enc [of v] session_table.length_enc [of v] session_table_entry_local in auto)
  then show ?thesis
    using v es f by (auto simp: parse_session_data_def session_layout_def len)
qed

lemma length_session_entries [simp]: "length (session_entries sessions tracks) = length sessions + length tracks"
  by (simp add: session_entries_def)

text \<open>The written table reads as the meaning of the sorted entries.\<close>

lemma session_payload_parses:
  assumes p: "session_payload v sessions tracks = Inr (Some p)" and v: "v = 1 \<or> v = 2"
  shows "parse_session_data p v media = ranges_of_entries (session_entries sessions tracks) media"
proof -
  let ?es = "session_entries sessions tracks"
  have some: "\<not> (sessions = [] \<and> tracks = [])" using p by (auto simp: session_payload_def)
  then have ne: "?es \<noteq> []" by (metis length_session_entries add_is_0 length_0_conv list.size(3))
  obtain n where n: "unat n = length ?es" and
    e: "\<forall>e \<in> set ?es. session_valid v e" and
    pt: "p = written_table (built_header (if v = 1 then 36 else 32) (if v = 1 then 32 else 16) n)
      (concat (map (session_bytes v) ?es)) (if v = 1 then 0 else 12)"
    using p v some
    by (auto simp: session_payload_def try_bind_Inr_iff checked_simps Let_def append_loop_iff written_table_def
      collect_exactly [where P = "session_valid v" and g = "session_bytes v", OF session_entry_iff] built_header_def)
  show ?thesis
    unfolding pt by (rule parse_written_sessions) (use v ne n e built_header_ok in auto)
qed

text \<open>Ranges that cover the sectors up to the end of the media without gap.\<close>

fun covering :: "u64 \<Rightarrow> sector_range list \<Rightarrow> u64 \<Rightarrow> bool" where
  "covering from [] media \<longleftrightarrow> from = media"
| "covering from (r # rs) media \<longleftrightarrow>
     sr_first_sector r = from \<and> 0 < sr_sector_count r \<and>
     unat from + unat (sr_sector_count r) < 2 ^ 64 \<and> covering (from + sr_sector_count r) rs media"

lemma covering_step:
  assumes "unat s + unat c < 2 ^ 64"
  shows "saturating_sub (s + c) s = (c :: u64)" "s \<le> s + c" "\<not> s + c < s"
  using assms by (simp_all add: saturating_sub_def word_le_nat_alt word_less_nat_alt unat_add_less)

lemma no_tracks_loop:
  assumes "covering s (r # rs) media" "ss_session_start st = s" "ss_previous_start st = s"
    "ss_previous_flags st = 0" "ss_current_flags st = 0"
  shows "try_bind (try_fold session_step st (map (\<lambda>r. (sr_first_sector r, 0)) rs))
      (\<lambda>st. Inr (session_finish st media))
    = Inr ((ss_ranges st)\<lparr>sess_sessions := sess_sessions (ss_ranges st) @ r # rs\<rparr>)"
  using assms
proof (induction rs arbitrary: s r st)
  case Nil
  then show ?case by (cases r) (auto simp: session_finish_def Let_def covering_step)
next
  case (Cons q rs)
  let ?st = "st\<lparr>ss_ranges := (ss_ranges st)\<lparr>sess_sessions := sess_sessions (ss_ranges st) @ [r]\<rparr>,
    ss_session_start := sr_first_sector q, ss_previous_start := sr_first_sector q,
    ss_previous_flags := 0, ss_current_flags := 0\<rparr>"
  have step: "session_step st (sr_first_sector q, 0) = Inr ?st"
    using Cons.prems by (cases r) (auto simp: session_step_def Let_def covering_step)
  have sq: "sr_first_sector q = s + sr_sector_count r" using Cons.prems(1) by simp
  show ?case using Cons.IH [of "sr_first_sector q" q ?st] Cons.prems by (simp add: step [unfolded sq])
qed

lemma both_loop:
  assumes "covering s (r # rs) media" "ss_session_start st = s" "ss_track_start st = s" "ss_previous_start st = s"
    "ss_previous_flags st = AUDIO_TRACK_FLAG" "ss_current_flags st = AUDIO_TRACK_FLAG"
  shows "try_bind (try_fold session_step st
      (concat (map (\<lambda>r. [(sr_first_sector r, 0), (sr_first_sector r, AUDIO_TRACK_FLAG)]) rs)))
      (\<lambda>st. Inr (session_finish st media))
    = Inr \<lparr>sess_sessions = sess_sessions (ss_ranges st) @ r # rs, sess_tracks = sess_tracks (ss_ranges st) @ r # rs\<rparr>"
  using assms
proof (induction rs arbitrary: s r st)
  case Nil
  then show ?case by (cases r) (auto simp: session_finish_def Let_def covering_step AUDIO_TRACK_FLAG_def)
next
  case (Cons q rs)
  let ?st = "st\<lparr>ss_ranges := \<lparr>sess_sessions = sess_sessions (ss_ranges st) @ [r],
      sess_tracks = sess_tracks (ss_ranges st) @ [r]\<rparr>,
    ss_session_start := sr_first_sector q, ss_track_start := sr_first_sector q,
    ss_previous_start := sr_first_sector q, ss_previous_flags := 0, ss_current_flags := 0\<rparr>"
  let ?st' = "?st\<lparr>ss_previous_flags := AUDIO_TRACK_FLAG, ss_current_flags := AUDIO_TRACK_FLAG\<rparr>"
  have step: "session_step st (sr_first_sector q, 0) = Inr ?st"
    using Cons.prems by (cases r) (auto simp: session_step_def Let_def covering_step AUDIO_TRACK_FLAG_def)
  have step': "session_step ?st (sr_first_sector q, AUDIO_TRACK_FLAG) = Inr ?st'"
    by (auto simp: session_step_def Let_def AUDIO_TRACK_FLAG_def)
  have sq: "sr_first_sector q = s + sr_sector_count r" using Cons.prems(1) by simp
  show ?case using Cons.IH [of "sr_first_sector q" q ?st'] Cons.prems
    by (simp add: step [unfolded sq] step' [unfolded sq])
qed

lemma covering_from: "covering from rs media \<Longrightarrow> r \<in> set rs \<Longrightarrow> from \<le> sr_first_sector r"
proof (induction rs arbitrary: "from")
  case (Cons q rs)
  then have le: "from \<le> from + sr_sector_count q" by (simp add: covering_step)
  show ?case
  proof (cases "r = q")
    case False
    then have "from + sr_sector_count q \<le> sr_first_sector r" using Cons by simp
    then show ?thesis by (rule order_trans [OF le])
  qed (use Cons.prems in simp)
qed simp

lemma covering_sorted: "covering from rs media \<Longrightarrow> sorted (map sr_first_sector rs)"
proof (induction rs arbitrary: "from")
  case (Cons q rs)
  then show ?case using covering_step(2) covering_from by (fastforce intro: order_trans)
qed simp

lemma covering_distinct: "covering from rs media \<Longrightarrow> distinct (map sr_first_sector rs)"
proof (induction rs arbitrary: "from")
  case (Cons q rs)
  let ?c = "sr_sector_count q"
  from Cons.prems have q: "sr_first_sector q = from" "0 < unat ?c" "unat from + unat ?c < 2 ^ 64"
    "covering (from + ?c) rs media" by (simp_all add: word_less_nat_alt)
  have "from < from + ?c" using q by (simp add: word_less_nat_alt unat_add_less)
  then have "from \<notin> sr_first_sector ` set rs"
    using covering_from [OF q(4)] by (auto simp: not_le [symmetric])
  then show ?case using Cons.IH [OF q(4)] q(1) by simp
qed simp

lemma entries_without_tracks:
  "covering from sessions media \<Longrightarrow> session_entries sessions [] = map (\<lambda>r. (sr_first_sector r, 0)) sessions"
  by (simp add: session_entries_def sort_key_id_if_sorted comp_def covering_sorted map_replicate_const)


definition both_entries :: "sector_range list \<Rightarrow> (u64 \<times> u32) list" where
  "both_entries rs = concat (map (\<lambda>r. [(sr_first_sector r, 0), (sr_first_sector r, AUDIO_TRACK_FLAG)]) rs)"

lemma both_entries_filter:
  "distinct (map sr_first_sector rs) \<Longrightarrow>
   filter (\<lambda>e. fst e = k) (both_entries rs) = (if k \<in> sr_first_sector ` set rs then [(k, 0), (k, AUDIO_TRACK_FLAG)] else [])"
  by (induction rs) (auto simp: both_entries_def filter_empty_conv)

lemma one_kind_filter:
  "distinct (map sr_first_sector rs) \<Longrightarrow>
   filter (\<lambda>e. fst e = k) (map (\<lambda>r. (sr_first_sector r, c)) rs) = (if k \<in> sr_first_sector ` set rs then [(k, c)] else [])"
  by (induction rs) (auto simp: filter_empty_conv)

lemma both_entries_sorted: "sorted (map sr_first_sector rs) \<Longrightarrow> sorted (map fst (both_entries rs))"
  by (induction rs) (auto simp: both_entries_def)

text \<open>A list sorted by a key is determined by the elements of each key, in order.\<close>

lemma sorted_by_filters:
  fixes f :: "'a \<Rightarrow> 'k::linorder"
  assumes "sorted (map f xs)" "sorted (map f ys)" "\<And>k. filter (\<lambda>x. f x = k) xs = filter (\<lambda>x. f x = k) ys"
  shows "xs = (ys :: 'a list)"
  using assms
proof (induction xs arbitrary: ys)
  case Nil
  show ?case using Nil.prems(3) [of "f (hd ys)"] by (cases ys) simp_all
next
  case (Cons x xs)
  have same: "u \<in> set (x # xs) \<longleftrightarrow> u \<in> set ys" for u
  proof -
    have "u \<in> set (filter (\<lambda>z. f z = f u) (x # xs)) \<longleftrightarrow> u \<in> set (filter (\<lambda>z. f z = f u) ys)"
      by (simp only: Cons.prems(3))
    then show ?thesis by (simp only: set_filter mem_Collect_eq simp_thms)
  qed
  then obtain y ys' where ys: "ys = y # ys'" by (cases ys) auto
  have "f x \<le> f y" "f y \<le> f x"
    using Cons.prems(1,2) same [of y] same [of x] by (auto simp: ys)
  then have "f x = f y" by simp
  then have xy: "x = y" using Cons.prems(3) [of "f x"] by (simp add: ys)
  have "filter (\<lambda>x. f x = k) xs = filter (\<lambda>x. f x = k) ys'" for k
    using Cons.prems(3) [of k] by (cases "f y = k") (simp_all add: ys xy)
  with Cons.IH [of ys'] Cons.prems(1,2) show ?case by (simp add: ys xy)
qed

lemma entries_with_tracks:
  assumes "covering from rs media"
  shows "session_entries rs rs = both_entries rs"
proof -
  let ?s = "map (\<lambda>r. (sr_first_sector r, 0 :: u32)) rs @ map (\<lambda>r. (sr_first_sector r, AUDIO_TRACK_FLAG)) rs"
  note d = covering_distinct [OF assms]
  have "sorted (map (\<lambda>(start_sector, flags). flags AND AUDIO_TRACK_FLAG) ?s)"
    by (auto simp: sorted_append comp_def map_replicate_const)
  note inner = sort_key_id_if_sorted [OF this]
  have "sort_key fst ?s = both_entries rs"
  proof (rule sorted_by_filters [where f = fst])
    fix k
    show "filter (\<lambda>x. fst x = k) (sort_key fst ?s) = filter (\<lambda>x. fst x = k) (both_entries rs)"
      by (simp add: sort_key_stable one_kind_filter [OF d] both_entries_filter [OF d])
  qed (simp_all add: both_entries_sorted [OF covering_sorted [OF assms]])
  then show ?thesis unfolding session_entries_def inner by (simp only: case_prod_unfold)
qed

lemma session_ranges_read_back:
  assumes c: "covering 0 sessions media" and t: "tracks = [] \<or> tracks = sessions" and ne: "sessions \<noteq> []"
  shows "ranges_of_entries (session_entries sessions tracks) media
    = Inr \<lparr>sess_sessions = sessions, sess_tracks = tracks\<rparr>"
proof -
  obtain r rs where s: "sessions = r # rs" using ne by (cases sessions) auto
  have r: "sr_first_sector r = 0" using c s by simp
  let ?st = "\<lparr>ss_ranges = \<lparr>sess_sessions = [], sess_tracks = []\<rparr>, ss_session_start = 0, ss_track_start = 0,
      ss_previous_start = 0, ss_previous_flags = 0, ss_current_flags = 0\<rparr>"
  from t show ?thesis
  proof
    assume "tracks = []"
    then show ?thesis
      using no_tracks_loop [of 0 r rs media ?st] c s r entries_without_tracks [OF c]
      by (simp add: ranges_of_entries_def)
  next
    assume t: "tracks = sessions"
    let ?st' = "?st\<lparr>ss_previous_flags := AUDIO_TRACK_FLAG, ss_current_flags := AUDIO_TRACK_FLAG\<rparr>"
    have "session_step ?st (0, AUDIO_TRACK_FLAG) = Inr ?st'"
      by (simp add: session_step_def AUDIO_TRACK_FLAG_def Let_def)
    then show ?thesis
      using both_loop [of 0 r rs media ?st'] c s r entries_with_tracks [OF c] t
      by (simp add: ranges_of_entries_def both_entries_def)
  qed
qed

section \<open>Memory extents and auxiliary tables\<close>

definition memory_extent_bytes :: "memory_extent \<Rightarrow> bytes" where
  "memory_extent_bytes e = le64 (me_start_page e) @ le64 (me_page_count e)"

interpretation memory_extents: fixed_codec 16 memory_extent_bytes "\<lambda>b. Inr (memory_extent_of b)" id "\<lambda>_. True"
  by unfold_locales (simp_all add: memory_extent_bytes_def memory_extent_of_def slice_def)

interpretation u64_entries: fixed_codec 8 le64 "\<lambda>b. Inr (from_le b)" id "\<lambda>_. True"
  by unfold_locales simp_all

interpretation md5_entries: fixed_codec 16 id Inr id "\<lambda>h. length h = 16"
  by unfold_locales simp_all

lemma memory_extents_read_back:
  "ewf2_memory_extents_table_payload extents = Some p \<Longrightarrow> parse_ewf2_memory_extents_table p = Inr extents"
proof -
  assume p: "ewf2_memory_extents_table_payload extents = Some p"
  have p': "p = concat (map memory_extent_bytes extents)"
    using p foldl_append_concat [of memory_extent_bytes "[]" extents]
    by (simp add: ewf2_memory_extents_table_payload_def memory_extent_bytes_def split: if_splits)
  have "map memory_extent_of (map memory_extent_bytes extents) = extents"
    using memory_extents.dec_enc by (intro nth_equalityI) simp_all
  then show ?thesis
    using memory_extents.chunks_exact_table [of extents] memory_extents.length_table [of extents]
    by (simp add: p' parse_ewf2_memory_extents_table_def)
qed

lemma aux_payload_table:
  assumes "ewf2_single_files_aux_table_payload k body = Inr p"
  shows "\<exists>n header. header_of_table 32 16 n header \<and> unat n = k \<and> p = written_table header body 12"
proof -
  obtain n where n: "unat n = k" and
    p: "p = (le32 n @ replicate 12 0 @ le32 (adler32 (le32 n @ replicate 12 0)) @ replicate 12 0) @
      body @ le32 (adler32 body) @ replicate 12 0"
    using assms by (auto simp: ewf2_single_files_aux_table_payload_def try_bind_Inr_iff checked_simps Let_def)
  let ?h = "le32 n @ replicate 12 0 @ le32 (adler32 (le32 n @ replicate 12 0)) @ replicate 12 (0 :: u8)"
  have "slice ?h 0 16 = le32 n @ replicate 12 0" "slice ?h 0 4 = le32 n"
    "slice ?h 16 20 = le32 (adler32 (le32 n @ replicate 12 0))"
    by (simp_all add: slice_def)
  then have "header_of_table 32 16 n ?h" by (simp add: header_of_table_def)
  then show ?thesis using n p by (auto simp: written_table_def)
qed

lemma aux_table_parses:
  assumes "header_of_table 32 16 n header" "length body = unat n * w"
  shows "parse_ewf2_single_files_aux_table (written_table header body 12) w label f
    = Inr (map f (chunks_exact w body))"
  using written_table_fields [OF assms(1), of body 12] assms(2)
  by (simp add: parse_ewf2_single_files_aux_table_def validate_present_adler32_checksum_def
      validate_adler32_checksum_value_def Let_def)

lemma aux_tables_read_back:
  "ewf2_single_files_aux_u64_table_payload entries = Inr (Some p) \<Longrightarrow>
   parse_ewf2_single_files_aux_u64_table p label = Inr entries"
  "ewf2_single_files_md5_hash_table_payload hashes = Inr (Some q) \<Longrightarrow> \<forall>h \<in> set hashes. length h = 16 \<Longrightarrow>
   parse_ewf2_single_files_md5_hash_table q = Inr hashes"
proof -
  assume "ewf2_single_files_aux_u64_table_payload entries = Inr (Some p)"
  then have "ewf2_single_files_aux_table_payload (length entries) (concat (map le64 entries)) = Inr p"
    using foldl_append_concat [of le64 "[]" entries]
    by (auto simp: ewf2_single_files_aux_u64_table_payload_def try_bind_Inr_iff split: if_splits)
  from aux_payload_table [OF this] obtain n header where h: "header_of_table 32 16 n header" "unat n = length entries"
    and p: "p = written_table header (concat (map le64 entries)) 12" by blast
  show "parse_ewf2_single_files_aux_u64_table p label = Inr entries"
    unfolding p parse_ewf2_single_files_aux_u64_table_def
    using aux_table_parses [OF h(1), of "concat (map le64 entries)" 8 label "from_le :: bytes \<Rightarrow> u64"]
      u64_entries.length_table [of entries] u64_entries.chunks_exact_table [of entries]
    by (simp add: h(2) comp_def)
next
  assume "ewf2_single_files_md5_hash_table_payload hashes = Inr (Some q)" and l: "\<forall>h \<in> set hashes. length h = 16"
  then have "ewf2_single_files_aux_table_payload (length hashes) (concat hashes) = Inr q"
    using foldl_append_concat [of id "[]" hashes]
    by (auto simp: ewf2_single_files_md5_hash_table_payload_def try_bind_Inr_iff split: if_splits)
  from aux_payload_table [OF this] obtain n header where h: "header_of_table 32 16 n header" "unat n = length hashes"
    and q: "q = written_table header (concat hashes) 12" by blast
  show "parse_ewf2_single_files_md5_hash_table q = Inr hashes"
    unfolding q parse_ewf2_single_files_md5_hash_table_def
    using aux_table_parses [OF h(1), of "concat hashes" 16 "''EWF2 single files MD5 hash table''" "\<lambda>entry. entry"]
      md5_entries.length_table [of hashes] md5_entries.chunks_exact_table [of hashes] l
    by (simp add: h(2))
qed

end
