(* ===== verification/Stored_Hashes.thy ===== *)
theory Stored_Hashes
  imports Codec
begin

text \<open>
  Digests an image stores (\<open>src/hashes.rs\<close>, \<open>src/types.rs\<close>, \<open>src/writer.rs\<close>,
  \<open>src/image.rs\<close>) and their comparison with computed ones (\<open>src/verify.rs\<close>). A
  \<open>BTreeMap\<close> from strings to strings is its list of entries in key order. The lemmas:
  the typed digests and their text agree after every insertion, what is stored is never
  replaced, and a written digest section reads back.
\<close>

section \<open>Ordered string maps\<close>

type_synonym btree = "(string \<times> string) list"

fun string_less :: "string \<Rightarrow> string \<Rightarrow> bool" where
  "string_less s [] = False"
| "string_less [] (c # t) = True"
| "string_less (b # s) (c # t) = (code b < code c \<or> b = c \<and> string_less s t)"

fun btree_insert :: "string \<Rightarrow> string \<Rightarrow> btree \<Rightarrow> btree" where
  "btree_insert k v [] = [(k, v)]"
| "btree_insert k v ((k', v') # m) =
     (if k = k' then (k, v) # m
      else if string_less k k' then (k, v) # (k', v') # m
      else (k', v') # btree_insert k v m)"

text \<open>\<open>entry(k).or_insert_with(..)\<close>.\<close>

definition btree_or_insert :: "string \<Rightarrow> string \<Rightarrow> btree \<Rightarrow> btree" where
  "btree_or_insert k v m = (case map_of m k of Some _ \<Rightarrow> m | None \<Rightarrow> btree_insert k v m)"

lemma map_of_btree_insert [simp]: "map_of (btree_insert k v m) = (map_of m)(k \<mapsto> v)"
  by (induction m) auto

lemma map_of_btree_or_insert:
  "map_of (btree_or_insert k v m) = (if map_of m k = None then (map_of m)(k \<mapsto> v) else map_of m)"
  by (auto simp: btree_or_insert_def split: option.splits)

fun strictly_ordered :: "btree \<Rightarrow> bool" where
  "strictly_ordered [] = True"
| "strictly_ordered ((k, v) # m) \<longleftrightarrow> (\<forall>k' \<in> fst ` set m. string_less k k') \<and> strictly_ordered m"

lemma string_less_trans: "string_less s t \<Longrightarrow> string_less t u \<Longrightarrow> string_less s u"
proof (induction s t arbitrary: u rule: string_less.induct)
  case (2 c t)
  then show ?case by (cases u) auto
next
  case (3 b s c t)
  then show ?case by (cases u) auto
qed simp

lemma string_less_linear: "s \<noteq> t \<Longrightarrow> \<not> string_less s t \<Longrightarrow> string_less t s"
proof (induction s t rule: string_less.induct)
  case (1 s)
  then show ?case by (cases s) auto
next
  case (3 b s c t)
  then show ?case using code_inj [of b c] by (auto simp: not_less le_less)
qed simp

lemma fst_set_btree_insert: "fst ` set (btree_insert k v m) = insert k (fst ` set m)"
  by (simp flip: dom_map_of_conv_image_fst)

lemma btree_insert_ordered: "strictly_ordered m \<Longrightarrow> strictly_ordered (btree_insert k v m)"
proof (induction m)
  case (Cons e m)
  obtain k' v' where e: "e = (k', v')" by (cases e)
  consider "k = k'" | "k \<noteq> k'" "string_less k k'" | "k \<noteq> k'" "\<not> string_less k k'" by blast
  then show ?case
  proof cases
    case 3
    then have "string_less k' k" using string_less_linear by blast
    with 3 Cons show ?thesis by (auto simp: e fst_set_btree_insert)
  qed (use Cons string_less_trans in \<open>auto simp: e\<close>)
qed simp

section \<open>Hexadecimal text\<close>

definition hex_nibble :: "char \<Rightarrow> u8 option" where
  "hex_nibble c =
     (let v = code c in
      if 48 \<le> v \<and> v \<le> 57 then Some (word_of_nat (v - 48))
      else if 97 \<le> v \<and> v \<le> 102 then Some (word_of_nat (v - 97 + 10))
      else if 65 \<le> v \<and> v \<le> 70 then Some (word_of_nat (v - 65 + 10))
      else None)"

fun parse_hex_pairs :: "string \<Rightarrow> bytes option" where
  "parse_hex_pairs (h # l # s) =
     Option.bind (hex_nibble h) (\<lambda>high. Option.bind (hex_nibble l) (\<lambda>low.
     Option.bind (parse_hex_pairs s) (\<lambda>bs. Some ((push_bit 4 high OR low) # bs))))"
| "parse_hex_pairs _ = Some []"

definition parse_hex_array :: "nat \<Rightarrow> string \<Rightarrow> bytes option" where
  "parse_hex_array n text = (if length text \<noteq> n * 2 then None else parse_hex_pairs text)"

definition hex_char :: "u8 \<Rightarrow> char" where
  "hex_char v = ''0123456789abcdef'' ! unat v"

fun hex_string :: "bytes \<Rightarrow> string" where
  "hex_string [] = []"
| "hex_string (b # bs) = hex_char (drop_bit 4 b) # hex_char (b AND 0x0f) # hex_string bs"

definition writer_hash_nibble :: "char \<Rightarrow> u8 option" where
  "writer_hash_nibble c =
     (let v = code c in
      if 48 \<le> v \<and> v \<le> 57 then Some (word_of_nat (v - 48))
      else if 97 \<le> v \<and> v \<le> 102 then Some (word_of_nat (v - 97 + 10))
      else if 65 \<le> v \<and> v \<le> 70 then Some (word_of_nat (v - 65 + 10))
      else None)"

fun parse_writer_pairs :: "string \<Rightarrow> string \<Rightarrow> bytes result" where
  "parse_writer_pairs label (h # l # s) =
     try_bind (ok_or (writer_hash_nibble h) (Unsupported (''invalid '' @ label @ '' hash value''))) (\<lambda>high.
     try_bind (ok_or (writer_hash_nibble l) (Unsupported (''invalid '' @ label @ '' hash value''))) (\<lambda>low.
     try_bind (parse_writer_pairs label s) (\<lambda>bs. Inr ((push_bit 4 high OR low) # bs))))"
| "parse_writer_pairs label _ = Inr []"

definition parse_writer_hash_value :: "nat \<Rightarrow> string \<Rightarrow> string \<Rightarrow> bytes result" where
  "parse_writer_hash_value n label value =
     (if length value \<noteq> n * 2 then Inl (Unsupported (''invalid '' @ label @ '' hash value''))
      else parse_writer_pairs label value)"

section \<open>Stored hashes\<close>

record stored_hashes =
  sh_md5 :: "bytes option"
  sh_sha1 :: "bytes option"
  sh_hash_values :: btree

definition stored_hashes_default :: stored_hashes where
  "stored_hashes_default = \<lparr>sh_md5 = None, sh_sha1 = None, sh_hash_values = []\<rparr>"

definition hash_value :: "stored_hashes \<Rightarrow> string \<Rightarrow> string option" where
  "hash_value hashes identifier = map_of (sh_hash_values hashes) identifier"

definition set_typed_hash_value ::
    "string \<Rightarrow> string \<Rightarrow> bytes option \<Rightarrow> bytes option \<Rightarrow> bytes option \<times> bytes option" where
  "set_typed_hash_value identifier value md5 sha1 =
     (if eq_ignore_ascii_case identifier ''MD5''
      then (case parse_hex_array 16 value of Some parsed \<Rightarrow> (Some parsed, sha1) | None \<Rightarrow> (md5, sha1))
      else if eq_ignore_ascii_case identifier ''SHA1''
      then (case parse_hex_array 20 value of Some parsed \<Rightarrow> (md5, Some parsed) | None \<Rightarrow> (md5, sha1))
      else (md5, sha1))"

definition stored_set_hash_value ::
    "stored_hashes \<Rightarrow> string \<Rightarrow> string \<Rightarrow> string option \<times> stored_hashes" where
  "stored_set_hash_value hashes identifier value =
     (let (md5, sha1) = set_typed_hash_value identifier value (sh_md5 hashes) (sh_sha1 hashes) in
      (map_of (sh_hash_values hashes) identifier,
       hashes\<lparr>sh_md5 := md5, sh_sha1 := sha1,
         sh_hash_values := btree_insert identifier value (sh_hash_values hashes)\<rparr>))"

definition number_of_hash_values :: "stored_hashes \<Rightarrow> nat" where
  "number_of_hash_values hashes = length (sh_hash_values hashes)"

definition hash_value_identifier :: "stored_hashes \<Rightarrow> nat \<Rightarrow> string option" where
  "hash_value_identifier hashes index =
     (if index < length (sh_hash_values hashes) then Some (fst (sh_hash_values hashes ! index)) else None)"

definition canonical_identifier :: "string \<Rightarrow> string option" where
  "canonical_identifier identifier =
     find (\<lambda>candidate. eq_ignore_ascii_case identifier candidate) [''MD5'', ''SHA1'', ''SHA256'']"

definition validate_digest :: "string \<Rightarrow> string \<Rightarrow> unit result" where
  "validate_digest identifier value =
     (let valid =
        (case canonical_identifier identifier of
           Some c \<Rightarrow>
             if c = ''MD5'' then parse_hex_array 16 value \<noteq> None
             else if c = ''SHA1'' then parse_hex_array 20 value \<noteq> None
             else parse_hex_array 32 value \<noteq> None
         | None \<Rightarrow> True)
      in if \<not> valid
         then Inl (Malformed (''invalid '' @ identifier @ '' digest: expected hexadecimal of the required length''))
         else Inr ())"

definition merge_typed :: "bytes option \<Rightarrow> bytes option \<Rightarrow> string \<Rightarrow> bytes option result" where
  "merge_typed target source identifier =
     (if target \<noteq> None \<and> target \<noteq> source
      then Inl (Malformed (''conflicting stored '' @ identifier @ '' digests''))
      else Inr source)"

definition insert_stored_hash :: "stored_hashes \<Rightarrow> string \<Rightarrow> string \<Rightarrow> stored_hashes result" where
  "insert_stored_hash hashes identifier value =
     (case canonical_identifier identifier of
        None \<Rightarrow> Inr (hashes\<lparr>sh_hash_values := btree_or_insert identifier value (sh_hash_values hashes)\<rparr>)
      | Some identifier \<Rightarrow>
          try_bind (validate_digest identifier value) (\<lambda>_.
          if (case map_of (sh_hash_values hashes) identifier of
                Some old \<Rightarrow> \<not> eq_ignore_ascii_case old value | None \<Rightarrow> False)
          then Inl (Malformed (''conflicting stored '' @ identifier @ '' digests''))
          else
          try_bind
            (if identifier = ''MD5''
             then try_bind (merge_typed (sh_md5 hashes) (parse_hex_array 16 value) identifier)
               (\<lambda>md5. Inr (hashes\<lparr>sh_md5 := md5\<rparr>))
             else if identifier = ''SHA1''
             then try_bind (merge_typed (sh_sha1 hashes) (parse_hex_array 20 value) identifier)
               (\<lambda>sha1. Inr (hashes\<lparr>sh_sha1 := sha1\<rparr>))
             else Inr hashes) (\<lambda>hashes.
          Inr (hashes\<lparr>sh_hash_values := btree_or_insert identifier value (sh_hash_values hashes)\<rparr>))))"

definition insert_hash_value :: "stored_hashes \<Rightarrow> string \<Rightarrow> bytes \<Rightarrow> stored_hashes result" where
  "insert_hash_value stored identifier hash = insert_stored_hash stored identifier (hex_string hash)"

definition merge_hashes :: "stored_hashes \<Rightarrow> stored_hashes \<Rightarrow> stored_hashes result" where
  "merge_hashes target source =
     try_bind (case sh_md5 source of
         Some hash \<Rightarrow> insert_hash_value target ''MD5'' hash | None \<Rightarrow> Inr target) (\<lambda>target.
     try_bind (case sh_sha1 source of
         Some hash \<Rightarrow> insert_hash_value target ''SHA1'' hash | None \<Rightarrow> Inr target) (\<lambda>target.
     try_fold (\<lambda>target (identifier, value). insert_stored_hash target identifier value) target
       (sh_hash_values source)))"

section \<open>Hash sections of EWF1\<close>

definition EWF1_HASH_SECTION_SIZE :: u64 where "EWF1_HASH_SECTION_SIZE = 36"
definition EWF1_DIGEST_SECTION_SIZE :: u64 where "EWF1_DIGEST_SECTION_SIZE = 80"

definition parse_nonzero_hash :: "nat \<Rightarrow> bytes \<Rightarrow> bytes option" where
  "parse_nonzero_hash n data =
     (if length data < n then None
      else let hash = take n data in
        if list_ex (\<lambda>byte. byte \<noteq> 0) hash then Some hash else None)"

definition validate_hash_section_size :: "u64 \<Rightarrow> u64 \<Rightarrow> string \<Rightarrow> unit result" where
  "validate_hash_section_size observed expected label =
     (if observed \<noteq> expected
      then Inl (Malformed (label @ '' hash section has size '' @ dec (unat observed) @ '', expected '' @
        dec (unat expected)))
      else Inr ())"

text \<open>The arms for \<open>hash\<close> and \<open>digest\<close> sections, on the section's bytes.\<close>

definition insert_nonzero_hash :: "stored_hashes \<Rightarrow> string \<Rightarrow> nat \<Rightarrow> bytes \<Rightarrow> stored_hashes result" where
  "insert_nonzero_hash hashes identifier n data =
     (case parse_nonzero_hash n data of
        Some hash \<Rightarrow> insert_hash_value hashes identifier hash | None \<Rightarrow> Inr hashes)"

definition ewf1_hash_section :: "bytes \<Rightarrow> stored_hashes \<Rightarrow> stored_hashes result" where
  "ewf1_hash_section data hashes =
     try_bind (validate_adler32_checksum data 32 32 ''EWF1 MD5 hash'') (\<lambda>_.
     insert_nonzero_hash hashes ''MD5'' 16 data)"

definition ewf1_digest_section :: "bytes \<Rightarrow> stored_hashes \<Rightarrow> stored_hashes result" where
  "ewf1_digest_section data hashes =
     try_bind (validate_adler32_checksum data 76 76 ''EWF1 digest'') (\<lambda>_.
     try_bind (insert_nonzero_hash hashes ''MD5'' 16 (slice data 0 16)) (\<lambda>hashes.
     insert_nonzero_hash hashes ''SHA1'' 20 (slice data 16 36)))"

section \<open>Hashes of the writer\<close>

text \<open>\<open>WriteHashes\<close> has the fields of \<open>StoredHashes\<close>.\<close>

type_synonym write_hashes = stored_hashes

definition write_set_hash_value ::
    "write_hashes \<Rightarrow> string \<Rightarrow> string \<Rightarrow> (string option \<times> write_hashes) result" where
  "write_set_hash_value hashes identifier value =
     try_bind (if eq_ignore_ascii_case identifier ''SHA256'' then validate_digest identifier value else Inr ()) (\<lambda>_.
     try_bind
       (if eq_ignore_ascii_case identifier ''MD5''
        then try_bind (parse_writer_hash_value 16 ''MD5'' value) (\<lambda>h. Inr (hashes\<lparr>sh_md5 := Some h\<rparr>))
        else if eq_ignore_ascii_case identifier ''SHA1''
        then try_bind (parse_writer_hash_value 20 ''SHA1'' value) (\<lambda>h. Inr (hashes\<lparr>sh_sha1 := Some h\<rparr>))
        else Inr hashes) (\<lambda>hashes.
     Inr (map_of (sh_hash_values hashes) identifier,
       hashes\<lparr>sh_hash_values := btree_insert identifier value (sh_hash_values hashes)\<rparr>)))"

definition validated_write_hashes :: "write_hashes \<Rightarrow> write_hashes result" where
  "validated_write_hashes requested =
     try_fold (\<lambda>hashes (identifier, value). insert_stored_hash hashes identifier value)
       \<lparr>sh_md5 = sh_md5 requested, sh_sha1 = sh_sha1 requested, sh_hash_values = []\<rparr>
       (sh_hash_values requested)"

definition effective_write_hashes ::
    "write_hashes \<Rightarrow> bytes \<Rightarrow> bytes \<Rightarrow> bytes \<Rightarrow> write_hashes result" where
  "effective_write_hashes requested computed_md5 computed_sha1 computed_sha256 =
     try_bind (validated_write_hashes requested) (\<lambda>hashes.
     let hashes = hashes\<lparr>sh_md5 := (case sh_md5 hashes of None \<Rightarrow> Some computed_md5 | h \<Rightarrow> h)\<rparr>;
       hashes = hashes\<lparr>sh_sha1 := (case sh_sha1 hashes of None \<Rightarrow> Some computed_sha1 | h \<Rightarrow> h)\<rparr>
     in Inr (hashes\<lparr>sh_hash_values :=
          btree_or_insert ''SHA256'' (hex_string computed_sha256) (sh_hash_values hashes)\<rparr>))"

definition digest_payload :: "write_hashes \<Rightarrow> bytes option" where
  "digest_payload hashes =
     (if sh_md5 hashes = None \<and> sh_sha1 hashes = None then None
      else let digest = replicate 80 0;
        digest = (case sh_md5 hashes of Some md5 \<Rightarrow> splice digest 0 md5 | None \<Rightarrow> digest);
        digest = (case sh_sha1 hashes of Some sha1 \<Rightarrow> splice digest 16 sha1 | None \<Rightarrow> digest);
        checksum = writer_adler32 (slice digest 0 76)
      in Some (splice digest 76 (le32 checksum)))"


section \<open>Text and digests\<close>

lemma hex_nibble_digit: "unat v < 16 \<Longrightarrow> hex_nibble (hex_char v) = Some v"
proof -
  have all: "\<forall>k \<in> set [0..<16]. hex_nibble (''0123456789abcdef'' ! k) = Some (word_of_nat k)"
    by code_simp
  assume "unat v < 16"
  then have "hex_nibble (''0123456789abcdef'' ! unat v) = Some (word_of_nat (unat v))" using all by simp
  then show ?thesis by (simp add: hex_char_def)
qed

lemma hex_nibble_chars:
  assumes "hex_nibble c = Some v"
  shows "c \<in> set ''0123456789abcdefABCDEF''"
proof -
  let ?n = "code c"
  have "?n \<in> {48..57} \<union> {97..102} \<union> {65..70}"
    using assms by (auto simp: hex_nibble_def Let_def split: if_splits)
  then have "?n \<in> set (map code ''0123456789abcdefABCDEF'')"
    by (simp add: code_def) presburger
  then show ?thesis by (auto simp: code_inj)
qed

lemma hex_char_nibble:
  assumes "hex_nibble c = Some v"
  shows "to_ascii_lowercase c = hex_char v" and "unat v < 16"
proof -
  have all: "\<forall>c \<in> set ''0123456789abcdefABCDEF''. case hex_nibble c of None \<Rightarrow> True
      | Some v \<Rightarrow> to_ascii_lowercase c = hex_char v \<and> unat v < 16"
    by code_simp
  from bspec [OF all hex_nibble_chars [OF assms]] assms
  show "to_ascii_lowercase c = hex_char v" "unat v < 16" by simp_all
qed

lemma low_nibble_mask: "(0x0f :: u8) = mask 4"
  by (simp add: mask_eq_exp_minus_1)

lemma nibbles_join: "push_bit 4 (drop_bit 4 b) OR (b AND 0x0f) = (b :: u8)"
  unfolding low_nibble_mask by (intro bit_word_eqI) (auto simp: bit_simps)

lemma unat_low_nibble: "unat (b AND 0x0f :: u8) < 16"
proof -
  have "b AND 0x0f = take_bit 4 b" by (simp only: low_nibble_mask take_bit_eq_mask)
  then have "unat (b AND 0x0f) = take_bit 4 (unat b)" by (simp add: unsigned_take_bit_eq)
  then show ?thesis by (simp add: take_bit_eq_mod)
qed

lemma unat_high_nibble: "unat (drop_bit 4 b :: u8) < 16"
proof -
  have "unat (drop_bit 4 b) = drop_bit 4 (unat b)" by (rule unat_drop_bit_eq)
  then have "unat (drop_bit 4 b) = unat b div 16" by (simp only: drop_bit_eq_div) simp
  then show ?thesis using unat_8_less [of b] by simp
qed

lemma parse_hex_string: "parse_hex_pairs (hex_string bs) = Some bs"
  by (induction bs) (simp_all add: hex_nibble_digit unat_low_nibble unat_high_nibble nibbles_join)

lemma length_hex_string [simp]: "length (hex_string bs) = length bs * 2"
  by (induction bs) simp_all

lemma parse_hex_array_hex_string: "length bs = n \<Longrightarrow> parse_hex_array n (hex_string bs) = Some bs"
  by (simp add: parse_hex_array_def parse_hex_string)

lemma nibbles_split:
  fixes h l :: u8
  assumes "unat h < 16" "unat l < 16"
  shows "drop_bit 4 (push_bit 4 h OR l) = h" "(push_bit 4 h OR l) AND 0x0f = l"
proof -
  have b: "take_bit 4 h = h" "take_bit 4 l = l" using assms by (simp_all add: take_bit_small_word)
  have hb: "bit h n \<Longrightarrow> n < 4" "bit l n \<Longrightarrow> n < 4" for n
    by (metis b(1) bit_take_bit_iff, metis b(2) bit_take_bit_iff)
  show "drop_bit 4 (push_bit 4 h OR l) = h"
    by (intro bit_word_eqI) (use hb in \<open>fastforce simp: bit_simps\<close>)
  show "(push_bit 4 h OR l) AND 0x0f = l"
    unfolding low_nibble_mask by (intro bit_word_eqI) (use hb in \<open>fastforce simp: bit_simps\<close>)
qed

text \<open>The text of a digest is its hexadecimal string, up to the case of the letters.\<close>

lemma parse_hex_pairs_text:
  "parse_hex_pairs s = Some bs \<Longrightarrow> even (length s) \<Longrightarrow> lowercase s = hex_string bs"
proof (induction s arbitrary: bs rule: parse_hex_pairs.induct)
  case (1 h l s)
  then obtain x y r where "hex_nibble h = Some x" "hex_nibble l = Some y" "parse_hex_pairs s = Some r"
    "bs = (push_bit 4 x OR y) # r" by (auto simp: bind_eq_Some_conv)
  with 1 show ?case
    using nibbles_split [OF hex_char_nibble(2) hex_char_nibble(2), of h x l y]
    by (auto simp: lowercase_def hex_char_nibble simp del: drop_bit_or)
qed (auto simp: lowercase_def)

lemma parse_hex_array_text:
  assumes "parse_hex_array n s = Some bs"
  shows "lowercase s = hex_string bs" and "length bs = n"
proof -
  from assms have s: "length s = n * 2" "parse_hex_pairs s = Some bs" by (auto simp: parse_hex_array_def split: if_splits)
  then show l: "lowercase s = hex_string bs" by (intro parse_hex_pairs_text) simp_all
  have "length (lowercase s) = length s" by (simp add: lowercase_def)
  then show "length bs = n" using l s by simp
qed

lemma same_digest_text:
  assumes "parse_hex_array n s = Some a" "parse_hex_array n t = Some b"
  shows "eq_ignore_ascii_case s t \<longleftrightarrow> a = b"
proof -
  have "hex_string a = hex_string b \<longleftrightarrow> a = b" by (metis parse_hex_string option.inject)
  then show ?thesis
    using parse_hex_array_text(1) [OF assms(1)] parse_hex_array_text(1) [OF assms(2)]
    by (simp add: eq_ignore_ascii_case_def)
qed

section \<open>What is stored\<close>

text \<open>
  The abstract view: one digest per algorithm. A digest given as bytes is held in the
  typed field, and its text, when there is one, says the same.
\<close>

definition digest_size :: "string \<Rightarrow> nat" where
  "digest_size c = (if c = ''MD5'' then 16 else if c = ''SHA1'' then 20 else 32)"

definition digest_of :: "stored_hashes \<Rightarrow> string \<Rightarrow> bytes option" where
  "digest_of h c =
     (if c = ''MD5'' then sh_md5 h else if c = ''SHA1'' then sh_sha1 h
      else if c = ''SHA256'' then Option.bind (map_of (sh_hash_values h) c) (parse_hex_array 32)
      else None)"

definition hashes_consistent :: "stored_hashes \<Rightarrow> bool" where
  "hashes_consistent h \<longleftrightarrow>
     strictly_ordered (sh_hash_values h) \<and>
     (\<forall>c \<in> {''MD5'', ''SHA1'', ''SHA256''}. \<forall>v. map_of (sh_hash_values h) c = Some v \<longrightarrow>
        digest_of h c \<noteq> None \<and> parse_hex_array (digest_size c) v = digest_of h c)"

lemma canonical_identifier_Some:
  "canonical_identifier i = Some c \<Longrightarrow> c \<in> {''MD5'', ''SHA1'', ''SHA256''}"
  by (auto simp: canonical_identifier_def split: if_splits)

lemma canonical_identifier_fixed:
  "c \<in> {''MD5'', ''SHA1'', ''SHA256''} \<Longrightarrow> canonical_identifier c = Some c"
proof -
  have "canonical_identifier ''MD5'' = Some ''MD5''" "canonical_identifier ''SHA1'' = Some ''SHA1''"
    "canonical_identifier ''SHA256'' = Some ''SHA256''" by code_simp+
  then show "c \<in> {''MD5'', ''SHA1'', ''SHA256''} \<Longrightarrow> canonical_identifier c = Some c" by blast
qed

lemma names_apart:
  "''MD5'' \<noteq> ''SHA1''" "''SHA1'' \<noteq> ''MD5''" "''SHA256'' \<noteq> ''MD5''" "''SHA256'' \<noteq> ''SHA1''"
  "''MD5'' \<noteq> ''SHA256''" "''SHA1'' \<noteq> ''SHA256''"
  by simp_all

lemma digest_sizes: "digest_size ''MD5'' = 16" "digest_size ''SHA1'' = 20" "digest_size ''SHA256'' = 32"
  by (simp_all add: digest_size_def)

lemma validate_digest_canonical:
  assumes "c \<in> {''MD5'', ''SHA1'', ''SHA256''}"
  shows "validate_digest c v = (if parse_hex_array (digest_size c) v = None
    then Inl (Malformed (''invalid '' @ c @ '' digest: expected hexadecimal of the required length'')) else Inr ())"
proof -
  have sizes: "(parse_hex_array (digest_size c) v = None) = (if c = ''MD5'' then parse_hex_array 16 v = None
      else if c = ''SHA1'' then parse_hex_array 20 v = None else parse_hex_array 32 v = None)"
    by (simp add: digest_size_def)
  have "(if \<not> (if A then \<not> P else if B then \<not> Q else \<not> R) then x else y)
      = (if (if A then P else if B then Q else R) then x else y)" for A B P Q R :: bool and x y :: "unit result"
    by simp
  then show ?thesis
    unfolding validate_digest_def canonical_identifier_fixed [OF assms] option.case Let_def sizes by blast
qed

lemma btree_or_insert_ordered: "strictly_ordered m \<Longrightarrow> strictly_ordered (btree_or_insert k v m)"
  by (auto simp: btree_or_insert_def btree_insert_ordered split: option.splits)

lemma insert_other_identifier:
  assumes "hashes_consistent h" "canonical_identifier i = None"
  shows "\<exists>h'. insert_stored_hash h i v = Inr h' \<and> hashes_consistent h' \<and> digest_of h' = digest_of h"
proof -
  have i: "i \<notin> {''MD5'', ''SHA1'', ''SHA256''}"
    using canonical_identifier_fixed [of i] assms(2) by (metis option.distinct(1))
  then have same: "digest_of (h\<lparr>sh_hash_values := btree_or_insert i v (sh_hash_values h)\<rparr>) = digest_of h"
    by (auto simp: digest_of_def map_of_btree_or_insert fun_eq_iff)
  with assms i show ?thesis
    by (auto simp: insert_stored_hash_def hashes_consistent_def btree_or_insert_ordered map_of_btree_or_insert)
qed

lemma insert_digest:
  assumes h: "hashes_consistent h" and c: "canonical_identifier i = Some c"
    and d: "parse_hex_array (digest_size c) v = Some d" and new: "digest_of h c \<in> {None, Some d}"
  shows "\<exists>h'. insert_stored_hash h i v = Inr h' \<and> hashes_consistent h' \<and> digest_of h' = (digest_of h)(c \<mapsto> d)"
proof -
  have cc: "c \<in> {''MD5'', ''SHA1'', ''SHA256''}" by (rule canonical_identifier_Some [OF c])
  let ?vals = "btree_or_insert c v (sh_hash_values h)"
  let ?h = "if c = ''MD5'' then h\<lparr>sh_md5 := Some d\<rparr> else if c = ''SHA1'' then h\<lparr>sh_sha1 := Some d\<rparr> else h"
  have old: "\<not> (case map_of (sh_hash_values h) c of Some old \<Rightarrow> \<not> eq_ignore_ascii_case old v | None \<Rightarrow> False)"
    using h cc new same_digest_text [OF _ d] by (fastforce simp: hashes_consistent_def split: option.splits)
  have run: "insert_stored_hash h i v = Inr (?h\<lparr>sh_hash_values := ?vals\<rparr>)"
    using cc c d new old
    by (auto simp: insert_stored_hash_def validate_digest_canonical merge_typed_def digest_size_def digest_of_def)
  have same: "parse_hex_array (digest_size c) u = Some d" if "map_of ?vals c = Some u" for u
    using that h cc new d by (auto simp: map_of_btree_or_insert hashes_consistent_def split: if_splits)
  have digest: "digest_of (?h\<lparr>sh_hash_values := ?vals\<rparr>) = (digest_of h)(c \<mapsto> d)"
  proof
    fix x
    have "map_of ?vals ''SHA256'' = (if c = ''SHA256'' then map_of ?vals c else map_of (sh_hash_values h) ''SHA256'')"
      by (auto simp: map_of_btree_or_insert)
    moreover have "map_of ?vals c \<noteq> None" by (simp add: map_of_btree_or_insert)
    ultimately show "digest_of (?h\<lparr>sh_hash_values := ?vals\<rparr>) x = ((digest_of h)(c \<mapsto> d)) x"
      using cc same by (auto simp: digest_of_def digest_size_def)
  qed
  have "hashes_consistent (?h\<lparr>sh_hash_values := ?vals\<rparr>)"
    unfolding hashes_consistent_def digest
  proof (intro conjI ballI allI impI)
    show "strictly_ordered (sh_hash_values (?h\<lparr>sh_hash_values := ?vals\<rparr>))"
      using h by (simp add: hashes_consistent_def btree_or_insert_ordered)
  next
    fix x u :: string assume x: "x \<in> {''MD5'', ''SHA1'', ''SHA256''}"
      and u: "map_of (sh_hash_values (?h\<lparr>sh_hash_values := ?vals\<rparr>)) x = Some u"
    have "x \<noteq> c \<Longrightarrow> map_of (sh_hash_values h) x = Some u" using u by (simp add: map_of_btree_or_insert split: if_splits)
    then show "((digest_of h)(c \<mapsto> d)) x \<noteq> None" "parse_hex_array (digest_size x) u = ((digest_of h)(c \<mapsto> d)) x"
      using h x u same by (auto simp: hashes_consistent_def)
  qed
  with run digest show ?thesis by blast
qed

lemma insert_rejected:
  assumes h: "hashes_consistent h" and c: "canonical_identifier i = Some c"
    and bad: "parse_hex_array (digest_size c) v = None \<or>
      (digest_of h c \<noteq> None \<and> digest_of h c \<noteq> parse_hex_array (digest_size c) v)"
  shows "\<exists>m. insert_stored_hash h i v = Inl (Malformed m)"
proof -
  have cc: "c \<in> {''MD5'', ''SHA1'', ''SHA256''}" by (rule canonical_identifier_Some [OF c])
  show ?thesis
  proof (cases "parse_hex_array (digest_size c) v")
    case None
    then show ?thesis using c cc by (simp add: insert_stored_hash_def validate_digest_canonical)
  next
    case (Some d)
    then obtain e where e: "digest_of h c = Some e" "e \<noteq> d" using bad by auto
    have start: "insert_stored_hash h i v =
      (if (case map_of (sh_hash_values h) c of Some old \<Rightarrow> \<not> eq_ignore_ascii_case old v | None \<Rightarrow> False)
       then Inl (Malformed (''conflicting stored '' @ c @ '' digests''))
       else try_bind
         (if c = ''MD5'' then try_bind (merge_typed (sh_md5 h) (parse_hex_array 16 v) c) (\<lambda>md5. Inr (h\<lparr>sh_md5 := md5\<rparr>))
          else if c = ''SHA1'' then try_bind (merge_typed (sh_sha1 h) (parse_hex_array 20 v) c) (\<lambda>sha1. Inr (h\<lparr>sh_sha1 := sha1\<rparr>))
          else Inr h) (\<lambda>h. Inr (h\<lparr>sh_hash_values := btree_or_insert c v (sh_hash_values h)\<rparr>)))"
      unfolding insert_stored_hash_def c option.case validate_digest_canonical [OF cc] Some by simp
    show ?thesis
    proof (cases "map_of (sh_hash_values h) c")
      case None
      then have "c = ''MD5'' \<or> c = ''SHA1''" using cc e by (auto simp: digest_of_def)
      then show ?thesis
        unfolding start None option.case
        using e Some by (elim disjE) (simp_all add: merge_typed_def digest_of_def digest_size_def)
    next
      case u: (Some u)
      then have "parse_hex_array (digest_size c) u = Some e" using h cc e(1) by (auto simp: hashes_consistent_def)
      then have "\<not> eq_ignore_ascii_case u v" using same_digest_text [OF _ Some] e(2) by blast
      then show ?thesis unfolding start u by simp
    qed
  qed
qed


text \<open>Merging the hashes of another segment is insertion of each of them.\<close>

lemma inserts_consistent:
  "try_fold (\<lambda>h (i, v). insert_stored_hash h i v) h es = Inr h' \<Longrightarrow> hashes_consistent h \<Longrightarrow> hashes_consistent h'"
proof (erule try_fold_invariant)
  fix u e v assume u: "hashes_consistent u" and run: "(case e of (i, x) \<Rightarrow> insert_stored_hash u i x) = Inr v"
  obtain i x where e: "e = (i, x)" by (cases e)
  show "hashes_consistent v"
  proof (cases "canonical_identifier i")
    case None
    from insert_other_identifier [OF u this, of x] run show ?thesis by (auto simp: e)
  next
    case (Some c)
    show ?thesis
    proof (cases "parse_hex_array (digest_size c) x \<noteq> None \<and> digest_of u c \<in> {None, parse_hex_array (digest_size c) x}")
      case True
      then obtain d where d: "parse_hex_array (digest_size c) x = Some d" "digest_of u c \<in> {None, Some d}" by auto
      from insert_digest [OF u Some d] run show ?thesis by (auto simp: e)
    next
      case False
      then have "parse_hex_array (digest_size c) x = None \<or>
        (digest_of u c \<noteq> None \<and> digest_of u c \<noteq> parse_hex_array (digest_size c) x)" by auto
      from insert_rejected [OF u Some this] run show ?thesis by (simp add: e)
    qed
  qed
qed

section \<open>Written digests\<close>

definition nonzero_digest :: "bytes option \<Rightarrow> bytes option" where
  "nonzero_digest d = (case d of None \<Rightarrow> None | Some h \<Rightarrow> if list_ex (\<lambda>b. b \<noteq> 0) h then Some h else None)"

lemma default_consistent: "hashes_consistent stored_hashes_default"
  by (simp add: hashes_consistent_def stored_hashes_default_def)

lemma insert_nonzero_hash_new:
  assumes h: "hashes_consistent h" and c: "c \<in> {''MD5'', ''SHA1'', ''SHA256''}" and n: "digest_size c = n" "n \<le> length data"
    and new: "digest_of h c = None"
  shows "\<exists>h'. insert_nonzero_hash h c n data = Inr h' \<and> hashes_consistent h' \<and>
    digest_of h' = (digest_of h)(c := nonzero_digest (Some (take n data)))"
proof (cases "list_ex (\<lambda>b. b \<noteq> 0) (take n data)")
  case True
  have "parse_hex_array (digest_size c) (hex_string (take n data)) = Some (take n data)"
    using n by (intro parse_hex_array_hex_string) simp
  from insert_digest [OF h canonical_identifier_fixed [OF c] this] new True n show ?thesis
    by (simp add: insert_nonzero_hash_def parse_nonzero_hash_def insert_hash_value_def nonzero_digest_def)
next
  case False
  have "(digest_of h)(c := None) = digest_of h" using new by (metis fun_upd_triv)
  then show ?thesis
    using False n h by (simp add: insert_nonzero_hash_def parse_nonzero_hash_def nonzero_digest_def)
qed

definition hash_lengths :: "stored_hashes \<Rightarrow> bool" where
  "hash_lengths h \<longleftrightarrow> (\<forall>d. sh_md5 h = Some d \<longrightarrow> length d = 16) \<and> (\<forall>d. sh_sha1 h = Some d \<longrightarrow> length d = 20)"

lemma digest_payload_fields:
  assumes "digest_payload h = Some p" "hash_lengths h"
  shows "length p = 80" "u32_at p 76 = adler32 (slice p 0 76)"
    and "slice p 0 16 = (case sh_md5 h of Some d \<Rightarrow> d | None \<Rightarrow> replicate 16 0)"
    and "slice p 16 36 = (case sh_sha1 h of Some d \<Rightarrow> d | None \<Rightarrow> replicate 20 0)"
  using assms
  by (auto simp: digest_payload_def hash_lengths_def Let_def field_simps' split: if_splits option.splits)

lemma digest_section_reads_back:
  assumes p: "digest_payload h = Some p" and l: "hash_lengths h"
  shows "\<exists>h'. ewf1_digest_section p stored_hashes_default = Inr h' \<and> hashes_consistent h' \<and>
    sh_md5 h' = nonzero_digest (sh_md5 h) \<and> sh_sha1 h' = nonzero_digest (sh_sha1 h)"
proof -
  note f = digest_payload_fields [OF p l]
  have z: "nonzero_digest (Some (case x of Some d \<Rightarrow> d | None \<Rightarrow> replicate k 0)) = nonzero_digest x" for x k
    by (auto simp: nonzero_digest_def list_ex_iff split: option.splits)
  have none: "digest_of stored_hashes_default c = None" for c
    by (simp add: digest_of_def stored_hashes_default_def)
  have len: "length (slice p 0 16) = 16" "length (slice p 16 36) = 20" by (simp_all add: f(1))
  have v: "nonzero_digest (Some (slice p 0 16)) = nonzero_digest (sh_md5 h)"
    "nonzero_digest (Some (slice p 16 36)) = nonzero_digest (sh_sha1 h)" by (simp_all add: f(3,4) z)
  obtain h1 where h1: "insert_nonzero_hash stored_hashes_default ''MD5'' 16 (slice p 0 16) = Inr h1"
    "hashes_consistent h1" "digest_of h1 = (digest_of stored_hashes_default)(''MD5'' := nonzero_digest (sh_md5 h))"
    using insert_nonzero_hash_new [OF default_consistent, of "''MD5''" 16 "slice p 0 16"]
    by (auto simp: digest_size_def len v none simp del: length_slice)
  obtain h2 where h2: "insert_nonzero_hash h1 ''SHA1'' 20 (slice p 16 36) = Inr h2"
    "hashes_consistent h2" "digest_of h2 = (digest_of h1)(''SHA1'' := nonzero_digest (sh_sha1 h))"
    using insert_nonzero_hash_new [OF h1(2), of "''SHA1''" 20 "slice p 16 36"]
    by (auto simp: digest_size_def len v none h1(3) simp del: length_slice)
  have "ewf1_digest_section p stored_hashes_default = Inr h2"
    using f(2) h1(1) h2(1) by (simp add: ewf1_digest_section_def validate_adler32_checksum_def
      validate_adler32_checksum_value_def)
  moreover have "digest_of h2 ''MD5'' = nonzero_digest (sh_md5 h)" "digest_of h2 ''SHA1'' = nonzero_digest (sh_sha1 h)"
    by (simp_all add: h2(3) h1(3))
  ultimately show ?thesis using h2(2) by (simp add: digest_of_def)
qed

end
