(* ===== verification/Ewf1_Writer.thy ===== *)
theory Ewf1_Writer
  imports Ewf1_Format Range_Tables Stored_Hashes
begin

text \<open>
  The fixed records as \<open>src/writer.rs\<close> writes them into EWF1 segments: section
  descriptors, table headers and entries, the volume section. Each is shown to be read
  back by the parser of \<open>Ewf1_Format\<close>, and every stored checksum to be the one the
  reader computes.
\<close>

section \<open>Options\<close>

datatype write_format = Ewf1Physical | Ewf1Logical | Ewf1Smart | Ewf2Physical | Ewf2Logical

datatype write_compression = WriteNone | WriteZlib | WriteBzip2

datatype compression_level = LevelDefault | LevelNone | LevelFast | LevelBest

datatype media_type =
  Removable | Fixed | Optical | SingleFiles | MediaMemory | MediaUnknown u8

record media_profile =
  mp_media_type :: "media_type option"
  mp_error_granularity :: "u64 option"
  mp_fastbloc :: bool
  mp_tableau :: bool

text \<open>
  The fields of \<open>WriteOptions\<close> the modelled parts of the writer depend on;
  \<open>wo_level\<close> and \<open>wo_empty_block\<close> are its compression values.
\<close>

record write_options =
  wo_format :: write_format
  wo_sectors_per_chunk :: u32
  wo_bytes_per_sector :: u32
  wo_set_identifier :: "bytes option"
  wo_compression :: write_compression
  wo_level :: compression_level
  wo_empty_block :: bool
  wo_maximum_segment_size :: "u64 option"
  wo_media_size :: "u64 option"
  wo_media_profile :: media_profile
  wo_hashes :: write_hashes
  wo_acquisition_errors :: "acquisition_error list"
  wo_sessions :: "sector_range list"
  wo_tracks :: "sector_range list"
  wo_memory_extents :: "memory_extent list"
  wo_table_0x21_entries :: "u64 list"
  wo_single_files_md5_hashes :: "bytes list"
  wo_table_0x23_entries :: "u64 list"
  wo_increment_data :: "bytes list"
  wo_final_information :: "bytes option"

section \<open>Section descriptors and table headers\<close>

definition section_desc :: "bytes \<Rightarrow> u64 \<Rightarrow> u64 \<Rightarrow> bytes" where
  "section_desc section_type next_offset sz =
     (let desc = replicate SECTION_DESCRIPTOR_SIZE 0;
        desc = splice desc 0 section_type;
        desc = splice desc 16 (le64 next_offset);
        desc = splice desc 24 (le64 sz);
        checksum = writer_adler32 (slice desc 0 (SECTION_DESCRIPTOR_SIZE - 4))
      in splice desc (SECTION_DESCRIPTOR_SIZE - 4) (le32 checksum))"

definition table_header :: "u32 \<Rightarrow> u64 \<Rightarrow> bytes" where
  "table_header chunk_count sectors_data_offset =
     (let table = replicate 24 0;
        table = splice table 0 (le32 chunk_count);
        table = splice table 8 (le64 sectors_data_offset);
        checksum = writer_adler32 (slice table 0 20)
      in splice table 20 (le32 checksum))"

lemma length_table_header [simp]: "length (table_header c s) = 24"
  by (simp add: table_header_def Let_def)

lemma length_section_desc:
  "length t \<le> 16 \<Longrightarrow> length (section_desc t nxt sz) = 76"
  by (simp add: section_desc_def Let_def)

lemma table_header_fields:
  "from_le (slice (table_header c s) 0 4) = c"
  "from_le (slice (table_header c s) 8 16) = s"
  "from_le (slice (table_header c s) 20 24) = adler32 (slice (table_header c s) 0 20)"
  by (simp_all add: table_header_def Let_def field_simps')

lemma section_desc_fields:
  assumes "length t \<le> 16"
  shows "slice (section_desc t nxt sz) 0 16 = t @ replicate (16 - length t) 0"
    and "from_le (slice (section_desc t nxt sz) 16 24) = nxt"
    and "from_le (slice (section_desc t nxt sz) 24 32) = sz"
    and "slice (section_desc t nxt sz) 32 72 = replicate 40 0"
    and "from_le (slice (section_desc t nxt sz) 72 76) = adler32 (slice (section_desc t nxt sz) 0 72)"
proof -
  have front: "slice (splice (replicate 76 0) 0 t) 0 16 = t @ replicate (16 - length t) (0 :: u8)"
    using assms by (simp add: slice_def splice_def)
  show "slice (section_desc t nxt sz) 0 16 = t @ replicate (16 - length t) 0"
    using assms front by (simp add: section_desc_def Let_def field_simps')
  show "from_le (slice (section_desc t nxt sz) 16 24) = nxt" "from_le (slice (section_desc t nxt sz) 24 32) = sz"
    "slice (section_desc t nxt sz) 32 72 = replicate 40 0"
    "from_le (slice (section_desc t nxt sz) 72 76) = adler32 (slice (section_desc t nxt sz) 0 72)"
    using assms by (simp_all add: section_desc_def Let_def field_simps')
qed

lemma zero_position_padded:
  "0 \<notin> set t \<Longrightarrow> zero_position (t @ replicate n 0) = length t"
proof (induction t)
  case Nil
  then show ?case by (cases n) (simp_all add: zero_position_def)
qed (simp add: zero_position_def)

lemma section_desc_parse:
  assumes "length t \<le> 16" "\<And>b. b \<in> set t \<Longrightarrow> 0 < b \<and> b < 0x80"
  shows "ewf1_section_descriptor_parse (section_desc t nxt sz) off =
    Inr \<lparr>sd_section_type = str_of t, sd_next = nxt, sd_size = sz, sd_offset = off,
      sd_compression_method = None\<rparr>"
proof -
  let ?d = "section_desc t nxt sz"
  have z: "zero_position (t @ replicate (16 - length t) 0) = length t"
    using assms(2) [of 0] by (intro zero_position_padded) auto
  have "slice ?d 0 (length t) = take (length t) (slice ?d 0 16)"
    using assms(1) by (simp add: take_slice)
  also have "\<dots> = t" by (simp add: section_desc_fields(1) [OF assms(1)])
  finally have "slice ?d 0 (length t) = t" .
  moreover have "from_utf8_lossy t = t" using assms(2) by (intro from_utf8_lossy_ascii) simp
  moreover have "zero_position (slice ?d 32 72) = 0"
    by (simp add: section_desc_fields(4) [OF assms(1)] zero_position_def)
  ultimately show ?thesis
    by (simp add: ewf1_section_descriptor_parse_def length_section_desc [OF assms(1)] Let_def z
        section_desc_fields [OF assms(1)])
qed


section \<open>The volume section\<close>

definition volume_data_size :: "write_format \<Rightarrow> nat result" where
  "volume_data_size fmt =
     (case fmt of
        Ewf1Physical \<Rightarrow> Inr VOLUME_DATA_SIZE
      | Ewf1Logical \<Rightarrow> Inr VOLUME_DATA_SIZE
      | Ewf1Smart \<Rightarrow> Inr 94
      | Ewf2Physical \<Rightarrow> Inl (Panic ''EWF2 formats do not use EWF1 volume data'')
      | Ewf2Logical \<Rightarrow> Inl (Panic ''EWF2 formats do not use EWF1 volume data''))"

fun ewf1_compression_level_value :: "compression_level \<Rightarrow> u8" where
  "ewf1_compression_level_value LevelDefault = 0"
| "ewf1_compression_level_value LevelNone = 0"
| "ewf1_compression_level_value LevelFast = 1"
| "ewf1_compression_level_value LevelBest = 2"

fun ewf1_media_type_byte :: "media_type \<Rightarrow> u8" where
  "ewf1_media_type_byte Removable = 0x00"
| "ewf1_media_type_byte Fixed = 0x01"
| "ewf1_media_type_byte Optical = 0x03"
| "ewf1_media_type_byte SingleFiles = 0x0e"
| "ewf1_media_type_byte MediaMemory = 0x10"
| "ewf1_media_type_byte (MediaUnknown v) = v"

definition ewf1_media_type_value :: "write_format \<Rightarrow> media_type option \<Rightarrow> u8 result" where
  "ewf1_media_type_value fmt mt =
     (case mt of
        Some t \<Rightarrow> Inr (ewf1_media_type_byte t)
      | None \<Rightarrow>
          (case fmt of
             Ewf1Logical \<Rightarrow> Inr 0x0e
           | Ewf1Physical \<Rightarrow> Inr 0x00
           | Ewf1Smart \<Rightarrow> Inr 0x00
           | Ewf2Physical \<Rightarrow> Inl (Panic ''EWF2 formats do not use EWF1 media type values'')
           | Ewf2Logical \<Rightarrow> Inl (Panic ''EWF2 formats do not use EWF1 media type values'')))"

definition ewf1_media_flags_value :: "write_format \<Rightarrow> media_profile \<Rightarrow> u8" where
  "ewf1_media_flags_value fmt profile =
     (let flags = 0x01;
        flags = (if fmt = Ewf1Physical then flags OR 0x02 else flags);
        flags = (if mp_fastbloc profile then flags OR 0x04 else flags);
        flags = (if mp_tableau profile then flags OR 0x08 else flags)
      in flags)"

definition volume_data :: "write_options \<Rightarrow> u32 \<Rightarrow> u64 \<Rightarrow> bytes result" where
  "volume_data options chunk_count sector_count =
     try_bind (volume_data_size (wo_format options)) (\<lambda>n.
     let smart = (wo_format options = Ewf1Smart); volume = replicate n 0 in
     try_bind
       (if smart then Inr (volume[0 := 1])
        else try_bind (ewf1_media_type_value (wo_format options)
               (mp_media_type (wo_media_profile options))) (\<lambda>mt.
          Inr (volume[0 := mt,
                 36 := ewf1_media_flags_value (wo_format options) (wo_media_profile options)])))
       (\<lambda>volume.
     let volume = splice volume 4 (le32 chunk_count);
       volume = splice volume 8 (le32 (wo_sectors_per_chunk options));
       volume = splice volume 12 (le32 (wo_bytes_per_sector options));
       volume = volume[52 := ewf1_compression_level_value (wo_level options)] in
     try_bind
       (if smart
        then try_bind (ok_or (narrow sector_count)
               (Unsupported ''EWF-S01 writer sector count exceeds u32'')) (\<lambda>sectors.
          Inr (splice (splice volume 16 (le32 sectors)) 85 (bytes_of ''SMART'')))
        else Inr (splice volume 16 (le64 sector_count)))
       (\<lambda>volume.
     let volume =
       (case wo_set_identifier options of
          Some identifier \<Rightarrow> if smart then volume else splice volume 64 identifier
        | None \<Rightarrow> volume) in
     try_bind
       (case mp_error_granularity (wo_media_profile options) of
          Some g \<Rightarrow>
            if smart then Inr volume
            else try_bind (ok_or (narrow g)
                   (Unsupported ''EWF1 writer error granularity exceeds u32'')) (\<lambda>g.
              Inr (splice volume 56 (le32 g)))
        | None \<Rightarrow> Inr volume)
       (\<lambda>volume.
     let checksum_offset = length volume - 4;
       checksum = writer_adler32 (slice volume 0 checksum_offset)
     in Inr (splice volume checksum_offset (le32 checksum))))))"

section \<open>Chunk tables\<close>

record chunk_descriptor =
  cd_data_offset :: u64
  cd_data_size :: u64
  cd_compressed :: bool
  cd_has_checksum :: bool
  cd_pattern_fill :: "u64 option"

text \<open>The loop of \<open>append_ewf1_table_data\<close>: the bytes so far and the relative offset.\<close>

fun append_ewf1_entries :: "bytes \<Rightarrow> u64 \<Rightarrow> chunk_descriptor list \<Rightarrow> bytes result" where
  "append_ewf1_entries bs relative_offset [] = Inr bs"
| "append_ewf1_entries bs relative_offset (chunk # chunks) =
     try_bind (ok_or (narrow relative_offset)
       (Unsupported ''EWF1 writer raw chunk offset exceeds u32'')) (\<lambda>entry :: u32.
     if entry AND 0x80000000 \<noteq> 0
     then Inl (Unsupported ''EWF1 writer raw chunk offset exceeds 31 bits'')
     else let entry = (if cd_compressed chunk then entry OR 0x80000000 else entry) in
       try_bind (ok_or (checked_add relative_offset (cd_data_size chunk))
         (Malformed ''writer chunk offset overflow'')) (\<lambda>relative_offset.
       append_ewf1_entries (bs @ le32 entry) relative_offset chunks))"

definition append_ewf1_table_data ::
    "bytes \<Rightarrow> u32 \<Rightarrow> u64 \<Rightarrow> chunk_descriptor list \<Rightarrow> bool \<Rightarrow> bytes result" where
  "append_ewf1_table_data bs chunk_count sectors_data_offset chunks include_footer =
     (let bs = bs @ table_header chunk_count sectors_data_offset;
        table_entries_start = length bs in
      try_bind (append_ewf1_entries bs 0 chunks) (\<lambda>bs.
        if include_footer
        then Inr (bs @ le32 (writer_adler32 (drop table_entries_start bs)))
        else Inr bs))"

text \<open>What an entry of the table says: the compression flag and the prefix sum of sizes.\<close>

fun entry_offsets :: "nat \<Rightarrow> chunk_descriptor list \<Rightarrow> (bool \<times> nat) list" where
  "entry_offsets rel [] = []"
| "entry_offsets rel (c # cs) =
     (cd_compressed c, rel) # entry_offsets (rel + unat (cd_data_size c)) cs"

definition ewf1_entry_word :: "bool \<times> nat \<Rightarrow> u32" where
  "ewf1_entry_word e =
     (if fst e then word_of_nat (snd e) OR 0x80000000 else word_of_nat (snd e))"

definition ewf1_entry_bytes :: "bool \<times> nat \<Rightarrow> bytes" where
  "ewf1_entry_bytes e = le32 (ewf1_entry_word e)"

definition ewf1_entry_view :: "bool \<times> nat \<Rightarrow> ewf1_table_entry" where
  "ewf1_entry_view e =
     \<lparr>te1_compressed = fst e, te1_offset = word_of_nat (snd e), te1_raw = ewf1_entry_word e\<rparr>"

lemma length_entry_offsets [simp]: "length (entry_offsets rel cs) = length cs"
  by (induction cs arbitrary: rel) simp_all

lemma nth_entry_offsets:
  "i < length cs \<Longrightarrow> entry_offsets rel cs ! i
     = (cd_compressed (cs ! i), rel + sum_list (map (unat \<circ> cd_data_size) (take i cs)))"
proof (induction cs arbitrary: rel i)
  case (Cons c cs)
  then show ?case by (cases i) simp_all
qed simp


lemma bit_u32_top: "bit (0x80000000 :: u32) n \<longleftrightarrow> n = 31"
proof -
  have "(0x80000000 :: u32) = push_bit 31 1" by simp
  then show ?thesis by (auto simp only: bit_push_bit_iff bit_1_iff) (simp_all add: bit_simps)
qed

lemma u32_high_clear_iff: "w AND 0x80000000 = 0 \<longleftrightarrow> unat (w :: u32) < 0x80000000"
proof
  assume clear: "w AND 0x80000000 = 0"
  show "unat w < 0x80000000"
  proof (rule ccontr)
    assume "\<not> unat w < 0x80000000"
    then have "unat w div 2147483648 = 1" using unat_32_less [of w] by (intro div_nat_eqI) simp_all
    then have "bit (unat w) 31" by (simp add: bit_iff_odd)
    then have "bit (w AND 0x80000000) 31" by (simp add: bit_unsigned_iff bit_and_iff bit_u32_top)
    with clear show False by simp
  qed
next
  assume "unat w < 0x80000000"
  then have "take_bit 31 w = w" by (intro take_bit_small_word) simp
  then have "\<not> bit w 31" by (metis bit_take_bit_iff less_irrefl)
  then show "w AND 0x80000000 = 0"
    by (intro bit_word_eqI) (simp only: bit_and_iff bit_u32_top, auto)
qed

lemma small_u32_high:
  fixes w :: u32
  assumes "unat w < 0x80000000"
  shows "w AND 0x80000000 = 0" "(w OR 0x80000000) AND 0x80000000 \<noteq> 0"
    "w AND 0x7fffffff = w" "(w OR 0x80000000) AND 0x7fffffff = w"
proof -
  have w: "take_bit 31 w = w" using assms by (intro take_bit_small_word) simp
  have low: "(0x7fffffff :: u32) = mask 31" by (simp add: mask_eq_exp_minus_1)
  show "w AND 0x80000000 = 0" using assms by (simp add: u32_high_clear_iff)
  have "bit ((w OR 0x80000000) AND 0x80000000) 31"
    by (simp only: bit_and_iff bit_or_iff bit_u32_top simp_thms)
  then show "(w OR 0x80000000) AND 0x80000000 \<noteq> 0" by (auto simp only: bit_0_eq)
  have b: "bit w n \<longleftrightarrow> n < 31 \<and> bit w n" for n
    by (subst (1) w [symmetric]) (simp add: bit_simps)
  show "w AND 0x7fffffff = w"
    unfolding low using b by (intro bit_word_eqI) (auto simp: bit_simps)
  show "(w OR 0x80000000) AND 0x7fffffff = w"
    unfolding low using b
    by (intro bit_word_eqI) (simp only: bit_and_iff bit_or_iff bit_mask_iff bit_u32_top, auto)
qed

lemma unat_of_small_u32: "n < 4294967296 \<Longrightarrow> unat (word_of_nat n :: u32) = n"
  by (simp add: unsigned_of_nat take_bit_nat_eq_self)

lemma unat_of_small_u64: "n < 18446744073709551616 \<Longrightarrow> unat (word_of_nat n :: u64) = n"
  by (simp add: unsigned_of_nat take_bit_nat_eq_self)

lemma ewf1_entry_parse:
  assumes "snd e < 0x80000000"
  shows "ewf1_table_entry_parse (ewf1_entry_bytes e) = Inr (ewf1_entry_view e)"
proof -
  let ?w = "word_of_nat (snd e) :: u32"
  have small: "unat ?w < 0x80000000" using assms by (simp add: unat_of_small_u32)
  have up: "ucast ?w = (word_of_nat (snd e) :: u64)"
    using assms by (simp add: word_unat_eq_iff unat_of_small_u32 unat_of_small_u64)
  have "slice (le32 v) 0 4 = le32 v" for v :: u32 by (simp add: slice_def)
  then show ?thesis
    using small_u32_high [OF small] up
    by (auto simp: ewf1_table_entry_parse_def ewf1_entry_bytes_def ewf1_entry_view_def
        ewf1_entry_word_def Let_def)
qed

interpretation ewf1_table: fixed_codec 4 ewf1_entry_bytes ewf1_table_entry_parse ewf1_entry_view
  "\<lambda>e. snd e < 0x80000000"
  by unfold_locales (simp_all add: ewf1_entry_parse, simp add: ewf1_entry_bytes_def)

lemma append_ewf1_entries_ok:
  "append_ewf1_entries bs rel cs = Inr out \<Longrightarrow>
   out = bs @ concat (map ewf1_entry_bytes (entry_offsets (unat rel) cs))
   \<and> (\<forall>e \<in> set (entry_offsets (unat rel) cs). snd e < 0x80000000)"
proof (induction bs rel cs rule: append_ewf1_entries.induct)
  case (2 bs rel c cs)
  from 2(2) obtain w :: u32 and rel' where w: "narrow rel = Some w"
    and high: "w AND 0x80000000 = 0"
    and rel': "checked_add rel (cd_data_size c) = Some rel'"
    and rest: "append_ewf1_entries (bs @ le32 (if cd_compressed c then w OR 0x80000000 else w)) rel' cs = Inr out"
    by (auto simp: try_bind_Inr_iff Let_def simp del: append_ewf1_entries.simps(1) split: if_splits)
  have u: "unat w = unat rel" "unat rel' = unat rel + unat (cd_data_size c)"
    using w rel' by (simp_all add: checked_simps)
  have small: "unat rel < 0x80000000" using high u by (simp add: u32_high_clear_iff)
  have "word_of_nat (unat rel) = w" by (simp flip: u)
  then have e: "le32 (if cd_compressed c then w OR 0x80000000 else w)
      = ewf1_entry_bytes (cd_compressed c, unat rel)"
    by (simp add: ewf1_entry_bytes_def ewf1_entry_word_def)
  have "\<not> w AND 0x80000000 \<noteq> 0" using high by simp
  from 2(1) [unfolded ok_or_Inr_iff, OF w this refl rel' rest]
  show ?case using small by (simp add: e u)
qed simp

text \<open>The writer accepts a table exactly as long as the offsets stay below 2 GiB.\<close>

lemma append_ewf1_entries_total:
  "unat rel + sum_list (map (unat \<circ> cd_data_size) cs) \<le> 0x80000000 \<Longrightarrow> unat rel < 0x80000000 \<Longrightarrow>
   (\<forall>c \<in> set cs. 0 < unat (cd_data_size c)) \<Longrightarrow> \<exists>out. append_ewf1_entries bs rel cs = Inr out"
proof (induction cs arbitrary: bs rel)
  case (Cons c cs)
  let ?w = "ucast rel :: u32"
  have rel: "unat rel < 0x80000000" by (rule Cons.prems(2))
  have w: "narrow rel = Some ?w" using rel by (simp add: narrow_def)
  then have "unat ?w < 0x80000000" using rel by (simp add: checked_simps)
  then have high: "?w AND 0x80000000 = 0" by (simp add: u32_high_clear_iff)
  obtain rel' where rel': "checked_add rel (cd_data_size c) = Some rel'"
    using rel Cons.prems(1) by (cases "checked_add rel (cd_data_size c)") (simp_all add: checked_simps)
  have u: "unat rel' = unat rel + unat (cd_data_size c)" using rel' by (simp add: checked_simps)
  show ?case
  proof (cases cs)
    case Nil
    with w high rel' show ?thesis by (simp add: Let_def)
  next
    case (Cons d ds)
    with Cons.prems have "0 < unat (cd_data_size d)" by simp
    with Cons.prems Cons have "unat rel' < 0x80000000" by (simp add: u)
    with Cons.IH [of rel'] Cons.prems u w high rel' show ?thesis by (simp add: Let_def)
  qed
qed simp


lemma append_ewf1_table_data_ok:
  assumes "append_ewf1_table_data bs n off cs footer = Inr out"
  shows "out = bs @ table_header n off @ concat (map ewf1_entry_bytes (entry_offsets 0 cs))
      @ (if footer then le32 (adler32 (concat (map ewf1_entry_bytes (entry_offsets 0 cs)))) else [])"
    and "\<forall>e \<in> set (entry_offsets 0 cs). snd e < 0x80000000"
proof -
  from assms obtain mid where mid: "append_ewf1_entries (bs @ table_header n off) 0 cs = Inr mid"
    and out: "out = (if footer then mid @ le32 (adler32 (drop (length bs + 24) mid)) else mid)"
    by (cases footer) (auto simp: append_ewf1_table_data_def Let_def try_bind_Inr_iff)
  note ok = append_ewf1_entries_ok [OF mid]
  then show "\<forall>e \<in> set (entry_offsets 0 cs). snd e < 0x80000000" by simp
  from ok out show "out = bs @ table_header n off @ concat (map ewf1_entry_bytes (entry_offsets 0 cs))
      @ (if footer then le32 (adler32 (concat (map ewf1_entry_bytes (entry_offsets 0 cs)))) else [])"
    by simp
qed

section \<open>Reading the volume section back\<close>

definition nonzero_identifier :: "bytes option \<Rightarrow> bytes option" where
  "nonzero_identifier i = (if i = Some (replicate 16 0) then None else i)"

definition volume_error_granularity :: "u64 option \<Rightarrow> u32 option" where
  "volume_error_granularity g =
     (case g of None \<Rightarrow> None | Some g \<Rightarrow> if g = 0 then None else Some (ucast g))"

lemma volume_data_checksum:
  assumes "volume_data opts n sectors = Inr out" "wo_format opts \<in> {Ewf1Physical, Ewf1Logical, Ewf1Smart}"
    and "\<forall>i \<in> set_option (wo_set_identifier opts). length i = 16"
  shows "length out = (if wo_format opts = Ewf1Smart then 94 else 1052)"
    and "u32_at out (length out - 4) = adler32 (slice out 0 (length out - 4))"
  using assms
  by (auto simp: volume_data_def volume_data_size_def Let_def try_bind_Inr_iff field_simps'
      split: option.splits if_splits)


text \<open>
  An absent identifier or granularity leaves the zeros of the fresh buffer in place, so
  the physical and logical volume sections are one chain of overwrites.
\<close>

definition identifier_bytes :: "bytes option \<Rightarrow> bytes" where
  "identifier_bytes i = (case i of None \<Rightarrow> replicate 16 0 | Some b \<Rightarrow> b)"

definition granularity_bytes :: "u64 option \<Rightarrow> bytes" where
  "granularity_bytes g = (case g of None \<Rightarrow> replicate 4 0 | Some g \<Rightarrow> le32 (ucast g))"

definition volume_base :: "u8 \<Rightarrow> u8 \<Rightarrow> u32 \<Rightarrow> u32 \<Rightarrow> u32 \<Rightarrow> u8 \<Rightarrow> u64 \<Rightarrow> bytes" where
  "volume_base mt flags n spc bps level sectors =
     splice (splice (splice (splice (splice (splice (splice (replicate 1052 0) 0 [mt]) 36 [flags])
       4 (le32 n)) 8 (le32 spc)) 12 (le32 bps)) 52 [level]) 16 (le64 sectors)"

lemma length_volume_base [simp]: "length (volume_base mt flags n spc bps level sectors) = 1052"
  by (simp add: volume_base_def)

lemma volume_base_fields:
  fixes mt flags level :: u8 and n spc bps :: u32 and sectors :: u64
  defines "v \<equiv> volume_base mt flags n spc bps level sectors"
  shows "slice v 4 8 = le32 n" "slice v 8 12 = le32 spc" "slice v 12 16 = le32 bps"
    "slice v 16 24 = le64 sectors" "v ! 0 = mt" "v ! 36 = flags" "v ! 52 = level"
    "slice v 56 60 = replicate 4 0" "slice v 64 80 = replicate 16 0"
  unfolding v_def volume_base_def
  by (simp_all add: field_simps' nth_field_simps)

lemma splice_same: "slice buf off (off + length ys) = ys \<Longrightarrow> splice buf off ys = buf"
proof -
  assume "slice buf off (off + length ys) = ys"
  then have "take (length ys) (drop off buf) = ys" by (simp add: slice_def)
  then show ?thesis
    unfolding splice_def by (metis add.commute append_take_drop_id drop_drop)
qed

lemma volume_data_chain:
  assumes "volume_data opts n sectors = Inr out" "wo_format opts \<in> {Ewf1Physical, Ewf1Logical}"
    and "\<forall>i \<in> set_option (wo_set_identifier opts). length i = 16"
  obtains mt c where
    "ewf1_media_type_value (wo_format opts) (mp_media_type (wo_media_profile opts)) = Inr mt"
    "out = splice (splice (splice (volume_base mt
        (ewf1_media_flags_value (wo_format opts) (wo_media_profile opts)) n
        (wo_sectors_per_chunk opts) (wo_bytes_per_sector opts)
        (ewf1_compression_level_value (wo_level opts)) sectors)
        64 (identifier_bytes (wo_set_identifier opts)))
        56 (granularity_bytes (mp_error_granularity (wo_media_profile opts)))) 1048 (le32 c)"
    "\<forall>g \<in> set_option (mp_error_granularity (wo_media_profile opts)). unat g < 2 ^ 32"
proof -
  let ?fmt = "wo_format opts" and ?prof = "wo_media_profile opts"
  have size: "volume_data_size ?fmt = Inr 1052" and smart: "?fmt \<noteq> Ewf1Smart"
    using assms(2) by (auto simp: volume_data_size_def)
  obtain mt where mt: "ewf1_media_type_value ?fmt (mp_media_type ?prof) = Inr mt"
    using assms(2) by (cases "mp_media_type ?prof") (auto simp: ewf1_media_type_value_def)
  define base where "base = volume_base mt (ewf1_media_flags_value ?fmt ?prof) n
    (wo_sectors_per_chunk opts) (wo_bytes_per_sector opts)
    (ewf1_compression_level_value (wo_level opts)) sectors"
  have blen: "length base = 1052" by (simp add: base_def)
  have idlen: "length (identifier_bytes (wo_set_identifier opts)) = 16"
    using assms(3) by (auto simp: identifier_bytes_def split: option.splits)
  have ident: "(case wo_set_identifier opts of Some i \<Rightarrow> splice base 64 i | None \<Rightarrow> base)
      = splice base 64 (identifier_bytes (wo_set_identifier opts))"
    by (cases "wo_set_identifier opts")
      (simp_all add: identifier_bytes_def splice_same volume_base_fields base_def)
  define v where "v = splice base 64 (identifier_bytes (wo_set_identifier opts))"
  have vlen: "length v = 1052" using blen idlen by (simp add: v_def)
  have v56: "slice v 56 60 = replicate 4 0"
    using blen idlen by (simp add: v_def base_def field_simps' volume_base_fields)
  have run: "volume_data opts n sectors =
    try_bind (case mp_error_granularity ?prof of
        Some g \<Rightarrow> try_bind (ok_or (narrow g)
          (Unsupported ''EWF1 writer error granularity exceeds u32'')) (\<lambda>g. Inr (splice v 56 (le32 g)))
      | None \<Rightarrow> Inr v)
      (\<lambda>volume. Inr (splice volume (length volume - 4)
        (le32 (adler32 (slice volume 0 (length volume - 4))))))"
    unfolding volume_data_def size
    by (simp add: Let_def smart mt list_update_splice ident flip: volume_base_def base_def v_def
        cong: option.case_cong)
  show ?thesis
  proof (cases "mp_error_granularity ?prof")
    case None
    with run assms(1) have "out = splice v 1048 (le32 (adler32 (slice v 0 1048)))" by (simp add: vlen)
    moreover have "splice v 56 (granularity_bytes None) = v"
      by (simp add: granularity_bytes_def splice_same v56)
    ultimately show ?thesis using that [OF mt] None by (simp add: v_def base_def)
  next
    case (Some g)
    with run assms(1) obtain h :: u32 where h: "narrow g = Some h"
      and out: "out = splice (splice v 56 (le32 h)) 1048 (le32 (adler32 (slice (splice v 56 (le32 h)) 0 1048)))"
      by (cases "narrow g :: u32 option") (auto simp: vlen)
    have "h = ucast g" "unat g < 2 ^ 32" using h by (auto simp: narrow_def split: if_splits)
    then show ?thesis using that [OF mt] Some out by (simp add: v_def base_def granularity_bytes_def)
  qed
qed


lemma volume_data_parse:
  assumes "volume_data opts n sectors = Inr out" "wo_format opts \<in> {Ewf1Physical, Ewf1Logical}"
    and "\<forall>i \<in> set_option (wo_set_identifier opts). length i = 16"
  shows "\<exists>mt. ewf1_media_type_value (wo_format opts) (mp_media_type (wo_media_profile opts)) = Inr mt \<and>
    ewf1_volume_parse out = Inr \<lparr>vol_chunk_count = n,
      vol_sectors_per_chunk = wo_sectors_per_chunk opts,
      vol_bytes_per_sector = wo_bytes_per_sector opts,
      vol_sector_count = sectors,
      vol_set_identifier = nonzero_identifier (wo_set_identifier opts),
      vol_media_type = Some mt,
      vol_media_flags = Some (ewf1_media_flags_value (wo_format opts) (wo_media_profile opts)),
      vol_compression_level = Some (ewf1_compression_level_value (wo_level opts)),
      vol_error_granularity = volume_error_granularity (mp_error_granularity (wo_media_profile opts)),
      vol_smart = False\<rparr>"
proof -
  obtain mt c where mt: "ewf1_media_type_value (wo_format opts) (mp_media_type (wo_media_profile opts)) = Inr mt"
    and out: "out = splice (splice (splice (volume_base mt
        (ewf1_media_flags_value (wo_format opts) (wo_media_profile opts)) n
        (wo_sectors_per_chunk opts) (wo_bytes_per_sector opts)
        (ewf1_compression_level_value (wo_level opts)) sectors)
        64 (identifier_bytes (wo_set_identifier opts)))
        56 (granularity_bytes (mp_error_granularity (wo_media_profile opts)))) 1048 (le32 c)"
    and small: "\<forall>g \<in> set_option (mp_error_granularity (wo_media_profile opts)). unat g < 2 ^ 32"
    by (rule volume_data_chain [OF assms])
  define ident where "ident = identifier_bytes (wo_set_identifier opts)"
  define gran where "gran = granularity_bytes (mp_error_granularity (wo_media_profile opts))"
  define base where "base = volume_base mt
    (ewf1_media_flags_value (wo_format opts) (wo_media_profile opts)) n
    (wo_sectors_per_chunk opts) (wo_bytes_per_sector opts)
    (ewf1_compression_level_value (wo_level opts)) sectors"
  have lens: "length base = 1052" "length ident = 16" "length gran = 4"
    using assms(3)
    by (auto simp: base_def ident_def gran_def identifier_bytes_def granularity_bytes_def split: option.splits)
  have out: "out = splice (splice (splice base 64 ident) 56 gran) 1048 (le32 c)"
    by (simp add: out base_def ident_def gran_def)
  note fields = volume_base_fields [of mt
      "ewf1_media_flags_value (wo_format opts) (wo_media_profile opts)" n
      "wo_sectors_per_chunk opts" "wo_bytes_per_sector opts"
      "ewf1_compression_level_value (wo_level opts)" sectors, folded base_def]
  have read: "slice out 4 8 = le32 n" "slice out 8 12 = le32 (wo_sectors_per_chunk opts)"
    "slice out 12 16 = le32 (wo_bytes_per_sector opts)" "slice out 16 24 = le64 sectors"
    "slice out 56 60 = gran" "slice out 64 80 = ident"
    "out ! 0 = mt" "out ! 36 = ewf1_media_flags_value (wo_format opts) (wo_media_profile opts)"
    "out ! 52 = ewf1_compression_level_value (wo_level opts)" "length out = 1052"
    using lens fields by (simp_all add: out field_simps' nth_field_simps)
  have ident: "(if ident \<noteq> replicate 16 0 then Some ident else None)
      = nonzero_identifier (wo_set_identifier opts)"
    by (auto simp: ident_def identifier_bytes_def nonzero_identifier_def split: option.splits)
  have zero: "ucast g = (0 :: u32) \<longleftrightarrow> g = 0" if "unat g < 2 ^ 32" for g :: u64
    using that by (simp add: word_unat_eq_iff unsigned_ucast_eq take_bit_nat_eq_self)
  have gran: "(if from_le gran \<noteq> (0 :: u32) then Some (from_le gran) else None)
      = volume_error_granularity (mp_error_granularity (wo_media_profile opts))"
    using small
    by (auto simp: gran_def granularity_bytes_def volume_error_granularity_def zero split: option.splits)
  show ?thesis
    using mt ident gran unfolding ewf1_volume_parse_def
    by (auto simp: Let_def read split: if_splits)
qed

end
