(* ===== verification/Ewf2_Format.thy ===== *)
theory Ewf2_Format
  imports Ewf1_Writer
begin

text \<open>
  The fixed records of EWF2 files (\<open>src/format/ewf2.rs\<close>) and the routines of
  \<open>src/writer.rs\<close> that write them, with the round trips between the two.
\<close>

section \<open>Constants\<close>

definition EX01_SIGNATURE :: bytes where
  "EX01_SIGNATURE = [0x45, 0x56, 0x46, 0x32, 0x0d, 0x0a, 0x81, 0x00]"

definition LEF2_SIGNATURE :: bytes where
  "LEF2_SIGNATURE = [0x4c, 0x45, 0x46, 0x32, 0x0d, 0x0a, 0x81, 0x00]"

abbreviation (input) EWF2_FILE_HEADER_SIZE :: nat where "EWF2_FILE_HEADER_SIZE \<equiv> 32"
abbreviation (input) EWF2_SECTION_DESCRIPTOR_SIZE :: nat where "EWF2_SECTION_DESCRIPTOR_SIZE \<equiv> 64"
abbreviation (input) EWF2_TABLE_HEADER_SIZE :: nat where "EWF2_TABLE_HEADER_SIZE \<equiv> 20"
abbreviation (input) EWF2_TABLE_ENTRY_SIZE :: nat where "EWF2_TABLE_ENTRY_SIZE \<equiv> 16"

abbreviation (input) DATA_FLAG_INTEGRITY_HASH :: u32 where "DATA_FLAG_INTEGRITY_HASH \<equiv> 1"
abbreviation (input) DATA_FLAG_ENCRYPTED :: u32 where "DATA_FLAG_ENCRYPTED \<equiv> 2"
abbreviation (input) CHUNK_FLAG_COMPRESSED :: u32 where "CHUNK_FLAG_COMPRESSED \<equiv> 1"
abbreviation (input) CHUNK_FLAG_HAS_CHECKSUM :: u32 where "CHUNK_FLAG_HAS_CHECKSUM \<equiv> 2"
abbreviation (input) CHUNK_FLAG_PATTERN_FILL :: u32 where "CHUNK_FLAG_PATTERN_FILL \<equiv> 4"

section \<open>Data\<close>

datatype section_type =
    DeviceInformation | CaseData | SectorData | SectorTable | ErrorTable | SessionTable
  | IncrementData | Md5Hash | Sha1Hash | RestartData | EncryptionKeys | MemoryExtentsTable
  | NextSection | FinalInformation | DoneSection | AnalyticalData | SingleFilesData
  | SingleFilesTable | SingleFilesMd5HashTable | SingleFilesUnknownTable | UnknownSection u32

datatype compression_method = CompNone | CompZlib | CompBzip2 | CompUnknown u16

datatype chunk_kind = RawChunk | CompressedChunk compression_method | PatternFill

record ewf2_file_header =
  e2_major_version :: u8
  e2_minor_version :: u8
  e2_compression_method :: compression_method
  e2_segment_number :: u32
  e2_set_identifier :: bytes
  e2_logical :: bool

record ewf2_section_descriptor =
  s2_section_type :: section_type
  s2_data_flags :: u32
  s2_previous_offset :: u64
  s2_data_size :: u64
  s2_descriptor_size :: u32
  s2_padding_size :: u32
  s2_data_integrity_hash :: bytes
  s2_offset :: u64
  s2_has_integrity_hash :: bool
  s2_encrypted :: bool

record ewf2_parsed_entry =
  te2_chunk_data_offset :: u64
  te2_chunk_data_size :: u32
  te2_flags :: u32
  te2_kind :: chunk_kind

record ewf2_parsed_header =
  th2_first_chunk :: u64
  th2_entry_count :: u32

section \<open>Parsers\<close>

definition section_type_from :: "u32 \<Rightarrow> section_type" where
  "section_type_from v =
     (if v = 0x01 then DeviceInformation else if v = 0x02 then CaseData
      else if v = 0x03 then SectorData else if v = 0x04 then SectorTable
      else if v = 0x05 then ErrorTable else if v = 0x06 then SessionTable
      else if v = 0x07 then IncrementData else if v = 0x08 then Md5Hash
      else if v = 0x09 then Sha1Hash else if v = 0x0a then RestartData
      else if v = 0x0b then EncryptionKeys else if v = 0x0c then MemoryExtentsTable
      else if v = 0x0d then NextSection else if v = 0x0e then FinalInformation
      else if v = 0x0f then DoneSection else if v = 0x10 then AnalyticalData
      else if v = 0x20 then SingleFilesData else if v = 0x21 then SingleFilesTable
      else if v = 0x22 then SingleFilesMd5HashTable
      else if v = 0x23 then SingleFilesUnknownTable else UnknownSection v)"

definition compression_method_from :: "u16 \<Rightarrow> compression_method" where
  "compression_method_from v =
     (if v = 0 then CompNone else if v = 1 then CompZlib else if v = 2 then CompBzip2
      else CompUnknown v)"

definition ewf2_file_header_parse :: "bytes \<Rightarrow> ewf2_file_header result" where
  "ewf2_file_header_parse buf =
     (if length buf < EWF2_FILE_HEADER_SIZE
      then Inl (BufferTooShort EWF2_FILE_HEADER_SIZE (length buf))
      else try_bind
        (if slice buf 0 8 = EX01_SIGNATURE then Inr False
         else if slice buf 0 8 = LEF2_SIGNATURE then Inr True
         else Inl InvalidSignature)
        (\<lambda>logical. Inr \<lparr>e2_major_version = buf ! 8, e2_minor_version = buf ! 9,
            e2_compression_method = compression_method_from (from_le [buf ! 10, buf ! 11]),
            e2_segment_number = u32_at buf 12, e2_set_identifier = slice buf 16 32,
            e2_logical = logical\<rparr>))"

definition ewf2_section_descriptor_parse :: "bytes \<Rightarrow> u64 \<Rightarrow> ewf2_section_descriptor result" where
  "ewf2_section_descriptor_parse buf offset =
     (if length buf < EWF2_SECTION_DESCRIPTOR_SIZE
      then Inl (BufferTooShort EWF2_SECTION_DESCRIPTOR_SIZE (length buf))
      else let data_flags = u32_at buf 4 in
        Inr \<lparr>s2_section_type = section_type_from (u32_at buf 0), s2_data_flags = data_flags,
          s2_previous_offset = u64_at buf 8, s2_data_size = u64_at buf 16,
          s2_descriptor_size = u32_at buf 24, s2_padding_size = u32_at buf 28,
          s2_data_integrity_hash = slice buf 32 48, s2_offset = offset,
          s2_has_integrity_hash = (data_flags AND DATA_FLAG_INTEGRITY_HASH \<noteq> 0),
          s2_encrypted = (data_flags AND DATA_FLAG_ENCRYPTED \<noteq> 0)\<rparr>)"

definition ewf2_chunk_kind :: "u32 \<Rightarrow> compression_method \<Rightarrow> chunk_kind" where
  "ewf2_chunk_kind flags method =
     (if flags AND CHUNK_FLAG_PATTERN_FILL \<noteq> 0 \<and> flags AND CHUNK_FLAG_COMPRESSED \<noteq> 0
      then PatternFill
      else if flags AND CHUNK_FLAG_COMPRESSED \<noteq> 0 then CompressedChunk method
      else RawChunk)"

definition ewf2_table_entry_parse :: "bytes \<Rightarrow> compression_method \<Rightarrow> ewf2_parsed_entry result" where
  "ewf2_table_entry_parse buf method =
     (if length buf < EWF2_TABLE_ENTRY_SIZE
      then Inl (BufferTooShort EWF2_TABLE_ENTRY_SIZE (length buf))
      else let flags = u32_at buf 12 in
        Inr \<lparr>te2_chunk_data_offset = u64_at buf 0, te2_chunk_data_size = u32_at buf 8,
          te2_flags = flags, te2_kind = ewf2_chunk_kind flags method\<rparr>)"

definition ewf2_table_header_parse :: "bytes \<Rightarrow> ewf2_parsed_header result" where
  "ewf2_table_header_parse buf =
     (if length buf < EWF2_TABLE_HEADER_SIZE
      then Inl (BufferTooShort EWF2_TABLE_HEADER_SIZE (length buf))
      else Inr \<lparr>th2_first_chunk = u64_at buf 0, th2_entry_count = u32_at buf 8\<rparr>)"

section \<open>The writer's records\<close>

definition ewf2_table_header :: "u64 \<Rightarrow> u32 \<Rightarrow> bytes" where
  "ewf2_table_header first_chunk chunk_count =
     (let table = replicate 32 0;
        table = splice table 0 (le64 first_chunk);
        table = splice table 8 (le32 chunk_count);
        checksum = writer_adler32 (slice table 0 16)
      in splice table 16 (le32 checksum))"

definition ewf2_entry_flags :: "bool \<Rightarrow> bool \<Rightarrow> bool \<Rightarrow> u32" where
  "ewf2_entry_flags compressed has_checksum pattern_fill =
     (let flags = 0;
        flags = (if compressed then flags OR CHUNK_FLAG_COMPRESSED else flags);
        flags = (if has_checksum then flags OR CHUNK_FLAG_HAS_CHECKSUM else flags);
        flags = (if pattern_fill then flags OR CHUNK_FLAG_PATTERN_FILL else flags)
      in flags)"

definition ewf2_table_entry :: "u64 \<Rightarrow> u32 \<Rightarrow> bool \<Rightarrow> bool \<Rightarrow> bool \<Rightarrow> bytes" where
  "ewf2_table_entry chunk_offset chunk_size compressed has_checksum pattern_fill =
     (let entry = replicate EWF2_TABLE_ENTRY_SIZE 0;
        entry = splice entry 0 (le64 chunk_offset);
        entry = splice entry 8 (le32 chunk_size);
        flags = ewf2_entry_flags compressed has_checksum pattern_fill
      in splice entry 12 (le32 flags))"

definition ewf2_section_desc :: "u32 \<Rightarrow> u64 \<Rightarrow> u64 \<Rightarrow> bytes" where
  "ewf2_section_desc section_type data_size previous_offset =
     (let desc = replicate EWF2_SECTION_DESCRIPTOR_SIZE 0;
        desc = splice desc 0 (le32 section_type);
        desc = splice desc 8 (le64 previous_offset);
        desc = splice desc 16 (le64 data_size);
        desc = splice desc 24 (le32 (word_of_nat EWF2_SECTION_DESCRIPTOR_SIZE));
        checksum = writer_adler32 (slice desc 0 (EWF2_SECTION_DESCRIPTOR_SIZE - 4))
      in splice desc (EWF2_SECTION_DESCRIPTOR_SIZE - 4) (le32 checksum))"

definition ewf2_hash_payload :: "bytes \<Rightarrow> bytes" where
  "ewf2_hash_payload hash =
     (let n = length hash; payload = splice (replicate 32 0) 0 hash;
        checksum = writer_adler32 (slice payload 0 n)
      in splice payload n (le32 checksum))"

section \<open>Round trips\<close>

lemma ewf2_section_desc_parse:
  "ewf2_section_descriptor_parse (ewf2_section_desc t n prev) off =
     Inr \<lparr>s2_section_type = section_type_from t, s2_data_flags = 0, s2_previous_offset = prev,
       s2_data_size = n, s2_descriptor_size = 64, s2_padding_size = 0,
       s2_data_integrity_hash = replicate 16 0, s2_offset = off,
       s2_has_integrity_hash = False, s2_encrypted = False\<rparr>"
  by (simp add: ewf2_section_desc_def ewf2_section_descriptor_parse_def Let_def field_simps')

lemma ewf2_section_desc_checksum:
  "u32_at (ewf2_section_desc t n prev) 60 = adler32 (slice (ewf2_section_desc t n prev) 0 60)"
  by (simp add: ewf2_section_desc_def Let_def field_simps')

lemma length_ewf2_section_desc [simp]: "length (ewf2_section_desc t n prev) = 64"
  by (simp add: ewf2_section_desc_def Let_def)

lemma ewf2_table_header_fields:
  "length (ewf2_table_header first n) = 32"
  "ewf2_table_header_parse (ewf2_table_header first n @ rest)
     = Inr \<lparr>th2_first_chunk = first, th2_entry_count = n\<rparr>"
  "u32_at (ewf2_table_header first n) 16 = adler32 (slice (ewf2_table_header first n) 0 16)"
  by (simp_all add: ewf2_table_header_def ewf2_table_header_parse_def Let_def field_simps'
      slice_append_left)

text \<open>What a decoder of the entry sees of the writer's arguments.\<close>

record ewf2_entry =
  en_offset :: u64
  en_size :: u32
  en_compressed :: bool
  en_has_checksum :: bool
  en_pattern_fill :: bool

definition ewf2_entry_bytes :: "ewf2_entry \<Rightarrow> bytes" where
  "ewf2_entry_bytes e =
     ewf2_table_entry (en_offset e) (en_size e) (en_compressed e) (en_has_checksum e) (en_pattern_fill e)"

definition ewf2_entry_view :: "compression_method \<Rightarrow> ewf2_entry \<Rightarrow> ewf2_parsed_entry" where
  "ewf2_entry_view method e =
     \<lparr>te2_chunk_data_offset = en_offset e, te2_chunk_data_size = en_size e,
      te2_flags = ewf2_entry_flags (en_compressed e) (en_has_checksum e) (en_pattern_fill e),
      te2_kind = (if en_compressed e then if en_pattern_fill e then PatternFill
                    else CompressedChunk method
                  else RawChunk)\<rparr>"

lemma ewf2_entry_flags_bits:
  "ewf2_entry_flags c h p AND CHUNK_FLAG_COMPRESSED \<noteq> 0 \<longleftrightarrow> c"
  "ewf2_entry_flags c h p AND CHUNK_FLAG_HAS_CHECKSUM \<noteq> 0 \<longleftrightarrow> h"
  "ewf2_entry_flags c h p AND CHUNK_FLAG_PATTERN_FILL \<noteq> 0 \<longleftrightarrow> p"
  by (simp_all add: ewf2_entry_flags_def)

lemma ewf2_entry_parse:
  "ewf2_table_entry_parse (ewf2_entry_bytes e) method = Inr (ewf2_entry_view method e)"
  using ewf2_entry_flags_bits [of "en_compressed e" "en_has_checksum e" "en_pattern_fill e"]
  by (auto simp: ewf2_entry_bytes_def ewf2_table_entry_def ewf2_table_entry_parse_def
      ewf2_entry_view_def ewf2_chunk_kind_def Let_def field_simps')

lemma length_ewf2_entry_bytes [simp]: "length (ewf2_entry_bytes e) = 16"
  by (simp add: ewf2_entry_bytes_def ewf2_table_entry_def Let_def)

interpretation ewf2_table: fixed_codec 16 ewf2_entry_bytes "\<lambda>b. ewf2_table_entry_parse b mth"
  "ewf2_entry_view mth" "\<lambda>_. True" for mth
  by unfold_locales (simp_all add: ewf2_entry_parse)

text \<open>A stored digest of 16 or 20 bytes reads back, and its checksum is the reader's.\<close>

lemma ewf2_hash_payload_fields:
  assumes "length hash \<le> 28"
  shows "slice (ewf2_hash_payload hash) 0 (length hash) = hash"
    and "u32_at (ewf2_hash_payload hash) (length hash) = adler32 hash"
    and "length (ewf2_hash_payload hash) = 32"
proof -
  have h: "slice (splice (replicate 32 0) 0 hash) 0 (length hash) = hash"
    using assms by (intro slice_splice_exact) simp_all
  show "slice (ewf2_hash_payload hash) 0 (length hash) = hash"
    using assms h by (simp add: ewf2_hash_payload_def Let_def slice_splice_before)
  show "u32_at (ewf2_hash_payload hash) (length hash) = adler32 hash"
    using assms h by (simp add: ewf2_hash_payload_def Let_def slice_splice_exact)
  show "length (ewf2_hash_payload hash) = 32"
    using assms by (simp add: ewf2_hash_payload_def Let_def)
qed

end
