(* ===== verification/Section_Scan.thy ===== *)
theory Section_Scan
  imports Ewf2_Format Ewf1_Writer
begin

text \<open>
  Finding the sections of a segment file (\<open>src/image.rs\<close>): the forward chain of EWF1
  descriptors, and the two layouts of EWF2, whose descriptors stand before or behind
  their data. A segment is its bytes; MD5 is a parameter. The lemmas: the scans end, every
  section they return lies inside the file, and a chain of sections laid out one after the
  other is found again exactly.
\<close>

section \<open>EWF1\<close>

record ewf1_section =
  sc_desc :: ewf1_section_descriptor
  sc_data_offset :: u64
  sc_data_size :: u64

function scan_ewf1_loop :: "bytes \<Rightarrow> u64 \<Rightarrow> ewf1_section list \<Rightarrow> ewf1_section list result" where
  "scan_ewf1_loop seg offset sections =
     (let file_len = word_of_nat (length seg) in
      try_bind (ok_or (checked_add offset 76) (Malformed ''EWF1 section descriptor overflow'')) (\<lambda>descriptor_end.
      if file_len < descriptor_end then Inl (Malformed ''EWF1 section descriptor exceeds file'')
      else
      try_bind (read_exact seg (unat offset) SECTION_DESCRIPTOR_SIZE) (\<lambda>buf.
      try_bind (validate_present_adler32_checksum buf 72 72 ''EWF1 section descriptor'') (\<lambda>_.
      try_bind (ewf1_section_descriptor_parse buf offset) (\<lambda>desc.
      try_bind (ewf1_data_size desc) (\<lambda>data_size.
      try_bind (ok_or (checked_add descriptor_end data_size) (Malformed ''EWF1 section data exceeds file'')) (\<lambda>data_end.
      if file_len < data_end then Inl (Malformed ''EWF1 section data exceeds file'')
      else let sections = sections @ [\<lparr>sc_desc = desc, sc_data_offset = descriptor_end, sc_data_size = data_size\<rparr>] in
        if sd_section_type desc \<in> {''done'', ''next''} \<or> sd_next desc = 0 then Inr sections
        else if sd_next desc \<le> offset then Inl (Malformed ''EWF1 section chain does not advance'')
        else if sd_next desc < data_end
        then Inl (Malformed ''EWF1 next section offset overlaps current section'')
        else scan_ewf1_loop seg (sd_next desc) sections)))))))"
  by pat_completeness auto
termination
  by (relation "measure (\<lambda>(seg, offset, sections). 2 ^ 64 - unat offset)")
    (auto simp: word_le_nat_alt intro!: diff_less_mono2 unat_64_less)

declare scan_ewf1_loop.simps [simp del]

definition scan_ewf1_sections :: "bytes \<Rightarrow> ewf1_section list result" where
  "scan_ewf1_sections seg = scan_ewf1_loop seg (word_of_nat FILE_HEADER_SIZE) []"

definition ewf1_acquisition_complete :: "ewf1_section list \<Rightarrow> bool" where
  "ewf1_acquisition_complete sections \<longleftrightarrow>
     (sections = [] \<or> sd_section_type (sc_desc (last sections)) \<noteq> ''next'')"

section \<open>EWF2\<close>

datatype open_strictness = Strict | Lenient

datatype ewf2_section_layout = LeadingDescriptor | TrailingDescriptor

record ewf2_section =
  s2c_desc :: ewf2_section_descriptor
  s2c_data_offset :: u64
  s2c_data_size :: u64
  s2c_layout :: ewf2_section_layout

text \<open>The derived \<open>Debug\<close> form of a section type, in messages only.\<close>

fun section_type_debug :: "section_type \<Rightarrow> string" where
  "section_type_debug DeviceInformation = ''DeviceInformation''"
| "section_type_debug CaseData = ''CaseData''"
| "section_type_debug SectorData = ''SectorData''"
| "section_type_debug SectorTable = ''SectorTable''"
| "section_type_debug ErrorTable = ''ErrorTable''"
| "section_type_debug SessionTable = ''SessionTable''"
| "section_type_debug IncrementData = ''IncrementData''"
| "section_type_debug Md5Hash = ''Md5Hash''"
| "section_type_debug Sha1Hash = ''Sha1Hash''"
| "section_type_debug RestartData = ''RestartData''"
| "section_type_debug EncryptionKeys = ''EncryptionKeys''"
| "section_type_debug MemoryExtentsTable = ''MemoryExtentsTable''"
| "section_type_debug NextSection = ''Next''"
| "section_type_debug FinalInformation = ''FinalInformation''"
| "section_type_debug DoneSection = ''Done''"
| "section_type_debug AnalyticalData = ''AnalyticalData''"
| "section_type_debug SingleFilesData = ''SingleFilesData''"
| "section_type_debug SingleFilesTable = ''SingleFilesTable''"
| "section_type_debug SingleFilesMd5HashTable = ''SingleFilesMd5HashTable''"
| "section_type_debug SingleFilesUnknownTable = ''SingleFilesUnknownTable''"
| "section_type_debug (UnknownSection v) = ''Unknown('' @ dec (unat v) @ '')''"

definition is_valid_ewf2_descriptor :: "ewf2_section_descriptor \<Rightarrow> open_strictness \<Rightarrow> bool" where
  "is_valid_ewf2_descriptor desc strictness \<longleftrightarrow>
     s2_descriptor_size desc = word_of_nat EWF2_SECTION_DESCRIPTOR_SIZE \<and>
     (strictness = Lenient \<or> (case s2_section_type desc of UnknownSection _ \<Rightarrow> False | _ \<Rightarrow> True))"

definition is_valid_ewf2_leading_descriptor :: "ewf2_section_descriptor \<Rightarrow> open_strictness \<Rightarrow> bool" where
  "is_valid_ewf2_leading_descriptor desc strictness = is_valid_ewf2_descriptor desc strictness"

definition ewf2_section_padding_size :: "ewf2_section_descriptor \<Rightarrow> u64 result" where
  "ewf2_section_padding_size desc =
     (let padding_size = ucast (s2_padding_size desc) in
      if s2_data_size desc < padding_size
      then Inl (Malformed ''EWF2 section padding size exceeds data size'')
      else Inr padding_size)"

definition reject_encrypted_ewf2_section :: "ewf2_section_descriptor \<Rightarrow> unit result" where
  "reject_encrypted_ewf2_section desc =
     (if s2_section_type desc = EncryptionKeys
      then Inl (Unsupported ''encrypted EWF2 image with encryption keys section'')
      else if s2_encrypted desc
      then Inl (Unsupported (''encrypted EWF2 '' @ section_type_debug (s2_section_type desc) @ '' section''))
      else Inr ())"

definition is_terminal_ewf2_section :: "section_type \<Rightarrow> bool" where
  "is_terminal_ewf2_section t \<longleftrightarrow> t \<in> {DoneSection, NextSection}"

text \<open>The hashed data is read through a buffer of 8 KiB and handed to MD5 piece by piece.\<close>

function hash_loop :: "bytes \<Rightarrow> nat \<Rightarrow> nat \<Rightarrow> bytes \<Rightarrow> bytes result" where
  "hash_loop seg pos remaining hashed =
     (if remaining = 0 then Inr hashed
      else let n = min remaining 8192 in
        try_bind (read_exact seg pos n) (\<lambda>buffer.
          hash_loop seg (pos + n) (remaining - n) (hashed @ buffer)))"
  by pat_completeness auto
termination
  by (relation "measure (\<lambda>(seg, pos, remaining, hashed). remaining)") auto

declare hash_loop.simps [simp del]

definition validate_ewf2_section_integrity_hash ::
    "(bytes \<Rightarrow> bytes) \<Rightarrow> bytes \<Rightarrow> ewf2_section_descriptor \<Rightarrow> u64 \<Rightarrow> unit result" where
  "validate_ewf2_section_integrity_hash md5 seg desc data_offset =
     (if \<not> s2_has_integrity_hash desc then Inr ()
      else try_bind (hash_loop seg (unat data_offset) (unat (s2_data_size desc)) []) (\<lambda>hashed.
        if md5 hashed \<noteq> s2_data_integrity_hash desc
        then Inl (Malformed ''EWF2 section data integrity hash mismatch'')
        else Inr ()))"

function scan_ewf2_leading_loop ::
    "(bytes \<Rightarrow> bytes) \<Rightarrow> bytes \<Rightarrow> open_strictness \<Rightarrow> u64 \<Rightarrow> ewf2_section list \<Rightarrow> ewf2_section list option result" where
  "scan_ewf2_leading_loop md5 seg strictness offset sections =
     (let file_len = word_of_nat (length seg);
        or_none = (\<lambda>msg. if sections = [] then Inr None else Inl (Malformed msg)) in
      if (case checked_add offset 64 of None \<Rightarrow> True | Some e \<Rightarrow> file_len < e)
      then or_none ''EWF2 leading section descriptor exceeds file''
      else
      try_bind (read_exact seg (unat offset) EWF2_SECTION_DESCRIPTOR_SIZE) (\<lambda>buf.
      case ewf2_section_descriptor_parse buf offset of
        Inl _ \<Rightarrow> or_none ''EWF2 leading section descriptor is invalid''
      | Inr desc \<Rightarrow>
      if \<not> is_valid_ewf2_leading_descriptor desc strictness
      then or_none ''EWF2 leading section descriptor is invalid''
      else
      try_bind (validate_present_adler32_checksum buf 60 60 ''EWF2 section descriptor'') (\<lambda>_.
      try_bind (ok_or (checked_add offset (ucast (s2_descriptor_size desc)))
        (Malformed ''EWF2 section data offset overflow'')) (\<lambda>data_offset.
      try_bind (ok_or (checked_add data_offset (s2_data_size desc))
        (Malformed ''EWF2 section advance overflow'')) (\<lambda>data_end.
      if file_len < data_end then or_none ''EWF2 section data exceeds file''
      else
      try_bind (ewf2_section_padding_size desc) (\<lambda>padding_size.
      try_bind (ok_or (checked_add data_end padding_size)
        (Malformed ''EWF2 section padding overflow'')) (\<lambda>next_offset.
      if file_len < next_offset then Inl (Malformed ''EWF2 section padding exceeds file'')
      else
      try_bind (reject_encrypted_ewf2_section desc) (\<lambda>_.
      try_bind (validate_ewf2_section_integrity_hash md5 seg desc data_offset) (\<lambda>_.
      let sections = sections @ [\<lparr>s2c_desc = desc, s2c_data_offset = data_offset,
          s2c_data_size = s2_data_size desc, s2c_layout = LeadingDescriptor\<rparr>] in
      if is_terminal_ewf2_section (s2_section_type desc) then Inr (Some sections)
      else if next_offset \<le> offset then Inl (Malformed ''EWF2 leading section chain does not advance'')
      else scan_ewf2_leading_loop md5 seg strictness next_offset sections)))))))))"
  by pat_completeness auto
termination
  by (relation "measure (\<lambda>(md5, seg, strictness, offset, sections). 2 ^ 64 - unat offset)")
    (auto simp: word_le_nat_alt intro!: diff_less_mono2 unat_64_less)

declare scan_ewf2_leading_loop.simps [simp del]

definition scan_ewf2_leading_sections ::
    "(bytes \<Rightarrow> bytes) \<Rightarrow> bytes \<Rightarrow> open_strictness \<Rightarrow> ewf2_section list option result" where
  "scan_ewf2_leading_sections md5 seg strictness =
     scan_ewf2_leading_loop md5 seg strictness (word_of_nat EWF2_FILE_HEADER_SIZE) []"

text \<open>The backward walk is a bounded \<open>for\<close> loop; the first argument counts its rounds.\<close>

definition trailing_bounds :: "ewf2_section_descriptor \<Rightarrow> u64 \<Rightarrow> u64 result" where
  "trailing_bounds desc offset =
     (try_bind (if s2_previous_offset desc = 0 then Inr 32
        else ok_or (checked_add (s2_previous_offset desc) 64)
          (Malformed ''EWF2 previous section offset overflow'')) (\<lambda>data_offset.
      if data_offset < 32 then Inl (Malformed ''EWF2 trailing section data precedes file header'')
      else
      try_bind (ok_or (checked_add data_offset (s2_data_size desc))
        (Malformed ''EWF2 trailing section data overflow'')) (\<lambda>data_end.
      if offset < data_end then Inl (Malformed ''EWF2 trailing section data exceeds descriptor'')
      else if s2_previous_offset desc \<noteq> 0
      then if s2_offset desc \<le> s2_previous_offset desc
        then Inl (Malformed ''EWF2 previous section offset is not before current section'')
        else try_bind (ok_or (checked_add (s2_previous_offset desc) 64)
            (Malformed ''EWF2 previous section offset overflow'')) (\<lambda>previous_end.
          if offset < previous_end
          then Inl (Malformed ''EWF2 previous section overlaps current section descriptor'')
          else Inr data_offset)
      else Inr data_offset)))"

fun scan_ewf2_trailing_loop ::
    "(bytes \<Rightarrow> bytes) \<Rightarrow> bytes \<Rightarrow> open_strictness \<Rightarrow> nat \<Rightarrow> u64 \<Rightarrow> ewf2_section list \<Rightarrow> ewf2_section list result" where
  "scan_ewf2_trailing_loop md5 seg strictness 0 offset sections =
     Inl (Malformed ''EWF2 trailing section descriptor chain is too long'')"
| "scan_ewf2_trailing_loop md5 seg strictness (Suc rounds) offset sections =
     (try_bind (read_exact seg (unat offset) EWF2_SECTION_DESCRIPTOR_SIZE) (\<lambda>buf.
      try_bind (ewf2_section_descriptor_parse buf offset) (\<lambda>desc.
      if \<not> is_valid_ewf2_descriptor desc strictness
      then Inl (Malformed ''EWF2 trailing section descriptor is invalid'')
      else
      try_bind (validate_present_adler32_checksum buf 60 60 ''EWF2 section descriptor'') (\<lambda>_.
      try_bind (ewf2_section_padding_size desc) (\<lambda>_.
      try_bind (trailing_bounds desc offset) (\<lambda>data_offset.
      try_bind (reject_encrypted_ewf2_section desc) (\<lambda>_.
      try_bind (validate_ewf2_section_integrity_hash md5 seg desc data_offset) (\<lambda>_.
      let sections = sections @ [\<lparr>s2c_desc = desc, s2c_data_offset = data_offset,
          s2c_data_size = s2_data_size desc, s2c_layout = TrailingDescriptor\<rparr>] in
      if s2_previous_offset desc = 0 then Inr (rev sections)
      else scan_ewf2_trailing_loop md5 seg strictness rounds (s2_previous_offset desc) sections))))))))"

definition scan_ewf2_trailing_sections ::
    "(bytes \<Rightarrow> bytes) \<Rightarrow> bytes \<Rightarrow> open_strictness \<Rightarrow> ewf2_section list result" where
  "scan_ewf2_trailing_sections md5 seg strictness =
     (let file_len = word_of_nat (length seg) :: u64 in
      try_bind (ok_or (checked_sub file_len 64) (Malformed ''EWF2 file is too short'')) (\<lambda>offset.
      let max_sections = saturating_add ((file_len - 32) div 64) 1 in
      scan_ewf2_trailing_loop md5 seg strictness (unat max_sections) offset []))"

definition scan_ewf2_sections :: "(bytes \<Rightarrow> bytes) \<Rightarrow> bytes \<Rightarrow> open_strictness \<Rightarrow> ewf2_section list result" where
  "scan_ewf2_sections md5 seg strictness =
     (let file_len = word_of_nat (length seg) :: u64 in
      if file_len < 32 + 64 then Inl (Malformed ''EWF2 file is too short'')
      else try_bind (scan_ewf2_leading_sections md5 seg strictness) (\<lambda>found.
        case found of
          Some sections \<Rightarrow> Inr sections
        | None \<Rightarrow> scan_ewf2_trailing_sections md5 seg strictness))"

definition ewf2_acquisition_complete :: "ewf2_section list \<Rightarrow> bool" where
  "ewf2_acquisition_complete sections \<longleftrightarrow>
     (sections = [] \<or> s2_section_type (s2c_desc (last sections)) \<noteq> NextSection)"

section \<open>Scanned sections lie inside the file\<close>

text \<open>
  Sections in file order: each starts behind the data of the one before it, and the last
  one ends inside the file.
\<close>

definition section_end :: "ewf1_section \<Rightarrow> nat" where
  "section_end sec = unat (sc_data_offset sec) + unat (sc_data_size sec)"

definition section_inside :: "nat \<Rightarrow> ewf1_section \<Rightarrow> bool" where
  "section_inside n sec \<longleftrightarrow>
     unat (sc_data_offset sec) = unat (sd_offset (sc_desc sec)) + 76 \<and> section_end sec \<le> n"

fun in_file_order :: "nat \<Rightarrow> ewf1_section list \<Rightarrow> bool" where
  "in_file_order from [] = True"
| "in_file_order from (sec # secs) \<longleftrightarrow> from \<le> unat (sd_offset (sc_desc sec)) \<and> in_file_order (section_end sec) secs"

lemma in_file_order_append:
  "in_file_order from (xs @ [sec]) \<longleftrightarrow> in_file_order from xs \<and>
     (if xs = [] then from else section_end (last xs)) \<le> unat (sd_offset (sc_desc sec))"
  by (induction xs arbitrary: "from") auto

lemma parsed_descriptor_offset:
  "ewf1_section_descriptor_parse buf off = Inr d \<Longrightarrow> sd_offset d = off"
  by (auto simp: ewf1_section_descriptor_parse_def Let_def split: if_splits)

lemma scan_ewf1_loop_ok:
  assumes "length seg < 2 ^ 64"
    and "scan_ewf1_loop seg offset acc = Inr sections"
    and "in_file_order 13 acc" "\<forall>sec \<in> set acc. section_inside (length seg) sec"
    and "(if acc = [] then 13 else section_end (last acc)) \<le> unat offset"
  shows "in_file_order 13 sections \<and> (\<forall>sec \<in> set sections. section_inside (length seg) sec)"
  using assms
proof (induction seg offset acc rule: scan_ewf1_loop.induct)
  case (1 seg offset acc)
  from "1.prems"(2) obtain e1 buf d n e2 where
    e1: "checked_add offset 76 = Some e1" "\<not> word_of_nat (length seg) < e1"
    and buf: "read_exact seg (unat offset) SECTION_DESCRIPTOR_SIZE = Inr buf"
      "validate_present_adler32_checksum buf 72 72 ''EWF1 section descriptor'' = Inr ()"
    and d: "ewf1_section_descriptor_parse buf offset = Inr d" and n: "ewf1_data_size d = Inr n"
    and e2: "checked_add e1 n = Some e2" "\<not> word_of_nat (length seg) < e2"
    and rest: "(let sections' = acc @ [\<lparr>sc_desc = d, sc_data_offset = e1, sc_data_size = n\<rparr>] in
        if sd_section_type d \<in> {''done'', ''next''} \<or> sd_next d = 0 then Inr sections'
        else if sd_next d \<le> offset then Inl (Malformed ''EWF1 section chain does not advance'')
        else if sd_next d < e2
        then Inl (Malformed ''EWF1 next section offset overlaps current section'')
        else scan_ewf1_loop seg (sd_next d) sections') = Inr sections"
    by (subst (asm) scan_ewf1_loop.simps) (auto simp: Let_def try_bind_Inr_iff split: if_splits)
  let ?acc = "acc @ [\<lparr>sc_desc = d, sc_data_offset = e1, sc_data_size = n\<rparr>]"
  have off: "sd_offset d = offset" using d by (rule parsed_descriptor_offset)
  have len: "unat (word_of_nat (length seg) :: u64) = length seg"
    using "1.prems"(1) by (simp add: unat_of_small_u64)
  have u: "unat e1 = unat offset + 76" "unat e2 = unat e1 + unat n" "unat e2 \<le> length seg"
    using e1(1) e2 by (simp_all add: checked_simps word_le_nat_alt not_less len)
  have acc: "in_file_order 13 ?acc" "\<forall>sec \<in> set ?acc. section_inside (length seg) sec"
    using "1.prems"(3-5) u by (auto simp: in_file_order_append section_inside_def section_end_def off)
  show ?case
  proof (cases "sd_section_type d \<in> {''done'', ''next''} \<or> sd_next d = 0")
    case True
    with rest have "sections = ?acc" by (simp add: Let_def)
    with acc show ?thesis by (simp only:)
  next
    case False
    with rest have next_ok: "\<not> sd_next d \<le> offset" "\<not> sd_next d < e2"
      and run: "scan_ewf1_loop seg (sd_next d) ?acc = Inr sections"
      by (simp_all add: Let_def split: if_splits)
    have "(if ?acc = [] then 13 else section_end (last ?acc)) \<le> unat (sd_next d)"
      using next_ok u by (simp add: section_end_def word_le_nat_alt not_less)
    from "1.IH" [OF refl _ e1(2) buf d n _ e2(2) refl False next_ok] "1.prems"(1) e1(1) e2(1) run acc this
    show ?thesis by simp
  qed
qed

lemma scan_ewf1_sections_ok:
  assumes "length seg < 2 ^ 64" "scan_ewf1_sections seg = Inr sections"
  shows "in_file_order 13 sections" "\<forall>sec \<in> set sections. section_inside (length seg) sec"
  using scan_ewf1_loop_ok [OF assms(1) assms(2) [unfolded scan_ewf1_sections_def]] by simp_all

section \<open>A chain of sections is found again\<close>

text \<open>
  Sections one after the other: type and data of each, then the descriptor that ends the
  segment, whose next offset is its own.
\<close>

fun section_chain :: "nat \<Rightarrow> (bytes \<times> bytes) list \<Rightarrow> bytes \<Rightarrow> bytes" where
  "section_chain off [] terminal = section_desc terminal (word_of_nat off) 76"
| "section_chain off ((t, data) # secs) terminal =
     section_desc t (word_of_nat (off + 76 + length data)) (word_of_nat (76 + length data)) @ data @
     section_chain (off + 76 + length data) secs terminal"

definition section_at :: "nat \<Rightarrow> bytes \<Rightarrow> nat \<Rightarrow> nat \<Rightarrow> ewf1_section" where
  "section_at off t nxt n =
     \<lparr>sc_desc = \<lparr>sd_section_type = str_of t, sd_next = word_of_nat nxt, sd_size = word_of_nat (76 + n),
        sd_offset = word_of_nat off, sd_compression_method = None\<rparr>,
      sc_data_offset = word_of_nat (off + 76), sc_data_size = word_of_nat n\<rparr>"

fun chain_sections :: "nat \<Rightarrow> (bytes \<times> bytes) list \<Rightarrow> bytes \<Rightarrow> ewf1_section list" where
  "chain_sections off [] terminal = [section_at off terminal off 0]"
| "chain_sections off ((t, data) # secs) terminal =
     section_at off t (off + 76 + length data) (length data) #
     chain_sections (off + 76 + length data) secs terminal"

fun chain_length :: "(bytes \<times> bytes) list \<Rightarrow> nat" where
  "chain_length [] = 76"
| "chain_length ((t, data) # secs) = 76 + length data + chain_length secs"

definition section_name_ok :: "bytes \<Rightarrow> bool" where
  "section_name_ok t \<longleftrightarrow> length t \<le> 16 \<and> (\<forall>b \<in> set t. 0 < b \<and> b < 0x80)"

lemma length_section_chain:
  "section_name_ok terminal \<Longrightarrow> \<forall>(t, data) \<in> set secs. section_name_ok t \<Longrightarrow>
   length (section_chain off secs terminal) = chain_length secs"
  by (induction secs arbitrary: off) (auto simp: length_section_desc section_name_ok_def)

lemma present_checksum_of_desc:
  assumes "section_name_ok t"
  shows "validate_present_adler32_checksum (section_desc t nxt sz) 72 72 label = Inr ()"
  using section_desc_fields(5) [of t nxt sz] assms
  by (simp add: validate_present_adler32_checksum_def validate_adler32_checksum_value_def section_name_ok_def Let_def)

lemma unat_small_u64: "k < 2 ^ 64 \<Longrightarrow> unat (word_of_nat k :: u64) = k"
  by (rule unat_of_small_u64) simp

text \<open>One step of the scan over a descriptor as the writer emits it.\<close>

lemma scan_written_descriptor:
  assumes len: "length seg < 2 ^ 64" and t: "section_name_ok t"
    and at: "slice seg off (off + 76) = section_desc t (word_of_nat nxt) (word_of_nat (76 + n))"
    and fits: "off + 76 + n \<le> length seg" and nxt: "nxt < 2 ^ 64" "off < 2 ^ 64"
  shows "scan_ewf1_loop seg (word_of_nat off) acc =
    (let acc = acc @ [section_at off t nxt n] in
     if str_of t \<in> {''done'', ''next''} \<or> nxt = 0 then Inr acc
     else if nxt \<le> off then Inl (Malformed ''EWF1 section chain does not advance'')
     else if nxt < off + 76 + n then Inl (Malformed ''EWF1 next section offset overlaps current section'')
     else scan_ewf1_loop seg (word_of_nat nxt) acc)"
proof -
  let ?o = "word_of_nat off :: u64" and ?e = "word_of_nat (off + 76) :: u64" and ?f = "word_of_nat (off + 76 + n) :: u64"
  have u: "unat ?o = off" "unat ?e = off + 76" "unat ?f = off + 76 + n" "unat (word_of_nat n :: u64) = n"
    "unat (word_of_nat (length seg) :: u64) = length seg" "unat (word_of_nat nxt :: u64) = nxt"
  proof -
    show "unat ?o = off" "unat ?e = off + 76" "unat ?f = off + 76 + n" "unat (word_of_nat n :: u64) = n"
      "unat (word_of_nat (length seg) :: u64) = length seg" "unat (word_of_nat nxt :: u64) = nxt"
      by (rule unat_small_u64, use len fits nxt in linarith)+
  qed
  have e1: "checked_add ?o 76 = Some ?e" and e2: "checked_add ?e (word_of_nat n) = Some ?f"
    using len fits by (simp_all only: checked_add_Some u) simp_all
  have read: "read_exact seg off SECTION_DESCRIPTOR_SIZE = Inr (section_desc t (word_of_nat nxt) (word_of_nat (76 + n)))"
    using fits at by (simp add: read_exact_ok)
  have size: "ewf1_data_size \<lparr>sd_section_type = str_of t, sd_next = word_of_nat nxt, sd_size = word_of_nat (76 + n),
      sd_offset = ?o, sd_compression_method = None\<rparr> = Inr (word_of_nat n)"
  proof -
    have s: "unat (word_of_nat (76 + n) :: u64) = 76 + n" using fits len by (intro unat_small_u64) linarith
    then have "(word_of_nat (76 + n) :: u64) \<noteq> 0" by (metis add_is_0 unat_0 zero_neq_numeral)
    moreover have "checked_sub (word_of_nat (76 + n)) 76 = Some (word_of_nat n :: u64)"
      by (simp only: checked_sub_Some s u) simp
    ultimately show ?thesis by (simp add: ewf1_data_size_def)
  qed
  have parse: "ewf1_section_descriptor_parse (section_desc t (word_of_nat nxt) (word_of_nat (76 + n))) ?o
      = Inr \<lparr>sd_section_type = str_of t, sd_next = word_of_nat nxt, sd_size = word_of_nat (76 + n),
          sd_offset = ?o, sd_compression_method = None\<rparr>"
    using t by (intro section_desc_parse) (auto simp: section_name_ok_def)
  have cmp: "word_of_nat nxt = (0 :: u64) \<longleftrightarrow> nxt = 0" "(word_of_nat nxt :: u64) \<le> ?o \<longleftrightarrow> nxt \<le> off"
    "(word_of_nat nxt :: u64) < ?f \<longleftrightarrow> nxt < off + 76 + n"
    by (simp_all only: word_le_nat_alt word_less_nat_alt u unat_eq_0 [symmetric])
  have fit: "\<not> (word_of_nat (length seg) :: u64) < ?e" "\<not> (word_of_nat (length seg) :: u64) < ?f"
    using fits by (simp_all only: word_less_nat_alt u)
  show ?thesis
    by (subst scan_ewf1_loop.simps)
      (simp only: Let_def e1 e2 ok_or_simps try_bind_simps fit if_False u read size parse
        present_checksum_of_desc [OF t] cmp section_at_def ewf1_section_descriptor.simps)
qed

lemma drop_past: "drop (length xs + length ys) (xs @ ys @ zs) = zs"
  by simp

lemma scan_section_chain:
  assumes "length seg < 2 ^ 64" "13 \<le> off"
    and "drop off seg = section_chain off secs terminal @ rest"
    and "\<forall>(t, data) \<in> set secs. section_name_ok t \<and> str_of t \<notin> {''done'', ''next''}"
    and "section_name_ok terminal" "str_of terminal \<in> {''done'', ''next''}"
  shows "scan_ewf1_loop seg (word_of_nat off) acc = Inr (acc @ chain_sections off secs terminal)"
  using assms(2-)
proof (induction secs arbitrary: off acc)
  case Nil
  have d: "drop off seg = section_desc terminal (word_of_nat off) 76 @ rest" using Nil by simp
  have l: "length (section_desc terminal (word_of_nat off) 76) = 76"
    using Nil by (intro length_section_desc) (simp add: section_name_ok_def)
  have "length (drop off seg) = 76 + length rest" using d l by simp
  then have fits: "off + 76 + 0 \<le> length seg" by simp
  have at: "slice seg off (off + 76) = section_desc terminal (word_of_nat off) (word_of_nat (76 + 0))"
    using l by (simp add: slice_def d)
  have "off < 2 ^ 64" using fits assms(1) by linarith
  from scan_written_descriptor [OF assms(1) _ at fits this this] Nil show ?case by simp
next
  case (Cons sec secs)
  obtain t data where sec: "sec = (t, data)" by (cases sec)
  let ?d = "section_desc t (word_of_nat (off + 76 + length data)) (word_of_nat (76 + length data))"
  let ?tail = "section_chain (off + 76 + length data) secs terminal @ rest"
  have t: "section_name_ok t" "str_of t \<notin> {''done'', ''next''}" using Cons.prems(3) by (simp_all add: sec)
  have d: "drop off seg = ?d @ data @ ?tail" using Cons.prems(2) by (simp add: sec)
  have l: "length ?d = 76" using t by (intro length_section_desc) (simp add: section_name_ok_def)
  have "length (drop off seg) = 76 + length data + length ?tail" unfolding d length_append l by simp
  moreover have "length (section_chain (off + 76 + length data) secs terminal) = chain_length secs"
    using Cons.prems by (intro length_section_chain) auto
  moreover have "76 \<le> chain_length secs" by (induction secs rule: chain_length.induct) simp_all
  ultimately have fits: "off + 76 + length data + 76 \<le> length seg" by (simp only: length_drop length_append)
  have at: "slice seg off (off + 76) = ?d" using l by (simp add: slice_def d)
  have nx: "drop (off + 76 + length data) seg = ?tail"
  proof -
    have "drop (off + 76 + length data) seg = drop (76 + length data) (drop off seg)" by (simp add: ac_simps)
    also have "\<dots> = ?tail"
      unfolding d using drop_past [of ?d data ?tail] by (simp only: l)
    finally show ?thesis .
  qed
  have b: "off + 76 + length data < 2 ^ 64" "off < 2 ^ 64" "off + 76 + length data \<le> length seg"
    using fits assms(1) by linarith+
  have "scan_ewf1_loop seg (word_of_nat (off + 76 + length data)) (acc @ [section_at off t (off + 76 + length data) (length data)])
      = Inr ((acc @ [section_at off t (off + 76 + length data) (length data)]) @ chain_sections (off + 76 + length data) secs terminal)"
    using Cons.prems(1,3-5) by (intro Cons.IH [OF _ nx]) auto
  with scan_written_descriptor [OF assms(1) t(1) at b(3) b(1,2), of acc] t(2) show ?case
    by (simp add: sec Let_def)
qed

lemma scan_written_sections:
  assumes "length seg < 2 ^ 64" "seg = file_header @ section_chain 13 secs terminal" "length file_header = 13"
    and "\<forall>(t, data) \<in> set secs. section_name_ok t \<and> str_of t \<notin> {''done'', ''next''}"
    and "section_name_ok terminal" "str_of terminal \<in> {''done'', ''next''}"
  shows "scan_ewf1_sections seg = Inr (chain_sections 13 secs terminal)"
  using scan_section_chain [OF assms(1) _ _ assms(4-6), of 13 "[]" "[]"] assms(2,3)
  by (simp add: scan_ewf1_sections_def)

end
