(* ===== verification/Writer_Layout.thy ===== *)
theory Writer_Layout
  imports Ewf1_Writer
begin

text \<open>
  How \<open>src/writer.rs\<close> cuts the chunks of an image into table groups and segments,
  and the offsets it lays the sections out at. The lemmas: the groups and the segments
  partition the chunks in order, the groups respect the limits of a table, and the
  offsets are consecutive without overflow.
\<close>

definition EWF1_TABLE_GROUP_MAX_PAYLOAD :: u64 where
  "EWF1_TABLE_GROUP_MAX_PAYLOAD = 0x7fffffff"

definition EWF1_TABLE_GROUP_MAX_ENTRIES :: nat where
  "EWF1_TABLE_GROUP_MAX_ENTRIES = 16375"

abbreviation (input) EWF2_TABLE_HEADER_V2_SIZE :: nat where "EWF2_TABLE_HEADER_V2_SIZE \<equiv> 32"
abbreviation (input) EWF2_TABLE_FOOTER_SIZE :: nat where "EWF2_TABLE_FOOTER_SIZE \<equiv> 16"

section \<open>Contiguous ranges\<close>

fun contiguous :: "nat \<Rightarrow> nat \<Rightarrow> (nat \<times> nat) list \<Rightarrow> bool" where
  "contiguous a b [] \<longleftrightarrow> a = b"
| "contiguous a b ((s, e) # rs) \<longleftrightarrow> s = a \<and> s \<le> e \<and> contiguous e b rs"

lemma contiguous_snoc:
  "contiguous a b (rs @ [(s, e)]) \<longleftrightarrow> contiguous a s rs \<and> s \<le> e \<and> e = b"
  by (induction a b rs rule: contiguous.induct) auto

lemma contiguous_le: "contiguous a b rs \<Longrightarrow> a \<le> b"
  by (induction a b rs rule: contiguous.induct) auto

text \<open>Every index between the ends lies in one of the ranges.\<close>

lemma contiguous_covers:
  "contiguous a b rs \<Longrightarrow> a \<le> i \<Longrightarrow> i < b \<Longrightarrow> \<exists>r \<in> set rs. fst r \<le> i \<and> i < snd r"
proof (induction a b rs rule: contiguous.induct)
  case (2 a b s e rs)
  then show ?case by (cases "i < e") auto
qed simp

lemma contiguous_concat_slices:
  "contiguous a b rs \<Longrightarrow> concat (map (\<lambda>(s, e). slice xs s e) rs) = slice xs a b"
proof (induction a b rs rule: contiguous.induct)
  case (2 a b s e rs)
  then show ?case using contiguous_le [of e b rs] by (simp add: slice_join)
qed simp

section \<open>Table groups\<close>

record table_group =
  tg_first_chunk :: nat
  tg_end_chunk :: nat
  tg_payload_size :: u64

record table_group_state =
  gs_group_count :: u64
  gs_current_entry_count :: nat
  gs_current_payload_size :: u64

definition table_group_state_default :: table_group_state where
  "table_group_state_default =
     \<lparr>gs_group_count = 0, gs_current_entry_count = 0, gs_current_payload_size = 0\<rparr>"

definition add_chunk ::
    "table_group_state \<Rightarrow> u64 \<Rightarrow> nat \<Rightarrow> u64 \<Rightarrow> table_group_state result" where
  "add_chunk st data_size max_entries max_payload =
     try_bind (ok_or (checked_add (gs_current_payload_size st) data_size)
       (Malformed ''writer table group payload overflow'')) (\<lambda>proposed_payload_size.
     if gs_current_entry_count st \<noteq> 0 \<and>
        (max_entries \<le> gs_current_entry_count st \<or> max_payload < proposed_payload_size)
     then try_bind (ok_or (checked_add (gs_group_count st) 1)
            (Malformed ''writer table group count overflow'')) (\<lambda>group_count.
          Inr \<lparr>gs_group_count = group_count, gs_current_entry_count = 1,
               gs_current_payload_size = data_size\<rparr>)
     else try_bind (ok_or (usize_add (gs_current_entry_count st) 1)
            (Malformed ''writer table group entry count overflow'')) (\<lambda>entry_count.
          Inr \<lparr>gs_group_count = max (gs_group_count st) 1,
               gs_current_entry_count = entry_count,
               gs_current_payload_size = proposed_payload_size\<rparr>))"

fun ewf1_table_groups_loop ::
    "nat \<Rightarrow> u64 \<Rightarrow> nat \<Rightarrow> chunk_descriptor list
      \<Rightarrow> table_group list \<times> nat \<times> table_group_state
      \<Rightarrow> (table_group list \<times> nat \<times> table_group_state) result" where
  "ewf1_table_groups_loop max_entries max_payload index [] acc = Inr acc"
| "ewf1_table_groups_loop max_entries max_payload index (chunk # chunks) (groups, first_chunk, st) =
     try_bind (add_chunk st (cd_data_size chunk) max_entries max_payload) (\<lambda>next_state.
     if gs_group_count st < gs_group_count next_state \<and> gs_current_entry_count st \<noteq> 0
     then ewf1_table_groups_loop max_entries max_payload (index + 1) chunks
            (groups @ [\<lparr>tg_first_chunk = first_chunk, tg_end_chunk = index,
                        tg_payload_size = gs_current_payload_size st\<rparr>], index, next_state)
     else ewf1_table_groups_loop max_entries max_payload (index + 1) chunks
            (groups, first_chunk, next_state))"

definition ewf1_table_groups ::
    "chunk_descriptor list \<Rightarrow> nat \<Rightarrow> u64 \<Rightarrow> table_group list result" where
  "ewf1_table_groups chunks max_entries max_payload =
     try_bind (ewf1_table_groups_loop max_entries max_payload 0 chunks
       ([], 0, table_group_state_default)) (\<lambda>(groups, first_chunk, st).
     Inr (groups @ [\<lparr>tg_first_chunk = first_chunk, tg_end_chunk = length chunks,
                     tg_payload_size = gs_current_payload_size st\<rparr>]))"

text \<open>The specification: exact payload sums, and the limits of one table.\<close>

definition payload_of :: "chunk_descriptor list \<Rightarrow> nat" where
  "payload_of cs = sum_list (map (unat \<circ> cd_data_size) cs)"

definition group_range :: "table_group \<Rightarrow> nat \<times> nat" where
  "group_range g = (tg_first_chunk g, tg_end_chunk g)"

definition group_ok :: "chunk_descriptor list \<Rightarrow> nat \<Rightarrow> u64 \<Rightarrow> table_group \<Rightarrow> bool" where
  "group_ok chunks max_entries max_payload g \<longleftrightarrow>
     (let n = tg_end_chunk g - tg_first_chunk g in
      unat (tg_payload_size g) = payload_of (slice chunks (tg_first_chunk g) (tg_end_chunk g)) \<and>
      n \<le> max max_entries 1 \<and>
      (n \<le> 1 \<or> unat (tg_payload_size g) \<le> unat max_payload))"

lemma payload_of_simps [simp]:
  "payload_of [] = 0"
  "payload_of (xs @ ys) = payload_of xs + payload_of ys"
  "payload_of [c] = unat (cd_data_size c)"
  by (simp_all add: payload_of_def)

definition state_ok ::
    "chunk_descriptor list \<Rightarrow> nat \<Rightarrow> u64 \<Rightarrow> nat \<Rightarrow> table_group list \<Rightarrow> nat \<Rightarrow> table_group_state \<Rightarrow> bool" where
  "state_ok chunks max_entries max_payload index groups first st \<longleftrightarrow>
     contiguous 0 first (map group_range groups) \<and>
     first \<le> index \<and> (0 < index \<longrightarrow> first < index) \<and>
     (\<forall>g \<in> set groups. group_ok chunks max_entries max_payload g \<and> tg_first_chunk g < tg_end_chunk g) \<and>
     group_ok chunks max_entries max_payload
       \<lparr>tg_first_chunk = first, tg_end_chunk = index, tg_payload_size = gs_current_payload_size st\<rparr> \<and>
     gs_current_entry_count st = index - first \<and>
     (0 < index \<longrightarrow> 1 \<le> gs_group_count st)"

lemma state_ok_start: "state_ok chunks max_entries max_payload 0 [] 0 table_group_state_default"
  by (simp add: state_ok_def table_group_state_default_def group_ok_def)

lemma slice_snoc: "a \<le> i \<Longrightarrow> i < length xs \<Longrightarrow> slice xs a (Suc i) = slice xs a i @ [xs ! i]"
  by (simp add: slice_def Suc_diff_le take_Suc_conv_app_nth)

lemma slice_single: "i < length xs \<Longrightarrow> slice xs i (Suc i) = [xs ! i]"
  by (simp add: slice_snoc)

text \<open>One step keeps the invariant, whether it opens a group or extends the current one.\<close>

lemma state_ok_step:
  assumes ok: "state_ok chunks max_entries max_payload index groups first st"
    and i: "index < length chunks"
    and add: "add_chunk st (cd_data_size (chunks ! index)) max_entries max_payload = Inr nxt"
  shows "if gs_group_count st < gs_group_count nxt \<and> gs_current_entry_count st \<noteq> 0
    then state_ok chunks max_entries max_payload (Suc index)
      (groups @ [\<lparr>tg_first_chunk = first, tg_end_chunk = index,
                  tg_payload_size = gs_current_payload_size st\<rparr>]) index nxt
    else state_ok chunks max_entries max_payload (Suc index) groups first nxt"
proof -
  let ?new = "gs_current_entry_count st \<noteq> 0 \<and> (max_entries \<le> gs_current_entry_count st \<or>
    unat max_payload < unat (gs_current_payload_size st) + unat (cd_data_size (chunks ! index)))"
  show ?thesis
  proof (cases ?new)
    case True
    then have "gs_group_count st < gs_group_count nxt" "gs_current_entry_count nxt = 1"
      "gs_current_payload_size nxt = cd_data_size (chunks ! index)" "1 \<le> gs_group_count nxt"
      using add by (auto simp: add_chunk_def try_bind_Inr_iff checked_simps word_nat_order)
    with True ok i show ?thesis
      by (auto simp: state_ok_def contiguous_snoc group_range_def group_ok_def slice_single)
  next
    case False
    then have nxt: "gs_group_count nxt = max (gs_group_count st) 1"
      "gs_current_entry_count nxt = Suc (gs_current_entry_count st)"
      "unat (gs_current_payload_size nxt)
        = unat (gs_current_payload_size st) + unat (cd_data_size (chunks ! index))"
      using add by (auto simp: add_chunk_def try_bind_Inr_iff checked_simps word_nat_order)
    have same: "\<not> (gs_group_count st < gs_group_count nxt \<and> gs_current_entry_count st \<noteq> 0)"
      using ok nxt by (auto simp: state_ok_def max_def)
    have "state_ok chunks max_entries max_payload (Suc index) groups first nxt"
      using ok i False nxt
      by (auto simp: state_ok_def group_ok_def slice_snoc Let_def word_nat_order max_def)
    then show ?thesis by (simp only: same if_False)
  qed
qed

lemma ewf1_table_groups_loop_ok:
  assumes "ewf1_table_groups_loop max_entries max_payload index cs (groups, first, st)
      = Inr (groups', first', st')"
    and "state_ok chunks max_entries max_payload index groups first st"
    and "cs = drop index chunks"
  shows "state_ok chunks max_entries max_payload (index + length cs) groups' first' st'"
  using assms
proof (induction cs arbitrary: index groups first st)
  case (Cons c cs)
  from Cons.prems(3) have i: "index < length chunks" and c: "c = chunks ! index"
    and cs: "cs = drop (Suc index) chunks"
    by (metis drop_eq_Nil linorder_not_less list.distinct(1),
        metis drop_eq_Nil hd_drop_conv_nth linorder_not_less list.distinct(1) list.sel(1),
        metis drop_Suc list.sel(3) tl_drop)
  from Cons.prems(1) obtain nxt where add: "add_chunk st (cd_data_size c) max_entries max_payload = Inr nxt"
    by (auto simp: try_bind_Inr_iff simp del: ewf1_table_groups_loop.simps(1))
  note step = state_ok_step [OF Cons.prems(2) i add [unfolded c]]
  show ?case
  proof (cases "gs_group_count st < gs_group_count nxt \<and> gs_current_entry_count st \<noteq> 0")
    case True
    with Cons.prems(1) step Cons.IH [OF _ _ cs] show ?thesis by (simp add: add)
  next
    case False
    note stay = Cons.prems(1) [unfolded ewf1_table_groups_loop.simps add try_bind_simps if_not_P [OF False]]
    show ?thesis using stay step Cons.IH [OF _ _ cs] False by (simp split: if_splits)
  qed
qed simp

lemma ewf1_table_groups_ok:
  assumes "ewf1_table_groups chunks max_entries max_payload = Inr groups"
  shows "contiguous 0 (length chunks) (map group_range groups)"
    and "g \<in> set groups \<Longrightarrow> group_ok chunks max_entries max_payload g"
    and "chunks \<noteq> [] \<Longrightarrow> g \<in> set groups \<Longrightarrow> tg_first_chunk g < tg_end_chunk g"
    and "groups \<noteq> []"
proof -
  from assms obtain gs first st where
    loop: "ewf1_table_groups_loop max_entries max_payload 0 chunks ([], 0, table_group_state_default)
        = Inr (gs, first, st)"
    and groups: "groups = gs @ [\<lparr>tg_first_chunk = first, tg_end_chunk = length chunks,
        tg_payload_size = gs_current_payload_size st\<rparr>]"
    by (auto simp: ewf1_table_groups_def try_bind_Inr_iff)
  have ok: "state_ok chunks max_entries max_payload (length chunks) gs first st"
    using ewf1_table_groups_loop_ok [OF loop state_ok_start] by simp
  then show "contiguous 0 (length chunks) (map group_range groups)"
    by (auto simp: groups state_ok_def contiguous_snoc group_range_def)
  show "g \<in> set groups \<Longrightarrow> group_ok chunks max_entries max_payload g"
    using ok by (auto simp: groups state_ok_def)
  show "chunks \<noteq> [] \<Longrightarrow> g \<in> set groups \<Longrightarrow> tg_first_chunk g < tg_end_chunk g"
    using ok by (auto simp: groups state_ok_def)
  show "groups \<noteq> []" by (simp add: groups)
qed

section \<open>Offsets of the sections of a table group\<close>

record table_group_layout =
  gl_first_chunk :: nat
  gl_end_chunk :: nat
  gl_payload_size :: u64
  gl_sectors_desc_offset :: u64
  gl_sectors_data_offset :: u64
  gl_table_desc_offset :: u64
  gl_table_data_size :: u64
  gl_table2_desc_offset :: "u64 option"
  gl_end_offset :: u64

definition ewf1_group_layout ::
    "table_group \<Rightarrow> u64 \<Rightarrow> u64 \<Rightarrow> bool \<Rightarrow> table_group_layout result" where
  "ewf1_group_layout grp cursor table_footer_bytes writes_table2 =
     try_bind (ok_or (checked_mul (word_of_nat (tg_end_chunk grp - tg_first_chunk grp)) 4)
       (Malformed ''writer table entry size overflow'')) (\<lambda>table_entry_bytes.
     try_bind (ok_or (Option.bind (checked_add 24 table_entry_bytes)
         (\<lambda>value. checked_add value table_footer_bytes))
       (Malformed ''writer table data size overflow'')) (\<lambda>table_data_size.
     try_bind (ok_or (checked_add cursor 76)
       (Malformed ''writer sectors data offset overflow'')) (\<lambda>sectors_data_offset.
     try_bind (ok_or (checked_add sectors_data_offset (tg_payload_size grp))
       (Malformed ''writer table descriptor offset overflow'')) (\<lambda>table_desc_offset.
     try_bind (ok_or (Option.bind (checked_add table_desc_offset 76)
         (\<lambda>value. checked_add value table_data_size))
       (Malformed ''writer table section range overflow'')) (\<lambda>table_end_offset.
     try_bind
       (if writes_table2
        then try_bind (ok_or (Option.bind (checked_add table_end_offset 76)
                 (\<lambda>value. checked_add value table_data_size))
               (Malformed ''writer table2 section range overflow'')) (\<lambda>end_offset.
          Inr (Some table_end_offset, end_offset))
        else Inr (None, table_end_offset)) (\<lambda>(table2_desc_offset, end_offset).
     Inr \<lparr>gl_first_chunk = tg_first_chunk grp, gl_end_chunk = tg_end_chunk grp,
       gl_payload_size = tg_payload_size grp, gl_sectors_desc_offset = cursor,
       gl_sectors_data_offset = sectors_data_offset, gl_table_desc_offset = table_desc_offset,
       gl_table_data_size = table_data_size, gl_table2_desc_offset = table2_desc_offset,
       gl_end_offset = end_offset\<rparr>))))))"

fun ewf1_layouts_loop ::
    "u64 \<Rightarrow> bool \<Rightarrow> u64 \<Rightarrow> table_group list \<Rightarrow> table_group_layout list result" where
  "ewf1_layouts_loop table_footer_bytes writes_table2 cursor [] = Inr []"
| "ewf1_layouts_loop table_footer_bytes writes_table2 cursor (grp # groups) =
     try_bind (ewf1_group_layout grp cursor table_footer_bytes writes_table2) (\<lambda>layout.
     try_bind (ewf1_layouts_loop table_footer_bytes writes_table2 (gl_end_offset layout) groups)
       (\<lambda>layouts. Inr (layout # layouts)))"

definition ewf1_table_group_layouts ::
    "chunk_descriptor list \<Rightarrow> u64 \<Rightarrow> u64 \<Rightarrow> bool \<Rightarrow> table_group_layout list result" where
  "ewf1_table_group_layouts chunks first_sectors_desc_offset table_footer_bytes writes_table2 =
     try_bind (ewf1_table_groups chunks EWF1_TABLE_GROUP_MAX_ENTRIES EWF1_TABLE_GROUP_MAX_PAYLOAD)
       (ewf1_layouts_loop table_footer_bytes writes_table2 first_sectors_desc_offset)"

text \<open>The layout's offsets on natural numbers: sections follow each other without gaps.\<close>

definition layout_exact :: "nat \<Rightarrow> bool \<Rightarrow> table_group_layout \<Rightarrow> bool" where
  "layout_exact footer table2 l \<longleftrightarrow>
     unat (gl_sectors_data_offset l) = unat (gl_sectors_desc_offset l) + 76 \<and>
     unat (gl_table_desc_offset l) = unat (gl_sectors_data_offset l) + unat (gl_payload_size l) \<and>
     unat (gl_table_data_size l) = 24 + 4 * (gl_end_chunk l - gl_first_chunk l) + footer \<and>
     (if table2
      then (\<exists>t2. gl_table2_desc_offset l = Some t2 \<and>
        unat t2 = unat (gl_table_desc_offset l) + 76 + unat (gl_table_data_size l) \<and>
        unat (gl_end_offset l) = unat t2 + 76 + unat (gl_table_data_size l))
      else gl_table2_desc_offset l = None \<and>
        unat (gl_end_offset l) = unat (gl_table_desc_offset l) + 76 + unat (gl_table_data_size l))"

definition layout_range :: "table_group_layout \<Rightarrow> nat \<times> nat" where
  "layout_range l = (unat (gl_sectors_desc_offset l), unat (gl_end_offset l))"

lemma ewf1_group_layout_ok:
  assumes "ewf1_group_layout g cursor footer t2 = Inr l"
    and "tg_end_chunk g - tg_first_chunk g < 2 ^ 64"
  shows "layout_exact (unat footer) t2 l \<and> gl_sectors_desc_offset l = cursor \<and>
    gl_first_chunk l = tg_first_chunk g \<and> gl_end_chunk l = tg_end_chunk g \<and>
    gl_payload_size l = tg_payload_size g"
  using assms
  by (auto simp: ewf1_group_layout_def try_bind_Inr_iff checked_simps layout_exact_def
      unat_of_small_u64 bind_eq_Some_conv split: if_splits)

lemma layout_exact_le: "layout_exact f t2 l \<Longrightarrow> fst (layout_range l) \<le> snd (layout_range l)"
  by (auto simp: layout_exact_def layout_range_def split: if_splits)

lemma ewf1_layouts_loop_ok:
  assumes "ewf1_layouts_loop footer t2 cursor groups = Inr layouts"
    and "\<forall>g \<in> set groups. tg_end_chunk g - tg_first_chunk g < 2 ^ 64"
  shows "(\<exists>e. contiguous (unat cursor) e (map layout_range layouts)) \<and>
    (\<forall>l \<in> set layouts. layout_exact (unat footer) t2 l) \<and>
    map (\<lambda>l. (gl_first_chunk l, gl_end_chunk l)) layouts = map group_range groups \<and>
    map gl_payload_size layouts = map tg_payload_size groups"
  using assms
proof (induction groups arbitrary: cursor layouts)
  case (Cons g gs)
  from Cons.prems(1) obtain l ls where l: "ewf1_group_layout g cursor footer t2 = Inr l"
    and ls: "ewf1_layouts_loop footer t2 (gl_end_offset l) gs = Inr ls" and layouts: "layouts = l # ls"
    by (auto simp: try_bind_Inr_iff)
  have ok: "layout_exact (unat footer) t2 l" "gl_sectors_desc_offset l = cursor"
    "gl_first_chunk l = tg_first_chunk g" "gl_end_chunk l = tg_end_chunk g"
    "gl_payload_size l = tg_payload_size g"
    using ewf1_group_layout_ok [OF l] Cons.prems(2) by auto
  have "layout_range l = (unat cursor, unat (gl_end_offset l))" using ok by (simp add: layout_range_def)
  then show ?case
    using Cons.IH [OF ls] Cons.prems(2) ok layout_exact_le [OF ok(1)]
    by (auto simp: layouts group_range_def)
qed auto

end
