(* ===== verification/State_Result.thy ===== *)
theory State_Result
  imports Prelude
begin

text \<open>
  Operations that read and change the state of an open image and may fail: a function
  from the state to a result and the next state. The state change of a failed operation
  is kept, as the Rust code's is. \<open>computes I m r\<close> says that from every state of
  the invariant \<open>I\<close> the operation has the result \<open>r\<close>, whatever the state holds,
  and keeps \<open>I\<close>; it composes along \<open>?\<close>.
\<close>

type_synonym ('s, 'a) comp = "'s \<Rightarrow> 'a result \<times> 's"

definition lift :: "'a result \<Rightarrow> ('s, 'a) comp" where
  "lift r = (\<lambda>s. (r, s))"

definition sbind :: "('s, 'a) comp \<Rightarrow> ('a \<Rightarrow> ('s, 'b) comp) \<Rightarrow> ('s, 'b) comp" where
  "sbind m f = (\<lambda>s. case m s of (Inl e, s') \<Rightarrow> (Inl e, s') | (Inr x, s') \<Rightarrow> f x s')"

definition computes :: "('s \<Rightarrow> bool) \<Rightarrow> ('s, 'a) comp \<Rightarrow> 'a result \<Rightarrow> bool" where
  "computes I m r \<longleftrightarrow> (\<forall>s. I s \<longrightarrow> fst (m s) = r \<and> I (snd (m s)))"

text \<open>An operation that changes no state is the value it computes.\<close>

definition value_of :: "(unit, 'a) comp \<Rightarrow> 'a result" where
  "value_of m = fst (m ())"

named_theorems computes_intros \<open>composition rules of computes\<close>

lemma lift_apply [simp]: "lift r s = (r, s)"
  by (simp add: lift_def)

lemma sbind_lift [simp]:
  "sbind (lift (Inr x)) f = f x"
  "sbind (lift (Inl e)) f = lift (Inl e)"
  by (simp_all add: sbind_def lift_def fun_eq_iff)

lemma sbind_assoc: "sbind (sbind m f) g = sbind m (\<lambda>x. sbind (f x) g)"
  by (auto simp: sbind_def fun_eq_iff split: prod.splits sum.splits)

lemma sbind_cong [fundef_cong]:
  "m s = m' s \<Longrightarrow> (\<And>x s'. m' s = (Inr x, s') \<Longrightarrow> f x s' = g x s') \<Longrightarrow> sbind m f s = sbind m' g s"
  by (auto simp: sbind_def split: prod.splits sum.splits)

lemma computes_lift [computes_intros]: "computes I (lift r) r"
  by (simp add: computes_def)

lemma computes_sbind:
  assumes "computes I m r" "\<And>x. r = Inr x \<Longrightarrow> computes I (f x) (g x)"
  shows "computes I (sbind m f) (try_bind r g)"
  unfolding computes_def
proof (intro allI impI)
  fix s assume s: "I s"
  obtain r' s' where ms: "m s = (r', s')" by (cases "m s")
  with assms(1) s have "r' = r" "I s'" by (force simp: computes_def)+
  with ms assms(2) show "fst (sbind m f s) = try_bind r g \<and> I (snd (sbind m f s))"
    by (cases r) (auto simp: sbind_def computes_def)
qed

lemma computes_sbind_lift [computes_intros]:
  assumes "\<And>x. r = Inr x \<Longrightarrow> computes I (f x) (g x)"
  shows "computes I (sbind (lift r) f) (try_bind r g)"
  using assms by (rule computes_sbind [OF computes_lift])

lemma computes_if [computes_intros]:
  "(b \<Longrightarrow> computes I m r) \<Longrightarrow> (\<not> b \<Longrightarrow> computes I m' r') \<Longrightarrow>
   computes I (if b then m else m') (if b then r else r')"
  by simp

lemma computes_option:
  "(x = None \<Longrightarrow> computes I m r) \<Longrightarrow> (\<And>y. x = Some y \<Longrightarrow> computes I (f y) (g y)) \<Longrightarrow>
   computes I (case x of None \<Rightarrow> m | Some y \<Rightarrow> f y) (case x of None \<Rightarrow> r | Some y \<Rightarrow> g y)"
  by (cases x) simp_all

lemma computes_fst: "computes I m r \<Longrightarrow> I s \<Longrightarrow> fst (m s) = r"
  by (simp add: computes_def)

lemma computes_inv: "computes I m r \<Longrightarrow> I s \<Longrightarrow> I (snd (m s))"
  by (simp add: computes_def)

lemma computes_unique: "computes I m r \<Longrightarrow> computes I m r' \<Longrightarrow> I s \<Longrightarrow> r = r'"
  by (metis computes_fst)

end
