(* ===== verification/Chunk_Index.thy ===== *)
theory Chunk_Index
  imports Codec
begin

text \<open>
  The lazy chunk index (\<open>src/index.rs\<close>): the table ranges of an image, checked to
  cover its chunks without gap or overlap, and the lookup of the range of a chunk.
\<close>

section \<open>Data\<close>

text \<open>\<open>crate::CompressionMethod\<close>, the method recorded for an image's chunks.\<close>

datatype image_compression = ICNone | ICZlib | ICZstd | ICBzip2 | ICUnknown u16

datatype table_range_kind = RangeEwf1 | RangeEwf2

record table_range =
  tr_kind :: table_range_kind
  tr_segment_index :: nat
  tr_first_chunk :: u64
  tr_chunk_count :: u64
  tr_entries_offset :: u64
  tr_base_offset :: u64
  tr_data_end :: "u64 option"
  tr_ewf1_allow_large_compressed_chunks :: bool
  tr_ewf1_compression_method :: "image_compression option"
  tr_ewf2_compression_method :: "u16 option"

record lazy_chunk_index =
  ix_logical_chunks :: u64
  ix_ranges :: "table_range list"

section \<open>Operations\<close>

definition logical_chunk_count :: "u64 \<Rightarrow> u64 \<Rightarrow> u64 result" where
  "logical_chunk_count logical_size chunk_size =
     (if chunk_size = 0 then Inl (Malformed ''chunk size is zero'')
      else if logical_size = 0 then Inr 0
      else ok_or (map_option (\<lambda>v. v div chunk_size + 1) (checked_sub logical_size 1))
        (Malformed ''logical chunk count underflow''))"

text \<open>The coverage loop of \<open>LazyChunkIndex::new\<close>; the state is \<open>expected_next\<close>.\<close>

definition check_range :: "u64 \<Rightarrow> table_range \<Rightarrow> u64 result" where
  "check_range expected_next rng =
     (if tr_chunk_count rng = 0 then Inl (Malformed ''table range has zero chunks'')
      else if tr_first_chunk rng < expected_next
      then Inl (Malformed (''table range starting at chunk '' @ dec (unat (tr_first_chunk rng))
             @ '' overlaps previous range ending at chunk '' @ dec (unat expected_next)))
      else if expected_next < tr_first_chunk rng
      then Inl (Malformed (''table range starts at chunk '' @ dec (unat (tr_first_chunk rng))
             @ '', expected '' @ dec (unat expected_next)))
      else ok_or (checked_add (tr_first_chunk rng) (tr_chunk_count rng))
        (Malformed ''table range chunk count overflow''))"

definition chunk_index_new :: "table_range list \<Rightarrow> u64 \<Rightarrow> u64 \<Rightarrow> lazy_chunk_index result" where
  "chunk_index_new ranges logical_size chunk_size =
     try_bind (logical_chunk_count logical_size chunk_size) (\<lambda>logical_chunks.
     let ranges = sort_key tr_first_chunk ranges in
     try_bind (try_fold check_range 0 ranges) (\<lambda>expected_next.
     if expected_next \<noteq> logical_chunks
     then Inl (Malformed (''table coverage ends at chunk '' @ dec (unat expected_next)
            @ '', expected '' @ dec (unat logical_chunks)))
     else Inr \<lparr>ix_logical_chunks = logical_chunks, ix_ranges = ranges\<rparr>))"

text \<open>
  \<open>slice::partition_point\<close>, a binary search of the standard library for the end of the
  prefix on which the predicate holds.
\<close>

definition partition_point :: "('a \<Rightarrow> bool) \<Rightarrow> 'a list \<Rightarrow> nat" where
  "partition_point p xs = length (takeWhile p xs)"

definition range_index_for :: "lazy_chunk_index \<Rightarrow> u64 \<Rightarrow> (nat \<times> table_range) result" where
  "range_index_for ix chunk_id =
     (if ix_logical_chunks ix \<le> chunk_id
      then Inl (Malformed (''chunk '' @ dec (unat chunk_id) @ '' is outside logical chunk count ''
             @ dec (unat (ix_logical_chunks ix))))
      else let index = partition_point
                 (\<lambda>rng. saturating_add (tr_first_chunk rng) (tr_chunk_count rng) \<le> chunk_id)
                 (ix_ranges ix) in
        if index < length (ix_ranges ix) \<and> tr_first_chunk (ix_ranges ix ! index) \<le> chunk_id
        then Inr (index, ix_ranges ix ! index)
        else Inl (Malformed (''chunk '' @ dec (unat chunk_id) @ '' is not covered'')))"

section \<open>Coverage\<close>

lemma logical_chunk_count_ok:
  assumes "logical_chunk_count s c = Inr n"
  shows "0 < unat c" and "unat n = (unat s + unat c - 1) div unat c"
proof -
  show c: "0 < unat c"
    using assms by (auto simp: logical_chunk_count_def unat_gt_0 split: if_splits)
  show "unat n = (unat s + unat c - 1) div unat c"
  proof (cases "s = 0")
    case True
    with assms c show ?thesis by (auto simp: logical_chunk_count_def split: if_splits)
  next
    case False
    then have s: "1 \<le> unat s" using unat_gt_0 [of s] by simp
    from assms False obtain v where v: "checked_sub s 1 = Some v" and n: "n = v div c + 1"
      by (auto simp: logical_chunk_count_def split: if_splits)
    have uv: "unat v = unat s - 1" using v by (simp add: checked_simps)
    have "unat (v div c) \<le> unat v" by (simp add: unat_div)
    then have "unat (v div c) + unat (1 :: u64) < 2 ^ 64"
      using uv s unat_64_less [of s] by simp
    then have "unat n = unat v div unat c + 1" by (simp add: n unat_add_less unat_div)
    also have "\<dots> = (unat v + unat c) div unat c"
      using c by (subst div_add_self2) auto
    also have "unat v + unat c = unat s + unat c - 1" using uv s by simp
    finally show ?thesis .
  qed
qed

text \<open>A list of ranges covers \<open>[a, b)\<close> when each starts where the last one ended.\<close>

fun covers :: "nat \<Rightarrow> nat \<Rightarrow> table_range list \<Rightarrow> bool" where
  "covers a b [] \<longleftrightarrow> a = b"
| "covers a b (r # rs) \<longleftrightarrow> unat (tr_first_chunk r) = a \<and> 0 < unat (tr_chunk_count r) \<and>
     covers (a + unat (tr_chunk_count r)) b rs"

definition in_range :: "u64 \<Rightarrow> table_range \<Rightarrow> bool" where
  "in_range i r \<longleftrightarrow> unat (tr_first_chunk r) \<le> unat i \<and>
     unat i < unat (tr_first_chunk r) + unat (tr_chunk_count r)"

lemma covers_le: "covers a b rs \<Longrightarrow> a \<le> b"
  by (induction a b rs rule: covers.induct) auto

lemma check_range_ok:
  "check_range e r = Inr e' \<longleftrightarrow> unat (tr_first_chunk r) = unat e \<and> 0 < unat (tr_chunk_count r) \<and>
     unat e + unat (tr_chunk_count r) < 2 ^ 64 \<and> unat e' = unat e + unat (tr_chunk_count r)"
  by (auto simp: check_range_def checked_simps word_nat_order unat_gt_0 split: if_splits)

lemma check_ranges_covers:
  "try_fold check_range e rs = Inr e' \<Longrightarrow> covers (unat e) (unat e') rs"
proof (induction rs arbitrary: e)
  case (Cons r rs)
  then obtain m where "check_range e r = Inr m" "try_fold check_range m rs = Inr e'"
    by (auto simp: try_bind_Inr_iff)
  with Cons.IH [of m] show ?case by (auto simp: check_range_ok)
qed simp

lemma check_ranges_total:
  "covers (unat e) b rs \<Longrightarrow> b < 2 ^ 64 \<Longrightarrow> \<exists>e'. try_fold check_range e rs = Inr e' \<and> unat e' = b"
proof (induction rs arbitrary: e)
  case (Cons r rs)
  let ?m = "e + tr_chunk_count r"
  have "unat e + unat (tr_chunk_count r) \<le> b" using Cons.prems(1) covers_le by auto
  then have m: "unat ?m = unat e + unat (tr_chunk_count r)"
    using Cons.prems(2) by (intro unat_add_less) simp
  then have "check_range e r = Inr ?m"
    using Cons.prems \<open>unat e + unat (tr_chunk_count r) \<le> b\<close> by (auto simp: check_range_ok)
  with Cons.IH [of ?m] Cons.prems m show ?case by auto
qed simp

lemma covers_later: "covers a b rs \<Longrightarrow> r \<in> set rs \<Longrightarrow> a \<le> unat (tr_first_chunk r)"
  by (induction a b rs rule: covers.induct) auto

lemma covers_unique:
  "covers a b rs \<Longrightarrow> i < length rs \<Longrightarrow> j < length rs \<Longrightarrow> in_range c (rs ! i) \<Longrightarrow>
   in_range c (rs ! j) \<Longrightarrow> i = j"
proof (induction a b rs arbitrary: i j rule: covers.induct)
  case (2 a b r rs)
  have later: "\<not> (in_range c r \<and> in_range c (rs ! k))" if "k < length rs" for k
    using covers_later [of "a + unat (tr_chunk_count r)" b rs "rs ! k"] 2(2) that
    by (auto simp: in_range_def)
  show ?case
  proof (cases i)
    case 0
    with 2 later show ?thesis by (cases j) auto
  next
    case i: (Suc i')
    show ?thesis
    proof (cases j)
      case 0
      with 2 later i show ?thesis by auto
    next
      case (Suc j')
      with 2 i show ?thesis by auto
    qed
  qed
qed simp

lemma partition_point_covers:
  assumes "covers a b rs" "a \<le> unat c" "unat c < b" "b < 2 ^ 64"
  defines "k \<equiv> partition_point
    (\<lambda>r. saturating_add (tr_first_chunk r) (tr_chunk_count r) \<le> c) rs"
  shows "k < length rs \<and> in_range c (rs ! k)"
  using assms(1-4) unfolding k_def
proof (induction a b rs rule: covers.induct)
  case (2 a b r rs)
  have le: "a + unat (tr_chunk_count r) \<le> b" using 2(2) covers_le by auto
  then have sat: "unat (saturating_add (tr_first_chunk r) (tr_chunk_count r)) = a + unat (tr_chunk_count r)"
    using 2(2,5) by (simp add: unat_saturating_add)
  show ?case
  proof (cases "saturating_add (tr_first_chunk r) (tr_chunk_count r) \<le> c")
    case True
    then have "a + unat (tr_chunk_count r) \<le> unat c" by (simp add: word_le_nat_alt sat)
    with 2 True show ?thesis by (simp add: partition_point_def)
  next
    case False
    then have "unat c < a + unat (tr_chunk_count r)" by (simp add: word_le_nat_alt sat)
    with 2 False show ?thesis by (simp add: partition_point_def in_range_def)
  qed
qed simp

text \<open>An index that was built knows, for each of its chunks, the range that holds it.\<close>

definition index_ok :: "lazy_chunk_index \<Rightarrow> bool" where
  "index_ok ix \<longleftrightarrow> covers 0 (unat (ix_logical_chunks ix)) (ix_ranges ix)"

lemma chunk_index_new_ok:
  assumes "chunk_index_new ranges logical_size chunk_size = Inr ix"
  shows "index_ok ix" and "logical_chunk_count logical_size chunk_size = Inr (ix_logical_chunks ix)"
    and "ix_ranges ix = sort_key tr_first_chunk ranges"
proof -
  from assms obtain n where n: "logical_chunk_count logical_size chunk_size = Inr n"
    and fold: "try_fold check_range 0 (sort_key tr_first_chunk ranges) = Inr n"
    and ix: "ix = \<lparr>ix_logical_chunks = n, ix_ranges = sort_key tr_first_chunk ranges\<rparr>"
    by (auto simp: chunk_index_new_def try_bind_Inr_iff Let_def split: if_splits)
  from check_ranges_covers [OF fold] show "index_ok ix" by (simp add: index_ok_def ix)
  from n ix show "logical_chunk_count logical_size chunk_size = Inr (ix_logical_chunks ix)"
    "ix_ranges ix = sort_key tr_first_chunk ranges" by simp_all
qed

lemma range_index_for_ok:
  assumes "index_ok ix" "unat c < unat (ix_logical_chunks ix)"
  shows "\<exists>k. range_index_for ix c = Inr (k, ix_ranges ix ! k) \<and> k < length (ix_ranges ix) \<and>
    in_range c (ix_ranges ix ! k)"
proof -
  let ?k = "partition_point
    (\<lambda>r. saturating_add (tr_first_chunk r) (tr_chunk_count r) \<le> c) (ix_ranges ix)"
  have "?k < length (ix_ranges ix) \<and> in_range c (ix_ranges ix ! ?k)"
    using assms unat_64_less [of "ix_logical_chunks ix"]
    by (intro partition_point_covers [of 0 "unat (ix_logical_chunks ix)"]) (simp_all add: index_ok_def)
  with assms(2) show ?thesis
    by (auto simp: range_index_for_def Let_def in_range_def word_le_nat_alt)
qed

lemma range_index_for_Inr:
  assumes "index_ok ix" "range_index_for ix c = Inr (k, r)"
  shows "k < length (ix_ranges ix)" "r = ix_ranges ix ! k" "in_range c r"
    "unat c < unat (ix_logical_chunks ix)"
proof -
  have "\<not> ix_logical_chunks ix \<le> c" using assms(2) by (auto simp: range_index_for_def split: if_splits)
  then show c: "unat c < unat (ix_logical_chunks ix)" by (simp add: word_le_nat_alt)
  with range_index_for_ok [OF assms(1) c] assms(2)
  show "k < length (ix_ranges ix)" "r = ix_ranges ix ! k" "in_range c r" by auto
qed

end
