(* ===== verification/Chunk_Decode.thy ===== *)
theory Chunk_Decode
  imports Codec
begin

text \<open>
  Decoding a chunk's bytes (\<open>src/decode.rs\<close>). The decompressors are the crates flate2,
  bzip2 and ruzstd: parameters of the model, each a function from its input to the
  bytes it yields and, when it fails after them, the message of its error.
\<close>

section \<open>Decompressors\<close>

type_synonym stream = "bytes \<times> string option"

record decoders =
  dec_zlib :: "bytes \<Rightarrow> stream"
  dec_bzip2 :: "bytes \<Rightarrow> stream"
  dec_zstd :: "bytes \<Rightarrow> u64 \<Rightarrow> string + stream"

text \<open>
  \<open>reader.take(limit).read_to_end(..)\<close>: the reader is not asked again once the limit
  is reached, so an error that would follow is not seen.
\<close>

definition take_read_to_end :: "nat \<Rightarrow> stream \<Rightarrow> string + bytes" where
  "take_read_to_end limit s =
     (if limit \<le> length (fst s) then Inr (take limit (fst s))
      else case snd s of None \<Rightarrow> Inr (fst s) | Some e \<Rightarrow> Inl e)"

section \<open>Size limits\<close>

datatype chunk_encoding = EncRaw | EncZlib | EncZstd | EncBzip2 | EncPatternFill u64

definition MIN_ZSTD_WINDOW_LIMIT :: u64 where
  "MIN_ZSTD_WINDOW_LIMIT = 128 * 1024"

definition zlib_compressed_chunk_size_cap :: "u64 \<Rightarrow> u64 result" where
  "zlib_compressed_chunk_size_cap chunk_size =
     try_bind (ok_or
       (Option.bind (checked_add chunk_size (drop_bit 12 chunk_size)) (\<lambda>v.
        Option.bind (checked_add v (drop_bit 14 chunk_size)) (\<lambda>v.
        Option.bind (checked_add v (drop_bit 25 chunk_size)) (\<lambda>v.
        checked_add v 13))))
       (Malformed ''zlib compressed chunk size cap overflow'')) (\<lambda>compress_bound.
     try_bind (ok_or (Option.bind (checked_add chunk_size 511) (\<lambda>v. Some (v div 512)))
       (Malformed ''zlib stored block count overflow'')) (\<lambda>stored_blocks.
     try_bind (ok_or (checked_mul stored_blocks 5)
       (Malformed ''zlib stored block cap overflow'')) (\<lambda>headers.
     try_bind (ok_or (Option.bind (checked_add chunk_size headers) (\<lambda>v. checked_add v 6))
       (Malformed ''zlib stored block cap overflow'')) (\<lambda>stored_bound.
     Inr (max compress_bound stored_bound)))))"

definition zstd_compressed_chunk_size_cap :: "u64 \<Rightarrow> u64 result" where
  "zstd_compressed_chunk_size_cap chunk_size =
     ok_or (checked_mul chunk_size 2)
       (Malformed ''Zstandard compressed chunk size cap overflow'')"

definition bzip2_compressed_chunk_size_cap :: "u64 \<Rightarrow> u64 result" where
  "bzip2_compressed_chunk_size_cap chunk_size =
     ok_or (Option.bind (checked_add chunk_size (chunk_size div 100)) (\<lambda>v. checked_add v 4096))
       (Malformed ''BZip2 compressed chunk size cap overflow'')"

definition raw_chunk_size_cap :: "u64 \<Rightarrow> u64 result" where
  "raw_chunk_size_cap chunk_size =
     ok_or (checked_add chunk_size 4) (Malformed ''raw chunk size cap overflow'')"

definition encoded_size_cap :: "u64 \<Rightarrow> chunk_encoding \<Rightarrow> u64 result" where
  "encoded_size_cap chunk_size encoding =
     (case encoding of
        EncRaw \<Rightarrow> raw_chunk_size_cap chunk_size
      | EncZlib \<Rightarrow> zlib_compressed_chunk_size_cap chunk_size
      | EncZstd \<Rightarrow> zstd_compressed_chunk_size_cap chunk_size
      | EncBzip2 \<Rightarrow> bzip2_compressed_chunk_size_cap chunk_size
      | EncPatternFill _ \<Rightarrow> Inl (Panic ''handled above''))"

definition is_pattern_fill :: "chunk_encoding \<Rightarrow> bool" where
  "is_pattern_fill e = (case e of EncPatternFill _ \<Rightarrow> True | _ \<Rightarrow> False)"

definition validate_encoded_size :: "u64 \<Rightarrow> u64 \<Rightarrow> chunk_encoding \<Rightarrow> unit result" where
  "validate_encoded_size encoded_size chunk_size encoding =
     (if is_pattern_fill encoding then Inr ()
      else if encoded_size = 0 then Inl (Malformed ''chunk data size is zero'')
      else try_bind (encoded_size_cap chunk_size encoding) (\<lambda>cap.
        if cap < encoded_size
        then Inl (Malformed (''encoded chunk size '' @ dec (unat encoded_size)
               @ '' exceeds maximum '' @ dec (unat cap)))
        else Inr ()))"

section \<open>Decoding\<close>

definition decode_compressed :: "stream \<Rightarrow> nat \<Rightarrow> nat \<Rightarrow> bytes result" where
  "decode_compressed reader logical_size maximum_decoded_size =
     try_bind (ok_or (usize_add maximum_decoded_size 1)
       (Malformed ''logical chunk size overflow'')) (\<lambda>limit.
     try_bind (map_err (\<lambda>err. Malformed (''chunk decompression failed: '' @ err))
         (take_read_to_end limit reader)) (\<lambda>decoded.
     if length decoded < logical_size \<or> maximum_decoded_size < length decoded
     then let expected =
            (if logical_size = maximum_decoded_size then dec logical_size
             else ''between '' @ dec logical_size @ '' and '' @ dec maximum_decoded_size)
       in Inl (Malformed (''decoded chunk has '' @ dec (length decoded)
            @ '' bytes, expected '' @ expected))
     else Inr (take logical_size decoded)))"

definition ZSTD_FRAME_MAGIC :: bytes where
  "ZSTD_FRAME_MAGIC = [0x28, 0xb5, 0x2f, 0xfd]"

text \<open>Two lower-case hexadecimal digits, as \<open>{:02x}\<close> prints a byte.\<close>

definition hex_digit :: "nat \<Rightarrow> char" where
  "hex_digit n = (if n < 10 then char_of (48 + n) else char_of (87 + n))"

definition hex_byte :: "u8 \<Rightarrow> string" where
  "hex_byte b = [hex_digit (unat b div 16), hex_digit (unat b mod 16)]"

definition decode_xways_zstd :: "decoders \<Rightarrow> bytes \<Rightarrow> nat \<Rightarrow> nat \<Rightarrow> bytes result" where
  "decode_xways_zstd D encoded logical_size maximum_decoded_size =
     (if encoded = [0] then Inr (replicate logical_size 0)
      else if length encoded = 1
      then Inl (Malformed (''invalid X-Ways zero chunk marker 0x'' @ hex_byte (encoded ! 0)))
      else let framed = ZSTD_FRAME_MAGIC @ encoded;
        max_window_size = max (word_of_nat maximum_decoded_size) MIN_ZSTD_WINDOW_LIMIT in
        try_bind (map_err
            (\<lambda>err. Malformed (''chunk Zstandard decoder initialization failed: '' @ err))
            (dec_zstd D framed max_window_size)) (\<lambda>decoder.
          decode_compressed decoder logical_size maximum_decoded_size))"

definition pattern_fill :: "u64 \<Rightarrow> nat \<Rightarrow> bytes" where
  "pattern_fill pattern logical_size =
     (let pat = le64 pattern in
      concat (replicate (logical_size div 8) pat) @ take (logical_size mod 8) pat)"

definition decode_chunk_with_padding ::
    "decoders \<Rightarrow> bytes \<Rightarrow> chunk_encoding \<Rightarrow> nat \<Rightarrow> nat \<Rightarrow> bytes result" where
  "decode_chunk_with_padding D encoded encoding logical_size maximum_decoded_size =
     (if maximum_decoded_size < logical_size
      then Inl (Malformed ''decoded chunk size bound is too small'')
      else case encoding of
        EncRaw \<Rightarrow>
          if length encoded < logical_size
          then Inl (Malformed (''raw chunk has '' @ dec (length encoded)
                 @ '' bytes, expected at least '' @ dec logical_size))
          else Inr (take logical_size encoded)
      | EncZlib \<Rightarrow> decode_compressed (dec_zlib D encoded) logical_size maximum_decoded_size
      | EncZstd \<Rightarrow> decode_xways_zstd D encoded logical_size maximum_decoded_size
      | EncBzip2 \<Rightarrow> decode_compressed (dec_bzip2 D encoded) logical_size maximum_decoded_size
      | EncPatternFill pattern \<Rightarrow> Inr (pattern_fill pattern logical_size))"

definition decode_chunk :: "decoders \<Rightarrow> bytes \<Rightarrow> chunk_encoding \<Rightarrow> nat \<Rightarrow> bytes result" where
  "decode_chunk D encoded encoding logical_size =
     decode_chunk_with_padding D encoded encoding logical_size logical_size"

section \<open>What decoding yields\<close>

lemma length_concat_replicate: "length (concat (replicate n xs)) = n * length xs"
  by (induction n) simp_all

lemma length_pattern_fill [simp]: "length (pattern_fill p n) = n"
  by (simp add: pattern_fill_def Let_def length_concat_replicate)

lemma nth_concat_replicate:
  "xs \<noteq> [] \<Longrightarrow> i < n * length xs \<Longrightarrow> concat (replicate n xs) ! i = xs ! (i mod length xs)"
proof (induction n arbitrary: i)
  case (Suc n)
  then show ?case by (cases "i < length xs") (auto simp: nth_append le_mod_geq)
qed simp

lemma nth_pattern_fill: "i < n \<Longrightarrow> pattern_fill p n ! i = le64 p ! (i mod 8)"
proof (cases "i < n div 8 * 8")
  case True
  then show ?thesis
    using nth_concat_replicate [of "le64 p" i "n div 8"]
    by (simp add: pattern_fill_def Let_def nth_append length_concat_replicate flip: length_0_conv)
next
  case False
  assume "i < n"
  with False have "i - n div 8 * 8 < n mod 8" "i - n div 8 * 8 = i mod 8"
    by (metis add.commute div_mult_mod_eq less_diff_conv2 linorder_not_less,
        metis False \<open>i < n\<close> div_le_mono less_imp_le_nat linorder_not_less minus_div_mult_eq_mod
          div_times_less_eq_dividend le_antisym nonzero_mult_div_cancel_right zero_neq_numeral)
  with False show ?thesis
    by (simp add: pattern_fill_def Let_def nth_append length_concat_replicate)
qed

lemma decode_compressed_Inr:
  assumes "decode_compressed s n m = Inr out"
  shows "length out = n" and "out = take n (fst s)" and "n \<le> length (fst s)" and "length (fst s) \<le> m"
  using assms
  by (auto simp: decode_compressed_def try_bind_Inr_iff take_read_to_end_def checked_simps Let_def
      split: if_splits option.splits)

lemma decode_chunk_with_padding_length:
  "decode_chunk_with_padding D encoded encoding n m = Inr out \<Longrightarrow> length out = n"
  by (auto simp: decode_chunk_with_padding_def decode_xways_zstd_def try_bind_Inr_iff Let_def
      dest: decode_compressed_Inr(1) split: if_splits chunk_encoding.splits)

text \<open>A stream that ends cleanly inside the bound decodes to its prefix.\<close>

lemma decode_compressed_clean:
  "n \<le> length bs \<Longrightarrow> length bs \<le> m \<Longrightarrow> m + 1 < 2 ^ 64 \<Longrightarrow>
   decode_compressed (bs, None) n m = Inr (take n bs)"
  by (simp add: decode_compressed_def usize_add_def take_read_to_end_def)

text \<open>One byte too many is rejected, without reading further.\<close>

lemma decode_compressed_excess:
  "m < length (fst s) \<Longrightarrow> n \<le> m \<Longrightarrow> \<exists>msg. decode_compressed s n m = Inl (Malformed msg)"
  by (auto simp: decode_compressed_def usize_add_def take_read_to_end_def Let_def)

section \<open>The limits as natural numbers\<close>

definition zlib_cap :: "nat \<Rightarrow> nat" where
  "zlib_cap c = max (c + c div 2 ^ 12 + c div 2 ^ 14 + c div 2 ^ 25 + 13)
     (c + (c + 511) div 512 * 5 + 6)"

lemma unat_drop_bit_div: "unat (drop_bit n (w :: u64)) = unat w div 2 ^ n"
  by (subst unat_drop_bit_eq) (rule drop_bit_eq_div)

lemma unat_max: "unat (max a b) = max (unat a) (unat (b :: 'a::len word))"
  by (simp add: max_def word_le_nat_alt)

lemma checked_add_ok: "unat a + unat b < 2 ^ 64 \<Longrightarrow> checked_add a b = Some (a + b :: u64) \<and> unat (a + b) = unat a + unat b"
  by (simp add: checked_add_def unat_add_less)

lemma zlib_compressed_chunk_size_cap_ok:
  assumes "zlib_compressed_chunk_size_cap c = Inr m"
  shows "unat m = zlib_cap (unat c)"
proof -
  from assms obtain v1 v2 v3 v4 w1 w2 w3 w4 where
    v: "checked_add c (drop_bit 12 c) = Some v1" "checked_add v1 (drop_bit 14 c) = Some v2"
      "checked_add v2 (drop_bit 25 c) = Some v3" "checked_add v3 13 = Some v4"
    and w: "checked_add c 511 = Some w1" "checked_mul (w1 div 512) 5 = Some w2"
      "checked_add c w2 = Some w3" "checked_add w3 6 = Some w4"
    and m: "m = max v4 w4"
    by (auto simp: zlib_compressed_chunk_size_cap_def try_bind_Inr_iff bind_eq_Some_conv)
  have "unat v4 = unat c + unat c div 2 ^ 12 + unat c div 2 ^ 14 + unat c div 2 ^ 25 + 13"
    using v by (simp only: checked_simps unat_drop_bit_div) simp
  moreover have "unat w4 = unat c + (unat c + 511) div 512 * 5 + 6"
    using w by (simp only: checked_simps unat_div) simp
  ultimately show ?thesis by (simp only: m unat_max zlib_cap_def)
qed

text \<open>For the chunk sizes an image may have (128 MiB at most) no limit overflows.\<close>

lemma zlib_compressed_chunk_size_cap_total:
  assumes "unat c \<le> 2 ^ 60"
  shows "\<exists>m. zlib_compressed_chunk_size_cap c = Inr m"
proof -
  let ?v1 = "c + drop_bit 12 c" and ?w1 = "c + 511"
  let ?v2 = "?v1 + drop_bit 14 c" let ?v3 = "?v2 + drop_bit 25 c"
  let ?w2 = "?w1 div 512 * 5" let ?w3 = "c + ?w2"
  have d: "unat (drop_bit k c) \<le> 2 ^ 60" for k
    using assms by (simp add: unat_drop_bit_div) (meson div_le_dividend le_trans)
  have v1: "checked_add c (drop_bit 12 c) = Some ?v1" "unat ?v1 \<le> 2 ^ 61"
    using checked_add_ok [of c "drop_bit 12 c"] assms d [of 12] by simp_all
  have v2: "checked_add ?v1 (drop_bit 14 c) = Some ?v2" "unat ?v2 \<le> 2 ^ 61 + 2 ^ 60"
    using checked_add_ok [of ?v1 "drop_bit 14 c"] v1 d [of 14] by simp_all
  have v3: "checked_add ?v2 (drop_bit 25 c) = Some ?v3" "unat ?v3 \<le> 2 ^ 62"
    using checked_add_ok [of ?v2 "drop_bit 25 c"] v2 d [of 25] by simp_all
  have v4: "checked_add ?v3 13 = Some (?v3 + 13)"
    using checked_add_ok [of ?v3 13] v3 by simp
  have w1: "checked_add c 511 = Some ?w1" "unat ?w1 \<le> 2 ^ 60 + 511"
    using checked_add_ok [of c 511] assms by simp_all
  have "unat (?w1 div 512) \<le> 2 ^ 52"
    using w1(2) by (simp add: unat_div div_le_mono)
  then have w2: "checked_mul (?w1 div 512) 5 = Some ?w2" "unat ?w2 \<le> 5 * 2 ^ 52"
    by (simp_all add: checked_mul_def unat_mult_less)
  have w3: "checked_add c ?w2 = Some ?w3" "unat ?w3 \<le> 2 ^ 61"
    using checked_add_ok [of c ?w2] assms w2 by simp_all
  have "checked_add ?w3 6 = Some (?w3 + 6)"
    using checked_add_ok [of ?w3 6] w3 by simp
  then show ?thesis
    by (simp add: zlib_compressed_chunk_size_cap_def v1 v2 v3 v4 w1 w2 w3)
qed

lemma raw_chunk_size_cap_ok: "raw_chunk_size_cap c = Inr m \<longleftrightarrow> unat m = unat c + 4 \<and> unat c + 4 < 2 ^ 64"
  by (auto simp: raw_chunk_size_cap_def checked_simps)

lemma zlib_cap_bounds: "c + 13 \<le> zlib_cap c" "c + 4 < zlib_cap c"
  by (simp_all add: zlib_cap_def)

text \<open>
  The zlib limit admits the worst case of a stored stream: five bytes of header per
  block of 512 bytes and six bytes of zlib framing.
\<close>

lemma zlib_cap_stored: "c + 5 * ((c + 511) div 512) + 6 \<le> zlib_cap c"
  by (simp add: zlib_cap_def)

definition cap_nat :: "chunk_encoding \<Rightarrow> nat \<Rightarrow> nat" where
  "cap_nat e c =
     (case e of EncRaw \<Rightarrow> c + 4 | EncZlib \<Rightarrow> zlib_cap c | EncZstd \<Rightarrow> 2 * c
      | EncBzip2 \<Rightarrow> c + c div 100 + 4096 | EncPatternFill _ \<Rightarrow> 0)"

lemma encoded_size_cap_ok: "encoded_size_cap c e = Inr m \<Longrightarrow> unat m = cap_nat e (unat c)"
  by (auto simp: encoded_size_cap_def cap_nat_def zlib_compressed_chunk_size_cap_ok raw_chunk_size_cap_ok
      zstd_compressed_chunk_size_cap_def bzip2_compressed_chunk_size_cap_def bind_eq_Some_conv
      checked_simps unat_div split: chunk_encoding.splits)

lemma validate_encoded_size_ok:
  "validate_encoded_size n c e = Inr () \<Longrightarrow> is_pattern_fill e \<or> 0 < unat n \<and> unat n \<le> cap_nat e (unat c)"
  by (auto simp: validate_encoded_size_def try_bind_Inr_iff word_nat_order unat_gt_0
      dest!: encoded_size_cap_ok split: if_splits)

end
