(* ===== verification/Chunk_Lookup.thy ===== *)
theory Chunk_Lookup
  imports Chunk_Index Chunk_Decode Ewf2_Format State_Result
begin

text \<open>
  From a chunk number to the bytes that hold it (\<open>src/image.rs\<close>): the table entry is
  read through a positioned reader of the segments, decoded for its format and checked.
  The reader is an argument, so the same functions run on the page cache and on the
  segments themselves; the interface \<open>table_reader\<close> is what they need of it.
\<close>

section \<open>Data\<close>

record chunk =
  ch_segment_index :: nat
  ch_offset :: u64
  ch_encoded_size :: u64
  ch_logical_size :: nat
  ch_encoding :: chunk_encoding
  ch_validate_checksum :: bool

record ewf1_decoded_entry =
  de_compressed :: bool
  de_offset :: u64

definition MAX_CHUNK_SIZE :: u64 where
  "MAX_CHUNK_SIZE = 128 * 1024 * 1024"

type_synonym 's table_read = "nat \<Rightarrow> u64 \<Rightarrow> u64 \<Rightarrow> ('s, bytes) comp"

section \<open>Offsets and sizes\<close>

definition table_entry_offset :: "table_range \<Rightarrow> u64 \<Rightarrow> u64 \<Rightarrow> u64 result" where
  "table_entry_offset rng local_index entry_size =
     try_bind (ok_or (checked_mul local_index entry_size)
       (Malformed ''table entry offset overflow'')) (\<lambda>v.
     ok_or (checked_add (tr_entries_offset rng) v) (Malformed ''table entry offset overflow''))"

definition validate_ewf1_encoded_size :: "u64 \<Rightarrow> u64 \<Rightarrow> chunk_encoding \<Rightarrow> bool \<Rightarrow> unit result" where
  "validate_ewf1_encoded_size encoded_size chunk_size encoding allow_large =
     (if encoding = EncZlib
      then try_bind (zlib_compressed_chunk_size_cap chunk_size) (\<lambda>standard_maximum.
        if \<not> allow_large \<and> encoded_size \<le> standard_maximum
        then validate_encoded_size encoded_size chunk_size encoding
        else if encoded_size = 0 then Inl (Malformed ''chunk data size is zero'')
        else try_bind (ok_or (checked_mul chunk_size 2)
               (Malformed ''EWF1 chunk size cap overflow'')) (\<lambda>mx.
          if mx < encoded_size
          then Inl (Malformed (''EWF1 compressed chunk size '' @ dec (unat encoded_size)
                 @ '' exceeds maximum '' @ dec (unat mx)))
          else Inr ()))
      else validate_encoded_size encoded_size chunk_size encoding)"

definition image_compression_debug :: "image_compression \<Rightarrow> string" where
  "image_compression_debug m =
     (case m of ICNone \<Rightarrow> ''None'' | ICZlib \<Rightarrow> ''Zlib'' | ICZstd \<Rightarrow> ''Zstd'' | ICBzip2 \<Rightarrow> ''Bzip2''
      | ICUnknown v \<Rightarrow> ''Unknown('' @ dec (unat v) @ '')'')"

definition ewf1_chunk_encoding ::
    "bool \<Rightarrow> u64 \<Rightarrow> u64 \<Rightarrow> image_compression \<Rightarrow> chunk_encoding result" where
  "ewf1_chunk_encoding entry_compressed encoded_size chunk_size method =
     (if entry_compressed
      then (case method of
              ICZlib \<Rightarrow> Inr EncZlib
            | ICZstd \<Rightarrow> Inr EncZstd
            | _ \<Rightarrow> Inl (Unsupported (''unsupported EWF1 compression method ''
                     @ image_compression_debug method)))
      else if method \<noteq> ICZlib then Inr EncRaw
      else try_bind (raw_chunk_size_cap chunk_size) (\<lambda>raw_cap.
        if \<not> raw_cap < encoded_size then Inr EncRaw
        else try_bind (zlib_compressed_chunk_size_cap chunk_size) (\<lambda>zlib_cap.
          if encoded_size \<le> zlib_cap then Inr EncZlib else Inr EncRaw)))"

text \<open>The branch of \<open>should_use_full_width_ewf1_offset\<close> for an entry with a successor.\<close>

definition masked_entry_is_valid :: "u64 \<Rightarrow> u64 \<Rightarrow> u64 \<Rightarrow> bool result" where
  "masked_entry_is_valid masked_offset next_masked chunk_size =
     (if masked_offset < next_masked
      then try_bind (zlib_compressed_chunk_size_cap chunk_size) (\<lambda>cap.
        Inr (next_masked - masked_offset \<le> cap))
      else Inr False)"

definition next_full_offset :: "table_range \<Rightarrow> u32 \<Rightarrow> u64 \<Rightarrow> u64 result" where
  "next_full_offset rng next_raw next_masked =
     (if next_raw AND 0x80000000 \<noteq> 0
      then ok_or (checked_add (tr_base_offset rng) (ucast next_raw))
        (Malformed ''EWF1 next chunk offset overflow'')
      else Inr next_masked)"

definition full_width_before ::
    "table_range \<Rightarrow> u64 \<Rightarrow> u64 \<Rightarrow> u64 \<Rightarrow> u32 \<Rightarrow> bool result" where
  "full_width_before rng full_offset masked_offset chunk_size next_raw =
     try_bind (ok_or (checked_add (tr_base_offset rng) (ucast (next_raw AND 0x7fffffff)))
       (Malformed ''EWF1 next chunk offset overflow'')) (\<lambda>next_masked.
     try_bind (masked_entry_is_valid masked_offset next_masked chunk_size) (\<lambda>masked_is_valid.
     if masked_is_valid then Inr False
     else try_bind (next_full_offset rng next_raw next_masked) (\<lambda>next_full.
       if full_offset < next_full
       then try_bind (raw_chunk_size_cap chunk_size) (\<lambda>cap. Inr (next_full - full_offset \<le> cap))
       else Inr False)))"

definition should_use_full_width_ewf1_offset ::
    "table_range \<Rightarrow> u32 \<Rightarrow> u64 \<Rightarrow> u64 \<Rightarrow> u32 option \<Rightarrow> bool \<Rightarrow> bool result" where
  "should_use_full_width_ewf1_offset rng raw masked_offset chunk_size next_raw is_final =
     (if raw AND 0x80000000 = 0 then Inr False
      else case tr_data_end rng of
        None \<Rightarrow> Inr False
      | Some data_end \<Rightarrow>
          try_bind (ok_or (checked_sub data_end (tr_base_offset rng))
            (Malformed ''EWF1 data region precedes base offset'')) (\<lambda>data_len.
          if data_len \<le> 0x80000000 then Inr False
          else try_bind (ok_or (checked_add (tr_base_offset rng) (ucast raw))
            (Malformed ''EWF1 chunk offset overflow'')) (\<lambda>full_offset.
          if data_end \<le> full_offset then Inr False
          else case next_raw of
            Some next_raw \<Rightarrow> full_width_before rng full_offset masked_offset chunk_size next_raw
          | None \<Rightarrow>
              if is_final
              then let masked_size = saturating_sub data_end masked_offset;
                full_size = data_end - full_offset in
                try_bind (zlib_compressed_chunk_size_cap chunk_size) (\<lambda>cap.
                if cap < masked_size
                then try_bind (raw_chunk_size_cap chunk_size) (\<lambda>raw_cap. Inr (full_size \<le> raw_cap))
                else Inr False)
              else Inr False)))"

definition decode_ewf1_entry ::
    "table_range \<Rightarrow> u32 \<Rightarrow> u64 \<Rightarrow> u32 option \<Rightarrow> bool \<Rightarrow> ewf1_decoded_entry result" where
  "decode_ewf1_entry rng raw chunk_size next_raw is_final =
     try_bind (ewf1_table_entry_parse (le32 raw)) (\<lambda>entry.
     try_bind (ok_or (checked_add (tr_base_offset rng) (te1_offset entry))
       (Malformed ''EWF1 chunk offset overflow'')) (\<lambda>masked_offset.
     try_bind (should_use_full_width_ewf1_offset rng raw masked_offset chunk_size next_raw is_final)
       (\<lambda>full.
     if full
     then try_bind (ok_or (checked_add (tr_base_offset rng) (ucast raw))
            (Malformed ''EWF1 chunk offset overflow'')) (\<lambda>offset.
       Inr \<lparr>de_compressed = False, de_offset = offset\<rparr>)
     else Inr \<lparr>de_compressed = te1_compressed entry, de_offset = masked_offset\<rparr>)))"

definition logical_chunk_size :: "u64 \<Rightarrow> u64 \<Rightarrow> u64 \<Rightarrow> nat result" where
  "logical_chunk_size logical_size chunk_size chunk_id =
     try_bind (ok_or (checked_mul chunk_id chunk_size)
       (Malformed ''logical chunk offset overflow'')) (\<lambda>logical_offset.
     Inr (unat (min (saturating_sub logical_size logical_offset) chunk_size)))"

definition validate_chunk_size :: "u64 \<Rightarrow> unit result" where
  "validate_chunk_size chunk_size =
     (if chunk_size = 0 then Inl (Malformed ''chunk size is zero'')
      else if MAX_CHUNK_SIZE < chunk_size
      then Inl (Malformed (''chunk size '' @ dec (unat chunk_size) @ '' exceeds maximum ''
             @ dec (unat MAX_CHUNK_SIZE)))
      else Inr ())"

section \<open>Looking a chunk up\<close>

text \<open>
  The reader of table bytes \<open>rd\<close> stands for
  \<open>Image::read_table_bytes_at\<close>.
\<close>

definition read_u32_at :: "'s table_read \<Rightarrow> nat \<Rightarrow> u64 \<Rightarrow> ('s, u32) comp" where
  "read_u32_at rd segment_index offset =
     sbind (rd segment_index offset 4) (\<lambda>data. lift (Inr (from_le (slice data 0 4))))"

definition lookup_ewf1_chunk ::
    "'s table_read \<Rightarrow> u64 \<Rightarrow> table_range \<Rightarrow> u64 \<Rightarrow> nat \<Rightarrow> ('s, chunk) comp" where
  "lookup_ewf1_chunk rd chunk_size rng local_index logical_size =
     sbind (lift (table_entry_offset rng local_index 4)) (\<lambda>entry_offset.
     sbind (read_u32_at rd (tr_segment_index rng) entry_offset) (\<lambda>raw.
     sbind
       (if local_index + 1 < tr_chunk_count rng
        then sbind (lift (table_entry_offset rng (local_index + 1) 4)) (\<lambda>next_entry_offset.
          sbind (read_u32_at rd (tr_segment_index rng) next_entry_offset) (\<lambda>v. lift (Inr (Some v))))
        else lift (Inr None)) (\<lambda>next_raw.
     sbind (lift (decode_ewf1_entry rng raw chunk_size next_raw
       (local_index + 1 = tr_chunk_count rng))) (\<lambda>entry.
     sbind (lift
       (case next_raw of
          Some next_raw \<Rightarrow>
            try_bind (decode_ewf1_entry rng next_raw chunk_size None
              (local_index + 2 = tr_chunk_count rng)) (\<lambda>e. Inr (de_offset e))
        | None \<Rightarrow> ok_or (tr_data_end rng) (Malformed ''EWF1 table range has no data end'')))
       (\<lambda>next_offset.
     if next_offset \<le> de_offset entry
     then lift (Inl (Malformed ''EWF1 chunk offsets are not ordered''))
     else let encoded_size = next_offset - de_offset entry in
       sbind (lift (ok_or (tr_ewf1_compression_method rng)
         (Malformed ''EWF1 table range has no compression method''))) (\<lambda>method.
       sbind (lift (ewf1_chunk_encoding (de_compressed entry) encoded_size chunk_size method))
         (\<lambda>encoding.
       sbind (lift (validate_ewf1_encoded_size encoded_size chunk_size encoding
         (tr_ewf1_allow_large_compressed_chunks rng))) (\<lambda>_.
       lift (Inr \<lparr>ch_segment_index = tr_segment_index rng, ch_offset = de_offset entry,
         ch_encoded_size = encoded_size, ch_logical_size = logical_size,
         ch_encoding = encoding,
         ch_validate_checksum = (encoding = EncRaw \<and>
           checked_add (word_of_nat logical_size) 4 = Some encoded_size)\<rparr>))))))))) "

definition ewf2_chunk_encoding :: "ewf2_parsed_entry \<Rightarrow> chunk_encoding result" where
  "ewf2_chunk_encoding entry =
     (case te2_kind entry of
        RawChunk \<Rightarrow> Inr EncRaw
      | CompressedChunk CompNone \<Rightarrow> Inr EncRaw
      | CompressedChunk CompZlib \<Rightarrow> Inr EncZlib
      | CompressedChunk CompBzip2 \<Rightarrow> Inr EncBzip2
      | CompressedChunk (CompUnknown m) \<Rightarrow>
          Inl (Unsupported (''unknown EWF2 compression method '' @ dec (unat m)))
      | PatternFill \<Rightarrow> Inr (EncPatternFill (te2_chunk_data_offset entry)))"

definition lookup_ewf2_chunk ::
    "'s table_read \<Rightarrow> u64 \<Rightarrow> table_range \<Rightarrow> u64 \<Rightarrow> nat \<Rightarrow> ('s, chunk) comp" where
  "lookup_ewf2_chunk rd chunk_size rng local_index logical_size =
     sbind (lift (table_entry_offset rng local_index 16)) (\<lambda>entry_offset.
     sbind (rd (tr_segment_index rng) entry_offset 16) (\<lambda>entry_data.
     sbind (lift (ok_or (map_option compression_method_from (tr_ewf2_compression_method rng))
       (Malformed ''EWF2 range has no compression method''))) (\<lambda>method.
     sbind (lift (ewf2_table_entry_parse entry_data method)) (\<lambda>entry.
     sbind (lift (ewf2_chunk_encoding entry)) (\<lambda>encoding.
     let validate_checksum =
       (encoding = EncRaw \<and> te2_flags entry AND CHUNK_FLAG_HAS_CHECKSUM \<noteq> 0) in
     sbind (lift (validate_encoded_size (ucast (te2_chunk_data_size entry)) chunk_size encoding)) (\<lambda>_.
     lift (Inr \<lparr>ch_segment_index = tr_segment_index rng,
       ch_offset = te2_chunk_data_offset entry,
       ch_encoded_size = ucast (te2_chunk_data_size entry),
       ch_logical_size = logical_size, ch_encoding = encoding,
       ch_validate_checksum = validate_checksum\<rparr>)))))))"

definition lookup_chunk ::
    "'s table_read \<Rightarrow> lazy_chunk_index \<Rightarrow> u64 \<Rightarrow> u64 \<Rightarrow> u64 \<Rightarrow> ('s, chunk) comp" where
  "lookup_chunk rd ix image_size chunk_size chunk_id =
     sbind (lift (range_index_for ix chunk_id)) (\<lambda>(_, rng).
     sbind (lift (ok_or (checked_sub chunk_id (tr_first_chunk rng))
       (Malformed ''chunk range underflow''))) (\<lambda>local_index.
     sbind (lift (logical_chunk_size image_size chunk_size chunk_id)) (\<lambda>logical_size.
     case tr_kind rng of
       RangeEwf1 \<Rightarrow> lookup_ewf1_chunk rd chunk_size rng local_index logical_size
     | RangeEwf2 \<Rightarrow> lookup_ewf2_chunk rd chunk_size rng local_index logical_size)))"

section \<open>The interface of the table reader\<close>

text \<open>
  The lookup relies on one law: whatever the state, a read of table bytes has one
  result. Under it a lookup has one result too, the same function run on the pure
  reader.
\<close>

locale table_reader =
  fixes rd :: "'s table_read"
    and inv :: "'s \<Rightarrow> bool"
    and table_bytes :: "nat \<Rightarrow> u64 \<Rightarrow> u64 \<Rightarrow> bytes result"
  assumes read_computes: "computes inv (rd seg offset count) (table_bytes seg offset count)"
begin

lemma read_computes_u32:
  "computes inv (read_u32_at rd seg off) (try_bind (table_bytes seg off 4) (\<lambda>d. Inr (from_le (slice d 0 4))))"
  unfolding read_u32_at_def by (intro computes_sbind read_computes computes_lift)

end

text \<open>The stateless reader of the same bytes.\<close>

definition pure_reader :: "(nat \<Rightarrow> u64 \<Rightarrow> u64 \<Rightarrow> bytes result) \<Rightarrow> unit table_read" where
  "pure_reader table_bytes seg offset count = lift (table_bytes seg offset count)"

text \<open>An operation on the state agrees with its pure counterpart.\<close>

definition agrees :: "('s \<Rightarrow> bool) \<Rightarrow> ('s, 'a) comp \<Rightarrow> (unit, 'a) comp \<Rightarrow> bool" where
  "agrees I m p \<longleftrightarrow> computes I m (value_of p)"

lemma agrees_lift: "agrees I (lift r) (lift r)"
  by (simp add: agrees_def value_of_def computes_lift)

lemma agrees_sbind:
  assumes "agrees I m p" "\<And>x. value_of p = Inr x \<Longrightarrow> agrees I (f x) (g x)"
  shows "agrees I (sbind m f) (sbind p g)"
proof -
  have "value_of (sbind p g) = try_bind (value_of p) (\<lambda>x. value_of (g x))"
    by (cases "p ()"; cases "fst (p ())") (auto simp: value_of_def sbind_def)
  with assms show ?thesis unfolding agrees_def by (auto intro: computes_sbind)
qed

lemma agrees_if: "(b \<Longrightarrow> agrees I m p) \<Longrightarrow> (\<not> b \<Longrightarrow> agrees I m' p') \<Longrightarrow>
   agrees I (if b then m else m') (if b then p else p')"
  by simp

lemmas agrees_intros = agrees_lift agrees_sbind agrees_if

context table_reader
begin

lemma agrees_rd: "agrees inv (rd seg offset count) (pure_reader table_bytes seg offset count)"
  by (simp add: agrees_def pure_reader_def value_of_def read_computes)

lemma agrees_read_u32_at: "agrees inv (read_u32_at rd seg off) (read_u32_at (pure_reader table_bytes) seg off)"
  unfolding read_u32_at_def by (intro agrees_intros agrees_rd)

lemma agrees_lookup_ewf1:
  "agrees inv (lookup_ewf1_chunk rd c rng i n) (lookup_ewf1_chunk (pure_reader table_bytes) c rng i n)"
  unfolding lookup_ewf1_chunk_def Let_def
  by (intro agrees_intros agrees_read_u32_at)

lemma agrees_lookup_ewf2:
  "agrees inv (lookup_ewf2_chunk rd c rng i n) (lookup_ewf2_chunk (pure_reader table_bytes) c rng i n)"
  unfolding lookup_ewf2_chunk_def Let_def
  by (intro agrees_intros agrees_rd)

lemma agrees_lookup_chunk:
  "agrees inv (lookup_chunk rd ix sz c i) (lookup_chunk (pure_reader table_bytes) ix sz c i)"
  unfolding lookup_chunk_def
  by (intro agrees_intros)
    (auto split: prod.splits table_range_kind.splits
      intro!: agrees_intros agrees_lookup_ewf1 agrees_lookup_ewf2)

end

section \<open>Chunk geometry\<close>

lemma logical_chunk_size_ok:
  assumes "logical_chunk_size sz c i = Inr n"
  shows "n = min (unat sz - unat i * unat c) (unat c)" and "unat i * unat c < 2 ^ 64"
  using assms
  by (auto simp: logical_chunk_size_def try_bind_Inr_iff checked_simps min_def word_le_nat_alt)

lemma logical_chunk_size_total:
  "unat i * unat c < 2 ^ 64 \<Longrightarrow>
   logical_chunk_size sz c i = Inr (min (unat sz - unat i * unat c) (unat c))"
  by (auto simp: logical_chunk_size_def checked_mul_def unat_mult_less min_def word_le_nat_alt
      unat_saturating_sub)

lemma chunk_below_count:
  assumes "logical_chunk_count sz c = Inr n" "unat i < unat n"
  shows "unat i * unat c < unat sz"
proof -
  note n = logical_chunk_count_ok [OF assms(1)]
  have "unat i + 1 \<le> (unat sz + unat c - 1) div unat c" using assms(2) n(2) by simp
  then have "(unat i + 1) * unat c \<le> unat sz + unat c - 1"
    using n(1) by (simp add: less_eq_div_iff_mult_less_eq)
  with n(1) show ?thesis by (simp add: algebra_simps)
qed

lemma offset_below_count:
  assumes "logical_chunk_count sz c = Inr n" "k < unat sz"
  shows "k div unat c < unat n"
proof -
  note n = logical_chunk_count_ok [OF assms(1)]
  have "k div unat c < (k div unat c * unat c + unat c) div unat c"
    using n(1) by (subst div_add_self2) simp_all
  also have "\<dots> \<le> (unat sz + unat c - 1) div unat c"
    using assms(2) n(1) by (intro div_le_mono) (simp add: div_times_less_eq_dividend add.commute le_diff_conv2 trans_le_add1 Suc_leI add_le_mono le_less_trans [OF div_times_less_eq_dividend])
  finally show ?thesis by (simp add: n(2))
qed

section \<open>Full-width offsets\<close>

lemma u32_low_bits: "unat (w AND 0x7fffffff :: u32) = unat w mod 2147483648"
proof -
  have low: "(0x7fffffff :: u32) = mask 31" by (simp add: mask_eq_exp_minus_1)
  have "w AND mask 31 = take_bit 31 w" by (simp add: take_bit_eq_mask)
  then show ?thesis unfolding low
    by (simp only: unsigned_take_bit_eq) (simp add: take_bit_eq_mod)
qed

lemma u32_high_value:
  assumes "w AND 0x80000000 \<noteq> (0 :: u32)"
  shows "unat w = 2147483648 + unat (w AND 0x7fffffff)"
proof -
  have "2147483648 \<le> unat w" using assms by (simp add: u32_high_clear_iff)
  moreover have "unat w < 4294967296" by (rule unat_32_less)
  ultimately have "unat w mod 2147483648 = unat w - 2147483648"
    by (subst le_mod_geq) (simp_all add: mod_less)
  with \<open>2147483648 \<le> unat w\<close> show ?thesis by (simp add: u32_low_bits)
qed

text \<open>
  A table entry with a successor is never read at full width: with the high bit set in
  both entries their masked and full distances coincide, and the masked reading, which
  the zlib limit admits first, wins; without it in the successor the full offset lies
  beyond the successor.
\<close>

lemma full_width_before_False:
  fixes raw :: u32
  assumes high: "raw AND 0x80000000 \<noteq> 0"
    and full: "checked_add (tr_base_offset rng) (ucast raw) = Some full"
    and masked: "checked_add (tr_base_offset rng) (ucast (raw AND 0x7fffffff)) = Some masked"
  shows "full_width_before rng full masked c next_raw \<noteq> Inr True"
proof
  assume "full_width_before rng full masked c next_raw = Inr True"
  then obtain next_masked next_full raw_cap where
    nm: "checked_add (tr_base_offset rng) (ucast (next_raw AND 0x7fffffff)) = Some next_masked"
    and invalid: "masked_entry_is_valid masked next_masked c = Inr False"
    and nf: "next_full_offset rng next_raw next_masked = Inr next_full"
    and after: "full < next_full" and cap: "raw_chunk_size_cap c = Inr raw_cap"
    and small: "next_full - full \<le> raw_cap"
    by (auto simp: full_width_before_def try_bind_Inr_iff split: if_splits)
  let ?b = "unat (tr_base_offset rng)"
  have f: "unat full = ?b + 2147483648 + unat (raw AND 0x7fffffff)"
    and m: "unat masked = ?b + unat (raw AND 0x7fffffff)"
    and n: "unat next_masked = ?b + unat (next_raw AND 0x7fffffff)"
    using full masked nm u32_high_value [OF high] by (simp_all add: checked_add_Some)
  have low: "unat (next_raw AND 0x7fffffff) < 2147483648" by (simp add: u32_low_bits)
  show False
  proof (cases "next_raw AND 0x80000000 = 0")
    case True
    with nf after f n low show False by (simp add: next_full_offset_def word_less_nat_alt)
  next
    case False
    with nf have nf: "unat next_full = ?b + 2147483648 + unat (next_raw AND 0x7fffffff)"
      using u32_high_value [OF False] by (simp add: next_full_offset_def checked_add_Some)
    then have "masked < next_masked" using after f m n by (simp add: word_less_nat_alt)
    then obtain z where z: "zlib_compressed_chunk_size_cap c = Inr z" "\<not> next_masked - masked \<le> z"
      using invalid by (auto simp: masked_entry_is_valid_def try_bind_Inr_iff)
    have "unat (next_masked - masked) = unat (next_full - full)"
      using \<open>masked < next_masked\<close> after f m n nf by (simp add: unat_sub word_less_nat_alt word_le_nat_alt)
    also have "\<dots> \<le> unat c + 4"
      using small cap by (simp add: word_le_nat_alt raw_chunk_size_cap_ok)
    also have "\<dots> < unat z"
      using zlib_compressed_chunk_size_cap_ok [OF z(1)] zlib_cap_bounds(2) by simp
    finally show False using z(2) by (simp add: word_le_nat_alt)
  qed
qed

lemma not_full_width_before_last:
  assumes "checked_add (tr_base_offset rng) (ucast (raw AND 0x7fffffff)) = Some masked"
  shows "should_use_full_width_ewf1_offset rng raw masked c (Some next_raw) fin \<noteq> Inr True"
  using full_width_before_False [OF _ _ assms]
  by (auto simp: should_use_full_width_ewf1_offset_def try_bind_Inr_iff split: if_splits option.splits)

end
