(* ===== verification/Page_Cache.thy ===== *)
theory Page_Cache
  imports State_Result Chunk_Lookup
begin

text \<open>
  The cache of table pages (\<open>src/reader_cache.rs\<close>), ranges of segments and the paged
  reader of table bytes (\<open>src/image.rs\<close>). The LRU map is the crate lru: a record of its
  operations, whose documented behaviour is \<open>lru_lawful\<close>. The lemmas: the cache never
  holds more bytes than its capacity and accounts for them exactly, and a paged read
  yields the segment's bytes whatever the cache holds.
\<close>

section \<open>The LRU map\<close>

record ('k, 'v, 'c) lru =
  lru_get :: "'k \<Rightarrow> 'c \<Rightarrow> 'v option \<times> 'c"
  lru_put :: "'k \<Rightarrow> 'v \<Rightarrow> 'c \<Rightarrow> 'c"
  lru_pop :: "'k \<Rightarrow> 'c \<Rightarrow> 'v option \<times> 'c"
  lru_pop_lru :: "'c \<Rightarrow> ('k \<times> 'v) option \<times> 'c"
  lru_len :: "'c \<Rightarrow> nat"

text \<open>
  The map holds its entries from the most to the least recently used; \<open>cap\<close> is the
  number of entries of a bounded map.
\<close>

definition drop_key :: "'k \<Rightarrow> ('k \<times> 'v) list \<Rightarrow> ('k \<times> 'v) list" where
  "drop_key k es = filter (\<lambda>e. fst e \<noteq> k) es"

definition touch :: "'k \<Rightarrow> ('k \<times> 'v) list \<Rightarrow> ('k \<times> 'v) list" where
  "touch k es = (case map_of es k of None \<Rightarrow> es | Some v \<Rightarrow> (k, v) # drop_key k es)"

definition bounded :: "nat option \<Rightarrow> 'a list \<Rightarrow> 'a list" where
  "bounded cap es = (case cap of None \<Rightarrow> es | Some n \<Rightarrow> take n es)"

definition lru_lawful ::
    "nat option \<Rightarrow> ('k, 'v, 'c) lru \<Rightarrow> ('c \<Rightarrow> ('k \<times> 'v) list) \<Rightarrow> bool" where
  "lru_lawful cap L entries \<longleftrightarrow>
     (\<forall>k c. fst (lru_get L k c) = map_of (entries c) k \<and>
            entries (snd (lru_get L k c)) = touch k (entries c)) \<and>
     (\<forall>k v c. entries (lru_put L k v c) = bounded cap ((k, v) # drop_key k (entries c))) \<and>
     (\<forall>k c. fst (lru_pop L k c) = map_of (entries c) k \<and>
            entries (snd (lru_pop L k c)) = drop_key k (entries c)) \<and>
     (\<forall>c. fst (lru_pop_lru L c) = (if entries c = [] then None else Some (last (entries c))) \<and>
          entries (snd (lru_pop_lru L c)) = butlast (entries c)) \<and>
     (\<forall>c. lru_len L c = length (entries c))"

text \<open>A list of entries is such a map, which shows that the laws can hold.\<close>

definition list_lru :: "nat option \<Rightarrow> ('k, 'v, ('k \<times> 'v) list) lru" where
  "list_lru cap = \<lparr>lru_get = (\<lambda>k c. (map_of c k, touch k c)),
     lru_put = (\<lambda>k v c. bounded cap ((k, v) # drop_key k c)),
     lru_pop = (\<lambda>k c. (map_of c k, drop_key k c)),
     lru_pop_lru = (\<lambda>c. (if c = [] then None else Some (last c), butlast c)),
     lru_len = length\<rparr>"

lemma list_lru_lawful: "lru_lawful cap (list_lru cap) id"
  by (simp add: lru_lawful_def list_lru_def)

lemma map_of_drop_key: "map_of (drop_key k es) j = (if j = k then None else map_of es j)"
  by (induction es) (auto simp: drop_key_def)

lemma map_of_touch [simp]: "map_of (touch k es) = map_of es"
proof
  fix j
  show "map_of (touch k es) j = map_of es j"
  proof (cases "map_of es k")
    case None
    then show ?thesis unfolding touch_def None by simp
  next
    case (Some v)
    then show ?thesis unfolding touch_def Some option.case map_of.simps fst_conv snd_conv fun_upd_apply
      using Some by (cases "j = k") (simp_all add: map_of_drop_key)
  qed
qed

lemma distinct_drop_key: "distinct (map fst es) \<Longrightarrow> distinct (map fst (drop_key k es))"
  by (induction es) (auto simp: drop_key_def)

lemma drop_key_keys: "k \<notin> fst ` set (drop_key k es)"
  by (auto simp: drop_key_def)

lemma drop_key_other: "k \<notin> fst ` set es \<Longrightarrow> drop_key k es = es"
  by (induction es) (auto simp: drop_key_def)

lemma distinct_touch: "distinct (map fst es) \<Longrightarrow> distinct (map fst (touch k es))"
proof (cases "map_of es k")
  case (Some v)
  moreover assume "distinct (map fst es)"
  moreover have "k \<notin> set (map fst (drop_key k es))" using drop_key_keys [of k es] by simp
  ultimately show ?thesis unfolding touch_def Some by (simp add: distinct_drop_key)
qed (simp add: touch_def)

section \<open>The page cache\<close>

abbreviation (input) TABLE_PAGE_SIZE :: nat where "TABLE_PAGE_SIZE \<equiv> 4096"

record table_page_key =
  pk_segment_index :: nat
  pk_page_offset :: u64

record 'c table_page_cache =
  pc_pages :: 'c
  pc_capacity_bytes :: nat
  pc_cached_bytes :: nat
  pc_peak_bytes :: nat

type_synonym 'c page_lru = "(table_page_key, bytes, 'c) lru"

definition usize_saturating_add :: "nat \<Rightarrow> nat \<Rightarrow> nat" where
  "usize_saturating_add a b = min (a + b) (2 ^ 64 - 1)"

definition page_cache_new :: "'c \<Rightarrow> nat \<Rightarrow> 'c table_page_cache" where
  "page_cache_new empty_pages capacity_bytes =
     \<lparr>pc_pages = empty_pages, pc_capacity_bytes = capacity_bytes, pc_cached_bytes = 0,
      pc_peak_bytes = 0\<rparr>"

definition page_cache_get ::
    "'c page_lru \<Rightarrow> table_page_key \<Rightarrow> 'c table_page_cache \<Rightarrow> bytes option \<times> 'c table_page_cache" where
  "page_cache_get L key pc =
     (let (r, pages) = lru_get L key (pc_pages pc) in (r, pc\<lparr>pc_pages := pages\<rparr>))"

definition page_cache_is_disabled :: "'c table_page_cache \<Rightarrow> bool" where
  "page_cache_is_disabled pc \<longleftrightarrow> pc_capacity_bytes pc = 0"

text \<open>
  The eviction loop of \<open>insert\<close>. Every round removes an entry, so one more round than
  there are entries is enough fuel.
\<close>

fun evict_loop :: "'c page_lru \<Rightarrow> nat \<Rightarrow> nat \<Rightarrow> nat \<Rightarrow> 'c \<Rightarrow> nat \<Rightarrow> 'c \<times> nat" where
  "evict_loop L 0 capacity n pages cached = (pages, cached)"
| "evict_loop L (Suc fuel) capacity n pages cached =
     (if capacity < usize_saturating_add cached n
      then case lru_pop_lru L pages of
        (None, pages') \<Rightarrow> (pages', cached)
      | (Some (key, evicted), pages') \<Rightarrow>
          evict_loop L fuel capacity n pages' (cached - length evicted)
      else (pages, cached))"

definition page_cache_insert ::
    "'c page_lru \<Rightarrow> table_page_key \<Rightarrow> bytes \<Rightarrow> 'c table_page_cache \<Rightarrow> bytes \<times> 'c table_page_cache" where
  "page_cache_insert L key bs pc =
     (if pc_capacity_bytes pc = 0 \<or> pc_capacity_bytes pc < length bs then (bs, pc)
      else
        let (previous, pages) = lru_pop L key (pc_pages pc);
          cached = (case previous of None \<Rightarrow> pc_cached_bytes pc
                    | Some p \<Rightarrow> pc_cached_bytes pc - length p);
          (pages, cached) = evict_loop L (Suc (lru_len L pages)) (pc_capacity_bytes pc)
                              (length bs) pages cached;
          cached = usize_saturating_add cached (length bs)
        in (bs, pc\<lparr>pc_cached_bytes := cached, pc_peak_bytes := max (pc_peak_bytes pc) cached,
                   pc_pages := lru_put L key bs pages\<rparr>))"

text \<open>The accounting invariant.\<close>

fun held_bytes :: "('k \<times> bytes) list \<Rightarrow> nat" where
  "held_bytes [] = 0"
| "held_bytes ((k, v) # es) = length v + held_bytes es"

lemma held_bytes_append [simp]: "held_bytes (xs @ ys) = held_bytes xs + held_bytes ys"
  by (induction xs rule: held_bytes.induct) simp_all

definition page_cache_ok ::
    "('c \<Rightarrow> (table_page_key \<times> bytes) list) \<Rightarrow> 'c table_page_cache \<Rightarrow> bool" where
  "page_cache_ok entries pc \<longleftrightarrow>
     distinct (map fst (entries (pc_pages pc))) \<and>
     pc_cached_bytes pc = held_bytes (entries (pc_pages pc)) \<and>
     pc_cached_bytes pc \<le> pc_peak_bytes pc \<and> pc_peak_bytes pc \<le> pc_capacity_bytes pc \<and>
     pc_capacity_bytes pc < 2 ^ 64"

lemma page_cache_new_ok:
  "entries empty_pages = [] \<Longrightarrow> capacity < 2 ^ 64 \<Longrightarrow> page_cache_ok entries (page_cache_new empty_pages capacity)"
  by (simp add: page_cache_ok_def page_cache_new_def)

lemma entry_le_held: "map_of es k = Some v \<Longrightarrow> length v \<le> held_bytes es"
  by (induction es rule: held_bytes.induct) (auto split: if_splits)

lemma held_drop_key:
  "distinct (map fst es) \<Longrightarrow>
   held_bytes (drop_key k es) + (case map_of es k of None \<Rightarrow> 0 | Some v \<Rightarrow> length v) = held_bytes es"
proof (induction es rule: held_bytes.induct)
  case (2 j v es)
  show ?case
  proof (cases "j = k")
    case True
    with 2 have "k \<notin> fst ` set es" by simp
    with True show ?thesis by (simp add: drop_key_def drop_key_other [unfolded drop_key_def])
  next
    case False
    with 2 show ?thesis by (simp add: drop_key_def)
  qed
qed (simp add: drop_key_def)

lemma held_touch: "distinct (map fst es) \<Longrightarrow> held_bytes (touch k es) = held_bytes es"
  using held_drop_key [of es k] by (cases "map_of es k") (simp_all add: touch_def)

lemma page_cache_get_ok:
  assumes "lru_lawful None L entries" "page_cache_ok entries pc"
  shows "page_cache_ok entries (snd (page_cache_get L key pc))"
    and "fst (page_cache_get L key pc) = map_of (entries (pc_pages pc)) key"
    and "map_of (entries (pc_pages (snd (page_cache_get L key pc)))) = map_of (entries (pc_pages pc))"
  using assms
  by (auto simp: page_cache_get_def case_prod_beta page_cache_ok_def lru_lawful_def
      distinct_touch held_touch)

text \<open>The eviction loop ends with room for the new page, and removes only oldest pages.\<close>

lemma evict_loop_ok:
  assumes law: "lru_lawful None L entries"
    and "cached = held_bytes (entries pages)"
    and "length (entries pages) < fuel" and "n \<le> capacity" "capacity < 2 ^ 64 - 1"
    and "evict_loop L fuel capacity n pages cached = (pages', cached')"
  shows "(\<exists>k. entries pages' = take k (entries pages)) \<and>
    cached' = held_bytes (entries pages') \<and> cached' + n \<le> capacity"
  using assms(2-)
proof (induction fuel arbitrary: pages cached)
  case (Suc fuel)
  show ?case
  proof (cases "capacity < usize_saturating_add cached n")
    case False
    then have "cached + n \<le> capacity" using Suc.prems(4) by (auto simp: usize_saturating_add_def)
    moreover have "pages' = pages" "cached' = cached" using False Suc.prems(5) by simp_all
    moreover have "entries pages = take (length (entries pages)) (entries pages)" by simp
    ultimately show ?thesis using Suc.prems(1) by blast
  next
    case True
    then have "cached \<noteq> 0" using Suc.prems(3,4) by (auto simp: usize_saturating_add_def)
    then have ne: "entries pages \<noteq> []" using Suc.prems(1) by auto
    obtain r p where pop: "lru_pop_lru L pages = (r, p)" by (cases "lru_pop_lru L pages")
    then have r: "r = Some (last (entries pages))" and p: "entries p = butlast (entries pages)"
      using law ne unfolding lru_lawful_def by (metis fst_conv, metis snd_conv)
    obtain key evicted where last: "last (entries pages) = (key, evicted)"
      by (cases "last (entries pages)")
    have split: "entries pages = entries p @ [(key, evicted)]"
      using ne p last by (metis append_butlast_last_id)
    have run: "evict_loop L fuel capacity n p (cached - length evicted) = (pages', cached')"
      using Suc.prems(5) True pop r last by simp
    have "cached - length evicted = held_bytes (entries p)"
      using Suc.prems(1) split by simp
    from Suc.IH [OF this _ Suc.prems(3,4) run] Suc.prems(2) split
    obtain k where "entries pages' = take k (entries p)"
      "cached' = held_bytes (entries pages')" "cached' + n \<le> capacity" by auto
    moreover have "take k (entries p) = take (min k (length (entries p))) (entries pages)"
      by (cases "k \<le> length (entries p)") (simp_all add: split)
    ultimately show ?thesis by metis
  qed
qed simp

text \<open>Inserting keeps the accounting; a page found later is an old one or the new one.\<close>

lemma map_of_take: "distinct (map fst es) \<Longrightarrow> map_of (take k es) j = Some v \<Longrightarrow> map_of es j = Some v"
  by (meson in_set_takeD map_of_SomeD map_of_is_SomeI)

lemma page_cache_insert_ok:
  assumes law: "lru_lawful None L entries" and ok: "page_cache_ok entries pc"
    and cap: "pc_capacity_bytes pc < 2 ^ 64 - 1"
  shows "page_cache_ok entries (snd (page_cache_insert L key bs pc)) \<and>
    (\<forall>j v. map_of (entries (pc_pages (snd (page_cache_insert L key bs pc)))) j = Some v \<longrightarrow>
      map_of (entries (pc_pages pc)) j = Some v \<or> j = key \<and> v = bs)"
proof (cases "pc_capacity_bytes pc = 0 \<or> pc_capacity_bytes pc < length bs")
  case True
  with ok show ?thesis by (simp add: page_cache_insert_def)
next
  case False
  let ?es = "entries (pc_pages pc)"
  obtain r p where pop: "lru_pop L key (pc_pages pc) = (r, p)" by (cases "lru_pop L key (pc_pages pc)")
  then have r: "r = map_of ?es key" and p: "entries p = drop_key key ?es"
    using law unfolding lru_lawful_def by (metis fst_conv, metis snd_conv)
  define cached where "cached = (case r of None \<Rightarrow> pc_cached_bytes pc | Some q \<Rightarrow> pc_cached_bytes pc - length q)"
  obtain p' cached' where ev: "evict_loop L (Suc (lru_len L p)) (pc_capacity_bytes pc) (length bs) p cached = (p', cached')"
    by (cases "evict_loop L (Suc (lru_len L p)) (pc_capacity_bytes pc) (length bs) p cached")
  have run: "snd (page_cache_insert L key bs pc) = pc\<lparr>pc_cached_bytes := usize_saturating_add cached' (length bs),
      pc_peak_bytes := max (pc_peak_bytes pc) (usize_saturating_add cached' (length bs)),
      pc_pages := lru_put L key bs p'\<rparr>"
    using False pop ev by (simp add: page_cache_insert_def cached_def Let_def)
  have d: "distinct (map fst ?es)" and held: "pc_cached_bytes pc = held_bytes ?es"
    using ok by (simp_all add: page_cache_ok_def)
  have cached: "cached = held_bytes (entries p)"
    using held_drop_key [OF d, of key] unfolding cached_def r p held by (simp split: option.splits)
  have len: "length (entries p) < Suc (lru_len L p)" using law by (simp add: lru_lawful_def)
  from evict_loop_ok [OF law cached len _ cap ev] False
  obtain k where k: "entries p' = take k (drop_key key ?es)"
    and cached': "cached' = held_bytes (entries p')" and fits: "cached' + length bs \<le> pc_capacity_bytes pc"
    by (auto simp: p)
  have sat: "usize_saturating_add cached' (length bs) = cached' + length bs"
    using fits cap by (simp add: usize_saturating_add_def)
  have dp: "distinct (map fst (drop_key key ?es))" using d by (rule distinct_drop_key)
  have "key \<notin> fst ` set (entries p')"
    using drop_key_keys [of key ?es] by (auto simp: k dest: in_set_takeD)
  then have put: "entries (lru_put L key bs p') = (key, bs) # entries p'"
    using law by (simp add: lru_lawful_def bounded_def drop_key_other)
  have "distinct (map fst (entries p'))" using dp unfolding k take_map [symmetric] by (rule distinct_take)
  then have "distinct (map fst ((key, bs) # entries p'))"
    using \<open>key \<notin> fst ` set (entries p')\<close> by simp
  then have "page_cache_ok entries (snd (page_cache_insert L key bs pc))"
    using ok fits unfolding run put page_cache_ok_def by (simp add: put sat cached' [symmetric])
  moreover have "map_of ?es j = Some v \<or> j = key \<and> v = bs"
    if "map_of ((key, bs) # entries p') j = Some v" for j v
  proof (cases "j = key")
    case False
    with that have "map_of (drop_key key ?es) j = Some v" by (auto simp: k dest: map_of_take [OF dp])
    with False show ?thesis by (simp add: map_of_drop_key)
  qed (use that in simp)
  ultimately show ?thesis by (simp add: run put)
qed

section \<open>Reading ranges of segments\<close>

text \<open>
  The size a range read may have in a segment of \<open>len\<close> bytes, and the read from a
  segment source. A source holds its segment's bytes; \<open>Segment_Source\<close> shows that the
  loop of \<open>read_exact_at\<close> on a lawful backing is the slice taken here.
\<close>

definition bounded_size :: "bool \<Rightarrow> u64 \<Rightarrow> u64 \<Rightarrow> u64 \<Rightarrow> u64 result" where
  "bounded_size clamp offset count len =
     (if clamp
      then let count = min count (saturating_sub len offset) in
        if count = 0 then Inl (Malformed ''table page starts beyond segment end'')
        else Inr count
      else case checked_add offset count of
        None \<Rightarrow> Inl (Malformed ''requested byte range exceeds segment size'')
      | Some e \<Rightarrow>
          if len < e then Inl (Malformed ''requested byte range exceeds segment size'')
          else Inr count)"

definition read_segment_range :: "bytes list \<Rightarrow> nat \<Rightarrow> u64 \<Rightarrow> u64 \<Rightarrow> bool \<Rightarrow> bytes result" where
  "read_segment_range segments segment_index offset count clamp =
     (if length segments \<le> segment_index then Inl (Malformed ''missing segment source'')
      else let source = segments ! segment_index in
        try_bind (bounded_size clamp offset count (word_of_nat (length source))) (\<lambda>n.
          read_exact_at source offset n))"

lemma read_segment_range_ok:
  assumes "i < length segs" "length (segs ! i) < 2 ^ 64" "unat off + unat n \<le> length (segs ! i)"
  shows "read_segment_range segs i off n False = Inr (slice (segs ! i) (unat off) (unat off + unat n))"
proof -
  have "unat off + unat n < 2 ^ 64" using assms(2,3) by simp
  then obtain e where "checked_add off n = Some e" "unat e = unat off + unat n"
    using checked_add_ok [of off n] by blast
  moreover have "unat (word_of_nat (length (segs ! i)) :: u64) = length (segs ! i)"
    using assms(2) by (simp add: unat_of_small_u64)
  ultimately have "bounded_size False off n (word_of_nat (length (segs ! i))) = Inr n"
    using assms(3) by (simp add: bounded_size_def word_less_nat_alt)
  with assms show ?thesis
    by (simp add: read_segment_range_def Let_def read_exact_at_def read_exact_ok)
qed

lemma read_segment_range_Inr:
  assumes "read_segment_range segs i off n False = Inr bs"
  shows "i < length segs" and "length (segs ! i) < 2 ^ 64 \<Longrightarrow>
    unat off + unat n \<le> length (segs ! i) \<and> bs = slice (segs ! i) (unat off) (unat off + unat n)"
  using assms
  by (auto simp: read_segment_range_def bounded_size_def Let_def try_bind_Inr_iff read_exact_at_def
      read_exact_Inr unat_of_small_u64 checked_simps word_nat_order split: if_splits option.splits)

text \<open>A clamped page read yields what the segment holds of the page.\<close>

lemma read_segment_page:
  assumes "i < length segs" "length (segs ! i) < 2 ^ 64"
  shows "read_segment_range segs i off 4096 True
    = (if unat off < length (segs ! i)
       then Inr (slice (segs ! i) (unat off) (min (length (segs ! i)) (unat off + 4096)))
       else Inl (Malformed ''table page starts beyond segment end''))"
proof -
  let ?len = "word_of_nat (length (segs ! i)) :: u64"
  let ?n = "min 4096 (saturating_sub ?len off)"
  have len: "unat ?len = length (segs ! i)" using assms(2) by (simp add: unat_of_small_u64)
  have n: "unat ?n = min 4096 (length (segs ! i) - unat off)"
    by (simp add: min_def word_le_nat_alt unat_saturating_sub len)
  then have "?n = 0 \<longleftrightarrow> length (segs ! i) \<le> unat off"
    unfolding word_unat_eq_iff n by (simp del: unat_eq_zero) arith
  moreover have "min (length (segs ! i)) (unat off + 4096) = unat off + unat ?n"
    if "unat off < length (segs ! i)" using that unfolding n by arith
  moreover have "unat off + unat ?n \<le> length (segs ! i)" if "unat off < length (segs ! i)"
    using that by (simp add: n)
  ultimately show ?thesis
    using assms by (simp add: read_segment_range_def bounded_size_def Let_def read_exact_at_def read_exact_ok)
qed

section \<open>The paged reader\<close>

definition page_start :: "u64 \<Rightarrow> u64" where
  "page_start current = current - current mod 4096"

text \<open>One page: from the cache, or read from the segment and kept.\<close>

definition fetch_page ::
    "'c page_lru \<Rightarrow> bytes list \<Rightarrow> nat \<Rightarrow> u64 \<Rightarrow> ('c table_page_cache, bytes) comp" where
  "fetch_page L segments segment_index page_offset = (\<lambda>pc.
     let key = \<lparr>pk_segment_index = segment_index, pk_page_offset = page_offset\<rparr>;
       (cached, pc) = page_cache_get L key pc in
     case cached of
       Some page \<Rightarrow> (Inr page, pc)
     | None \<Rightarrow>
         (case read_segment_range segments segment_index page_offset 4096 True of
            Inl e \<Rightarrow> (Inl e, pc)
          | Inr bs \<Rightarrow> (case page_cache_insert L key bs pc of (page, pc) \<Rightarrow> (Inr page, pc))))"

text \<open>The loop over pages, with the page fetch as an argument.\<close>

function page_loop ::
    "(u64 \<Rightarrow> ('s, bytes) comp) \<Rightarrow> nat \<Rightarrow> u64 \<Rightarrow> bytes \<Rightarrow> ('s, bytes) comp" where
  "page_loop fetch requested current out s =
     (if requested \<le> length out then (Inr out, s)
      else case fetch (page_start current) s of
        (Inl e, s') \<Rightarrow> (Inl e, s')
      | (Inr page, s') \<Rightarrow>
          let within_page = unat (current - page_start current);
            available = length page - within_page in
          if available = 0 then (Inl (Malformed ''table read crosses segment end''), s')
          else let n = min available (requested - length out) in
            (case checked_add current (word_of_nat n) of
               None \<Rightarrow> (Inl (Malformed ''table read offset overflow''), s')
             | Some next_offset \<Rightarrow>
                 page_loop fetch requested next_offset
                   (out @ slice page within_page (within_page + n)) s'))"
  by pat_completeness auto
termination
  by (relation "measure (\<lambda>(fetch, requested, current, out, s). requested - length out)") auto

declare page_loop.simps [simp del]

definition read_table_bytes_at ::
    "'c page_lru \<Rightarrow> bytes list \<Rightarrow> nat \<Rightarrow> u64 \<Rightarrow> u64 \<Rightarrow> ('c table_page_cache, bytes) comp" where
  "read_table_bytes_at L segments segment_index offset count = (\<lambda>pc.
     if page_cache_is_disabled pc
     then (read_segment_range segments segment_index offset count False, pc)
     else page_loop (fetch_page L segments segment_index) (unat count) offset [] pc)"

text \<open>What the loop yields without a cache.\<close>

definition uncached_page :: "bytes list \<Rightarrow> nat \<Rightarrow> u64 \<Rightarrow> (unit, bytes) comp" where
  "uncached_page segments segment_index page_offset =
     lift (read_segment_range segments segment_index page_offset 4096 True)"

definition table_bytes :: "bool \<Rightarrow> bytes list \<Rightarrow> nat \<Rightarrow> u64 \<Rightarrow> u64 \<Rightarrow> bytes result" where
  "table_bytes disabled segments segment_index offset count =
     (if disabled then read_segment_range segments segment_index offset count False
      else value_of (page_loop (uncached_page segments segment_index) (unat count) offset []))"

text \<open>A cache is coherent when every page it holds is the segment's page.\<close>

definition coherent ::
    "('c \<Rightarrow> (table_page_key \<times> bytes) list) \<Rightarrow> bytes list \<Rightarrow> 'c table_page_cache \<Rightarrow> bool" where
  "coherent entries segments pc \<longleftrightarrow>
     (\<forall>key page. map_of (entries (pc_pages pc)) key = Some page \<longrightarrow>
        read_segment_range segments (pk_segment_index key) (pk_page_offset key) 4096 True = Inr page)"

definition cache_inv ::
    "('c \<Rightarrow> (table_page_key \<times> bytes) list) \<Rightarrow> bytes list \<Rightarrow> nat \<Rightarrow> 'c table_page_cache \<Rightarrow> bool" where
  "cache_inv entries segments capacity pc \<longleftrightarrow>
     page_cache_ok entries pc \<and> coherent entries segments pc \<and>
     pc_capacity_bytes pc = capacity \<and> capacity < 2 ^ 64 - 1"

lemma capacity_unchanged [simp]:
  "pc_capacity_bytes (snd (page_cache_get L key pc)) = pc_capacity_bytes pc"
  "pc_capacity_bytes (snd (page_cache_insert L key bs pc)) = pc_capacity_bytes pc"
  by (simp_all add: page_cache_get_def page_cache_insert_def Let_def case_prod_beta)

lemma fetch_page_computes:
  assumes law: "lru_lawful None L entries"
  shows "computes (cache_inv entries segs cap) (fetch_page L segs i off)
    (read_segment_range segs i off 4096 True)"
  unfolding computes_def
proof (intro allI impI)
  fix pc assume inv: "cache_inv entries segs cap pc"
  let ?key = "\<lparr>pk_segment_index = i, pk_page_offset = off\<rparr>"
  obtain c pc' where get: "page_cache_get L ?key pc = (c, pc')" by (cases "page_cache_get L ?key pc")
  have ok: "page_cache_ok entries pc" using inv by (simp add: cache_inv_def)
  note g = page_cache_get_ok [OF law ok, of ?key, unfolded get fst_conv snd_conv]
  have inv': "cache_inv entries segs cap pc'"
    using inv g(1,3) capacity_unchanged(1) [of L ?key pc]
    by (simp add: cache_inv_def coherent_def get)
  show "fst (fetch_page L segs i off pc) = read_segment_range segs i off 4096 True \<and>
    cache_inv entries segs cap (snd (fetch_page L segs i off pc))"
  proof (cases c)
    case (Some page)
    then have "map_of (entries (pc_pages pc)) ?key = Some page" using g(2) by simp
    then have "read_segment_range segs (pk_segment_index ?key) (pk_page_offset ?key) 4096 True = Inr page"
      using inv unfolding cache_inv_def coherent_def by blast
    then have "read_segment_range segs i off 4096 True = Inr page" by simp
    with Some inv' show ?thesis by (simp add: fetch_page_def get)
  next
    case None
    show ?thesis
    proof (cases "read_segment_range segs i off 4096 True")
      case (Inl e)
      with None inv' show ?thesis by (simp add: fetch_page_def get)
    next
      case (Inr bs)
      obtain page pc'' where ins: "page_cache_insert L ?key bs pc' = (page, pc'')"
        by (cases "page_cache_insert L ?key bs pc'")
      have "page_cache_ok entries pc'" "pc_capacity_bytes pc' < 2 ^ 64 - 1"
        using inv' by (simp_all add: cache_inv_def)
      note put = page_cache_insert_ok [OF law this, of ?key bs, unfolded ins snd_conv]
      have page: "page = bs"
        using arg_cong [OF ins, of fst]
        by (simp add: page_cache_insert_def Let_def case_prod_beta split: if_splits)
      have "cache_inv entries segs cap pc''"
        unfolding cache_inv_def coherent_def
      proof (intro conjI allI impI)
        show "page_cache_ok entries pc''" using put by simp
        show "pc_capacity_bytes pc'' = cap"
          using inv' capacity_unchanged(2) [of L ?key bs pc'] by (simp add: cache_inv_def ins)
        show "cap < 2 ^ 64 - 1" using inv by (simp add: cache_inv_def)
        fix key q assume "map_of (entries (pc_pages pc'')) key = Some q"
        then have "map_of (entries (pc_pages pc')) key = Some q \<or> key = ?key \<and> q = bs" using put by blast
        then show "read_segment_range segs (pk_segment_index key) (pk_page_offset key) 4096 True = Inr q"
          using inv' Inr by (auto simp: cache_inv_def coherent_def)
      qed
      with None Inr page show ?thesis by (simp add: fetch_page_def get ins)
    qed
  qed
qed

lemma page_loop_computes:
  assumes "\<And>off. computes I (fetch off) (r off)"
  shows "computes I (page_loop fetch requested current out)
    (value_of (page_loop (\<lambda>off. lift (r off)) requested current out))"
  unfolding computes_def value_of_def
proof (intro allI impI)
  fix s assume "I s"
  then show "fst (page_loop fetch requested current out s)
      = fst (page_loop (\<lambda>off. lift (r off)) requested current out ()) \<and>
    I (snd (page_loop fetch requested current out s))"
  proof (induction "requested - length out" arbitrary: current out s rule: less_induct)
    case less
    show ?case
    proof (cases "requested \<le> length out")
      case True
      with less(2) show ?thesis by (simp add: page_loop.simps)
    next
      case False
      obtain q t where q: "fetch (page_start current) s = (q, t)" by (cases "fetch (page_start current) s")
      with assms [of "page_start current"] less(2) have r: "r (page_start current) = q" and t: "I t"
        unfolding computes_def by (metis fst_conv, metis snd_conv)
      show ?thesis
      proof (cases q)
        case (Inl e)
        with False q r t show ?thesis
          by (subst (1 2 3) page_loop.simps) simp
      next
        case (Inr page)
        let ?w = "unat (current - page_start current)"
        let ?n = "min (length page - ?w) (requested - length out)"
        show ?thesis
        proof (cases "length page - ?w = 0 \<or> checked_add current (word_of_nat ?n) = None")
          case True
          with False q r t Inr show ?thesis
            by (subst (1 2 3) page_loop.simps) (auto simp: Let_def)
        next
          case ok: False
          then obtain nxt where nxt: "checked_add current (word_of_nat ?n) = Some nxt" by auto
          have "requested - length (out @ slice page ?w (?w + ?n)) < requested - length out"
            using False ok by auto
          from less(1) [OF this t] False q r Inr ok nxt show ?thesis
            by (subst (1 2 3) page_loop.simps) (simp add: Let_def)
        qed
      qed
    qed
  qed
qed

lemma read_table_bytes_computes:
  assumes law: "lru_lawful None L entries"
  shows "computes (cache_inv entries segs cap) (read_table_bytes_at L segs i off n)
    (table_bytes (cap = 0) segs i off n)"
proof (cases "cap = 0")
  case True
  then show ?thesis
    by (auto simp: computes_def read_table_bytes_at_def table_bytes_def cache_inv_def page_cache_is_disabled_def)
next
  case False
  have "computes (cache_inv entries segs cap) (page_loop (fetch_page L segs i) (unat n) off [])
      (value_of (page_loop (uncached_page segs i) (unat n) off []))"
    unfolding uncached_page_def by (intro page_loop_computes fetch_page_computes law)
  with False show ?thesis
    by (auto simp: computes_def read_table_bytes_at_def table_bytes_def cache_inv_def page_cache_is_disabled_def)
qed

text \<open>One round of the uncached loop on a segment.\<close>

lemma page_start_value: "unat (page_start current) = unat current div 4096 * 4096"
  and page_within_value: "unat (current - page_start current) = unat current mod 4096"
proof -
  have le: "current mod 4096 \<le> current" by (simp add: word_le_nat_alt unat_mod)
  then have "unat (page_start current) = unat current - unat current mod 4096"
    by (simp add: page_start_def unat_sub unat_mod)
  then show start: "unat (page_start current) = unat current div 4096 * 4096"
    by (simp add: minus_mod_eq_div_mult)
  have "page_start current \<le> current" by (simp add: word_le_nat_alt start)
  then show "unat (current - page_start current) = unat current mod 4096"
    by (simp add: unat_sub start minus_div_mult_eq_mod)
qed

lemma length_slice_exact: "a + m \<le> length xs \<Longrightarrow> length (slice xs a (a + m)) = m"
  by simp

lemma uncached_round:
  fixes current :: u64
  assumes i: "i < length segs" and len: "length (segs ! i) < 2 ^ 64" and more: "length out < requested"
  defines "seg \<equiv> segs ! i"
  defines "page_end \<equiv> min (length seg) (unat current div 4096 * 4096 + 4096)"
  defines "n \<equiv> min (page_end - unat current) (requested - length out)"
  shows "length seg \<le> unat current \<Longrightarrow>
      \<exists>m. page_loop (uncached_page segs i) requested current out () = (Inl (Malformed m), ())"
    and "unat current < length seg \<Longrightarrow> 0 < n \<and> unat current + n \<le> length seg \<and>
      (\<exists>nxt. unat nxt = unat current + n \<and> page_loop (uncached_page segs i) requested current out ()
        = page_loop (uncached_page segs i) requested nxt
            (out @ slice seg (unat current) (unat current + n)) ())"
proof -
  let ?ps = "unat current div 4096 * 4096" and ?w = "unat current mod 4096"
  have dm: "?ps + ?w = unat current" by simp
  have w: "?w < 4096" by simp
  define pg where "pg = slice seg ?ps page_end"
  have page: "uncached_page segs i (page_start current) ()
      = (if ?ps < length seg then Inr pg
         else Inl (Malformed ''table page starts beyond segment end''), ())"
    using read_segment_page [OF i len, of "page_start current"]
    by (simp add: uncached_page_def page_start_value page_end_def seg_def pg_def)
  {
    assume beyond: "length seg \<le> unat current"
    show "\<exists>m. page_loop (uncached_page segs i) requested current out () = (Inl (Malformed m), ())"
    proof (cases "?ps < length seg")
      case True
      then have "length pg - ?w = 0"
        using beyond dm by (simp add: page_end_def pg_def)
      with True more page show ?thesis
        by (subst page_loop.simps) (simp add: page_within_value Let_def)
    next
      case False
      with more page show ?thesis by (subst page_loop.simps) simp
    qed
  next
    assume inside: "unat current < length seg"
    then have ps: "?ps < length seg" using dm by linarith
    have avail: "length pg - ?w = page_end - unat current"
      using dm ps by (simp add: page_end_def pg_def)
    have pos: "unat current < page_end" using inside dm w by (simp add: page_end_def)
    then have n: "0 < n" using more by (simp add: n_def)
    have le: "unat current + n \<le> page_end" "page_end \<le> length seg"
      using pos unfolding n_def by arith (simp add: page_end_def)
    then have small: "unat current + n < 2 ^ 64" using len by (simp add: seg_def)
    then have nn: "unat (word_of_nat n :: u64) = n" by (intro unat_of_small_u64) simp
    obtain nxt where nxt: "checked_add current (word_of_nat n) = Some nxt" "unat nxt = unat current + n"
      using checked_add_ok [of current "word_of_nat n"] small by (auto simp: nn)
    have piece: "slice pg ?w (?w + n) = slice seg (unat current) (unat current + n)"
      using le dm by (simp add: pg_def slice_slice add.assoc [symmetric] min_absorb2)
    have "\<not> length pg \<le> ?w" using avail pos by linarith
    then have "page_loop (uncached_page segs i) requested current out ()
        = page_loop (uncached_page segs i) requested nxt (out @ slice seg (unat current) (unat current + n)) ()"
      using more page ps avail pos nxt(1) piece
      by (subst page_loop.simps) (simp add: page_within_value Let_def n_def [symmetric])
    with n le nxt(2) show "0 < n \<and> unat current + n \<le> length seg \<and>
      (\<exists>nxt. unat nxt = unat current + n \<and> page_loop (uncached_page segs i) requested current out ()
        = page_loop (uncached_page segs i) requested nxt
            (out @ slice seg (unat current) (unat current + n)) ())"
      by auto
  }
qed

lemma uncached_loop:
  assumes i: "i < length segs" and len: "length (segs ! i) < 2 ^ 64" and "length out \<le> requested"
  shows "unat current + (requested - length out) \<le> length (segs ! i) \<Longrightarrow>
      page_loop (uncached_page segs i) requested current out ()
        = (Inr (out @ slice (segs ! i) (unat current) (unat current + (requested - length out))), ())"
    and "length (segs ! i) < unat current + (requested - length out) \<Longrightarrow> length out < requested \<Longrightarrow>
      \<exists>m. page_loop (uncached_page segs i) requested current out () = (Inl (Malformed m), ())"
proof -
  let ?n = "\<lambda>current out. min (min (length (segs ! i)) (unat current div 4096 * 4096 + 4096) - unat current)
    (requested - length out)"
  have "(unat current + (requested - length out) \<le> length (segs ! i) \<longrightarrow>
      page_loop (uncached_page segs i) requested current out ()
        = (Inr (out @ slice (segs ! i) (unat current) (unat current + (requested - length out))), ())) \<and>
    (length (segs ! i) < unat current + (requested - length out) \<and> length out < requested \<longrightarrow>
      (\<exists>m. page_loop (uncached_page segs i) requested current out () = (Inl (Malformed m), ())))"
    using assms(3)
  proof (induction "requested - length out" arbitrary: current out rule: less_induct)
    case less
    show ?case
    proof (cases "length out < requested")
      case False
      with less(2) show ?thesis by (simp add: page_loop.simps)
    next
      case more: True
      note round = uncached_round [OF i len more, of current]
      show ?thesis
      proof (cases "unat current < length (segs ! i)")
        case False
        with round(1) more show ?thesis by auto
      next
        case True
        define m where "m = ?n current out"
        from round(2) [OF True] obtain nxt where n: "0 < m" "unat current + m \<le> length (segs ! i)"
          "unat nxt = unat current + m"
          and step: "page_loop (uncached_page segs i) requested current out ()
            = page_loop (uncached_page segs i) requested nxt
                (out @ slice (segs ! i) (unat current) (unat current + m)) ()"
          unfolding m_def by blast
        let ?out = "out @ slice (segs ! i) (unat current) (unat current + m)"
        have len': "length ?out = length out + m"
          by (simp only: length_append length_slice_exact [OF n(2)])
        have "m \<le> requested - length out" by (simp add: m_def)
        then have le: "length out + m \<le> requested" using more by linarith
        have "requested - length ?out < requested - length out" "length ?out \<le> requested"
          unfolding len' using n(1) more le by linarith+
        note IH = less(1) [OF this, of nxt]
        have tot: "unat nxt + (requested - length ?out) = unat current + (requested - length out)"
          unfolding len' n(3) using le by linarith
        show ?thesis
        proof (intro conjI impI)
          assume fits: "unat current + (requested - length out) \<le> length (segs ! i)"
          have "slice (segs ! i) (unat current) (unat current + m) @
              slice (segs ! i) (unat nxt) (unat current + (requested - length out))
            = slice (segs ! i) (unat current) (unat current + (requested - length out))"
            unfolding n(3) by (rule slice_join) (use le in linarith)+
          with IH fits show "page_loop (uncached_page segs i) requested current out ()
            = (Inr (out @ slice (segs ! i) (unat current) (unat current + (requested - length out))), ())"
            unfolding step tot by simp
        next
          assume over: "length (segs ! i) < unat current + (requested - length out) \<and> length out < requested"
          have "length ?out < requested"
          proof (rule ccontr)
            assume "\<not> length ?out < requested"
            then have "unat current + (requested - length out) = unat nxt" using tot by simp
            with over n(2,3) show False by simp
          qed
          with IH over show "\<exists>m. page_loop (uncached_page segs i) requested current out () = (Inl (Malformed m), ())"
            unfolding step tot by blast
        qed
      qed
    qed
  qed
  then show "unat current + (requested - length out) \<le> length (segs ! i) \<Longrightarrow>
      page_loop (uncached_page segs i) requested current out ()
        = (Inr (out @ slice (segs ! i) (unat current) (unat current + (requested - length out))), ())"
    and "length (segs ! i) < unat current + (requested - length out) \<Longrightarrow> length out < requested \<Longrightarrow>
      \<exists>m. page_loop (uncached_page segs i) requested current out () = (Inl (Malformed m), ())"
    by auto
qed

text \<open>A table read inside a segment yields its bytes, one across its end fails.\<close>

lemma table_bytes_inside:
  assumes "i < length segs" "length (segs ! i) < 2 ^ 64" "unat off + unat n \<le> length (segs ! i)"
  shows "table_bytes d segs i off n = Inr (slice (segs ! i) (unat off) (unat off + unat n))"
  using assms read_segment_range_ok [OF assms] uncached_loop(1) [OF assms(1,2), of "[]" "unat n" off]
  by (simp add: table_bytes_def value_of_def)

lemma table_bytes_outside:
  assumes "i < length segs" "length (segs ! i) < 2 ^ 64" "length (segs ! i) < unat off + unat n" "0 < unat n"
  shows "\<exists>m. table_bytes d segs i off n = Inl (Malformed m)"
proof (cases d)
  case True
  have len: "unat (word_of_nat (length (segs ! i)) :: u64) = length (segs ! i)"
    using assms(2) by (simp add: unat_of_small_u64)
  with True assms show ?thesis
    by (auto simp: table_bytes_def read_segment_range_def bounded_size_def Let_def checked_simps
        word_less_nat_alt split: option.splits)
next
  case False
  with uncached_loop(2) [OF assms(1,2), of "[]" "unat n" off] assms show ?thesis
    by (auto simp: table_bytes_def value_of_def)
qed

end
