(* ===== verification/Image_Reader.thy ===== *)
theory Image_Reader
  imports Page_Cache
begin

text \<open>
  Reading media through an open image (\<open>src/image.rs\<close>): the chunk cache and the
  zero-on-error policy, decoding of one chunk, the byte range reader and the cursor.
  One thread reads at a time here; the map of chunks in flight is part of the state and
  a chunk another thread is decoding would be waited for. The lemmas reduce every read,
  cached or strict, to one pure function of the image.
\<close>

section \<open>The image\<close>

text \<open>
  The immutable part. A keystream stands for the encryption context of a segment: what
  \<open>EncryptionContext::apply_keystream\<close> does to a buffer at a stream offset.
\<close>

type_synonym keystream = "u64 \<Rightarrow> bytes \<Rightarrow> bytes result"

record image =
  im_format :: image_format
  im_format_profile :: format_profile
  im_logical_size :: u64
  im_chunk_size :: u64
  im_bytes_per_sector :: "u64 option"
  im_index :: lazy_chunk_index
  im_segments :: "bytes list"
  im_contexts :: "keystream option list"
  im_has_encryption_info :: bool

text \<open>The mutable part: caches, observed errors, the policy and the abort flag.\<close>

record ('p, 'c) image_state =
  is_page_cache :: "'p table_page_cache"
  is_chunk_cache :: 'c
  is_chunk_in_flight :: "u64 list"
  is_checksum_errors :: "sector_range list"
  is_zero_on_error :: bool
  is_aborted :: bool

text \<open>The crates the reader calls.\<close>

record ('p, 'c) env =
  en_decoders :: decoders
  en_page_lru :: "'p page_lru"
  en_chunk_lru :: "(u64, bytes, 'c) lru"

type_synonym ('p, 'c, 'a) image_op = "(('p, 'c) image_state, 'a) comp"

definition on_page_cache :: "('p table_page_cache, 'a) comp \<Rightarrow> ('p, 'c, 'a) image_op" where
  "on_page_cache m = (\<lambda>s. let (r, pc) = m (is_page_cache s) in (r, s\<lparr>is_page_cache := pc\<rparr>))"

definition ensure_not_aborted :: "('p, 'c, unit) image_op" where
  "ensure_not_aborted = (\<lambda>s. (if is_aborted s then Inl Aborted else Inr (), s))"

definition signal_abort :: "('p, 'c) image_state \<Rightarrow> ('p, 'c) image_state" where
  "signal_abort s = s\<lparr>is_aborted := True\<rparr>"

definition set_read_zero_chunk_on_error :: "bool \<Rightarrow> ('p, 'c) image_state \<Rightarrow> ('p, 'c) image_state" where
  "set_read_zero_chunk_on_error z s = s\<lparr>is_zero_on_error := z\<rparr>"

definition image_lookup_chunk :: "('p, 'c) env \<Rightarrow> image \<Rightarrow> u64 \<Rightarrow> ('p, 'c, chunk) image_op" where
  "image_lookup_chunk E img chunk_id =
     lookup_chunk (\<lambda>seg off n. on_page_cache (read_table_bytes_at (en_page_lru E) (im_segments img) seg off n))
       (im_index img) (im_logical_size img) (im_chunk_size img) chunk_id"

section \<open>Decoding one chunk\<close>

definition segment_context :: "image \<Rightarrow> nat \<Rightarrow> keystream option" where
  "segment_context img i = (if i < length (im_contexts img) then im_contexts img ! i else None)"

definition read_encoded_chunk_bytes :: "image \<Rightarrow> u64 \<Rightarrow> chunk \<Rightarrow> ('p, 'c, bytes) image_op" where
  "read_encoded_chunk_bytes img chunk_id ch =
     sbind ensure_not_aborted (\<lambda>_.
     if is_pattern_fill (ch_encoding ch) then lift (Inr [])
     else sbind (lift (read_segment_range (im_segments img) (ch_segment_index ch) (ch_offset ch)
              (ch_encoded_size ch) False)) (\<lambda>encoded.
       case segment_context img (ch_segment_index ch) of
         None \<Rightarrow> lift (Inr encoded)
       | Some apply_keystream \<Rightarrow>
           sbind (lift (ok_or (checked_mul chunk_id (im_chunk_size img))
             (Malformed ''encrypted chunk offset overflow''))) (\<lambda>stream_offset.
           lift (apply_keystream stream_offset encoded))))"

definition has_padded_tail :: "image \<Rightarrow> bool" where
  "has_padded_tail img \<longleftrightarrow> im_format img = FormatEwf1 \<and>
     im_format_profile img \<in> {LogicalEnCase5, LogicalEnCase6, LogicalEnCase7}"

definition image_decode_chunk ::
    "('p, 'c) env \<Rightarrow> image \<Rightarrow> u64 \<Rightarrow> chunk \<Rightarrow> ('p, 'c, bytes) image_op" where
  "image_decode_chunk E img chunk_id ch =
     sbind (read_encoded_chunk_bytes img chunk_id ch) (\<lambda>encoded.
     sbind (lift (if ch_validate_checksum ch
       then validate_raw_chunk_checksum encoded (ch_logical_size ch) else Inr ())) (\<lambda>_.
     let maximum_decoded_size =
       (if has_padded_tail img then unat (im_chunk_size img) else ch_logical_size ch) in
     lift (decode_chunk_with_padding (en_decoders E) encoded (ch_encoding ch)
       (ch_logical_size ch) maximum_decoded_size)))"

definition verification_chunk :: "('p, 'c) env \<Rightarrow> image \<Rightarrow> u64 \<Rightarrow> ('p, 'c, bytes) image_op" where
  "verification_chunk E img chunk_id =
     sbind ensure_not_aborted (\<lambda>_.
     sbind (image_lookup_chunk E img chunk_id) (\<lambda>ch. (\<lambda>s.
       case image_decode_chunk E img chunk_id ch s of
         (r, s') \<Rightarrow> (map_err (\<lambda>e. if is_malformed e \<and> im_has_encryption_info img
             then DecryptionValidationFailed else e) r, s'))))"

definition checksum_error_range :: "image \<Rightarrow> u64 \<Rightarrow> nat \<Rightarrow> sector_range result" where
  "checksum_error_range img chunk_id logical_size =
     try_bind (ok_or (checked_mul chunk_id (im_chunk_size img))
       (Malformed ''checksum error logical offset overflow'')) (\<lambda>logical_offset.
     let logical_size = (word_of_nat logical_size :: u64) in
     case im_bytes_per_sector img of
       Some bps \<Rightarrow>
         if bps \<noteq> 0
         then Inr \<lparr>sr_first_sector = logical_offset div bps,
                   sr_sector_count = max (word_of_nat ((unat logical_size + unat bps - 1) div unat bps)) 1\<rparr>
         else Inr \<lparr>sr_first_sector = logical_offset, sr_sector_count = max logical_size 1\<rparr>
     | None \<Rightarrow> Inr \<lparr>sr_first_sector = logical_offset, sr_sector_count = max logical_size 1\<rparr>)"

definition record_checksum_error :: "image \<Rightarrow> u64 \<Rightarrow> nat \<Rightarrow> ('p, 'c, unit) image_op" where
  "record_checksum_error img chunk_id logical_size =
     sbind (lift (checksum_error_range img chunk_id logical_size)) (\<lambda>range. (\<lambda>s.
       (Inr (), if range \<in> set (is_checksum_errors s) then s
                else s\<lparr>is_checksum_errors := is_checksum_errors s @ [range]\<rparr>)))"

definition decode_chunk_with_policy ::
    "('p, 'c) env \<Rightarrow> image \<Rightarrow> u64 \<Rightarrow> chunk \<Rightarrow> ('p, 'c, bytes \<times> bool) image_op" where
  "decode_chunk_with_policy E img chunk_id ch = (\<lambda>s.
     case image_decode_chunk E img chunk_id ch s of
       (Inr decoded, s') \<Rightarrow> (Inr (decoded, False), s')
     | (Inl e, s') \<Rightarrow>
         if is_malformed e \<and> segment_context img (ch_segment_index ch) \<noteq> None
         then (Inl DecryptionValidationFailed, s')
         else if is_malformed e \<and> is_zero_on_error s'
         then sbind (record_checksum_error img chunk_id (ch_logical_size ch))
                (\<lambda>_. lift (Inr (replicate (ch_logical_size ch) 0, True))) s'
         else (Inl e, s'))"

text \<open>Reading one chunk with its description, decoded or as it is stored.\<close>

datatype data_encoding = DataRaw | DataZlib | DataZstd | DataBzip2 | DataPatternFill u64

fun data_chunk_encoding :: "chunk_encoding \<Rightarrow> data_encoding" where
  "data_chunk_encoding EncRaw = DataRaw"
| "data_chunk_encoding EncZlib = DataZlib"
| "data_chunk_encoding EncZstd = DataZstd"
| "data_chunk_encoding EncBzip2 = DataBzip2"
| "data_chunk_encoding (EncPatternFill pattern) = DataPatternFill pattern"

record data_chunk =
  dc_chunk_index :: u64
  dc_logical_offset :: u64
  dc_logical_size :: nat
  dc_encoded_size :: u64
  dc_encoding :: data_encoding
  dc_corrupted :: bool
  dc_data :: bytes

record encoded_data_chunk =
  ec_chunk_index :: u64
  ec_logical_offset :: u64
  ec_logical_size :: nat
  ec_encoded_size :: u64
  ec_encoding :: data_encoding
  ec_has_checksum :: bool
  ec_data :: bytes

definition read_data_chunk :: "('p, 'c) env \<Rightarrow> image \<Rightarrow> u64 \<Rightarrow> ('p, 'c, data_chunk) image_op" where
  "read_data_chunk E img chunk_index =
     sbind ensure_not_aborted (\<lambda>_.
     sbind (image_lookup_chunk E img chunk_index) (\<lambda>ch.
     sbind (decode_chunk_with_policy E img chunk_index ch) (\<lambda>(data, corrupted).
     sbind (lift (ok_or (checked_mul chunk_index (im_chunk_size img))
       (Malformed ''data chunk logical offset overflow''))) (\<lambda>logical_offset.
     lift (Inr \<lparr>dc_chunk_index = chunk_index, dc_logical_offset = logical_offset,
       dc_logical_size = ch_logical_size ch, dc_encoded_size = ch_encoded_size ch,
       dc_encoding = data_chunk_encoding (ch_encoding ch), dc_corrupted = corrupted,
       dc_data = data\<rparr>)))))"

definition read_encoded_data_chunk ::
    "('p, 'c) env \<Rightarrow> image \<Rightarrow> u64 \<Rightarrow> ('p, 'c, encoded_data_chunk) image_op" where
  "read_encoded_data_chunk E img chunk_index =
     sbind ensure_not_aborted (\<lambda>_.
     sbind (image_lookup_chunk E img chunk_index) (\<lambda>ch.
     sbind (read_encoded_chunk_bytes img chunk_index ch) (\<lambda>data.
     sbind (lift (ok_or (checked_mul chunk_index (im_chunk_size img))
       (Malformed ''data chunk logical offset overflow''))) (\<lambda>logical_offset.
     lift (Inr \<lparr>ec_chunk_index = chunk_index, ec_logical_offset = logical_offset,
       ec_logical_size = ch_logical_size ch, ec_encoded_size = ch_encoded_size ch,
       ec_encoding = data_chunk_encoding (ch_encoding ch),
       ec_has_checksum = ch_validate_checksum ch, ec_data = data\<rparr>)))))"

section \<open>The chunk cache\<close>

text \<open>The decoding of a missing chunk, with the result put into the cache.\<close>

definition decode_and_cache :: "('p, 'c) env \<Rightarrow> image \<Rightarrow> u64 \<Rightarrow> ('p, 'c, bytes) image_op" where
  "decode_and_cache E img chunk_id =
     sbind (image_lookup_chunk E img chunk_id) (\<lambda>ch.
     sbind (decode_chunk_with_policy E img chunk_id ch) (\<lambda>(decoded, _). (\<lambda>s.
       (Inr decoded, s\<lparr>is_chunk_cache := lru_put (en_chunk_lru E) chunk_id decoded (is_chunk_cache s)\<rparr>))))"

definition read_chunk :: "('p, 'c) env \<Rightarrow> image \<Rightarrow> u64 \<Rightarrow> ('p, 'c, bytes) image_op" where
  "read_chunk E img chunk_id =
     sbind ensure_not_aborted (\<lambda>_. (\<lambda>s.
       let (cached, cc) = lru_get (en_chunk_lru E) chunk_id (is_chunk_cache s);
         s = s\<lparr>is_chunk_cache := cc\<rparr> in
       case cached of
         Some decoded \<Rightarrow> (Inr decoded, s)
       | None \<Rightarrow>
           if chunk_id \<in> set (is_chunk_in_flight s)
           then (Inl (Panic ''waits for the thread that decodes the chunk''), s)
           else let s = s\<lparr>is_chunk_in_flight := chunk_id # is_chunk_in_flight s\<rparr>;
               (decoded, s) = decode_and_cache E img chunk_id s
             in (decoded, s\<lparr>is_chunk_in_flight := removeAll chunk_id (is_chunk_in_flight s)\<rparr>)))"

section \<open>The pure counterparts\<close>

text \<open>
  The result of each step as a function of the image alone: \<open>d\<close> says whether the page
  cache is disabled, \<open>z\<close> whether damaged chunks read as zeroes.
\<close>

definition chunk_at :: "image \<Rightarrow> bool \<Rightarrow> u64 \<Rightarrow> chunk result" where
  "chunk_at img d chunk_id =
     value_of (lookup_chunk (pure_reader (table_bytes d (im_segments img)))
       (im_index img) (im_logical_size img) (im_chunk_size img) chunk_id)"

definition encoded_bytes :: "image \<Rightarrow> u64 \<Rightarrow> chunk \<Rightarrow> bytes result" where
  "encoded_bytes img chunk_id ch =
     (if is_pattern_fill (ch_encoding ch) then Inr []
      else try_bind (read_segment_range (im_segments img) (ch_segment_index ch) (ch_offset ch)
               (ch_encoded_size ch) False) (\<lambda>encoded.
        case segment_context img (ch_segment_index ch) of
          None \<Rightarrow> Inr encoded
        | Some apply_keystream \<Rightarrow>
            try_bind (ok_or (checked_mul chunk_id (im_chunk_size img))
              (Malformed ''encrypted chunk offset overflow'')) (\<lambda>stream_offset.
            apply_keystream stream_offset encoded)))"

definition decoded_bytes :: "decoders \<Rightarrow> image \<Rightarrow> u64 \<Rightarrow> chunk \<Rightarrow> bytes result" where
  "decoded_bytes D img chunk_id ch =
     try_bind (encoded_bytes img chunk_id ch) (\<lambda>encoded.
     try_bind (if ch_validate_checksum ch
       then validate_raw_chunk_checksum encoded (ch_logical_size ch) else Inr ()) (\<lambda>_.
     decode_chunk_with_padding D encoded (ch_encoding ch) (ch_logical_size ch)
       (if has_padded_tail img then unat (im_chunk_size img) else ch_logical_size ch)))"

definition strict_chunk :: "decoders \<Rightarrow> image \<Rightarrow> bool \<Rightarrow> u64 \<Rightarrow> bytes result" where
  "strict_chunk D img d chunk_id =
     try_bind (chunk_at img d chunk_id) (\<lambda>ch.
       map_err (\<lambda>e. if is_malformed e \<and> im_has_encryption_info img then DecryptionValidationFailed else e)
         (decoded_bytes D img chunk_id ch))"

definition policy_bytes :: "decoders \<Rightarrow> image \<Rightarrow> bool \<Rightarrow> u64 \<Rightarrow> chunk \<Rightarrow> (bytes \<times> bool) result" where
  "policy_bytes D img z chunk_id ch =
     (case decoded_bytes D img chunk_id ch of
        Inr decoded \<Rightarrow> Inr (decoded, False)
      | Inl e \<Rightarrow>
          if is_malformed e \<and> segment_context img (ch_segment_index ch) \<noteq> None
          then Inl DecryptionValidationFailed
          else if is_malformed e \<and> z
          then try_bind (checksum_error_range img chunk_id (ch_logical_size ch))
                 (\<lambda>_. Inr (replicate (ch_logical_size ch) 0, True))
          else Inl e)"

definition policy_chunk :: "decoders \<Rightarrow> image \<Rightarrow> bool \<Rightarrow> bool \<Rightarrow> u64 \<Rightarrow> bytes result" where
  "policy_chunk D img d z chunk_id =
     try_bind (chunk_at img d chunk_id) (\<lambda>ch.
     try_bind (policy_bytes D img z chunk_id ch) (\<lambda>(decoded, _). Inr decoded))"

text \<open>
  The invariant of the reading operations, with the parts they leave alone: the policy,
  the chunk cache and the chunks in flight.
\<close>

definition reading_inv ::
    "('p, 'c) env \<Rightarrow> image \<Rightarrow> ('p \<Rightarrow> (table_page_key \<times> bytes) list) \<Rightarrow> nat
      \<Rightarrow> bool \<Rightarrow> 'c \<Rightarrow> u64 list \<Rightarrow> ('p, 'c) image_state \<Rightarrow> bool" where
  "reading_inv E img pages cap z cc fl s \<longleftrightarrow>
     lru_lawful None (en_page_lru E) pages \<and>
     cache_inv pages (im_segments img) cap (is_page_cache s) \<and>
     \<not> is_aborted s \<and> is_zero_on_error s = z \<and> is_chunk_cache s = cc \<and> is_chunk_in_flight s = fl"

lemma on_page_cache_computes:
  "computes (reading_inv E img pages cap z cc fl)
     (on_page_cache (read_table_bytes_at (en_page_lru E) (im_segments img) i off n))
     (table_bytes (cap = 0) (im_segments img) i off n)"
  unfolding computes_def
proof (intro allI impI)
  fix s assume s: "reading_inv E img pages cap z cc fl s"
  then have "computes (cache_inv pages (im_segments img) cap)
      (read_table_bytes_at (en_page_lru E) (im_segments img) i off n)
      (table_bytes (cap = 0) (im_segments img) i off n)"
    by (intro read_table_bytes_computes) (simp add: reading_inv_def)
  with s show "fst (on_page_cache (read_table_bytes_at (en_page_lru E) (im_segments img) i off n) s)
      = table_bytes (cap = 0) (im_segments img) i off n \<and>
    reading_inv E img pages cap z cc fl
      (snd (on_page_cache (read_table_bytes_at (en_page_lru E) (im_segments img) i off n) s))"
    by (auto simp: computes_def on_page_cache_def reading_inv_def case_prod_beta)
qed

interpretation image_tables: table_reader
  "\<lambda>i off n. on_page_cache (read_table_bytes_at (en_page_lru E) (im_segments img) i off n)"
  "reading_inv E img pages cap z cc fl"
  "table_bytes (cap = 0) (im_segments img)"
  for E :: "('p, 'c) env" and img pages cap z cc fl
  by unfold_locales (rule on_page_cache_computes)

lemma image_lookup_computes:
  "computes (reading_inv E img pages cap z cc fl) (image_lookup_chunk E img i) (chunk_at img (cap = 0) i)"
  using image_tables.agrees_lookup_chunk [where E = E and img = img and pages = pages and cap = cap
      and z = z and cc = cc and fl = fl]
  by (simp add: agrees_def image_lookup_chunk_def chunk_at_def)

lemma not_aborted_computes:
  "computes (reading_inv E img pages cap z cc fl) ensure_not_aborted (Inr ())"
  by (simp add: computes_def ensure_not_aborted_def reading_inv_def)

lemma computes_after_Inr: "computes I m (Inr x) \<Longrightarrow> computes I (f x) r \<Longrightarrow> computes I (sbind m f) r"
  using computes_sbind [of I m "Inr x" f "\<lambda>_. r"] by simp

lemma read_encoded_computes:
  "computes (reading_inv E img pages cap z cc fl) (read_encoded_chunk_bytes img i ch)
     (encoded_bytes img i ch)"
  unfolding read_encoded_chunk_bytes_def encoded_bytes_def
  by (intro computes_after_Inr [OF not_aborted_computes] computes_intros computes_option)

lemma image_decode_computes:
  "computes (reading_inv E img pages cap z cc fl) (image_decode_chunk E img i ch)
     (decoded_bytes (en_decoders E) img i ch)"
  unfolding image_decode_chunk_def decoded_bytes_def Let_def
  by (intro computes_sbind read_encoded_computes computes_intros)

lemma verification_chunk_computes:
  "computes (reading_inv E img pages cap z cc fl) (verification_chunk E img i)
     (strict_chunk (en_decoders E) img (cap = 0) i)"
  unfolding verification_chunk_def strict_chunk_def
proof (intro computes_after_Inr [OF not_aborted_computes] computes_sbind image_lookup_computes)
  fix ch
  show "computes (reading_inv E img pages cap z cc fl)
     (\<lambda>s. case image_decode_chunk E img i ch s of (r, s') \<Rightarrow>
        (map_err (\<lambda>e. if is_malformed e \<and> im_has_encryption_info img then DecryptionValidationFailed else e) r, s'))
     (map_err (\<lambda>e. if is_malformed e \<and> im_has_encryption_info img then DecryptionValidationFailed else e)
       (decoded_bytes (en_decoders E) img i ch))"
    using image_decode_computes [of E img pages cap z cc fl i ch]
    by (auto simp: computes_def case_prod_beta)
qed

lemma record_checksum_error_computes:
  "computes (reading_inv E img pages cap z cc fl) (record_checksum_error img i n)
     (try_bind (checksum_error_range img i n) (\<lambda>_. Inr ()))"
  unfolding record_checksum_error_def
  by (intro computes_sbind computes_lift) (simp add: computes_def reading_inv_def)

lemma try_bind_unit: "try_bind (try_bind r (\<lambda>_. Inr ())) (\<lambda>_. x) = try_bind r (\<lambda>_. x)"
  by (cases r) simp_all

lemma decode_policy_computes:
  "computes (reading_inv E img pages cap z cc fl) (decode_chunk_with_policy E img i ch)
     (policy_bytes (en_decoders E) img z i ch)"
  unfolding computes_def
proof (intro allI impI)
  fix s assume s: "reading_inv E img pages cap z cc fl s"
  obtain r s' where run: "image_decode_chunk E img i ch s = (r, s')"
    by (cases "image_decode_chunk E img i ch s")
  with image_decode_computes [of E img pages cap z cc fl i ch] s
  have r: "decoded_bytes (en_decoders E) img i ch = r" and s': "reading_inv E img pages cap z cc fl s'"
    unfolding computes_def by (metis fst_conv, metis snd_conv)
  have zz: "is_zero_on_error s' = z" using s' by (simp add: reading_inv_def)
  have "computes (reading_inv E img pages cap z cc fl)
      (sbind (record_checksum_error img i (ch_logical_size ch))
        (\<lambda>_. lift (Inr (replicate (ch_logical_size ch) 0, True))))
      (try_bind (checksum_error_range img i (ch_logical_size ch))
        (\<lambda>_. Inr (replicate (ch_logical_size ch) 0, True)))"
    by (subst try_bind_unit [symmetric]) (intro computes_sbind record_checksum_error_computes computes_lift)
  note zero = computes_fst [OF this s'] computes_inv [OF this s']
  show "fst (decode_chunk_with_policy E img i ch s) = policy_bytes (en_decoders E) img z i ch \<and>
    reading_inv E img pages cap z cc fl (snd (decode_chunk_with_policy E img i ch s))"
    using s' zero zz by (cases r) (auto simp: decode_chunk_with_policy_def policy_bytes_def run r)
qed

text \<open>The chunk with its description never touches the chunk cache.\<close>

definition pure_data_chunk :: "decoders \<Rightarrow> image \<Rightarrow> bool \<Rightarrow> bool \<Rightarrow> u64 \<Rightarrow> data_chunk result" where
  "pure_data_chunk D img d z chunk_index =
     try_bind (chunk_at img d chunk_index) (\<lambda>ch.
     try_bind (policy_bytes D img z chunk_index ch) (\<lambda>(data, corrupted).
     try_bind (ok_or (checked_mul chunk_index (im_chunk_size img))
       (Malformed ''data chunk logical offset overflow'')) (\<lambda>logical_offset.
     Inr \<lparr>dc_chunk_index = chunk_index, dc_logical_offset = logical_offset,
       dc_logical_size = ch_logical_size ch, dc_encoded_size = ch_encoded_size ch,
       dc_encoding = data_chunk_encoding (ch_encoding ch), dc_corrupted = corrupted,
       dc_data = data\<rparr>)))"

lemma read_data_chunk_computes:
  "computes (reading_inv E img pages cap z cc fl) (read_data_chunk E img i)
     (pure_data_chunk (en_decoders E) img (cap = 0) z i)"
  unfolding read_data_chunk_def pure_data_chunk_def
  by (intro computes_after_Inr [OF not_aborted_computes] computes_sbind image_lookup_computes
      decode_policy_computes) (simp add: case_prod_beta computes_intros)

text \<open>
  A coherent chunk cache holds what decoding yields under the policy. Then a cached read
  of a chunk is the pure function, and leaves the cache coherent.
\<close>

definition image_inv ::
    "('p, 'c) env \<Rightarrow> image \<Rightarrow> ('p \<Rightarrow> (table_page_key \<times> bytes) list)
      \<Rightarrow> ('c \<Rightarrow> (u64 \<times> bytes) list) \<Rightarrow> nat \<Rightarrow> nat \<Rightarrow> bool \<Rightarrow> ('p, 'c) image_state \<Rightarrow> bool" where
  "image_inv E img pages chunks cap n z s \<longleftrightarrow>
     reading_inv E img pages cap z (is_chunk_cache s) [] s \<and>
     lru_lawful (Some n) (en_chunk_lru E) chunks \<and>
     (\<forall>i d. map_of (chunks (is_chunk_cache s)) i = Some d \<longrightarrow>
        policy_chunk (en_decoders E) img (cap = 0) z i = Inr d)"

lemma map_of_take_prefix: "map_of (take n es) j = Some d \<Longrightarrow> map_of es j = Some d"
  by (induction es arbitrary: n) (auto simp: take_Cons split: nat.splits if_splits)

lemma map_of_bounded_put:
  "map_of (bounded cap ((k, v) # drop_key k es)) j = Some d \<Longrightarrow> j = k \<and> d = v \<or> map_of es j = Some d"
proof -
  assume "map_of (bounded cap ((k, v) # drop_key k es)) j = Some d"
  then have "map_of ((k, v) # drop_key k es) j = Some d"
    by (auto simp: bounded_def split: option.splits dest: map_of_take_prefix)
  then show ?thesis by (auto simp: map_of_drop_key split: if_splits)
qed

lemma decode_and_cache_ok:
  assumes s: "reading_inv E img pages cap z cc fl s"
  shows "fst (decode_and_cache E img i s) = policy_chunk (en_decoders E) img (cap = 0) z i"
    and "\<exists>cc'. reading_inv E img pages cap z cc' fl (snd (decode_and_cache E img i s)) \<and>
      (cc' = cc \<or> (\<exists>d. policy_chunk (en_decoders E) img (cap = 0) z i = Inr d \<and>
        cc' = lru_put (en_chunk_lru E) i d cc))"
proof -
  let ?decode = "sbind (image_lookup_chunk E img i) (decode_chunk_with_policy E img i)"
  let ?put = "\<lambda>(decoded, _ :: bool). (\<lambda>s. (Inr decoded,
    s\<lparr>is_chunk_cache := lru_put (en_chunk_lru E) i decoded (is_chunk_cache s)\<rparr>))"
  have split: "decode_and_cache E img i = sbind ?decode ?put"
    unfolding decode_and_cache_def by (simp add: sbind_assoc)
  have dec: "computes (reading_inv E img pages cap z cc fl) ?decode
      (try_bind (chunk_at img (cap = 0) i) (policy_bytes (en_decoders E) img z i))"
    by (intro computes_sbind image_lookup_computes decode_policy_computes)
  have pol: "policy_chunk (en_decoders E) img (cap = 0) z i
      = try_bind (try_bind (chunk_at img (cap = 0) i) (policy_bytes (en_decoders E) img z i))
          (\<lambda>(decoded, _). Inr decoded)"
    by (cases "chunk_at img (cap = 0) i") (simp_all add: policy_chunk_def)
  obtain r t where run: "?decode s = (r, t)" by (cases "?decode s")
  have r: "r = try_bind (chunk_at img (cap = 0) i) (policy_bytes (en_decoders E) img z i)"
    and t: "reading_inv E img pages cap z cc fl t"
    using computes_fst [OF dec s] computes_inv [OF dec s] by (simp_all add: run)
  have "fst (decode_and_cache E img i s) = policy_chunk (en_decoders E) img (cap = 0) z i \<and>
    (\<exists>cc'. reading_inv E img pages cap z cc' fl (snd (decode_and_cache E img i s)) \<and>
      (cc' = cc \<or> (\<exists>d. policy_chunk (en_decoders E) img (cap = 0) z i = Inr d \<and>
        cc' = lru_put (en_chunk_lru E) i d cc)))"
  proof (cases r)
    case (Inl e)
    with run have "decode_and_cache E img i s = (Inl e, t)"
      unfolding split sbind_def [of ?decode] by simp
    moreover have "policy_chunk (en_decoders E) img (cap = 0) z i = Inl e"
      unfolding pol r [symmetric] Inl by simp
    ultimately show ?thesis using t by auto
  next
    case (Inr db)
    obtain d b where db: "db = (d, b)" by (cases db)
    with run Inr have "decode_and_cache E img i s
        = (Inr d, t\<lparr>is_chunk_cache := lru_put (en_chunk_lru E) i d (is_chunk_cache t)\<rparr>)"
      unfolding split sbind_def [of ?decode] by simp
    moreover have "policy_chunk (en_decoders E) img (cap = 0) z i = Inr d"
      unfolding pol r [symmetric] Inr db by simp
    moreover have "is_chunk_cache t = cc" using t by (simp add: reading_inv_def)
    moreover have "reading_inv E img pages cap z (lru_put (en_chunk_lru E) i d cc) fl
        (t\<lparr>is_chunk_cache := lru_put (en_chunk_lru E) i d cc\<rparr>)"
      using t by (simp add: reading_inv_def)
    ultimately show ?thesis by auto
  qed
  then show "fst (decode_and_cache E img i s) = policy_chunk (en_decoders E) img (cap = 0) z i"
    and "\<exists>cc'. reading_inv E img pages cap z cc' fl (snd (decode_and_cache E img i s)) \<and>
      (cc' = cc \<or> (\<exists>d. policy_chunk (en_decoders E) img (cap = 0) z i = Inr d \<and>
        cc' = lru_put (en_chunk_lru E) i d cc))"
    by auto
qed

lemma read_chunk_computes:
  "computes (image_inv E img pages chunks cap n z) (read_chunk E img i)
     (policy_chunk (en_decoders E) img (cap = 0) z i)"
  unfolding computes_def
proof (intro allI impI)
  fix s assume s: "image_inv E img pages chunks cap n z s"
  then have rinv: "reading_inv E img pages cap z (is_chunk_cache s) [] s"
    and law: "lru_lawful (Some n) (en_chunk_lru E) chunks"
    and coh: "\<And>i d. map_of (chunks (is_chunk_cache s)) i = Some d \<Longrightarrow>
      policy_chunk (en_decoders E) img (cap = 0) z i = Inr d"
    by (simp_all add: image_inv_def)
  have na: "\<not> is_aborted s" and fl: "is_chunk_in_flight s = []" using rinv by (simp_all add: reading_inv_def)
  obtain c cc where get: "lru_get (en_chunk_lru E) i (is_chunk_cache s) = (c, cc)"
    by (cases "lru_get (en_chunk_lru E) i (is_chunk_cache s)")
  then have c: "c = map_of (chunks (is_chunk_cache s)) i"
    and cc: "map_of (chunks cc) = map_of (chunks (is_chunk_cache s))"
    using law unfolding lru_lawful_def by (metis fst_conv, metis snd_conv map_of_touch)
  let ?s = "s\<lparr>is_chunk_cache := cc\<rparr>"
  have sinv: "reading_inv E img pages cap z cc fl (?s\<lparr>is_chunk_in_flight := fl\<rparr>)" for fl
    using rinv by (simp add: reading_inv_def)
  show "fst (read_chunk E img i s) = policy_chunk (en_decoders E) img (cap = 0) z i \<and>
    image_inv E img pages chunks cap n z (snd (read_chunk E img i s))"
  proof (cases c)
    case (Some d)
    have "read_chunk E img i s = (Inr d, ?s)"
      using na get Some by (simp add: read_chunk_def ensure_not_aborted_def sbind_def)
    moreover have "policy_chunk (en_decoders E) img (cap = 0) z i = Inr d" using c Some coh by simp
    moreover have "image_inv E img pages chunks cap n z ?s"
      using rinv law coh fl by (simp add: image_inv_def reading_inv_def cc)
    ultimately show ?thesis by simp
  next
    case None
    let ?t = "?s\<lparr>is_chunk_in_flight := [i]\<rparr>"
    obtain r u where run: "decode_and_cache E img i ?t = (r, u)" by (cases "decode_and_cache E img i ?t")
    have read: "read_chunk E img i s = (r, u\<lparr>is_chunk_in_flight := removeAll i (is_chunk_in_flight u)\<rparr>)"
      using na get None fl run by (simp add: read_chunk_def ensure_not_aborted_def sbind_def Let_def)
    note dac = decode_and_cache_ok [OF sinv [of "[i]"], of i, unfolded run fst_conv snd_conv]
    then obtain cc' where u: "reading_inv E img pages cap z cc' [i] u"
      and cc': "cc' = cc \<or> (\<exists>d. policy_chunk (en_decoders E) img (cap = 0) z i = Inr d \<and>
        cc' = lru_put (en_chunk_lru E) i d cc)" by blast
    have coh': "policy_chunk (en_decoders E) img (cap = 0) z j = Inr d"
      if j: "map_of (chunks cc') j = Some d" for j d
    proof (cases "cc' = cc")
      case True
      with j cc coh show ?thesis by simp
    next
      case False
      with cc' obtain d' where d': "policy_chunk (en_decoders E) img (cap = 0) z i = Inr d'"
        "cc' = lru_put (en_chunk_lru E) i d' cc" by blast
      then have "chunks cc' = bounded (Some n) ((i, d') # drop_key i (chunks cc))"
        using law by (simp add: lru_lawful_def)
      with j map_of_bounded_put [of "Some n" i d' "chunks cc" j d] d'(1) cc coh show ?thesis by auto
    qed
    have "image_inv E img pages chunks cap n z (u\<lparr>is_chunk_in_flight := removeAll i (is_chunk_in_flight u)\<rparr>)"
      using u law coh' by (simp add: image_inv_def reading_inv_def)
    with dac(1) read show ?thesis by simp
  qed
qed

end
