(* ===== verification/Chunk_Writer.thy ===== *)
theory Chunk_Writer
  imports Ewf1_Writer Image_Reader
begin

text \<open>
  Encoding of chunks (\<open>encode_chunk\<close> and its helpers in \<open>src/writer.rs\<close>). The
  compressors are the crates flate2 and bzip2: a record of functions whose documented
  behaviour, that the reader's decompressor restores the input and that the output is
  bounded, is \<open>compressors_lawful\<close>. The lemmas: whatever encoding is chosen, the reader's
  decoder restores the chunk, and the size stays inside the reader's limits.
\<close>

section \<open>Compressors\<close>

record compressors =
  co_zlib :: "compression_level \<Rightarrow> bytes \<Rightarrow> bytes"
  co_bzip2 :: "compression_level \<Rightarrow> bytes \<Rightarrow> bytes"

definition compressors_lawful :: "compressors \<Rightarrow> decoders \<Rightarrow> bool" where
  "compressors_lawful C D \<longleftrightarrow>
     (\<forall>l x. dec_zlib D (co_zlib C l x) = (x, None) \<and>
        0 < length (co_zlib C l x) \<and> length (co_zlib C l x) \<le> zlib_cap (length x)) \<and>
     (\<forall>l x. dec_bzip2 D (co_bzip2 C l x) = (x, None) \<and>
        0 < length (co_bzip2 C l x) \<and> length (co_bzip2 C l x) \<le> length x + length x div 100 + 600)"

definition zlib_compression :: "compression_level \<Rightarrow> compression_level" where
  "zlib_compression level = level"

definition empty_block_zlib_compression :: "compression_level \<Rightarrow> compression_level" where
  "empty_block_zlib_compression level =
     (case level of LevelNone \<Rightarrow> LevelDefault | _ \<Rightarrow> zlib_compression level)"

definition bzip2_compression :: "compression_level \<Rightarrow> compression_level result" where
  "bzip2_compression level =
     (case level of
        LevelNone \<Rightarrow> Inl (Unsupported ''BZip2 writer compression does not support none compression level'')
      | _ \<Rightarrow> Inr level)"

section \<open>Encoding one chunk\<close>

record encoded_chunk =
  en_bytes :: bytes
  en_compressed :: bool
  en_has_checksum :: bool
  en_pattern_fill :: "u64 option"

definition is_full_zero_chunk :: "bytes \<Rightarrow> u64 \<Rightarrow> bool" where
  "is_full_zero_chunk chunk chunk_size \<longleftrightarrow>
     length chunk = unat chunk_size \<and> list_all (\<lambda>b. b = 0) chunk"

definition repeated_ewf2_pattern :: "bytes \<Rightarrow> u64 option" where
  "repeated_ewf2_pattern chunk =
     (if chunk = [] then None
      else let seed_size = min (length chunk) 8;
          pat = splice (replicate 8 0) 0 (take seed_size chunk) in
        if list_all (\<lambda>(i, b). b = pat ! (i mod 8)) (enumerate 0 chunk)
        then Some (from_le pat) else None)"

definition encode_uncompressed :: "bytes \<Rightarrow> encoded_chunk" where
  "encode_uncompressed chunk =
     \<lparr>en_bytes = chunk @ le32 (writer_adler32 chunk), en_compressed = False,
      en_has_checksum = True, en_pattern_fill = None\<rparr>"

definition encode_chunk ::
    "compressors \<Rightarrow> bytes \<Rightarrow> write_compression \<Rightarrow> compression_level \<Rightarrow> u64 \<Rightarrow> bool \<Rightarrow> bool
      \<Rightarrow> encoded_chunk result" where
  "encode_chunk C chunk compression level chunk_size allow_pattern_fill allow_empty_block_compression =
     (case (if allow_pattern_fill then repeated_ewf2_pattern chunk else None) of
        Some pat \<Rightarrow> Inr \<lparr>en_bytes = [], en_compressed = True, en_has_checksum = False,
          en_pattern_fill = Some pat\<rparr>
      | None \<Rightarrow>
          if allow_empty_block_compression \<and> is_full_zero_chunk chunk chunk_size
          then Inr \<lparr>en_bytes = co_zlib C (empty_block_zlib_compression level) chunk,
            en_compressed = True, en_has_checksum = False, en_pattern_fill = None\<rparr>
          else case compression of
            WriteNone \<Rightarrow> Inr (encode_uncompressed chunk)
          | WriteZlib \<Rightarrow>
              let bytes = co_zlib C (zlib_compression level) chunk in
              if length chunk \<le> length bytes then Inr (encode_uncompressed chunk)
              else Inr \<lparr>en_bytes = bytes, en_compressed = True, en_has_checksum = False,
                en_pattern_fill = None\<rparr>
          | WriteBzip2 \<Rightarrow>
              try_bind (bzip2_compression level) (\<lambda>level.
                Inr \<lparr>en_bytes = co_bzip2 C level chunk, en_compressed = True,
                  en_has_checksum = False, en_pattern_fill = None\<rparr>))"

text \<open>\<open>encode_chunks\<close> yields the chunks in order, whether or not it runs in parallel.\<close>

definition encode_chunks ::
    "compressors \<Rightarrow> bytes list \<Rightarrow> write_compression \<Rightarrow> compression_level \<Rightarrow> u64 \<Rightarrow> bool \<Rightarrow> bool
      \<Rightarrow> encoded_chunk list result" where
  "encode_chunks C chunks compression level chunk_size allow_pattern_fill allow_empty_block_compression =
     collect_results (\<lambda>chunk. encode_chunk C chunk compression level chunk_size allow_pattern_fill
       allow_empty_block_compression) chunks"

section \<open>Patterns\<close>

text \<open>A pattern that is found fills a chunk of the same length with the same bytes.\<close>

lemma to_le_from_le:
  "8 * length bs \<le> LENGTH('a::len) \<Longrightarrow> to_le (length bs) (from_le bs :: 'a word) = bs"
proof (induction bs)
  case (Cons b bs)
  let ?w = "from_le (b # bs) :: 'a word"
  have u: "unat ?w = unat b + 256 * le_nat bs" "unat (from_le bs :: 'a word) = le_nat bs"
    using Cons.prems unat_from_le [of "b # bs", where ?'a = 'a] unat_from_le [of bs, where ?'a = 'a]
    by simp_all
  have "unat (ucast ?w :: u8) = unat b"
    using unat_8_less [of b] by (simp only: unsigned_ucast_eq u) (simp add: take_bit_eq_mod)
  then have "ucast ?w = b" by (simp add: word_unat_eq_iff)
  moreover have "unat (drop_bit 8 ?w) = unat (from_le bs :: 'a word)"
    using unat_8_less [of b] unfolding unat_drop_bit_eq u by (simp add: drop_bit_eq_div)
  then have "drop_bit 8 ?w = from_le bs" by (simp add: word_unat_eq_iff)
  ultimately show ?case using Cons by simp
qed simp

lemma le64_from_le: "length pat = 8 \<Longrightarrow> le64 (from_le pat) = pat"
  using to_le_from_le [of pat, where ?'a = 64] by simp

lemma repeated_ewf2_pattern_fill:
  assumes "repeated_ewf2_pattern chunk = Some pat"
  shows "pattern_fill pat (length chunk) = chunk"
proof (rule nth_equalityI)
  let ?pat = "splice (replicate 8 0) 0 (take (min (length chunk) 8) chunk)"
  have len: "length ?pat = 8" by simp
  have pat: "pat = from_le ?pat" and all: "list_all (\<lambda>(i, b). b = ?pat ! (i mod 8)) (enumerate 0 chunk)"
    using assms by (auto simp: repeated_ewf2_pattern_def Let_def split: if_splits)
  show "length (pattern_fill pat (length chunk)) = length chunk" by simp
  fix i assume "i < length (pattern_fill pat (length chunk))"
  then have i: "i < length chunk" by simp
  then have "chunk ! i = ?pat ! (i mod 8)"
    using all by (auto simp: list_all_length nth_enumerate_eq)
  moreover have "pattern_fill pat (length chunk) ! i = ?pat ! (i mod 8)"
    by (simp add: nth_pattern_fill [OF i] pat le64_from_le [OF len])
  ultimately show "pattern_fill pat (length chunk) ! i = chunk ! i" by simp
qed

section \<open>Encoding is undone by the reader's decoder\<close>

text \<open>
  The encoding the reader derives from what the table records of a chunk: \<open>method\<close> is
  the compression of the image's compressed chunks.
\<close>

definition stored_encoding :: "chunk_encoding \<Rightarrow> encoded_chunk \<Rightarrow> chunk_encoding" where
  "stored_encoding method e =
     (case en_pattern_fill e of
        Some pat \<Rightarrow> EncPatternFill pat
      | None \<Rightarrow> if en_compressed e then method else EncRaw)"

definition method_of :: "write_compression \<Rightarrow> chunk_encoding" where
  "method_of compression = (case compression of WriteBzip2 \<Rightarrow> EncBzip2 | _ \<Rightarrow> EncZlib)"

text \<open>
  The stored form of a chunk \<open>data\<close>: it decodes to it, fits the reader's limit, and a
  recorded checksum is the right one.
\<close>

definition stores :: "decoders \<Rightarrow> chunk_encoding \<Rightarrow> u64 \<Rightarrow> encoded_chunk \<Rightarrow> bytes \<Rightarrow> bool" where
  "stores D method chunk_size e data \<longleftrightarrow>
     decode_chunk D (en_bytes e) (stored_encoding method e) (length data) = Inr data \<and>
     (en_pattern_fill e = None \<longrightarrow> 0 < length (en_bytes e) \<and>
        length (en_bytes e) \<le> cap_nat (stored_encoding method e) (unat chunk_size)) \<and>
     (en_pattern_fill e \<noteq> None \<longrightarrow> en_bytes e = []) \<and>
     (en_has_checksum e \<longrightarrow> stored_encoding method e = EncRaw \<and>
        validate_raw_chunk_checksum (en_bytes e) (length data) = Inr ())"

lemma zlib_cap_mono: "a \<le> b \<Longrightarrow> zlib_cap a \<le> zlib_cap b"
  unfolding zlib_cap_def by (intro max.mono add_mono mult_le_mono div_le_mono order_refl) simp_all

lemma decode_chunk_pattern: "decode_chunk D bs (EncPatternFill p) n = Inr (pattern_fill p n)"
  by (simp add: decode_chunk_def decode_chunk_with_padding_def)

lemma decode_chunk_clean:
  assumes "length x + 1 < 2 ^ 64"
  shows "dec_zlib D bs = (x, None) \<Longrightarrow> decode_chunk D bs EncZlib (length x) = Inr x"
    and "dec_bzip2 D bs = (x, None) \<Longrightarrow> decode_chunk D bs EncBzip2 (length x) = Inr x"
  using decode_compressed_clean [of "length x" x "length x"] assms
  by (simp_all add: decode_chunk_def decode_chunk_with_padding_def)

lemma encode_uncompressed_stores:
  assumes "length data \<le> unat chunk_size"
  shows "stores D method chunk_size (encode_uncompressed data) data"
  using assms
  by (simp add: stores_def stored_encoding_def encode_uncompressed_def decode_chunk_def
      decode_chunk_with_padding_def cap_nat_def validate_raw_chunk_checksum_ok_iff slice_append_right
      slice_def)

lemma encode_chunk_stores:
  assumes law: "compressors_lawful C D"
    and enc: "encode_chunk C data compression level chunk_size pf eb = Inr e"
    and size: "length data \<le> unat chunk_size" "length data + 1 < 2 ^ 64"
    and eb: "eb \<Longrightarrow> compression \<noteq> WriteBzip2"
  shows "stores D (method_of compression) chunk_size e data"
proof (cases "if pf then repeated_ewf2_pattern data else None")
  case (Some pat)
  then have "repeated_ewf2_pattern data = Some pat" by (simp split: if_splits)
  then show ?thesis
    using enc Some by (auto simp: encode_chunk_def stores_def stored_encoding_def decode_chunk_pattern
        repeated_ewf2_pattern_fill split: if_splits)
next
  case None
  have z: "stores D EncZlib chunk_size \<lparr>en_bytes = co_zlib C l data, en_compressed = True,
      en_has_checksum = False, en_pattern_fill = None\<rparr> data" for l
  proof -
    have "length (co_zlib C l data) \<le> zlib_cap (length data)"
      using law by (simp add: compressors_lawful_def)
    also have "\<dots> \<le> zlib_cap (unat chunk_size)" by (rule zlib_cap_mono [OF size(1)])
    finally show ?thesis
      using law size
      by (auto simp: stores_def stored_encoding_def compressors_lawful_def cap_nat_def
          intro!: decode_chunk_clean(1))
  qed
  have b: "stores D EncBzip2 chunk_size \<lparr>en_bytes = co_bzip2 C l data, en_compressed = True,
      en_has_checksum = False, en_pattern_fill = None\<rparr> data" for l
  proof -
    have "length (co_bzip2 C l data) \<le> length data + length data div 100 + 600"
      using law by (simp add: compressors_lawful_def)
    then have "length (co_bzip2 C l data) \<le> unat chunk_size + unat chunk_size div 100 + 4096"
      using size(1) div_le_mono [OF size(1), of 100] by linarith
    then show ?thesis
      using law size
      by (auto simp: stores_def stored_encoding_def compressors_lawful_def cap_nat_def
          intro!: decode_chunk_clean(2))
  qed
  show ?thesis
  proof (cases "eb \<and> is_full_zero_chunk data chunk_size")
    case True
    with eb have "method_of compression = EncZlib" by (cases compression) (simp_all add: method_of_def)
    with enc None True z show ?thesis by (auto simp: encode_chunk_def)
  next
    case False
    with enc None z b encode_uncompressed_stores [OF size(1)] show ?thesis
      by (cases compression) (auto simp: encode_chunk_def method_of_def Let_def try_bind_Inr_iff split: if_splits)
  qed
qed

end
