(* ===== verification/Media_Reader.thy ===== *)
theory Media_Reader
  imports Image_Reader
begin

text \<open>
  Byte-range reads of the media (\<open>read_at_impl\<close> in \<open>src/image.rs\<close>), the media
  cursor and the reader of logical single files. The loop over chunks relies on a reader
  of chunks with one result per chunk, the interface \<open>chunk_reader\<close>; it is interpreted
  on the cached and on the strict reader of an image.
\<close>

section \<open>The loop over chunks\<close>

function media_loop ::
    "('s, unit) comp \<Rightarrow> (u64 \<Rightarrow> ('s, bytes) comp) \<Rightarrow> u64 \<Rightarrow> nat \<Rightarrow> u64 \<Rightarrow> bytes \<Rightarrow> ('s, bytes) comp" where
  "media_loop check chunk_of chunk_size to_read current copied s =
     (if to_read \<le> length copied then (Inr copied, s)
      else case check s of
        (Inl e, s') \<Rightarrow> (Inl e, s')
      | (Inr u, s') \<Rightarrow>
          (case chunk_of (current div chunk_size) s' of
             (Inl e, s'') \<Rightarrow> (Inl e, s'')
           | (Inr decoded, s'') \<Rightarrow>
               let page_offset = unat (current mod chunk_size);
                 n = min (to_read - length copied) (length decoded - page_offset) in
               if n = 0 then (Inr copied, s'')
               else media_loop check chunk_of chunk_size to_read (current + word_of_nat n)
                      (copied @ slice decoded page_offset (page_offset + n)) s''))"
  by pat_completeness auto
termination
  by (relation "measure (\<lambda>(check, chunk_of, chunk_size, to_read, current, copied, s). to_read - length copied)")
    auto

declare media_loop.simps [simp del]

text \<open>
  \<open>read_at_impl\<close>: the bytes copied to the front of a buffer of length \<open>len\<close>; their
  number is the returned count, and the rest of the buffer is left alone.
\<close>

definition read_at_impl :: "('p, 'c) env \<Rightarrow> image \<Rightarrow> nat \<Rightarrow> u64 \<Rightarrow> bool \<Rightarrow> ('p, 'c, bytes) image_op" where
  "read_at_impl E img len offset strict =
     sbind ensure_not_aborted (\<lambda>_.
     if len = 0 \<or> im_logical_size img \<le> offset then lift (Inr [])
     else if im_chunk_size img = 0 then lift (Inl (Malformed ''chunk size is zero''))
     else let available = im_logical_size img - offset;
         to_read = min available (word_of_nat len) in
       media_loop ensure_not_aborted
         (\<lambda>i. if strict then verification_chunk E img i else read_chunk E img i)
         (im_chunk_size img) (unat to_read) offset [])"

definition read_at :: "('p, 'c) env \<Rightarrow> image \<Rightarrow> nat \<Rightarrow> u64 \<Rightarrow> ('p, 'c, bytes) image_op" where
  "read_at E img len offset = read_at_impl E img len offset False"

section \<open>The interface of a reader of chunks\<close>

locale chunk_reader =
  fixes check :: "('s, unit) comp"
    and chunk_of :: "u64 \<Rightarrow> ('s, bytes) comp"
    and inv :: "'s \<Rightarrow> bool"
    and data :: "u64 \<Rightarrow> bytes result"
  assumes check_computes: "computes inv check (Inr ())"
    and chunk_computes: "computes inv (chunk_of i) (data i)"
begin

lemma loop_computes:
  "computes inv (media_loop check chunk_of cs n cur out)
     (value_of (media_loop (lift (Inr ())) (\<lambda>i. lift (data i)) cs n cur out))"
  unfolding computes_def value_of_def
proof (intro allI impI)
  fix s assume "inv s"
  then show "fst (media_loop check chunk_of cs n cur out s)
      = fst (media_loop (lift (Inr ())) (\<lambda>i. lift (data i)) cs n cur out ()) \<and>
    inv (snd (media_loop check chunk_of cs n cur out s))"
  proof (induction "n - length out" arbitrary: cur out s rule: less_induct)
    case less
    show ?case
    proof (cases "n \<le> length out")
      case True
      with less(2) show ?thesis by (simp add: media_loop.simps)
    next
      case False
      obtain u s' where u: "check s = (u, s')" by (cases "check s")
      with check_computes less(2) have u': "u = Inr ()" and s': "inv s'"
        unfolding computes_def by (metis fst_conv, metis snd_conv)
      obtain q t where q: "chunk_of (cur div cs) s' = (q, t)" by (cases "chunk_of (cur div cs) s'")
      with chunk_computes [of "cur div cs"] s' have d: "data (cur div cs) = q" and t: "inv t"
        unfolding computes_def by (metis fst_conv, metis snd_conv)
      show ?thesis
      proof (cases q)
        case (Inl e)
        with False u u' q d t show ?thesis by (subst (1 2 3) media_loop.simps) simp
      next
        case (Inr dec)
        define k where "k = min (n - length out) (length dec - unat (cur mod cs))"
        show ?thesis
        proof (cases "k = 0")
          case True
          with False u u' q d t Inr show ?thesis
            by (subst (1 2 3) media_loop.simps) (simp add: Let_def k_def [symmetric])
        next
          case m: False
          then have "n - length (out @ slice dec (unat (cur mod cs)) (unat (cur mod cs) + k)) < n - length out"
            by (auto simp: k_def)
          from less(1) [OF this t] False u u' q d Inr m show ?thesis
            by (subst (1 2 3) media_loop.simps) (simp add: Let_def k_def [symmetric])
        qed
      qed
    qed
  qed
qed

end

section \<open>Media\<close>

text \<open>
  A chunk function holds the media \<open>m\<close> when each chunk that starts inside it is the
  slice of its place.
\<close>

definition holds_media :: "(u64 \<Rightarrow> bytes result) \<Rightarrow> nat \<Rightarrow> bytes \<Rightarrow> bool" where
  "holds_media data cs m \<longleftrightarrow> 0 < cs \<and>
     (\<forall>i. i * cs < length m \<longrightarrow>
        data (word_of_nat i) = Inr (slice m (i * cs) (min (length m) (i * cs + cs))))"

lemma pure_loop_media:
  assumes "holds_media data (unat cs) m" "length m < 2 ^ 64" "length out \<le> n"
    and "unat cur + (n - length out) \<le> length m"
  shows "value_of (media_loop (lift (Inr ())) (\<lambda>i. lift (data i)) cs n cur out)
    = Inr (out @ slice m (unat cur) (unat cur + (n - length out)))"
  using assms(3,4)
proof (induction "n - length out" arbitrary: cur out rule: less_induct)
  case less
  show ?case
  proof (cases "n \<le> length out")
    case True
    with less(2) show ?thesis by (simp add: value_of_def media_loop.simps)
  next
    case False
    let ?i = "unat cur div unat cs" and ?w = "unat cur mod unat cs"
    have cs: "0 < unat cs" using assms(1) by (simp add: holds_media_def)
    have dm: "?i * unat cs + ?w = unat cur" by simp
    have w: "?w < unat cs" using cs by simp
    have inside: "unat cur < length m" using False less(3) by linarith
    then have start: "?i * unat cs < length m" using dm by linarith
    define e where "e = min (length m) (?i * unat cs + unat cs)"
    have "cur div cs = word_of_nat ?i"
      by (simp flip: unat_div)
    then have d: "data (cur div cs) = Inr (slice m (?i * unat cs) e)"
      using assms(1) start by (simp add: holds_media_def e_def)
    have "unat cur < ?i * unat cs + unat cs" using dm w by linarith
    then have cur_e: "unat cur < e" using inside by (simp only: e_def min_less_iff_conj)
    have avail: "length (slice m (?i * unat cs) e) - ?w = e - unat cur"
      using dm by (simp add: e_def)
    have em: "e \<le> length m" by (simp add: e_def)
    define k where "k = min (n - length out) (e - unat cur)"
    have k: "0 < k" "k \<le> n - length out" "unat cur + k \<le> e" "e \<le> length m"
      using False cur_e em unfolding k_def by arith+
    have piece: "slice (slice m (?i * unat cs) e) ?w (?w + k) = slice m (unat cur) (unat cur + k)"
      using k dm by (simp add: slice_slice add.assoc [symmetric] min_absorb2)
    have nxt: "unat (cur + word_of_nat k) = unat cur + k"
      using k assms(2) by (subst unat_add_less) (simp_all add: unsigned_of_nat take_bit_nat_eq_self)
    have step: "value_of (media_loop (lift (Inr ())) (\<lambda>i. lift (data i)) cs n cur out)
        = value_of (media_loop (lift (Inr ())) (\<lambda>i. lift (data i)) cs n (cur + word_of_nat k)
            (out @ slice m (unat cur) (unat cur + k)))"
      using False d k(1) avail piece unfolding value_of_def
      by (subst media_loop.simps) (simp add: Let_def unat_mod k_def [symmetric])
    have len: "length (out @ slice m (unat cur) (unat cur + k)) = length out + k"
      using k by simp
    have "n - (length out + k) < n - length out" "length out + k \<le> n"
      "unat (cur + word_of_nat k) + (n - (length out + k)) \<le> length m"
      using k False less(3) nxt by linarith+
    note IH = less(1) [of "out @ slice m (unat cur) (unat cur + k)", unfolded len, OF this]
    have join: "slice m (unat cur) (unat cur + k) @ slice m (unat cur + k) (unat cur + (n - length out))
        = slice m (unat cur) (unat cur + (n - length out))"
      by (rule slice_join) (use k in linarith)+
    have "unat cur + k + (n - (length out + k)) = unat cur + (n - length out)"
      using k by linarith
    note IH' = IH [unfolded nxt this]
    show ?thesis unfolding step IH' append_assoc join ..
  qed
qed

text \<open>The two readers of an image.\<close>

lemma image_inv_not_aborted: "computes (image_inv E img pages chunks cap n z) ensure_not_aborted (Inr ())"
  by (simp add: computes_def ensure_not_aborted_def image_inv_def reading_inv_def)

interpretation cached: chunk_reader ensure_not_aborted "read_chunk E img"
  "image_inv E img pages chunks cap n z" "policy_chunk (en_decoders E) img (cap = 0) z"
  for E :: "('p, 'c) env" and img pages chunks cap n z
  by unfold_locales (rule image_inv_not_aborted read_chunk_computes)+

interpretation strict: chunk_reader ensure_not_aborted "verification_chunk E img"
  "reading_inv E img pages cap z cc fl" "strict_chunk (en_decoders E) img (cap = 0)"
  for E :: "('p, 'c) env" and img pages cap z cc fl
  by unfold_locales (rule not_aborted_computes verification_chunk_computes)+

definition read_length :: "image \<Rightarrow> nat \<Rightarrow> u64 \<Rightarrow> nat" where
  "read_length img len offset = min len (unat (im_logical_size img) - unat offset)"

text \<open>What a read of the range yields, as a function of the chunks.\<close>

definition pure_read_at :: "(u64 \<Rightarrow> bytes result) \<Rightarrow> image \<Rightarrow> nat \<Rightarrow> u64 \<Rightarrow> bytes result" where
  "pure_read_at data img len offset =
     (if len = 0 \<or> im_logical_size img \<le> offset then Inr []
      else if im_chunk_size img = 0 then Inl (Malformed ''chunk size is zero'')
      else value_of (media_loop (lift (Inr ())) (\<lambda>i. lift (data i)) (im_chunk_size img)
        (read_length img len offset) offset []))"

lemma to_read_value:
  assumes "len < 2 ^ 64" "\<not> im_logical_size img \<le> offset"
  shows "unat (min (im_logical_size img - offset) (word_of_nat len)) = read_length img len offset"
proof -
  have "unat (im_logical_size img - offset) = unat (im_logical_size img) - unat offset"
    using assms(2) by (simp add: unat_sub word_less_nat_alt word_le_nat_alt)
  moreover have "unat (word_of_nat len :: u64) = len" using assms(1) by (simp add: unat_of_small_u64)
  ultimately show ?thesis by (auto simp: min_def read_length_def word_le_nat_alt)
qed

lemma read_at_impl_computes:
  assumes "computes J ensure_not_aborted (Inr ())"
    and "computes J (media_loop ensure_not_aborted
        (\<lambda>i. if strict then verification_chunk E img i else read_chunk E img i)
        (im_chunk_size img) (read_length img len offset) offset [])
      (value_of (media_loop (lift (Inr ())) (\<lambda>i. lift (data i)) (im_chunk_size img)
        (read_length img len offset) offset []))"
    and "len < 2 ^ 64"
  shows "computes J (read_at_impl E img len offset strict) (pure_read_at data img len offset)"
  unfolding read_at_impl_def pure_read_at_def Let_def
proof (intro computes_after_Inr [OF assms(1)] computes_if computes_lift)
  assume "\<not> (len = 0 \<or> im_logical_size img \<le> offset)"
  then have "unat (min (im_logical_size img - offset) (word_of_nat len)) = read_length img len offset"
    by (intro to_read_value assms(3)) simp
  with assms(2) show "computes J (media_loop ensure_not_aborted
        (\<lambda>i. if strict then verification_chunk E img i else read_chunk E img i)
        (im_chunk_size img) (unat (min (im_logical_size img - offset) (word_of_nat len))) offset [])
      (value_of (media_loop (lift (Inr ())) (\<lambda>i. lift (data i)) (im_chunk_size img)
        (read_length img len offset) offset []))" by simp
qed

lemma read_at_cached:
  assumes "len < 2 ^ 64"
  shows "computes (image_inv E img pages chunks cap n z) (read_at_impl E img len offset False)
    (pure_read_at (policy_chunk (en_decoders E) img (cap = 0) z) img len offset)"
  using cached.loop_computes [of E img pages chunks cap n z] assms
  by (intro read_at_impl_computes image_inv_not_aborted) simp_all

lemma read_at_strict:
  assumes "len < 2 ^ 64"
  shows "computes (reading_inv E img pages cap z cc fl) (read_at_impl E img len offset True)
    (pure_read_at (strict_chunk (en_decoders E) img (cap = 0)) img len offset)"
  using strict.loop_computes [of E img pages cap z cc fl] assms
  by (intro read_at_impl_computes not_aborted_computes) simp_all

lemma pure_read_at_media:
  assumes "holds_media data (unat (im_chunk_size img)) m" "length m = unat (im_logical_size img)"
  shows "pure_read_at data img len offset = Inr (slice m (unat offset) (unat offset + len))"
proof (cases "len = 0 \<or> im_logical_size img \<le> offset")
  case True
  with assms(2) show ?thesis by (auto simp: pure_read_at_def slice_def word_le_nat_alt)
next
  case False
  then have lt: "unat offset < length m" by (simp add: assms(2) word_le_nat_alt)
  have "length m < 2 ^ 64" using unat_64_less [of "im_logical_size img"] by (simp add: assms(2))
  moreover have "unat offset + read_length img len offset \<le> length m"
    using lt unfolding read_length_def assms(2) by arith
  ultimately have "value_of (media_loop (lift (Inr ())) (\<lambda>i. lift (data i)) (im_chunk_size img)
      (read_length img len offset) offset [])
    = Inr (slice m (unat offset) (unat offset + read_length img len offset))"
    using pure_loop_media [OF assms(1), of "[]" "read_length img len offset" offset] by simp
  moreover have "slice m (unat offset) (unat offset + read_length img len offset)
      = slice m (unat offset) (unat offset + len)"
    by (simp add: slice_def read_length_def min_def flip: assms(2))
  moreover have "im_chunk_size img \<noteq> 0" using assms(1) by (auto simp: holds_media_def)
  ultimately show ?thesis using False by (simp add: pure_read_at_def)
qed

end
