(* ===== verification/File_Reader.thy ===== *)
theory File_Reader
  imports Media_Reader
begin

text \<open>
  Reading the logical files of an image (\<open>read_single_file_at_impl\<close> in \<open>src/image.rs\<close>)
  and the two cursors. A logical file is a list of extents of the media, a duplicate of
  another range, or one stored byte; \<open>file_content\<close> is what each of them stands for.
  The client of the media reader is proved against the interface \<open>media_source\<close>.
\<close>

section \<open>Entries\<close>

record file_extent =
  ex_data_offset :: u64
  ex_data_size :: u64
  ex_sparse :: bool

text \<open>The fields of a catalog entry that reading uses.\<close>

record file_entry =
  fe_flags :: "u32 option"
  fe_size :: "u64 option"
  fe_duplicate_data_offset :: "i64 option"
  fe_extents :: "file_extent list"

definition EWF1_LOGICAL_SPARSE_FLAG :: u32 where
  "EWF1_LOGICAL_SPARSE_FLAG = 0x04000000"

definition single_file_size :: "file_entry \<Rightarrow> u64 result" where
  "single_file_size entry =
     (case fe_size entry of
        Some n \<Rightarrow> Inr n
      | None \<Rightarrow> try_fold (\<lambda>total extent. ok_or (checked_add total (ex_data_size extent))
          (Malformed ''single file size overflow'')) 0 (fe_extents entry))"

definition ewf1_logical_sparse :: "image \<Rightarrow> file_entry \<Rightarrow> bool" where
  "ewf1_logical_sparse img entry \<longleftrightarrow> im_format img = FormatEwf1 \<and>
     im_format_profile img \<in> {LogicalEnCase5, LogicalEnCase6, LogicalEnCase7} \<and>
     (case fe_flags entry of None \<Rightarrow> False | Some flags \<Rightarrow> flags AND EWF1_LOGICAL_SPARSE_FLAG \<noteq> 0)"

definition duplicate_offset :: "image \<Rightarrow> file_entry \<Rightarrow> u64 option" where
  "duplicate_offset img entry =
     (if fe_extents entry = [] \<or> ewf1_logical_sparse img entry
      then case fe_duplicate_data_offset entry of
        None \<Rightarrow> None
      | Some d \<Rightarrow> if 0 \<le> sint d then Some d else None
      else None)"

section \<open>Reading a file\<close>

text \<open>
  The loop over the extents; \<open>rd n off\<close> reads up to \<open>n\<close> bytes of the media, and the
  result is the number of bytes copied with the caller's buffer.
\<close>

fun extents_loop ::
    "(nat \<Rightarrow> u64 \<Rightarrow> ('s, bytes) comp) \<Rightarrow> u64 \<Rightarrow> u64 \<Rightarrow> file_extent list \<Rightarrow> u64 \<Rightarrow> nat \<Rightarrow> bytes
      \<Rightarrow> ('s, nat \<times> bytes) comp" where
  "extents_loop rd offset to_read [] file_position copied buf = lift (Inr (copied, buf))"
| "extents_loop rd offset to_read (extent # extents) file_position copied buf =
     (case checked_add file_position (ex_data_size extent) of
        None \<Rightarrow> lift (Inl (Malformed ''single file extent range overflow''))
      | Some extent_end \<Rightarrow>
          let read_start = max offset file_position;
            read_end = min (offset + to_read) extent_end in
          if read_end \<le> read_start
          then extents_loop rd offset to_read extents extent_end copied buf
          else case checked_sub read_start file_position of
            None \<Rightarrow> lift (Inl (Malformed ''single file extent offset underflow''))
          | Some extent_relative_offset \<Rightarrow>
              let output_offset = unat (read_start - offset);
                read_size = unat (read_end - read_start) in
              if ex_sparse extent
              then extents_loop rd offset to_read extents extent_end (copied + read_size)
                     (splice buf output_offset (replicate read_size 0))
              else case checked_add (ex_data_offset extent) extent_relative_offset of
                None \<Rightarrow> lift (Inl (Malformed ''single file extent data offset overflow''))
              | Some image_offset \<Rightarrow>
                  sbind (rd read_size image_offset) (\<lambda>data.
                    if length data \<noteq> read_size
                    then lift (Inl (Malformed ''single file extent read was truncated''))
                    else extents_loop rd offset to_read extents extent_end (copied + read_size)
                           (splice buf output_offset data)))"

text \<open>The reading of a file through a reader of the media, after the abort check.\<close>

definition read_file ::
    "(nat \<Rightarrow> u64 \<Rightarrow> ('s, bytes) comp) \<Rightarrow> image \<Rightarrow> file_entry \<Rightarrow> bytes \<Rightarrow> u64 \<Rightarrow> ('s, nat \<times> bytes) comp" where
  "read_file rd img entry buf offset =
     (if buf = [] then lift (Inr (0, buf))
      else sbind (lift (single_file_size entry)) (\<lambda>file_size.
      if file_size \<le> offset then lift (Inr (0, buf))
      else let to_read = min (word_of_nat (length buf)) (file_size - offset) in
        case duplicate_offset img entry of
          Some duplicate_data_offset \<Rightarrow>
            (case checked_add duplicate_data_offset offset of
               None \<Rightarrow> lift (Inl (Malformed ''single file duplicate data offset overflow''))
             | Some image_offset \<Rightarrow>
                 sbind (rd (unat to_read) image_offset) (\<lambda>data.
                   if length data \<noteq> unat to_read
                   then lift (Inl (Malformed ''single file duplicate data read was truncated''))
                   else lift (Inr (unat to_read, splice buf 0 data))))
        | None \<Rightarrow>
            if ewf1_logical_sparse img entry
            then case fe_extents entry of
                [] \<Rightarrow> lift (Inl (Malformed ''single file sparse entry has no stored byte''))
              | extent # _ \<Rightarrow>
                  if ex_sparse extent \<or> ex_data_size extent < 1
                  then lift (Inl (Malformed ''single file sparse entry has no stored byte''))
                  else sbind (rd 1 (ex_data_offset extent)) (\<lambda>data.
                    if length data \<noteq> 1
                    then lift (Inl (Malformed ''single file sparse entry stored byte was truncated''))
                    else lift (Inr (unat to_read,
                           splice buf 0 (replicate (unat to_read) (data ! 0)))))
            else sbind (extents_loop rd offset to_read (fe_extents entry) 0 0 buf) (\<lambda>(copied, buf).
                if copied \<noteq> unat to_read
                then lift (Inl (Malformed ''single file extents do not cover requested range''))
                else lift (Inr (copied, buf)))))"

definition read_single_file_at_impl ::
    "('p, 'c) env \<Rightarrow> image \<Rightarrow> file_entry \<Rightarrow> bytes \<Rightarrow> u64 \<Rightarrow> bool \<Rightarrow> ('p, 'c, nat \<times> bytes) image_op" where
  "read_single_file_at_impl E img entry buf offset strict =
     sbind ensure_not_aborted (\<lambda>_.
       read_file (\<lambda>n off. read_at_impl E img n off strict) img entry buf offset)"

definition read_single_file_at ::
    "('p, 'c) env \<Rightarrow> image \<Rightarrow> file_entry \<Rightarrow> bytes \<Rightarrow> u64 \<Rightarrow> ('p, 'c, nat \<times> bytes) image_op" where
  "read_single_file_at E img entry buf offset = read_single_file_at_impl E img entry buf offset False"

definition read_single_file_at_strict ::
    "('p, 'c) env \<Rightarrow> image \<Rightarrow> file_entry \<Rightarrow> bytes \<Rightarrow> u64 \<Rightarrow> ('p, 'c, nat \<times> bytes) image_op" where
  "read_single_file_at_strict E img entry buf offset = read_single_file_at_impl E img entry buf offset True"

section \<open>What a file holds\<close>

definition extent_bytes :: "bytes \<Rightarrow> file_extent \<Rightarrow> bytes" where
  "extent_bytes m x = (if ex_sparse x then replicate (unat (ex_data_size x)) 0
     else slice m (unat (ex_data_offset x)) (unat (ex_data_offset x) + unat (ex_data_size x)))"

definition extent_ok :: "bytes \<Rightarrow> file_extent \<Rightarrow> bool" where
  "extent_ok m x \<longleftrightarrow> ex_sparse x \<or> unat (ex_data_offset x) + unat (ex_data_size x) \<le> length m"

definition file_content :: "image \<Rightarrow> file_entry \<Rightarrow> bytes \<Rightarrow> nat \<Rightarrow> bytes" where
  "file_content img entry m n =
     (case duplicate_offset img entry of
        Some d \<Rightarrow> slice m (unat d) (unat d + n)
      | None \<Rightarrow>
          if ewf1_logical_sparse img entry
          then replicate n (m ! unat (ex_data_offset (hd (fe_extents entry))))
          else concat (map (extent_bytes m) (fe_extents entry)))"

text \<open>An entry whose data lies inside the media and is at least as long as its size.\<close>

definition entry_ok :: "image \<Rightarrow> file_entry \<Rightarrow> bytes \<Rightarrow> nat \<Rightarrow> bool" where
  "entry_ok img entry m n \<longleftrightarrow>
     (case duplicate_offset img entry of
        Some d \<Rightarrow> unat d + n \<le> length m
      | None \<Rightarrow>
          if ewf1_logical_sparse img entry
          then fe_extents entry \<noteq> [] \<and> \<not> ex_sparse (hd (fe_extents entry)) \<and>
            0 < unat (ex_data_size (hd (fe_extents entry))) \<and>
            unat (ex_data_offset (hd (fe_extents entry))) < length m
          else (\<forall>x \<in> set (fe_extents entry). extent_ok m x) \<and>
            n \<le> sum_list (map (unat \<circ> ex_data_size) (fe_extents entry)) \<and>
            sum_list (map (unat \<circ> ex_data_size) (fe_extents entry)) < 2 ^ 64)"

lemma length_extent_bytes: "extent_ok m x \<Longrightarrow> length (extent_bytes m x) = unat (ex_data_size x)"
  by (auto simp: extent_bytes_def extent_ok_def)

text \<open>Copying the window \<open>[off, off + n)\<close> piece by piece.\<close>

lemma splice_splice:
  assumes "k + length xs \<le> length buf"
  shows "splice (splice buf k xs) (k + length xs) ys = splice buf k (xs @ ys)"
  using assms by (cases xs) (auto simp: splice_def min_def ac_simps)

lemma splice_longer: "length buf \<le> length (splice buf k ys)"
  by (simp add: splice_def)

lemma slice_app: "slice (xs @ ys) a b = slice xs a b @ slice ys (a - length xs) (b - length xs)"
  by (cases "a \<le> length xs") (simp_all add: slice_def)

lemma window_step:
  fixes off n F z :: nat
  assumes "length e = z" "n \<le> length buf"
  shows "splice (splice buf (F - off) (slice e (off - F) (off + n - F))) (F + z - off)
      (slice c (off - (F + z)) (off + n - (F + z)))
    = splice buf (F - off) (slice (e @ c) (off - F) (off + n - F))"
proof -
  have d2: "slice (e @ c) (off - F) (off + n - F)
      = slice e (off - F) (off + n - F) @ slice c (off - (F + z)) (off + n - (F + z))"
    by (simp add: slice_app assms(1))
  show ?thesis
  proof (cases "slice c (off - (F + z)) (off + n - (F + z)) = []")
    case True
    show ?thesis unfolding d2 True by simp
  next
    case c: False
    have "length (slice c (off - (F + z)) (off + n - (F + z))) \<noteq> 0"
      using c by (simp only: length_0_conv not_False_eq_True)
    then have inside: "F + z < off + n" unfolding length_slice by arith
    show ?thesis
    proof (cases "slice e (off - F) (off + n - F) = []")
      case True
      have "length (slice e (off - F) (off + n - F)) = 0" using True by simp
      then have "F + z - off = F - off" unfolding length_slice assms(1) using inside by arith
      then show ?thesis unfolding d2 True by simp
    next
      case False
      then have "length (slice e (off - F) (off + n - F)) \<noteq> 0"
        by (simp only: length_0_conv not_False_eq_True)
      then have "F + z - off = F - off + length (slice e (off - F) (off + n - F))"
        "F - off + length (slice e (off - F) (off + n - F)) \<le> length buf"
        unfolding length_slice assms(1) using inside assms(2) by arith+
      then show ?thesis unfolding d2 by (simp only: splice_splice)
    qed
  qed
qed

section \<open>The interface of a reader of the media\<close>

locale media_source =
  fixes rd :: "nat \<Rightarrow> u64 \<Rightarrow> ('s, bytes) comp"
    and inv :: "'s \<Rightarrow> bool"
    and m :: bytes
  assumes rd_computes: "n < 2 ^ 64 \<Longrightarrow> computes inv (rd n off) (Inr (slice m (unat off) (unat off + n)))"
    and media_length: "inv s \<Longrightarrow> length m < 2 ^ 64"
begin

lemma with_length: "(length m < 2 ^ 64 \<Longrightarrow> computes inv f r) \<Longrightarrow> computes inv f r"
  unfolding computes_def using media_length by blast

lemma after_rd:
  assumes "n < 2 ^ 64" "computes inv (f (slice m (unat off) (unat off + n))) r"
  shows "computes inv (sbind (rd n off) f) r"
  using computes_sbind [OF rd_computes [OF assms(1), of off], of f "\<lambda>_. r"] assms(2) by simp

lemma extents_loop_computes:
  assumes "\<forall>x \<in> set xs. extent_ok m x"
    and "unat offset + unat to_read < 2 ^ 64" "unat to_read \<le> length buf"
    and "unat F + sum_list (map (unat \<circ> ex_data_size) xs) < 2 ^ 64"
    and "w = slice (concat (map (extent_bytes m) xs)) (unat offset - unat F) (unat offset + unat to_read - unat F)"
  shows "computes inv (extents_loop rd offset to_read xs F copied buf)
    (Inr (copied + length w, splice buf (unat F - unat offset) w))"
  using assms
proof (induction xs arbitrary: F copied buf w)
  case Nil
  then show ?case by (simp add: slice_def computes_def)
next
  case (Cons x xs)
  let ?z = "unat (ex_data_size x)" and ?e = "extent_bytes m x" and ?c = "concat (map (extent_bytes m) xs)"
  define F' where "F' = F + ex_data_size x"
  have F': "unat F' = unat F + ?z" unfolding F'_def using Cons.prems(4) by (intro unat_add_less) simp
  have add: "checked_add F (ex_data_size x) = Some F'" using Cons.prems(4) F' by (simp add: checked_simps)
  have sum: "unat (offset + to_read) = unat offset + unat to_read"
    using Cons.prems(2) by (intro unat_add_less) simp
  have len: "length ?e = ?z" using Cons.prems(1) by (intro length_extent_bytes) simp
  define d where "d = slice ?e (unat offset - unat F) (unat offset + unat to_read - unat F)"
  define w' where "w' = slice ?c (unat offset - unat F') (unat offset + unat to_read - unat F')"
  have w: "w = d @ w'" unfolding Cons.prems(5) d_def w'_def by (simp add: slice_app len F')
  have join: "splice (splice buf (unat F - unat offset) d) (unat F' - unat offset) w'
      = splice buf (unat F - unat offset) w"
    unfolding w d_def w'_def F' using Cons.prems(3) by (simp add: window_step len slice_app)
  have lbuf: "unat to_read \<le> length (splice buf (unat F - unat offset) d)"
    by (rule order_trans [OF Cons.prems(3) splice_longer])
  define lo where "lo = max (unat offset) (unat F)"
  define hi where "hi = min (unat offset + unat to_read) (unat F')"
  have lo: "unat (max offset F) = lo" by (simp add: lo_def max_def word_le_nat_alt)
  have hi: "unat (min (offset + to_read) F') = hi" by (simp add: hi_def min_def word_le_nat_alt sum)
  have ld: "length d = hi - lo"
    unfolding d_def length_slice len lo_def hi_def F' by arith
  note IH = Cons.IH [OF _ Cons.prems(2) _ _ w'_def]
  have xs: "\<forall>x \<in> set xs. extent_ok m x" and rest: "unat F' + sum_list (map (unat \<circ> ex_data_size) xs) < 2 ^ 64"
    using Cons.prems(1,4) by (simp_all add: F' comp_def)
  show ?case
  proof (cases "hi \<le> lo")
    case True
    with ld have "d = []" by simp
    then have buf: "splice buf (unat F' - unat offset) w' = splice buf (unat F - unat offset) w"
      using join by simp
    have "computes inv (extents_loop rd offset to_read xs F' copied buf)
        (Inr (copied + length w', splice buf (unat F' - unat offset) w'))"
      by (intro IH xs rest Cons.prems(3))
    then show ?thesis using True \<open>d = []\<close> unfolding buf
      by (simp add: add Let_def word_le_nat_alt lo hi w)
  next
    case False
    have sub: "checked_sub (max offset F) F = Some (max offset F - F)"
      by (simp add: checked_sub_def)
    have rel: "unat (max offset F - F) = unat offset - unat F"
      by (simp add: unat_sub lo lo_def)
    have out: "unat (max offset F - offset) = unat F - unat offset"
      by (simp add: unat_sub lo lo_def)
    have size: "unat (min (offset + to_read) F' - max offset F) = length d"
      using False by (simp add: unat_sub word_le_nat_alt lo hi ld)
    let ?buf = "splice buf (unat F - unat offset) d"
    have next_buf: "computes inv (extents_loop rd offset to_read xs F' (copied + length d) ?buf)
        (Inr (copied + length w, splice buf (unat F - unat offset) w))"
      using IH [OF xs _ rest, of ?buf "copied + length d"] lbuf by (simp add: join) (simp add: w add.assoc)
    note step = extents_loop.simps(2) [of rd offset to_read x xs F copied buf] add sub
    show ?thesis
    proof (cases "ex_sparse x")
      case True
      have "d = replicate (length d) 0"
        by (simp add: d_def extent_bytes_def True slice_def)
      with next_buf False True show ?thesis
        by (simp add: step Let_def word_le_nat_alt lo hi out size)
    next
      case x: False
      then have inside: "unat (ex_data_offset x) + ?z \<le> length m"
        using Cons.prems(1) by (simp add: extent_ok_def)
      have "0 < length d" using False by (simp add: ld)
      then have within: "unat offset - unat F + length d \<le> ?z"
        unfolding d_def length_slice len by arith
      define io where "io = ex_data_offset x + (max offset F - F)"
      show ?thesis
      proof (rule with_length)
        assume m: "length m < 2 ^ 64"
        then have io: "unat io = unat (ex_data_offset x) + (unat offset - unat F)"
          unfolding io_def using inside within by (subst unat_add_less) (simp_all add: rel)
        have add2: "checked_add (ex_data_offset x) (max offset F - F) = Some io"
          using io m inside within by (simp add: checked_simps rel)
        have "min (unat (ex_data_offset x) + ?z) (unat (ex_data_offset x) + (unat offset + unat to_read - unat F))
            = unat io + length d"
          unfolding io using \<open>0 < length d\<close> unfolding d_def length_slice len by arith
        then have "d = slice m (unat io) (unat io + length d)"
          unfolding io by (simp add: d_def extent_bytes_def x slice_slice)
        then have data: "slice m (unat io) (unat io + length d) = d" by simp
        have "length d < 2 ^ 64" using within inside m by linarith
        then have "computes inv (sbind (rd (length d) io) (\<lambda>data.
            if length data \<noteq> length d
            then lift (Inl (Malformed ''single file extent read was truncated''))
            else extents_loop rd offset to_read xs F' (copied + length d)
                   (splice buf (unat F - unat offset) data)))
          (Inr (copied + length w, splice buf (unat F - unat offset) w))"
          by (rule after_rd) (simp add: data next_buf)
        with False x show ?thesis
          by (simp add: step Let_def word_le_nat_alt lo hi out size add2)
      qed
    qed
  qed
qed

lemma read_file_computes:
  assumes size: "single_file_size entry = Inr fsz" and ok: "entry_ok img entry m (unat fsz)"
    and buf: "length buf < 2 ^ 64"
  shows "computes inv (read_file rd img entry buf offset)
    (let w = slice (file_content img entry m (unat fsz)) (unat offset)
       (min (unat fsz) (unat offset + length buf))
     in Inr (length w, splice buf 0 w))"
proof (cases "buf = [] \<or> fsz \<le> offset")
  case True
  then show ?thesis
    using size by (auto simp: read_file_def slice_def computes_def word_le_nat_alt)
next
  case False
  then have off: "unat offset < unat fsz" by (simp add: word_le_nat_alt)
  define n where "n = min (word_of_nat (length buf)) (fsz - offset)"
  define w where "w = slice (file_content img entry m (unat fsz)) (unat offset)
      (min (unat fsz) (unat offset + length buf))"
  have "unat (fsz - offset) = unat fsz - unat offset"
    using off by (simp add: unat_sub word_le_nat_alt)
  then have n: "unat n = min (length buf) (unat fsz - unat offset)"
    using buf by (simp add: n_def min_def word_le_nat_alt unat_of_small_u64)
  then have reach: "unat offset + unat n = min (unat fsz) (unat offset + length buf)"
    using off by arith
  have within: "unat offset + unat n \<le> unat fsz" using reach by simp
  have bound: "unat offset + unat n < 2 ^ 64"
    using reach unat_64_less [of fsz] by simp
  have nbuf: "unat n \<le> length buf" using n by simp
  have step: "computes inv (read_file rd img entry buf offset) (Inr (length w, splice buf 0 w))"
  proof (cases "duplicate_offset img entry")
    case (Some d)
    have inside: "unat d + unat fsz \<le> length m" using ok Some by (simp add: entry_ok_def)
    show ?thesis
    proof (rule with_length)
      assume m: "length m < 2 ^ 64"
      then have io: "unat (d + offset) = unat d + unat offset"
        using inside off by (intro unat_add_less) simp
      then have add: "checked_add d offset = Some (d + offset)"
        using m inside off by (simp add: checked_simps)
      have w: "slice m (unat (d + offset)) (unat (d + offset) + unat n) = w"
        using inside reach by (simp add: w_def file_content_def Some slice_slice io add.assoc min_absorb2 within flip: reach)
      have "length w = unat n" using inside io reach off by (simp add: w [symmetric])
      then show ?thesis
        using False size bound
        by (simp add: read_file_def Let_def n_def [symmetric] Some add computes_lift
            after_rd [of "unat n" _ "d + offset", unfolded w])
    qed
  next
    case None
    show ?thesis
    proof (cases "ewf1_logical_sparse img entry")
      case True
      obtain x xs where fe: "fe_extents entry = x # xs" and x: "\<not> ex_sparse x" "\<not> ex_data_size x < 1"
        "unat (ex_data_offset x) < length m"
        using ok None True by (cases "fe_extents entry") (auto simp: entry_ok_def word_less_nat_alt)
      have one: "slice m (unat (ex_data_offset x)) (unat (ex_data_offset x) + 1) = [m ! unat (ex_data_offset x)]"
        using x(3) by (simp add: slice_def hd_drop_conv_nth take_Suc)
      have w: "w = replicate (unat n) (m ! unat (ex_data_offset x))"
        using reach off by (simp add: w_def file_content_def None True slice_def fe)
      have "computes inv (sbind (rd 1 (ex_data_offset x)) (\<lambda>data.
          if length data \<noteq> 1
          then lift (Inl (Malformed ''single file sparse entry stored byte was truncated''))
          else lift (Inr (unat n, splice buf 0 (replicate (unat n) (data ! 0))))))
        (Inr (length w, splice buf 0 w))"
        by (rule after_rd) (simp_all only: one, simp_all add: w computes_def)
      then show ?thesis
        using False size x by (simp add: read_file_def Let_def n_def [symmetric] None True fe)
    next
      case sp: False
      have xs: "\<forall>x \<in> set (fe_extents entry). extent_ok m x"
        "unat fsz \<le> sum_list (map (unat \<circ> ex_data_size) (fe_extents entry))"
        "sum_list (map (unat \<circ> ex_data_size) (fe_extents entry)) < 2 ^ 64"
        using ok None sp by (simp_all add: entry_ok_def)
      have w: "w = slice (concat (map (extent_bytes m) (fe_extents entry))) (unat offset) (unat offset + unat n)"
        by (simp add: w_def file_content_def None sp reach)
      have "length (concat (map (extent_bytes m) xs)) = sum_list (map (unat \<circ> ex_data_size) xs)"
        if "\<forall>x \<in> set xs. extent_ok m x" for xs
        using that by (induction xs) (simp_all add: length_extent_bytes)
      with xs have "length w = unat n" using reach by (simp add: w)
      moreover have "computes inv (extents_loop rd offset n (fe_extents entry) 0 0 buf) (Inr (length w, splice buf 0 w))"
        using extents_loop_computes [OF xs(1) bound nbuf, of 0 w 0] xs(3) w by simp
      ultimately show ?thesis
        using False size computes_sbind [of inv _ "Inr (length w, splice buf 0 w)" _ "\<lambda>_. Inr (length w, splice buf 0 w)"]
        by (simp add: read_file_def Let_def n_def [symmetric] None sp computes_lift)
    qed
  qed
  then show ?thesis by (simp add: w_def Let_def)
qed

end

text \<open>The readers of an image that holds the media, cached and strict.\<close>

definition image_holds :: "(u64 \<Rightarrow> bytes result) \<Rightarrow> image \<Rightarrow> bytes \<Rightarrow> bool" where
  "image_holds data img m \<longleftrightarrow> holds_media data (unat (im_chunk_size img)) m \<and>
     length m = unat (im_logical_size img)"

lemma computes_given: "(C \<Longrightarrow> computes I f r) \<Longrightarrow> computes (\<lambda>s. I s \<and> C) f r"
  by (auto simp: computes_def)

lemma computes_holds:
  assumes "computes I f (pure_read_at data img n off)"
  shows "computes (\<lambda>s. I s \<and> image_holds data img m) f (Inr (slice m (unat off) (unat off + n)))"
proof (rule computes_given)
  assume "image_holds data img m"
  then have "pure_read_at data img n off = Inr (slice m (unat off) (unat off + n))"
    unfolding image_holds_def by (elim conjE) (rule pure_read_at_media)
  with assms show "computes I f (Inr (slice m (unat off) (unat off + n)))" by simp
qed

lemma image_holds_length: "image_holds data img m \<Longrightarrow> length m < 2 ^ 64"
  using unat_64_less [of "im_logical_size img"] by (simp add: image_holds_def)

interpretation cached_media: media_source "\<lambda>n off. read_at_impl E img n off False"
  "\<lambda>s. image_inv E img pages chunks cap k z s \<and>
     image_holds (policy_chunk (en_decoders E) img (cap = 0) z) img m" m
  for E :: "('p, 'c) env" and img pages chunks cap k z m
  by unfold_locales (auto intro!: computes_holds read_at_cached dest: image_holds_length)

interpretation strict_media: media_source "\<lambda>n off. read_at_impl E img n off True"
  "\<lambda>s. reading_inv E img pages cap z cc fl s \<and>
     image_holds (strict_chunk (en_decoders E) img (cap = 0)) img m" m
  for E :: "('p, 'c) env" and img pages cap z cc fl m
  by unfold_locales (auto intro!: computes_holds read_at_strict dest: image_holds_length)

section \<open>Cursors\<close>

text \<open>
  A cursor is its position beside the state of the image it reads. An operation that
  fails leaves the position where it was.
\<close>

datatype seek_from = SeekStart u64 | SeekEnd i64 | SeekCurrent i64

type_synonym ('p, 'c, 'a) cursor_op = "(u64 \<times> ('p, 'c) image_state, 'a) comp"

definition at_position :: "(u64 \<Rightarrow> ('p, 'c, 'a) image_op) \<Rightarrow> ('p, 'c, 'a) cursor_op" where
  "at_position f = (\<lambda>(position, s). let (r, s') = f position s in (r, (position, s')))"

definition move_to :: "u64 \<Rightarrow> ('p, 'c, unit) cursor_op" where
  "move_to p = (\<lambda>(position, s). (Inr (), (p, s)))"

definition advance_by :: "string \<Rightarrow> nat \<Rightarrow> ('p, 'c, unit) cursor_op" where
  "advance_by overflow n = (\<lambda>(position, s).
     case checked_add position (word_of_nat n) of
       None \<Rightarrow> (Inl (Malformed overflow), (position, s))
     | Some p \<Rightarrow> (Inr (), (p, s)))"

definition cursor_read_buffer :: "('p, 'c) env \<Rightarrow> image \<Rightarrow> nat \<Rightarrow> ('p, 'c, bytes) cursor_op" where
  "cursor_read_buffer E img len =
     sbind (at_position (read_at E img len)) (\<lambda>data.
     sbind (advance_by ''cursor position overflow'' (length data)) (\<lambda>_.
     lift (Inr data)))"

definition cursor_read_buffer_at_offset ::
    "('p, 'c) env \<Rightarrow> image \<Rightarrow> nat \<Rightarrow> u64 \<Rightarrow> ('p, 'c, bytes) cursor_op" where
  "cursor_read_buffer_at_offset E img len offset =
     sbind (move_to offset) (\<lambda>_. cursor_read_buffer E img len)"

text \<open>The arithmetic of a seek is done in \<open>i128\<close>, where it cannot overflow.\<close>

definition seek_target :: "u64 \<Rightarrow> u64 \<Rightarrow> seek_from \<Rightarrow> int" where
  "seek_target end_of_data position pos =
     (case pos of
        SeekStart offset \<Rightarrow> uint offset
      | SeekEnd offset \<Rightarrow> uint end_of_data + sint offset
      | SeekCurrent offset \<Rightarrow> uint position + sint offset)"

definition seek_within :: "string \<Rightarrow> string \<Rightarrow> u64 \<Rightarrow> seek_from \<Rightarrow> ('p, 'c, u64) cursor_op" where
  "seek_within before beyond end_of_data pos = (\<lambda>(position, s).
     let nxt = seek_target end_of_data position pos in
     if nxt < 0 then (Inl (Io InvalidInput before), (position, s))
     else if 2 ^ 64 \<le> nxt then (Inl (Io InvalidInput beyond), (position, s))
     else (Inr (word_of_int nxt), (word_of_int nxt, s)))"

definition cursor_seek_position :: "image \<Rightarrow> seek_from \<Rightarrow> ('p, 'c, u64) cursor_op" where
  "cursor_seek_position img pos =
     seek_within ''seek before start of image'' ''seek position does not fit u64''
       (im_logical_size img) pos"

definition current_chunk_index :: "image \<Rightarrow> u64 \<Rightarrow> u64 option result" where
  "current_chunk_index img position =
     (if im_logical_size img \<le> position then Inr None
      else if im_chunk_size img = 0 then Inl (Malformed ''chunk size is zero'')
      else Inr (Some (position div im_chunk_size img)))"

definition advance_to_chunk_end :: "u64 \<Rightarrow> nat \<Rightarrow> ('p, 'c, unit) cursor_op" where
  "advance_to_chunk_end logical_offset logical_size = (\<lambda>(position, s).
     case checked_add logical_offset (word_of_nat logical_size) of
       None \<Rightarrow> (Inl (Malformed ''cursor chunk end offset overflow''), (position, s))
     | Some p \<Rightarrow> (Inr (), (p, s)))"

definition cursor_read_data_chunk :: "('p, 'c) env \<Rightarrow> image \<Rightarrow> ('p, 'c, data_chunk option) cursor_op" where
  "cursor_read_data_chunk E img =
     sbind (at_position (\<lambda>position. lift (current_chunk_index img position))) (\<lambda>index.
     case index of
       None \<Rightarrow> lift (Inr None)
     | Some chunk_index \<Rightarrow>
         sbind (at_position (\<lambda>_. read_data_chunk E img chunk_index)) (\<lambda>ch.
         sbind (advance_to_chunk_end (dc_logical_offset ch) (dc_logical_size ch)) (\<lambda>_.
         lift (Inr (Some ch)))))"

definition cursor_read_encoded_data_chunk ::
    "('p, 'c) env \<Rightarrow> image \<Rightarrow> ('p, 'c, encoded_data_chunk option) cursor_op" where
  "cursor_read_encoded_data_chunk E img =
     sbind (at_position (\<lambda>position. lift (current_chunk_index img position))) (\<lambda>index.
     case index of
       None \<Rightarrow> lift (Inr None)
     | Some chunk_index \<Rightarrow>
         sbind (at_position (\<lambda>_. read_encoded_data_chunk E img chunk_index)) (\<lambda>ch.
         sbind (advance_to_chunk_end (ec_logical_offset ch) (ec_logical_size ch)) (\<lambda>_.
         lift (Inr (Some ch)))))"

definition file_cursor_read_buffer ::
    "('p, 'c) env \<Rightarrow> image \<Rightarrow> file_entry \<Rightarrow> bytes \<Rightarrow> ('p, 'c, nat \<times> bytes) cursor_op" where
  "file_cursor_read_buffer E img entry buf =
     sbind (at_position (read_single_file_at E img entry buf)) (\<lambda>(n, buf).
     sbind (advance_by ''single file cursor position overflow'' n) (\<lambda>_.
     lift (Inr (n, buf))))"

definition file_cursor_seek_position :: "file_entry \<Rightarrow> seek_from \<Rightarrow> ('p, 'c, u64) cursor_op" where
  "file_cursor_seek_position entry pos =
     sbind (lift (map_err (\<lambda>_. Io OtherKind ''other'') (single_file_size entry))) (\<lambda>file_size.
     seek_within ''cannot seek before start of single file''
       ''single file cursor position does not fit u64'' file_size pos)"

text \<open>Seeking: integer arithmetic inside the range of a position, else an error in place.\<close>

lemma seek_within_cases:
  fixes s :: "('p, 'c) image_state"
  shows "seek_within a b e pos (position, s) =
    (if seek_target e position pos \<in> {0..<2 ^ 64}
     then (Inr (word_of_int (seek_target e position pos)), (word_of_int (seek_target e position pos), s))
     else (Inl (Io InvalidInput (if seek_target e position pos < 0 then a else b)), (position, s)))"
  by (simp add: seek_within_def Let_def not_le)

lemma slice_consecutive:
  "slice m a (a + n) @ slice m (min (length m) (a + n)) (min (length m) (a + n) + k)
    = slice m a (a + (n + k))"
proof (cases "a + n \<le> length m")
  case True
  then show ?thesis using slice_join [of a "a + n" "a + n + k" m] by (simp add: min_def add.assoc)
qed (simp add: slice_def min_def)

text \<open>Reading through a cursor: consecutive pieces of the media from the position on.\<close>

fun cursor_reads :: "('p, 'c) env \<Rightarrow> image \<Rightarrow> nat list \<Rightarrow> ('p, 'c, bytes) cursor_op" where
  "cursor_reads E img [] = lift (Inr [])"
| "cursor_reads E img (n # ns) =
     sbind (cursor_read_buffer E img n) (\<lambda>data. sbind (cursor_reads E img ns) (\<lambda>rest.
       lift (Inr (data @ rest))))"

lemma cursor_read_buffer_ok:
  assumes "image_inv E img pages chunks cap k z s"
    and "image_holds (policy_chunk (en_decoders E) img (cap = 0) z) img m" and "n < 2 ^ 64"
    and "unat position \<le> length m"
  shows "\<exists>s'. cursor_read_buffer E img n (position, s)
      = (Inr (slice m (unat position) (unat position + n)),
         (word_of_nat (min (length m) (unat position + n)), s')) \<and>
    image_inv E img pages chunks cap k z s'"
proof -
  let ?d = "slice m (unat position) (unat position + n)"
  have c: "computes (\<lambda>s. image_inv E img pages chunks cap k z s \<and>
      image_holds (policy_chunk (en_decoders E) img (cap = 0) z) img m)
      (read_at E img n position) (Inr ?d)"
    unfolding read_at_def by (rule cached_media.rd_computes [OF assms(3)])
  obtain s' where run: "read_at E img n position s = (Inr ?d, s')"
    and s': "image_inv E img pages chunks cap k z s'"
    using computes_fst [OF c] computes_inv [OF c] assms(1,2) by (metis eq_fst_iff snd_conv)
  have m: "length m < 2 ^ 64" using assms(2) by (rule image_holds_length)
  have len: "unat position + length ?d = min (length m) (unat position + n)"
    using assms(4) by auto
  have "unat (word_of_nat (min (length m) (unat position + n)) :: u64) = unat position + length ?d"
    unfolding len using m by (intro unat_of_small_u64) simp
  moreover have "unat (word_of_nat (length ?d) :: u64) = length ?d"
    using m by (intro unat_of_small_u64) simp
  ultimately have "checked_add position (word_of_nat (length ?d))
      = Some (word_of_nat (min (length m) (unat position + n)))"
    using m len by (simp add: checked_simps min_less_iff_disj)
  then show ?thesis
    using s' by (auto simp: cursor_read_buffer_def sbind_def at_position_def advance_by_def run)
qed

lemma cursor_reads_ok:
  assumes "image_inv E img pages chunks cap k z s"
    and "image_holds (policy_chunk (en_decoders E) img (cap = 0) z) img m"
    and "\<forall>n \<in> set ns. n < 2 ^ 64" and "unat position \<le> length m"
  shows "\<exists>s'. cursor_reads E img ns (position, s)
      = (Inr (slice m (unat position) (unat position + sum_list ns)),
         (word_of_nat (min (length m) (unat position + sum_list ns)), s')) \<and>
    image_inv E img pages chunks cap k z s'"
  using assms(1,3,4)
proof (induction ns arbitrary: position s)
  case Nil
  then show ?case by (auto simp: min_absorb2)
next
  case (Cons n ns)
  define p where "p = min (length m) (unat position + n)"
  have m: "length m < 2 ^ 64" using assms(2) by (rule image_holds_length)
  then have p: "unat (word_of_nat p :: u64) = p" by (intro unat_of_small_u64) (simp add: p_def)
  obtain t where t: "cursor_read_buffer E img n (position, s)
      = (Inr (slice m (unat position) (unat position + n)), (word_of_nat p, t))"
    "image_inv E img pages chunks cap k z t"
    using cursor_read_buffer_ok [OF Cons.prems(1) assms(2) _ Cons.prems(3), of n] Cons.prems(2)
    by (auto simp: p_def)
  have "\<forall>n \<in> set ns. n < 2 ^ 64" "unat (word_of_nat p :: u64) \<le> length m"
    using Cons.prems(2) p by (simp_all add: p_def)
  from Cons.IH [OF t(2) this] obtain s' where s': "cursor_reads E img ns (word_of_nat p, t)
      = (Inr (slice m p (p + sum_list ns)), (word_of_nat (min (length m) (p + sum_list ns)), s'))"
    "image_inv E img pages chunks cap k z s'"
    unfolding p by blast
  have "slice m (unat position) (unat position + n) @ slice m p (p + sum_list ns)
      = slice m (unat position) (unat position + (n + sum_list ns))"
    unfolding p_def by (rule slice_consecutive)
  moreover have "min (length m) (p + sum_list ns) = min (length m) (unat position + (n + sum_list ns))"
    unfolding p_def by arith
  ultimately
  show ?case using s'(2) by (simp add: sbind_def t(1) s'(1))
qed

end
