(* ===== verification/Media_Writer.thy ===== *)
theory Media_Writer
  imports Chunk_Writer File_Reader
begin

text \<open>
  The writer before it is finished (\<open>EwfWriter\<close>, \<open>RawSpool\<close> and \<open>ChunkSpool\<close> in
  \<open>src/writer.rs\<close>): writes at any offset go to a spool of raw media, encoded chunks that
  are passed on unchanged are remembered beside it, and finishing encodes the raw media
  chunk by chunk. The spools' temporary files are byte strings; their I/O does not fail.
  The lemmas: every operation keeps the remembered chunks equal to the raw media they
  stand for, and the encoded spool decodes to the media that was written.
\<close>

section \<open>Files and spools\<close>

text \<open>A write at an offset beyond the end of a file fills the gap with zeroes.\<close>

definition file_write :: "bytes \<Rightarrow> nat \<Rightarrow> bytes \<Rightarrow> bytes" where
  "file_write content off data =
     take off (content @ replicate (off - length content) 0) @ data @ drop (off + length data) content"

text \<open>What a reader sees at \<open>[off, off + n)\<close> when bytes beyond the end read as zero.\<close>

definition zero_byte :: "bytes \<Rightarrow> nat \<Rightarrow> u8" where
  "zero_byte content k = (if k < length content then content ! k else 0)"

definition zero_window :: "bytes \<Rightarrow> nat \<Rightarrow> nat \<Rightarrow> bytes" where
  "zero_window content off n = map (\<lambda>i. zero_byte content (off + i)) [0..<n]"

record raw_spool =
  rs_file :: bytes
  rs_len :: u64

definition raw_spool_new :: raw_spool where
  "raw_spool_new = \<lparr>rs_file = [], rs_len = 0\<rparr>"

definition raw_write_at :: "u64 \<Rightarrow> bytes \<Rightarrow> raw_spool \<Rightarrow> raw_spool result" where
  "raw_write_at offset data raw =
     (if data = [] then Inr raw
      else try_bind (ok_or (checked_add offset (word_of_nat (length data)))
        (Malformed ''writer raw spool size overflow'')) (\<lambda>end_offset.
      Inr \<lparr>rs_file = file_write (rs_file raw) (unat offset) data,
           rs_len = max (rs_len raw) end_offset\<rparr>))"

definition raw_read_at_filling_zeroes :: "u64 \<Rightarrow> nat \<Rightarrow> raw_spool \<Rightarrow> bytes result" where
  "raw_read_at_filling_zeroes offset n raw =
     (let buffer = replicate n 0 in
      if n = 0 \<or> rs_len raw \<le> offset then Inr buffer
      else let available = rs_len raw - offset;
          count = unat (min available (word_of_nat n)) in
        try_bind (read_exact (rs_file raw) (unat offset) count) (\<lambda>data.
          Inr (splice buffer 0 data)))"

record chunk_spool =
  cs_file :: bytes
  cs_len :: u64
  cs_position :: u64

definition chunk_spool_new :: chunk_spool where
  "chunk_spool_new = \<lparr>cs_file = [], cs_len = 0, cs_position = 0\<rparr>"

definition spool_append :: "encoded_chunk \<Rightarrow> chunk_spool \<Rightarrow> (chunk_descriptor \<times> chunk_spool) result" where
  "spool_append encoded spool =
     (let data_offset = cs_len spool;
        data_size = word_of_nat (length (en_bytes encoded)) in
      try_bind (ok_or (checked_add (cs_len spool) data_size)
        (Malformed ''writer encoded chunk spool size overflow'')) (\<lambda>new_len.
      let spool =
        (if 0 < data_size
         then let cursor = (if cs_position spool \<noteq> data_offset then data_offset else cs_position spool) in
           spool\<lparr>cs_file := file_write (cs_file spool) (unat cursor) (en_bytes encoded),
             cs_position := new_len\<rparr>
         else spool)
      in Inr (\<lparr>cd_data_offset = data_offset, cd_data_size = data_size,
                cd_compressed = en_compressed encoded, cd_has_checksum = en_has_checksum encoded,
                cd_pattern_fill = en_pattern_fill encoded\<rparr>, spool\<lparr>cs_len := new_len\<rparr>)))"

text \<open>The copy loop of \<open>copy_chunk_to\<close>, through a buffer of 64 KiB.\<close>

function copy_loop :: "nat \<Rightarrow> chunk_spool \<Rightarrow> bytes \<Rightarrow> (bytes \<times> chunk_spool) result" where
  "copy_loop remaining spool out =
     (if remaining = 0 then Inr (out, spool)
      else let count = min remaining (64 * 1024) in
        try_bind (read_exact (cs_file spool) (unat (cs_position spool)) count) (\<lambda>data.
          copy_loop (remaining - count)
            (spool\<lparr>cs_position := cs_position spool + word_of_nat count\<rparr>) (out @ data)))"
  by pat_completeness auto
termination
  by (relation "measure (\<lambda>(remaining, spool, out). remaining)") auto

declare copy_loop.simps [simp del]

definition copy_chunk_to :: "chunk_descriptor \<Rightarrow> chunk_spool \<Rightarrow> (bytes \<times> chunk_spool) result" where
  "copy_chunk_to descriptor spool =
     (if cd_data_size descriptor = 0 then Inr ([], spool)
      else let spool = (if cs_position spool \<noteq> cd_data_offset descriptor
             then spool\<lparr>cs_position := cd_data_offset descriptor\<rparr> else spool)
        in copy_loop (unat (cd_data_size descriptor)) spool [])"

section \<open>The writer\<close>

record remembered_chunk =
  rc_logical_size :: nat
  rc_encoding :: data_encoding
  rc_encoded :: encoded_chunk

record ewf_writer =
  ew_options :: write_options
  ew_chunk_size :: u64
  ew_chunk_capacity :: nat
  ew_raw :: raw_spool
  ew_encoded_chunks :: "u64 \<Rightarrow> remembered_chunk option"
  ew_current_offset :: u64
  ew_logical_input_size :: u64
  ew_aborted :: bool

type_synonym 'a writer_op = "(ewf_writer, 'a) comp"

definition writer_chunk_geometry :: "u32 \<Rightarrow> u32 \<Rightarrow> (u64 \<times> nat) result" where
  "writer_chunk_geometry sectors_per_chunk bytes_per_sector =
     (if sectors_per_chunk = 0 then Inl (Malformed ''writer sectors_per_chunk is zero'')
      else if bytes_per_sector = 0 then Inl (Malformed ''writer bytes_per_sector is zero'')
      else try_bind (ok_or (checked_mul (ucast sectors_per_chunk) (ucast bytes_per_sector))
        (Malformed ''writer chunk size overflow'')) (\<lambda>chunk_size.
      Inr (chunk_size, unat chunk_size)))"

definition is_ewf2_format :: "write_format \<Rightarrow> bool" where
  "is_ewf2_format fmt \<longleftrightarrow> fmt \<in> {Ewf2Physical, Ewf2Logical}"

definition writer_ensure_not_aborted :: "unit writer_op" where
  "writer_ensure_not_aborted = (\<lambda>w. (if ew_aborted w then Inl Aborted else Inr (), w))"

text \<open>The keys of the map from \<open>first\<close> to \<open>last\<close> are removed.\<close>

definition forget_encoded_chunks_in_range :: "u64 \<Rightarrow> u64 \<Rightarrow> ewf_writer \<Rightarrow> ewf_writer" where
  "forget_encoded_chunks_in_range start_offset end_offset w =
     (if end_offset \<le> start_offset then w
      else let first_chunk = start_offset div ew_chunk_size w;
          last_chunk = (end_offset - 1) div ew_chunk_size w in
        w\<lparr>ew_encoded_chunks := (\<lambda>i. if first_chunk \<le> i \<and> i \<le> last_chunk then None
            else ew_encoded_chunks w i)\<rparr>)"

definition write_to_current :: "bytes \<Rightarrow> nat writer_op" where
  "write_to_current data =
     sbind writer_ensure_not_aborted (\<lambda>_. (\<lambda>w.
     case checked_add (ew_current_offset w) (word_of_nat (length data)) of
       None \<Rightarrow> (Inl (Malformed ''writer logical input size overflow''), w)
     | Some end_offset \<Rightarrow>
         if (case wo_media_size (ew_options w) of None \<Rightarrow> False | Some n \<Rightarrow> n < end_offset)
         then (Inl (Unsupported ''writer write exceeds configured media size''), w)
         else let w = forget_encoded_chunks_in_range (ew_current_offset w) end_offset w in
           case raw_write_at (ew_current_offset w) data (ew_raw w) of
             Inl e \<Rightarrow> (Inl e, w)
           | Inr raw \<Rightarrow> (Inr (length data), w\<lparr>ew_raw := raw, ew_current_offset := end_offset,
               ew_logical_input_size := max (ew_logical_input_size w) end_offset\<rparr>)))"

definition write_buffer :: "bytes \<Rightarrow> nat writer_op" where
  "write_buffer data = sbind writer_ensure_not_aborted (\<lambda>_. write_to_current data)"

definition set_current_offset :: "u64 \<Rightarrow> unit writer_op" where
  "set_current_offset offset = (\<lambda>w. (Inr (), w\<lparr>ew_current_offset := offset\<rparr>))"

definition writer_write_at :: "bytes \<Rightarrow> u64 \<Rightarrow> nat writer_op" where
  "writer_write_at data offset =
     sbind writer_ensure_not_aborted (\<lambda>_.
     sbind (set_current_offset offset) (\<lambda>_. write_to_current data))"

definition validate_write_data_chunk :: "data_chunk \<Rightarrow> unit result" where
  "validate_write_data_chunk chunk =
     (if dc_corrupted chunk then Inl (Malformed ''writer cannot write corrupted data chunk'')
      else if length (dc_data chunk) \<noteq> dc_logical_size chunk
      then Inl (Malformed ''writer data chunk payload length does not match logical size'')
      else Inr ())"

definition write_data_chunk :: "data_chunk \<Rightarrow> nat writer_op" where
  "write_data_chunk chunk =
     sbind writer_ensure_not_aborted (\<lambda>_.
     sbind (lift (validate_write_data_chunk chunk)) (\<lambda>_. write_to_current (dc_data chunk)))"

definition write_data_chunk_at :: "data_chunk \<Rightarrow> u64 \<Rightarrow> nat writer_op" where
  "write_data_chunk_at chunk offset =
     sbind writer_ensure_not_aborted (\<lambda>_.
     sbind (lift (validate_write_data_chunk chunk)) (\<lambda>_. writer_write_at (dc_data chunk) offset))"

section \<open>Encoded chunks\<close>

fun encoded_data_chunk_encoding :: "data_encoding \<Rightarrow> chunk_encoding" where
  "encoded_data_chunk_encoding DataRaw = EncRaw"
| "encoded_data_chunk_encoding DataZlib = EncZlib"
| "encoded_data_chunk_encoding DataZstd = EncZstd"
| "encoded_data_chunk_encoding DataBzip2 = EncBzip2"
| "encoded_data_chunk_encoding (DataPatternFill pat) = EncPatternFill pat"

definition validate_write_encoded_data_chunk :: "encoded_data_chunk \<Rightarrow> unit result" where
  "validate_write_encoded_data_chunk chunk =
     (if ec_encoding chunk = DataZstd
      then Inl (Unsupported ''writer does not support X-Ways Zstandard encoded chunks'')
      else if length (ec_data chunk) \<noteq> unat (ec_encoded_size chunk)
      then Inl (Malformed ''writer encoded data chunk payload length does not match encoded size'')
      else Inr ())"

definition decode_write_encoded_data_chunk :: "decoders \<Rightarrow> encoded_data_chunk \<Rightarrow> bytes result" where
  "decode_write_encoded_data_chunk D chunk =
     try_bind (validate_write_encoded_data_chunk chunk) (\<lambda>_.
     decode_chunk D (ec_data chunk) (encoded_data_chunk_encoding (ec_encoding chunk)) (ec_logical_size chunk))"

fun encoding_compatible :: "data_encoding \<Rightarrow> write_options \<Rightarrow> bool" where
  "encoding_compatible DataRaw options = True"
| "encoding_compatible DataZlib options = (wo_compression options \<noteq> WriteBzip2)"
| "encoding_compatible DataZstd options = False"
| "encoding_compatible DataBzip2 options =
     (is_ewf2_format (wo_format options) \<and> wo_compression options = WriteBzip2)"
| "encoding_compatible (DataPatternFill _) options = is_ewf2_format (wo_format options)"

definition raw_checksum_is_valid :: "encoded_data_chunk \<Rightarrow> bool" where
  "raw_checksum_is_valid chunk =
     (case usize_add (ec_logical_size chunk) 4 of
        None \<Rightarrow> False
      | Some checksum_offset \<Rightarrow>
          length (ec_data chunk) = checksum_offset \<and>
          drop (ec_logical_size chunk) (ec_data chunk)
            = le32 (writer_adler32 (take (ec_logical_size chunk) (ec_data chunk))))"

definition remembered_form :: "encoded_data_chunk \<Rightarrow> encoded_chunk option" where
  "remembered_form chunk =
     (case ec_encoding chunk of
        DataRaw \<Rightarrow>
          if ec_has_checksum chunk \<and> \<not> raw_checksum_is_valid chunk then None
          else Some \<lparr>en_bytes = ec_data chunk, en_compressed = False,
            en_has_checksum = ec_has_checksum chunk, en_pattern_fill = None\<rparr>
      | DataZlib \<Rightarrow> Some \<lparr>en_bytes = ec_data chunk, en_compressed = True,
          en_has_checksum = False, en_pattern_fill = None\<rparr>
      | DataBzip2 \<Rightarrow> Some \<lparr>en_bytes = ec_data chunk, en_compressed = True,
          en_has_checksum = False, en_pattern_fill = None\<rparr>
      | DataZstd \<Rightarrow> None
      | DataPatternFill pat \<Rightarrow> Some \<lparr>en_bytes = [], en_compressed = True,
          en_has_checksum = False, en_pattern_fill = Some pat\<rparr>)"

definition remembered_encoded_data_chunk ::
    "encoded_data_chunk \<Rightarrow> write_options \<Rightarrow> u64 \<Rightarrow> u64 \<Rightarrow> nat \<Rightarrow> remembered_chunk option" where
  "remembered_encoded_data_chunk chunk options target_chunk_size offset decoded_len =
     (if offset mod target_chunk_size \<noteq> 0 \<or> decoded_len \<noteq> ec_logical_size chunk then None
      else if unat target_chunk_size < decoded_len then None
      else if \<not> encoding_compatible (ec_encoding chunk) options then None
      else if \<not> is_ok (validate_encoded_size (ec_encoded_size chunk) target_chunk_size
               (encoded_data_chunk_encoding (ec_encoding chunk))) then None
      else map_option (\<lambda>encoded. \<lparr>rc_logical_size = decoded_len, rc_encoding = ec_encoding chunk,
             rc_encoded = encoded\<rparr>) (remembered_form chunk))"

definition remember_encoded_data_chunk_at ::
    "encoded_data_chunk \<Rightarrow> u64 \<Rightarrow> nat \<Rightarrow> ewf_writer \<Rightarrow> ewf_writer" where
  "remember_encoded_data_chunk_at chunk offset decoded_len w =
     (case remembered_encoded_data_chunk chunk (ew_options w) (ew_chunk_size w) offset decoded_len of
        None \<Rightarrow> w
      | Some encoded \<Rightarrow>
          w\<lparr>ew_encoded_chunks := (ew_encoded_chunks w)(offset div ew_chunk_size w \<mapsto> encoded)\<rparr>)"

text \<open>The two operations differ only in the offset they start from.\<close>

definition write_encoded_from :: "decoders \<Rightarrow> encoded_data_chunk \<Rightarrow> bytes \<Rightarrow> nat writer_op" where
  "write_encoded_from D chunk data = (\<lambda>w.
     let offset = ew_current_offset w in
     sbind (write_to_current data) (\<lambda>written. (\<lambda>w.
       (Inr written, remember_encoded_data_chunk_at chunk offset (length data) w))) w)"

definition write_encoded_data_chunk :: "decoders \<Rightarrow> encoded_data_chunk \<Rightarrow> nat writer_op" where
  "write_encoded_data_chunk D chunk =
     sbind writer_ensure_not_aborted (\<lambda>_.
     sbind (lift (decode_write_encoded_data_chunk D chunk)) (\<lambda>data.
     write_encoded_from D chunk data))"

definition write_encoded_data_chunk_at :: "decoders \<Rightarrow> encoded_data_chunk \<Rightarrow> u64 \<Rightarrow> nat writer_op" where
  "write_encoded_data_chunk_at D chunk offset =
     sbind writer_ensure_not_aborted (\<lambda>_.
     sbind (lift (decode_write_encoded_data_chunk D chunk)) (\<lambda>data.
     sbind (set_current_offset offset) (\<lambda>_.
     write_encoded_from D chunk data)))"

section \<open>Sizes and seeking\<close>

definition target_media_input_size :: "u64 \<Rightarrow> u64 option \<Rightarrow> u64 result" where
  "target_media_input_size written_size configured_media_size =
     (case configured_media_size of
        Some media_size \<Rightarrow>
          if media_size < written_size
          then Inl (Unsupported ''writer configured media size is smaller than written data'')
          else Inr media_size
      | None \<Rightarrow> Inr written_size)"

definition padded_logical_size :: "u64 \<Rightarrow> u32 \<Rightarrow> u64 result" where
  "padded_logical_size logical_input_size bytes_per_sector =
     (if bytes_per_sector = 0 then Inl (Panic ''attempt to divide by zero'')
      else let sector_count =
          word_of_nat ((unat logical_input_size + unat bytes_per_sector - 1) div unat bytes_per_sector) in
        ok_or (checked_mul sector_count (ucast bytes_per_sector)) (Malformed ''writer logical size overflow''))"

definition writer_logical_size :: "ewf_writer \<Rightarrow> u64 result" where
  "writer_logical_size w =
     try_bind (target_media_input_size (ew_logical_input_size w) (wo_media_size (ew_options w))) (\<lambda>n.
     padded_logical_size n (wo_bytes_per_sector (ew_options w)))"

definition checked_writer_seek :: "u64 \<Rightarrow> u64 \<Rightarrow> seek_from \<Rightarrow> u64 result" where
  "checked_writer_seek current_offset logical_input_size position =
     (case position of
        SeekStart offset \<Rightarrow> Inr offset
      | _ \<Rightarrow>
          let nxt = seek_target logical_input_size current_offset position in
          if nxt < 0 then Inl (Malformed ''writer seek before start of media'')
          else if 2 ^ 64 \<le> nxt then Inl (Malformed ''writer seek offset does not fit u64'')
          else Inr (word_of_int nxt))"

definition writer_seek_position :: "seek_from \<Rightarrow> u64 writer_op" where
  "writer_seek_position position = (\<lambda>w.
     case try_bind (target_media_input_size (ew_logical_input_size w) (wo_media_size (ew_options w)))
       (\<lambda>end_size. checked_writer_seek (ew_current_offset w) end_size position) of
       Inl e \<Rightarrow> (Inl e, w)
     | Inr nxt \<Rightarrow> (Inr nxt, w\<lparr>ew_current_offset := nxt\<rparr>))"

section \<open>Finishing: the encoded spool\<close>

record encoded_spool =
  es_chunks :: "chunk_descriptor list"
  es_spool :: chunk_spool

definition encode_next ::
    "compressors \<Rightarrow> write_options \<Rightarrow> u64 \<Rightarrow> remembered_chunk option \<Rightarrow> bytes \<Rightarrow> encoded_chunk result" where
  "encode_next C options chunk_size remembered chunk =
     (let encode = encode_chunk C chunk (wo_compression options) (wo_level options) chunk_size
        (is_ewf2_format (wo_format options))
        (\<not> is_ewf2_format (wo_format options) \<and> wo_empty_block options) in
      case remembered of
        Some r \<Rightarrow>
          if rc_logical_size r = length chunk \<and> encoding_compatible (rc_encoding r) options
          then Inr (rc_encoded r) else encode
      | None \<Rightarrow> encode)"

text \<open>
  The loop of \<open>encode_raw_spool\<close>. A capacity of zero would not advance; the writer's
  geometry is positive, and the model gives that case the value of a panic.
\<close>

function encode_loop ::
    "compressors \<Rightarrow> write_options \<Rightarrow> raw_spool \<Rightarrow> u64 \<Rightarrow> nat \<Rightarrow> u64
      \<Rightarrow> (u64 \<Rightarrow> remembered_chunk option) \<Rightarrow> encoded_spool \<Rightarrow> u64 \<Rightarrow> encoded_spool result" where
  "encode_loop C options raw logical_size chunk_capacity chunk_size encoded_chunks es offset =
     (if logical_size \<le> offset then Inr es
      else let count = min (unat (logical_size - offset)) chunk_capacity in
        if count = 0 then Inl (Panic ''the loop does not advance'')
        else try_bind (raw_read_at_filling_zeroes offset count raw) (\<lambda>chunk.
          let chunk_index = offset div chunk_size in
          try_bind (encode_next C options chunk_size (encoded_chunks chunk_index) chunk) (\<lambda>encoded.
          try_bind (spool_append encoded (es_spool es)) (\<lambda>(descriptor, spool).
          try_bind (ok_or (checked_add offset (word_of_nat count))
            (Malformed ''writer raw spool encode offset overflow'')) (\<lambda>next_offset.
          encode_loop C options raw logical_size chunk_capacity chunk_size
            (encoded_chunks(chunk_index := None))
            \<lparr>es_chunks = es_chunks es @ [descriptor], es_spool = spool\<rparr> next_offset)))))"
  by pat_completeness auto
termination
proof (relation "measure (\<lambda>(C, options, raw, logical_size, chunk_capacity, chunk_size, encoded_chunks, es, offset).
    unat logical_size - unat offset)", goal_cases)
  case (2 C options raw logical_size cap cs enc es offset count)
  then have less: "unat offset < unat logical_size" and c: "0 < count" "count \<le> unat (logical_size - offset)"
    by (simp_all add: word_le_nat_alt)
  have "count < 2 ^ 64" using c(2) unat_64_less [of "logical_size - offset"] by simp
  then have "unat (word_of_nat count :: u64) = count" by (simp add: unat_of_small_u64)
  with 2 c less show ?case by (auto simp: checked_simps)
qed simp

declare encode_loop.simps [simp del]

definition encode_raw_spool ::
    "compressors \<Rightarrow> raw_spool \<Rightarrow> (u64 \<Rightarrow> remembered_chunk option) \<Rightarrow> u64 \<Rightarrow> nat \<Rightarrow> u64 \<Rightarrow> write_options
      \<Rightarrow> encoded_spool result" where
  "encode_raw_spool C raw encoded_chunks logical_size chunk_capacity chunk_size options =
     encode_loop C options raw logical_size chunk_capacity chunk_size encoded_chunks
       \<lparr>es_chunks = [], es_spool = chunk_spool_new\<rparr> 0"

section \<open>The raw media\<close>

lemma length_zero_window [simp]: "length (zero_window content off n) = n"
  by (simp add: zero_window_def)

lemma nth_zero_window [simp]: "i < n \<Longrightarrow> zero_window content off n ! i = zero_byte content (off + i)"
  by (simp add: zero_window_def)

lemma zero_window_cong:
  "(\<And>k. off \<le> k \<Longrightarrow> k < off + n \<Longrightarrow> zero_byte c k = zero_byte c' k) \<Longrightarrow>
   zero_window c off n = zero_window c' off n"
  by (simp add: zero_window_def)

lemma length_file_write [simp]:
  "length (file_write content off data) = max (length content) (off + length data)"
  by (auto simp: file_write_def max_def min_def)

lemma zero_byte_file_write:
  "zero_byte (file_write content off data) k =
     (if off \<le> k \<and> k < off + length data then data ! (k - off) else zero_byte content k)"
  by (auto simp: zero_byte_def file_write_def nth_append nth_drop min_def)

lemma file_write_append: "file_write content (length content) data = content @ data"
  by (simp add: file_write_def)

lemma zero_window_written: "zero_window (file_write content off data) off (length data) = data"
  by (rule nth_equalityI) (simp_all add: zero_byte_file_write)

lemma zero_window_apart:
  "a + n \<le> off \<or> off + length data \<le> a \<Longrightarrow>
   zero_window (file_write content off data) a n = zero_window content a n"
  by (rule zero_window_cong) (auto simp: zero_byte_file_write)

definition raw_spool_ok :: "raw_spool \<Rightarrow> bool" where
  "raw_spool_ok raw \<longleftrightarrow> unat (rs_len raw) = length (rs_file raw)"

lemma raw_read_window:
  assumes "raw_spool_ok raw" "n < 2 ^ 64"
  shows "raw_read_at_filling_zeroes offset n raw = Inr (zero_window (rs_file raw) (unat offset) n)"
proof (cases "n = 0 \<or> rs_len raw \<le> offset")
  case True
  with assms(1) have "zero_window (rs_file raw) (unat offset) n = replicate n 0"
    by (intro nth_equalityI) (auto simp: zero_byte_def raw_spool_ok_def word_le_nat_alt)
  with True show ?thesis by (auto simp: raw_read_at_filling_zeroes_def)
next
  case False
  let ?k = "min (length (rs_file raw) - unat offset) n"
  have "unat (rs_len raw - offset) = length (rs_file raw) - unat offset"
    using False assms(1) by (simp add: unat_sub word_le_nat_alt raw_spool_ok_def)
  then have k: "unat (min (rs_len raw - offset) (word_of_nat n)) = ?k"
    using assms(2) by (auto simp: min_def word_le_nat_alt unat_of_small_u64)
  have off: "unat offset < length (rs_file raw)"
    using False assms(1) by (simp add: word_le_nat_alt raw_spool_ok_def)
  have "splice (replicate n 0) 0 (slice (rs_file raw) (unat offset) (unat offset + ?k))
      = zero_window (rs_file raw) (unat offset) n"
    using off by (intro nth_equalityI)
      (auto simp: splice_def zero_byte_def nth_append nth_slice)
  with False off show ?thesis
    by (simp add: raw_read_at_filling_zeroes_def Let_def k read_exact_def)
qed

lemma raw_write_ok:
  assumes "raw_write_at offset data raw = Inr raw'" "raw_spool_ok raw" "length data < 2 ^ 64"
  shows "raw_spool_ok raw'" "data \<noteq> [] \<Longrightarrow> rs_file raw' = file_write (rs_file raw) (unat offset) data"
    "data = [] \<Longrightarrow> raw' = raw"
  using assms
  by (auto simp: raw_write_at_def raw_spool_ok_def try_bind_Inr_iff checked_simps unat_of_small_u64 unat_max
      split: if_splits)

section \<open>The invariant of the writer\<close>

definition remembered_ok :: "decoders \<Rightarrow> ewf_writer \<Rightarrow> u64 \<Rightarrow> remembered_chunk \<Rightarrow> bool" where
  "remembered_ok D w i r \<longleftrightarrow>
     rc_logical_size r \<le> unat (ew_chunk_size w) \<and>
     (en_pattern_fill (rc_encoded r) \<noteq> None \<longrightarrow> (\<exists>pat. rc_encoding r = DataPatternFill pat)) \<and>
     stores D (method_of (wo_compression (ew_options w))) (ew_chunk_size w) (rc_encoded r)
       (zero_window (rs_file (ew_raw w)) (unat i * unat (ew_chunk_size w)) (rc_logical_size r))"

definition writer_inv :: "decoders \<Rightarrow> ewf_writer \<Rightarrow> bool" where
  "writer_inv D w \<longleftrightarrow>
     0 < unat (ew_chunk_size w) \<and> ew_chunk_capacity w = unat (ew_chunk_size w) \<and>
     raw_spool_ok (ew_raw w) \<and>
     length (rs_file (ew_raw w)) \<le> unat (ew_logical_input_size w) \<and>
     (\<forall>i r. ew_encoded_chunks w i = Some r \<longrightarrow> remembered_ok D w i r)"

text \<open>The media written so far, as far as it will be padded with zeroes.\<close>

abbreviation writer_byte :: "ewf_writer \<Rightarrow> nat \<Rightarrow> u8" where
  "writer_byte w \<equiv> zero_byte (rs_file (ew_raw w))"

lemma chunk_apart:
  fixes i s e cs :: u64
  assumes "0 < unat cs" "s < e" "\<not> (s div cs \<le> i \<and> i \<le> (e - 1) div cs)"
  shows "unat i * unat cs + unat cs \<le> unat s \<or> unat e \<le> unat i * unat cs"
proof -
  have e: "unat (e - 1) = unat e - 1" using assms(2) by (subst unat_sub) (auto simp: word_le_nat_alt word_less_nat_alt)
  have "unat i < unat s div unat cs \<or> (unat e - 1) div unat cs < unat i"
    using assms(3) by (auto simp: word_le_nat_alt unat_div e not_le)
  then show ?thesis
  proof
    assume "unat i < unat s div unat cs"
    then have "Suc (unat i) * unat cs \<le> unat s div unat cs * unat cs" by (intro mult_le_mono1) simp
    also have "\<dots> \<le> unat s" by simp
    finally show ?thesis by simp
  next
    assume "(unat e - 1) div unat cs < unat i"
    then have "unat e - 1 < unat i * unat cs" using assms(1) by (simp add: div_less_iff_less_mult)
    then have "unat e \<le> unat i * unat cs" by (cases "unat e") simp_all
    then show ?thesis ..
  qed
qed

lemma forget_other:
  assumes "ew_encoded_chunks (forget_encoded_chunks_in_range s e w) i = Some r" "0 < unat (ew_chunk_size w)" "s < e"
  shows "ew_encoded_chunks w i = Some r"
    and "unat i * unat (ew_chunk_size w) + unat (ew_chunk_size w) \<le> unat s \<or> unat e \<le> unat i * unat (ew_chunk_size w)"
  using assms chunk_apart [of "ew_chunk_size w" s e i]
  by (auto simp: forget_encoded_chunks_in_range_def Let_def split: if_splits)

lemma forget_fields [simp]:
  "ew_options (forget_encoded_chunks_in_range s e w) = ew_options w"
  "ew_chunk_size (forget_encoded_chunks_in_range s e w) = ew_chunk_size w"
  "ew_chunk_capacity (forget_encoded_chunks_in_range s e w) = ew_chunk_capacity w"
  "ew_raw (forget_encoded_chunks_in_range s e w) = ew_raw w"
  "ew_current_offset (forget_encoded_chunks_in_range s e w) = ew_current_offset w"
  "ew_logical_input_size (forget_encoded_chunks_in_range s e w) = ew_logical_input_size w"
  "ew_aborted (forget_encoded_chunks_in_range s e w) = ew_aborted w"
  by (simp_all add: forget_encoded_chunks_in_range_def Let_def)

text \<open>A successful write overlays the media; a failed one changes no byte of it.\<close>

lemma write_to_current_ok:
  assumes w: "writer_inv D w" and len: "length data < 2 ^ 64"
    and run: "write_to_current data w = (r, w')"
  shows "writer_inv D w'"
    and "r = Inr n \<Longrightarrow> n = length data \<and> unat (ew_current_offset w') = unat (ew_current_offset w) + n \<and>
      (\<forall>k. writer_byte w' k = (if unat (ew_current_offset w) \<le> k \<and> k < unat (ew_current_offset w) + n
         then data ! (k - unat (ew_current_offset w)) else writer_byte w k)) \<and>
      ew_options w' = ew_options w \<and> ew_chunk_size w' = ew_chunk_size w"
    and "r = Inl e \<Longrightarrow> ew_raw w' = ew_raw w \<and> ew_current_offset w' = ew_current_offset w"
proof -
  let ?o = "unat (ew_current_offset w)"
  let ?ok = "\<lambda>n. n = length data \<and> unat (ew_current_offset w') = ?o + n \<and>
      (\<forall>k. writer_byte w' k = (if ?o \<le> k \<and> k < ?o + n then data ! (k - ?o) else writer_byte w k)) \<and>
      ew_options w' = ew_options w \<and> ew_chunk_size w' = ew_chunk_size w"
  have "writer_inv D w' \<and> (\<forall>n. r = Inr n \<longrightarrow> ?ok n) \<and>
    (\<forall>e. r = Inl e \<longrightarrow> ew_raw w' = ew_raw w \<and> ew_current_offset w' = ew_current_offset w)"
  proof (cases "ew_aborted w \<or> checked_add (ew_current_offset w) (word_of_nat (length data)) = None \<or>
      (\<exists>e n. checked_add (ew_current_offset w) (word_of_nat (length data)) = Some e \<and>
        wo_media_size (ew_options w) = Some n \<and> n < e)")
    case True
    with run have "w' = w \<and> (\<exists>e. r = Inl e)"
      by (auto simp: write_to_current_def sbind_def writer_ensure_not_aborted_def split: if_splits)
    with w show ?thesis by auto
  next
    case False
    then obtain e where e: "checked_add (ew_current_offset w) (word_of_nat (length data)) = Some e"
      and size: "\<not> (case wo_media_size (ew_options w) of None \<Rightarrow> False | Some n \<Rightarrow> n < e)"
      and na: "\<not> ew_aborted w" by (auto split: option.splits)
    have ue: "unat e = ?o + length data" using e len by (simp add: checked_simps unat_of_small_u64)
    obtain raw where raw: "raw_write_at (ew_current_offset w) data (ew_raw w) = Inr raw"
      using e by (cases "data = []") (simp_all add: raw_write_at_def)
    have rok: "raw_spool_ok (ew_raw w)" and cs: "0 < unat (ew_chunk_size w)" using w by (simp_all add: writer_inv_def)
    note rw = raw_write_ok [OF raw rok len]
    let ?f = "forget_encoded_chunks_in_range (ew_current_offset w) e w"
    have w': "w' = ?f\<lparr>ew_raw := raw, ew_current_offset := e,
        ew_logical_input_size := max (ew_logical_input_size w) e\<rparr>" and r: "r = Inr (length data)"
      using run na size by (auto simp: write_to_current_def sbind_def writer_ensure_not_aborted_def e raw)
    have bytes: "writer_byte w' k = (if ?o \<le> k \<and> k < ?o + length data then data ! (k - ?o) else writer_byte w k)" for k
      using rw(2,3) by (cases "data = []") (auto simp: w' zero_byte_file_write)
    have grown: "length (rs_file raw) \<le> unat (max (ew_logical_input_size w) e)"
      using w rw(2,3) by (cases "data = []") (auto simp: writer_inv_def unat_max ue)
    have same: "zero_window (rs_file raw) (unat i * unat (ew_chunk_size w)) (rc_logical_size q)
        = zero_window (rs_file (ew_raw w)) (unat i * unat (ew_chunk_size w)) (rc_logical_size q)"
      and old: "ew_encoded_chunks w i = Some q"
      if q: "ew_encoded_chunks ?f i = Some q" for i q
    proof -
      show old: "ew_encoded_chunks w i = Some q"
        using q by (auto simp: forget_encoded_chunks_in_range_def Let_def split: if_splits)
      have n: "rc_logical_size q \<le> unat (ew_chunk_size w)"
        using w old by (auto simp: writer_inv_def remembered_ok_def)
      show "zero_window (rs_file raw) (unat i * unat (ew_chunk_size w)) (rc_logical_size q)
        = zero_window (rs_file (ew_raw w)) (unat i * unat (ew_chunk_size w)) (rc_logical_size q)"
      proof (cases "data = []")
        case False
        then have "ew_current_offset w < e" by (simp add: word_less_nat_alt ue)
        from forget_other(2) [OF q cs this] n have
          "unat i * unat (ew_chunk_size w) + rc_logical_size q \<le> ?o \<or>
           ?o + length data \<le> unat i * unat (ew_chunk_size w)" by (auto simp: ue)
        then show ?thesis unfolding rw(2) [OF False] by (rule zero_window_apart)
      qed (simp add: rw(3))
    qed
    have "remembered_ok D w' i q" if q: "ew_encoded_chunks ?f i = Some q" for i q
    proof -
      have "remembered_ok D w i q" using w old [OF q] by (simp add: writer_inv_def)
      then show ?thesis using same [OF q] by (simp add: w' remembered_ok_def)
    qed
    then have "writer_inv D w'"
      using w rw(1) grown by (simp add: w' writer_inv_def)
    then show ?thesis using r ue bytes by (simp add: w')
  qed
  then show "writer_inv D w'"
    and "r = Inr n \<Longrightarrow> ?ok n"
    and "r = Inl e \<Longrightarrow> ew_raw w' = ew_raw w \<and> ew_current_offset w' = ew_current_offset w"
    by blast+
qed

text \<open>A remembered chunk stores what the decoded data put there.\<close>

lemma remembered_form_pattern:
  "remembered_form chunk = Some e \<Longrightarrow> en_pattern_fill e \<noteq> None \<Longrightarrow> \<exists>pat. ec_encoding chunk = DataPatternFill pat"
  by (cases "ec_encoding chunk") (auto simp: remembered_form_def split: if_splits)

lemma remembered_form_stores:
  assumes r: "remembered_encoded_data_chunk chunk options cs offset (length data) = Some r"
    and dec: "decode_write_encoded_data_chunk D chunk = Inr data"
    and cs: "unat cs + 4 < 2 ^ 64"
  shows "stores D (method_of (wo_compression options)) cs (rc_encoded r) data"
    and "rc_logical_size r = length data" and "length data \<le> unat cs" and "offset mod cs = 0"
    and "en_pattern_fill (rc_encoded r) \<noteq> None \<Longrightarrow> \<exists>pat. rc_encoding r = DataPatternFill pat"
proof -
  from r have al: "offset mod cs = 0" "length data = ec_logical_size chunk" "length data \<le> unat cs"
    "encoding_compatible (ec_encoding chunk) options"
    "is_ok (validate_encoded_size (ec_encoded_size chunk) cs (encoded_data_chunk_encoding (ec_encoding chunk)))"
    and f: "remembered_form chunk = Some (rc_encoded r)" and n: "rc_logical_size r = length data"
    by (auto simp: remembered_encoded_data_chunk_def split: if_splits)
  from dec have d: "decode_chunk D (ec_data chunk) (encoded_data_chunk_encoding (ec_encoding chunk)) (length data) = Inr data"
    and len: "length (ec_data chunk) = unat (ec_encoded_size chunk)"
    by (auto simp: decode_write_encoded_data_chunk_def validate_write_encoded_data_chunk_def
        try_bind_Inr_iff al(2) split: if_splits)
  have size: "is_pattern_fill (encoded_data_chunk_encoding (ec_encoding chunk)) \<or>
      0 < length (ec_data chunk) \<and>
      length (ec_data chunk) \<le> cap_nat (encoded_data_chunk_encoding (ec_encoding chunk)) (unat cs)"
    using al(5) validate_encoded_size_ok [of "ec_encoded_size chunk" cs] by (auto simp: is_ok_iff len)
  show "stores D (method_of (wo_compression options)) cs (rc_encoded r) data"
  proof (cases "ec_encoding chunk")
    case DataRaw
    have "validate_raw_chunk_checksum (ec_data chunk) (length data) = Inr ()" if "ec_has_checksum chunk"
    proof -
      have "raw_checksum_is_valid chunk" using f that by (auto simp: remembered_form_def DataRaw split: if_splits)
      then have "length (ec_data chunk) = length data + 4"
        "drop (length data) (ec_data chunk) = le32 (adler32 (take (length data) (ec_data chunk)))"
        by (auto simp: raw_checksum_is_valid_def al(2) usize_add_def split: if_splits)
      then show ?thesis by (simp add: validate_raw_chunk_checksum_ok_iff slice_def)
    qed
    moreover have "rc_encoded r = \<lparr>en_bytes = ec_data chunk, en_compressed = False,
        en_has_checksum = ec_has_checksum chunk, en_pattern_fill = None\<rparr>"
      using f by (auto simp: remembered_form_def DataRaw split: if_splits)
    ultimately show ?thesis
      using d size by (simp add: stores_def stored_encoding_def is_pattern_fill_def DataRaw)
  next
    case (DataPatternFill p)
    then have "rc_encoded r = \<lparr>en_bytes = [], en_compressed = True, en_has_checksum = False,
        en_pattern_fill = Some p\<rparr>"
      using f by (simp add: remembered_form_def)
    with d DataPatternFill show ?thesis
      by (simp add: stores_def stored_encoding_def decode_chunk_pattern)
  next
    case DataZlib
    then have "rc_encoded r = \<lparr>en_bytes = ec_data chunk, en_compressed = True, en_has_checksum = False,
        en_pattern_fill = None\<rparr>" "method_of (wo_compression options) = EncZlib"
      using f al(4) by (auto simp: remembered_form_def method_of_def split: write_compression.split)
    with d size DataZlib show ?thesis
      by (simp add: stores_def stored_encoding_def is_pattern_fill_def)
  next
    case DataBzip2
    then have "rc_encoded r = \<lparr>en_bytes = ec_data chunk, en_compressed = True, en_has_checksum = False,
        en_pattern_fill = None\<rparr>" "method_of (wo_compression options) = EncBzip2"
      using f al(4) by (auto simp: remembered_form_def method_of_def)
    with d size DataBzip2 show ?thesis
      by (simp add: stores_def stored_encoding_def is_pattern_fill_def)
  qed (use al(4) in simp)
  have "rc_encoding r = ec_encoding chunk" using r by (auto simp: remembered_encoded_data_chunk_def split: if_splits)
  then show "en_pattern_fill (rc_encoded r) \<noteq> None \<Longrightarrow> \<exists>pat. rc_encoding r = DataPatternFill pat"
    using remembered_form_pattern [OF f] by simp
  show "rc_logical_size r = length data" "length data \<le> unat cs" "offset mod cs = 0" using n al by simp_all
qed

section \<open>Histories of writes\<close>

text \<open>The calls a client makes between creating a writer and finishing it.\<close>

datatype writer_call =
    WriteBuffer bytes
  | WriteAt bytes u64
  | WriteDataChunk data_chunk
  | WriteDataChunkAt data_chunk u64
  | WriteEncoded encoded_data_chunk
  | WriteEncodedAt encoded_data_chunk u64
  | SeekTo seek_from

definition run_call :: "decoders \<Rightarrow> writer_call \<Rightarrow> nat writer_op" where
  "run_call D call =
     (case call of
        WriteBuffer data \<Rightarrow> write_buffer data
      | WriteAt data offset \<Rightarrow> writer_write_at data offset
      | WriteDataChunk ch \<Rightarrow> write_data_chunk ch
      | WriteDataChunkAt ch offset \<Rightarrow> write_data_chunk_at ch offset
      | WriteEncoded ch \<Rightarrow> write_encoded_data_chunk D ch
      | WriteEncodedAt ch offset \<Rightarrow> write_encoded_data_chunk_at D ch offset
      | SeekTo pos \<Rightarrow> sbind (writer_seek_position pos) (\<lambda>_. lift (Inr 0)))"

text \<open>
  The contract: the media is a function from offsets to bytes, and a call that succeeds
  overlays its data at the offset it starts from. \<open>call_data\<close> is the data of a call.
\<close>

definition call_data :: "decoders \<Rightarrow> writer_call \<Rightarrow> bytes" where
  "call_data D call =
     (case call of
        WriteBuffer data \<Rightarrow> data
      | WriteAt data _ \<Rightarrow> data
      | WriteDataChunk ch \<Rightarrow> dc_data ch
      | WriteDataChunkAt ch _ \<Rightarrow> dc_data ch
      | WriteEncoded ch \<Rightarrow> (case decode_write_encoded_data_chunk D ch of Inr data \<Rightarrow> data | Inl _ \<Rightarrow> [])
      | WriteEncodedAt ch _ \<Rightarrow> (case decode_write_encoded_data_chunk D ch of Inr data \<Rightarrow> data | Inl _ \<Rightarrow> [])
      | SeekTo _ \<Rightarrow> [])"

definition call_start :: "ewf_writer \<Rightarrow> writer_call \<Rightarrow> nat" where
  "call_start w call =
     (case call of
        WriteAt _ offset \<Rightarrow> unat offset
      | WriteDataChunkAt _ offset \<Rightarrow> unat offset
      | WriteEncodedAt _ offset \<Rightarrow> unat offset
      | _ \<Rightarrow> unat (ew_current_offset w))"

definition overlay :: "(nat \<Rightarrow> u8) \<Rightarrow> nat \<Rightarrow> bytes \<Rightarrow> nat \<Rightarrow> u8" where
  "overlay media start data k =
     (if start \<le> k \<and> k < start + length data then data ! (k - start) else media k)"

definition step_ok :: "decoders \<Rightarrow> ewf_writer \<Rightarrow> nat \<Rightarrow> bytes \<Rightarrow> nat result \<times> ewf_writer \<Rightarrow> bool" where
  "step_ok D w start data res \<longleftrightarrow>
     writer_inv D (snd res) \<and> ew_options (snd res) = ew_options w \<and>
     ew_chunk_size (snd res) = ew_chunk_size w \<and>
     writer_byte (snd res) = (if is_ok (fst res) then overlay (writer_byte w) start data else writer_byte w)"

lemma write_to_current_step:
  assumes "writer_inv D w" "length data < 2 ^ 64"
  shows "step_ok D w (unat (ew_current_offset w)) data (write_to_current data w)"
proof -
  obtain r w' where run: "write_to_current data w = (r, w')" by (cases "write_to_current data w")
  note ok = write_to_current_ok [OF assms run]
  show ?thesis
  proof (cases r)
    case (Inr n)
    from ok(1) ok(2) [OF Inr] show ?thesis
      by (auto simp: step_ok_def run Inr overlay_def fun_eq_iff)
  next
    case (Inl e)
    have "ew_options w' = ew_options w \<and> ew_chunk_size w' = ew_chunk_size w"
      using run Inl by (auto simp: write_to_current_def sbind_def writer_ensure_not_aborted_def Let_def
          split: if_splits option.splits sum.splits)
    with ok(1) ok(3) [OF Inl] show ?thesis by (simp add: step_ok_def run Inl)
  qed
qed

lemma step_ok_fail: "writer_inv D w \<Longrightarrow> step_ok D w start data (Inl e, w)"
  by (simp add: step_ok_def)

lemma writer_inv_offset: "writer_inv D (w\<lparr>ew_current_offset := offset\<rparr>) = writer_inv D w"
  by (simp add: writer_inv_def remembered_ok_def)

lemma write_at_step:
  assumes "writer_inv D w" "length data < 2 ^ 64"
  shows "step_ok D w (unat offset) data (writer_write_at data offset w)"
  using write_to_current_step [of D "w\<lparr>ew_current_offset := offset\<rparr>" data] assms step_ok_fail [OF assms(1)]
  by (auto simp: writer_write_at_def sbind_def writer_ensure_not_aborted_def set_current_offset_def
      writer_inv_offset step_ok_def)

lemma remember_inv:
  assumes w: "writer_inv D w" and dec: "decode_write_encoded_data_chunk D ch = Inr data"
    and held: "zero_window (rs_file (ew_raw w)) (unat offset) (length data) = data"
    and cs: "unat (ew_chunk_size w) + 4 < 2 ^ 64"
  shows "writer_inv D (remember_encoded_data_chunk_at ch offset (length data) w)"
proof (cases "remembered_encoded_data_chunk ch (ew_options w) (ew_chunk_size w) offset (length data)")
  case None
  with w show ?thesis by (simp add: remember_encoded_data_chunk_at_def)
next
  case (Some r)
  note st = remembered_form_stores [OF Some dec cs]
  have "unat (offset div ew_chunk_size w) * unat (ew_chunk_size w) = unat offset"
    using st(4) by (metis add.right_neutral div_mult_mod_eq unat_div unat_mod unsigned_0)
  with st held have "remembered_ok D w (offset div ew_chunk_size w) r" by (simp add: remembered_ok_def)
  with w Some show ?thesis
    by (auto simp: remember_encoded_data_chunk_at_def writer_inv_def remembered_ok_def)
qed

lemma write_encoded_from_step:
  assumes w: "writer_inv D w" and dec: "decode_write_encoded_data_chunk D ch = Inr data"
    and len: "length data < 2 ^ 64" and cs: "unat (ew_chunk_size w) + 4 < 2 ^ 64"
  shows "step_ok D w (unat (ew_current_offset w)) data (write_encoded_from D ch data w)"
proof -
  obtain r w' where run: "write_to_current data w = (r, w')" by (cases "write_to_current data w")
  note step = write_to_current_step [OF w len, unfolded run]
  show ?thesis
  proof (cases r)
    case (Inl e)
    with step show ?thesis by (simp add: write_encoded_from_def sbind_def run Let_def)
  next
    case (Inr n)
    let ?w = "remember_encoded_data_chunk_at ch (ew_current_offset w) (length data) w'"
    have media: "writer_byte w' = overlay (writer_byte w) (unat (ew_current_offset w)) data"
      using step Inr by (simp add: step_ok_def)
    have "zero_window (rs_file (ew_raw w')) (unat (ew_current_offset w)) (length data) = data"
      by (rule nth_equalityI) (simp_all add: media overlay_def)
    then have "writer_inv D ?w"
      using step dec cs by (intro remember_inv) (simp_all add: step_ok_def)
    moreover have "ew_raw ?w = ew_raw w'" "ew_options ?w = ew_options w'" "ew_chunk_size ?w = ew_chunk_size w'"
      by (simp_all add: remember_encoded_data_chunk_at_def split: option.split)
    ultimately show ?thesis
      using step by (simp add: write_encoded_from_def sbind_def run Let_def Inr step_ok_def)
  qed
qed

lemma decode_write_length: "decode_write_encoded_data_chunk D ch = Inr data \<Longrightarrow> length data = ec_logical_size ch"
  by (auto simp: decode_write_encoded_data_chunk_def try_bind_Inr_iff decode_chunk_def
      dest: decode_chunk_with_padding_length)

definition call_fits :: "writer_call \<Rightarrow> bool" where
  "call_fits call =
     (case call of
        WriteBuffer data \<Rightarrow> length data < 2 ^ 64
      | WriteAt data _ \<Rightarrow> length data < 2 ^ 64
      | WriteDataChunk ch \<Rightarrow> length (dc_data ch) < 2 ^ 64
      | WriteDataChunkAt ch _ \<Rightarrow> length (dc_data ch) < 2 ^ 64
      | WriteEncoded ch \<Rightarrow> ec_logical_size ch < 2 ^ 64
      | WriteEncodedAt ch _ \<Rightarrow> ec_logical_size ch < 2 ^ 64
      | SeekTo _ \<Rightarrow> True)"

lemma overlay_Nil [simp]: "overlay media start [] = media"
  by (auto simp: overlay_def fun_eq_iff)

lemma run_call_step:
  assumes w: "writer_inv D w" and fits: "call_fits call" and cs: "unat (ew_chunk_size w) + 4 < 2 ^ 64"
  shows "step_ok D w (call_start w call) (call_data D call) (run_call D call w)"
proof (cases "ew_aborted w \<and> (\<forall>pos. call \<noteq> SeekTo pos)")
  case True
  then have "run_call D call w = (Inl Aborted, w)"
    by (cases call) (simp_all add: run_call_def write_buffer_def writer_write_at_def write_data_chunk_def
        write_data_chunk_at_def write_encoded_data_chunk_def write_encoded_data_chunk_at_def sbind_def
        writer_ensure_not_aborted_def)
  then show ?thesis using w by (simp add: step_ok_fail)
next
  case False
  show ?thesis
  proof (cases call)
    case (WriteBuffer data)
    with False fits write_to_current_step [OF w, of data] show ?thesis
      by (simp add: run_call_def write_buffer_def sbind_def writer_ensure_not_aborted_def call_start_def
          call_data_def call_fits_def)
  next
    case (WriteAt data offset)
    with fits write_at_step [OF w, of data offset] show ?thesis
      by (simp add: run_call_def call_start_def call_data_def call_fits_def)
  next
    case (WriteDataChunk ch)
    with False fits write_to_current_step [OF w, of "dc_data ch"] step_ok_fail [OF w] show ?thesis
      by (cases "validate_write_data_chunk ch") (simp_all add: run_call_def write_data_chunk_def sbind_def
          writer_ensure_not_aborted_def call_start_def call_data_def call_fits_def)
  next
    case (WriteDataChunkAt ch offset)
    with False fits write_at_step [OF w, of "dc_data ch" offset] step_ok_fail [OF w] show ?thesis
      by (cases "validate_write_data_chunk ch") (simp_all add: run_call_def write_data_chunk_at_def sbind_def
          writer_ensure_not_aborted_def call_start_def call_data_def call_fits_def)
  next
    case (WriteEncoded ch)
    show ?thesis
    proof (cases "decode_write_encoded_data_chunk D ch")
      case (Inl e)
      with False WriteEncoded step_ok_fail [OF w] show ?thesis
        by (simp add: run_call_def write_encoded_data_chunk_def sbind_def writer_ensure_not_aborted_def)
    next
      case (Inr data)
      with fits WriteEncoded have "length data < 2 ^ 64"
        by (simp add: call_fits_def decode_write_length)
      from write_encoded_from_step [OF w Inr this cs] False WriteEncoded Inr show ?thesis
        by (simp add: run_call_def write_encoded_data_chunk_def sbind_def writer_ensure_not_aborted_def
            call_start_def call_data_def)
    qed
  next
    case (WriteEncodedAt ch offset)
    show ?thesis
    proof (cases "decode_write_encoded_data_chunk D ch")
      case (Inl e)
      with False WriteEncodedAt step_ok_fail [OF w] show ?thesis
        by (simp add: run_call_def write_encoded_data_chunk_at_def sbind_def writer_ensure_not_aborted_def)
    next
      case (Inr data)
      with fits WriteEncodedAt have len: "length data < 2 ^ 64"
        by (simp add: call_fits_def decode_write_length)
      have "writer_inv D (w\<lparr>ew_current_offset := offset\<rparr>)" using w by (simp add: writer_inv_offset)
      from write_encoded_from_step [OF this Inr len] cs False WriteEncodedAt Inr show ?thesis
        by (simp add: run_call_def write_encoded_data_chunk_at_def sbind_def writer_ensure_not_aborted_def
            call_start_def call_data_def set_current_offset_def step_ok_def)
    qed
  next
    case (SeekTo pos)
    with w show ?thesis
      by (auto simp: run_call_def sbind_def writer_seek_position_def call_data_def step_ok_def
          writer_inv_offset split: sum.splits)
  qed
qed

section \<open>The encoded spool\<close>

definition chunk_spool_ok :: "chunk_spool \<Rightarrow> bool" where
  "chunk_spool_ok spool \<longleftrightarrow> unat (cs_len spool) = length (cs_file spool)"

text \<open>What a descriptor says is stored in the spool's file for it.\<close>

definition spooled :: "bytes \<Rightarrow> chunk_descriptor \<Rightarrow> encoded_chunk" where
  "spooled content d =
     \<lparr>en_bytes = slice content (unat (cd_data_offset d)) (unat (cd_data_offset d) + unat (cd_data_size d)),
      en_compressed = cd_compressed d, en_has_checksum = cd_has_checksum d,
      en_pattern_fill = cd_pattern_fill d\<rparr>"

lemma spool_append_ok:
  assumes "spool_append e spool = Inr (d, spool')" "chunk_spool_ok spool" "length (en_bytes e) < 2 ^ 64"
  shows "chunk_spool_ok spool'" and "cs_file spool' = cs_file spool @ en_bytes e"
    and "unat (cd_data_offset d) = length (cs_file spool)" and "unat (cd_data_size d) = length (en_bytes e)"
    and "spooled (cs_file spool') d = e"
proof -
  let ?n = "word_of_nat (length (en_bytes e)) :: u64"
  have n: "unat ?n = length (en_bytes e)" using assms(3) by (simp add: unat_of_small_u64)
  from assms(1) obtain len where len: "checked_add (cs_len spool) ?n = Some len"
    and d: "d = \<lparr>cd_data_offset = cs_len spool, cd_data_size = ?n, cd_compressed = en_compressed e,
      cd_has_checksum = en_has_checksum e, cd_pattern_fill = en_pattern_fill e\<rparr>"
    and len': "cs_len spool' = len"
    and f: "cs_file spool' = (if 0 < ?n then file_write (cs_file spool) (unat (cs_len spool)) (en_bytes e)
      else cs_file spool)"
    by (cases "0 < ?n") (auto simp: spool_append_def Let_def try_bind_Inr_iff)
  have "0 < ?n \<longleftrightarrow> en_bytes e \<noteq> []" by (simp add: word_less_nat_alt n)
  then show content: "cs_file spool' = cs_file spool @ en_bytes e"
    using f assms(2) by (auto simp: chunk_spool_ok_def file_write_append)
  show "chunk_spool_ok spool'"
    using len assms(2) by (simp add: chunk_spool_ok_def len' content checked_simps n)
  show off: "unat (cd_data_offset d) = length (cs_file spool)" using assms(2) by (simp add: d chunk_spool_ok_def)
  show sz: "unat (cd_data_size d) = length (en_bytes e)" by (simp add: d n)
  show "spooled (cs_file spool') d = e"
    unfolding spooled_def off sz content by (simp add: slice_append_right d)
qed

text \<open>Copying a chunk out of the spool yields its bytes and leaves the file alone.\<close>

lemma copy_loop_ok:
  assumes "unat (cs_position spool) + remaining \<le> length (cs_file spool)" "length (cs_file spool) < 2 ^ 64"
  shows "\<exists>spool'. copy_loop remaining spool out = Inr (out @ slice (cs_file spool) (unat (cs_position spool))
      (unat (cs_position spool) + remaining), spool') \<and>
    cs_file spool' = cs_file spool \<and> cs_len spool' = cs_len spool \<and>
    unat (cs_position spool') = unat (cs_position spool) + remaining"
  using assms
proof (induction remaining arbitrary: spool out rule: less_induct)
  case (less remaining)
  show ?case
  proof (cases "remaining = 0")
    case True
    then show ?thesis by (simp add: copy_loop.simps)
  next
    case False
    let ?k = "min remaining (64 * 1024)" and ?p = "unat (cs_position spool)"
    let ?s = "spool\<lparr>cs_position := cs_position spool + word_of_nat ?k\<rparr>"
    have k: "0 < ?k" "?k \<le> remaining" using False by simp_all
    have "unat (word_of_nat ?k :: u64) = ?k" by (rule unat_of_small_u64) simp
    then have p: "unat (cs_position ?s) = ?p + ?k"
      using less.prems k by (simp add: unat_add_less)
    have "read_exact (cs_file spool) ?p ?k = Inr (slice (cs_file spool) ?p (?p + ?k))"
      using less.prems(1) k by (intro read_exact_ok) linarith
    then have step: "copy_loop remaining spool out
        = copy_loop (remaining - ?k) ?s (out @ slice (cs_file spool) ?p (?p + ?k))"
      using False by (subst copy_loop.simps) (simp add: Let_def)
    have "remaining - ?k < remaining" "unat (cs_position ?s) + (remaining - ?k) \<le> length (cs_file ?s)"
      using less.prems(1) k unfolding p by simp_all
    from less.IH [OF this, of "out @ slice (cs_file spool) ?p (?p + ?k)"] less.prems(2)
    obtain s' where s': "copy_loop (remaining - ?k) ?s (out @ slice (cs_file spool) ?p (?p + ?k))
        = Inr ((out @ slice (cs_file spool) ?p (?p + ?k)) @ slice (cs_file spool) (?p + ?k) (?p + ?k + (remaining - ?k)), s')"
      "cs_file s' = cs_file spool" "cs_len s' = cs_len spool" "unat (cs_position s') = ?p + ?k + (remaining - ?k)"
      unfolding p by auto
    have "?p + ?k + (remaining - ?k) = ?p + remaining" using k by linarith
    moreover have "slice (cs_file spool) ?p (?p + ?k) @ slice (cs_file spool) (?p + ?k) (?p + remaining)
        = slice (cs_file spool) ?p (?p + remaining)" by (rule slice_join) (use k in linarith)+
    ultimately show ?thesis using s' by (simp add: step)
  qed
qed

lemma copy_chunk_to_ok:
  assumes "unat (cd_data_offset d) + unat (cd_data_size d) \<le> length (cs_file spool)" "chunk_spool_ok spool"
  shows "\<exists>spool'. copy_chunk_to d spool = Inr (en_bytes (spooled (cs_file spool) d), spool') \<and>
    cs_file spool' = cs_file spool \<and> cs_len spool' = cs_len spool"
proof (cases "cd_data_size d = 0")
  case True
  then show ?thesis by (simp add: copy_chunk_to_def spooled_def)
next
  case False
  have "length (cs_file spool) < 2 ^ 64"
    using assms(2) unat_64_less [of "cs_len spool"] by (simp add: chunk_spool_ok_def)
  moreover have "copy_chunk_to d spool
      = copy_loop (unat (cd_data_size d)) (spool\<lparr>cs_position := cd_data_offset d\<rparr>) []"
    using False by (cases spool) (simp add: copy_chunk_to_def)
  ultimately show ?thesis
    using assms(1) copy_loop_ok [of "spool\<lparr>cs_position := cd_data_offset d\<rparr>" "unat (cd_data_size d)" "[]"]
    by (auto simp: spooled_def)
qed

text \<open>The media in chunks, and descriptors that follow one another in the spool.\<close>

definition media_piece :: "bytes \<Rightarrow> nat \<Rightarrow> nat \<Rightarrow> nat \<Rightarrow> bytes" where
  "media_piece content cs sz k = zero_window content (k * cs) (min cs (sz - k * cs))"

definition chunk_total :: "nat \<Rightarrow> nat \<Rightarrow> nat" where
  "chunk_total cs sz = (sz + cs - 1) div cs"

fun laid_out :: "nat \<Rightarrow> chunk_descriptor list \<Rightarrow> bool" where
  "laid_out start [] = True"
| "laid_out start (d # ds) = (unat (cd_data_offset d) = start \<and> laid_out (start + unat (cd_data_size d)) ds)"

lemma below_chunk_total: "0 < cs \<Longrightarrow> k < chunk_total cs sz \<longleftrightarrow> k * cs < sz"
proof -
  assume cs: "0 < cs"
  have "k < chunk_total cs sz \<longleftrightarrow> Suc k * cs \<le> sz + cs - 1"
    using cs less_eq_div_iff_mult_less_eq [of cs "Suc k" "sz + cs - 1"] by (simp add: chunk_total_def Suc_le_eq)
  also have "\<dots> \<longleftrightarrow> k * cs < sz" using cs by auto
  finally show ?thesis .
qed

lemma cap_nat_small:
  assumes "c \<le> 2 ^ 60" shows "cap_nat e c < 2 ^ 64"
proof -
  have d: "c div n \<le> 2 ^ 60" for n using assms by (meson div_le_dividend le_trans)
  have "(c + 511) div 512 * 5 \<le> 2 ^ 60" using assms by simp
  moreover have pow: "(2 :: nat) ^ 60 = 1152921504606846976" "(2 :: nat) ^ 64 = 18446744073709551616"
    by simp_all
  ultimately have "zlib_cap c < 2 ^ 64"
    using assms d [of "2 ^ 12"] d [of "2 ^ 14"] d [of "2 ^ 25"]
    unfolding zlib_cap_def max_less_iff_conj pow by (intro conjI) linarith+
  moreover have "c + c div 100 + 4096 < 2 ^ 64" using assms d [of 100] unfolding pow by linarith
  ultimately have "zlib_cap c < 2 ^ 64" "c + c div 100 + 4096 < 2 ^ 64" .
  then show ?thesis using assms by (cases e) (simp_all add: cap_nat_def)
qed

lemma stores_size: "stores D m cs e data \<Longrightarrow> unat cs \<le> 2 ^ 60 \<Longrightarrow> length (en_bytes e) < 2 ^ 64"
  using cap_nat_small [of "unat cs" "stored_encoding m e"]
  by (cases "en_pattern_fill e") (auto simp: stores_def)

lemma spooled_prefix:
  "unat (cd_data_offset d) + unat (cd_data_size d) \<le> length content \<Longrightarrow>
   spooled (content @ rest) d = spooled content d"
  by (simp add: spooled_def slice_append_left)

lemma encode_next_stores:
  assumes "compressors_lawful C D" "encode_next C options cs remembered data = Inr e"
    and "length data \<le> unat cs" "unat cs \<le> 2 ^ 60"
    and "\<not> is_ewf2_format (wo_format options) \<Longrightarrow> wo_compression options \<noteq> WriteBzip2"
    and "\<And>r. remembered = Some r \<Longrightarrow> rc_logical_size r = length data \<Longrightarrow>
      stores D (method_of (wo_compression options)) cs (rc_encoded r) data"
  shows "stores D (method_of (wo_compression options)) cs e data"
proof -
  have "stores D (method_of (wo_compression options)) cs e data"
    if "encode_chunk C data (wo_compression options) (wo_level options) cs (is_ewf2_format (wo_format options))
      (\<not> is_ewf2_format (wo_format options) \<and> wo_empty_block options) = Inr e"
    by (rule encode_chunk_stores [OF assms(1) that]) (use assms(3-5) in auto)
  with assms(2,6) show ?thesis
    by (auto simp: encode_next_def Let_def split: option.splits if_splits)
qed

lemma encode_loop_ok:
  assumes raw: "raw_spool_ok raw" and cs: "0 < unat cs" "unat cs \<le> 2 ^ 60"
    and rem: "\<And>i r data e. r = None \<or> r = enc i \<Longrightarrow> encode_next C options cs r data = Inr e \<Longrightarrow>
      length data \<le> unat cs \<Longrightarrow> data = zero_window (rs_file raw) (unat i * unat cs) (length data) \<Longrightarrow> Q e data"
    and small: "\<And>e data. Q e data \<Longrightarrow> length (en_bytes e) < 2 ^ 64"
    and off: "unat offset = min (k * unat cs) (unat sz)" "k \<le> chunk_total (unat cs) (unat sz)"
    and es: "chunk_spool_ok (es_spool es)"
    and run: "encode_loop C options raw sz (unat cs) cs enc es offset = Inr es'"
  shows "chunk_spool_ok (es_spool es') \<and> (\<exists>rest ds. cs_file (es_spool es') = cs_file (es_spool es) @ rest \<and>
    es_chunks es' = es_chunks es @ ds \<and> laid_out (length (cs_file (es_spool es))) ds \<and>
    length rest = sum_list (map (unat \<circ> cd_data_size) ds) \<and>
    list_all2 (\<lambda>d. Q (spooled (cs_file (es_spool es')) d)) ds
      (map (media_piece (rs_file raw) (unat cs) (unat sz)) [k..<chunk_total (unat cs) (unat sz)]))"
  using rem off es run
proof (induction "chunk_total (unat cs) (unat sz) - k" arbitrary: k offset enc es)
  case 0
  then have "k = chunk_total (unat cs) (unat sz)" by simp
  with below_chunk_total [OF cs(1), of k "unat sz"] 0(3) have "sz \<le> offset"
    by (auto simp: word_le_nat_alt min_def not_less)
  with 0 show ?case by (subst (asm) encode_loop.simps) simp
next
  case (Suc n)
  let ?N = "chunk_total (unat cs) (unat sz)"
  have kN: "k < ?N" using Suc.hyps(2) by simp
  then have kt: "k * unat cs < unat sz" using below_chunk_total [OF cs(1)] by blast
  then have o: "unat offset = k * unat cs" using Suc.prems(2) by simp
  have sub: "unat (sz - offset) = unat sz - k * unat cs"
    using kt o by (simp add: unat_sub word_le_nat_alt)
  define c where "c = min (unat sz - k * unat cs) (unat cs)"
  have c: "0 < c" "c < 2 ^ 64" using kt cs by (auto simp: c_def)
  have piece: "media_piece (rs_file raw) (unat cs) (unat sz) k = zero_window (rs_file raw) (unat offset) c"
    by (simp add: media_piece_def o c_def min.commute)
  have idx: "unat (offset div cs) = k" using cs(1) by (simp add: unat_div o)
  have "\<not> sz \<le> offset" using kt o by (simp add: word_le_nat_alt)
  with Suc.prems(5) c raw_read_window [OF raw c(2), of offset] obtain e d spool nxt where
    e: "encode_next C options cs (enc (offset div cs)) (zero_window (rs_file raw) (unat offset) c) = Inr e"
    and sp: "spool_append e (es_spool es) = Inr (d, spool)"
    and nxt: "checked_add offset (word_of_nat c) = Some nxt"
    and rest: "encode_loop C options raw sz (unat cs) cs (enc(offset div cs := None))
      \<lparr>es_chunks = es_chunks es @ [d], es_spool = spool\<rparr> nxt = Inr es'"
    by (subst (asm) encode_loop.simps) (auto simp: Let_def sub c_def [symmetric] try_bind_Inr_iff)
  have "c \<le> unat cs" by (simp add: c_def)
  with e have st: "Q e (zero_window (rs_file raw) (unat offset) c)"
    by (intro Suc.prems(1) [of _ "offset div cs"]) (simp_all add: idx o)
  note app = spool_append_ok [OF sp Suc.prems(4) small [OF st]]
  have rem': "Q e data" if "r = None \<or> r = (enc(offset div cs := None)) i" "encode_next C options cs r data = Inr e"
      "length data \<le> unat cs" "data = zero_window (rs_file raw) (unat i * unat cs) (length data)" for i r data e
    using that by (intro Suc.prems(1) [of r i]) (auto split: if_splits)
  have "unat nxt = min (Suc k * unat cs) (unat sz)"
    using nxt c kt by (auto simp: checked_simps unat_of_small_u64 o c_def)
  moreover have "n = ?N - Suc k" "Suc k \<le> ?N" using Suc.hyps(2) by simp_all
  ultimately have "chunk_spool_ok (es_spool es') \<and> (\<exists>rest ds. cs_file (es_spool es') = cs_file spool @ rest \<and>
    es_chunks es' = (es_chunks es @ [d]) @ ds \<and> laid_out (length (cs_file spool)) ds \<and>
    length rest = sum_list (map (unat \<circ> cd_data_size) ds) \<and>
    list_all2 (\<lambda>d. Q (spooled (cs_file (es_spool es')) d)) ds
      (map (media_piece (rs_file raw) (unat cs) (unat sz)) [Suc k..<?N]))"
    using Suc.hyps(1) [of "Suc k" "enc(offset div cs := None)" nxt "\<lparr>es_chunks = es_chunks es @ [d], es_spool = spool\<rparr>",
        OF _ rem' _ _ _ rest] app(1) by simp
  then obtain rest ds where ok': "chunk_spool_ok (es_spool es')" and
    f: "cs_file (es_spool es') = cs_file spool @ rest" and ch: "es_chunks es' = (es_chunks es @ [d]) @ ds"
    and lo: "laid_out (length (cs_file spool)) ds" and lr: "length rest = sum_list (map (unat \<circ> cd_data_size) ds)"
    and all: "list_all2 (\<lambda>d. Q (spooled (cs_file (es_spool es')) d)) ds
      (map (media_piece (rs_file raw) (unat cs) (unat sz)) [Suc k..<?N])" by blast
  have "spooled (cs_file (es_spool es')) d = e"
    unfolding f using app(2-5) by (subst spooled_prefix) simp_all
  then have head: "Q (spooled (cs_file (es_spool es')) d) (media_piece (rs_file raw) (unat cs) (unat sz) k)"
    using st piece by simp
  have "[k..<?N] = k # [Suc k..<?N]" using kN by (rule upt_conv_Cons)
  then have "list_all2 (\<lambda>d. Q (spooled (cs_file (es_spool es')) d)) (d # ds)
      (map (media_piece (rs_file raw) (unat cs) (unat sz)) [k..<?N])" using head all by simp
  moreover have "cs_file (es_spool es') = cs_file (es_spool es) @ (en_bytes e @ rest)" by (simp add: f app(2))
  moreover have "laid_out (length (cs_file (es_spool es))) (d # ds)" using lo app(2-4) by simp
  moreover have "length (en_bytes e @ rest) = sum_list (map (unat \<circ> cd_data_size) (d # ds))" by (simp add: app(4) lr)
  ultimately show ?case using ok' ch by (metis append.assoc append_Cons append_Nil)
qed

end
