(* ===== verification/Written_Media.thy ===== *)
theory Written_Media
  imports Media_Writer
begin

text \<open>
  From the writer to the reader, across the file format: an EWF1 segment that holds the
  encoded spool and the chunk table written for it is looked up, checked and decoded to
  the media that was written. The chunk tables are the bytes of \<open>append_ewf1_table_data\<close>,
  the reader is the one of \<open>Image_Reader\<close>.
\<close>

section \<open>Values of pure operations\<close>

lemma value_of_lift [simp]: "value_of (lift r) = r"
  by (simp add: value_of_def)

lemma value_of_sbind [simp]: "value_of (sbind p g) = try_bind (value_of p) (\<lambda>x. value_of (g x))"
  by (cases "p ()"; cases "fst (p ())") (auto simp: value_of_def sbind_def)

lemma value_of_if [simp]: "value_of (if b then p else q) = (if b then value_of p else value_of q)"
  by simp

lemma value_of_pure_reader [simp]: "value_of (pure_reader tb i off n) = tb i off n"
  by (simp add: pure_reader_def)

section \<open>Decoding with room for padding\<close>

lemma decode_compressed_more_room:
  assumes "decode_compressed s n n = Inr out" "n \<le> m" "m + 1 < 2 ^ 64"
  shows "decode_compressed s n m = Inr out"
  using assms
  by (auto simp: decode_compressed_def try_bind_Inr_iff take_read_to_end_def usize_add_def Let_def
      split: if_splits option.splits)

lemma decode_more_room:
  assumes "decode_chunk D bs e n = Inr out" "e \<in> {EncRaw, EncZlib}" "n \<le> m" "m + 1 < 2 ^ 64"
  shows "decode_chunk_with_padding D bs e n m = Inr out"
proof -
  have "decode_compressed s n n = Inr out \<Longrightarrow> decode_compressed s n m = Inr out" for s
    by (rule decode_compressed_more_room [OF _ assms(3,4)])
  with assms(1-3) show ?thesis
    by (cases "e = EncRaw") (simp_all add: decode_chunk_def decode_chunk_with_padding_def split: if_splits)
qed

section \<open>Entries of a written table\<close>

text \<open>
  The table of a range of chunks in a segment: \<open>content\<close> is the data of the chunks
  described by \<open>ds\<close>, one after the other from the range's base on, and the entries
  stand at its entries offset.
\<close>

definition data_total :: "chunk_descriptor list \<Rightarrow> nat" where
  "data_total ds = sum_list (map (unat \<circ> cd_data_size) ds)"

definition ewf1_range_written :: "bytes list \<Rightarrow> table_range \<Rightarrow> chunk_descriptor list \<Rightarrow> bytes \<Rightarrow> bool" where
  "ewf1_range_written segs rng ds content \<longleftrightarrow>
     tr_kind rng = RangeEwf1 \<and> tr_segment_index rng < length segs \<and>
     length (segs ! tr_segment_index rng) < 2 ^ 64 \<and>
     unat (tr_chunk_count rng) = length ds \<and>
     tr_ewf1_compression_method rng = Some ICZlib \<and>
     length content = data_total ds \<and> length content \<le> 0x80000000 \<and>
     (\<forall>d \<in> set ds. 0 < unat (cd_data_size d)) \<and>
     tr_data_end rng = Some (tr_base_offset rng + word_of_nat (length content)) \<and>
     unat (tr_base_offset rng) + length content \<le> length (segs ! tr_segment_index rng) \<and>
     slice (segs ! tr_segment_index rng) (unat (tr_base_offset rng))
       (unat (tr_base_offset rng) + length content) = content \<and>
     unat (tr_entries_offset rng) + 4 * length ds \<le> length (segs ! tr_segment_index rng) \<and>
     slice (segs ! tr_segment_index rng) (unat (tr_entries_offset rng))
         (unat (tr_entries_offset rng) + 4 * length ds)
       = concat (map ewf1_entry_bytes (entry_offsets 0 ds))"

lemma laid_out_nth:
  "laid_out start ds \<Longrightarrow> k < length ds \<Longrightarrow>
   unat (cd_data_offset (ds ! k)) = start + sum_list (map (unat \<circ> cd_data_size) (take k ds))"
proof (induction start ds arbitrary: k rule: laid_out.induct)
  case (2 start d ds)
  then show ?case by (cases k) (simp_all add: add.assoc)
qed simp

lemma data_total_take_le: "data_total (take k ds) \<le> data_total ds"
proof -
  have "data_total ds = data_total (take k ds) + data_total (drop k ds)"
    unfolding data_total_def by (metis append_take_drop_id map_append sum_list_append)
  then show ?thesis by simp
qed

lemma data_total_Suc:
  "k < length ds \<Longrightarrow> data_total (take (Suc k) ds) = data_total (take k ds) + unat (cd_data_size (ds ! k))"
  by (simp add: data_total_def take_Suc_conv_app_nth)

lemma data_total_less:
  assumes "\<forall>d \<in> set ds. 0 < unat (cd_data_size d)" "k < length ds"
  shows "data_total (take k ds) < data_total ds"
proof -
  have "0 < unat (cd_data_size (ds ! k))" using assms by simp
  then show ?thesis using data_total_Suc [OF assms(2)] data_total_take_le [of "Suc k" ds] by linarith
qed

lemma entry_read:
  assumes w: "ewf1_range_written segs rng ds content" and k: "k < length ds"
    and off: "table_entry_offset rng (word_of_nat k) 4 = Inr off"
  shows "value_of (read_u32_at (pure_reader (table_bytes d segs)) (tr_segment_index rng) off)
    = Inr (ewf1_entry_word (entry_offsets 0 ds ! k))"
proof -
  let ?seg = "segs ! tr_segment_index rng" and ?e = "unat (tr_entries_offset rng)"
  let ?t = "concat (map ewf1_entry_bytes (entry_offsets 0 ds))"
  from w have seg: "tr_segment_index rng < length segs" "length ?seg < 2 ^ 64"
    and fits: "?e + 4 * length ds \<le> length ?seg"
    and table: "slice ?seg ?e (?e + 4 * length ds) = ?t"
    and n: "unat (tr_chunk_count rng) = length ds"
    and ok: "\<forall>d \<in> set ds. 0 < unat (cd_data_size d)" "length content = data_total ds" "length content \<le> 0x80000000"
    by (simp_all add: ewf1_range_written_def)
  have "unat (word_of_nat k :: u64) = k"
    using k n unat_64_less [of "tr_chunk_count rng"] by (intro unat_of_small_u64) simp
  then have off: "unat off = ?e + k * 4"
    using off by (auto simp: table_entry_offset_def try_bind_Inr_iff checked_simps)
  have valid: "snd e < 0x80000000" if e: "e \<in> set (entry_offsets 0 ds)" for e
  proof -
    obtain i where i: "i < length ds" "e = entry_offsets 0 ds ! i"
      using e by (auto simp: in_set_conv_nth)
    then have "snd e = data_total (take i ds)" by (simp add: nth_entry_offsets data_total_def)
    with data_total_less [OF ok(1) i(1)] ok(2,3) show ?thesis by simp
  qed
  have last_entry: "?e + (k * 4 + 4) \<le> ?e + 4 * length ds" using k by simp
  have "slice ?seg (unat off) (unat off + 4) = slice ?t (k * 4) (k * 4 + 4)"
    using last_entry by (simp add: table [symmetric] slice_slice off min_absorb2 add.assoc)
  also have "\<dots> = ewf1_entry_bytes (entry_offsets 0 ds ! k)"
    using ewf1_table.slice_table [of "entry_offsets 0 ds" k "[]"] valid k by simp
  finally have "slice ?seg (unat off) (unat off + 4) = ewf1_entry_bytes (entry_offsets 0 ds ! k)" .
  moreover have "table_bytes d segs (tr_segment_index rng) off 4 = Inr (slice ?seg (unat off) (unat off + 4))"
    using table_bytes_inside [OF seg, of off 4 d] off fits k by simp
  ultimately show ?thesis
    by (simp add: read_u32_at_def ewf1_entry_bytes_def slice_def)
qed

lemma entry_decoded:
  assumes "snd e < 0x80000000" "tr_data_end rng = Some (tr_base_offset rng + word_of_nat len)"
    and "unat (tr_base_offset rng) + len < 2 ^ 64" "snd e < len" "len \<le> 0x80000000"
  shows "decode_ewf1_entry rng (ewf1_entry_word e) c next_raw fin
    = Inr \<lparr>de_compressed = fst e, de_offset = tr_base_offset rng + word_of_nat (snd e)\<rparr>"
proof -
  have parse: "ewf1_table_entry_parse (le32 (ewf1_entry_word e)) = Inr (ewf1_entry_view e)"
    using ewf1_entry_parse [OF assms(1)] by (simp add: ewf1_entry_bytes_def)
  have se: "unat (word_of_nat (snd e) :: u64) = snd e" using assms(1) by (intro unat_of_small_u64) simp
  have add: "checked_add (tr_base_offset rng) (word_of_nat (snd e)) = Some (tr_base_offset rng + word_of_nat (snd e))"
    using assms(3,4) by (simp add: checked_add_def se)
  have sl: "unat (word_of_nat len :: u64) = len" using assms(3) by (intro unat_of_small_u64) simp
  have end_at: "unat (tr_base_offset rng + word_of_nat len) = unat (tr_base_offset rng) + len"
    using assms(3) by (simp add: unat_add_less sl)
  have "checked_sub (tr_base_offset rng + word_of_nat len) (tr_base_offset rng) = Some (word_of_nat len)"
    by (simp add: checked_sub_Some end_at sl)
  then have "should_use_full_width_ewf1_offset rng (ewf1_entry_word e) m c next_raw fin = Inr False" for m
    using assms(5) by (simp add: should_use_full_width_ewf1_offset_def assms(2) word_le_nat_alt sl)
  then show ?thesis
    by (simp add: decode_ewf1_entry_def parse ewf1_entry_view_def add)
qed

text \<open>The stored form of the chunk \<open>k\<close> of such a range.\<close>

definition stored_entry :: "bytes \<Rightarrow> chunk_descriptor list \<Rightarrow> nat \<Rightarrow> encoded_chunk" where
  "stored_entry content ds k =
     \<lparr>en_bytes = slice content (data_total (take k ds)) (data_total (take (Suc k) ds)),
      en_compressed = cd_compressed (ds ! k), en_has_checksum = cd_has_checksum (ds ! k),
      en_pattern_fill = cd_pattern_fill (ds ! k)\<rparr>"

lemma spooled_stored:
  assumes "laid_out 0 ds" "k < length ds"
  shows "spooled content (ds ! k) = stored_entry content ds k"
  using laid_out_nth [OF assms] data_total_Suc [OF assms(2)]
  by (simp add: spooled_def stored_entry_def data_total_def)

text \<open>The chunk the reader finds for the entry \<open>k\<close>.\<close>

definition written_chunk :: "table_range \<Rightarrow> chunk_descriptor list \<Rightarrow> nat \<Rightarrow> nat \<Rightarrow> chunk" where
  "written_chunk rng ds k n =
     (let d = ds ! k; encoding = (if cd_compressed d then EncZlib else EncRaw) in
      \<lparr>ch_segment_index = tr_segment_index rng,
       ch_offset = tr_base_offset rng + word_of_nat (data_total (take k ds)),
       ch_encoded_size = cd_data_size d, ch_logical_size = n, ch_encoding = encoding,
       ch_validate_checksum = (encoding = EncRaw \<and> unat (cd_data_size d) = n + 4)\<rparr>)"

definition size_allowed :: "u64 \<Rightarrow> chunk_descriptor \<Rightarrow> bool" where
  "size_allowed c d \<longleftrightarrow> 0 < unat (cd_data_size d) \<and>
     unat (cd_data_size d) \<le> cap_nat (if cd_compressed d then EncZlib else EncRaw) (unat c)"

lemma validate_size_allowed:
  assumes "size_allowed c d" "unat c \<le> 2 ^ 60"
  shows "validate_encoded_size (cd_data_size d) c (if cd_compressed d then EncZlib else EncRaw) = Inr ()"
proof -
  obtain z where z: "zlib_compressed_chunk_size_cap c = Inr z"
    using zlib_compressed_chunk_size_cap_total [OF assms(2)] by blast
  have r: "raw_chunk_size_cap c = Inr (c + 4)" "unat (c + 4) = unat c + 4"
    using assms(2) checked_add_ok [of c 4] by (simp_all add: raw_chunk_size_cap_def)
  have "cd_data_size d \<noteq> 0" using assms(1) by (auto simp: size_allowed_def)
  then show ?thesis
    using assms(1) z r zlib_compressed_chunk_size_cap_ok [OF z]
    by (cases "cd_compressed d") (auto simp: validate_encoded_size_def encoded_size_cap_def size_allowed_def cap_nat_def
        is_pattern_fill_def word_less_nat_alt)
qed

lemma validate_ewf1_allowed:
  assumes "size_allowed c d" "unat c \<le> 2 ^ 60"
  shows "validate_ewf1_encoded_size (cd_data_size d) c (if cd_compressed d then EncZlib else EncRaw) False = Inr ()"
proof -
  obtain z where z: "zlib_compressed_chunk_size_cap c = Inr z"
    using zlib_compressed_chunk_size_cap_total [OF assms(2)] by blast
  have "cd_compressed d \<Longrightarrow> cd_data_size d \<le> z"
    using assms(1) zlib_compressed_chunk_size_cap_ok [OF z]
    by (simp add: size_allowed_def cap_nat_def word_le_nat_alt)
  then show ?thesis using validate_size_allowed [OF assms] z
    by (auto simp: validate_ewf1_encoded_size_def)
qed

lemma ewf1_encoding_allowed:
  assumes "size_allowed c d" "unat c \<le> 2 ^ 60"
  shows "ewf1_chunk_encoding (cd_compressed d) (cd_data_size d) c ICZlib
    = Inr (if cd_compressed d then EncZlib else EncRaw)"
proof -
  have r: "raw_chunk_size_cap c = Inr (c + 4)" "unat (c + 4) = unat c + 4"
    using assms(2) checked_add_ok [of c 4] by (simp_all add: raw_chunk_size_cap_def)
  then show ?thesis using assms(1)
    by (auto simp: ewf1_chunk_encoding_def size_allowed_def cap_nat_def word_less_nat_alt)
qed

lemma lookup_written:
  assumes w: "ewf1_range_written segs rng ds content" and k: "k < length ds"
    and c: "unat c \<le> 2 ^ 60" and sz: "size_allowed c (ds ! k)" and n_le: "n \<le> unat c"
    and large: "\<not> tr_ewf1_allow_large_compressed_chunks rng"
  shows "value_of (lookup_ewf1_chunk (pure_reader (table_bytes d segs)) c rng (word_of_nat k) n)
    = Inr (written_chunk rng ds k n)"
proof -
  let ?b = "tr_base_offset rng" and ?i = "word_of_nat k :: u64"
  let ?e = "\<lambda>k. entry_offsets 0 ds ! k" and ?T = "\<lambda>k. data_total (take k ds)"
  from w have n: "unat (tr_chunk_count rng) = length ds" and pos: "\<forall>d \<in> set ds. 0 < unat (cd_data_size d)"
    and len: "length content = data_total ds" "length content \<le> 0x80000000"
    and de: "tr_data_end rng = Some (?b + word_of_nat (length content))"
    and room: "unat ?b + length content < 2 ^ 64"
    and entries: "unat (tr_entries_offset rng) + 4 * length ds < 2 ^ 64"
    and meth: "tr_ewf1_compression_method rng = Some ICZlib"
    by (auto simp: ewf1_range_written_def)
  have cnt: "length ds < 2 ^ 64" using unat_64_less [of "tr_chunk_count rng"] by (simp add: n)
  have ui: "unat ?i = k" using k cnt by (intro unat_of_small_u64) simp
  have i1: "?i + 1 = word_of_nat (Suc k)" by simp
  have ui1: "unat (word_of_nat (Suc k) :: u64) = Suc k" if "Suc k < length ds"
    using that cnt by (intro unat_of_small_u64) simp
  have off: "\<exists>off. table_entry_offset rng (word_of_nat j) 4 = Inr off" if j: "j < length ds" for j
  proof -
    have "unat (word_of_nat j :: u64) = j" using j cnt by (intro unat_of_small_u64) simp
    with j entries show ?thesis by (auto simp: table_entry_offset_def checked_mul_def checked_add_def unat_mult_less)
  qed
  have dec: "decode_ewf1_entry rng (ewf1_entry_word (?e j)) c nr fin
      = Inr \<lparr>de_compressed = cd_compressed (ds ! j), de_offset = ?b + word_of_nat (?T j)\<rparr>"
    if j: "j < length ds" for j nr fin
    using entry_decoded [of "?e j" rng "length content" c nr fin] data_total_less [OF pos j] de room len
    by (simp add: nth_entry_offsets [OF j] data_total_def)
  have at: "unat (?b + word_of_nat t) = unat ?b + t" if "t \<le> length content" for t
    using that room by (simp add: unat_add_less unat_of_small_u64)
  have T: "?T (Suc k) = ?T k + unat (cd_data_size (ds ! k))" by (rule data_total_Suc [OF k])
  have le: "?T (Suc k) \<le> length content" using data_total_take_le len(1) by simp
  define nxt where "nxt = ?b + word_of_nat (?T (Suc k))"
  have unxt: "unat nxt = unat ?b + ?T k + unat (cd_data_size (ds ! k))"
    using at [OF le] by (simp add: nxt_def T)
  have ucur: "unat (?b + word_of_nat (?T k)) = unat ?b + ?T k" using at T le by simp
  have ordered: "\<not> nxt \<le> ?b + word_of_nat (?T k)"
    using sz by (simp add: word_le_nat_alt unxt ucur size_allowed_def)
  have size: "nxt - (?b + word_of_nat (?T k)) = cd_data_size (ds ! k)"
    using ordered by (simp add: word_unat_eq_iff unat_sub unxt ucur)
  obtain off0 where off0: "table_entry_offset rng ?i 4 = Inr off0" using off [OF k] by blast
  note read0 = entry_read [OF w k off0, of d]
  have check: "checked_add (word_of_nat m) 4 = Some (cd_data_size (ds ! k)) \<longleftrightarrow> unat (cd_data_size (ds ! k)) = m + 4"
    if "m \<le> unat c" for m
  proof -
    have "unat (word_of_nat m :: u64) = m" using that c by (intro unat_of_small_u64) simp
    with that c show ?thesis by (auto simp: checked_add_Some)
  qed
  note known = off0 read0 dec [OF k] meth ordered size validate_ewf1_allowed [OF sz c] ewf1_encoding_allowed [OF sz c]
    large Let_def check [OF n_le] written_chunk_def
  show ?thesis
  proof (cases "Suc k < length ds")
    case True
    obtain off1 where off1: "table_entry_offset rng (word_of_nat (Suc k)) 4 = Inr off1" using off [OF True] by blast
    note read1 = entry_read [OF w True off1, of d]
    have "word_of_nat (Suc k) < tr_chunk_count rng" using True unfolding word_less_nat_alt ui1 [OF True] n .
    then show ?thesis
      unfolding lookup_ewf1_chunk_def i1
      by (simp only: value_of_sbind value_of_lift value_of_if known off1 read1 dec [OF True] nxt_def [symmetric]
          try_bind_simps ok_or_simps option.case if_True if_False ewf1_decoded_entry.simps simp_thms)
  next
    case False
    then have "Suc k = unat (tr_chunk_count rng)" using k n by simp
    then have "word_of_nat (Suc k) = (word_of_nat (unat (tr_chunk_count rng)) :: u64)" by (rule arg_cong)
    also have "\<dots> = tr_chunk_count rng" by simp
    finally have last_chunk: "\<not> word_of_nat (Suc k) < tr_chunk_count rng" by (simp only: less_irrefl not_False_eq_True)
    have "Suc k = length ds" using False k by simp
    then have "nxt = ?b + word_of_nat (length content)" by (simp add: nxt_def len)
    then have "tr_data_end rng = Some nxt" using de by simp
    with last_chunk show ?thesis
      unfolding lookup_ewf1_chunk_def i1
      by (simp only: value_of_sbind value_of_lift value_of_if known
          try_bind_simps ok_or_simps option.case if_True if_False ewf1_decoded_entry.simps simp_thms)
  qed
qed

section \<open>Images that hold written media\<close>

text \<open>The chunk \<open>i\<close> of the media.\<close>

definition chunk_slice :: "bytes \<Rightarrow> nat \<Rightarrow> nat \<Rightarrow> bytes" where
  "chunk_slice m cs i = slice m (i * cs) (min (length m) (i * cs + cs))"

text \<open>
  An EWF1 table records no checksum flag: the reader takes the last four bytes of a raw
  chunk for a checksum when the chunk is four bytes longer than its data. A stored chunk
  is unambiguous when they are one.
\<close>

definition unambiguous :: "encoded_chunk \<Rightarrow> bytes \<Rightarrow> bool" where
  "unambiguous e data \<longleftrightarrow> en_pattern_fill e = None \<and>
     (en_compressed e \<or> en_has_checksum e \<or> length (en_bytes e) \<noteq> length data + 4)"

definition ewf1_range_holds :: "decoders \<Rightarrow> image \<Rightarrow> bytes \<Rightarrow> table_range \<Rightarrow> bool" where
  "ewf1_range_holds D img m rng \<longleftrightarrow> (\<exists>ds content.
     ewf1_range_written (im_segments img) rng ds content \<and>
     \<not> tr_ewf1_allow_large_compressed_chunks rng \<and>
     segment_context img (tr_segment_index rng) = None \<and>
     (\<forall>k < length ds.
        let data = chunk_slice m (unat (im_chunk_size img)) (unat (tr_first_chunk rng) + k);
          e = stored_entry content ds k in
        stores D EncZlib (im_chunk_size img) e data \<and> unambiguous e data))"

definition image_written :: "decoders \<Rightarrow> image \<Rightarrow> bytes \<Rightarrow> bool" where
  "image_written D img m \<longleftrightarrow>
     0 < unat (im_chunk_size img) \<and> unat (im_chunk_size img) \<le> 2 ^ 60 \<and>
     length m = unat (im_logical_size img) \<and>
     index_ok (im_index img) \<and>
     logical_chunk_count (im_logical_size img) (im_chunk_size img) = Inr (ix_logical_chunks (im_index img)) \<and>
     (\<forall>rng \<in> set (ix_ranges (im_index img)). ewf1_range_holds D img m rng)"

lemma written_chunk_decoded:
  assumes w: "ewf1_range_written (im_segments img) rng ds content" and k: "k < length ds"
    and cs: "unat (im_chunk_size img) \<le> 2 ^ 60" and len: "length data \<le> unat (im_chunk_size img)"
    and ctx: "segment_context img (tr_segment_index rng) = None"
    and st: "stores D EncZlib (im_chunk_size img) (stored_entry content ds k) data"
    and un: "unambiguous (stored_entry content ds k) data"
  shows "decoded_bytes D img i (written_chunk rng ds k (length data)) = Inr data"
proof -
  let ?seg = "im_segments img ! tr_segment_index rng" and ?d = "ds ! k" and ?T = "data_total (take k ds)"
  let ?b = "tr_base_offset rng" and ?e = "stored_entry content ds k" and ?n = "unat (cd_data_size (ds ! k))"
  let ?enc = "if cd_compressed ?d then EncZlib else EncRaw"
  from w have seg: "tr_segment_index rng < length (im_segments img)" "length ?seg < 2 ^ 64"
    and lc: "length content = data_total ds"
    and inside: "unat ?b + length content \<le> length ?seg"
    and data_at: "slice ?seg (unat ?b) (unat ?b + length content) = content"
    unfolding ewf1_range_written_def by blast+
  have fits: "?T + ?n \<le> length content"
    using data_total_take_le [of "Suc k" ds] data_total_Suc [OF k] lc by simp
  have off: "unat (?b + word_of_nat ?T) = unat ?b + ?T"
    using fits inside seg(2) by (simp add: unat_add_less unat_of_small_u64)
  have "slice ?seg (unat ?b + ?T) (unat ?b + ?T + ?n) = slice content ?T (?T + ?n)"
    using fits slice_slice [of ?seg "unat ?b" "unat ?b + length content" ?T "?T + ?n"]
    by (simp add: data_at min_absorb2 add.assoc)
  then have bytes: "slice ?seg (unat ?b + ?T) (unat ?b + ?T + ?n) = en_bytes ?e"
    by (simp add: stored_entry_def data_total_Suc [OF k])
  have range_read: "read_segment_range (im_segments img) (tr_segment_index rng) (?b + word_of_nat ?T)
      (cd_data_size ?d) False = Inr (en_bytes ?e)"
    using read_segment_range_ok [OF seg, of "?b + word_of_nat ?T" "cd_data_size ?d"] fits inside
    by (simp add: off bytes)
  have plain: "en_pattern_fill ?e = None" using un by (simp add: unambiguous_def)
  then have enc: "stored_encoding EncZlib ?e = ?enc" by (simp add: stored_encoding_def stored_entry_def)
  have "length (en_bytes ?e) = ?n" using fits lc by (simp add: stored_entry_def data_total_Suc [OF k])
  then have checksum: "validate_raw_chunk_checksum (en_bytes ?e) (length data) = Inr ()"
    if "\<not> cd_compressed ?d" "?n = length data + 4"
    using that un st by (auto simp: unambiguous_def stores_def stored_entry_def)
  define room where "room = (if has_padded_tail img then unat (im_chunk_size img) else length data)"
  have "decode_chunk_with_padding D (en_bytes ?e) ?enc (length data) room = Inr data"
    using st enc len cs by (intro decode_more_room) (auto simp: stores_def room_def)
  then show ?thesis
    using checksum ctx range_read
    by (auto simp: decoded_bytes_def encoded_bytes_def written_chunk_def Let_def is_pattern_fill_def room_def)
qed

lemma image_written_chunk:
  assumes w: "image_written D img m" and i: "i * unat (im_chunk_size img) < length m"
  shows "\<exists>ch. chunk_at img d (word_of_nat i) = Inr ch \<and>
    decoded_bytes D img (word_of_nat i) ch = Inr (chunk_slice m (unat (im_chunk_size img)) i)"
proof -
  let ?cs = "unat (im_chunk_size img)" and ?ix = "im_index img" and ?c = "word_of_nat i :: u64"
  from w have cs: "0 < ?cs" "?cs \<le> 2 ^ 60" and len: "length m = unat (im_logical_size img)"
    and ix: "index_ok ?ix"
    and cnt: "logical_chunk_count (im_logical_size img) (im_chunk_size img) = Inr (ix_logical_chunks ?ix)"
    and held: "\<And>rng. rng \<in> set (ix_ranges ?ix) \<Longrightarrow> ewf1_range_holds D img m rng"
    by (auto simp: image_written_def)
  have small: "length m < 2 ^ 64" using unat_64_less [of "im_logical_size img"] by (simp add: len)
  have "i \<le> i * ?cs" using cs(1) by simp
  then have "i < 2 ^ 64" using i small by linarith
  then have ui: "unat ?c = i" by (intro unat_of_small_u64) simp
  have "i * ?cs < unat (im_logical_size img)" using i by (simp only: len)
  from offset_below_count [OF cnt this] have "unat ?c < unat (ix_logical_chunks ?ix)" using cs(1) ui by simp
  from range_index_for_ok [OF ix this] obtain j where
    j: "range_index_for ?ix ?c = Inr (j, ix_ranges ?ix ! j)" "j < length (ix_ranges ?ix)"
    "in_range ?c (ix_ranges ?ix ! j)" by blast
  let ?r = "ix_ranges ?ix ! j"
  from held [of ?r] j(2) obtain ds content where r: "ewf1_range_written (im_segments img) ?r ds content"
    "\<not> tr_ewf1_allow_large_compressed_chunks ?r" "segment_context img (tr_segment_index ?r) = None"
    and stored: "\<And>k. k < length ds \<Longrightarrow>
      stores D EncZlib (im_chunk_size img) (stored_entry content ds k) (chunk_slice m ?cs (unat (tr_first_chunk ?r) + k)) \<and>
      unambiguous (stored_entry content ds k) (chunk_slice m ?cs (unat (tr_first_chunk ?r) + k))"
    by (auto simp: ewf1_range_holds_def Let_def)
  define k where "k = i - unat (tr_first_chunk ?r)"
  have n: "unat (tr_chunk_count ?r) = length ds" and kind: "tr_kind ?r = RangeEwf1"
    and pos: "\<forall>d \<in> set ds. 0 < unat (cd_data_size d)"
    using r(1) by (simp_all add: ewf1_range_written_def)
  have first: "unat (tr_first_chunk ?r) \<le> i" and k: "k < length ds"
    using j(3) n by (auto simp: in_range_def ui k_def)
  have ki: "unat (tr_first_chunk ?r) + k = i" using first by (simp add: k_def)
  let ?data = "chunk_slice m ?cs i"
  have ld: "length ?data = min (length m - i * ?cs) ?cs" by (simp add: chunk_slice_def)
  have uk: "unat (word_of_nat k :: u64) = k"
    using k n unat_64_less [of "tr_chunk_count ?r"] by (intro unat_of_small_u64) simp
  have sub: "checked_sub ?c (tr_first_chunk ?r) = Some (word_of_nat k)"
    by (simp add: checked_sub_Some ui uk first) (simp add: k_def)
  have lsz: "logical_chunk_size (im_logical_size img) (im_chunk_size img) ?c = Inr (length ?data)"
    using logical_chunk_size_total [of ?c "im_chunk_size img" "im_logical_size img"] i small
    by (simp add: ui ld len)
  have e: "stores D EncZlib (im_chunk_size img) (stored_entry content ds k) ?data"
    "unambiguous (stored_entry content ds k) ?data" using stored [OF k] ki by simp_all
  have "length (en_bytes (stored_entry content ds k)) = unat (cd_data_size (ds ! k))"
    using r(1) data_total_take_le [of "Suc k" ds] data_total_Suc [OF k]
    by (simp add: stored_entry_def ewf1_range_written_def)
  then have sz: "size_allowed (im_chunk_size img) (ds ! k)"
    using e by (auto simp: size_allowed_def stores_def unambiguous_def stored_encoding_def stored_entry_def)
  have "chunk_at img d ?c = Inr (written_chunk ?r ds k (length ?data))"
    using lookup_written [OF r(1) k cs(2) sz _ r(2), of "length ?data" d] ld
    by (simp add: chunk_at_def lookup_chunk_def j(1) sub lsz kind)
  moreover have "decoded_bytes D img ?c (written_chunk ?r ds k (length ?data)) = Inr ?data"
    by (rule written_chunk_decoded [OF r(1) k cs(2) _ r(3) e]) (simp add: ld)
  ultimately show ?thesis by blast
qed

lemma image_written_holds:
  assumes w: "image_written D img m"
  shows "image_holds (strict_chunk D img d) img m" and "image_holds (policy_chunk D img d z) img m"
proof -
  have "strict_chunk D img d (word_of_nat i) = Inr (chunk_slice m (unat (im_chunk_size img)) i)"
    "policy_chunk D img d z (word_of_nat i) = Inr (chunk_slice m (unat (im_chunk_size img)) i)"
    if i: "i * unat (im_chunk_size img) < length m" for i
    using image_written_chunk [OF w i, of d]
    by (auto simp: strict_chunk_def policy_chunk_def policy_bytes_def)
  with w show "image_holds (strict_chunk D img d) img m" "image_holds (policy_chunk D img d z) img m"
    by (simp_all add: image_holds_def holds_media_def image_written_def chunk_slice_def)
qed

section \<open>The finished writer\<close>

definition written_media :: "ewf_writer \<Rightarrow> nat \<Rightarrow> bytes" where
  "written_media w n = zero_window (rs_file (ew_raw w)) 0 n"

lemma media_piece_slice:
  assumes "k * cs < n"
  shows "media_piece content cs n k = chunk_slice (zero_window content 0 n) cs k"
proof (rule nth_equalityI)
  show "length (media_piece content cs n k) = length (chunk_slice (zero_window content 0 n) cs k)"
    using assms by (auto simp: media_piece_def chunk_slice_def)
  fix i assume "i < length (media_piece content cs n k)"
  then have "i < cs \<and> i < n - k * cs" by (simp add: media_piece_def)
  then have i: "i < cs" "k * cs + i < n" by linarith+
  then show "media_piece content cs n k ! i = chunk_slice (zero_window content 0 n) cs k ! i"
    by (simp add: media_piece_def chunk_slice_def nth_slice)
qed

text \<open>The remembered chunks an EWF1 table can record.\<close>

definition remembered_unambiguous :: "ewf_writer \<Rightarrow> bool" where
  "remembered_unambiguous w \<longleftrightarrow> (\<forall>i r. ew_encoded_chunks w i = Some r \<longrightarrow>
     en_compressed (rc_encoded r) \<or> en_has_checksum (rc_encoded r) \<or>
     length (en_bytes (rc_encoded r)) \<noteq> rc_logical_size r + 4)"

definition spool_holds :: "decoders \<Rightarrow> u64 \<Rightarrow> bytes \<Rightarrow> chunk_descriptor list \<Rightarrow> bytes \<Rightarrow> bool" where
  "spool_holds D cs content ds m \<longleftrightarrow>
     length ds = chunk_total (unat cs) (length m) \<and> length content = data_total ds \<and>
     (\<forall>k < length ds. stores D EncZlib cs (stored_entry content ds k) (chunk_slice m (unat cs) k) \<and>
        unambiguous (stored_entry content ds k) (chunk_slice m (unat cs) k))"

lemma encode_next_unambiguous:
  assumes "encode_next C options cs remembered data = Inr e"
    and ewf1: "\<not> is_ewf2_format (wo_format options)"
    and rem: "\<And>r. remembered = Some r \<Longrightarrow> en_pattern_fill (rc_encoded r) \<noteq> None \<Longrightarrow>
      \<exists>pat. rc_encoding r = DataPatternFill pat"
    and un: "\<And>r. remembered = Some r \<Longrightarrow> en_compressed (rc_encoded r) \<or> en_has_checksum (rc_encoded r) \<or>
      length (en_bytes (rc_encoded r)) \<noteq> rc_logical_size r + 4"
  shows "unambiguous e data"
proof -
  have fresh: "unambiguous e data" if "encode_chunk C data c l cs False eb = Inr e" for c l eb
    using that by (auto simp: encode_chunk_def unambiguous_def encode_uncompressed_def Let_def try_bind_Inr_iff
        split: if_splits write_compression.splits)
  show ?thesis
  proof (cases "\<exists>r. remembered = Some r \<and> rc_logical_size r = length data \<and> encoding_compatible (rc_encoding r) options")
    case True
    then obtain r where r: "remembered = Some r" "rc_logical_size r = length data"
      "encoding_compatible (rc_encoding r) options" by blast
    then have "en_pattern_fill (rc_encoded r) = None" using rem [OF r(1)] ewf1 by force
    moreover have "e = rc_encoded r" using assms(1) r by (simp add: encode_next_def)
    ultimately show ?thesis using un [OF r(1)] r(2) by (simp add: unambiguous_def)
  next
    case False
    with assms(1) ewf1 fresh show ?thesis
      by (auto simp: encode_next_def Let_def split: option.splits if_splits)
  qed
qed

lemma encode_raw_spool_holds:
  assumes w: "writer_inv D w" and law: "compressors_lawful C D"
    and ewf1: "\<not> is_ewf2_format (wo_format (ew_options w))" and bz: "wo_compression (ew_options w) \<noteq> WriteBzip2"
    and cs: "unat (ew_chunk_size w) \<le> 2 ^ 60" and un: "remembered_unambiguous w"
    and run: "encode_raw_spool C (ew_raw w) (ew_encoded_chunks w) sz (ew_chunk_capacity w)
      (ew_chunk_size w) (ew_options w) = Inr es"
  shows "spool_holds D (ew_chunk_size w) (cs_file (es_spool es)) (es_chunks es) (written_media w (unat sz))"
    and "laid_out 0 (es_chunks es)"
proof -
  let ?cs = "unat (ew_chunk_size w)" and ?f = "rs_file (ew_raw w)" and ?F = "cs_file (es_spool es)" and ?ds = "es_chunks es"
  define Q where "Q e data \<longleftrightarrow> stores D EncZlib (ew_chunk_size w) e data \<and> unambiguous e data" for e data
  have pos: "0 < ?cs" and cap: "ew_chunk_capacity w = ?cs" and raw: "raw_spool_ok (ew_raw w)"
    and ok: "\<And>i r. ew_encoded_chunks w i = Some r \<Longrightarrow> remembered_ok D w i r"
    using w by (auto simp: writer_inv_def)
  have m: "method_of (wo_compression (ew_options w)) = EncZlib"
    using bz by (cases "wo_compression (ew_options w)") (simp_all add: method_of_def)
  have Q: "Q e data" if r: "r = None \<or> r = ew_encoded_chunks w i"
    and e: "encode_next C (ew_options w) (ew_chunk_size w) r data = Inr e" and len: "length data \<le> ?cs"
    and data: "data = zero_window ?f (unat i * ?cs) (length data)" for i r data e
  proof -
    have rok: "remembered_ok D w i q" if "r = Some q" for q using r ok that by auto
    have "stores D (method_of (wo_compression (ew_options w))) (ew_chunk_size w) (rc_encoded q) data"
      if q: "r = Some q" "rc_logical_size q = length data" for q
      using rok [OF q(1)] data by (simp add: remembered_ok_def q(2))
    then have "stores D (method_of (wo_compression (ew_options w))) (ew_chunk_size w) e data"
      by (intro encode_next_stores [OF law e len cs]) (use bz in auto)
    moreover have "unambiguous e data"
      using rok un r by (intro encode_next_unambiguous [OF e ewf1])
        (auto simp: remembered_ok_def remembered_unambiguous_def)
    ultimately show ?thesis by (simp add: Q_def m)
  qed
  have small: "Q e data \<Longrightarrow> length (en_bytes e) < 2 ^ 64" for e data
    using stores_size [OF _ cs] by (auto simp: Q_def)
  have run': "encode_loop C (ew_options w) (ew_raw w) sz ?cs (ew_chunk_size w) (ew_encoded_chunks w)
      \<lparr>es_chunks = [], es_spool = chunk_spool_new\<rparr> 0 = Inr es"
    using run by (simp add: encode_raw_spool_def cap)
  have new: "chunk_spool_ok (es_spool \<lparr>es_chunks = [], es_spool = chunk_spool_new\<rparr>)"
    by (simp add: chunk_spool_ok_def chunk_spool_new_def)
  note result = encode_loop_ok [OF raw pos cs, where Q = Q and k = 0, OF Q small _ _ new run']
  have all: "list_all2 (\<lambda>d. Q (spooled ?F d)) ?ds (map (media_piece ?f ?cs (unat sz)) [0..<chunk_total ?cs (unat sz)])"
    and lay: "laid_out 0 ?ds" and lf: "length ?F = data_total ?ds"
    using result by (auto simp: chunk_spool_new_def data_total_def)
  have n: "length ?ds = chunk_total ?cs (unat sz)" using list_all2_lengthD [OF all] by simp
  have "Q (stored_entry ?F ?ds k) (chunk_slice (written_media w (unat sz)) ?cs k)" if k: "k < length ?ds" for k
  proof -
    have "k * ?cs < unat sz" using below_chunk_total [OF pos] k n by simp
    with list_all2_nthD [OF all k] k n show ?thesis
      by (simp add: spooled_stored [OF lay k] media_piece_slice written_media_def)
  qed
  with n lf show "spool_holds D (ew_chunk_size w) ?F ?ds (written_media w (unat sz))"
    by (simp add: spool_holds_def Q_def written_media_def)
  show "laid_out 0 ?ds" by (rule lay)
qed

section \<open>Images of a finished writer\<close>

text \<open>
  Every table range of the image describes a run \<open>[a, b)\<close> of the spool's chunks, as the
  table groups of the writer do, and its data.
\<close>

definition image_of_spool :: "image \<Rightarrow> bytes \<Rightarrow> chunk_descriptor list \<Rightarrow> bool" where
  "image_of_spool img content ds \<longleftrightarrow>
     index_ok (im_index img) \<and>
     logical_chunk_count (im_logical_size img) (im_chunk_size img) = Inr (ix_logical_chunks (im_index img)) \<and>
     (\<forall>rng \<in> set (ix_ranges (im_index img)). \<exists>a b. a \<le> b \<and> b \<le> length ds \<and>
        unat (tr_first_chunk rng) = a \<and>
        ewf1_range_written (im_segments img) rng (slice ds a b)
          (slice content (data_total (take a ds)) (data_total (take b ds))) \<and>
        \<not> tr_ewf1_allow_large_compressed_chunks rng \<and>
        segment_context img (tr_segment_index rng) = None)"

lemma data_total_group:
  assumes "a + k \<le> length ds" "a + k \<le> b"
  shows "data_total (take a ds) + data_total (take k (slice ds a b)) = data_total (take (a + k) ds)"
proof -
  have "take k (slice ds a b) = take k (drop a ds)" using assms by (simp add: slice_def min_def)
  then have "take (a + k) ds = take a ds @ take k (slice ds a b)" using take_add [of a k ds] by simp
  then show ?thesis by (simp add: data_total_def)
qed

lemma stored_group:
  assumes "a + k < b" "b \<le> length ds"
  shows "stored_entry (slice content (data_total (take a ds)) (data_total (take b ds))) (slice ds a b) k
    = stored_entry content ds (a + k)"
proof -
  let ?T = "\<lambda>j. data_total (take j ds)" and ?g = "slice ds a b"
  have T: "?T a + data_total (take k ?g) = ?T (a + k)" "?T a + data_total (take (Suc k) ?g) = ?T (Suc (a + k))"
    using data_total_group [of a k ds b] data_total_group [of a "Suc k" ds b] assms by simp_all
  have "?T (Suc (a + k)) \<le> ?T b"
    using data_total_take_le [of "Suc (a + k)" "take b ds"] assms by (simp add: min_absorb1)
  then have "slice (slice content (?T a) (?T b)) (data_total (take k ?g)) (data_total (take (Suc k) ?g))
      = slice content (?T (a + k)) (?T (Suc (a + k)))"
    by (simp add: slice_slice T min_absorb2)
  moreover have "?g ! k = ds ! (a + k)" using assms by (simp add: nth_slice)
  ultimately show ?thesis by (simp add: stored_entry_def)
qed

lemma image_of_spool_written:
  assumes img: "image_of_spool img content ds" and held: "spool_holds D (im_chunk_size img) content ds m"
    and m: "length m = unat (im_logical_size img)" and cs: "unat (im_chunk_size img) \<le> 2 ^ 60"
  shows "image_written D img m"
proof -
  have "ewf1_range_holds D img m rng" if rng: "rng \<in> set (ix_ranges (im_index img))" for rng
  proof -
    obtain a b where ab: "a \<le> b" "b \<le> length ds" "unat (tr_first_chunk rng) = a"
      and r: "ewf1_range_written (im_segments img) rng (slice ds a b)
        (slice content (data_total (take a ds)) (data_total (take b ds)))"
      "\<not> tr_ewf1_allow_large_compressed_chunks rng" "segment_context img (tr_segment_index rng) = None"
      using img rng by (auto simp: image_of_spool_def)
    have "stores D EncZlib (im_chunk_size img) (stored_entry content ds (a + k)) (chunk_slice m (unat (im_chunk_size img)) (a + k)) \<and>
        unambiguous (stored_entry content ds (a + k)) (chunk_slice m (unat (im_chunk_size img)) (a + k))"
      if k: "k < length (slice ds a b)" for k
    proof -
      have "a + k < length ds" using k ab by simp
      with held show ?thesis by (simp add: spool_holds_def)
    qed
    moreover have "a + k < b" if "k < length (slice ds a b)" for k using that ab by simp
    ultimately show ?thesis
      unfolding ewf1_range_holds_def Let_def
      using r ab by (intro exI conjI) (assumption, simp_all add: stored_group)
  qed
  moreover have "0 < unat (im_chunk_size img)"
    using img logical_chunk_count_ok(1) by (auto simp: image_of_spool_def)
  ultimately show ?thesis using img m cs by (simp add: image_written_def image_of_spool_def)
qed

end
