(* ===== verification/Segment_File.thy ===== *)
theory Segment_File
  imports Section_Scan Writer_Layout Written_Media
begin

text \<open>
  One EWF1 segment file as \<open>write_ewf1_segment\<close> (\<open>src/writer.rs\<close>) emits it: the file
  header, then the metadata, volume, session, sectors, table, error and digest sections,
  chained by the offsets laid out beforehand. The compressed texts (\<open>header\<close>,
  \<open>header2\<close>, \<open>xheader\<close>, \<open>xhash\<close>, \<open>ltree\<close>) are arguments. The lemmas: whatever
  is written is a chain of sections, each behind the one before it, whose offsets are exact.
\<close>

section \<open>The writer\<close>

datatype terminal_section = TerminalDone | TerminalNext

definition ewf1_terminal_type :: "terminal_section \<Rightarrow> bytes" where
  "ewf1_terminal_type t = (case t of TerminalDone \<Rightarrow> bytes_of ''done'' | TerminalNext \<Rightarrow> bytes_of ''next'')"

text \<open>\<open>Ewf1SegmentSections\<close>: which metadata a segment holds, as a bit mask.\<close>

type_synonym ewf1_segment_sections = u8

definition SECTIONS_HEADER :: u8 where "SECTIONS_HEADER = push_bit 0 1"
definition SECTIONS_DIGEST :: u8 where "SECTIONS_DIGEST = push_bit 1 1"
definition SECTIONS_ERRORS :: u8 where "SECTIONS_ERRORS = push_bit 2 1"
definition SECTIONS_SESSIONS :: u8 where "SECTIONS_SESSIONS = push_bit 3 1"

definition sections_for_segment :: "bool \<Rightarrow> bool \<Rightarrow> ewf1_segment_sections" where
  "sections_for_segment is_first is_last =
     (let bits = 0;
        bits = (if is_first then bits OR (SECTIONS_HEADER OR SECTIONS_ERRORS OR SECTIONS_SESSIONS) else bits);
        bits = (if is_last then bits OR SECTIONS_DIGEST else bits)
      in bits)"

definition sections_contain :: "ewf1_segment_sections \<Rightarrow> u8 \<Rightarrow> bool" where
  "sections_contain bits flag \<longleftrightarrow> bits AND flag \<noteq> 0"

record ewf1_segment_write_context =
  wc_segment_number :: u16
  wc_chunk_count :: u32
  wc_sector_count :: u64
  wc_sections :: ewf1_segment_sections
  wc_terminal_section :: terminal_section

text \<open>The compressed texts of the metadata, as their encoders return them.\<close>

record segment_texts =
  st_header :: "bytes option result"
  st_header2 :: "bytes option result"
  st_xheader :: "bytes option result"
  st_xhash :: "bytes option result"
  st_ltree :: "bytes option result"

definition ewf1_signature :: "write_format \<Rightarrow> bytes result" where
  "ewf1_signature fmt =
     (case fmt of
        Ewf1Physical \<Rightarrow> Inr EVF_SIGNATURE
      | Ewf1Smart \<Rightarrow> Inr EVF_SIGNATURE
      | Ewf1Logical \<Rightarrow> Inr LVF_SIGNATURE
      | Ewf2Physical \<Rightarrow> Inl (Panic ''EWF2 formats are not EWF1'')
      | Ewf2Logical \<Rightarrow> Inl (Panic ''EWF2 formats are not EWF1''))"

text \<open>The payloads of the optional sections.\<close>

record segment_payloads =
  pl_header :: "bytes option"
  pl_header2 :: "bytes option"
  pl_xheader :: "bytes option"
  pl_digest :: "bytes option"
  pl_xhash :: "bytes option"
  pl_error2 :: "bytes option"
  pl_session :: "bytes option"
  pl_ltree :: "bytes option"

definition ewf1_segment_payloads ::
    "write_options \<Rightarrow> segment_texts \<Rightarrow> ewf1_segment_sections \<Rightarrow> segment_payloads result" where
  "ewf1_segment_payloads options texts sections =
     (let has = sections_contain sections in
      try_bind (if has SECTIONS_HEADER then st_header texts else Inr None) (\<lambda>header.
      try_bind (if has SECTIONS_HEADER then st_header2 texts else Inr None) (\<lambda>header2.
      try_bind (if has SECTIONS_HEADER then st_xheader texts else Inr None) (\<lambda>xheader.
      let digest = (if has SECTIONS_DIGEST then digest_payload (wo_hashes options) else None) in
      try_bind (if has SECTIONS_DIGEST then st_xhash texts else Inr None) (\<lambda>xhash.
      try_bind (if has SECTIONS_ERRORS then ewf1_error2_payload (wo_acquisition_errors options)
        else Inr None) (\<lambda>error2.
      try_bind (if has SECTIONS_SESSIONS then ewf1_session_payload (wo_sessions options) (wo_tracks options)
        else Inr None) (\<lambda>session.
      try_bind (if has SECTIONS_DIGEST \<and> wo_format options = Ewf1Logical then st_ltree texts
        else Inr None) (\<lambda>ltree.
      Inr \<lparr>pl_header = header, pl_header2 = header2, pl_xheader = xheader, pl_digest = digest,
        pl_xhash = xhash, pl_error2 = error2, pl_session = session, pl_ltree = ltree\<rparr>))))))))"

text \<open>The offset behind an optional section.\<close>

definition offset_after :: "u64 \<Rightarrow> bytes option \<Rightarrow> string \<Rightarrow> u64 result" where
  "offset_after offset payload label =
     (case payload of
        Some data \<Rightarrow>
          ok_or (Option.bind (checked_add offset 76) (\<lambda>v. checked_add v (word_of_nat (length data))))
            (Malformed (''writer '' @ label @ '' descriptor offset overflow''))
      | None \<Rightarrow> Inr offset)"

definition optional_section :: "string \<Rightarrow> u64 \<Rightarrow> bytes option \<Rightarrow> bytes" where
  "optional_section name next_offset payload =
     (case payload of
        Some data \<Rightarrow> section_desc (bytes_of name) next_offset (76 + word_of_nat (length data)) @ data
      | None \<Rightarrow> [])"

fun copy_chunks :: "chunk_descriptor list \<Rightarrow> chunk_spool \<Rightarrow> (bytes \<times> chunk_spool) result" where
  "copy_chunks [] spool = Inr ([], spool)"
| "copy_chunks (chunk # chunks) spool =
     try_bind (copy_chunk_to chunk spool) (\<lambda>(data, spool).
     try_bind (copy_chunks chunks spool) (\<lambda>(rest, spool). Inr (data @ rest, spool)))"

text \<open>The loop over the table groups; the last group continues at \<open>after_tables\<close>.\<close>

fun write_ewf1_groups ::
    "chunk_descriptor list \<Rightarrow> u64 \<Rightarrow> u64 \<Rightarrow> table_group_layout list \<Rightarrow> chunk_spool \<Rightarrow> (bytes \<times> chunk_spool) result" where
  "write_ewf1_groups chunks table_footer_bytes after_tables [] spool = Inr ([], spool)"
| "write_ewf1_groups chunks table_footer_bytes after_tables (layout # layouts) spool =
     (let group_chunks = slice chunks (gl_first_chunk layout) (gl_end_chunk layout) in
      try_bind (ok_or (u32_of_usize (length group_chunks))
        (Unsupported ''EWF1 writer table group chunk count exceeds u32'')) (\<lambda>group_chunk_count.
      let next_group = (case layouts of [] \<Rightarrow> after_tables | nxt # _ \<Rightarrow> gl_sectors_desc_offset nxt) in
      try_bind (copy_chunks group_chunks spool) (\<lambda>(data, spool).
      try_bind (append_ewf1_table_data [] group_chunk_count (gl_sectors_data_offset layout) group_chunks
        (table_footer_bytes \<noteq> 0)) (\<lambda>table_data.
      try_bind (case gl_table2_desc_offset layout of
          Some _ \<Rightarrow> try_bind (append_ewf1_table_data [] group_chunk_count (gl_sectors_data_offset layout)
            group_chunks True) (\<lambda>table2_data.
              Inr (section_desc (bytes_of ''table2'') next_group (76 + gl_table_data_size layout) @ table2_data))
        | None \<Rightarrow> Inr []) (\<lambda>table2.
      try_bind (write_ewf1_groups chunks table_footer_bytes after_tables layouts spool) (\<lambda>(rest, spool).
      Inr (section_desc (bytes_of ''sectors'') (gl_table_desc_offset layout) (76 + gl_payload_size layout) @ data @
        section_desc (bytes_of ''table'') (case gl_table2_desc_offset layout of Some t2 \<Rightarrow> t2 | None \<Rightarrow> next_group)
          (76 + gl_table_data_size layout) @ table_data @ table2 @ rest, spool)))))))"

text \<open>The offsets of the sections, laid out before anything is written.\<close>

record segment_plan =
  sp_header2 :: u64
  sp_xheader :: u64
  sp_volume :: u64
  sp_session :: u64
  sp_sectors :: u64
  sp_layouts :: "table_group_layout list"
  sp_ltree :: u64
  sp_error2 :: u64
  sp_digest :: u64
  sp_xhash :: u64
  sp_done :: u64

definition table_footer_size :: "write_format \<Rightarrow> u64" where
  "table_footer_size fmt = (if fmt = Ewf1Smart then 0 else 4)"

definition plan_ewf1_segment ::
    "chunk_descriptor list \<Rightarrow> write_format \<Rightarrow> nat \<Rightarrow> segment_payloads \<Rightarrow> segment_plan result" where
  "plan_ewf1_segment chunks fmt volume_size pl =
     (let header = word_of_nat FILE_HEADER_SIZE in
      try_bind (offset_after header (pl_header pl) ''volume'') (\<lambda>header2.
      try_bind (offset_after header2 (pl_header2 pl) ''volume'') (\<lambda>xheader.
      try_bind (offset_after xheader (pl_xheader pl) ''volume'') (\<lambda>volume.
      let session = volume + 76 + word_of_nat volume_size in
      try_bind (offset_after session (pl_session pl) ''sectors'') (\<lambda>sectors.
      let writes_table2 = (fmt \<in> {Ewf1Physical, Ewf1Logical}) in
      try_bind (ewf1_table_group_layouts chunks sectors (table_footer_size fmt) writes_table2) (\<lambda>layouts.
      let ltree = (if layouts = [] then sectors else gl_end_offset (last layouts)) in
      try_bind (offset_after ltree (pl_ltree pl) ''error2'') (\<lambda>error2.
      try_bind (offset_after error2 (pl_error2 pl) ''digest'') (\<lambda>digest.
      try_bind (offset_after digest (pl_digest pl) ''xhash'') (\<lambda>xhash.
      try_bind (offset_after xhash (pl_xhash pl) ''done'') (\<lambda>done_at.
      Inr \<lparr>sp_header2 = header2, sp_xheader = xheader, sp_volume = volume, sp_session = session,
        sp_sectors = sectors, sp_layouts = layouts, sp_ltree = ltree, sp_error2 = error2,
        sp_digest = digest, sp_xhash = xhash, sp_done = done_at\<rparr>))))))))))"

definition after_digest :: "segment_plan \<Rightarrow> segment_payloads \<Rightarrow> u64" where
  "after_digest plan pl = (if pl_xhash pl \<noteq> None then sp_xhash plan else sp_done plan)"

definition after_error2 :: "segment_plan \<Rightarrow> segment_payloads \<Rightarrow> u64" where
  "after_error2 plan pl = (if pl_digest pl \<noteq> None then sp_digest plan
     else if pl_xhash pl \<noteq> None then sp_xhash plan else sp_done plan)"

definition after_ltree :: "segment_plan \<Rightarrow> segment_payloads \<Rightarrow> u64" where
  "after_ltree plan pl = (if pl_error2 pl \<noteq> None then sp_error2 plan
     else if pl_digest pl \<noteq> None then sp_digest plan
     else if pl_xhash pl \<noteq> None then sp_xhash plan else sp_done plan)"

definition after_tables :: "segment_plan \<Rightarrow> segment_payloads \<Rightarrow> u64" where
  "after_tables plan pl = (if pl_ltree pl \<noteq> None then sp_ltree plan
     else if pl_error2 pl \<noteq> None then sp_error2 plan
     else if pl_digest pl \<noteq> None then sp_digest plan
     else if pl_xhash pl \<noteq> None then sp_xhash plan else sp_done plan)"

definition write_ewf1_segment ::
    "chunk_spool \<Rightarrow> chunk_descriptor list \<Rightarrow> write_options \<Rightarrow> segment_texts \<Rightarrow> ewf1_segment_write_context
      \<Rightarrow> (bytes \<times> chunk_spool) result" where
  "write_ewf1_segment spool chunks options texts context =
     try_bind (ok_or (u32_of_usize (length chunks))
       (Unsupported ''EWF1 writer segment chunk count exceeds u32'')) (\<lambda>_.
     try_bind (ewf1_segment_payloads options texts (wc_sections context)) (\<lambda>pl.
     try_bind (volume_data_size (wo_format options)) (\<lambda>volume_size.
     try_bind (plan_ewf1_segment chunks (wo_format options) volume_size pl) (\<lambda>plan.
     try_bind (ewf1_signature (wo_format options)) (\<lambda>signature.
     try_bind (volume_data options (wc_chunk_count context) (wc_sector_count context)) (\<lambda>volume.
     try_bind (write_ewf1_groups chunks (table_footer_size (wo_format options)) (after_tables plan pl)
       (sp_layouts plan) spool) (\<lambda>(groups, spool).
     Inr (signature @ [1] @ le16 (wc_segment_number context) @ le16 0 @
       optional_section ''header''
         (if pl_header2 pl \<noteq> None then sp_header2 plan else if pl_xheader pl \<noteq> None then sp_xheader plan
          else sp_volume plan) (pl_header pl) @
       optional_section ''header2'' (if pl_xheader pl \<noteq> None then sp_xheader plan else sp_volume plan)
         (pl_header2 pl) @
       optional_section ''xheader'' (sp_volume plan) (pl_xheader pl) @
       section_desc (bytes_of ''volume'') (if pl_session pl \<noteq> None then sp_session plan else sp_sectors plan)
         (76 + word_of_nat volume_size) @ volume @
       optional_section ''session'' (sp_sectors plan) (pl_session pl) @
       groups @
       optional_section ''ltree'' (after_ltree plan pl) (pl_ltree pl) @
       optional_section ''error2'' (after_error2 plan pl) (pl_error2 pl) @
       optional_section ''digest'' (after_digest plan pl) (pl_digest pl) @
       optional_section ''xhash'' (sp_done plan) (pl_xhash pl) @
       section_desc (ewf1_terminal_type (wc_terminal_section context)) (sp_done plan) 76, spool))))))))"

section \<open>Chains of sections\<close>

fun chain_body :: "nat \<Rightarrow> (bytes \<times> bytes) list \<Rightarrow> bytes" where
  "chain_body off [] = []"
| "chain_body off ((t, data) # secs) =
     section_desc t (word_of_nat (off + 76 + length data)) (word_of_nat (76 + length data)) @ data @
     chain_body (off + 76 + length data) secs"

definition chain_size :: "(bytes \<times> bytes) list \<Rightarrow> nat" where
  "chain_size secs = sum_list (map (\<lambda>(t, data). 76 + length data) secs)"

lemma chain_size_simps [simp]:
  "chain_size [] = 0"
  "chain_size ((t, data) # secs) = 76 + length data + chain_size secs"
  "chain_size (xs @ ys) = chain_size xs + chain_size ys"
  by (simp_all add: chain_size_def)

lemma chain_body_append: "chain_body off (xs @ ys) = chain_body off xs @ chain_body (off + chain_size xs) ys"
  by (induction off xs rule: chain_body.induct) (simp_all add: add.assoc)

lemma section_chain_body:
  "section_chain off secs terminal = chain_body off secs @ section_desc terminal (word_of_nat (off + chain_size secs)) 76"
  by (induction off secs terminal rule: section_chain.induct) (simp_all add: add.assoc)

lemma length_chain_body:
  "\<forall>(t, data) \<in> set secs. section_name_ok t \<Longrightarrow> length (chain_body off secs) = chain_size secs"
  by (induction off secs rule: chain_body.induct) (auto simp: length_section_desc section_name_ok_def)

text \<open>An optional section is a chain of at most one section.\<close>

definition opt_section :: "string \<Rightarrow> bytes option \<Rightarrow> (bytes \<times> bytes) list" where
  "opt_section name payload = (case payload of None \<Rightarrow> [] | Some data \<Rightarrow> [(bytes_of name, data)])"

lemma word_of_nat_unat_eq: "unat w = n \<Longrightarrow> w = word_of_nat n"
  by auto

lemma offset_after_ok:
  assumes "offset_after w p label = Inr w'" "\<And>d. p = Some d \<Longrightarrow> length d < 2 ^ 64"
  shows "unat w' = unat w + chain_size (opt_section name p)"
  using assms
  by (cases p) (auto simp: offset_after_def opt_section_def bind_eq_Some_conv checked_simps unat_of_small_u64)

lemma offset_after_None [simp]: "offset_after w None label = Inr w"
  by (simp add: offset_after_def)

lemma optional_section_chain:
  assumes "p \<noteq> None \<Longrightarrow> nxt = word_of_nat (off + chain_size (opt_section name p))"
  shows "optional_section name nxt p = chain_body off (opt_section name p)"
  using assms by (cases p) (simp_all add: optional_section_def opt_section_def add.assoc)

section \<open>Copied chunks\<close>

lemma data_total_simps [simp]:
  "data_total [] = 0"
  "data_total (d # ds) = unat (cd_data_size d) + data_total ds"
  "data_total (xs @ ys) = data_total xs + data_total ys"
  by (simp_all add: data_total_def)

lemma payload_of_total: "payload_of ds = data_total ds"
  by (simp add: payload_of_def data_total_def)

lemma laid_out_append: "laid_out s (xs @ ys) \<longleftrightarrow> laid_out s xs \<and> laid_out (s + data_total xs) ys"
  by (induction s xs rule: laid_out.induct) (simp_all add: add.assoc)

lemma split_at_slice: "a \<le> b \<Longrightarrow> ds = take a ds @ slice ds a b @ drop b ds"
proof -
  assume "a \<le> b"
  then have "slice ds 0 a @ slice ds a b = slice ds 0 b" by (intro slice_join) simp_all
  then have "take a ds @ slice ds a b = take b ds" by (simp add: slice_def [of ds 0])
  then show ?thesis by (metis append.assoc append_take_drop_id)
qed

lemma laid_out_slice:
  assumes "laid_out s ds" "a \<le> b"
  shows "laid_out (s + data_total (take a ds)) (slice ds a b)"
    and "data_total (take a ds) + data_total (slice ds a b) = data_total (take b ds)"
proof -
  note split = split_at_slice [OF assms(2), of ds]
  have "laid_out s (take a ds @ slice ds a b @ drop b ds)" using assms(1) split by simp
  then show "laid_out (s + data_total (take a ds)) (slice ds a b)" by (simp add: laid_out_append)
  have "slice ds 0 a @ slice ds a b = slice ds 0 b" using assms(2) by (intro slice_join) simp_all
  then have "take a ds @ slice ds a b = take b ds" by (simp add: slice_def [of ds 0])
  then show "data_total (take a ds) + data_total (slice ds a b) = data_total (take b ds)"
    by (metis data_total_simps(3))
qed

lemma copy_chunks_ok:
  assumes "laid_out start cs" "start + data_total cs \<le> length (cs_file spool)" "chunk_spool_ok spool"
  shows "\<exists>spool'. copy_chunks cs spool = Inr (slice (cs_file spool) start (start + data_total cs), spool') \<and>
    cs_file spool' = cs_file spool \<and> chunk_spool_ok spool'"
  using assms
proof (induction cs arbitrary: start spool)
  case (Cons d cs)
  let ?n = "unat (cd_data_size d)"
  have off: "unat (cd_data_offset d) = start" using Cons.prems(1) by simp
  obtain s1 where s1: "copy_chunk_to d spool = Inr (slice (cs_file spool) start (start + ?n), s1)"
    "cs_file s1 = cs_file spool" "cs_len s1 = cs_len spool"
    using copy_chunk_to_ok [of d spool] Cons.prems by (auto simp: spooled_def)
  then have ok1: "chunk_spool_ok s1" using Cons.prems(3) by (simp add: chunk_spool_ok_def)
  obtain s2 where s2: "copy_chunks cs s1 = Inr (slice (cs_file spool) (start + ?n) (start + ?n + data_total cs), s2)"
    "cs_file s2 = cs_file spool" "chunk_spool_ok s2"
    using Cons.IH [of "start + ?n" s1] Cons.prems ok1 by (auto simp: s1(2))
  have "slice (cs_file spool) start (start + ?n) @ slice (cs_file spool) (start + ?n) (start + ?n + data_total cs)
      = slice (cs_file spool) start (start + data_total (d # cs))"
    by (subst slice_join) (simp_all add: add.assoc)
  with s1 s2 show ?case by simp
qed simp

section \<open>The sections of a table group\<close>

definition ewf1_table_bytes :: "u64 \<Rightarrow> chunk_descriptor list \<Rightarrow> bool \<Rightarrow> bytes" where
  "ewf1_table_bytes sectors_data_offset cs footer =
     (let entries = concat (map ewf1_entry_bytes (entry_offsets 0 cs)) in
      table_header (word_of_nat (length cs)) sectors_data_offset @ entries @
      (if footer then le32 (adler32 entries) else []))"

lemma length_ewf1_entries: "length (concat (map ewf1_entry_bytes es)) = 4 * length es"
  by (induction es) (simp_all add: ewf1_entry_bytes_def)

lemma length_ewf1_table_bytes:
  "length (ewf1_table_bytes off cs footer) = 24 + 4 * length cs + (if footer then 4 else 0)"
  by (simp add: ewf1_table_bytes_def Let_def length_ewf1_entries)

definition group_sections ::
    "bytes \<Rightarrow> nat \<Rightarrow> chunk_descriptor list \<Rightarrow> bool \<Rightarrow> table_group_layout \<Rightarrow> (bytes \<times> bytes) list" where
  "group_sections content start chunks footer l =
     (let a = gl_first_chunk l; b = gl_end_chunk l; cs = slice chunks a b in
      [(bytes_of ''sectors'', slice content (start + data_total (take a chunks)) (start + data_total (take b chunks))),
       (bytes_of ''table'', ewf1_table_bytes (gl_sectors_data_offset l) cs footer)] @
      (case gl_table2_desc_offset l of
         Some _ \<Rightarrow> [(bytes_of ''table2'', ewf1_table_bytes (gl_sectors_data_offset l) cs True)] | None \<Rightarrow> []))"

text \<open>What the layout of a group must fit.\<close>

definition layout_fits :: "chunk_descriptor list \<Rightarrow> table_group_layout \<Rightarrow> bool" where
  "layout_fits chunks l \<longleftrightarrow> gl_first_chunk l \<le> gl_end_chunk l \<and> gl_end_chunk l \<le> length chunks \<and>
     unat (gl_payload_size l) = payload_of (slice chunks (gl_first_chunk l) (gl_end_chunk l))"

lemma append_table_bytes:
  assumes "append_ewf1_table_data [] n off cs footer = Inr t" "u32_of_usize (length cs) = Some n"
  shows "t = ewf1_table_bytes off cs footer"
proof -
  have "n = word_of_nat (length cs)" using assms(2) by (simp add: checked_simps word_of_nat_unat_eq)
  with append_ewf1_table_data_ok(1) [OF assms(1)] show ?thesis by (simp add: ewf1_table_bytes_def Let_def)
qed

lemma write_ewf1_groups_ok:
  assumes "write_ewf1_groups chunks fb after layouts spool = Inr (out, spool')"
    and "chunk_spool_ok spool" "laid_out start chunks" "start + data_total chunks \<le> length (cs_file spool)"
    and "contiguous off e (map layout_range layouts)" "after = word_of_nat e"
    and "\<forall>l \<in> set layouts. layout_exact (if fb \<noteq> 0 then 4 else 0) t2 l \<and> layout_fits chunks l" "t2 \<Longrightarrow> fb \<noteq> 0"
  shows "out = chain_body off (concat (map (group_sections (cs_file spool) start chunks (fb \<noteq> 0)) layouts)) \<and>
    off + chain_size (concat (map (group_sections (cs_file spool) start chunks (fb \<noteq> 0)) layouts)) = e \<and>
    cs_file spool' = cs_file spool \<and> chunk_spool_ok spool'"
  using assms
proof (induction layouts arbitrary: off spool out)
  case (Cons l ls)
  let ?a = "gl_first_chunk l" and ?b = "gl_end_chunk l" and ?F = "cs_file spool"
  let ?cs = "slice chunks ?a ?b" and ?next = "case ls of [] \<Rightarrow> after | nxt # _ \<Rightarrow> gl_sectors_desc_offset nxt"
  let ?f = "fb \<noteq> 0"
  from Cons.prems(1) obtain n d s1 table table2 rest where
    n: "u32_of_usize (length ?cs) = Some n" and copy: "copy_chunks ?cs spool = Inr (d, s1)"
    and table: "append_ewf1_table_data [] n (gl_sectors_data_offset l) ?cs ?f = Inr table"
    and table2: "(case gl_table2_desc_offset l of
          Some _ \<Rightarrow> try_bind (append_ewf1_table_data [] n (gl_sectors_data_offset l) ?cs True) (\<lambda>table2_data.
              Inr (section_desc (bytes_of ''table2'') ?next (76 + gl_table_data_size l) @ table2_data))
        | None \<Rightarrow> Inr []) = Inr table2"
    and rest: "write_ewf1_groups chunks fb after ls s1 = Inr (rest, spool')"
    and out: "out = section_desc (bytes_of ''sectors'') (gl_table_desc_offset l) (76 + gl_payload_size l) @ d @
        section_desc (bytes_of ''table'') (case gl_table2_desc_offset l of Some t2 \<Rightarrow> t2 | None \<Rightarrow> ?next)
          (76 + gl_table_data_size l) @ table @ table2 @ rest"
    by (auto simp: Let_def try_bind_Inr_iff)
  have fits: "?a \<le> ?b" "?b \<le> length chunks" "unat (gl_payload_size l) = data_total ?cs"
    and exact: "layout_exact (if ?f then 4 else 0) t2 l"
    using Cons.prems(7) by (simp_all add: layout_fits_def payload_of_total)
  have le: "data_total (take ?b chunks) \<le> data_total chunks" by (rule data_total_take_le)
  note g = laid_out_slice [OF Cons.prems(3) fits(1)]
  have "start + data_total (take ?a chunks) + data_total ?cs \<le> length ?F"
    using g(2) le Cons.prems(4) by linarith
  from copy_chunks_ok [OF g(1) this Cons.prems(2)] copy
  have d: "d = slice ?F (start + data_total (take ?a chunks)) (start + data_total (take ?b chunks))"
    and s1: "cs_file s1 = ?F" "chunk_spool_ok s1" using g(2) by (auto simp: add.assoc)
  have ld: "length d = unat (gl_payload_size l)"
    unfolding d using g(2) le Cons.prems(4) fits(3) by simp
  have t: "table = ewf1_table_bytes (gl_sectors_data_offset l) ?cs ?f" by (rule append_table_bytes [OF table n])
  have lcs: "length ?cs = ?b - ?a" using fits by simp
  have lt: "length table = unat (gl_table_data_size l)"
    using exact by (simp add: t length_ewf1_table_bytes lcs layout_exact_def del: length_slice)
  have here: "unat (gl_sectors_desc_offset l) = off" and cont: "contiguous (unat (gl_end_offset l)) e (map layout_range ls)"
    using Cons.prems(5) by (simp_all add: layout_range_def [of l])
  have nxt: "?next = gl_end_offset l"
  proof (cases ls)
    case Nil
    then show ?thesis using cont Cons.prems(6) by auto
  next
    case (Cons m ms)
    then show ?thesis using cont by (simp add: layout_range_def [of m] word_unat_eq_iff)
  qed
  let ?E = "unat (gl_end_offset l)"
  have IH: "rest = chain_body ?E (concat (map (group_sections ?F start chunks ?f) ls)) \<and>
      ?E + chain_size (concat (map (group_sections ?F start chunks ?f) ls)) = e \<and> cs_file spool' = ?F \<and> chunk_spool_ok spool'"
    using Cons.IH [OF rest s1(2) Cons.prems(3) _ cont Cons.prems(6)] Cons.prems(4,7,8) by (simp add: s1(1))
  have table_at: "unat (gl_table_desc_offset l) = off + 76 + length d"
    using exact here by (simp add: ld layout_exact_def)
  note sizes = word_of_nat_unat_eq [OF ld [symmetric]] word_of_nat_unat_eq [OF lt [symmetric]]
    word_of_nat_unat_eq [OF table_at]
  have groups: "group_sections ?F start chunks ?f l = [(bytes_of ''sectors'', d), (bytes_of ''table'', table)] @
      (case gl_table2_desc_offset l of Some _ \<Rightarrow> [(bytes_of ''table2'',
        ewf1_table_bytes (gl_sectors_data_offset l) ?cs True)] | None \<Rightarrow> [])"
    by (simp add: group_sections_def Let_def d t)
  show ?case
  proof (cases t2)
    case True
    then obtain t2o where t2o: "gl_table2_desc_offset l = Some t2o" "unat t2o = off + 76 + length d + 76 + length table"
      "?E = unat t2o + 76 + length table"
      using exact here by (auto simp: layout_exact_def ld lt)
    have f: ?f using True Cons.prems(8) by simp
    from table2 obtain td where td: "append_ewf1_table_data [] n (gl_sectors_data_offset l) ?cs True = Inr td"
      "table2 = section_desc (bytes_of ''table2'') (gl_end_offset l) (76 + gl_table_data_size l) @ td"
      unfolding nxt by (auto simp: t2o(1) try_bind_Inr_iff)
    have td': "td = table" using append_table_bytes [OF td(1) n] t f by simp
    have ts: "ewf1_table_bytes (gl_sectors_data_offset l) ?cs True = table" using t f by simp
    have E: "?E = off + 76 + length d + 76 + length table + 76 + length table" using t2o by simp
    note w = word_of_nat_unat_eq [OF t2o(2)] word_of_nat_unat_eq [OF E]
    show ?thesis
      using IH unfolding out nxt td(2) td' groups sizes(1,3) t2o(1) option.case w(1) E sizes(2) ts
      by (simp add: groups t2o(1) ts add.assoc w(2))
  next
    case False
    then have t2o: "gl_table2_desc_offset l = None" "?E = off + 76 + length d + 76 + length table"
      using exact here by (auto simp: layout_exact_def ld lt)
    note w = word_of_nat_unat_eq [OF t2o(2)]
    have "table2 = []" using table2 t2o(1) by simp
    with IH show ?thesis
      unfolding out nxt groups sizes(1,3) t2o(1) option.case sizes(2) t2o(2)
      by (simp add: groups t2o(1) add.assoc w)
  qed
qed simp


section \<open>A written segment is a chain of sections\<close>

lemma contiguous_member:
  "contiguous a b rs \<Longrightarrow> (s, e) \<in> set rs \<Longrightarrow> a \<le> s \<and> s \<le> e \<and> e \<le> b"
  by (induction a b rs rule: contiguous.induct) (auto dest: contiguous_le)

lemma contiguous_last: "contiguous a b rs \<Longrightarrow> rs \<noteq> [] \<Longrightarrow> snd (last rs) = b"
  by (induction a b rs rule: contiguous.induct) auto

definition layouts_ok :: "chunk_descriptor list \<Rightarrow> nat \<Rightarrow> bool \<Rightarrow> bool \<Rightarrow> table_group_layout list \<Rightarrow> bool" where
  "layouts_ok chunks off footer t2 layouts \<longleftrightarrow> layouts \<noteq> [] \<and>
     (\<exists>groups. ewf1_table_groups chunks EWF1_TABLE_GROUP_MAX_ENTRIES EWF1_TABLE_GROUP_MAX_PAYLOAD = Inr groups \<and>
        length layouts = length groups) \<and>
     contiguous off (unat (gl_end_offset (last layouts))) (map layout_range layouts) \<and>
     contiguous 0 (length chunks) (map (\<lambda>l. (gl_first_chunk l, gl_end_chunk l)) layouts) \<and>
     (\<forall>l \<in> set layouts. layout_exact (if footer then 4 else 0) t2 l \<and> layout_fits chunks l \<and>
        (chunks \<noteq> [] \<longrightarrow> gl_first_chunk l < gl_end_chunk l) \<and>
        gl_end_chunk l - gl_first_chunk l \<le> EWF1_TABLE_GROUP_MAX_ENTRIES \<and>
        (gl_end_chunk l - gl_first_chunk l \<le> 1 \<or> unat (gl_payload_size l) \<le> unat EWF1_TABLE_GROUP_MAX_PAYLOAD))"

lemma group_layouts_ok:
  assumes run: "ewf1_table_group_layouts chunks off fb t2 = Inr layouts" and n: "length chunks < 2 ^ 32"
    and fb: "unat fb = (if footer then 4 else 0)"
  shows "layouts_ok chunks (unat off) footer t2 layouts"
proof -
  from run obtain groups where
    groups: "ewf1_table_groups chunks EWF1_TABLE_GROUP_MAX_ENTRIES EWF1_TABLE_GROUP_MAX_PAYLOAD = Inr groups"
    and loop: "ewf1_layouts_loop fb t2 off groups = Inr layouts"
    by (auto simp: ewf1_table_group_layouts_def try_bind_Inr_iff)
  note g = ewf1_table_groups_ok [OF groups]
  have "\<forall>g \<in> set groups. tg_end_chunk g - tg_first_chunk g < 2 ^ 64"
  proof
    fix g' assume "g' \<in> set groups"
    then have "(tg_first_chunk g', tg_end_chunk g') \<in> set (map group_range groups)"
      by (auto simp: group_range_def intro!: image_eqI)
    with contiguous_member [OF g(1)] n show "tg_end_chunk g' - tg_first_chunk g' < 2 ^ 64"
      by fastforce
  qed
  note l = ewf1_layouts_loop_ok [OF loop this]
  then obtain e where e: "contiguous (unat off) e (map layout_range layouts)" by blast
  have same: "map (\<lambda>l. (gl_first_chunk l, gl_end_chunk l)) layouts = map group_range groups"
    "map gl_payload_size layouts = map tg_payload_size groups" using l by simp_all
  then have len: "length layouts = length groups" by (metis length_map)
  then have ne: "layouts \<noteq> []" using g(4) by auto
  have "snd (last (map layout_range layouts)) = e" using contiguous_last [OF e] ne by simp
  then have e_last: "e = unat (gl_end_offset (last layouts))" using ne by (simp add: last_map layout_range_def)
  have "layout_fits chunks l \<and> (chunks \<noteq> [] \<longrightarrow> gl_first_chunk l < gl_end_chunk l) \<and>
      gl_end_chunk l - gl_first_chunk l \<le> EWF1_TABLE_GROUP_MAX_ENTRIES \<and>
      (gl_end_chunk l - gl_first_chunk l \<le> 1 \<or> unat (gl_payload_size l) \<le> unat EWF1_TABLE_GROUP_MAX_PAYLOAD)"
    if mem: "l \<in> set layouts" for l
  proof -
    obtain i where i: "i < length layouts" "l = layouts ! i" using mem by (auto simp: in_set_conv_nth)
    have gi: "gl_first_chunk l = tg_first_chunk (groups ! i)" "gl_end_chunk l = tg_end_chunk (groups ! i)"
      "gl_payload_size l = tg_payload_size (groups ! i)"
      using arg_cong [OF same(1), of "\<lambda>xs. xs ! i"] arg_cong [OF same(2), of "\<lambda>xs. xs ! i"] i len
      by (simp_all add: group_range_def)
    have "groups ! i \<in> set groups" using i len by simp
    then have "(tg_first_chunk (groups ! i), tg_end_chunk (groups ! i)) \<in> set (map group_range groups)"
      by (auto simp: group_range_def intro!: image_eqI)
    from contiguous_member [OF g(1) this] g(3) [OF _ \<open>groups ! i \<in> set groups\<close>] g(2) [OF \<open>groups ! i \<in> set groups\<close>] show ?thesis
      by (auto simp: layout_fits_def group_ok_def gi Let_def EWF1_TABLE_GROUP_MAX_ENTRIES_def)
  qed
  with l e g(1) ne fb groups len show ?thesis
    by (simp add: layouts_ok_def same(1) flip: e_last)
qed

definition segment_sections ::
    "segment_payloads \<Rightarrow> bytes \<Rightarrow> bytes \<Rightarrow> nat \<Rightarrow> chunk_descriptor list \<Rightarrow> bool \<Rightarrow> table_group_layout list
      \<Rightarrow> (bytes \<times> bytes) list" where
  "segment_sections pl volume content start chunks footer layouts =
     opt_section ''header'' (pl_header pl) @ opt_section ''header2'' (pl_header2 pl) @
     opt_section ''xheader'' (pl_xheader pl) @ [(bytes_of ''volume'', volume)] @
     opt_section ''session'' (pl_session pl) @
     concat (map (group_sections content start chunks footer) layouts) @
     opt_section ''ltree'' (pl_ltree pl) @ opt_section ''error2'' (pl_error2 pl) @
     opt_section ''digest'' (pl_digest pl) @ opt_section ''xhash'' (pl_xhash pl)"

definition segment_file_header :: "bytes \<Rightarrow> u16 \<Rightarrow> bytes" where
  "segment_file_header signature segment_number = signature @ [1] @ le16 segment_number @ le16 0"

definition tables_offset :: "segment_payloads \<Rightarrow> bytes \<Rightarrow> nat" where
  "tables_offset pl volume = 13 + chain_size (opt_section ''header'' (pl_header pl) @
     opt_section ''header2'' (pl_header2 pl) @ opt_section ''xheader'' (pl_xheader pl) @
     [(bytes_of ''volume'', volume)] @ opt_section ''session'' (pl_session pl))"

lemma length_optional_section:
  "length name \<le> 16 \<Longrightarrow> length (optional_section name nxt p) = chain_size (opt_section name p)"
  by (cases p) (simp_all add: optional_section_def opt_section_def length_section_desc)

definition payloads_small :: "segment_payloads \<Rightarrow> bool" where
  "payloads_small pl \<longleftrightarrow> (\<forall>p \<in> {pl_header pl, pl_header2 pl, pl_xheader pl, pl_session pl, pl_ltree pl,
     pl_error2 pl, pl_digest pl, pl_xhash pl}. \<forall>d. p = Some d \<longrightarrow> length d < 2 ^ 64)"

text \<open>The planned offsets, as natural numbers.\<close>

lemma plan_ewf1_segment_ok:
  assumes run: "plan_ewf1_segment chunks fmt vsz pl = Inr plan" and n: "length chunks < 2 ^ 32"
    and small: "payloads_small pl" "length volume = vsz" "tables_offset pl volume < 2 ^ 64"
  shows "unat (sp_header2 plan) = 13 + chain_size (opt_section ''header'' (pl_header pl))"
    and "unat (sp_xheader plan) = unat (sp_header2 plan) + chain_size (opt_section ''header2'' (pl_header2 pl))"
    and "unat (sp_volume plan) = unat (sp_xheader plan) + chain_size (opt_section ''xheader'' (pl_xheader pl))"
    and "unat (sp_session plan) = unat (sp_volume plan) + 76 + vsz"
    and "unat (sp_sectors plan) = unat (sp_session plan) + chain_size (opt_section ''session'' (pl_session pl))"
    and "layouts_ok chunks (unat (sp_sectors plan)) (fmt \<noteq> Ewf1Smart) (fmt \<in> {Ewf1Physical, Ewf1Logical}) (sp_layouts plan)"
    and "sp_ltree plan = gl_end_offset (last (sp_layouts plan))"
    and "unat (sp_error2 plan) = unat (sp_ltree plan) + chain_size (opt_section ''ltree'' (pl_ltree pl))"
    and "unat (sp_digest plan) = unat (sp_error2 plan) + chain_size (opt_section ''error2'' (pl_error2 pl))"
    and "unat (sp_xhash plan) = unat (sp_digest plan) + chain_size (opt_section ''digest'' (pl_digest pl))"
    and "unat (sp_done plan) = unat (sp_xhash plan) + chain_size (opt_section ''xhash'' (pl_xhash pl))"
    and "after_digest plan pl = sp_xhash plan" "after_error2 plan pl = sp_digest plan"
    "after_ltree plan pl = sp_error2 plan" "after_tables plan pl = sp_ltree plan"
    "pl_xheader pl = None \<Longrightarrow> sp_volume plan = sp_xheader plan" "pl_header2 pl = None \<Longrightarrow> sp_xheader plan = sp_header2 plan"
    "pl_session pl = None \<Longrightarrow> sp_sectors plan = sp_session plan"
proof -
  from run have h2: "offset_after (word_of_nat 13) (pl_header pl) ''volume'' = Inr (sp_header2 plan)"
    and xh: "offset_after (sp_header2 plan) (pl_header2 pl) ''volume'' = Inr (sp_xheader plan)"
    and vd: "offset_after (sp_xheader plan) (pl_xheader pl) ''volume'' = Inr (sp_volume plan)"
    and sess: "sp_session plan = sp_volume plan + 76 + word_of_nat vsz"
    and sd: "offset_after (sp_session plan) (pl_session pl) ''sectors'' = Inr (sp_sectors plan)"
    and lay: "ewf1_table_group_layouts chunks (sp_sectors plan) (table_footer_size fmt)
      (fmt \<in> {Ewf1Physical, Ewf1Logical}) = Inr (sp_layouts plan)"
    and lt: "sp_ltree plan = (if sp_layouts plan = [] then sp_sectors plan else gl_end_offset (last (sp_layouts plan)))"
    and e2: "offset_after (sp_ltree plan) (pl_ltree pl) ''error2'' = Inr (sp_error2 plan)"
    and dg: "offset_after (sp_error2 plan) (pl_error2 pl) ''digest'' = Inr (sp_digest plan)"
    and xx: "offset_after (sp_digest plan) (pl_digest pl) ''xhash'' = Inr (sp_xhash plan)"
    and dn: "offset_after (sp_xhash plan) (pl_xhash pl) ''done'' = Inr (sp_done plan)"
    by (auto simp: plan_ewf1_segment_def Let_def try_bind_Inr_iff)
  note sm = small(1) [unfolded payloads_small_def]
  show o1: "unat (sp_header2 plan) = 13 + chain_size (opt_section ''header'' (pl_header pl))"
    using offset_after_ok [OF h2] sm by simp
  show o2: "unat (sp_xheader plan) = unat (sp_header2 plan) + chain_size (opt_section ''header2'' (pl_header2 pl))"
    using offset_after_ok [OF xh] sm by simp
  show o3: "unat (sp_volume plan) = unat (sp_xheader plan) + chain_size (opt_section ''xheader'' (pl_xheader pl))"
    using offset_after_ok [OF vd] sm by simp
  have "unat (sp_volume plan) + (76 + vsz) < 2 ^ 64"
    using small(2,3) o1 o2 o3 by (simp add: tables_offset_def)
  moreover then have "unat (word_of_nat (76 + vsz) :: u64) = 76 + vsz" by (intro unat_small_u64) simp
  ultimately show o4: "unat (sp_session plan) = unat (sp_volume plan) + 76 + vsz"
    unfolding sess add.assoc using unat_add_less [of "sp_volume plan" "word_of_nat (76 + vsz)"] by simp
  show "unat (sp_sectors plan) = unat (sp_session plan) + chain_size (opt_section ''session'' (pl_session pl))"
    using offset_after_ok [OF sd] sm by simp
  show l: "layouts_ok chunks (unat (sp_sectors plan)) (fmt \<noteq> Ewf1Smart) (fmt \<in> {Ewf1Physical, Ewf1Logical}) (sp_layouts plan)"
    by (rule group_layouts_ok [OF lay n]) (simp add: table_footer_size_def)
  then have "sp_layouts plan \<noteq> []" by (simp add: layouts_ok_def)
  then show "sp_ltree plan = gl_end_offset (last (sp_layouts plan))" by (simp add: lt)
  show "unat (sp_error2 plan) = unat (sp_ltree plan) + chain_size (opt_section ''ltree'' (pl_ltree pl))"
    using offset_after_ok [OF e2] sm by simp
  show "unat (sp_digest plan) = unat (sp_error2 plan) + chain_size (opt_section ''error2'' (pl_error2 pl))"
    using offset_after_ok [OF dg] sm by simp
  show "unat (sp_xhash plan) = unat (sp_digest plan) + chain_size (opt_section ''digest'' (pl_digest pl))"
    using offset_after_ok [OF xx] sm by simp
  show "unat (sp_done plan) = unat (sp_xhash plan) + chain_size (opt_section ''xhash'' (pl_xhash pl))"
    using offset_after_ok [OF dn] sm by simp
  show ad: "after_digest plan pl = sp_xhash plan" using dn by (cases "pl_xhash pl") (simp_all add: after_digest_def)
  show ae: "after_error2 plan pl = sp_digest plan"
    using xx ad by (cases "pl_digest pl") (simp_all add: after_error2_def after_digest_def)
  show al: "after_ltree plan pl = sp_error2 plan"
    using dg ae by (cases "pl_error2 pl") (simp_all add: after_ltree_def after_error2_def)
  show "after_tables plan pl = sp_ltree plan"
    using e2 al by (cases "pl_ltree pl") (simp_all add: after_tables_def after_ltree_def)
  show "pl_xheader pl = None \<Longrightarrow> sp_volume plan = sp_xheader plan" using vd by simp
  show "pl_header2 pl = None \<Longrightarrow> sp_xheader plan = sp_header2 plan" using xh by simp
  show "pl_session pl = None \<Longrightarrow> sp_sectors plan = sp_session plan" using sd by simp
qed

lemma write_ewf1_segment_ok:
  assumes run: "write_ewf1_segment spool chunks options texts context = Inr (out, spool')"
    and spool: "chunk_spool_ok spool" "laid_out start chunks" "start + data_total chunks \<le> length (cs_file spool)"
    and ident: "\<forall>i \<in> set_option (wo_set_identifier options). length i = 16"
    and small: "length out < 2 ^ 64"
  shows "\<exists>pl volume layouts signature.
    ewf1_segment_payloads options texts (wc_sections context) = Inr pl \<and>
    volume_data options (wc_chunk_count context) (wc_sector_count context) = Inr volume \<and>
    ewf1_signature (wo_format options) = Inr signature \<and>
    layouts_ok chunks (tables_offset pl volume) (wo_format options \<noteq> Ewf1Smart)
      (wo_format options \<in> {Ewf1Physical, Ewf1Logical}) layouts \<and>
    length chunks < 2 ^ 32 \<and>
    out = segment_file_header signature (wc_segment_number context) @
      section_chain 13 (segment_sections pl volume (cs_file spool) start chunks
        (wo_format options \<noteq> Ewf1Smart) layouts) (ewf1_terminal_type (wc_terminal_section context)) \<and>
    cs_file spool' = cs_file spool \<and> chunk_spool_ok spool'"
proof -
  let ?smart = "wo_format options = Ewf1Smart" and ?t2 = "wo_format options \<in> {Ewf1Physical, Ewf1Logical}"
  let ?fb = "table_footer_size (wo_format options)"
  from run obtain pl vsz plan signature volume groups where
    n: "u32_of_usize (length chunks) \<noteq> None"
    and pl: "ewf1_segment_payloads options texts (wc_sections context) = Inr pl"
    and vsz: "volume_data_size (wo_format options) = Inr vsz"
    and plan: "plan_ewf1_segment chunks (wo_format options) vsz pl = Inr plan"
    and signature: "ewf1_signature (wo_format options) = Inr signature"
    and volume: "volume_data options (wc_chunk_count context) (wc_sector_count context) = Inr volume"
    and groups: "write_ewf1_groups chunks ?fb (after_tables plan pl) (sp_layouts plan) spool = Inr (groups, spool')"
    and out: "out = signature @ [1] @ le16 (wc_segment_number context) @ le16 0 @
       optional_section ''header''
         (if pl_header2 pl \<noteq> None then sp_header2 plan else if pl_xheader pl \<noteq> None then sp_xheader plan
          else sp_volume plan) (pl_header pl) @
       optional_section ''header2'' (if pl_xheader pl \<noteq> None then sp_xheader plan else sp_volume plan)
         (pl_header2 pl) @
       optional_section ''xheader'' (sp_volume plan) (pl_xheader pl) @
       section_desc (bytes_of ''volume'') (if pl_session pl \<noteq> None then sp_session plan else sp_sectors plan)
         (76 + word_of_nat vsz) @ volume @
       optional_section ''session'' (sp_sectors plan) (pl_session pl) @
       groups @
       optional_section ''ltree'' (after_ltree plan pl) (pl_ltree pl) @
       optional_section ''error2'' (after_error2 plan pl) (pl_error2 pl) @
       optional_section ''digest'' (after_digest plan pl) (pl_digest pl) @
       optional_section ''xhash'' (sp_done plan) (pl_xhash pl) @
       section_desc (ewf1_terminal_type (wc_terminal_section context)) (sp_done plan) 76"
    unfolding write_ewf1_segment_def try_bind_Inr_iff ok_or_Inr_iff by fastforce
  let ?sz = "\<lambda>name p. chain_size (opt_section name p)"
  have n32: "length chunks < 2 ^ 32" using n by (cases "u32_of_usize (length chunks)") (auto simp: u32_of_usize_def split: if_splits)
  have fmt: "wo_format options \<in> {Ewf1Physical, Ewf1Logical, Ewf1Smart}"
    using signature by (cases "wo_format options") (simp_all add: ewf1_signature_def)
  have lv: "length volume = vsz"
    using volume_data_checksum(1) [OF volume fmt ident] vsz fmt by (auto simp: volume_data_size_def)
  have lsig: "length signature = 8"
    using signature fmt by (auto simp: ewf1_signature_def EVF_SIGNATURE_def LVF_SIGNATURE_def)
  have lout: "length out = 13 + ?sz ''header'' (pl_header pl) + ?sz ''header2'' (pl_header2 pl) +
      ?sz ''xheader'' (pl_xheader pl) + (76 + vsz) + ?sz ''session'' (pl_session pl) + length groups +
      ?sz ''ltree'' (pl_ltree pl) + ?sz ''error2'' (pl_error2 pl) + ?sz ''digest'' (pl_digest pl) +
      ?sz ''xhash'' (pl_xhash pl) + 76"
    unfolding out by (cases "wc_terminal_section context")
      (simp_all add: length_optional_section length_section_desc lv lsig ewf1_terminal_type_def)
  have ps: "payloads_small pl"
    unfolding payloads_small_def
  proof (intro ballI allI impI)
    fix p d assume p: "p \<in> {pl_header pl, pl_header2 pl, pl_xheader pl, pl_session pl, pl_ltree pl,
      pl_error2 pl, pl_digest pl, pl_xhash pl}" "p = Some d"
    have sized: "length d \<le> ?sz name p" for name using p(2) by (simp add: opt_section_def)
    have "length d \<le> length out"
      using p(1) sized [of "''header''"] sized [of "''header2''"] sized [of "''xheader''"] sized [of "''session''"]
        sized [of "''ltree''"] sized [of "''error2''"] sized [of "''digest''"] sized [of "''xhash''"]
      unfolding lout by (elim insertE emptyE; hypsubst; linarith)
    with small show "length d < 2 ^ 64" by linarith
  qed
  have at: "tables_offset pl volume < 2 ^ 64" using small by (simp add: lout tables_offset_def lv)
  note ok = plan_ewf1_segment_ok [OF plan n32 ps lv at]
  let ?L = "sp_layouts plan" and ?foot = "?fb \<noteq> 0"
  have foot: "?foot \<longleftrightarrow> \<not> ?smart" by (simp add: table_footer_size_def)
  have g: "groups = chain_body (unat (sp_sectors plan)) (concat (map (group_sections (cs_file spool) start chunks (\<not> ?smart)) ?L)) \<and>
    unat (sp_sectors plan) + chain_size (concat (map (group_sections (cs_file spool) start chunks (\<not> ?smart)) ?L))
      = unat (sp_ltree plan) \<and> cs_file spool' = cs_file spool \<and> chunk_spool_ok spool'"
    using write_ewf1_groups_ok [OF groups spool, of "unat (sp_sectors plan)" "unat (sp_ltree plan)" ?t2] ok(6,7,15) foot fmt
    by (auto simp: layouts_ok_def)
  have tables: "unat (sp_sectors plan) = tables_offset pl volume"
    using ok(1-5) by (simp add: tables_offset_def lv)
  have header: "optional_section ''header''
         (if pl_header2 pl \<noteq> None then sp_header2 plan else if pl_xheader pl \<noteq> None then sp_xheader plan
          else sp_volume plan) (pl_header pl) = chain_body 13 (opt_section ''header'' (pl_header pl))"
    using word_of_nat_unat_eq [OF ok(1)] ok(16,17) by (intro optional_section_chain) auto
  have header2: "optional_section ''header2'' (if pl_xheader pl \<noteq> None then sp_xheader plan else sp_volume plan)
         (pl_header2 pl) = chain_body (unat (sp_header2 plan)) (opt_section ''header2'' (pl_header2 pl))"
    using word_of_nat_unat_eq [OF ok(2)] ok(16) by (intro optional_section_chain) auto
  have xheader: "optional_section ''xheader'' (sp_volume plan) (pl_xheader pl)
      = chain_body (unat (sp_xheader plan)) (opt_section ''xheader'' (pl_xheader pl))"
    using word_of_nat_unat_eq [OF ok(3)] by (intro optional_section_chain) auto
  have vol: "section_desc (bytes_of ''volume'') (if pl_session pl \<noteq> None then sp_session plan else sp_sectors plan)
         (76 + word_of_nat vsz) @ volume = chain_body (unat (sp_volume plan)) [(bytes_of ''volume'', volume)]"
    using word_of_nat_unat_eq [OF ok(4)] ok(18) by (simp add: lv)
  have session: "optional_section ''session'' (sp_sectors plan) (pl_session pl)
      = chain_body (unat (sp_session plan)) (opt_section ''session'' (pl_session pl))"
    using word_of_nat_unat_eq [OF ok(5)] by (intro optional_section_chain) auto
  have ltree: "optional_section ''ltree'' (after_ltree plan pl) (pl_ltree pl)
      = chain_body (unat (sp_ltree plan)) (opt_section ''ltree'' (pl_ltree pl))"
    using word_of_nat_unat_eq [OF ok(8)] ok(14) by (intro optional_section_chain) auto
  have error2: "optional_section ''error2'' (after_error2 plan pl) (pl_error2 pl)
      = chain_body (unat (sp_error2 plan)) (opt_section ''error2'' (pl_error2 pl))"
    using word_of_nat_unat_eq [OF ok(9)] ok(13) by (intro optional_section_chain) auto
  have digest: "optional_section ''digest'' (after_digest plan pl) (pl_digest pl)
      = chain_body (unat (sp_digest plan)) (opt_section ''digest'' (pl_digest pl))"
    using word_of_nat_unat_eq [OF ok(10)] ok(12) by (intro optional_section_chain) auto
  have xhash: "optional_section ''xhash'' (sp_done plan) (pl_xhash pl)
      = chain_body (unat (sp_xhash plan)) (opt_section ''xhash'' (pl_xhash pl))"
    using word_of_nat_unat_eq [OF ok(11)] by (intro optional_section_chain) auto
  note offsets = ok(1-5) g [THEN conjunct2, THEN conjunct1, symmetric] ok(8-11)
  let ?secs = "segment_sections pl volume (cs_file spool) start chunks (\<not> ?smart) ?L"
  have chain: "chain_body 13 ?secs =
      chain_body 13 (opt_section ''header'' (pl_header pl)) @
      chain_body (unat (sp_header2 plan)) (opt_section ''header2'' (pl_header2 pl)) @
      chain_body (unat (sp_xheader plan)) (opt_section ''xheader'' (pl_xheader pl)) @
      chain_body (unat (sp_volume plan)) [(bytes_of ''volume'', volume)] @
      chain_body (unat (sp_session plan)) (opt_section ''session'' (pl_session pl)) @
      chain_body (unat (sp_sectors plan)) (concat (map (group_sections (cs_file spool) start chunks (\<not> ?smart)) ?L)) @
      chain_body (unat (sp_ltree plan)) (opt_section ''ltree'' (pl_ltree pl)) @
      chain_body (unat (sp_error2 plan)) (opt_section ''error2'' (pl_error2 pl)) @
      chain_body (unat (sp_digest plan)) (opt_section ''digest'' (pl_digest pl)) @
      chain_body (unat (sp_xhash plan)) (opt_section ''xhash'' (pl_xhash pl))"
    unfolding segment_sections_def chain_body_append by (simp add: offsets lv add.assoc del: chain_body.simps)
  have final: "sp_done plan = word_of_nat (13 + chain_size ?secs)"
    by (rule word_of_nat_unat_eq) (simp add: segment_sections_def offsets lv)
  have "out = segment_file_header signature (wc_segment_number context) @ section_chain 13 ?secs
      (ewf1_terminal_type (wc_terminal_section context))"
    unfolding out section_chain_body final [symmetric] chain segment_file_header_def
      header header2 xheader session ltree error2 digest xhash g [THEN conjunct1] vol [symmetric]
    by (simp only: append.assoc)
  then show ?thesis
    using pl volume signature ok(6) n32 g unfolding tables
    by (intro exI [of _ pl] exI [of _ volume] exI [of _ ?L] exI [of _ signature]) (simp only: simp_thms)
qed

end
