(* ===== verification/Table_Ranges.thy ===== *)
theory Table_Ranges
  imports Section_Scan Chunk_Lookup
begin

text \<open>
  The chunk tables of a segment (\<open>src/image.rs\<close>): from its sections to the ranges of
  chunks they describe, with every bound and checksum the code tests. That the sections
  the writer makes give one range per table group is shown in \<open>Written_Segment\<close>.
\<close>

section \<open>EWF1\<close>

definition sectors_section_contains_offset :: "ewf1_section \<Rightarrow> u64 \<Rightarrow> bool" where
  "sectors_section_contains_offset sec offset \<longleftrightarrow>
     (case checked_add (sc_data_offset sec) (sc_data_size sec) of
        None \<Rightarrow> False
      | Some data_end \<Rightarrow> sc_data_offset sec \<le> offset \<and> offset \<le> data_end)"

definition matching_sectors_section :: "ewf1_section list \<Rightarrow> u64 \<Rightarrow> ewf1_section option" where
  "matching_sectors_section sections base_offset =
     find (\<lambda>sec. base_offset = sd_offset (sc_desc sec) \<or> sectors_section_contains_offset sec base_offset)
       (filter (\<lambda>sec. sd_section_type (sc_desc sec) = ''sectors'') sections)"

definition sectors_section_containing_offset :: "ewf1_section list \<Rightarrow> u64 \<Rightarrow> ewf1_section option" where
  "sectors_section_containing_offset sections offset =
     find (\<lambda>sec. sectors_section_contains_offset sec offset)
       (filter (\<lambda>sec. sd_section_type (sc_desc sec) = ''sectors'') sections)"

record ewf1_range_profile =
  rp_allow_large_compressed_chunks :: bool
  rp_compression_method :: image_compression

text \<open>The place of a table's data: base offset and end.\<close>

definition ewf1_table_data_place ::
    "ewf1_section list \<Rightarrow> u64 \<Rightarrow> u64 option \<Rightarrow> bool \<Rightarrow> u64 \<Rightarrow> u64 \<Rightarrow> (u64 \<times> u64) result" where
  "ewf1_table_data_place sections base_offset first_entry_offset resident_without_checksum entries_end sec_end =
     (case (case matching_sectors_section sections base_offset of
              Some sec \<Rightarrow> Some sec
            | None \<Rightarrow> Option.bind first_entry_offset (sectors_section_containing_offset sections)) of
        Some sectors \<Rightarrow>
          try_bind (ok_or (checked_add (sc_data_offset sectors) (sc_data_size sectors))
            (Malformed ''EWF1 sectors range overflow'')) (\<lambda>data_end. Inr (base_offset, data_end))
      | None \<Rightarrow>
          try_bind (if resident_without_checksum then Inr entries_end
            else ok_or (checked_add entries_end 4)
              (Malformed ''EWF1 table-resident data offset overflow'')) (\<lambda>resident_data_start.
          if sec_end < resident_data_start
          then Inl (Malformed ''EWF1 table-resident data starts beyond table section'')
          else Inr (0, sec_end)))"

type_synonym previous_table = "(bool \<times> u32 \<times> u64) option"

text \<open>One round of the loop: the ranges so far, the next chunk and the previous table.\<close>

definition parse_ewf1_table ::
    "bytes \<Rightarrow> ewf1_section list \<Rightarrow> nat \<Rightarrow> ewf1_range_profile \<Rightarrow> ewf1_section
      \<Rightarrow> table_range list \<times> u64 \<times> previous_table \<Rightarrow> (table_range list \<times> u64 \<times> previous_table) result" where
  "parse_ewf1_table seg sections segment_index profile sec = (\<lambda>(ranges, next_chunk, previous_table).
     if sc_data_size sec < 24 then Inl (Malformed ''EWF1 table section is too short'')
     else
     try_bind (read_exact_at seg (sc_data_offset sec) 24) (\<lambda>data.
     try_bind (validate_present_adler32_checksum data 20 20 ''EWF1 table header'') (\<lambda>_.
     let entry_count = u32_at data 0; base_offset = u64_at data 8 in
     if entry_count = 0 then Inr (ranges, next_chunk, previous_table)
     else if sd_section_type (sc_desc sec) = ''table2'' \<and>
         previous_table = Some (True, entry_count, base_offset)
     then Inr (ranges, next_chunk, previous_table)
     else
     try_bind (ok_or (checked_mul (ucast entry_count) 4) (Malformed ''EWF1 table entry bytes overflow'')) (\<lambda>entry_bytes.
     try_bind (ok_or (checked_add (sc_data_offset sec) 24) (Malformed ''EWF1 table entry offset overflow'')) (\<lambda>entries_offset.
     try_bind (ok_or (checked_add entries_offset entry_bytes) (Malformed ''EWF1 table entry range overflow'')) (\<lambda>entries_end.
     try_bind (ok_or (checked_add (sc_data_offset sec) (sc_data_size sec))
       (Malformed ''EWF1 table section range overflow'')) (\<lambda>sec_end.
     if sec_end < entries_end then Inl (Malformed ''EWF1 table entries exceed section'')
     else
     try_bind (if base_offset = 0
       then try_bind (read_exact_at seg entries_offset 4) (\<lambda>raw.
         Inr (Some (ucast ((from_le raw :: u32) AND 0x7fffffff))))
       else Inr None) (\<lambda>first_entry_offset.
     let resident_without_checksum = (first_entry_offset = Some entries_end) in
     try_bind (if (case checked_add entries_end 4 of None \<Rightarrow> False | Some e \<Rightarrow> e \<le> sec_end) \<and>
         \<not> resident_without_checksum
       then validate_present_table_entries_checksum seg entries_offset entry_bytes entries_end
         ''EWF1 table entries''
       else Inr ()) (\<lambda>_.
     try_bind (ewf1_table_data_place sections base_offset first_entry_offset resident_without_checksum
       entries_end sec_end) (\<lambda>(data_base, data_end).
     try_bind (ok_or (checked_add next_chunk (ucast entry_count))
       (Malformed ''EWF1 table chunk count overflow'')) (\<lambda>next_chunk'.
     Inr (ranges @ [\<lparr>tr_kind = RangeEwf1, tr_segment_index = segment_index, tr_first_chunk = next_chunk,
            tr_chunk_count = ucast entry_count, tr_entries_offset = entries_offset, tr_base_offset = data_base,
            tr_data_end = Some data_end,
            tr_ewf1_allow_large_compressed_chunks = rp_allow_large_compressed_chunks profile,
            tr_ewf1_compression_method = Some (rp_compression_method profile),
            tr_ewf2_compression_method = None\<rparr>],
          next_chunk', Some (sd_section_type (sc_desc sec) = ''table'', entry_count, base_offset)))))))))))))"

definition parse_ewf1_ranges ::
    "bytes \<Rightarrow> ewf1_section list \<Rightarrow> nat \<Rightarrow> u64 \<Rightarrow> u64 \<Rightarrow> ewf1_range_profile \<Rightarrow> table_range list result" where
  "parse_ewf1_ranges seg sections segment_index first_chunk logical_size profile =
     try_bind (try_fold (\<lambda>acc sec. parse_ewf1_table seg sections segment_index profile sec acc)
         ([], first_chunk, None)
         (filter (\<lambda>sec. sd_section_type (sc_desc sec) \<in> {''table'', ''table2''}) sections))
       (\<lambda>(ranges, _, _).
     if ranges = [] \<and> 0 < logical_size then Inl (Malformed ''EWF1 table coverage is missing'')
     else Inr ranges)"

section \<open>EWF2\<close>

definition compression_method_code :: "compression_method \<Rightarrow> u16" where
  "compression_method_code m = (case m of CompNone \<Rightarrow> 0 | CompZlib \<Rightarrow> 1 | CompBzip2 \<Rightarrow> 2 | CompUnknown v \<Rightarrow> v)"

definition parse_ewf2_table ::
    "bytes \<Rightarrow> nat \<Rightarrow> compression_method \<Rightarrow> ewf2_section \<Rightarrow> table_range option result" where
  "parse_ewf2_table seg segment_index compression sec =
     (let minimum_table_header_size =
        (case s2c_layout sec of LeadingDescriptor \<Rightarrow> 20 | TrailingDescriptor \<Rightarrow> 32) in
      if s2c_data_size sec < minimum_table_header_size then Inl (Malformed ''EWF2 sector table is too short'')
      else let header_read_size = (if 32 \<le> s2c_data_size sec then 32 else minimum_table_header_size) in
      try_bind (read_exact_at seg (s2c_data_offset sec) header_read_size) (\<lambda>data.
      try_bind (validate_present_adler32_checksum data 16 16 ''EWF2 table header'') (\<lambda>_.
      try_bind (ewf2_table_header_parse (slice data 0 EWF2_TABLE_HEADER_SIZE)) (\<lambda>header.
      let entry_count = ucast (th2_entry_count header) in
      if entry_count = 0 then Inr None
      else
      try_bind (ok_or (checked_mul entry_count 16) (Malformed ''EWF2 table entry bytes overflow'')) (\<lambda>entries_bytes.
      try_bind (case s2c_layout sec of
          TrailingDescriptor \<Rightarrow> Inr 32
        | LeadingDescriptor \<Rightarrow>
            try_bind (ok_or (checked_add 32 entries_bytes) (Malformed ''EWF2 table size overflow''))
              (\<lambda>full. Inr (if full \<le> s2c_data_size sec then 32 else 20))) (\<lambda>header_and_padding_size.
      try_bind (ok_or (checked_add (s2c_data_offset sec) header_and_padding_size)
        (Malformed ''EWF2 table entry offset overflow'')) (\<lambda>entries_offset.
      try_bind (ok_or (checked_add entries_offset entries_bytes)
        (Malformed ''EWF2 table entry range overflow'')) (\<lambda>entries_end.
      try_bind (ok_or (checked_add (s2c_data_offset sec) (s2c_data_size sec))
        (Malformed ''EWF2 table section range overflow'')) (\<lambda>sec_end.
      if sec_end < entries_end then Inl (Malformed ''EWF2 table entries exceed section'')
      else
      try_bind (if (case checked_add entries_end 16 of None \<Rightarrow> False | Some e \<Rightarrow> e \<le> sec_end)
        then validate_present_table_entries_checksum seg entries_offset entries_bytes entries_end
          ''EWF2 table entries''
        else Inr ()) (\<lambda>_.
      Inr (Some \<lparr>tr_kind = RangeEwf2, tr_segment_index = segment_index,
        tr_first_chunk = th2_first_chunk header, tr_chunk_count = entry_count,
        tr_entries_offset = entries_offset, tr_base_offset = 0, tr_data_end = None,
        tr_ewf1_allow_large_compressed_chunks = False, tr_ewf1_compression_method = None,
        tr_ewf2_compression_method = Some (compression_method_code compression)\<rparr>)))))))))))"

definition parse_ewf2_ranges ::
    "bytes \<Rightarrow> ewf2_section list \<Rightarrow> nat \<Rightarrow> u64 \<Rightarrow> compression_method \<Rightarrow> table_range list result" where
  "parse_ewf2_ranges seg sections segment_index logical_size compression =
     try_bind (collect_results (parse_ewf2_table seg segment_index compression)
       (filter (\<lambda>sec. s2_section_type (s2c_desc sec) = SectorTable) sections)) (\<lambda>found.
     let ranges = List.map_filter id found in
     if ranges = [] \<and> 0 < logical_size then Inl (Malformed ''EWF2 image has no sector table'')
     else Inr ranges)"

end
