(* ===== verification/Written_Segment.thy ===== *)
theory Written_Segment
  imports Segment_File Table_Ranges
begin

text \<open>
  A written EWF1 segment read back: the scan of \<open>Section_Scan\<close> finds the sections the
  writer of \<open>Segment_File\<close> chained, and the table parser of \<open>Table_Ranges\<close> finds in
  them one range per table group, with the place of its entries and of its data. So an
  image opened on written segments is an image of the spool they were written from.
\<close>

section \<open>Sections of a chain\<close>

fun body_sections :: "nat \<Rightarrow> (bytes \<times> bytes) list \<Rightarrow> ewf1_section list" where
  "body_sections off [] = []"
| "body_sections off ((t, data) # secs) =
     section_at off t (off + 76 + length data) (length data) # body_sections (off + 76 + length data) secs"

lemma body_sections_append:
  "body_sections off (xs @ ys) = body_sections off xs @ body_sections (off + chain_size xs) ys"
  by (induction off xs rule: body_sections.induct) (simp_all add: add.assoc)

lemma chain_sections_body:
  "chain_sections off secs terminal = body_sections off secs @ [section_at (off + chain_size secs) terminal (off + chain_size secs) 0]"
  by (induction off secs terminal rule: chain_sections.induct) (simp_all add: add.assoc)

text \<open>Where the data of a section stands.\<close>

lemma chain_data:
  assumes "seg = header @ section_chain 13 (xs @ (t, data) # ys) terminal" "length header = 13"
    and "\<forall>(t, data) \<in> set (xs @ (t, data) # ys). section_name_ok t"
  shows "slice seg (13 + chain_size xs + 76) (13 + chain_size xs + 76 + length data) = data"
    and "13 + chain_size xs + 76 + length data \<le> length seg"
proof -
  let ?d = "section_desc t (word_of_nat (13 + chain_size xs + 76 + length data)) (word_of_nat (76 + length data))"
  let ?rest = "chain_body (13 + chain_size xs + 76 + length data) ys @
    section_desc terminal (word_of_nat (13 + chain_size (xs @ (t, data) # ys))) 76"
  have seg: "seg = (header @ chain_body 13 xs @ ?d) @ data @ ?rest"
    by (simp add: assms(1) section_chain_body chain_body_append)
  have lb: "length (chain_body 13 xs) = chain_size xs" using assms(3) by (intro length_chain_body) auto
  have ld: "length ?d = 76" using assms(3) by (intro length_section_desc) (auto simp: section_name_ok_def)
  have l: "length (header @ chain_body 13 xs @ ?d) = 13 + chain_size xs + 76" using lb ld assms(2) by simp
  note at = slice_append_exact [of "header @ chain_body 13 xs @ ?d" data ?rest, unfolded l]
  show "slice seg (13 + chain_size xs + 76) (13 + chain_size xs + 76 + length data) = data"
    by (subst seg) (rule at)
  have "length seg = length (header @ chain_body 13 xs @ ?d) + length data + length ?rest"
    by (subst seg) (simp only: length_append add.assoc)
  then show "13 + chain_size xs + 76 + length data \<le> length seg" by (simp only: l)
qed

section \<open>The groups in the chain\<close>

text \<open>What the scan finds for one table group.\<close>

definition sectors_found :: "table_group_layout \<Rightarrow> ewf1_section" where
  "sectors_found l = section_at (unat (gl_sectors_desc_offset l)) (bytes_of ''sectors'')
     (unat (gl_table_desc_offset l)) (unat (gl_payload_size l))"

definition table_found :: "table_group_layout \<Rightarrow> ewf1_section" where
  "table_found l = section_at (unat (gl_table_desc_offset l)) (bytes_of ''table'')
     (unat (gl_table_desc_offset l) + 76 + unat (gl_table_data_size l)) (unat (gl_table_data_size l))"

definition table2_found :: "table_group_layout \<Rightarrow> ewf1_section list" where
  "table2_found l = (case gl_table2_desc_offset l of
     Some t2 \<Rightarrow> [section_at (unat t2) (bytes_of ''table2'') (unat (gl_end_offset l)) (unat (gl_table_data_size l))]
   | None \<Rightarrow> [])"

definition group_found :: "table_group_layout \<Rightarrow> ewf1_section list" where
  "group_found l = sectors_found l # table_found l # table2_found l"

text \<open>The bytes of a group stand where its layout says.\<close>

definition group_data :: "bytes \<Rightarrow> nat \<Rightarrow> chunk_descriptor list \<Rightarrow> table_group_layout \<Rightarrow> bytes" where
  "group_data content start chunks l =
     slice content (start + data_total (take (gl_first_chunk l) chunks)) (start + data_total (take (gl_end_chunk l) chunks))"

definition group_stored ::
    "bytes \<Rightarrow> bytes \<Rightarrow> nat \<Rightarrow> chunk_descriptor list \<Rightarrow> bool \<Rightarrow> table_group_layout \<Rightarrow> bool" where
  "group_stored seg content start chunks footer l \<longleftrightarrow>
     unat (gl_end_offset l) \<le> length seg \<and>
     slice seg (unat (gl_sectors_data_offset l)) (unat (gl_table_desc_offset l)) = group_data content start chunks l \<and>
     slice seg (unat (gl_table_desc_offset l) + 76) (unat (gl_table_desc_offset l) + 76 + unat (gl_table_data_size l))
       = ewf1_table_bytes (gl_sectors_data_offset l) (slice chunks (gl_first_chunk l) (gl_end_chunk l)) footer \<and>
     (\<forall>t2. gl_table2_desc_offset l = Some t2 \<longrightarrow>
       slice seg (unat t2 + 76) (unat t2 + 76 + unat (gl_table_data_size l))
         = ewf1_table_bytes (gl_sectors_data_offset l) (slice chunks (gl_first_chunk l) (gl_end_chunk l)) True)"

lemma length_group_data:
  assumes "layout_fits chunks l" "start + data_total chunks \<le> length content"
  shows "length (group_data content start chunks l) = unat (gl_payload_size l)"
proof -
  have ab: "gl_first_chunk l \<le> gl_end_chunk l"
    and p: "unat (gl_payload_size l) = data_total (slice chunks (gl_first_chunk l) (gl_end_chunk l))"
    using assms(1) by (simp_all add: layout_fits_def payload_of_total)
  have "data_total (take (gl_first_chunk l) chunks) + data_total (slice chunks (gl_first_chunk l) (gl_end_chunk l))
      = data_total (take (gl_end_chunk l) chunks)"
    using split_at_slice [OF ab, of chunks] ab
    by (metis append_take_drop_id data_total_simps(3) slice_def take_add le_add_diff_inverse)
  with data_total_take_le [of "gl_end_chunk l" chunks] assms(2) p show ?thesis by (simp add: group_data_def)
qed

lemma layout_exact_table2:
  "layout_exact f True l \<Longrightarrow> \<exists>t2. gl_table2_desc_offset l = Some t2 \<and>
     unat t2 = unat (gl_table_desc_offset l) + 76 + unat (gl_table_data_size l) \<and>
     unat (gl_end_offset l) = unat t2 + 76 + unat (gl_table_data_size l)"
  unfolding layout_exact_def if_True by (elim conjE)

lemma group_sections_place:
  assumes exact: "layout_exact (if footer then 4 else 0) t2 l" and fits: "layout_fits chunks l"
    and content: "start + data_total chunks \<le> length content" and f: "t2 \<Longrightarrow> footer"
  shows "body_sections (unat (gl_sectors_desc_offset l)) (group_sections content start chunks footer l) = group_found l"
    and "unat (gl_sectors_desc_offset l) + chain_size (group_sections content start chunks footer l) = unat (gl_end_offset l)"
proof -
  let ?cs = "slice chunks (gl_first_chunk l) (gl_end_chunk l)"
  let ?t = "ewf1_table_bytes (gl_sectors_data_offset l) ?cs"
  note ld = length_group_data [OF fits content, unfolded group_data_def]
  have lcs: "length ?cs = gl_end_chunk l - gl_first_chunk l" using fits by (auto simp: layout_fits_def)
  have lt: "length (?t footer) = unat (gl_table_data_size l)"
    using exact by (simp add: length_ewf1_table_bytes lcs layout_exact_def del: length_slice)
  have lt2: "t2 \<Longrightarrow> length (?t True) = unat (gl_table_data_size l)" using lt f by simp
  have pos: "unat (gl_table_desc_offset l) = unat (gl_sectors_desc_offset l) + 76 + unat (gl_payload_size l)"
    using exact by (simp add: layout_exact_def)
  have end_at: "unat (gl_end_offset l) = unat (gl_sectors_desc_offset l) + 76 + unat (gl_payload_size l) + 76 +
      unat (gl_table_data_size l) + (if t2 then 76 + unat (gl_table_data_size l) else 0)"
  proof (cases t2)
    case True
    with exact layout_exact_table2 [of "if footer then 4 else 0" l] True show ?thesis using pos by auto
  next
    case False
    have "unat (gl_end_offset l) = unat (gl_table_desc_offset l) + 76 + unat (gl_table_data_size l)"
      using exact False unfolding layout_exact_def by (simp only: if_False simp_thms)
    with pos False show ?thesis by simp
  qed
  note defs = group_sections_def Let_def group_found_def sectors_found_def table_found_def table2_found_def
    lt ld pos end_at add.assoc
  have "body_sections (unat (gl_sectors_desc_offset l)) (group_sections content start chunks footer l) = group_found l \<and>
    unat (gl_sectors_desc_offset l) + chain_size (group_sections content start chunks footer l) = unat (gl_end_offset l)"
  proof (cases t2)
    case True
    then obtain t2o where "gl_table2_desc_offset l = Some t2o"
      "unat t2o = unat (gl_sectors_desc_offset l) + 76 + unat (gl_payload_size l) + 76 + unat (gl_table_data_size l)"
      using layout_exact_table2 [of "if footer then 4 else 0" l] exact pos by auto
    with True lt2 show ?thesis by (simp add: defs ac_simps del: length_slice)
  next
    case False
    then have "gl_table2_desc_offset l = None" using exact by (simp add: layout_exact_def)
    with False show ?thesis by (simp add: defs del: length_slice)
  qed
  then show "body_sections (unat (gl_sectors_desc_offset l)) (group_sections content start chunks footer l) = group_found l"
    "unat (gl_sectors_desc_offset l) + chain_size (group_sections content start chunks footer l) = unat (gl_end_offset l)"
    by blast+
qed

lemma groups_place:
  assumes "contiguous off e (map layout_range layouts)"
    and "\<forall>l \<in> set layouts. layout_exact (if footer then 4 else 0) t2 l \<and> layout_fits chunks l"
    and "start + data_total chunks \<le> length content" "t2 \<Longrightarrow> footer"
  shows "body_sections off (concat (map (group_sections content start chunks footer) layouts))
      = concat (map group_found layouts) \<and>
    off + chain_size (concat (map (group_sections content start chunks footer) layouts)) = e"
  using assms(1,2)
proof (induction layouts arbitrary: off)
  case (Cons l ls)
  have off: "unat (gl_sectors_desc_offset l) = off"
    and rest: "contiguous (unat (gl_end_offset l)) e (map layout_range ls)"
    using Cons.prems(1) by (simp_all add: layout_range_def [of l])
  note here = group_sections_place [OF _ _ assms(3,4), of t2 l]
  from here Cons.prems(2) off have
    "body_sections off (group_sections content start chunks footer l) = group_found l"
    "off + chain_size (group_sections content start chunks footer l) = unat (gl_end_offset l)" by auto
  with Cons.IH [OF rest] Cons.prems(2) show ?case
    by (simp add: body_sections_append)
qed simp


section \<open>Reading a written table\<close>

lemma unat_numeral_64: "unat (4 :: u64) = 4" "unat (24 :: u64) = 24"
  by simp_all

lemma checked_add_of_nat:
  assumes "unat (b :: u64) = n" "a + n < 2 ^ 64"
  shows "checked_add (word_of_nat a) b = Some (word_of_nat (a + n))"
proof -
  have "unat (word_of_nat a :: u64) = a" "unat (word_of_nat (a + n) :: u64) = a + n"
    by (rule unat_small_u64, use assms in linarith)+
  then show ?thesis using assms by (simp only: checked_add_Some) simp
qed

lemma checked_mul_of_nat:
  assumes "unat (b :: u64) = n" "n * a < 2 ^ 64" "a < 2 ^ 64"
  shows "checked_mul (word_of_nat a) b = Some (word_of_nat (n * a))"
proof -
  have "unat (word_of_nat a :: u64) = a" "unat (word_of_nat (n * a) :: u64) = n * a"
    by (rule unat_small_u64, use assms in linarith)+
  then show ?thesis using assms by (simp only: checked_mul_Some) (simp add: mult.commute)
qed

lemma table_header_checksum:
  "validate_present_adler32_checksum (table_header n base) 20 20 label = Inr ()"
  using table_header_fields(3) [of n base]
  by (simp add: validate_present_adler32_checksum_def validate_adler32_checksum_value_def Let_def)

text \<open>The parts of a table's bytes in the segment.\<close>

lemma table_parts:
  assumes "slice seg p (p + n) = ewf1_table_bytes base cs True" "n = 28 + 4 * length cs" "p + n \<le> length seg"
  shows "slice seg p (p + 24) = table_header (word_of_nat (length cs)) base"
    and "slice seg (p + 24) (p + 24 + 4 * length cs) = concat (map ewf1_entry_bytes (entry_offsets 0 cs))"
    and "slice seg (p + 24 + 4 * length cs) (p + 24 + 4 * length cs + 4)
      = le32 (adler32 (concat (map ewf1_entry_bytes (entry_offsets 0 cs))))"
proof -
  let ?E = "concat (map ewf1_entry_bytes (entry_offsets 0 cs))" and ?T = "ewf1_table_bytes base cs True"
  let ?h = "table_header (word_of_nat (length cs)) base"
  have T: "?T = ?h @ ?E @ le32 (adler32 ?E)" by (simp add: ewf1_table_bytes_def Let_def)
  have lE: "length ?E = 4 * length cs" by (simp add: length_ewf1_entries)
  have sub: "slice seg (p + a) (p + b) = slice ?T a b" if "b \<le> n" for a b
    using that by (simp add: assms(1) [symmetric] slice_slice min_absorb2)
  have "slice ?T 0 24 = ?h" unfolding T by (simp add: slice_def)
  with sub [of 24 0] assms(2) show "slice seg p (p + 24) = ?h" by simp
  have "slice ?T 24 (24 + 4 * length cs) = ?E"
    unfolding T using slice_append_exact [of ?h ?E "le32 (adler32 ?E)"] lE by simp
  with sub [of "24 + 4 * length cs" 24] assms(2) show "slice seg (p + 24) (p + 24 + 4 * length cs) = ?E"
    by (simp add: add.assoc)
  have "slice ?T (24 + 4 * length cs) (24 + 4 * length cs + 4) = le32 (adler32 ?E)"
    unfolding T using slice_append_exact [of "?h @ ?E" "le32 (adler32 ?E)" "[]"] lE by simp
  with sub [of "24 + 4 * length cs + 4" "24 + 4 * length cs"] assms(2)
  show "slice seg (p + 24 + 4 * length cs) (p + 24 + 4 * length cs + 4) = le32 (adler32 ?E)"
    by (simp add: add.assoc)
qed

definition written_range :: "nat \<Rightarrow> u64 \<Rightarrow> ewf1_range_profile \<Rightarrow> table_group_layout \<Rightarrow> table_range" where
  "written_range segment_index first profile l =
     \<lparr>tr_kind = RangeEwf1, tr_segment_index = segment_index, tr_first_chunk = first,
      tr_chunk_count = word_of_nat (gl_end_chunk l - gl_first_chunk l),
      tr_entries_offset = word_of_nat (unat (gl_table_desc_offset l) + 100),
      tr_base_offset = gl_sectors_data_offset l, tr_data_end = Some (gl_table_desc_offset l),
      tr_ewf1_allow_large_compressed_chunks = rp_allow_large_compressed_chunks profile,
      tr_ewf1_compression_method = Some (rp_compression_method profile), tr_ewf2_compression_method = None\<rparr>"

definition previous_of :: "table_group_layout \<Rightarrow> previous_table" where
  "previous_of l = Some (True, word_of_nat (gl_end_chunk l - gl_first_chunk l), gl_sectors_data_offset l)"

lemma parse_written_table:
  assumes seg: "length seg < 2 ^ 64" and exact: "layout_exact 4 True l" and fits: "layout_fits chunks l"
    and stored: "group_stored seg content start chunks True l"
    and k: "gl_first_chunk l < gl_end_chunk l" "gl_end_chunk l - gl_first_chunk l < 2 ^ 31"
    and place: "matching_sectors_section secs (gl_sectors_data_offset l) = Some (sectors_found l)"
    and room: "unat next_chunk + (gl_end_chunk l - gl_first_chunk l) < 2 ^ 64"
  shows "parse_ewf1_table seg secs i profile (table_found l) (ranges, next_chunk, prev)
    = Inr (ranges @ [written_range i next_chunk profile l],
        next_chunk + word_of_nat (gl_end_chunk l - gl_first_chunk l), previous_of l)"
proof -
  let ?cs = "slice chunks (gl_first_chunk l) (gl_end_chunk l)" and ?k = "gl_end_chunk l - gl_first_chunk l"
  let ?base = "gl_sectors_data_offset l" and ?p = "unat (gl_table_desc_offset l) + 76" and ?n = "unat (gl_table_data_size l)"
  let ?E = "concat (map ewf1_entry_bytes (entry_offsets 0 ?cs))"
  have lcs: "length ?cs = ?k" using fits by (auto simp: layout_fits_def)
  have n: "?n = 28 + 4 * ?k" using exact by (simp add: layout_exact_def)
  have inside: "?p + ?n \<le> length seg"
    using layout_exact_table2 [OF exact] stored by (auto simp: group_stored_def)
  have "slice seg ?p (?p + ?n) = ewf1_table_bytes ?base ?cs True" using stored by (simp add: group_stored_def)
  note parts = table_parts [OF this n [folded lcs] inside, unfolded lcs]
  have ec: "unat (word_of_nat ?k :: u32) = ?k" using k(2) by (intro unat_of_small_u32) simp
  have ec0: "word_of_nat ?k \<noteq> (0 :: u32)" using ec k(1) by (metis unat_0 zero_less_diff less_irrefl)
  have up: "ucast (word_of_nat ?k :: u32) = (word_of_nat ?k :: u64)"
  proof -
    have "unat (word_of_nat ?k :: u64) = ?k" using k(2) by (intro unat_small_u64) simp
    then show ?thesis using ec by (simp add: word_unat_eq_iff)
  qed
  have base0: "?base \<noteq> 0" using exact by (auto simp: layout_exact_def)
  have u: "unat (word_of_nat ?p :: u64) = ?p" "unat (word_of_nat ?n :: u64) = ?n" "unat (word_of_nat ?k :: u64) = ?k"
    "unat (word_of_nat (4 * ?k) :: u64) = 4 * ?k" "unat (word_of_nat (?p + 24) :: u64) = ?p + 24"
    "unat (word_of_nat (?p + 24 + 4 * ?k) :: u64) = ?p + 24 + 4 * ?k"
    "unat (word_of_nat (?p + ?n) :: u64) = ?p + ?n" "unat (word_of_nat (?p + 24 + 4 * ?k + 4) :: u64) = ?p + 24 + 4 * ?k + 4"
    by (rule unat_small_u64, use inside seg n in linarith)+
  have c1: "checked_mul (word_of_nat ?k) 4 = Some (word_of_nat (4 * ?k) :: u64)"
    using k(2) by (intro checked_mul_of_nat) simp_all
  have c: "checked_add (word_of_nat ?p) 24 = Some (word_of_nat (?p + 24) :: u64)"
    "checked_add (word_of_nat (?p + 24)) (word_of_nat (4 * ?k)) = Some (word_of_nat (?p + 24 + 4 * ?k) :: u64)"
    "checked_add (word_of_nat ?p) (word_of_nat ?n) = Some (word_of_nat (?p + ?n) :: u64)"
    "checked_add (word_of_nat (?p + 24 + 4 * ?k)) 4 = Some (word_of_nat (?p + 24 + 4 * ?k + 4) :: u64)"
    by (rule checked_add_of_nat, simp only: u unat_numeral_64, use inside seg n k in linarith)+
  have found: "sc_data_offset (table_found l) = word_of_nat ?p" "sc_data_size (table_found l) = word_of_nat ?n"
    "sd_section_type (sc_desc (table_found l)) = ''table''"
    by (simp_all add: table_found_def section_at_def)
  have cmp: "\<not> (word_of_nat ?n :: u64) < 24" "\<not> (word_of_nat (?p + ?n) :: u64) < word_of_nat (?p + 24 + 4 * ?k)"
    "(word_of_nat (?p + 24 + 4 * ?k + 4) :: u64) \<le> word_of_nat (?p + ?n)"
    unfolding word_less_nat_alt word_le_nat_alt u unat_numeral_64 using n by simp_all
  have header: "read_exact_at seg (word_of_nat ?p) 24 = Inr (table_header (word_of_nat ?k) ?base)"
    unfolding read_exact_at_def u unat_numeral_64 parts(1) [symmetric]
    by (rule read_exact_ok) (use inside n in linarith)
  have entries: "validate_present_table_entries_checksum seg (word_of_nat (?p + 24)) (word_of_nat (4 * ?k))
      (word_of_nat (?p + 24 + 4 * ?k)) label = Inr ()" for label
  proof -
    have "read_exact_at seg (word_of_nat (?p + 24 + 4 * ?k)) 4 = Inr (le32 (adler32 ?E))"
      unfolding read_exact_at_def u unat_numeral_64 parts(3) [symmetric]
      by (rule read_exact_ok) (use inside n in linarith)
    moreover have "stream_adler32 seg (word_of_nat (?p + 24)) (word_of_nat (4 * ?k)) = Inr (adler32 ?E)"
      using stream_adler32_eq [of "word_of_nat (?p + 24)" "word_of_nat (4 * ?k)" seg] inside n
      unfolding u parts(2) by simp
    ultimately show ?thesis by (simp only: validate_present_table_entries_checksum_def try_bind_simps Let_def
        from_le_le32 simp_thms if_False if_cancel)
  qed
  have fields: "u32_at (table_header (word_of_nat ?k) ?base) 0 = word_of_nat ?k"
    "u64_at (table_header (word_of_nat ?k) ?base) 8 = ?base"
    using table_header_fields [of "word_of_nat ?k" ?base] by simp_all
  have data: "ewf1_table_data_place secs ?base None False e1 e2 = Inr (?base, gl_table_desc_offset l)" for e1 e2
  proof -
    have "unat (gl_sectors_desc_offset l) + 76 + unat (gl_payload_size l) = unat (gl_table_desc_offset l)"
      using exact by (simp add: layout_exact_def)
    then have "sc_data_offset (sectors_found l) = word_of_nat (unat (gl_sectors_desc_offset l) + 76)"
      "sc_data_size (sectors_found l) = word_of_nat (unat (gl_payload_size l))"
      "checked_add (word_of_nat (unat (gl_sectors_desc_offset l) + 76)) (gl_payload_size l) = Some (gl_table_desc_offset l)"
      using checked_add_of_nat [of "gl_payload_size l" _ "unat (gl_sectors_desc_offset l) + 76", OF refl]
        unat_64_less [of "gl_table_desc_offset l"]
      by (simp_all add: sectors_found_def section_at_def)
    then show ?thesis unfolding ewf1_table_data_place_def place option.case by simp
  qed
  have room': "checked_add next_chunk (word_of_nat ?k) = Some (next_chunk + word_of_nat ?k)"
    using room by (simp add: checked_add_def u(3))
  have hundred: "unat (gl_table_desc_offset l) + 100 = ?p + 24" by simp
  show ?thesis
    unfolding parse_ewf1_table_def case_prod_conv
    by (simp only: found cmp header table_header_checksum Let_def fields ec0 up c1 c ok_or_simps try_bind_simps
        base0 entries data room' option.case option.distinct list.distinct list.inject char.inject simp_thms if_False if_True
        prod.case written_range_def previous_of_def hundred)
qed


lemma skip_written_table2:
  assumes seg: "length seg < 2 ^ 64" and exact: "layout_exact 4 True l" and fits: "layout_fits chunks l"
    and stored: "group_stored seg content start chunks True l"
    and k: "gl_first_chunk l < gl_end_chunk l" "gl_end_chunk l - gl_first_chunk l < 2 ^ 31"
  shows "try_fold (\<lambda>acc sec. parse_ewf1_table seg secs i profile sec acc) (ranges, next_chunk, previous_of l) (table2_found l)
    = Inr (ranges, next_chunk, previous_of l)"
proof -
  let ?cs = "slice chunks (gl_first_chunk l) (gl_end_chunk l)" and ?k = "gl_end_chunk l - gl_first_chunk l"
  obtain t2 where t2: "gl_table2_desc_offset l = Some t2" "unat (gl_end_offset l) = unat t2 + 76 + unat (gl_table_data_size l)"
    using layout_exact_table2 [OF exact] by blast
  let ?base = "gl_sectors_data_offset l" and ?p = "unat t2 + 76" and ?n = "unat (gl_table_data_size l)"
  have lcs: "length ?cs = ?k" using fits by (auto simp: layout_fits_def)
  have n: "?n = 28 + 4 * ?k" using exact by (simp add: layout_exact_def)
  have inside: "?p + ?n \<le> length seg" using t2 stored by (simp add: group_stored_def)
  have "slice seg ?p (?p + ?n) = ewf1_table_bytes ?base ?cs True" using stored t2(1) by (simp add: group_stored_def)
  note parts = table_parts [OF this n [folded lcs] inside, unfolded lcs]
  have ec: "unat (word_of_nat ?k :: u32) = ?k" using k(2) by (intro unat_of_small_u32) simp
  have ec0: "word_of_nat ?k \<noteq> (0 :: u32)" using ec k(1) by (metis unat_0 zero_less_diff less_irrefl)
  have u: "unat (word_of_nat ?p :: u64) = ?p" "unat (word_of_nat ?n :: u64) = ?n"
    by (rule unat_small_u64, use inside seg n in linarith)+
  let ?sec = "section_at (unat t2) (bytes_of ''table2'') (unat (gl_end_offset l)) ?n"
  have found: "sc_data_offset ?sec = word_of_nat ?p" "sc_data_size ?sec = word_of_nat ?n"
    "sd_section_type (sc_desc ?sec) = ''table2''"
    by (simp_all add: section_at_def)
  have cmp: "\<not> (word_of_nat ?n :: u64) < 24"
    unfolding word_less_nat_alt u unat_numeral_64 using n by simp
  have header: "read_exact_at seg (word_of_nat ?p) 24 = Inr (table_header (word_of_nat ?k) ?base)"
    unfolding read_exact_at_def u unat_numeral_64 parts(1) [symmetric]
    by (rule read_exact_ok) (use inside n in linarith)
  have fields: "u32_at (table_header (word_of_nat ?k) ?base) 0 = word_of_nat ?k"
    "u64_at (table_header (word_of_nat ?k) ?base) 8 = ?base"
    using table_header_fields [of "word_of_nat ?k" ?base] by simp_all
  have "parse_ewf1_table seg secs i profile ?sec (ranges, next_chunk, previous_of l)
      = Inr (ranges, next_chunk, previous_of l)"
    unfolding parse_ewf1_table_def case_prod_conv
    by (simp only: found cmp header table_header_checksum Let_def fields ec0 try_bind_simps simp_thms if_False if_True
        previous_of_def)
  then show ?thesis by (simp add: table2_found_def t2(1))
qed

text \<open>All the tables of a segment.\<close>

lemma parse_written_tables:
  assumes seg: "length seg < 2 ^ 64" and room: "unat fc + b < 2 ^ 64"
    and cont: "contiguous a b (map (\<lambda>l. (gl_first_chunk l, gl_end_chunk l)) layouts)"
    and each: "\<forall>l \<in> set layouts. layout_exact 4 True l \<and> layout_fits chunks l \<and> group_stored seg content start chunks True l \<and>
      gl_first_chunk l < gl_end_chunk l \<and> gl_end_chunk l - gl_first_chunk l < 2 ^ 31 \<and>
      matching_sectors_section secs (gl_sectors_data_offset l) = Some (sectors_found l)"
  shows "\<exists>prev'. try_fold (\<lambda>acc sec. parse_ewf1_table seg secs i profile sec acc) (ranges, fc + word_of_nat a, prev)
      (concat (map (\<lambda>l. table_found l # table2_found l) layouts))
    = Inr (ranges @ map (\<lambda>l. written_range i (fc + word_of_nat (gl_first_chunk l)) profile l) layouts,
        fc + word_of_nat b, prev')"
  using cont each
proof (induction layouts arbitrary: a ranges prev)
  case (Cons l ls)
  let ?k = "gl_end_chunk l - gl_first_chunk l"
  have l: "layout_exact 4 True l" "layout_fits chunks l" "group_stored seg content start chunks True l"
    "gl_first_chunk l < gl_end_chunk l" "?k < 2 ^ 31"
    "matching_sectors_section secs (gl_sectors_data_offset l) = Some (sectors_found l)"
    using Cons.prems(2) by simp_all
  have a: "gl_first_chunk l = a" and rest: "contiguous (gl_end_chunk l) b (map (\<lambda>l. (gl_first_chunk l, gl_end_chunk l)) ls)"
    using Cons.prems(1) by simp_all
  have le: "gl_end_chunk l \<le> b" using contiguous_le [OF rest] .
  have ua: "unat (word_of_nat a :: u64) = a" using a l(4) le room by (intro unat_small_u64) linarith
  have uf: "unat (fc + word_of_nat a) = unat fc + a"
    using a l(4) le room ua by (simp add: unat_add_less)
  have "unat (fc + word_of_nat a) + ?k < 2 ^ 64" using uf a l(4) le room by linarith
  note step = parse_written_table [OF seg l(1-6) this, of i profile ranges prev]
  have "word_of_nat (gl_end_chunk l) = word_of_nat a + (word_of_nat ?k :: u64)"
    using a l(4) by (metis le_add_diff_inverse less_imp_le of_nat_add)
  then have nxt: "fc + word_of_nat a + word_of_nat ?k = fc + word_of_nat (gl_end_chunk l)" by (simp add: add.assoc)
  show ?case
    using Cons.IH [OF rest, of "ranges @ [written_range i (fc + word_of_nat a) profile l]" "previous_of l"] Cons.prems(2)
    by (simp add: step try_fold_append skip_written_table2 [OF seg l(1-5)] a nxt [unfolded a] del: of_nat_diff)
qed auto

section \<open>The sections of the whole segment\<close>

lemma body_section_types:
  "map (\<lambda>sec. sd_section_type (sc_desc sec)) (body_sections off secs) = map (\<lambda>(t, data). str_of t) secs"
  by (induction off secs rule: body_sections.induct) (simp_all add: section_at_def)

lemma filter_no_type:
  assumes "\<forall>(t, data) \<in> set secs. \<not> P (str_of t)"
  shows "filter (\<lambda>sec. P (sd_section_type (sc_desc sec))) (body_sections off secs) = []"
proof -
  have "\<not> P (sd_section_type (sc_desc sec))" if "sec \<in> set (body_sections off secs)" for sec
  proof -
    have "sd_section_type (sc_desc sec) \<in> set (map (\<lambda>sec. sd_section_type (sc_desc sec)) (body_sections off secs))"
      using that by simp
    then show ?thesis using assms unfolding body_section_types by auto
  qed
  then show ?thesis by (simp add: filter_empty_conv)
qed

lemma opt_section_name: "(t, data) \<in> set (opt_section name p) \<Longrightarrow> t = bytes_of name"
  by (cases p) (simp_all add: opt_section_def)

definition pre_sections :: "segment_payloads \<Rightarrow> bytes \<Rightarrow> (bytes \<times> bytes) list" where
  "pre_sections pl volume = opt_section ''header'' (pl_header pl) @ opt_section ''header2'' (pl_header2 pl) @
     opt_section ''xheader'' (pl_xheader pl) @ [(bytes_of ''volume'', volume)] @
     opt_section ''session'' (pl_session pl)"

definition post_sections :: "segment_payloads \<Rightarrow> (bytes \<times> bytes) list" where
  "post_sections pl = opt_section ''ltree'' (pl_ltree pl) @ opt_section ''error2'' (pl_error2 pl) @
     opt_section ''digest'' (pl_digest pl) @ opt_section ''xhash'' (pl_xhash pl)"

lemma segment_sections_split:
  "segment_sections pl volume content start chunks footer layouts =
     pre_sections pl volume @ concat (map (group_sections content start chunks footer) layouts) @ post_sections pl"
  by (simp add: segment_sections_def pre_sections_def post_sections_def)

lemma other_section_names:
  "(t, data) \<in> set (pre_sections pl volume @ post_sections pl) \<Longrightarrow>
   str_of t \<in> {''header'', ''header2'', ''xheader'', ''volume'', ''session'', ''ltree'', ''error2'', ''digest'', ''xhash''}"
  by (auto simp: pre_sections_def post_sections_def dest!: opt_section_name)

lemma group_section_names:
  "(t, data) \<in> set (concat (map (group_sections content start chunks footer) layouts)) \<Longrightarrow>
   str_of t \<in> {''sectors'', ''table'', ''table2''}"
  by (auto simp: group_sections_def Let_def split: option.splits)


text \<open>What the scan finds in a written segment, by kind.\<close>

lemma segment_sections_found:
  fixes pl volume content start chunks layouts
  defines "secs \<equiv> segment_sections pl volume content start chunks True layouts"
  assumes ok: "layouts_ok chunks (tables_offset pl volume) True True layouts"
    and content: "start + data_total chunks \<le> length content" and t: "str_of terminal \<in> {''done'', ''next''}"
  shows "filter (\<lambda>sec. sd_section_type (sc_desc sec) \<in> {''table'', ''table2''}) (chain_sections 13 secs terminal)
      = concat (map (\<lambda>l. table_found l # table2_found l) layouts)"
    and "filter (\<lambda>sec. sd_section_type (sc_desc sec) = ''sectors'') (chain_sections 13 secs terminal)
      = map sectors_found layouts"
proof -
  let ?pre = "pre_sections pl volume" and ?post = "post_sections pl"
  let ?groups = "concat (map (group_sections content start chunks True) layouts)"
  have at: "13 + chain_size ?pre = tables_offset pl volume" by (simp add: tables_offset_def pre_sections_def)
  have place: "body_sections (13 + chain_size ?pre) ?groups = concat (map group_found layouts)"
    using groups_place [of "tables_offset pl volume" _ layouts True True chunks start content] ok content
    by (auto simp: layouts_ok_def at)
  have chain: "chain_sections 13 secs terminal = body_sections 13 ?pre @ concat (map group_found layouts) @
      body_sections (13 + chain_size ?pre + chain_size ?groups) ?post @
      [section_at (13 + chain_size secs) terminal (13 + chain_size secs) 0]"
    unfolding chain_sections_body by (simp add: secs_def segment_sections_split body_sections_append place add.assoc)
  have tables: "filter (\<lambda>sec. sd_section_type (sc_desc sec) \<in> {''table'', ''table2''}) (concat (map group_found layouts))
      = concat (map (\<lambda>l. table_found l # table2_found l) layouts)"
    by (induction layouts)
      (auto simp: group_found_def sectors_found_def table_found_def table2_found_def section_at_def split: option.splits)
  have sectors: "filter (\<lambda>sec. sd_section_type (sc_desc sec) = ''sectors'') (concat (map group_found layouts))
      = map sectors_found layouts"
    by (induction layouts)
      (auto simp: group_found_def sectors_found_def table_found_def table2_found_def section_at_def split: option.splits)
  note names = other_section_names [of _ _ pl volume]
  have none: "filter (\<lambda>sec. P (sd_section_type (sc_desc sec))) (body_sections off ?pre) = []"
    "filter (\<lambda>sec. P (sd_section_type (sc_desc sec))) (body_sections off ?post) = []"
    if "\<forall>n \<in> {''header'', ''header2'', ''xheader'', ''volume'', ''session'', ''ltree'', ''error2'', ''digest'', ''xhash''}. \<not> P n"
    for P off
    by (rule filter_no_type, use that names in fastforce)+
  have last_type: "sd_section_type (sc_desc (section_at n terminal m 0)) = str_of terminal" for n m
    by (simp add: section_at_def)
  show "filter (\<lambda>sec. sd_section_type (sc_desc sec) \<in> {''table'', ''table2''}) (chain_sections 13 secs terminal)
      = concat (map (\<lambda>l. table_found l # table2_found l) layouts)"
    unfolding chain filter_append tables
    using none [of "\<lambda>n. n \<in> {''table'', ''table2''}"] t last_type by auto
  show "filter (\<lambda>sec. sd_section_type (sc_desc sec) = ''sectors'') (chain_sections 13 secs terminal)
      = map sectors_found layouts"
    unfolding chain filter_append sectors
    using none [of "\<lambda>n. n = ''sectors''"] t last_type by auto
qed


lemma find_first: "(\<forall>x \<in> set xs. \<not> P x) \<Longrightarrow> P y \<Longrightarrow> find P (xs @ y # ys) = Some y"
  by (induction xs) auto

lemma contiguous_append:
  "contiguous a b (xs @ ys) \<longleftrightarrow> (\<exists>m. contiguous a m xs \<and> contiguous m b ys)"
  by (induction a b xs rule: contiguous.induct) auto

text \<open>Each table finds the sectors section of its own group.\<close>

lemma matching_written:
  assumes ok: "layouts_ok chunks off True True layouts" and l: "l \<in> set layouts"
    and secs: "filter (\<lambda>sec. sd_section_type (sc_desc sec) = ''sectors'') secs = map sectors_found layouts"
  shows "matching_sectors_section secs (gl_sectors_data_offset l) = Some (sectors_found l)"
proof -
  let ?base = "gl_sectors_data_offset l"
  let ?P = "\<lambda>sec. ?base = sd_offset (sc_desc sec) \<or> sectors_section_contains_offset sec ?base"
  obtain xs ys where split: "layouts = xs @ l # ys" using l by (meson split_list)
  have exact: "layout_exact 4 True m" if "m \<in> set layouts" for m using ok that by (simp add: layouts_ok_def)
  from ok obtain m where before: "contiguous off m (map layout_range xs)" and here: "unat (gl_sectors_desc_offset l) = m"
    by (auto simp: layouts_ok_def split contiguous_append layout_range_def [of l])
  have found: "sd_offset (sc_desc (sectors_found m)) = gl_sectors_desc_offset m"
    "sc_data_offset (sectors_found m) = gl_sectors_data_offset m"
    "sc_data_size (sectors_found m) = gl_payload_size m"
    "checked_add (gl_sectors_data_offset m) (gl_payload_size m) = Some (gl_table_desc_offset m)" if m: "m \<in> set layouts" for m
  proof -
    have e: "unat (gl_sectors_data_offset m) = unat (gl_sectors_desc_offset m) + 76"
      "unat (gl_table_desc_offset m) = unat (gl_sectors_data_offset m) + unat (gl_payload_size m)"
      using exact [OF m] by (simp_all add: layout_exact_def)
    show "checked_add (gl_sectors_data_offset m) (gl_payload_size m) = Some (gl_table_desc_offset m)"
      using e(2) unat_64_less [of "gl_table_desc_offset m"] by (simp add: checked_add_Some)
    show "sc_data_offset (sectors_found m) = gl_sectors_data_offset m"
      using word_of_nat_unat_eq [OF e(1)] by (simp add: sectors_found_def section_at_def)
    show "sd_offset (sc_desc (sectors_found m)) = gl_sectors_desc_offset m" "sc_data_size (sectors_found m) = gl_payload_size m"
      by (simp_all add: sectors_found_def section_at_def)
  qed
  have "\<not> ?P (sectors_found q)" if q: "q \<in> set xs" for q
  proof -
    have ql: "q \<in> set layouts" using q by (simp add: split)
    have "(unat (gl_sectors_desc_offset q), unat (gl_end_offset q)) \<in> set (map layout_range xs)"
      using q by (auto simp: layout_range_def intro!: image_eqI)
    from contiguous_member [OF before this] have "unat (gl_end_offset q) \<le> unat (gl_sectors_desc_offset l)" by (simp add: here)
    moreover have "unat (gl_table_desc_offset q) < unat (gl_end_offset q)"
      using layout_exact_table2 [OF exact [OF ql]] by auto
    moreover have "unat ?base = unat (gl_sectors_desc_offset l) + 76" using exact [OF l] by (simp add: layout_exact_def)
    ultimately have "unat (gl_table_desc_offset q) < unat ?base" "unat (gl_sectors_desc_offset q) < unat ?base"
      using exact [OF ql] by (simp_all add: layout_exact_def)
    then show ?thesis
      by (auto simp: sectors_section_contains_offset_def found [OF ql] word_le_nat_alt)
  qed
  moreover have "?P (sectors_found l)"
    using exact [OF l] by (simp add: sectors_section_contains_offset_def found [OF l] word_le_nat_alt layout_exact_def)
  ultimately have "find ?P (map sectors_found xs @ sectors_found l # map sectors_found ys) = Some (sectors_found l)"
    by (intro find_first) auto
  then show ?thesis by (simp add: matching_sectors_section_def secs split)
qed

text \<open>The bytes of each group stand where its layout says.\<close>

lemma section_names_ok: "\<forall>(t, data) \<in> set (segment_sections pl volume content start chunks footer layouts). section_name_ok t"
proof -
  have ok: "section_name_ok (bytes_of n)"
    if "n \<in> {''header'', ''header2'', ''xheader'', ''volume'', ''session'', ''ltree'', ''error2'', ''digest'', ''xhash'',
      ''sectors'', ''table'', ''table2''}" for n
    using that by (elim insertE emptyE) (simp_all add: section_name_ok_def bytes_of_def)
  show ?thesis
  proof (clarify)
    fix t data assume "(t, data) \<in> set (segment_sections pl volume content start chunks footer layouts)"
    then have "str_of t \<in> {''header'', ''header2'', ''xheader'', ''volume'', ''session'', ''ltree'', ''error2'', ''digest'', ''xhash'',
      ''sectors'', ''table'', ''table2''}"
      unfolding segment_sections_split
      using other_section_names [of t data pl volume] group_section_names [of t data content start chunks footer layouts] by auto
    from ok [OF this] show "section_name_ok t" by simp
  qed
qed

lemma groups_stored:
  assumes ok: "layouts_ok chunks (tables_offset pl volume) True True layouts" and l: "l \<in> set layouts"
    and content: "start + data_total chunks \<le> length content"
    and seg: "seg = header @ section_chain 13 (segment_sections pl volume content start chunks True layouts) terminal"
      "length header = 13"
  shows "group_stored seg content start chunks True l"
proof -
  let ?gs = "group_sections content start chunks True" and ?pre = "pre_sections pl volume"
  obtain xs ys where split: "layouts = xs @ l # ys" using l by (meson split_list)
  have each: "\<forall>m \<in> set layouts. layout_exact (if True then 4 else 0) True m \<and> layout_fits chunks m"
    and cont: "contiguous (tables_offset pl volume) (unat (gl_end_offset (last layouts))) (map layout_range layouts)"
    using ok by (auto simp: layouts_ok_def)
  from cont have before: "contiguous (tables_offset pl volume) (unat (gl_sectors_desc_offset l)) (map layout_range xs)"
    by (auto simp: split contiguous_append layout_range_def [of l])
  have exact: "layout_exact 4 True l" and fits: "layout_fits chunks l" using each by (auto simp: split)
  have at: "13 + chain_size (?pre @ concat (map ?gs xs)) = unat (gl_sectors_desc_offset l)"
  proof -
    have "13 + chain_size ?pre = tables_offset pl volume" by (simp add: tables_offset_def pre_sections_def)
    moreover have "tables_offset pl volume + chain_size (concat (map ?gs xs)) = unat (gl_sectors_desc_offset l)"
      using groups_place [OF before _ content, where footer = True and ?t2.0 = True] each by (simp add: split)
    ultimately show ?thesis by simp
  qed
  obtain t2 where t2: "gl_table2_desc_offset l = Some t2"
    "unat t2 = unat (gl_table_desc_offset l) + 76 + unat (gl_table_data_size l)"
    "unat (gl_end_offset l) = unat t2 + 76 + unat (gl_table_data_size l)"
    using layout_exact_table2 [OF exact] by blast
  let ?cs = "slice chunks (gl_first_chunk l) (gl_end_chunk l)"
  let ?d = "group_data content start chunks l" and ?t = "ewf1_table_bytes (gl_sectors_data_offset l) ?cs True"
  have gsl: "?gs l = [(bytes_of ''sectors'', ?d), (bytes_of ''table'', ?t), (bytes_of ''table2'', ?t)]"
    by (simp add: group_sections_def Let_def t2(1) group_data_def)
  let ?rest = "concat (map ?gs ys) @ post_sections pl"
  let ?secs = "segment_sections pl volume content start chunks True layouts"
  have secs: "?secs = (?pre @ concat (map ?gs xs)) @ ?gs l @ ?rest"
    unfolding segment_sections_split split by simp
  have ld: "length ?d = unat (gl_payload_size l)" by (rule length_group_data [OF fits content])
  have lcs: "length ?cs = gl_end_chunk l - gl_first_chunk l" using fits by (auto simp: layout_fits_def)
  have lt: "length ?t = unat (gl_table_data_size l)"
    using exact by (simp add: length_ewf1_table_bytes lcs layout_exact_def del: length_slice)
  have td: "unat (gl_table_desc_offset l) = unat (gl_sectors_desc_offset l) + 76 + length ?d"
    "unat (gl_sectors_data_offset l) = unat (gl_sectors_desc_offset l) + 76"
    using exact by (simp_all add: layout_exact_def ld)
  have data_at: "slice seg (13 + chain_size before' + 76) (13 + chain_size before' + 76 + length data) = data \<and>
      13 + chain_size before' + 76 + length data \<le> length seg"
    if "?secs = before' @ (n, data) # after'" for before' n data after'
    using chain_data [of seg header before' n data after' terminal] seg section_names_ok
    unfolding that [symmetric] by blast
  have d: "slice seg (unat (gl_sectors_desc_offset l) + 76) (unat (gl_sectors_desc_offset l) + 76 + length ?d) = ?d"
    using data_at [of "?pre @ concat (map ?gs xs)" "bytes_of ''sectors''" ?d] unfolding secs gsl at by simp
  have t: "slice seg (unat (gl_table_desc_offset l) + 76) (unat (gl_table_desc_offset l) + 76 + length ?t) = ?t"
    using data_at [of "(?pre @ concat (map ?gs xs)) @ [(bytes_of ''sectors'', ?d)]" "bytes_of ''table''" ?t]
    unfolding secs gsl chain_size_simps(3) [of "?pre @ concat (map ?gs xs)"] add.assoc [symmetric] at td(1)
    by (simp add: add.assoc)
  have tt: "slice seg (unat t2 + 76) (unat t2 + 76 + length ?t) = ?t \<and> unat t2 + 76 + length ?t \<le> length seg"
    using data_at [of "(?pre @ concat (map ?gs xs)) @ [(bytes_of ''sectors'', ?d), (bytes_of ''table'', ?t)]" "bytes_of ''table2''" ?t]
    unfolding secs gsl chain_size_simps(3) [of "?pre @ concat (map ?gs xs)"] add.assoc [symmetric] at t2(2) td(1) lt [symmetric]
    by (simp add: add.assoc)
  from d t tt show ?thesis
    by (simp add: group_stored_def t2(1,3) td lt ld)
qed


section \<open>The ranges of a written segment\<close>

lemma written_segment_parsed:
  fixes pl volume content start chunks layouts terminal
  defines "secs \<equiv> segment_sections pl volume content start chunks True layouts"
  assumes seg: "seg = header @ section_chain 13 secs terminal" "length header = 13" "length seg < 2 ^ 64"
    and ok: "layouts_ok chunks (tables_offset pl volume) True True layouts"
    and content: "start + data_total chunks \<le> length content" and ne: "chunks \<noteq> []"
    and t: "section_name_ok terminal" "str_of terminal \<in> {''done'', ''next''}"
    and room: "unat fc + length chunks < 2 ^ 64"
  shows "scan_ewf1_sections seg = Inr (chain_sections 13 secs terminal)"
    and "parse_ewf1_ranges seg (chain_sections 13 secs terminal) i fc logical profile
      = Inr (map (\<lambda>l. written_range i (fc + word_of_nat (gl_first_chunk l)) profile l) layouts)"
proof -
  have "str_of n \<notin> {''done'', ''next''}" if "(n, data) \<in> set secs" for n data
    using that unfolding secs_def segment_sections_split
    using other_section_names [of n data pl volume] group_section_names [of n data content start chunks True layouts] by fastforce
  then show "scan_ewf1_sections seg = Inr (chain_sections 13 secs terminal)"
    using section_names_ok [of pl volume content start chunks True layouts]
    by (intro scan_written_sections [OF seg(3,1,2) _ t]) (auto simp: secs_def)
  note found = segment_sections_found [OF ok content t(2), folded secs_def]
  have each: "\<forall>l \<in> set layouts. layout_exact 4 True l \<and> layout_fits chunks l \<and> group_stored seg content start chunks True l \<and>
      gl_first_chunk l < gl_end_chunk l \<and> gl_end_chunk l - gl_first_chunk l < 2 ^ 31 \<and>
      matching_sectors_section (chain_sections 13 secs terminal) (gl_sectors_data_offset l) = Some (sectors_found l)"
  proof
    fix l assume l: "l \<in> set layouts"
    then have "layout_exact 4 True l \<and> layout_fits chunks l \<and> gl_first_chunk l < gl_end_chunk l \<and>
        gl_end_chunk l - gl_first_chunk l \<le> 16375"
      using ok ne by (simp add: layouts_ok_def EWF1_TABLE_GROUP_MAX_ENTRIES_def)
    with groups_stored [OF ok l content seg(1)[unfolded secs_def] seg(2)] matching_written [OF ok l found(2)]
    show "layout_exact 4 True l \<and> layout_fits chunks l \<and> group_stored seg content start chunks True l \<and>
      gl_first_chunk l < gl_end_chunk l \<and> gl_end_chunk l - gl_first_chunk l < 2 ^ 31 \<and>
      matching_sectors_section (chain_sections 13 secs terminal) (gl_sectors_data_offset l) = Some (sectors_found l)"
      by auto
  qed
  have "contiguous 0 (length chunks) (map (\<lambda>l. (gl_first_chunk l, gl_end_chunk l)) layouts)" "layouts \<noteq> []"
    using ok by (simp_all add: layouts_ok_def)
  with parse_written_tables [OF seg(3) room this(1) each, of i profile "[]" None]
  show "parse_ewf1_ranges seg (chain_sections 13 secs terminal) i fc logical profile
      = Inr (map (\<lambda>l. written_range i (fc + word_of_nat (gl_first_chunk l)) profile l) layouts)"
    unfolding parse_ewf1_ranges_def found(1) by auto
qed

text \<open>Each of them is a range of the spool the segment was written from.\<close>

lemma written_range_written:
  assumes ok: "layouts_ok chunks off True True layouts" and l: "l \<in> set layouts"
    and stored: "group_stored (segs ! i) content (data_total (take lo ds)) chunks True l"
    and chunks: "chunks = slice ds lo hi" "lo \<le> hi" "hi \<le> length ds" "chunks \<noteq> []"
    and content: "length content = data_total ds"
    and sizes: "\<forall>d \<in> set ds. 0 < unat (cd_data_size d) \<and> unat (cd_data_size d) \<le> 2 ^ 31"
    and segs: "i < length segs" "length (segs ! i) < 2 ^ 64"
    and meth: "rp_compression_method profile = ICZlib"
  shows "ewf1_range_written segs (written_range i fc profile l)
      (slice ds (lo + gl_first_chunk l) (lo + gl_end_chunk l))
      (slice content (data_total (take (lo + gl_first_chunk l) ds)) (data_total (take (lo + gl_end_chunk l) ds)))"
proof -
  let ?a = "gl_first_chunk l" and ?b = "gl_end_chunk l" and ?T = "\<lambda>j. data_total (take j ds)"
  let ?g = "slice ds (lo + ?a) (lo + ?b)" and ?seg = "segs ! i"
  have l_ok: "layout_exact 4 True l" "layout_fits chunks l" "?a < ?b" "?b - ?a \<le> 16375"
    "?b - ?a \<le> 1 \<or> unat (gl_payload_size l) \<le> 0x7fffffff"
    using ok l chunks(4)
    by (simp_all add: layouts_ok_def EWF1_TABLE_GROUP_MAX_ENTRIES_def EWF1_TABLE_GROUP_MAX_PAYLOAD_def)
  have bn: "?b \<le> length chunks" "unat (gl_payload_size l) = payload_of (slice chunks ?a ?b)"
    using l_ok(2) by (simp_all add: layout_fits_def)
  have bh: "lo + ?b \<le> hi" using bn(1) chunks(1-3) l_ok(3) by simp
  have g: "slice chunks ?a ?b = ?g" using bh by (simp add: chunks(1) slice_slice min_absorb2)
  have lg: "length ?g = ?b - ?a" using bh chunks(3) by simp
  have payload: "unat (gl_payload_size l) = data_total ?g" using bn(2) g by (simp add: payload_of_total)
  have T: "?T (lo + ?a) + data_total ?g = ?T (lo + ?b)"
    using data_total_group [of "lo + ?a" "?b - ?a" ds "lo + ?b"] bh chunks(3) l_ok(3) lg by simp
  have Tle: "?T (lo + ?b) \<le> length content" using data_total_take_le content by simp
  have Tlo: "?T lo + data_total (take j chunks) = ?T (lo + j)" if "lo + j \<le> hi" for j
    using data_total_group [of lo j ds hi] that chunks by simp
  have data: "group_data content (?T lo) chunks l = slice content (?T (lo + ?a)) (?T (lo + ?b))"
    using Tlo [of ?a] Tlo [of ?b] bh l_ok(3) by (simp add: group_data_def)
  have small: "data_total ?g \<le> 0x80000000"
  proof (cases "?b - ?a \<le> 1")
    case True
    with l_ok(3) have "?b = Suc ?a" by simp
    with bh chunks(3) have "?g = [ds ! (lo + ?a)]" using slice_single [of "lo + ?a" ds] by simp
    moreover have "unat (cd_data_size (ds ! (lo + ?a))) \<le> 2 ^ 31"
      using sizes bh chunks(3) l_ok(3) by simp
    ultimately show ?thesis by (simp add: data_total_def)
  next
    case False
    with l_ok(5) payload show ?thesis by simp
  qed
  have e: "unat (gl_table_desc_offset l) = unat (gl_sectors_data_offset l) + data_total ?g"
    "unat (gl_table_data_size l) = 28 + 4 * (?b - ?a)"
    using l_ok(1) payload by (simp_all add: layout_exact_def)
  obtain t2 :: u64 where "unat t2 = unat (gl_table_desc_offset l) + 76 + unat (gl_table_data_size l)"
      "unat (gl_end_offset l) = unat t2 + 76 + unat (gl_table_data_size l)"
    using layout_exact_table2 [OF l_ok(1)] by blast
  then have inside: "unat (gl_table_desc_offset l) + 76 + unat (gl_table_data_size l) \<le> length ?seg"
    using stored by (simp add: group_stored_def)
  have de: "gl_table_desc_offset l = gl_sectors_data_offset l + word_of_nat (data_total ?g)"
    using word_of_nat_unat_eq [OF e(1)] by simp
  have tab: "slice ?seg (unat (gl_table_desc_offset l) + 76) (unat (gl_table_desc_offset l) + 76 + unat (gl_table_data_size l))
      = ewf1_table_bytes (gl_sectors_data_offset l) ?g True"
    using stored by (simp add: group_stored_def g)
  note entries = table_parts(2) [OF tab _ inside, unfolded lg e(2), OF refl]
  have eo: "unat (word_of_nat (unat (gl_table_desc_offset l) + 100) :: u64) = unat (gl_table_desc_offset l) + 100"
    by (rule unat_small_u64) (use inside segs(2) e(2) in linarith)
  have cnt: "unat (word_of_nat (?b - ?a) :: u64) = ?b - ?a"
    by (rule unat_small_u64) (use l_ok(4) in simp)
  have len: "length (slice content (?T (lo + ?a)) (?T (lo + ?b))) = data_total ?g"
    using T Tle by simp
  have d: "slice ?seg (unat (gl_sectors_data_offset l)) (unat (gl_sectors_data_offset l) + data_total ?g)
      = slice content (?T (lo + ?a)) (?T (lo + ?b))"
    using stored by (simp add: group_stored_def data e(1))
  have pos: "\<forall>d \<in> set ?g. 0 < unat (cd_data_size d)" using sizes set_slice [of ds] by blast
  have at100: "unat (gl_table_desc_offset l) + 76 + 24 = unat (gl_table_desc_offset l) + 100" by simp
  show ?thesis
    unfolding ewf1_range_written_def len lg
    using segs meth small pos de d inside e entries cnt eo
    by (simp add: written_range_def at100 add.commute)
qed


lemma write_scan_parse:
  assumes run: "write_ewf1_segment spool chunks options texts wc = Inr (out, spool')"
    and spool: "chunk_spool_ok spool" "laid_out start chunks" "start + data_total chunks \<le> length (cs_file spool)"
    and ident: "\<forall>i \<in> set_option (wo_set_identifier options). length i = 16"
    and small: "length out < 2 ^ 64" and fmt: "wo_format options \<in> {Ewf1Physical, Ewf1Logical}"
    and ne: "chunks \<noteq> []" and room: "unat fc + length chunks < 2 ^ 64"
  shows "\<exists>sections ranges. scan_ewf1_sections out = Inr sections \<and>
    parse_ewf1_ranges out sections i fc logical profile = Inr ranges \<and>
    contiguous (unat fc) (unat fc + length chunks)
      (map (\<lambda>r. (unat (tr_first_chunk r), unat (tr_first_chunk r) + unat (tr_chunk_count r))) ranges)"
proof -
  from write_ewf1_segment_ok [OF run spool ident small] obtain pl volume layouts signature where
    signature: "ewf1_signature (wo_format options) = Inr signature"
    and ok: "layouts_ok chunks (tables_offset pl volume) (wo_format options \<noteq> Ewf1Smart) (wo_format options \<in> {Ewf1Physical, Ewf1Logical}) layouts"
    and out: "out = segment_file_header signature (wc_segment_number wc) @
      section_chain 13 (segment_sections pl volume (cs_file spool) start chunks (wo_format options \<noteq> Ewf1Smart) layouts)
        (ewf1_terminal_type (wc_terminal_section wc))" by blast
  have ok': "layouts_ok chunks (tables_offset pl volume) True True layouts" using ok fmt by auto
  have out': "out = segment_file_header signature (wc_segment_number wc) @
      section_chain 13 (segment_sections pl volume (cs_file spool) start chunks True layouts)
        (ewf1_terminal_type (wc_terminal_section wc))" using out fmt by auto
  have lh: "length (segment_file_header signature (wc_segment_number wc)) = 13"
    using signature fmt by (auto simp: segment_file_header_def ewf1_signature_def EVF_SIGNATURE_def LVF_SIGNATURE_def)
  have t: "section_name_ok (ewf1_terminal_type (wc_terminal_section wc))"
    "str_of (ewf1_terminal_type (wc_terminal_section wc)) \<in> {''done'', ''next''}"
    by (cases "wc_terminal_section wc"; simp add: ewf1_terminal_type_def section_name_ok_def bytes_of_def)
      (cases "wc_terminal_section wc"; simp add: ewf1_terminal_type_def)
  note parsed = written_segment_parsed [OF out' lh small ok' spool(3) ne t room]
  let ?ranges = "map (\<lambda>l. written_range i (fc + word_of_nat (gl_first_chunk l)) profile l) layouts"
  have place: "unat (fc + word_of_nat (gl_first_chunk l)) = unat fc + gl_first_chunk l \<and>
      unat (word_of_nat (gl_end_chunk l - gl_first_chunk l) :: u64) = gl_end_chunk l - gl_first_chunk l \<and>
      gl_first_chunk l \<le> gl_end_chunk l" if "l \<in> set layouts" for l
  proof -
    have "gl_first_chunk l \<le> gl_end_chunk l" "gl_end_chunk l \<le> length chunks"
      using ok' that by (auto simp: layouts_ok_def layout_fits_def)
    with room show ?thesis by (simp add: unat_add_less unat_of_small_u64 del: of_nat_diff)
  qed
  have "contiguous (unat fc + a) (unat fc + b)
      (map (\<lambda>r. (unat (tr_first_chunk r), unat (tr_first_chunk r) + unat (tr_chunk_count r)))
        (map (\<lambda>l. written_range i (fc + word_of_nat (gl_first_chunk l)) profile l) ls))"
    if "contiguous a b (map (\<lambda>l. (gl_first_chunk l, gl_end_chunk l)) ls)" "set ls \<subseteq> set layouts" for a b ls
    using that
  proof (induction ls arbitrary: a)
    case (Cons l ls)
    then show ?case using place [of l] by (simp add: written_range_def add.assoc del: of_nat_diff)
  qed simp
  from this [of 0 "length chunks" layouts] ok' parsed show ?thesis
    by (intro exI [of _ "chain_sections 13 (segment_sections pl volume (cs_file spool) start chunks True layouts)
        (ewf1_terminal_type (wc_terminal_section wc))"] exI [of _ ?ranges]) (simp add: layouts_ok_def)
qed

end
