(* ===== verification/Segment_Groups.thy ===== *)
theory Segment_Groups
  imports Written_Segment
begin

text \<open>
  The split of the chunks over segments (\<open>segment_groups\<close> in \<open>src/writer.rs\<close>), the
  size it estimates for a segment, and the loop of \<open>finish_with_terminal_section\<close> that
  writes one EWF1 segment per group. The lemmas: the groups are consecutive and cover the
  chunks, the estimate is the exact length of a segment that holds all metadata, and a
  segment of more than one chunk never exceeds the configured size.
\<close>

section \<open>Estimated sizes\<close>

definition estimated_ewf1_section_size :: "u64 \<Rightarrow> u64 result" where
  "estimated_ewf1_section_size data_size =
     ok_or (checked_add 76 data_size) (Malformed ''writer estimated EWF1 section size overflow'')"

definition estimated_ewf2_section_size :: "u64 \<Rightarrow> u64 result" where
  "estimated_ewf2_section_size data_size =
     ok_or (checked_add 64 data_size) (Malformed ''writer estimated EWF2 section size overflow'')"

definition checked_sum :: "u64 list \<Rightarrow> string \<Rightarrow> u64 result" where
  "checked_sum parts label =
     try_fold (\<lambda>acc part. ok_or (checked_add acc part) (Malformed (''writer '' @ label @ '' overflow''))) 0 parts"

text \<open>\<open>payload.map(|payload| estimate(payload.len())).transpose()?.unwrap_or(0)\<close>\<close>

definition optional_size :: "(u64 \<Rightarrow> u64 result) \<Rightarrow> bytes option \<Rightarrow> u64 result" where
  "optional_size estimate payload =
     (case payload of Some data \<Rightarrow> estimate (word_of_nat (length data)) | None \<Rightarrow> Inr 0)"

definition estimated_ewf1_segment_size ::
    "nat \<Rightarrow> u64 \<Rightarrow> u64 \<Rightarrow> write_options \<Rightarrow> segment_texts \<Rightarrow> u64 result" where
  "estimated_ewf1_segment_size chunk_count chunk_payload_size table_group_count options texts =
     (let size = optional_size estimated_ewf1_section_size in
      try_bind (ok_or (checked_mul (word_of_nat chunk_count) 4)
        (Malformed ''writer table entry size overflow'')) (\<lambda>table_entry_bytes.
      let table_footer_bytes = (if wo_format options = Ewf1Smart then 0 else 4) in
      try_bind (ok_or (Option.bind (checked_add 76 24) (\<lambda>value. checked_add value table_footer_bytes))
        (Malformed ''writer table group overhead overflow'')) (\<lambda>table_group_overhead.
      try_bind (ok_or (Option.bind (checked_mul table_group_count table_group_overhead)
          (\<lambda>value. checked_add value table_entry_bytes))
        (Malformed ''writer table sections size overflow'')) (\<lambda>table_sections_size.
      try_bind (ok_or (Option.bind (checked_mul table_group_count 76)
          (\<lambda>value. checked_add value chunk_payload_size))
        (Malformed ''writer sectors sections size overflow'')) (\<lambda>sectors_sections_size.
      let writes_table2 = (wo_format options \<in> {Ewf1Physical, Ewf1Logical}) in
      try_bind (try_bind (st_header texts) size) (\<lambda>header_size.
      try_bind (try_bind (st_header2 texts) size) (\<lambda>header2_size.
      try_bind (try_bind (st_xheader texts) size) (\<lambda>xheader_size.
      try_bind (try_bind (ewf1_session_payload (wo_sessions options) (wo_tracks options)) size) (\<lambda>session_size.
      try_bind (if wo_format options = Ewf1Logical then try_bind (st_ltree texts) size else Inr 0) (\<lambda>ltree_size.
      try_bind (try_bind (ewf1_error2_payload (wo_acquisition_errors options)) size) (\<lambda>error2_size.
      try_bind (size (digest_payload (wo_hashes options))) (\<lambda>digest_size.
      try_bind (try_bind (st_xhash texts) size) (\<lambda>xhash_size.
      try_bind (volume_data_size (wo_format options)) (\<lambda>volume_size.
      try_bind (estimated_ewf1_section_size (word_of_nat volume_size)) (\<lambda>volume_section_size.
      checked_sum [word_of_nat FILE_HEADER_SIZE, header_size, header2_size, xheader_size,
        volume_section_size, session_size, table_sections_size,
        (if writes_table2 then table_sections_size else 0), ltree_size, sectors_sections_size,
        error2_size, digest_size, xhash_size, 76] ''estimated EWF1 segment size'')))))))))))))))"

text \<open>
  The sections an EWF2 segment holds beside its chunks. The texts in them are compressed
  by external code and stand here as the encoders return them.
\<close>

record ewf2_segment_texts =
  et_device_information :: "bytes result"
  et_case_data :: "bytes result"
  et_analytical_data :: "bytes option result"
  et_restart_data :: "bytes option result"
  et_single_files :: "bytes option result"

definition estimated_ewf2_segment_size ::
    "nat \<Rightarrow> u64 \<Rightarrow> write_options \<Rightarrow> ewf2_segment_texts \<Rightarrow> u64 result" where
  "estimated_ewf2_segment_size chunk_count chunk_payload_size options texts =
     (let estimate = estimated_ewf2_section_size; size = optional_size estimate;
        len = (\<lambda>data. word_of_nat (length data) :: u64) in
      try_bind (et_device_information texts) (\<lambda>device_information.
      try_bind (et_case_data texts) (\<lambda>case_data.
      try_bind (ewf2_error_table_payload (wo_acquisition_errors options)) (\<lambda>error_table.
      try_bind (ewf2_session_table_payload (wo_sessions options) (wo_tracks options)) (\<lambda>session_table.
      let memory_extents_table = ewf2_memory_extents_table_payload (wo_memory_extents options) in
      try_bind (ewf2_single_files_aux_u64_table_payload (wo_table_0x21_entries options)) (\<lambda>table_0x21.
      try_bind (ewf2_single_files_md5_hash_table_payload (wo_single_files_md5_hashes options)) (\<lambda>md5_hash_table.
      try_bind (ewf2_single_files_aux_u64_table_payload (wo_table_0x23_entries options)) (\<lambda>table_0x23.
      try_bind (try_fold (\<lambda>acc payload.
          try_bind (estimate (len payload)) (\<lambda>section_size.
          ok_or (checked_add acc section_size)
            (Malformed ''writer estimated EWF2 increment data size overflow'')))
        0 (wo_increment_data options)) (\<lambda>increment_data_size.
      let md5_hash = map_option ewf2_hash_payload (sh_md5 (wo_hashes options));
        sha1_hash = map_option ewf2_hash_payload (sh_sha1 (wo_hashes options)) in
      try_bind (size (wo_final_information options)) (\<lambda>final_information_size.
      try_bind (et_analytical_data texts) (\<lambda>analytical_data.
      try_bind (et_restart_data texts) (\<lambda>restart_data.
      try_bind (ok_or (checked_mul (word_of_nat chunk_count) 16)
        (Malformed ''writer EWF2 table entry size overflow'')) (\<lambda>table_entry_bytes.
      try_bind (ok_or (Option.bind (checked_add 32 table_entry_bytes) (\<lambda>value. checked_add value 16))
        (Malformed ''writer EWF2 table size overflow'')) (\<lambda>table_data_size.
      try_bind (estimate (len device_information)) (\<lambda>s1.
      try_bind (estimate (len case_data)) (\<lambda>s2.
      try_bind (size error_table) (\<lambda>s3.
      try_bind (size session_table) (\<lambda>s4.
      try_bind (size memory_extents_table) (\<lambda>s5.
      try_bind (size table_0x21) (\<lambda>s6.
      try_bind (size md5_hash_table) (\<lambda>s7.
      try_bind (size table_0x23) (\<lambda>s8.
      try_bind (estimate table_data_size) (\<lambda>s9.
      try_bind (estimate chunk_payload_size) (\<lambda>s10.
      try_bind (size md5_hash) (\<lambda>s11.
      try_bind (size sha1_hash) (\<lambda>s12.
      try_bind (size analytical_data) (\<lambda>s13.
      try_bind (size restart_data) (\<lambda>s14.
      try_bind (try_bind (et_single_files texts) size) (\<lambda>s15.
      checked_sum [32, s1, s2, s3, s4, s5, increment_data_size, s6, s7, s8, s9, s10, s11, s12,
        final_information_size, s13, s14, s15, 64] ''estimated EWF2 segment size'')))))))))))))))))))))))))))))"

definition estimated_segment_size ::
    "nat \<Rightarrow> u64 \<Rightarrow> u64 \<Rightarrow> write_options \<Rightarrow> segment_texts \<Rightarrow> ewf2_segment_texts \<Rightarrow> u64 result" where
  "estimated_segment_size chunk_count chunk_payload_size table_group_count options texts texts2 =
     (if is_ewf2_format (wo_format options)
      then estimated_ewf2_segment_size chunk_count chunk_payload_size options texts2
      else estimated_ewf1_segment_size chunk_count chunk_payload_size table_group_count options texts)"

section \<open>Groups of chunks\<close>

fun segment_groups_loop ::
    "u64 \<Rightarrow> write_options \<Rightarrow> segment_texts \<Rightarrow> ewf2_segment_texts \<Rightarrow> nat \<Rightarrow> chunk_descriptor list
      \<Rightarrow> (nat \<times> nat) list \<times> nat \<times> u64 \<times> table_group_state \<Rightarrow> ((nat \<times> nat) list \<times> nat) result" where
  "segment_groups_loop maximum options texts texts2 index [] (groups, current_start, payload_size, state) =
     Inr (groups, current_start)"
| "segment_groups_loop maximum options texts texts2 index (chunk # chunks)
     (groups, current_start, payload_size, state) =
     (let is_ewf2 = is_ewf2_format (wo_format options);
        overflow = Malformed ''writer segment payload size overflow'';
        add = (\<lambda>state. add_chunk state (cd_data_size chunk) EWF1_TABLE_GROUP_MAX_ENTRIES EWF1_TABLE_GROUP_MAX_PAYLOAD) in
      try_bind (ok_or (checked_add payload_size (cd_data_size chunk)) overflow) (\<lambda>proposed_payload_size.
      try_bind (if is_ewf2 then Inr state else add state) (\<lambda>proposed_state.
      try_bind (estimated_segment_size (index - current_start + 1) proposed_payload_size
        (max (gs_group_count proposed_state) 1) options texts texts2) (\<lambda>proposed_size.
      if current_start < index \<and> maximum < proposed_size
      then try_bind (if is_ewf2 then Inr table_group_state_default else add table_group_state_default) (\<lambda>state.
        try_bind (ok_or (checked_add 0 (cd_data_size chunk)) overflow) (\<lambda>payload_size.
        segment_groups_loop maximum options texts texts2 (index + 1) chunks
          (groups @ [(current_start, index)], index, payload_size, state)))
      else try_bind (ok_or (checked_add payload_size (cd_data_size chunk)) overflow) (\<lambda>payload_size.
        segment_groups_loop maximum options texts texts2 (index + 1) chunks
          (groups, current_start, payload_size, proposed_state))))))"

definition segment_groups ::
    "chunk_descriptor list \<Rightarrow> u64 option \<Rightarrow> write_options \<Rightarrow> segment_texts \<Rightarrow> ewf2_segment_texts
      \<Rightarrow> (nat \<times> nat) list result" where
  "segment_groups chunks maximum_segment_size options texts texts2 =
     (case maximum_segment_size of
        None \<Rightarrow> Inr [(0, length chunks)]
      | Some maximum \<Rightarrow>
          try_bind (segment_groups_loop maximum options texts texts2 0 chunks ([], 0, 0, table_group_state_default))
            (\<lambda>(groups, current_start). Inr (groups @ [(current_start, length chunks)])))"

section \<open>Writing the segments\<close>

definition ewf1_segment_context ::
    "nat \<Rightarrow> nat \<Rightarrow> terminal_section \<Rightarrow> u32 \<Rightarrow> u64 \<Rightarrow> ewf1_segment_write_context result" where
  "ewf1_segment_context index group_count terminal chunk_count sector_count =
     (let is_last = (index + 1 = group_count) in
      try_bind (if index + 1 < 2 ^ 16 then Inr (word_of_nat (index + 1))
        else Inl (Unsupported ''EWF1 writer segment count exceeds u16'')) (\<lambda>number.
      Inr \<lparr>wc_segment_number = number, wc_chunk_count = chunk_count, wc_sector_count = sector_count,
        wc_sections = sections_for_segment (index = 0) (is_last \<and> terminal = TerminalDone),
        wc_terminal_section = (if is_last then terminal else TerminalDone)\<rparr>))"

fun write_ewf1_segments ::
    "chunk_descriptor list \<Rightarrow> write_options \<Rightarrow> segment_texts \<Rightarrow> nat \<Rightarrow> terminal_section \<Rightarrow> u32 \<Rightarrow> u64
      \<Rightarrow> nat \<Rightarrow> (nat \<times> nat) list \<Rightarrow> chunk_spool \<Rightarrow> bytes list result" where
  "write_ewf1_segments chunks options texts group_count terminal chunk_count sector_count index [] spool = Inr []"
| "write_ewf1_segments chunks options texts group_count terminal chunk_count sector_count index ((a, b) # groups) spool =
     try_bind (ewf1_segment_context index group_count terminal chunk_count sector_count) (\<lambda>context.
     try_bind (write_ewf1_segment spool (slice chunks a b) options texts context) (\<lambda>(out, spool).
     try_bind (write_ewf1_segments chunks options texts group_count terminal chunk_count sector_count
       (index + 1) groups spool) (\<lambda>outs. Inr (out # outs))))"

text \<open>\<open>finish\<close> from the encoded spool on: split the chunks, then write each segment.\<close>

definition finish_ewf1_segments ::
    "encoded_spool \<Rightarrow> write_options \<Rightarrow> segment_texts \<Rightarrow> ewf2_segment_texts \<Rightarrow> terminal_section \<Rightarrow> u64
      \<Rightarrow> bytes list result" where
  "finish_ewf1_segments spool options texts texts2 terminal sector_count =
     try_bind (ok_or (u32_of_usize (length (es_chunks spool)))
       (Unsupported ''writer chunk count exceeds u32'')) (\<lambda>chunk_count.
     try_bind (segment_groups (es_chunks spool) (wo_maximum_segment_size options) options texts texts2) (\<lambda>groups.
     write_ewf1_segments (es_chunks spool) options texts (length groups) terminal chunk_count sector_count
       0 groups (es_spool spool)))"


section \<open>The groups cover the chunks and respect the limit\<close>

abbreviation (input) add_descriptor :: "table_group_state \<Rightarrow> chunk_descriptor \<Rightarrow> table_group_state result" where
  "add_descriptor st c \<equiv> add_chunk st (cd_data_size c) EWF1_TABLE_GROUP_MAX_ENTRIES EWF1_TABLE_GROUP_MAX_PAYLOAD"

definition group_state :: "chunk_descriptor list \<Rightarrow> table_group_state result" where
  "group_state cs = try_fold add_descriptor table_group_state_default cs"

text \<open>The size the writer estimates for the chunks from \<open>a\<close> to \<open>b\<close> as one segment.\<close>

definition estimate_of ::
    "write_options \<Rightarrow> segment_texts \<Rightarrow> ewf2_segment_texts \<Rightarrow> chunk_descriptor list \<Rightarrow> nat \<Rightarrow> nat \<Rightarrow> u64 \<Rightarrow> bool" where
  "estimate_of options texts texts2 chunks a b est \<longleftrightarrow>
     (\<exists>payload st. estimated_segment_size (b - a) payload (max (gs_group_count st) 1) options texts texts2 = Inr est \<and>
        unat payload = data_total (slice chunks a b) \<and>
        (\<not> is_ewf2_format (wo_format options) \<longrightarrow> group_state (slice chunks a b) = Inr st))"

definition groups_fit ::
    "u64 \<Rightarrow> write_options \<Rightarrow> segment_texts \<Rightarrow> ewf2_segment_texts \<Rightarrow> chunk_descriptor list \<Rightarrow> (nat \<times> nat) list \<Rightarrow> bool" where
  "groups_fit maximum options texts texts2 chunks groups \<longleftrightarrow>
     (\<forall>(a, b) \<in> set groups. b - a \<le> 1 \<or> (\<exists>est. estimate_of options texts texts2 chunks a b est \<and> est \<le> maximum))"

definition groups_full ::
    "u64 \<Rightarrow> write_options \<Rightarrow> segment_texts \<Rightarrow> ewf2_segment_texts \<Rightarrow> chunk_descriptor list \<Rightarrow> (nat \<times> nat) list \<Rightarrow> bool" where
  "groups_full maximum options texts texts2 chunks groups \<longleftrightarrow>
     (\<forall>(a, b) \<in> set groups. a < b \<and> (\<exists>est. estimate_of options texts texts2 chunks a (Suc b) est \<and> maximum < est))"

lemma segment_groups_loop_ok:
  assumes "segment_groups_loop maximum options texts texts2 index cs (groups, start, payload, st) = Inr (groups', start')"
    and "cs = drop index chunks" "index \<le> length chunks"
    and "contiguous 0 start groups" "start \<le> index" "0 < index \<longrightarrow> start < index"
    and "unat payload = data_total (slice chunks start index)"
    and "\<not> is_ewf2_format (wo_format options) \<longrightarrow> group_state (slice chunks start index) = Inr st"
    and "groups_fit maximum options texts texts2 chunks (groups @ [(start, index)])"
    and "groups_full maximum options texts texts2 chunks groups"
  shows "contiguous 0 start' groups' \<and> start' \<le> length chunks \<and> (chunks \<noteq> [] \<longrightarrow> start' < length chunks) \<and>
    groups_fit maximum options texts texts2 chunks (groups' @ [(start', length chunks)]) \<and>
    groups_full maximum options texts texts2 chunks groups'"
  using assms
proof (induction cs arbitrary: index groups start payload st)
  case (Cons c cs)
  let ?ewf2 = "is_ewf2_format (wo_format options)"
  from Cons.prems(2) have i: "index < length chunks" and c: "c = chunks ! index" and cs: "cs = drop (Suc index) chunks"
    by (metis drop_eq_Nil linorder_not_less list.distinct(1),
        metis drop_eq_Nil hd_drop_conv_nth linorder_not_less list.distinct(1) list.sel(1),
        metis drop_Suc list.sel(3) tl_drop)
  from Cons.prems(1) obtain payload' st' est where
    pay: "checked_add payload (cd_data_size c) = Some payload'"
    and st': "(if ?ewf2 then Inr st else add_descriptor st c) = Inr st'"
    and est: "estimated_segment_size (index - start + 1) payload' (max (gs_group_count st') 1) options texts texts2 = Inr est"
    by (auto simp: Let_def try_bind_Inr_iff ok_or_Inr_iff simp del: max_def split: if_splits)
  have sl: "slice chunks start (Suc index) = slice chunks start index @ [c]"
    using slice_snoc [OF Cons.prems(5) i] by (simp add: c)
  have one: "slice chunks index (Suc index) = [c]" using slice_single [OF i] by (simp add: c)
  have pay': "unat payload' = data_total (slice chunks start (Suc index))"
    using pay Cons.prems(7) by (simp add: checked_add_Some sl)
  have gst: "\<not> ?ewf2 \<longrightarrow> group_state (slice chunks start (Suc index)) = Inr st'"
    using st' Cons.prems(8) by (auto simp: group_state_def sl try_fold_append)
  have of_est: "estimate_of options texts texts2 chunks start (Suc index) est"
    unfolding estimate_of_def using est pay' gst Cons.prems(5)
    by (intro exI [of _ payload'] exI [of _ st']) (simp add: Suc_diff_le)
  show ?case
  proof (cases "start < index \<and> maximum < est")
    case True
    from Cons.prems(1) obtain st'' where
      st'': "(if ?ewf2 then Inr table_group_state_default else add_descriptor table_group_state_default c) = Inr st''"
      and run: "segment_groups_loop maximum options texts texts2 (Suc index) cs
        (groups @ [(start, index)], index, cd_data_size c, st'') = Inr (groups', start')"
      using True pay st' est
      by (auto simp: Let_def try_bind_Inr_iff ok_or_Inr_iff checked_add_def simp del: max_def split: if_splits)
    have "groups_fit maximum options texts texts2 chunks ((groups @ [(start, index)]) @ [(index, Suc index)])"
      using Cons.prems(9) by (auto simp: groups_fit_def)
    moreover have "groups_full maximum options texts texts2 chunks (groups @ [(start, index)])"
      using Cons.prems(10) True of_est by (auto simp: groups_full_def)
    moreover have "\<not> ?ewf2 \<longrightarrow> group_state (slice chunks index (Suc index)) = Inr st''"
      using st'' by (auto simp: group_state_def one)
    moreover have "contiguous 0 index (groups @ [(start, index)])"
      using Cons.prems(4,5) by (simp add: contiguous_snoc)
    ultimately show ?thesis
      using Cons.IH [OF run cs] i by (simp add: one)
  next
    case False
    from Cons.prems(1) have
      run: "segment_groups_loop maximum options texts texts2 (Suc index) cs (groups, start, payload', st') = Inr (groups', start')"
      using False pay st' est
      by (auto simp: Let_def try_bind_Inr_iff ok_or_Inr_iff simp del: max_def split: if_splits)
    have "groups_fit maximum options texts texts2 chunks (groups @ [(start, Suc index)])"
      using Cons.prems(9) False of_est Cons.prems(5) by (auto simp: groups_fit_def not_less)
    with Cons.IH [OF run cs _ Cons.prems(4) _ _ pay' gst _ Cons.prems(10)] i Cons.prems(5)
    show ?thesis by simp
  qed
qed auto

lemma segment_groups_ok:
  assumes "segment_groups chunks limit options texts texts2 = Inr groups"
  shows "contiguous 0 (length chunks) groups" and "groups \<noteq> []"
    and "chunks \<noteq> [] \<Longrightarrow> (a, b) \<in> set groups \<Longrightarrow> a < b"
    and "limit = Some maximum \<Longrightarrow> groups_fit maximum options texts texts2 chunks groups"
    and "limit = Some maximum \<Longrightarrow> groups_full maximum options texts texts2 chunks (butlast groups)"
proof -
  have "contiguous 0 (length chunks) groups \<and> groups \<noteq> [] \<and> (chunks \<noteq> [] \<longrightarrow> (\<forall>(a, b) \<in> set groups. a < b)) \<and>
    (\<forall>maximum. limit = Some maximum \<longrightarrow> groups_fit maximum options texts texts2 chunks groups \<and>
      groups_full maximum options texts texts2 chunks (butlast groups))"
  proof (cases limit)
    case None
    then show ?thesis using assms by (auto simp: segment_groups_def)
  next
    case (Some m)
    then obtain gs start where
      loop: "segment_groups_loop m options texts texts2 0 chunks ([], 0, 0, table_group_state_default) = Inr (gs, start)"
      and g: "groups = gs @ [(start, length chunks)]"
      using assms by (auto simp: segment_groups_def try_bind_Inr_iff)
    have "contiguous 0 start gs \<and> start \<le> length chunks \<and> (chunks \<noteq> [] \<longrightarrow> start < length chunks) \<and>
        groups_fit m options texts texts2 chunks (gs @ [(start, length chunks)]) \<and> groups_full m options texts texts2 chunks gs"
      by (rule segment_groups_loop_ok [OF loop])
        (simp_all add: group_state_def groups_fit_def groups_full_def data_total_def)
    then show ?thesis by (auto simp: g Some contiguous_snoc groups_full_def)
  qed
  then show "contiguous 0 (length chunks) groups" "groups \<noteq> []"
    "chunks \<noteq> [] \<Longrightarrow> (a, b) \<in> set groups \<Longrightarrow> a < b"
    "limit = Some maximum \<Longrightarrow> groups_fit maximum options texts texts2 chunks groups"
    "limit = Some maximum \<Longrightarrow> groups_full maximum options texts texts2 chunks (butlast groups)" by auto
qed


section \<open>The estimate is the length of the segment\<close>

lemma checked_sum_Inr:
  assumes "checked_sum parts label = Inr s"
  shows "unat s = sum_list (map unat parts)"
proof -
  have "unat s = unat acc + sum_list (map unat parts)"
    if "try_fold (\<lambda>acc part. ok_or (checked_add acc part) e) acc parts = Inr s" for acc e
    using that by (induction parts arbitrary: acc) (auto simp: try_bind_Inr_iff ok_or_Inr_iff checked_add_Some)
  from this [of "Malformed (''writer '' @ label @ '' overflow'')" 0] assms
  show ?thesis by (simp add: checked_sum_def)
qed

text \<open>The number of tables the loop over the descriptors counts.\<close>

lemma table_groups_counted:
  assumes "ewf1_table_groups_loop me mp index cs (gs, first, st) = Inr (gs', first', st')"
    and "unat (gs_group_count st) = (if gs_current_entry_count st = 0 then 0 else Suc (length gs))"
    and "gs_current_entry_count st = 0 \<longrightarrow> gs = []"
  shows "try_fold (\<lambda>st c. add_chunk st (cd_data_size c) me mp) st cs = Inr st' \<and>
    unat (gs_group_count st') = (if gs_current_entry_count st' = 0 then 0 else Suc (length gs')) \<and>
    (gs_current_entry_count st' = 0 \<longrightarrow> gs' = [])"
  using assms
proof (induction cs arbitrary: index gs first st)
  case (Cons c cs)
  from Cons.prems(1) obtain nxt where add: "add_chunk st (cd_data_size c) me mp = Inr nxt"
    by (auto simp: try_bind_Inr_iff simp del: ewf1_table_groups_loop.simps(1))
  let ?opens = "gs_current_entry_count st \<noteq> 0 \<and> (me \<le> gs_current_entry_count st \<or>
    unat mp < unat (gs_current_payload_size st) + unat (cd_data_size c))"
  have counted: "gs_current_entry_count nxt \<noteq> 0 \<and>
      (if ?opens then unat (gs_group_count nxt) = Suc (unat (gs_group_count st)) else gs_group_count nxt = max (gs_group_count st) 1)"
    using add by (cases ?opens) (auto simp: add_chunk_def try_bind_Inr_iff checked_simps word_nat_order simp del: max_def)
  have one: "gs_current_entry_count st \<noteq> 0 \<Longrightarrow> max (gs_group_count st) 1 = gs_group_count st"
    using Cons.prems(2) by (intro max_absorb1) (simp add: word_le_nat_alt)
  have zero: "gs_current_entry_count st = 0 \<Longrightarrow> max (gs_group_count st) 1 = 1"
    using Cons.prems(2) by (intro max_absorb2) (simp add: word_le_nat_alt)
  have next_ok: "gs_current_entry_count nxt \<noteq> 0 \<and>
    (gs_group_count st < gs_group_count nxt \<and> gs_current_entry_count st \<noteq> 0 \<longrightarrow>
       unat (gs_group_count nxt) = Suc (unat (gs_group_count st))) \<and>
    (\<not> (gs_group_count st < gs_group_count nxt \<and> gs_current_entry_count st \<noteq> 0) \<longrightarrow>
       unat (gs_group_count nxt) = (if gs_current_entry_count st = 0 then 1 else unat (gs_group_count st)))"
  proof (cases ?opens)
    case True
    then have "unat (gs_group_count nxt) = Suc (unat (gs_group_count st))" using counted by meson
    then have "gs_group_count st < gs_group_count nxt" by (simp add: word_less_nat_alt)
    with True counted show ?thesis by meson
  next
    case False
    then have nxt: "gs_group_count nxt = max (gs_group_count st) 1" using counted by meson
    show ?thesis
    proof (cases "gs_current_entry_count st = 0")
      case True
      with nxt zero counted show ?thesis by simp
    next
      case False
      with nxt one counted show ?thesis by simp
    qed
  qed
  show ?case
  proof (cases "gs_group_count st < gs_group_count nxt \<and> gs_current_entry_count st \<noteq> 0")
    case True
    with Cons.prems(1) add have run: "ewf1_table_groups_loop me mp (index + 1) cs
        (gs @ [\<lparr>tg_first_chunk = first, tg_end_chunk = index, tg_payload_size = gs_current_payload_size st\<rparr>], index, nxt)
      = Inr (gs', first', st')" by simp
    from Cons.IH [OF run] next_ok True Cons.prems(2) show ?thesis by (simp add: add)
  next
    case False
    with Cons.prems(1) add have run: "ewf1_table_groups_loop me mp (index + 1) cs (gs, first, nxt) = Inr (gs', first', st')"
      by (auto split: if_splits)
    from Cons.IH [OF run] next_ok False Cons.prems(2,3) show ?thesis by (simp add: add)
  qed
qed simp

lemma table_groups_count:
  assumes "ewf1_table_groups cs EWF1_TABLE_GROUP_MAX_ENTRIES EWF1_TABLE_GROUP_MAX_PAYLOAD = Inr groups"
    and "group_state cs = Inr st"
  shows "length groups = unat (max (gs_group_count st) 1)"
proof -
  from assms(1) obtain gs first st' where
    loop: "ewf1_table_groups_loop EWF1_TABLE_GROUP_MAX_ENTRIES EWF1_TABLE_GROUP_MAX_PAYLOAD 0 cs
      ([], 0, table_group_state_default) = Inr (gs, first, st')"
    and g: "length groups = Suc (length gs)"
    by (auto simp: ewf1_table_groups_def try_bind_Inr_iff)
  from table_groups_counted [OF loop] assms(2) have "st' = st"
    "unat (gs_group_count st) = (if gs_current_entry_count st = 0 then 0 else Suc (length gs))"
    "gs_current_entry_count st = 0 \<longrightarrow> gs = []"
    by (auto simp: group_state_def table_group_state_default_def)
  then show ?thesis by (auto simp: g max_def word_le_nat_alt split: if_splits)
qed

lemma slice_adjacent: "a \<le> m \<Longrightarrow> m \<le> b \<Longrightarrow> slice xs a m @ slice xs m b = slice xs a b"
  using take_add [of "m - a" "b - m" "drop a xs"] by (simp add: slice_def)

lemma groups_size:
  assumes "contiguous a b (map (\<lambda>l. (gl_first_chunk l, gl_end_chunk l)) layouts)" "b \<le> length chunks"
    and "\<forall>l \<in> set layouts. layout_exact (if footer then 4 else 0) t2 l \<and> layout_fits chunks l"
    and "start + data_total chunks \<le> length content" "t2 \<Longrightarrow> footer"
  shows "chain_size (concat (map (group_sections content start chunks footer) layouts)) =
    length layouts * (76 + (100 + (if footer then 4 else 0)) * (if t2 then 2 else 1)) +
    4 * (b - a) * (if t2 then 2 else 1) + data_total (slice chunks a b)"
  using assms(1,3)
proof (induction layouts arbitrary: a)
  case Nil
  then show ?case by (simp add: slice_def data_total_def chain_size_def)
next
  case (Cons l ls)
  let ?m = "if t2 then 2 else 1 :: nat" and ?f = "if footer then 4 else 0 :: nat"
  have a: "gl_first_chunk l = a" and rest: "contiguous (gl_end_chunk l) b (map (\<lambda>l. (gl_first_chunk l, gl_end_chunk l)) ls)"
    using Cons.prems(1) by simp_all
  have l: "layout_exact ?f t2 l" "layout_fits chunks l" using Cons.prems(2) by simp_all
  have le: "a \<le> gl_end_chunk l" "gl_end_chunk l \<le> b"
    using l(2) a contiguous_le [OF rest] by (simp_all add: layout_fits_def)
  have pay: "unat (gl_payload_size l) = data_total (slice chunks a (gl_end_chunk l))"
    using l(2) by (simp add: layout_fits_def payload_of_total a)
  have sum: "data_total (slice chunks a (gl_end_chunk l)) + data_total (slice chunks (gl_end_chunk l) b) = data_total (slice chunks a b)"
    using slice_adjacent [OF le, of chunks] by (metis data_total_simps(3))
  have "chain_size (group_sections content start chunks footer l)
      = 76 + unat (gl_payload_size l) + (76 + (24 + 4 * (gl_end_chunk l - a) + ?f)) * ?m"
  proof (cases t2)
    case True
    from group_sections_place(2) [OF l assms(4,5)] layout_exact_table2 [of ?f l] l(1) True
    show ?thesis by (auto simp: layout_exact_def a)
  next
    case False
    from l(1) False have "unat (gl_end_offset l) = unat (gl_table_desc_offset l) + 76 + unat (gl_table_data_size l)"
      unfolding layout_exact_def by (simp only: if_False simp_thms)
    with group_sections_place(2) [OF l assms(4,5)] l(1) False show ?thesis by (simp add: layout_exact_def a)
  qed
  with Cons.IH [OF rest] Cons.prems(2) sum pay le show ?case
    by (cases t2) (simp_all add: algebra_simps diff_mult_distrib2)
qed


definition opt_len :: "bytes option \<Rightarrow> nat" where
  "opt_len p = (case p of Some data \<Rightarrow> 76 + length data | None \<Rightarrow> 0)"

lemma chain_size_opt_section [simp]: "chain_size (opt_section name p) = opt_len p"
  by (simp add: opt_section_def opt_len_def chain_size_def split: option.split)

lemma optional_size_len:
  assumes "optional_size estimated_ewf1_section_size p = Inr s" "opt_len p < 2 ^ 64"
  shows "unat s = opt_len p"
  using assms
  by (auto simp: optional_size_def opt_len_def estimated_ewf1_section_size_def ok_or_Inr_iff checked_add_Some
      unat_of_small_u64 split: option.splits)

lemma table_words:
  assumes "checked_mul (word_of_nat n) (4 :: u64) = Some entries" "n < 2 ^ 64"
    and "checked_add 76 (24 :: u64) = Some oh1" "checked_add oh1 footer = Some oh" "unat footer = f"
    and "checked_mul count oh = Some g1" "checked_add g1 entries = Some tables"
    and "checked_mul count (76 :: u64) = Some s1" "checked_add s1 payload = Some sectors"
  shows "unat tables = unat count * (100 + f) + 4 * n" and "unat sectors = unat count * 76 + unat payload"
proof -
  have "unat (word_of_nat n :: u64) = n" using assms(2) by (rule unat_small_u64)
  then show "unat tables = unat count * (100 + f) + 4 * n" "unat sectors = unat count * 76 + unat payload"
    using assms by (simp_all only: checked_add_Some checked_mul_Some) simp_all
qed

text \<open>What the estimate adds up.\<close>

lemma estimate_sum:
  assumes "estimated_ewf1_segment_size n payload count options texts = Inr est" "n < 2 ^ 64"
  obtains header header2 xheader session ltree error2 xhash sh sh2 sx ss sl se sd sxh sv vs where
    "st_header texts = Inr header" "st_header2 texts = Inr header2" "st_xheader texts = Inr xheader"
    "ewf1_session_payload (wo_sessions options) (wo_tracks options) = Inr session"
    "if wo_format options = Ewf1Logical then st_ltree texts = Inr ltree else ltree = None"
    "ewf1_error2_payload (wo_acquisition_errors options) = Inr error2" "st_xhash texts = Inr xhash"
    "list_all2 (\<lambda>p s. optional_size estimated_ewf1_section_size p = Inr s)
       [header, header2, xheader, session, ltree, error2, digest_payload (wo_hashes options), xhash]
       [sh, sh2, sx, ss, sl, se, sd, sxh]"
    "volume_data_size (wo_format options) = Inr vs" "estimated_ewf1_section_size (word_of_nat vs) = Inr sv"
    "unat est = 13 + unat sh + unat sh2 + unat sx + unat sv + unat ss +
       (unat count * (100 + (if wo_format options = Ewf1Smart then 0 else 4)) + 4 * n) *
         (if wo_format options \<in> {Ewf1Physical, Ewf1Logical} then 2 else 1) +
       unat sl + (unat count * 76 + unat payload) + unat se + unat sd + unat sxh + 76"
proof -
  let ?smart = "wo_format options = Ewf1Smart" and ?t2 = "wo_format options \<in> {Ewf1Physical, Ewf1Logical}"
  let ?logical = "wo_format options = Ewf1Logical" and ?size = "optional_size estimated_ewf1_section_size"
  from assms(1) obtain entries oh1 oh g1 tables s1 sectors header sh header2 sh2 xheader sx session ss sl error2 se sd
      xhash sxh vs sv where
    words: "checked_mul (word_of_nat n) 4 = Some entries" "checked_add 76 24 = Some oh1"
      "checked_add oh1 (if ?smart then 0 else 4) = Some oh" "checked_mul count oh = Some g1"
      "checked_add g1 entries = Some tables" "checked_mul count 76 = Some s1" "checked_add s1 payload = Some sectors"
    and texts: "st_header texts = Inr header" "st_header2 texts = Inr header2" "st_xheader texts = Inr xheader"
      "ewf1_session_payload (wo_sessions options) (wo_tracks options) = Inr session"
      "ewf1_error2_payload (wo_acquisition_errors options) = Inr error2" "st_xhash texts = Inr xhash"
    and sizes: "?size header = Inr sh" "?size header2 = Inr sh2" "?size xheader = Inr sx" "?size session = Inr ss"
      "?size error2 = Inr se" "?size (digest_payload (wo_hashes options)) = Inr sd" "?size xhash = Inr sxh"
    and ltree: "(if ?logical then try_bind (st_ltree texts) ?size else Inr 0) = Inr sl"
    and volume: "volume_data_size (wo_format options) = Inr vs" "estimated_ewf1_section_size (word_of_nat vs) = Inr sv"
    and sum: "checked_sum [word_of_nat FILE_HEADER_SIZE, sh, sh2, sx, sv, ss, tables, (if ?t2 then tables else 0), sl, sectors,
      se, sd, sxh, 76] ''estimated EWF1 segment size'' = Inr est"
    unfolding estimated_ewf1_segment_size_def Let_def
    by (simp only: try_bind_Inr_iff ok_or_Inr_iff bind_eq_Some_conv) (elim exE conjE; rule that; assumption)
  note tw = table_words [OF words(1) assms(2) words(2,3) _ words(4-7), of "if ?smart then 0 else 4"]
  obtain lt where lt: "if ?logical then st_ltree texts = Inr lt else lt = None" "?size lt = Inr sl"
  proof (cases ?logical)
    case True
    with ltree that show ?thesis by (auto simp: try_bind_Inr_iff)
  next
    case False
    with ltree that [of None] show ?thesis by (auto simp: optional_size_def)
  qed
  have "unat est = 13 + unat sh + unat sh2 + unat sx + unat sv + unat ss +
       (unat count * (100 + (if ?smart then 0 else 4)) + 4 * n) * (if ?t2 then 2 else 1) +
       unat sl + (unat count * 76 + unat payload) + unat se + unat sd + unat sxh + 76"
    unfolding checked_sum_Inr [OF sum] using tw by auto
  with texts sizes volume lt show ?thesis by (intro that [of header header2 xheader session lt error2 xhash]) auto
qed


lemma write_ewf1_segment_length:
  assumes run: "write_ewf1_segment spool chunks options texts context = Inr (out, spool')"
    and spool: "chunk_spool_ok spool" "laid_out start chunks" "start + data_total chunks \<le> length (cs_file spool)"
    and ident: "\<forall>i \<in> set_option (wo_set_identifier options). length i = 16"
    and small: "length out < 2 ^ 64"
  obtains pl vs groups where
    "ewf1_segment_payloads options texts (wc_sections context) = Inr pl"
    "volume_data_size (wo_format options) = Inr vs" "vs \<le> 1052" "length chunks < 2 ^ 32"
    "ewf1_table_groups chunks EWF1_TABLE_GROUP_MAX_ENTRIES EWF1_TABLE_GROUP_MAX_PAYLOAD = Inr groups"
    "length out = 13 + opt_len (pl_header pl) + opt_len (pl_header2 pl) + opt_len (pl_xheader pl) + (76 + vs) +
       opt_len (pl_session pl) +
       (length groups * (100 + (if wo_format options = Ewf1Smart then 0 else 4)) + 4 * length chunks) *
         (if wo_format options \<in> {Ewf1Physical, Ewf1Logical} then 2 else 1) +
       opt_len (pl_ltree pl) + (length groups * 76 + data_total chunks) + opt_len (pl_error2 pl) +
       opt_len (pl_digest pl) + opt_len (pl_xhash pl) + 76"
proof -
  let ?footer = "wo_format options \<noteq> Ewf1Smart" and ?t2 = "wo_format options \<in> {Ewf1Physical, Ewf1Logical}"
  from write_ewf1_segment_ok [OF run spool ident small] obtain pl volume layouts signature where
    pl: "ewf1_segment_payloads options texts (wc_sections context) = Inr pl"
    and volume: "volume_data options (wc_chunk_count context) (wc_sector_count context) = Inr volume"
    and signature: "ewf1_signature (wo_format options) = Inr signature"
    and ok: "layouts_ok chunks (tables_offset pl volume) ?footer ?t2 layouts" and n: "length chunks < 2 ^ 32"
    and out: "out = segment_file_header signature (wc_segment_number context) @
      section_chain 13 (segment_sections pl volume (cs_file spool) start chunks ?footer layouts)
        (ewf1_terminal_type (wc_terminal_section context))" by blast
  have fmt: "wo_format options \<in> {Ewf1Physical, Ewf1Logical, Ewf1Smart}"
    using signature by (cases "wo_format options") (simp_all add: ewf1_signature_def)
  obtain vs where vs: "volume_data_size (wo_format options) = Inr vs" "vs \<le> 1052"
    using fmt by (auto simp: volume_data_size_def)
  have lv: "length volume = vs"
    using volume_data_checksum(1) [OF volume fmt ident] vs fmt by (auto simp: volume_data_size_def)
  have lh: "length (segment_file_header signature (wc_segment_number context)) = 13"
    using signature fmt by (auto simp: segment_file_header_def ewf1_signature_def EVF_SIGNATURE_def LVF_SIGNATURE_def)
  from ok obtain groups where groups: "ewf1_table_groups chunks EWF1_TABLE_GROUP_MAX_ENTRIES EWF1_TABLE_GROUP_MAX_PAYLOAD = Inr groups"
    "length layouts = length groups"
    and cont: "contiguous 0 (length chunks) (map (\<lambda>l. (gl_first_chunk l, gl_end_chunk l)) layouts)"
    and each: "\<forall>l \<in> set layouts. layout_exact (if ?footer then 4 else 0) ?t2 l \<and> layout_fits chunks l"
    by (auto simp: layouts_ok_def)
  note gsize = groups_size [OF cont order_refl each spool(3), folded groups(2)]
  let ?secs = "segment_sections pl volume (cs_file spool) start chunks ?footer layouts"
  have lterm: "length (section_desc (ewf1_terminal_type t) x y) = 76" for t x y
    by (cases t) (simp_all add: ewf1_terminal_type_def length_section_desc)
  have lchain: "length (chain_body 13 ?secs) = chain_size ?secs"
    using section_names_ok [of pl volume "cs_file spool" start chunks ?footer layouts] by (intro length_chain_body) auto
  have "length out = 13 + chain_size ?secs + 76"
    unfolding out section_chain_body length_append lh lterm lchain by simp
  also have "chain_size ?secs = opt_len (pl_header pl) + opt_len (pl_header2 pl) + opt_len (pl_xheader pl) + (76 + vs) +
       opt_len (pl_session pl) + chain_size (concat (map (group_sections (cs_file spool) start chunks ?footer) layouts)) +
       opt_len (pl_ltree pl) + opt_len (pl_error2 pl) + opt_len (pl_digest pl) + opt_len (pl_xhash pl)"
    by (simp add: segment_sections_def lv)
  finally have "length out = 13 + opt_len (pl_header pl) + opt_len (pl_header2 pl) + opt_len (pl_xheader pl) + (76 + vs) +
       opt_len (pl_session pl) +
       (length groups * (100 + (if wo_format options = Ewf1Smart then 0 else 4)) + 4 * length chunks) * (if ?t2 then 2 else 1) +
       opt_len (pl_ltree pl) + (length groups * 76 + data_total chunks) + opt_len (pl_error2 pl) +
       opt_len (pl_digest pl) + opt_len (pl_xhash pl) + 76"
    using gsize by (auto simp: groups(2) slice_def algebra_simps)
  then show ?thesis by (rule that [OF pl vs n groups(1)])
qed

definition ALL_SECTIONS :: u8 where "ALL_SECTIONS = sections_for_segment True True"

lemma estimate_bounds_length:
  assumes est: "estimated_ewf1_segment_size (length chunks) payload (max (gs_group_count st) 1) options texts = Inr est"
    and chunks: "unat payload = data_total chunks" "group_state chunks = Inr st"
    and run: "write_ewf1_segment spool chunks options texts context = Inr (out, spool')"
    and spool: "chunk_spool_ok spool" "laid_out start chunks" "start + data_total chunks \<le> length (cs_file spool)"
    and ident: "\<forall>i \<in> set_option (wo_set_identifier options). length i = 16"
    and small: "length out < 2 ^ 64"
  shows "length out \<le> unat est"
    and "wc_sections context = ALL_SECTIONS \<Longrightarrow> length out = unat est"
proof -
  let ?size = "optional_size estimated_ewf1_section_size"
  from write_ewf1_segment_length [OF run spool ident small] obtain pl vs groups where
    pl: "ewf1_segment_payloads options texts (wc_sections context) = Inr pl"
    and vs: "volume_data_size (wo_format options) = Inr vs" "vs \<le> 1052" and n: "length chunks < 2 ^ 32"
    and groups: "ewf1_table_groups chunks EWF1_TABLE_GROUP_MAX_ENTRIES EWF1_TABLE_GROUP_MAX_PAYLOAD = Inr groups"
    and len: "length out = 13 + opt_len (pl_header pl) + opt_len (pl_header2 pl) + opt_len (pl_xheader pl) + (76 + vs) +
       opt_len (pl_session pl) +
       (length groups * (100 + (if wo_format options = Ewf1Smart then 0 else 4)) + 4 * length chunks) *
         (if wo_format options \<in> {Ewf1Physical, Ewf1Logical} then 2 else 1) +
       opt_len (pl_ltree pl) + (length groups * 76 + data_total chunks) + opt_len (pl_error2 pl) +
       opt_len (pl_digest pl) + opt_len (pl_xhash pl) + 76" .
  have n64: "length chunks < 2 ^ 64" using n by simp
  from estimate_sum [OF est n64] obtain header header2 xheader session ltree error2 xhash sh sh2 sx ss sl se sd sxh sv vs' where
    texts: "st_header texts = Inr header" "st_header2 texts = Inr header2" "st_xheader texts = Inr xheader"
      "ewf1_session_payload (wo_sessions options) (wo_tracks options) = Inr session"
      "if wo_format options = Ewf1Logical then st_ltree texts = Inr ltree else ltree = None"
      "ewf1_error2_payload (wo_acquisition_errors options) = Inr error2" "st_xhash texts = Inr xhash"
    and sizes: "list_all2 (\<lambda>p s. ?size p = Inr s)
       [header, header2, xheader, session, ltree, error2, digest_payload (wo_hashes options), xhash]
       [sh, sh2, sx, ss, sl, se, sd, sxh]"
    and volume: "volume_data_size (wo_format options) = Inr vs'" "estimated_ewf1_section_size (word_of_nat vs') = Inr sv"
    and total: "unat est = 13 + unat sh + unat sh2 + unat sx + unat sv + unat ss +
       (unat (max (gs_group_count st) 1) * (100 + (if wo_format options = Ewf1Smart then 0 else 4)) + 4 * length chunks) *
         (if wo_format options \<in> {Ewf1Physical, Ewf1Logical} then 2 else 1) +
       unat sl + (unat (max (gs_group_count st) 1) * 76 + unat payload) + unat se + unat sd + unat sxh + 76" .
  let ?has = "sections_contain (wc_sections context)"
  have parts: "pl_header pl = (if ?has SECTIONS_HEADER then header else None)"
    "pl_header2 pl = (if ?has SECTIONS_HEADER then header2 else None)"
    "pl_xheader pl = (if ?has SECTIONS_HEADER then xheader else None)"
    "pl_session pl = (if ?has SECTIONS_SESSIONS then session else None)"
    "pl_error2 pl = (if ?has SECTIONS_ERRORS then error2 else None)"
    "pl_digest pl = (if ?has SECTIONS_DIGEST then digest_payload (wo_hashes options) else None)"
    "pl_xhash pl = (if ?has SECTIONS_DIGEST then xhash else None)"
    "pl_ltree pl = (if ?has SECTIONS_DIGEST \<and> wo_format options = Ewf1Logical then ltree else None)"
    using pl texts by (auto simp: ewf1_segment_payloads_def Let_def try_bind_Inr_iff split: if_splits)
  have vsv: "unat sv = 76 + vs" using volume vs
    by (auto simp: estimated_ewf1_section_size_def ok_or_Inr_iff checked_add_Some unat_of_small_u64)
  have g: "unat (max (gs_group_count st) 1) = length groups" by (rule table_groups_count [OF groups chunks(2), symmetric])
  have covered: "opt_len p \<le> unat s \<and> (p = q \<longrightarrow> opt_len p = unat s)"
    if "p = (if b then q else None)" "?size q = Inr s" "opt_len p \<le> length out" for p q s b
    using optional_size_len [of q s] that small by (cases b) (auto simp: opt_len_def split: option.splits)
  note c = covered [OF parts(1)] covered [OF parts(2)] covered [OF parts(3)] covered [OF parts(4)]
    covered [OF parts(5)] covered [OF parts(6)] covered [OF parts(7)] covered [OF parts(8)]
  have all: "opt_len (pl_header pl) \<le> unat sh \<and> (pl_header pl = header \<longrightarrow> opt_len (pl_header pl) = unat sh)"
    "opt_len (pl_header2 pl) \<le> unat sh2 \<and> (pl_header2 pl = header2 \<longrightarrow> opt_len (pl_header2 pl) = unat sh2)"
    "opt_len (pl_xheader pl) \<le> unat sx \<and> (pl_xheader pl = xheader \<longrightarrow> opt_len (pl_xheader pl) = unat sx)"
    "opt_len (pl_session pl) \<le> unat ss \<and> (pl_session pl = session \<longrightarrow> opt_len (pl_session pl) = unat ss)"
    "opt_len (pl_error2 pl) \<le> unat se \<and> (pl_error2 pl = error2 \<longrightarrow> opt_len (pl_error2 pl) = unat se)"
    "opt_len (pl_digest pl) \<le> unat sd \<and> (pl_digest pl = digest_payload (wo_hashes options) \<longrightarrow> opt_len (pl_digest pl) = unat sd)"
    "opt_len (pl_xhash pl) \<le> unat sxh \<and> (pl_xhash pl = xhash \<longrightarrow> opt_len (pl_xhash pl) = unat sxh)"
    "opt_len (pl_ltree pl) \<le> unat sl \<and> (pl_ltree pl = ltree \<longrightarrow> opt_len (pl_ltree pl) = unat sl)"
    by (rule c; use sizes len in simp)+
  show "length out \<le> unat est" unfolding len total g chunks(1) vsv using all by linarith
  assume "wc_sections context = ALL_SECTIONS"
  then have "?has SECTIONS_HEADER" "?has SECTIONS_DIGEST" "?has SECTIONS_ERRORS" "?has SECTIONS_SESSIONS"
    by (simp_all add: ALL_SECTIONS_def sections_for_segment_def sections_contain_def SECTIONS_HEADER_def SECTIONS_DIGEST_def
        SECTIONS_ERRORS_def SECTIONS_SESSIONS_def)
  then have "pl_header pl = header" "pl_header2 pl = header2" "pl_xheader pl = xheader" "pl_session pl = session"
    "pl_error2 pl = error2" "pl_digest pl = digest_payload (wo_hashes options)" "pl_xhash pl = xhash" "pl_ltree pl = ltree"
    using parts texts(5) by auto
  then show "length out = unat est" unfolding len total g chunks(1) vsv using all by linarith
qed


section \<open>All segments of an image\<close>

text \<open>Segment \<open>i\<close> is what \<open>write_ewf1_segment\<close> makes of its group of the chunks.\<close>

definition segment_written ::
    "bytes \<Rightarrow> chunk_descriptor list \<Rightarrow> write_options \<Rightarrow> segment_texts \<Rightarrow> nat \<Rightarrow> terminal_section \<Rightarrow> u32 \<Rightarrow> u64
      \<Rightarrow> nat \<times> nat \<times> nat \<Rightarrow> bytes \<Rightarrow> bool" where
  "segment_written content chunks options texts group_count terminal chunk_count sector_count = (\<lambda>(index, a, b) out.
     \<exists>context spool spool'. ewf1_segment_context index group_count terminal chunk_count sector_count = Inr context \<and>
       cs_file spool = content \<and> chunk_spool_ok spool \<and>
       write_ewf1_segment spool (slice chunks a b) options texts context = Inr (out, spool'))"

lemma laid_out_group:
  assumes "laid_out 0 chunks" "a \<le> b" "b \<le> length chunks"
  shows "laid_out (data_total (take a chunks)) (slice chunks a b)"
    and "data_total (take a chunks) + data_total (slice chunks a b) = data_total (take b chunks)"
proof -
  show "data_total (take a chunks) + data_total (slice chunks a b) = data_total (take b chunks)"
    using data_total_group [of a "b - a" chunks b] assms(2,3) by simp
  have "laid_out 0 (take a chunks @ slice chunks a b @ drop b chunks)"
    using assms(1) split_at_slice [OF assms(2), of chunks] by simp
  then show "laid_out (data_total (take a chunks)) (slice chunks a b)" by (simp add: laid_out_append)
qed

lemma write_ewf1_segments_ok:
  assumes "write_ewf1_segments chunks options texts group_count terminal chunk_count sector_count index groups spool = Inr outs"
    and "chunk_spool_ok spool" "laid_out 0 chunks" "data_total chunks \<le> length (cs_file spool)"
    and "\<forall>(a, b) \<in> set groups. a \<le> b \<and> b \<le> length chunks"
    and "\<forall>i \<in> set_option (wo_set_identifier options). length i = 16"
    and "\<forall>out \<in> set outs. length out < 2 ^ 64"
  shows "list_all2 (segment_written (cs_file spool) chunks options texts group_count terminal chunk_count sector_count)
    (enumerate index groups) outs"
  using assms
proof (induction groups arbitrary: index spool outs)
  case (Cons g gs)
  obtain a b where g: "g = (a, b)" by fastforce
  from Cons.prems(1) obtain wc out spool' rest where
    ctx: "ewf1_segment_context index group_count terminal chunk_count sector_count = Inr wc"
    and w: "write_ewf1_segment spool (slice chunks a b) options texts wc = Inr (out, spool')"
    and run: "write_ewf1_segments chunks options texts group_count terminal chunk_count sector_count (Suc index) gs spool' = Inr rest"
    and outs: "outs = out # rest"
    by (auto simp: g try_bind_Inr_iff)
  have ab: "a \<le> b" "b \<le> length chunks" using Cons.prems(5) by (auto simp: g)
  note lo = laid_out_group [OF Cons.prems(3) ab]
  have "data_total (take a chunks) + data_total (slice chunks a b) \<le> length (cs_file spool)"
    using lo(2) data_total_take_le [of b chunks] Cons.prems(4) by simp
  from write_ewf1_segment_ok [OF w Cons.prems(2) lo(1) this Cons.prems(6)] Cons.prems(7)
  have sp: "cs_file spool' = cs_file spool" "chunk_spool_ok spool'" by (auto simp: outs)
  have "segment_written (cs_file spool) chunks options texts group_count terminal chunk_count sector_count (index, a, b) out"
    unfolding segment_written_def using ctx w Cons.prems(2) by blast
  with Cons.IH [OF run sp(2) Cons.prems(3) _ _ Cons.prems(6)] Cons.prems(4,5,7) show ?case
    by (simp add: g outs sp(1))
qed simp

lemma finish_ewf1_segments_ok:
  assumes run: "finish_ewf1_segments es options texts texts2 terminal sector_count = Inr outs"
    and spool: "chunk_spool_ok (es_spool es)" "laid_out 0 (es_chunks es)" "data_total (es_chunks es) \<le> length (cs_file (es_spool es))"
    and ident: "\<forall>i \<in> set_option (wo_set_identifier options). length i = 16"
    and small: "\<forall>out \<in> set outs. length out < 2 ^ 64"
  obtains groups chunk_count where
    "segment_groups (es_chunks es) (wo_maximum_segment_size options) options texts texts2 = Inr groups"
    "u32_of_usize (length (es_chunks es)) = Some chunk_count" "length outs = length groups"
    "\<forall>i < length groups. segment_written (cs_file (es_spool es)) (es_chunks es) options texts (length groups) terminal
       chunk_count sector_count (i, groups ! i) (outs ! i)"
    "\<forall>i < length groups. fst (groups ! i) \<le> snd (groups ! i) \<and> snd (groups ! i) \<le> length (es_chunks es)"
proof -
  from run obtain chunk_count groups where
    cc: "u32_of_usize (length (es_chunks es)) = Some chunk_count"
    and groups: "segment_groups (es_chunks es) (wo_maximum_segment_size options) options texts texts2 = Inr groups"
    and w: "write_ewf1_segments (es_chunks es) options texts (length groups) terminal chunk_count sector_count 0 groups
      (es_spool es) = Inr outs"
    by (auto simp: finish_ewf1_segments_def try_bind_Inr_iff ok_or_Inr_iff)
  have ab: "a \<le> b \<and> b \<le> length (es_chunks es)" if "(a, b) \<in> set groups" for a b
    using contiguous_member [OF segment_groups_ok(1) [OF groups] that] by simp
  then have "\<forall>(a, b) \<in> set groups. a \<le> b \<and> b \<le> length (es_chunks es)" by auto
  from write_ewf1_segments_ok [OF w spool this ident small]
  have all: "list_all2 (segment_written (cs_file (es_spool es)) (es_chunks es) options texts (length groups) terminal
      chunk_count sector_count) (enumerate 0 groups) outs" .
  have len: "length outs = length groups" using list_all2_lengthD [OF all] by simp
  have nth: "segment_written (cs_file (es_spool es)) (es_chunks es) options texts (length groups) terminal
       chunk_count sector_count (i, groups ! i) (outs ! i)" if "i < length groups" for i
    using list_all2_nthD [OF all, of i] that by (simp add: nth_enumerate_eq)
  have bounds: "fst (groups ! i) \<le> snd (groups ! i) \<and> snd (groups ! i) \<le> length (es_chunks es)" if "i < length groups" for i
    using ab [of "fst (groups ! i)" "snd (groups ! i)"] nth_mem [OF that] by simp
  show ?thesis using that [OF groups cc len] nth bounds by simp
qed

lemma finished_segments_fit:
  assumes run: "finish_ewf1_segments es options texts texts2 terminal sector_count = Inr outs"
    and spool: "chunk_spool_ok (es_spool es)" "laid_out 0 (es_chunks es)" "data_total (es_chunks es) \<le> length (cs_file (es_spool es))"
    and ident: "\<forall>i \<in> set_option (wo_set_identifier options). length i = 16"
    and small: "\<forall>out \<in> set outs. length out < 2 ^ 64"
    and ewf1: "\<not> is_ewf2_format (wo_format options)" and limit: "wo_maximum_segment_size options = Some maximum"
  shows "\<exists>groups. contiguous 0 (length (es_chunks es)) groups \<and> length outs = length groups \<and>
    (\<forall>i < length groups. snd (groups ! i) - fst (groups ! i) \<le> 1 \<or> length (outs ! i) \<le> unat maximum)"
proof -
  from finish_ewf1_segments_ok [OF run spool ident small] obtain groups chunk_count where
    groups: "segment_groups (es_chunks es) (wo_maximum_segment_size options) options texts texts2 = Inr groups"
    and "u32_of_usize (length (es_chunks es)) = Some chunk_count" and len: "length outs = length groups"
    and written: "\<forall>i < length groups. segment_written (cs_file (es_spool es)) (es_chunks es) options texts (length groups)
       terminal chunk_count sector_count (i, groups ! i) (outs ! i)"
    and ab: "\<forall>i < length groups. fst (groups ! i) \<le> snd (groups ! i) \<and> snd (groups ! i) \<le> length (es_chunks es)" .
  have "snd (groups ! i) - fst (groups ! i) \<le> 1 \<or> length (outs ! i) \<le> unat maximum" if i: "i < length groups" for i
  proof (rule ccontr)
    assume "\<not> (snd (groups ! i) - fst (groups ! i) \<le> 1 \<or> length (outs ! i) \<le> unat maximum)"
    then have many: "\<not> snd (groups ! i) - fst (groups ! i) \<le> 1" and long: "\<not> length (outs ! i) \<le> unat maximum" by simp_all
    obtain a b where g: "groups ! i = (a, b)" by fastforce
    have "groups_fit maximum options texts texts2 (es_chunks es) groups"
      using segment_groups_ok(4) [OF groups limit] .
    then obtain est where "estimate_of options texts texts2 (es_chunks es) a b est" and le: "est \<le> maximum"
      using many i nth_mem [OF i] by (fastforce simp: groups_fit_def g)
    then obtain payload st where
      est: "estimated_ewf1_segment_size (length (slice (es_chunks es) a b)) payload (max (gs_group_count st) 1) options texts = Inr est"
      and cs: "unat payload = data_total (slice (es_chunks es) a b)" "group_state (slice (es_chunks es) a b) = Inr st"
      using ewf1 ab i by (fastforce simp: estimate_of_def estimated_segment_size_def g simp del: max_def)
    from written i obtain wc spool spool' where
      sp: "cs_file spool = cs_file (es_spool es)" "chunk_spool_ok spool"
      and w: "write_ewf1_segment spool (slice (es_chunks es) a b) options texts wc = Inr (outs ! i, spool')"
      by (fastforce simp: segment_written_def g)
    have le_ab: "a \<le> b" "b \<le> length (es_chunks es)" using ab [rule_format, OF i] by (simp_all add: g)
    note lo = laid_out_group [OF spool(2) le_ab]
    have "data_total (take a (es_chunks es)) + data_total (slice (es_chunks es) a b) \<le> length (cs_file spool)"
      using lo(2) data_total_take_le [of b "es_chunks es"] spool(3) sp(1) by simp
    from estimate_bounds_length(1) [OF est cs w sp(2) lo(1) this ident] small i len le long
    show False by (simp add: word_le_nat_alt)
  qed
  with segment_groups_ok(1) [OF groups] len show ?thesis by blast
qed

end
