(* ===== verification/Sample_Image.thy ===== *)
theory Sample_Image
  imports Written_Media
begin

text \<open>
  A small image, written and read: three bytes of media, two raw chunks, one chunk table.
  It is the concrete input at which the properties about writing and reading are applied.
\<close>

section \<open>The writer\<close>

definition sample_options :: write_options where
  "sample_options = \<lparr>wo_format = Ewf1Physical, wo_sectors_per_chunk = 2, wo_bytes_per_sector = 1,
     wo_set_identifier = None, wo_compression = WriteNone, wo_level = LevelDefault,
     wo_empty_block = True, wo_maximum_segment_size = None, wo_media_size = None,
     wo_media_profile = \<lparr>mp_media_type = None, mp_error_granularity = None, mp_fastbloc = False,
       mp_tableau = False\<rparr>,
     wo_hashes = stored_hashes_default, wo_acquisition_errors = [], wo_sessions = [], wo_tracks = [],
     wo_memory_extents = [], wo_table_0x21_entries = [], wo_single_files_md5_hashes = [],
     wo_table_0x23_entries = [], wo_increment_data = [], wo_final_information = None\<rparr>"

definition sample_new :: ewf_writer where
  "sample_new = \<lparr>ew_options = sample_options, ew_chunk_size = 2, ew_chunk_capacity = 2,
     ew_raw = raw_spool_new, ew_encoded_chunks = (\<lambda>_. None), ew_current_offset = 0,
     ew_logical_input_size = 0, ew_aborted = False\<rparr>"

definition sample_writer :: ewf_writer where
  "sample_writer = snd (write_buffer [7, 8, 9] sample_new)"

definition sample_decoders :: decoders where
  "sample_decoders = \<lparr>dec_zlib = (\<lambda>bs. (tl bs, None)), dec_bzip2 = (\<lambda>bs. (tl bs, None)),
     dec_zstd = (\<lambda>bs _. Inr (bs, None))\<rparr>"

definition sample_compressors :: compressors where
  "sample_compressors = \<lparr>co_zlib = (\<lambda>_ x. 0 # x), co_bzip2 = (\<lambda>_ x. 0 # x)\<rparr>"

lemma sample_law: "compressors_lawful sample_compressors sample_decoders"
    using zlib_cap_bounds(1) [THEN order_trans [rotated]]
  by (auto simp: compressors_lawful_def sample_compressors_def sample_decoders_def)

lemma sample_new_inv: "writer_inv D sample_new"
  by (simp add: writer_inv_def sample_new_def raw_spool_new_def raw_spool_ok_def)

lemma sample_writer_eq: "sample_writer = sample_new\<lparr>ew_raw := \<lparr>rs_file = [7, 8, 9], rs_len = 3\<rparr>,
    ew_current_offset := 3, ew_logical_input_size := 3\<rparr>"
  by (simp add: sample_writer_def write_buffer_def write_to_current_def sbind_def writer_ensure_not_aborted_def
      sample_new_def sample_options_def checked_add_def raw_write_at_def raw_spool_new_def file_write_def
      forget_encoded_chunks_in_range_def Let_def cong del: if_weak_cong)

lemma sample_writer_inv: "writer_inv D sample_writer"
  by (simp add: sample_writer_eq sample_new_def writer_inv_def raw_spool_ok_def)

definition sample_content :: bytes where
  "sample_content = [7, 8, 16, 0, 24, 0, 9, 10, 0, 10, 0]"

definition sample_chunks :: "chunk_descriptor list" where
  "sample_chunks =
     [\<lparr>cd_data_offset = 0, cd_data_size = 6, cd_compressed = False, cd_has_checksum = True, cd_pattern_fill = None\<rparr>,
      \<lparr>cd_data_offset = 6, cd_data_size = 5, cd_compressed = False, cd_has_checksum = True, cd_pattern_fill = None\<rparr>]"

definition sample_spool :: encoded_spool where
  "sample_spool = \<lparr>es_chunks = sample_chunks,
     es_spool = \<lparr>cs_file = sample_content, cs_len = 11, cs_position = 11\<rparr>\<rparr>"

lemma le32_bytes: "le32 w = [ucast w, ucast (drop_bit 8 w), ucast (drop_bit 16 w), ucast (drop_bit 24 w)]"
proof -
  have "le32 w = to_le (Suc (Suc (Suc (Suc 0)))) w" by (simp add: numeral_eq_Suc)
  then show ?thesis by (simp add: drop_bit_drop_bit)
qed

lemma sample_encoded: "encode_raw_spool sample_compressors (ew_raw sample_writer) (ew_encoded_chunks sample_writer) 3
    (ew_chunk_capacity sample_writer) (ew_chunk_size sample_writer) (ew_options sample_writer) = Inr sample_spool"
  by (simp add: sample_writer_eq sample_new_def encode_raw_spool_def encode_loop.simps raw_read_at_filling_zeroes_def
      read_exact_def slice_def splice_def Let_def encode_next_def encode_chunk_def sample_options_def is_ewf2_format_def
      is_full_zero_chunk_def encode_uncompressed_def spool_append_def chunk_spool_new_def checked_add_def
      adler32_def adler32_update_def file_write_def sample_spool_def sample_chunks_def sample_content_def
      le32_bytes)

section \<open>The image\<close>

definition sample_segment :: bytes where
  "sample_segment = sample_content @
     (case append_ewf1_table_data [] 2 0 sample_chunks True of Inl e \<Rightarrow> [] | Inr table \<Rightarrow> table)"

definition sample_range :: table_range where
  "sample_range = \<lparr>tr_kind = RangeEwf1, tr_segment_index = 0, tr_first_chunk = 0,
     tr_chunk_count = 2, tr_entries_offset = 35, tr_base_offset = 0, tr_data_end = Some 11,
     tr_ewf1_allow_large_compressed_chunks = False, tr_ewf1_compression_method = Some ICZlib,
     tr_ewf2_compression_method = None\<rparr>"

definition sample_image :: image where
  "sample_image = \<lparr>im_format = FormatEwf1, im_format_profile = EnCase6, im_logical_size = 3,
     im_chunk_size = 2, im_bytes_per_sector = Some 1,
     im_index = \<lparr>ix_logical_chunks = 2, ix_ranges = [sample_range]\<rparr>,
     im_segments = [sample_segment], im_contexts = [None], im_has_encryption_info = False\<rparr>"

type_synonym sample_pages = "(table_page_key \<times> bytes) list"
type_synonym sample_cache = "(u64 \<times> bytes) list"

definition sample_env :: "(sample_pages, sample_cache) env" where
  "sample_env = \<lparr>en_decoders = sample_decoders, en_page_lru = list_lru None,
     en_chunk_lru = list_lru (Some 1)\<rparr>"

definition sample_state :: "bool \<Rightarrow> (sample_pages, sample_cache) image_state" where
  "sample_state z = \<lparr>is_page_cache = page_cache_new [] 8192, is_chunk_cache = [],
     is_chunk_in_flight = [], is_checksum_errors = [], is_zero_on_error = z, is_aborted = False\<rparr>"

lemma sample_table: "\<exists>table. append_ewf1_table_data [] 2 0 sample_chunks True = Inr table"
  by (simp add: append_ewf1_table_data_def Let_def try_bind_def sample_chunks_def narrow_def checked_add_def
      u32_high_clear_iff)

lemma sample_segment_eq:
  "sample_segment = sample_content @ table_header 2 0 @ concat (map ewf1_entry_bytes (entry_offsets 0 sample_chunks))
     @ le32 (adler32 (concat (map ewf1_entry_bytes (entry_offsets 0 sample_chunks))))"
proof -
  obtain table where t: "append_ewf1_table_data [] 2 0 sample_chunks True = Inr table" using sample_table by blast
  show ?thesis using append_ewf1_table_data_ok(1) [OF t] by (simp add: sample_segment_def t)
qed

lemma length_sample_content [simp]: "length sample_content = 11"
  by (simp add: sample_content_def)

lemma sample_range_written: "ewf1_range_written [sample_segment] sample_range sample_chunks sample_content"
proof -
  let ?t = "concat (map ewf1_entry_bytes (entry_offsets 0 sample_chunks))"
  have t: "length ?t = 8" by (simp add: sample_chunks_def ewf1_entry_bytes_def)
  have "length (table_header 2 0) = 24" by simp
  then have "slice sample_segment 35 (35 + 8) = ?t"
    using slice_append_exact [of "sample_content @ table_header 2 0" ?t] by (simp add: sample_segment_eq t)
  moreover have "slice sample_segment 0 11 = sample_content"
    by (simp add: sample_segment_eq slice_def)
  moreover have "length sample_segment = 47" by (simp add: sample_segment_eq t)
  ultimately show ?thesis
    by (simp add: ewf1_range_written_def sample_range_def data_total_def) (simp add: sample_chunks_def)
qed

lemma sample_index: "index_ok (im_index sample_image)"
  by (simp add: index_ok_def sample_image_def sample_range_def)

lemma sample_is_of_spool: "image_of_spool sample_image sample_content sample_chunks"
proof -
  have "slice sample_chunks 0 2 = sample_chunks" "slice sample_content 0 11 = sample_content"
    "data_total sample_chunks = 11" "length sample_chunks = 2"
    by (simp_all add: slice_def data_total_def sample_chunks_def)
  then have "\<exists>a b. a \<le> b \<and> b \<le> length sample_chunks \<and> unat (tr_first_chunk sample_range) = a \<and>
      ewf1_range_written [sample_segment] sample_range (slice sample_chunks a b)
        (slice sample_content (data_total (take a sample_chunks)) (data_total (take b sample_chunks)))"
    using sample_range_written by (intro exI [of _ 0] exI [of _ 2]) (simp add: sample_range_def data_total_def)
  moreover have "logical_chunk_count 3 2 = Inr 2"
    by (simp add: logical_chunk_count_def checked_sub_def)
  ultimately show ?thesis
    using sample_index
    by (simp add: image_of_spool_def sample_image_def segment_context_def) (simp add: sample_range_def)
qed

lemma sample_media: "written_media sample_writer 3 = [7, 8, 9]"
  by (simp add: written_media_def sample_writer_eq zero_window_def zero_byte_def upt_conv_Cons)

lemma sample_written: "image_written sample_decoders sample_image [7, 8, 9]"
proof (rule image_of_spool_written [OF sample_is_of_spool])
  have "spool_holds sample_decoders (ew_chunk_size sample_writer) (cs_file (es_spool sample_spool))
      (es_chunks sample_spool) (written_media sample_writer (unat (3 :: u64)))"
    by (rule encode_raw_spool_holds(1) [OF sample_writer_inv sample_law _ _ _ _ sample_encoded])
      (simp_all add: sample_writer_eq sample_new_def sample_options_def is_ewf2_format_def remembered_unambiguous_def)
  then show "spool_holds sample_decoders (im_chunk_size sample_image) sample_content sample_chunks [7, 8, 9]"
    by (simp add: sample_media) (simp add: sample_writer_eq sample_new_def sample_image_def sample_spool_def)
qed (simp_all add: sample_image_def)

lemma sample_image_inv: "image_inv sample_env sample_image id id 8192 1 z (sample_state z)"
  by (simp add: image_inv_def reading_inv_def sample_state_def sample_env_def list_lru_lawful cache_inv_def
      page_cache_ok_def page_cache_new_def coherent_def)

lemma sample_holds: "image_holds (policy_chunk (en_decoders sample_env) sample_image d z) sample_image [7, 8, 9]"
  using image_written_holds(2) [OF sample_written] by (simp add: sample_env_def)

lemma sample_holds_strict: "image_holds (strict_chunk (en_decoders sample_env) sample_image d) sample_image [7, 8, 9]"
  using image_written_holds(1) [OF sample_written] by (simp add: sample_env_def)

end
