(* ===== verification/Sample_Segment.thy ===== *)
theory Sample_Segment
  imports Segment_Groups Sample_Image
begin

text \<open>
  The sample of \<open>Sample_Image\<close> written to a whole segment file, with a limit that the
  file just reaches: the concrete input of the properties about segment files.
\<close>

definition sample_texts :: segment_texts where
  "sample_texts = \<lparr>st_header = Inr None, st_header2 = Inr None, st_xheader = Inr None, st_xhash = Inr None, st_ltree = Inr None\<rparr>"
definition sample_texts2 :: ewf2_segment_texts where
  "sample_texts2 = \<lparr>et_device_information = Inr [], et_case_data = Inr [], et_analytical_data = Inr None,
     et_restart_data = Inr None, et_single_files = Inr None\<rparr>"
definition limited_options :: write_options where
  "limited_options = sample_options\<lparr>wo_maximum_segment_size := Some 1528\<rparr>"

lemma sample_groups: "segment_groups sample_chunks (Some 1528) limited_options sample_texts texts2 = Inr [(0, 2)]"
  by (simp add: segment_groups_def sample_chunks_def limited_options_def sample_options_def Let_def
      is_ewf2_format_def add_chunk_def table_group_state_default_def EWF1_TABLE_GROUP_MAX_PAYLOAD_def
      EWF1_TABLE_GROUP_MAX_ENTRIES_def checked_add_def usize_add_def estimated_segment_size_def
      estimated_ewf1_segment_size_def sample_texts_def optional_size_def checked_mul_def ewf1_session_payload_def
      session_payload_def ewf1_error2_payload_def volume_data_size_def estimated_ewf1_section_size_def
      checked_sum_def digest_payload_def stored_hashes_default_def)

definition no_payloads :: segment_payloads where
  "no_payloads = \<lparr>pl_header = None, pl_header2 = None, pl_xheader = None, pl_digest = None, pl_xhash = None,
     pl_error2 = None, pl_session = None, pl_ltree = None\<rparr>"

lemma no_payloads_simps [simp]:
  "pl_header no_payloads = None" "pl_header2 no_payloads = None" "pl_xheader no_payloads = None"
  "pl_digest no_payloads = None" "pl_xhash no_payloads = None" "pl_error2 no_payloads = None"
  "pl_session no_payloads = None" "pl_ltree no_payloads = None"
  by (simp_all add: no_payloads_def)

lemma sample_payloads: "ewf1_segment_payloads limited_options sample_texts secs = Inr no_payloads"
  by (simp add: ewf1_segment_payloads_def sample_texts_def limited_options_def sample_options_def Let_def
    digest_payload_def stored_hashes_default_def ewf1_error2_payload_def ewf1_session_payload_def session_payload_def no_payloads_def)

definition sample_layout :: table_group_layout where
  "sample_layout = \<lparr>gl_first_chunk = 0, gl_end_chunk = 2, gl_payload_size = 11, gl_sectors_desc_offset = 1141, gl_sectors_data_offset = 1217, gl_table_desc_offset = 1228, gl_table_data_size = 36, gl_table2_desc_offset = Some 1340,
     gl_end_offset = 1452\<rparr>"
lemma sample_plan: "plan_ewf1_segment sample_chunks Ewf1Physical 1052 no_payloads = Inr \<lparr>sp_header2 = 13, sp_xheader = 13, sp_volume = 13,
  sp_session = 1141, sp_sectors = 1141, sp_layouts = [sample_layout], sp_ltree = 1452, sp_error2 = 1452, sp_digest = 1452,
  sp_xhash = 1452, sp_done = 1452\<rparr>"
  by (simp add: plan_ewf1_segment_def no_payloads_def Let_def offset_after_def ewf1_table_group_layouts_def ewf1_table_groups_def
    sample_chunks_def add_chunk_def table_group_state_default_def EWF1_TABLE_GROUP_MAX_PAYLOAD_def EWF1_TABLE_GROUP_MAX_ENTRIES_def
     checked_add_def usize_add_def ewf1_group_layout_def table_footer_size_def checked_mul_def sample_layout_def)

lemma sample_volume: "\<exists>v. volume_data limited_options 2 3 = Inr v"
  by (simp add: volume_data_def volume_data_size_def limited_options_def sample_options_def Let_def ewf1_media_type_value_def)

lemma sample_table_bytes: "\<exists>table. append_ewf1_table_data [] 2 off sample_chunks True = Inr table \<and> length table = 36"
proof -
  have "\<exists>table. append_ewf1_table_data [] 2 off sample_chunks True = Inr table"
  by (simp add: append_ewf1_table_data_def Let_def try_bind_def sample_chunks_def narrow_def checked_add_def
      u32_high_clear_iff)
  then show ?thesis using append_table_bytes [of 2 off sample_chunks True] length_ewf1_table_bytes [of off sample_chunks True]
   by (auto simp: sample_chunks_def u32_of_usize_def)
qed
lemma sample_group_bytes: "\<exists>r s. write_ewf1_groups sample_chunks 4 1452 [sample_layout] (es_spool sample_spool) = Inr (r, s) \<and> length r = 311"
proof -
  have sp: "laid_out 0 sample_chunks" "0 + data_total sample_chunks \<le> length (cs_file (es_spool sample_spool))"
    "chunk_spool_ok (es_spool sample_spool)"
    by (simp_all add: sample_chunks_def sample_spool_def chunk_spool_ok_def data_total_def)
  obtain s' where c: "copy_chunks sample_chunks (es_spool sample_spool) = Inr (sample_content, s')"
    using copy_chunks_ok [OF sp] by (auto simp: sample_spool_def data_total_def slice_def) (simp add: sample_chunks_def)
  obtain table where t: "append_ewf1_table_data [] 2 1217 sample_chunks True = Inr table" "length table = 36"
    using sample_table_bytes by blast
  have "slice sample_chunks 0 2 = sample_chunks" "length sample_chunks = 2" by (simp_all add: sample_chunks_def slice_def)
  then show ?thesis
    by (simp add: sample_layout_def c t u32_of_usize_def length_section_desc)
qed

lemma sample_spool_laid_out:
  "chunk_spool_ok (es_spool sample_spool)" "es_chunks sample_spool = sample_chunks" "length sample_chunks = 2"
  "laid_out 0 sample_chunks" "data_total sample_chunks = 11" "length (cs_file (es_spool sample_spool)) = 11"
  by (simp_all add: sample_chunks_def sample_spool_def chunk_spool_ok_def data_total_def)

definition sample_context :: "ewf1_segment_sections \<Rightarrow> ewf1_segment_write_context" where
  "sample_context secs = \<lparr>wc_segment_number = 1, wc_chunk_count = 2, wc_sector_count = 3, wc_sections = secs,
     wc_terminal_section = TerminalDone\<rparr>"

lemma limited_options_simps:
  "wo_set_identifier limited_options = None" "wo_format limited_options = Ewf1Physical"
  by (simp_all add: limited_options_def sample_options_def)

lemma sample_written_segment:
  "\<exists>out spool'. write_ewf1_segment (es_spool sample_spool) sample_chunks limited_options sample_texts (sample_context secs)
      = Inr (out, spool') \<and> length out = 1528"
proof -
  obtain v where v: "volume_data limited_options 2 3 = Inr v" using sample_volume by blast
  have lv: "length v = 1052" using volume_data_checksum(1) [OF v] by (simp add: limited_options_def sample_options_def)
  obtain r s where g: "write_ewf1_groups sample_chunks 4 1452 [sample_layout] (es_spool sample_spool) = Inr (r, s)" "length r = 311"
    using sample_group_bytes by blast
  have fmt: "wo_format limited_options = Ewf1Physical" by (simp add: limited_options_def sample_options_def)
  have sig: "ewf1_signature Ewf1Physical = Inr EVF_SIGNATURE" "length EVF_SIGNATURE = 8"
    by (simp_all add: ewf1_signature_def EVF_SIGNATURE_def)
  show ?thesis
    by (simp add: sample_context_def write_ewf1_segment_def sample_payloads sample_plan u32_of_usize_def sample_spool_laid_out
       volume_data_size_def v g table_footer_size_def after_tables_def optional_section_def sig lv fmt
       ewf1_terminal_type_def length_section_desc del: write_ewf1_groups.simps)
qed

lemma sample_finished:
  "\<exists>out. finish_ewf1_segments sample_spool limited_options sample_texts texts2 TerminalDone 3 = Inr [out] \<and> length out = 1528"
proof -
  have limit: "wo_maximum_segment_size limited_options = Some 1528" by (simp add: limited_options_def)
  have "ewf1_segment_context 0 1 TerminalDone 2 3 = Inr (sample_context (sections_for_segment True True))"
    by (simp add: ewf1_segment_context_def sample_context_def)
  moreover have "slice sample_chunks 0 2 = sample_chunks" by (simp add: sample_chunks_def slice_def)
  moreover obtain out spool' where "write_ewf1_segment (es_spool sample_spool) sample_chunks limited_options sample_texts
      (sample_context (sections_for_segment True True)) = Inr (out, spool')" "length out = 1528"
    using sample_written_segment by blast
  ultimately show ?thesis
    by (simp add: finish_ewf1_segments_def sample_spool_laid_out sample_groups u32_of_usize_def limit)
qed

lemma sample_group_state:
  "group_state sample_chunks = Inr \<lparr>gs_group_count = 1, gs_current_entry_count = 2, gs_current_payload_size = 11\<rparr>"
  by (simp add: group_state_def sample_chunks_def add_chunk_def table_group_state_default_def
      EWF1_TABLE_GROUP_MAX_PAYLOAD_def EWF1_TABLE_GROUP_MAX_ENTRIES_def checked_add_def usize_add_def)

lemma sample_estimate: "estimated_ewf1_segment_size 2 11 1 limited_options sample_texts = Inr 1528"
  by (simp add: limited_options_def sample_options_def Let_def checked_add_def checked_mul_def optional_size_def
      estimated_ewf1_segment_size_def sample_texts_def ewf1_session_payload_def session_payload_def ewf1_error2_payload_def
      volume_data_size_def estimated_ewf1_section_size_def checked_sum_def digest_payload_def stored_hashes_default_def)

end
