(* ===== verification/Histories.thy ===== *)
theory Histories
  imports Written_Media
begin

text \<open>
  Clients of an open image and of a writer: sequences of calls on one handle. The lemmas
  lift what one call does to a whole history, so that the properties speak of any sequence
  of reads and of any sequence of writes.
\<close>

section \<open>Histories of reads\<close>

datatype read_call = ReadAt nat u64 | ReadAtStrict nat u64

definition run_read :: "('p, 'c) env \<Rightarrow> image \<Rightarrow> read_call \<Rightarrow> ('p, 'c, bytes) image_op" where
  "run_read E img call =
     (case call of
        ReadAt n off \<Rightarrow> read_at E img n off
      | ReadAtStrict n off \<Rightarrow> read_at_impl E img n off True)"

fun run_reads :: "('p, 'c) env \<Rightarrow> image \<Rightarrow> read_call list \<Rightarrow> ('p, 'c, bytes list) image_op" where
  "run_reads E img [] = lift (Inr [])"
| "run_reads E img (call # calls) =
     sbind (run_read E img call) (\<lambda>d. sbind (run_reads E img calls) (\<lambda>ds. lift (Inr (d # ds))))"

fun read_call_length :: "read_call \<Rightarrow> nat" where
  "read_call_length (ReadAt n off) = n"
| "read_call_length (ReadAtStrict n off) = n"

fun asked :: "bytes \<Rightarrow> read_call \<Rightarrow> bytes" where
  "asked m (ReadAt n off) = slice m (unat off) (unat off + n)"
| "asked m (ReadAtStrict n off) = slice m (unat off) (unat off + n)"

text \<open>What leaves the policy and the chunk cache alone keeps the image's invariant.\<close>

lemma computes_image_inv:
  assumes "\<And>cc. computes (reading_inv E img pages cap z cc []) f r"
  shows "computes (image_inv E img pages chunks cap n z) f r"
  unfolding computes_def
proof (intro allI impI)
  fix s assume s: "image_inv E img pages chunks cap n z s"
  then have r: "reading_inv E img pages cap z (is_chunk_cache s) [] s" by (simp add: image_inv_def)
  have "is_chunk_cache (snd (f s)) = is_chunk_cache s"
    using computes_inv [OF assms r] by (simp add: reading_inv_def)
  with s computes_fst [OF assms r] computes_inv [OF assms r]
  show "fst (f s) = r \<and> image_inv E img pages chunks cap n z (snd (f s))"
    by (simp add: image_inv_def)
qed

lemma run_read_computes:
  assumes "image_holds (policy_chunk (en_decoders E) img (cap = 0) z) img m"
    and "image_holds (strict_chunk (en_decoders E) img (cap = 0)) img m"
    and "read_call_length call < 2 ^ 64"
  shows "computes (image_inv E img pages chunks cap n z) (run_read E img call) (Inr (asked m call))"
proof (cases call)
  case (ReadAt k off)
  then show ?thesis
    using read_at_cached [of k E img pages chunks cap n z off] assms
      pure_read_at_media [of _ img m k off]
    by (simp add: run_read_def read_at_def image_holds_def)
next
  case (ReadAtStrict k off)
  have "computes (image_inv E img pages chunks cap n z) (read_at_impl E img k off True)
      (pure_read_at (strict_chunk (en_decoders E) img (cap = 0)) img k off)"
    using ReadAtStrict assms(3) by (intro computes_image_inv read_at_strict) simp
  then show ?thesis
    using ReadAtStrict assms(2) pure_read_at_media [of _ img m k off]
    by (simp add: run_read_def image_holds_def)
qed

lemma run_reads_computes:
  assumes "image_holds (policy_chunk (en_decoders E) img (cap = 0) z) img m"
    and "image_holds (strict_chunk (en_decoders E) img (cap = 0)) img m"
    and "\<forall>call \<in> set calls. read_call_length call < 2 ^ 64"
  shows "computes (image_inv E img pages chunks cap n z) (run_reads E img calls) (Inr (map (asked m) calls))"
  using assms(3)
proof (induction calls)
  case (Cons call calls)
  have step: "computes (image_inv E img pages chunks cap n z) (run_reads E img (call # calls))
      (try_bind (Inr (asked m call)) (\<lambda>d. try_bind (Inr (map (asked m) calls)) (\<lambda>ds. Inr (d # ds))))"
    unfolding run_reads.simps
    by (intro computes_sbind run_read_computes assms(1,2) Cons computes_lift) (use Cons.prems in simp_all)
  show ?case using step by simp
qed (simp add: computes_lift)

section \<open>Histories of writes\<close>

text \<open>
  \<open>EwfWriter::create\<close> once the options are validated: the geometry and an empty spool.
\<close>

definition writer_start :: "write_options \<Rightarrow> ewf_writer result" where
  "writer_start options =
     try_bind (writer_chunk_geometry (wo_sectors_per_chunk options) (wo_bytes_per_sector options))
       (\<lambda>(chunk_size, chunk_capacity).
     Inr \<lparr>ew_options = options, ew_chunk_size = chunk_size, ew_chunk_capacity = chunk_capacity,
       ew_raw = raw_spool_new, ew_encoded_chunks = (\<lambda>_. None), ew_current_offset = 0,
       ew_logical_input_size = 0, ew_aborted = False\<rparr>)"

lemma writer_start_ok:
  assumes "writer_start options = Inr w"
  shows "writer_inv D w" and "ew_options w = options" and "writer_byte w = (\<lambda>_. 0)"
    and "unat (ew_chunk_size w) = unat (wo_sectors_per_chunk options) * unat (wo_bytes_per_sector options)"
proof -
  have pos: "0 < unat x" if "x \<noteq> 0" for x :: u32 using that by (simp add: unat_gt_0)
  show "writer_inv D w" and "ew_options w = options" and "writer_byte w = (\<lambda>_. 0)"
    and "unat (ew_chunk_size w) = unat (wo_sectors_per_chunk options) * unat (wo_bytes_per_sector options)"
    using assms pos
    by (auto simp: writer_start_def try_bind_Inr_iff writer_chunk_geometry_def checked_simps writer_inv_def
        raw_spool_new_def raw_spool_ok_def zero_byte_def unat_ucast_up split: if_splits)
qed

fun run_calls :: "decoders \<Rightarrow> writer_call list \<Rightarrow> ewf_writer \<Rightarrow> ewf_writer" where
  "run_calls D [] w = w"
| "run_calls D (call # calls) w = run_calls D calls (snd (run_call D call w))"

text \<open>The media after a history: the data of every call that succeeded, in order.\<close>

fun media_after :: "decoders \<Rightarrow> writer_call list \<Rightarrow> ewf_writer \<Rightarrow> (nat \<Rightarrow> u8) \<Rightarrow> nat \<Rightarrow> u8" where
  "media_after D [] w media = media"
| "media_after D (call # calls) w media =
     media_after D calls (snd (run_call D call w))
       (if is_ok (fst (run_call D call w)) then overlay media (call_start w call) (call_data D call)
        else media)"

lemma run_calls_ok:
  assumes "writer_inv D w" "\<forall>call \<in> set calls. call_fits call" "unat (ew_chunk_size w) + 4 < 2 ^ 64"
  shows "writer_inv D (run_calls D calls w) \<and>
    writer_byte (run_calls D calls w) = media_after D calls w (writer_byte w) \<and>
    ew_options (run_calls D calls w) = ew_options w \<and>
    ew_chunk_size (run_calls D calls w) = ew_chunk_size w"
  using assms
proof (induction calls arbitrary: w)
  case (Cons call calls)
  from Cons.prems have "step_ok D w (call_start w call) (call_data D call) (run_call D call w)"
    by (intro run_call_step) simp_all
  then have step: "writer_inv D (snd (run_call D call w))"
    "ew_options (snd (run_call D call w)) = ew_options w"
    "ew_chunk_size (snd (run_call D call w)) = ew_chunk_size w"
    "writer_byte (snd (run_call D call w)) = (if is_ok (fst (run_call D call w))
       then overlay (writer_byte w) (call_start w call) (call_data D call) else writer_byte w)"
    by (simp_all add: step_ok_def)
  show ?case using Cons.IH [OF step(1)] Cons.prems(2,3) step by simp
qed simp

lemma written_media_bytes: "k < n \<Longrightarrow> written_media w n ! k = writer_byte w k"
  by (simp add: written_media_def)

end
