(* ===== verification/Segment_Source.thy ===== *)
theory Segment_Source
  imports State_Result Rust_Text
begin

text \<open>
  Bounded views of segment backings (\<open>src/source.rs\<close>). A backing is the caller's
  implementation of the trait \<open>SegmentReadAt\<close>: it may return short reads and be
  interrupted. The interface \<open>lawful_backing\<close> states the trait's contract; under it
  a view is lawful again and the read loop ends with exactly the requested bytes.
\<close>

section \<open>Views\<close>

text \<open>One positioned read: offset and buffer length to the bytes written to the buffer.\<close>

type_synonym 's backing = "u64 \<Rightarrow> nat \<Rightarrow> ('s, bytes) comp"

record 's segment_source =
  src_backing :: "'s backing"
  src_base :: u64
  src_length :: u64

definition source_from_backing :: "'s backing \<Rightarrow> u64 \<Rightarrow> 's segment_source" where
  "source_from_backing bk backing_len =
     \<lparr>src_backing = bk, src_base = 0, src_length = backing_len\<rparr>"

definition memory_backing :: "bytes \<Rightarrow> 's backing" where
  "memory_backing content offset n =
     (let start = min (unat offset) (length content);
        count = min n (length content - start)
      in lift (Inr (slice content start (start + count))))"

definition source_subrange :: "'s segment_source \<Rightarrow> u64 \<Rightarrow> u64 \<Rightarrow> 's segment_source result" where
  "source_subrange src offset len =
     (case checked_add offset len of
        None \<Rightarrow> Inl (Io InvalidInput ''segment subrange exceeds backing'')
      | Some e \<Rightarrow>
          if src_length src < e
          then Inl (Io InvalidInput ''segment subrange exceeds backing'')
          else Inr \<lparr>src_backing = src_backing src, src_base = src_base src + offset, src_length = len\<rparr>)"

definition source_read_at :: "'s segment_source \<Rightarrow> u64 \<Rightarrow> nat \<Rightarrow> ('s, bytes) comp" where
  "source_read_at src offset n =
     (let count = min (unat (saturating_sub (src_length src) offset)) n in
      if count = 0 then lift (Inr [])
      else sbind (src_backing src (src_base src + offset) count) (\<lambda>bs.
        if count < length bs
        then lift (Inl (Io InvalidData ''segment backing over-reported read length''))
        else lift (Inr bs)))"

fun is_interrupted :: "ewf_error \<Rightarrow> bool" where
  "is_interrupted (Io kind msg) = (kind = Interrupted)"
| "is_interrupted _ = False"

text \<open>
  The loop of \<open>read_exact_at\<close>: it retries after an interruption, so it ends only if
  the backing stops being interrupted. Not ending is the value \<open>None\<close>.
\<close>

partial_function (option) source_read_loop ::
    "'s segment_source \<Rightarrow> u64 \<Rightarrow> nat \<Rightarrow> bytes \<Rightarrow> 's \<Rightarrow> (bytes result \<times> 's) option" where
  "source_read_loop src offset remaining acc s =
     (if remaining = 0 then Some (Inr acc, s)
      else case source_read_at src offset remaining s of
        (r, s') \<Rightarrow> (case r of
          Inr bs \<Rightarrow>
            if bs = []
            then Some (Inl (Io UnexpectedEof ''segment backing ended before requested range''), s')
            else source_read_loop src (offset + word_of_nat (length bs)) (remaining - length bs)
                   (acc @ bs) s'
        | Inl e \<Rightarrow>
            if is_interrupted e then source_read_loop src offset remaining acc s'
            else Some (Inl e, s')))"

definition source_read_exact_at ::
    "'s segment_source \<Rightarrow> u64 \<Rightarrow> nat \<Rightarrow> 's \<Rightarrow> (bytes result \<times> 's) option" where
  "source_read_exact_at src offset n s = source_read_loop src offset n [] s"

section \<open>The contract of a backing\<close>

text \<open>
  A read returns a prefix of what the backing holds at the offset, not longer than the
  buffer, and not empty while bytes remain and the buffer is not empty. It may be
  interrupted; \<open>patience s\<close> bounds how often in a row.
\<close>

locale lawful_backing =
  fixes bk :: "'s backing"
    and inv :: "'s \<Rightarrow> bool"
    and content :: bytes
    and patience :: "'s \<Rightarrow> nat"
  assumes read_law: "inv s \<Longrightarrow> bk offset n s = (r, s') \<Longrightarrow> inv s' \<and>
      (case r of
         Inr bs \<Rightarrow> length bs \<le> n \<and> bs = slice content (unat offset) (unat offset + length bs) \<and>
           (bs = [] \<longrightarrow> n = 0 \<or> length content \<le> unat offset)
       | Inl e \<Rightarrow> is_interrupted e \<and> patience s' < patience s)"
begin

text \<open>The view on \<open>[base, base + len)\<close> of a lawful backing.\<close>

definition view :: "u64 \<Rightarrow> u64 \<Rightarrow> 's segment_source" where
  "view base len = \<lparr>src_backing = bk, src_base = base, src_length = len\<rparr>"

lemma view_read_law:
  assumes inside: "unat base + unat len \<le> length content"
    and content_length: "length content < 2 ^ 64"
    and s: "inv s" and read: "source_read_at (view base len) offset n s = (r, s')"
  shows "inv s' \<and> (case r of
      Inr bs \<Rightarrow> length bs \<le> n \<and>
        bs = slice content (unat base + unat offset) (unat base + unat offset + length bs) \<and>
        unat offset + length bs \<le> max (unat len) (unat offset) \<and>
        (bs = [] \<longrightarrow> n = 0 \<or> unat len \<le> unat offset)
    | Inl e \<Rightarrow> is_interrupted e \<and> patience s' < patience s)"
proof -
  let ?count = "min (unat (saturating_sub len offset)) n"
  have count: "?count = min (unat len - unat offset) n" by (simp add: unat_saturating_sub)
  show ?thesis
  proof (cases "?count = 0")
    case True
    with s read show ?thesis
      by (auto simp: source_read_at_def view_def Let_def unat_saturating_sub)
  next
    case False
    then have off: "unat offset < unat len" "0 < n" by (auto simp: count)
    have at: "unat (base + offset) = unat base + unat offset"
      using off inside content_length by (intro unat_add_less) simp
    obtain q t where q: "bk (base + offset) ?count s = (q, t)" by (cases "bk (base + offset) ?count s")
    have run: "source_read_at (view base len) offset n = sbind (bk (base + offset) ?count) (\<lambda>bs.
        if ?count < length bs
        then lift (Inl (Io InvalidData ''segment backing over-reported read length''))
        else lift (Inr bs))"
      unfolding source_read_at_def view_def Let_def segment_source.simps if_not_P [OF False] ..
    note law = read_law [OF s q, unfolded at]
    show ?thesis
    proof (cases q)
      case (Inl e)
      with q read law show ?thesis by (auto simp: run sbind_def)
    next
      case (Inr bs)
      with law have bs: "length bs \<le> ?count" "inv t"
        "bs = slice content (unat base + unat offset) (unat base + unat offset + length bs)"
        "bs = [] \<longrightarrow> length content \<le> unat base + unat offset"
        using False by auto
      with Inr q read have "r = Inr bs" "s' = t" by (auto simp: run sbind_def)
      moreover have "unat offset + length bs \<le> unat len" using bs(1) off unfolding count by linarith
      moreover have "bs \<noteq> []" using bs(4) inside off by auto
      ultimately show ?thesis using bs(1-3) by (simp add: count)
    qed
  qed
qed

text \<open>Inside the view the loop ends and yields the requested bytes.\<close>

lemma view_read_loop:
  assumes inside: "unat base + unat len \<le> length content"
    and content_length: "length content < 2 ^ 64"
    and s: "inv s" and rng: "unat offset + n \<le> unat len"
  shows "\<exists>s'. inv s' \<and> source_read_loop (view base len) offset n acc s
    = Some (Inr (acc @ slice content (unat base + unat offset) (unat base + unat offset + n)), s')"
  using s rng
proof (induction "(n, patience s)" arbitrary: n s offset acc rule: wf_induct_rule [OF wf_lex_prod [OF wf_less_than wf_less_than]])
  case (1 n s offset acc)
  note s = 1(2) and rng = 1(3)
  show ?case
  proof (cases "n = 0")
    case True
    with s show ?thesis by (auto simp: source_read_loop.simps)
  next
    case n: False
    obtain r t where r: "source_read_at (view base len) offset n s = (r, t)"
      by (cases "source_read_at (view base len) offset n s")
    note law = view_read_law [OF inside content_length s r]
    show ?thesis
    proof (cases r)
      case (Inl e)
      with law have e: "((n, patience t), (n, patience s)) \<in> less_than <*lex*> less_than"
        "inv t" "is_interrupted e" by auto
      have "source_read_loop (view base len) offset n acc s
          = source_read_loop (view base len) offset n acc t"
        using n r Inl e by (subst source_read_loop.simps) simp
      with 1(1) [OF e(1) e(2) rng] show ?thesis by simp
    next
      case (Inr bs)
      with law rng n have bs: "bs \<noteq> []" "length bs \<le> n" "inv t"
        "bs = slice content (unat base + unat offset) (unat base + unat offset + length bs)" by auto
      have small: "length bs < 18446744073709551616"
        using bs(2) rng unat_64_less [of len] by linarith
      have off: "unat (offset + word_of_nat (length bs)) = unat offset + length bs"
        using small bs(2) rng unat_64_less [of len]
        by (subst unat_add_less) (simp_all add: unsigned_of_nat take_bit_nat_eq_self)
      have lt: "((n - length bs, patience t), (n, patience s)) \<in> less_than <*lex*> less_than"
        using bs(1,2) n by (simp add: diff_less)
      have step: "source_read_loop (view base len) offset n acc s
          = source_read_loop (view base len) (offset + word_of_nat (length bs)) (n - length bs) (acc @ bs) t"
        using n r Inr bs(1) by (subst source_read_loop.simps) simp
      have "slice content (unat base + unat offset) (unat base + unat offset + length bs) @
          slice content (unat base + unat offset + length bs) (unat base + unat offset + n)
          = slice content (unat base + unat offset) (unat base + unat offset + n)"
        using bs(2) by (intro slice_join) simp_all
      then have join: "bs @ slice content (unat base + (unat offset + length bs)) (unat base + (unat offset + n))
          = slice content (unat base + unat offset) (unat base + (unat offset + n))"
        using bs(4) by (simp add: add.assoc)
      show ?thesis
        using 1(1) [OF lt bs(3), of "offset + word_of_nat (length bs)" "acc @ bs"] bs(2) rng
        by (simp add: step off join add.assoc)
    qed
  qed
qed

end

text \<open>Bytes in memory are a lawful backing.\<close>

lemma memory_backing_read:
  assumes "memory_backing content offset n s = (r, s')"
  shows "s' = s \<and> r = Inr (slice content (unat offset) (min (length content) (unat offset + n)))"
  using assms
  by (auto simp: memory_backing_def Let_def slice_def min_def)

interpretation memory: lawful_backing "memory_backing content" "\<lambda>_. True" content "\<lambda>_. 0"
  for content
proof (unfold_locales, goal_cases)
  case (1 s offset n r s')
  let ?e = "min (length content) (unat offset + n)"
  have "slice content (unat offset) (unat offset + length (slice content (unat offset) ?e))
      = slice content (unat offset) ?e"
  proof (cases "unat offset \<le> length content")
    case True
    then have "unat offset + length (slice content (unat offset) ?e) = ?e" by simp
    then show ?thesis by simp
  qed simp
  then show ?case using memory_backing_read [OF 1(2)] by (auto simp: slice_def)
qed

text \<open>A subrange of a view is the view of the narrower bounds.\<close>

lemma source_subrange_Inr:
  "source_subrange src offset len = Inr sub \<longleftrightarrow>
     unat offset + unat len \<le> unat (src_length src) \<and>
     sub = \<lparr>src_backing = src_backing src, src_base = src_base src + offset, src_length = len\<rparr>"
proof (cases "checked_add offset len")
  case None
  then have "\<not> unat offset + unat len \<le> unat (src_length src)"
    using unat_64_less [of "src_length src"] by (simp add: checked_add_None)
  with None show ?thesis by (simp add: source_subrange_def)
next
  case (Some e)
  then have "unat e = unat offset + unat len" by (simp add: checked_add_Some)
  then show ?thesis unfolding source_subrange_def Some by (auto simp: word_nat_order)
qed

text \<open>
  A file read by position may return fewer bytes than asked for, or be interrupted. The
  schedule says what happens at each call: the head bounds the read, \<open>0\<close> interrupts it;
  when the schedule is used up, reads are only cut off at the end of the file.
\<close>

definition file_backing :: "bytes \<Rightarrow> nat list backing" where
  "file_backing content offset n schedule =
     (case schedule of
        [] \<Rightarrow> memory_backing content offset n []
      | k # ks \<Rightarrow>
          if k = 0 then (Inl (Io Interrupted ''interrupted''), ks)
          else (fst (memory_backing content offset (min n k) ks), ks))"

lemma memory_backing_eq:
  "memory_backing content offset n s
    = (Inr (slice content (unat offset) (min (length content) (unat offset + n))), s)"
  using memory_backing_read [of content offset n s] by (cases "memory_backing content offset n s") simp

lemma slice_to_end:
  "slice content a (a + length (slice content a (min (length content) (a + n))))
    = slice content a (min (length content) (a + n))"
proof (cases "a \<le> length content")
  case True
  then have "a + length (slice content a (min (length content) (a + n))) = min (length content) (a + n)" by simp
  then show ?thesis by (simp only:)
qed (simp add: slice_def)

lemma available_bytes:
  "length (slice content a (min (length content) (a + n))) \<le> n"
  "slice content a (min (length content) (a + n)) = [] \<longleftrightarrow> n = 0 \<or> length content \<le> a"
  by (auto simp: slice_def)

interpretation files: lawful_backing "file_backing content" "\<lambda>_. True" content length
  for content
proof (unfold_locales, goal_cases)
  case (1 schedule offset n r s')
  have step: "\<And>k. slice content (unat offset) (unat offset +
      length (slice content (unat offset) (min (length content) (unat offset + k))))
      = slice content (unat offset) (min (length content) (unat offset + k))"
    by (rule slice_to_end)
  show ?case
  proof (cases schedule)
    case Nil
    then have "r = Inr (slice content (unat offset) (min (length content) (unat offset + n)))"
      using 1(2) by (simp add: file_backing_def memory_backing_eq)
    then show ?thesis using available_bytes [of content "unat offset" n] step [of n] by simp
  next
    case (Cons k ks)
    show ?thesis
    proof (cases "k = 0")
      case True
      with 1(2) Cons show ?thesis by (auto simp: file_backing_def)
    next
      case False
      then have "r = Inr (slice content (unat offset) (min (length content) (unat offset + min n k)))"
        using 1(2) Cons by (simp add: file_backing_def memory_backing_eq)
      then show ?thesis using False available_bytes [of content "unat offset" "min n k"] step [of "min n k"] by (auto simp: min_def split: if_splits)
    qed
  qed
qed

end
