(* ===== verification/Rust_Lines.thy ===== *)
theory Rust_Lines
  imports Rust_Text
begin

text \<open>
  The rest of Rust's string library that the metadata code uses, on strings held as their
  UTF-8 bytes: splitting and joining, lines, replacing, searching, Unicode white space,
  and the conversion between strings and UTF-16. The lemmas say when splitting undoes
  joining and that UTF-16 decoding undoes encoding.
\<close>

section \<open>Splitting, joining and searching\<close>

text \<open>\<open>str::split\<close> with a character.\<close>

fun split_on :: "char \<Rightarrow> string \<Rightarrow> string list" where
  "split_on c [] = [[]]"
| "split_on c (x # s) =
     (if x = c then [] # split_on c s
      else case split_on c s of [] \<Rightarrow> [[x]] | p # ps \<Rightarrow> (x # p) # ps)"

text \<open>\<open>[String]::join\<close>.\<close>

fun join :: "string \<Rightarrow> string list \<Rightarrow> string" where
  "join sep [] = []"
| "join sep [s] = s"
| "join sep (s # t # ps) = s @ sep @ join sep (t # ps)"

text \<open>\<open>str::lines\<close>: pieces that end with a newline lose it, and a carriage return before it.\<close>

definition newline :: char where "newline = char_of (10 :: nat)"
definition carriage_return :: char where "carriage_return = char_of (13 :: nat)"
definition tab :: char where "tab = char_of (9 :: nat)"

fun split_inclusive :: "char \<Rightarrow> string \<Rightarrow> string list" where
  "split_inclusive c [] = []"
| "split_inclusive c (x # s) =
     (if x = c then [x] # split_inclusive c s
      else case split_inclusive c s of [] \<Rightarrow> [[x]] | p # ps \<Rightarrow> (x # p) # ps)"

definition strip_suffix_char :: "char \<Rightarrow> string \<Rightarrow> string option" where
  "strip_suffix_char c s = (if s \<noteq> [] \<and> last s = c then Some (butlast s) else None)"

definition strip_line :: "string \<Rightarrow> string" where
  "strip_line line =
     (case strip_suffix_char newline line of
        None \<Rightarrow> line
      | Some line \<Rightarrow> (case strip_suffix_char carriage_return line of None \<Rightarrow> line | Some line \<Rightarrow> line))"

definition lines :: "string \<Rightarrow> string list" where
  "lines s = map strip_line (split_inclusive newline s)"

text \<open>\<open>replace("\r\n", "\n")\<close> and \<open>replace('\r', "\n")\<close>.\<close>

fun replace_crlf :: "string \<Rightarrow> string" where
  "replace_crlf (a # b # s) =
     (if a = carriage_return \<and> b = newline then newline # replace_crlf s else a # replace_crlf (b # s))"
| "replace_crlf s = s"

definition replace_char :: "char \<Rightarrow> char \<Rightarrow> string \<Rightarrow> string" where
  "replace_char c d s = map (\<lambda>x. if x = c then d else x) s"

text \<open>\<open>str::find\<close>: the byte position of the first match.\<close>

fun find_str :: "string \<Rightarrow> string \<Rightarrow> nat option" where
  "find_str [] p = (if p = [] then Some 0 else None)"
| "find_str (c # s) p =
     (if starts_with (c # s) p then Some 0 else map_option Suc (find_str s p))"

definition strip_prefix :: "'a list \<Rightarrow> 'a list \<Rightarrow> 'a list option" where
  "strip_prefix p s = (if starts_with s p then Some (drop (length p) s) else None)"

text \<open>\<open>str::split_once\<close> with a character.\<close>

definition split_once :: "char \<Rightarrow> string \<Rightarrow> (string \<times> string) option" where
  "split_once c s =
     (case find_str s [c] of None \<Rightarrow> None | Some i \<Rightarrow> Some (take i s, drop (i + 1) s))"

section \<open>White space\<close>

text \<open>
  \<open>char::is_whitespace\<close> on the UTF-8 bytes at the head of a string: how many bytes the
  white space character there has, or zero.
\<close>

definition is_ws3 :: "nat \<Rightarrow> nat \<Rightarrow> nat \<Rightarrow> bool" where
  "is_ws3 a b c \<longleftrightarrow>
     a = 0xE1 \<and> b = 0x9A \<and> c = 0x80 \<or>
     a = 0xE2 \<and> b = 0x80 \<and> (0x80 \<le> c \<and> c \<le> 0x8A \<or> c = 0xA8 \<or> c = 0xA9 \<or> c = 0xAF) \<or>
     a = 0xE2 \<and> b = 0x81 \<and> c = 0x9F \<or>
     a = 0xE3 \<and> b = 0x80 \<and> c = 0x80"

definition is_ws2 :: "nat \<Rightarrow> nat \<Rightarrow> bool" where
  "is_ws2 a b \<longleftrightarrow> a = 0xC2 \<and> (b = 0x85 \<or> b = 0xA0)"

definition is_ws1 :: "nat \<Rightarrow> bool" where
  "is_ws1 a \<longleftrightarrow> 9 \<le> a \<and> a \<le> 13 \<or> a = 32"

fun ws_codes :: "nat list \<Rightarrow> nat" where
  "ws_codes (a # b # c # s) = (if is_ws1 a then 1 else if is_ws2 a b then 2 else if is_ws3 a b c then 3 else 0)"
| "ws_codes [a, b] = (if is_ws1 a then 1 else if is_ws2 a b then 2 else 0)"
| "ws_codes [a] = (if is_ws1 a then 1 else 0)"
| "ws_codes [] = 0"

definition ws_length :: "string \<Rightarrow> nat" where
  "ws_length s = ws_codes (map code (take 3 s))"

text \<open>The same at the end of a string.\<close>

fun ws_codes_end :: "nat list \<Rightarrow> nat" where
  "ws_codes_end (c # b # a # s) = (if is_ws1 c then 1 else if is_ws2 b c then 2 else if is_ws3 a b c then 3 else 0)"
| "ws_codes_end [b, a] = (if is_ws1 b then 1 else if is_ws2 a b then 2 else 0)"
| "ws_codes_end [a] = (if is_ws1 a then 1 else 0)"
| "ws_codes_end [] = 0"

definition ws_length_end :: "string \<Rightarrow> nat" where
  "ws_length_end s = ws_codes_end (map code (take 3 (rev s)))"

lemma ws_length_empty [simp]: "ws_length [] = 0" "ws_length_end [] = 0"
  by (simp_all add: ws_length_def ws_length_end_def)

lemma ws_nonempty: "0 < ws_length s \<Longrightarrow> 0 < length s" "0 < ws_length_end s \<Longrightarrow> 0 < length s"
  by (cases s; simp)+

function trim_start :: "string \<Rightarrow> string" where
  "trim_start s = (if ws_length s = 0 then s else trim_start (drop (ws_length s) s))"
  by pat_completeness auto
termination by (relation "measure length") (auto intro!: diff_less simp: ws_nonempty)

function trim_end :: "string \<Rightarrow> string" where
  "trim_end s = (if ws_length_end s = 0 then s else trim_end (take (length s - ws_length_end s) s))"
  by pat_completeness auto
termination by (relation "measure length") (auto intro!: diff_less simp: ws_nonempty)

declare trim_start.simps [simp del] trim_end.simps [simp del]

text \<open>\<open>str::trim\<close>.\<close>

definition trim :: "string \<Rightarrow> string" where
  "trim s = trim_end (trim_start s)"

text \<open>\<open>str::split_whitespace\<close>, with the bytes of the current word.\<close>

function split_words :: "string \<Rightarrow> string \<Rightarrow> string list" where
  "split_words word s =
     (let flush = (if word = [] then [] else [rev word]) in
      if s = [] then flush
      else if ws_length s = 0 then split_words (hd s # word) (tl s)
      else flush @ split_words [] (drop (ws_length s) s))"
  by pat_completeness auto
termination by (relation "measure (length \<circ> snd)") (auto simp: neq_Nil_conv simp flip: length_greater_0_conv)

declare split_words.simps [simp del]

definition split_whitespace :: "string \<Rightarrow> string list" where
  "split_whitespace s = split_words [] s"

section \<open>UTF-16\<close>

text \<open>A Unicode scalar value as UTF-8, and the scalar values of a well-formed string.\<close>

definition scalar :: "nat \<Rightarrow> bool" where
  "scalar c \<longleftrightarrow> c < 0xD800 \<or> 0xE000 \<le> c \<and> c < 0x110000"

definition utf8_encode :: "nat \<Rightarrow> nat list" where
  "utf8_encode c =
     (if c < 0x80 then [c]
      else if c < 0x800 then [0xC0 + c div 64, 0x80 + c mod 64]
      else if c < 0x10000 then [0xE0 + c div 4096, 0x80 + c div 64 mod 64, 0x80 + c mod 64]
      else [0xF0 + c div 262144, 0x80 + c div 4096 mod 64, 0x80 + c div 64 mod 64, 0x80 + c mod 64])"

definition string_of_chars :: "nat list \<Rightarrow> string" where
  "string_of_chars cs = concat (map (\<lambda>c. map char_of (utf8_encode c)) cs)"

fun decode_chars :: "nat list \<Rightarrow> nat list" where
  "decode_chars [] = []"
| "decode_chars (a # s) =
     (if a < 0x80 then a # decode_chars s
      else case s of
        [] \<Rightarrow> []
      | b # s \<Rightarrow>
          if a < 0xE0 then ((a - 0xC0) * 64 + (b - 0x80)) # decode_chars s
          else (case s of
            [] \<Rightarrow> []
          | c # s \<Rightarrow>
              if a < 0xF0 then ((a - 0xE0) * 4096 + (b - 0x80) * 64 + (c - 0x80)) # decode_chars s
              else (case s of
                [] \<Rightarrow> []
              | d # s \<Rightarrow>
                  ((a - 0xF0) * 262144 + (b - 0x80) * 4096 + (c - 0x80) * 64 + (d - 0x80)) # decode_chars s)))"

text \<open>\<open>str::chars\<close>, and what every \<open>String\<close> is: the UTF-8 form of scalar values.\<close>

definition chars_of :: "string \<Rightarrow> nat list" where
  "chars_of s = decode_chars (map code s)"

definition utf8_string :: "string \<Rightarrow> bool" where
  "utf8_string s \<longleftrightarrow> list_all scalar (chars_of s) \<and> string_of_chars (chars_of s) = s"

text \<open>\<open>str::encode_utf16\<close> and \<open>String::from_utf16(..).ok()\<close>.\<close>

definition utf16_units :: "nat \<Rightarrow> nat list" where
  "utf16_units c =
     (if c < 0x10000 then [c] else [0xD800 + (c - 0x10000) div 1024, 0xDC00 + (c - 0x10000) mod 1024])"

definition encode_utf16 :: "string \<Rightarrow> u16 list" where
  "encode_utf16 s = concat (map (\<lambda>c. map word_of_nat (utf16_units c)) (chars_of s))"

fun decode_utf16 :: "nat list \<Rightarrow> nat list option" where
  "decode_utf16 [] = Some []"
| "decode_utf16 (u # us) =
     (if u < 0xD800 \<or> 0xE000 \<le> u then map_option (\<lambda>cs. u # cs) (decode_utf16 us)
      else if 0xDC00 \<le> u then None
      else case us of
        [] \<Rightarrow> None
      | v # us \<Rightarrow>
          if 0xDC00 \<le> v \<and> v < 0xE000
          then map_option (\<lambda>cs. (0x10000 + (u - 0xD800) * 1024 + (v - 0xDC00)) # cs) (decode_utf16 us)
          else None)"

definition from_utf16 :: "u16 list \<Rightarrow> string option" where
  "from_utf16 us = map_option string_of_chars (decode_utf16 (map unat us))"

text \<open>The bytes of UTF-16 code units, least significant first, and back.\<close>

definition utf16le_bytes :: "u16 list \<Rightarrow> bytes" where
  "utf16le_bytes us = concat (map le16 us)"

fun utf16le_units :: "bytes \<Rightarrow> u16 list" where
  "utf16le_units (a # b # s) = from_le [a, b] # utf16le_units s"
| "utf16le_units _ = []"

section \<open>Splitting undoes joining\<close>

lemma split_on_nonempty [simp]: "split_on c s \<noteq> []"
  by (induction s) (auto split: list.splits)

lemma split_on_piece: "c \<notin> set p \<Longrightarrow> split_on c (p @ c # s) = p # split_on c s"
  by (induction p) auto

lemma split_on_whole: "c \<notin> set p \<Longrightarrow> split_on c p = [p]"
  by (induction p) auto

lemma split_on_join:
  "ps \<noteq> [] \<Longrightarrow> \<forall>p \<in> set ps. c \<notin> set p \<Longrightarrow> split_on c (join [c] ps) = ps"
  by (induction "[c]" ps rule: join.induct) (simp_all add: split_on_piece split_on_whole)

lemma set_join: "set (join sep ps) \<subseteq> \<Union> (set ` set ps) \<union> set sep"
  by (induction sep ps rule: join.induct) auto

lemma replace_crlf_plain: "carriage_return \<notin> set s \<Longrightarrow> replace_crlf s = s"
  by (induction s rule: replace_crlf.induct) auto

lemma separators_differ [simp]:
  "newline \<noteq> carriage_return" "carriage_return \<noteq> newline" "tab \<noteq> newline" "newline \<noteq> tab"
  "tab \<noteq> carriage_return" "carriage_return \<noteq> tab"
  by (simp_all add: newline_def carriage_return_def tab_def)

lemma split_inclusive_line:
  "newline \<notin> set line \<Longrightarrow> split_inclusive newline (line @ newline # s) = (line @ [newline]) # split_inclusive newline s"
  by (induction line) auto

lemma lines_line:
  assumes "newline \<notin> set line" "carriage_return \<notin> set line"
  shows "lines (line @ newline # s) = line # lines s"
proof -
  have "line \<noteq> [] \<longrightarrow> last line \<noteq> carriage_return" using assms(2) by (metis last_in_set)
  then show ?thesis using assms by (auto simp: lines_def split_inclusive_line strip_line_def strip_suffix_char_def)
qed

lemma lines_Nil [simp]: "lines [] = []"
  by (simp add: lines_def)

lemma starts_with_clear: "p \<noteq> [] \<Longrightarrow> hd p \<noteq> c \<Longrightarrow> \<not> starts_with (c # s) p"
  by (cases p) auto

lemma find_str_clear:
  "p \<noteq> [] \<Longrightarrow> hd p \<notin> set a \<Longrightarrow> find_str (a @ p @ b) p = Some (length a)"
proof (induction a)
  case Nil
  then show ?case by (cases p) (simp_all add: starts_with_append [of "_ # _", simplified])
next
  case (Cons c a)
  then have "\<not> starts_with (c # a @ p @ b) p" by (intro starts_with_clear) auto
  with Cons show ?case by simp
qed

lemma find_str_char: "c \<notin> set a \<Longrightarrow> find_str (a @ c # b) [c] = Some (length a)"
  using find_str_clear [of "[c]" a b] by simp

lemma find_str_no_char: "c \<notin> set a \<Longrightarrow> find_str a [c] = None"
  by (induction a) auto

lemma split_once_char: "c \<notin> set a \<Longrightarrow> split_once c (a @ c # b) = Some (a, b)"
  by (simp add: split_once_def find_str_char)

lemma trim_clean: "ws_length s = 0 \<Longrightarrow> ws_length_end s = 0 \<Longrightarrow> trim s = s"
  by (simp add: trim_def trim_start.simps [of s] trim_end.simps [of s])

text \<open>Words of visible ASCII characters, separated by single spaces.\<close>

definition visible :: "char \<Rightarrow> bool" where
  "visible c \<longleftrightarrow> 33 \<le> code c \<and> code c < 127"

lemma ws_length_visible: "visible c \<Longrightarrow> ws_length (c # s) = 0"
  by (cases s; cases "tl s") (auto simp: ws_length_def visible_def is_ws1_def is_ws2_def is_ws3_def numeral_3_eq_3)

lemma ws_length_space: "ws_length (CHR '' '' # s) = 1"
  by (cases s; cases "tl s") (auto simp: ws_length_def is_ws1_def code_def numeral_3_eq_3)

lemma split_words_visible: "list_all visible w \<Longrightarrow> split_words acc (w @ s) = split_words (rev w @ acc) s"
proof (induction w arbitrary: acc)
  case (Cons c w)
  then show ?case by (subst split_words.simps) (simp add: ws_length_visible)
qed simp

lemma split_words_space:
  "split_words acc (CHR '' '' # s) = (if acc = [] then [] else [rev acc]) @ split_words [] s"
  by (subst split_words.simps) (simp add: ws_length_space)

lemma split_words_Nil: "split_words acc [] = (if acc = [] then [] else [rev acc])"
  by (subst split_words.simps) simp

lemma split_whitespace_word:
  "list_all visible w \<Longrightarrow> w \<noteq> [] \<Longrightarrow> split_whitespace (w @ CHR '' '' # s) = w # split_whitespace s"
  by (simp add: split_whitespace_def split_words_visible split_words_space)

lemma split_whitespace_last: "list_all visible w \<Longrightarrow> w \<noteq> [] \<Longrightarrow> split_whitespace w = [w]"
  using split_words_visible [of w "[]" "[]"] by (simp add: split_whitespace_def split_words_Nil)

lemma split_whitespace_space: "split_whitespace (CHR '' '' # s) = split_whitespace s"
  by (simp add: split_whitespace_def split_words_space)

section \<open>UTF-16 decoding undoes encoding\<close>

lemma code_char_of [simp]: "n < 256 \<Longrightarrow> code (char_of n) = n"
  by (simp add: code_def)

lemma split_64: "(c :: nat) div 4096 * 4096 + c div 64 mod 64 * 64 + c mod 64 = c"
proof -
  have "c div 64 = c div 64 div 64 * 64 + c div 64 mod 64" "c = c div 64 * 64 + c mod 64" by simp_all
  moreover have "c div 64 div 64 = c div 4096" by (simp add: div_mult2_eq [symmetric])
  ultimately show ?thesis by linarith
qed

lemma split_64_high: "(c :: nat) div 262144 * 262144 + c div 4096 mod 64 * 4096 + c div 64 mod 64 * 64 + c mod 64 = c"
proof -
  have "c div 4096 = c div 4096 div 64 * 64 + c div 4096 mod 64" by simp
  moreover have "c div 4096 div 64 = c div 262144" by (simp add: div_mult2_eq [symmetric])
  ultimately show ?thesis using split_64 [of c] by linarith
qed

lemma utf8_encode_bytes: "scalar c \<Longrightarrow> b \<in> set (utf8_encode c) \<Longrightarrow> b < 256"
  by (auto simp: scalar_def utf8_encode_def split: if_splits)

lemma decode_utf8_encode: "scalar c \<Longrightarrow> decode_chars (utf8_encode c @ s) = c # decode_chars s"
  using split_64 [of c] split_64_high [of c]
  by (auto simp: scalar_def utf8_encode_def)

lemma map_code_utf8: "scalar c \<Longrightarrow> map code (map char_of (utf8_encode c)) = utf8_encode c"
  using utf8_encode_bytes by (simp add: map_idI)

lemma chars_of_string_of_chars: "list_all scalar cs \<Longrightarrow> chars_of (string_of_chars cs) = cs"
proof (induction cs)
  case (Cons c cs)
  then have "map code (map char_of (utf8_encode c)) = utf8_encode c" by (intro map_code_utf8) simp
  with Cons show ?case by (simp add: chars_of_def string_of_chars_def decode_utf8_encode del: map_map)
qed (simp add: chars_of_def string_of_chars_def)

lemma utf8_string_iff: "utf8_string s \<longleftrightarrow> (\<exists>cs. list_all scalar cs \<and> s = string_of_chars cs)"
  by (metis chars_of_string_of_chars utf8_string_def)

lemma string_of_chars_append: "string_of_chars (cs @ ds) = string_of_chars cs @ string_of_chars ds"
  by (simp add: string_of_chars_def)

lemma utf8_string_append [intro]: "utf8_string s \<Longrightarrow> utf8_string t \<Longrightarrow> utf8_string (s @ t)"
  unfolding utf8_string_iff by (metis list_all_append string_of_chars_append)

lemma utf8_string_Nil [simp]: "utf8_string []"
  unfolding utf8_string_iff by (intro exI [of _ "[]"]) (simp add: string_of_chars_def)

lemma utf8_string_ascii: "list_all (\<lambda>c. code c < 128) s \<Longrightarrow> utf8_string s"
  unfolding utf8_string_iff
proof (intro exI [of _ "map code s"] conjI)
  assume "list_all (\<lambda>c. code c < 128) s"
  then show "list_all scalar (map code s)" "s = string_of_chars (map code s)"
    by (induction s) (simp_all add: scalar_def string_of_chars_def utf8_encode_def, simp_all add: code_def)
qed

lemma decode_utf16_units:
  "list_all scalar cs \<Longrightarrow> decode_utf16 (concat (map utf16_units cs)) = Some cs"
proof (induction cs)
  case (Cons c cs)
  then have c: "scalar c" and IH: "decode_utf16 (concat (map utf16_units cs)) = Some cs" by simp_all
  show ?case
  proof (cases "c < 0x10000")
    case True
    with c IH show ?thesis by (auto simp: utf16_units_def [of c] scalar_def)
  next
    case False
    define x where "x = c - 0x10000"
    have x: "c = x + 0x10000" "x < 0x100000" using c False by (auto simp: x_def scalar_def)
    then have "x div 1024 < 1024" by (simp add: less_mult_imp_div_less)
    then have "0xD800 + x div 1024 < 0xDC00" "0xDC00 + x mod 1024 < 0xE000" by simp_all
    have "utf16_units c = [0xD800 + x div 1024, 0xDC00 + x mod 1024]" using False by (simp add: utf16_units_def x_def)
    with IH x show ?thesis by simp
  qed
qed simp

lemma utf16_units_small: "scalar c \<Longrightarrow> u \<in> set (utf16_units c) \<Longrightarrow> u < 65536"
  by (auto simp: scalar_def utf16_units_def split: if_splits)

lemma unat_units: "list_all scalar cs \<Longrightarrow> map unat (concat (map (\<lambda>c. map word_of_nat (utf16_units c) :: u16 list) cs)) = concat (map utf16_units cs)"
proof (induction cs)
  case (Cons c cs)
  then have "map unat (map word_of_nat (utf16_units c) :: u16 list) = utf16_units c"
    by (auto intro!: map_idI simp: unsigned_of_nat take_bit_nat_eq_self dest: utf16_units_small)
  with Cons show ?case by (simp del: map_map)
qed simp

lemma from_utf16_encode: "utf8_string s \<Longrightarrow> from_utf16 (encode_utf16 s) = Some s"
  by (simp add: from_utf16_def encode_utf16_def utf8_string_def unat_units decode_utf16_units)

lemma utf16le_units_bytes: "utf16le_units (utf16le_bytes us) = us"
proof (induction us)
  case (Cons u us)
  have "le16 u = [ucast u, ucast (drop_bit 8 u)]" by (simp add: numeral_2_eq_2)
  moreover have "from_le (le16 u) = u" by (rule from_le_le16)
  ultimately show ?case using Cons by (simp add: utf16le_bytes_def del: to_le.simps from_le.simps)
qed (simp add: utf16le_bytes_def)

end
