(* ===== verification/Date_Time.thy ===== *)
theory Date_Time
  imports Rust_Lines
begin

text \<open>
  Dates in image headers (\<open>src/date_time.rs\<close>). The fields of \<open>HeaderDateTime\<close> are
  \<open>u16\<close> and \<open>u8\<close> values, held as natural numbers: they are only made by the parsers,
  whose ranges are written out, so no arithmetic on them leaves \<open>i64\<close> or \<open>i32\<close>. The
  lemmas: the seconds since 1970 and the calendar date determine each other, the weekday
  formula agrees with the day count, and every text form that is parsed reads back.
\<close>

section \<open>The calendar\<close>

record header_date_time =
  dt_year :: nat
  dt_month :: nat
  dt_day :: nat
  dt_hour :: nat
  dt_minute :: nat
  dt_second :: nat

datatype header_date_format = DayMonth | MonthDay | Iso8601 | Ctime

definition is_leap_year :: "nat \<Rightarrow> bool" where
  "is_leap_year year \<longleftrightarrow> 4 dvd year \<and> \<not> 100 dvd year \<or> 400 dvd year"

definition days_in_month :: "nat \<Rightarrow> nat \<Rightarrow> nat" where
  "days_in_month year month =
     (if month \<in> {1, 3, 5, 7, 8, 10, 12} then 31
      else if month \<in> {4, 6, 9, 11} then 30
      else if month = 2 then (if is_leap_year year then 29 else 28)
      else 0)"

definition date_valid :: "header_date_time \<Rightarrow> bool" where
  "date_valid d \<longleftrightarrow> 0 < dt_year d \<and> 1 \<le> dt_month d \<and> dt_month d \<le> 12 \<and> 1 \<le> dt_day d \<and>
     dt_day d \<le> days_in_month (dt_year d) (dt_month d) \<and> dt_hour d \<le> 23 \<and> dt_minute d \<le> 59 \<and> dt_second d \<le> 60"

text \<open>Division of \<open>i64\<close> rounds towards zero.\<close>

definition quot :: "int \<Rightarrow> int \<Rightarrow> int" where
  "quot a b = (if a < 0 then - ((- a) div b) else a div b)"

definition days_before_year :: "int \<Rightarrow> int" where
  "days_before_year year =
     (let previous_year = year - 1 in
      365 * (year - 1970) + quot previous_year 4 - quot previous_year 100 + quot previous_year 400
        - (1969 div 4 - 1969 div 100 + 1969 div 400))"

definition days_before_month :: "nat \<Rightarrow> nat \<Rightarrow> nat" where
  "days_before_month year month = sum_list (map (days_in_month year) [1..<month])"

definition unix_timestamp :: "header_date_time \<Rightarrow> int" where
  "unix_timestamp d =
     (let days = days_before_year (int (dt_year d)) + int (days_before_month (dt_year d) (dt_month d))
            + int (dt_day d - 1)
      in days * 86400 + int (dt_hour d) * 3600 + int (dt_minute d) * 60 + int (dt_second d))"

definition year_days :: "nat \<Rightarrow> int" where
  "year_days year = (if is_leap_year year then 366 else 365)"

text \<open>The two loops of \<open>from_unix_timestamp\<close>; counting past the type gives \<open>None\<close>.\<close>

function year_loop :: "nat \<Rightarrow> int \<Rightarrow> (nat \<times> int) option" where
  "year_loop year remaining_days =
     (if remaining_days < year_days year then Some (year, remaining_days)
      else if 65535 \<le> year then None
      else year_loop (year + 1) (remaining_days - year_days year))"
  by pat_completeness auto
termination by (relation "measure (\<lambda>(year, _). 65535 - year)") auto

function month_loop :: "nat \<Rightarrow> nat \<Rightarrow> int \<Rightarrow> (nat \<times> int) option" where
  "month_loop year month remaining_days =
     (if remaining_days < int (days_in_month year month) then Some (month, remaining_days)
      else if 255 \<le> month then None
      else month_loop year (month + 1) (remaining_days - int (days_in_month year month)))"
  by pat_completeness auto
termination by (relation "measure (\<lambda>(_, month, _). 255 - month)") auto

declare year_loop.simps [simp del] month_loop.simps [simp del]

definition to_u8 :: "int \<Rightarrow> nat option" where
  "to_u8 v = (if 0 \<le> v \<and> v \<le> 255 then Some (nat v) else None)"

definition from_unix_timestamp :: "int \<Rightarrow> header_date_time option" where
  "from_unix_timestamp timestamp =
     (if timestamp < 0 then None
      else
        Option.bind (year_loop 1970 (timestamp div 86400)) (\<lambda>(year, remaining_days).
        Option.bind (month_loop year 1 remaining_days) (\<lambda>(month, remaining_days).
        (let seconds_of_day = timestamp mod 86400 in
         Option.bind (to_u8 (remaining_days + 1)) (\<lambda>day.
         Option.bind (to_u8 (seconds_of_day div 3600)) (\<lambda>hour.
         Option.bind (to_u8 (seconds_of_day mod 3600 div 60)) (\<lambda>minute.
         Option.bind (to_u8 (seconds_of_day mod 60)) (\<lambda>second.
         Some \<lparr>dt_year = year, dt_month = month, dt_day = day, dt_hour = hour, dt_minute = minute,
           dt_second = second\<rparr>))))))))"

definition weekday_index :: "nat \<Rightarrow> nat \<Rightarrow> nat \<Rightarrow> nat" where
  "weekday_index year month day =
     (let month' = (if month < 3 then month + 12 else month);
          year' = (if month < 3 then year - 1 else year);
          century = year' div 100;
          year_of_century = year' mod 100;
          h = (day + (13 * (month' + 1)) div 5 + year_of_century + year_of_century div 4 + century div 4
                + 5 * century) mod 7
      in (h + 6) mod 7)"

definition weekday_name :: "nat \<Rightarrow> nat \<Rightarrow> nat \<Rightarrow> string" where
  "weekday_name year month day =
     [''Sun'', ''Mon'', ''Tue'', ''Wed'', ''Thu'', ''Fri'', ''Sat''] ! weekday_index year month day"

definition MONTH_NAMES :: "string list" where
  "MONTH_NAMES = [''Jan'', ''Feb'', ''Mar'', ''Apr'', ''May'', ''Jun'', ''Jul'', ''Aug'', ''Sep'', ''Oct'', ''Nov'', ''Dec'']"

definition month_name :: "nat \<Rightarrow> string" where
  "month_name month = (if 1 \<le> month \<and> month \<le> 12 then MONTH_NAMES ! (month - 1) else [])"

definition parse_month_name :: "string \<Rightarrow> nat option" where
  "parse_month_name name = map_of (zip MONTH_NAMES [1..<13]) name"

definition is_weekday_name :: "string \<Rightarrow> bool" where
  "is_weekday_name s \<longleftrightarrow> s \<in> {''Sun'', ''Mon'', ''Tue'', ''Wed'', ''Thu'', ''Fri'', ''Sat''}"

section \<open>Text forms\<close>

definition space_pad2 :: "nat \<Rightarrow> string" where
  "space_pad2 n = replicate (2 - length (dec n)) (CHR '' '') @ dec n"

definition clock_text :: "header_date_time \<Rightarrow> string" where
  "clock_text d = dec_pad 2 (dt_hour d) @ '':'' @ dec_pad 2 (dt_minute d) @ '':'' @ dec_pad 2 (dt_second d)"

definition format_date :: "header_date_format \<Rightarrow> header_date_time \<Rightarrow> string" where
  "format_date f d =
     (case f of
        DayMonth \<Rightarrow> dec_pad 2 (dt_day d) @ ''/'' @ dec_pad 2 (dt_month d) @ ''/'' @ dec_pad 4 (dt_year d) @ '' '' @ clock_text d
      | MonthDay \<Rightarrow> dec_pad 2 (dt_month d) @ ''/'' @ dec_pad 2 (dt_day d) @ ''/'' @ dec_pad 4 (dt_year d) @ '' '' @ clock_text d
      | Iso8601 \<Rightarrow> dec_pad 4 (dt_year d) @ ''-'' @ dec_pad 2 (dt_month d) @ ''-'' @ dec_pad 2 (dt_day d) @ ''T'' @ clock_text d
      | Ctime \<Rightarrow> weekday_name (dt_year d) (dt_month d) (dt_day d) @ '' '' @ month_name (dt_month d) @ '' ''
          @ space_pad2 (dt_day d) @ '' '' @ clock_text d @ '' '' @ dec_pad 4 (dt_year d))"

definition format_ewf1_header :: "header_date_time \<Rightarrow> string" where
  "format_ewf1_header d =
     join '' '' (map dec [dt_year d, dt_month d, dt_day d, dt_hour d, dt_minute d, dt_second d])"

definition i64_text :: "int \<Rightarrow> string" where
  "i64_text v = (if v < 0 then ''-'' @ dec (nat (- v)) else dec (nat v))"

definition date_of_fields ::
    "string \<Rightarrow> nat option \<Rightarrow> nat option \<Rightarrow> string \<Rightarrow> string \<Rightarrow> string \<Rightarrow> header_date_time option" where
  "date_of_fields year month day hour minute second =
     Option.bind (parse_unsigned 65535 year) (\<lambda>year.
     Option.bind month (\<lambda>month.
     Option.bind day (\<lambda>day.
     Option.bind (parse_unsigned 255 hour) (\<lambda>hour.
     Option.bind (parse_unsigned 255 minute) (\<lambda>minute.
     Option.bind (parse_unsigned 255 second) (\<lambda>second.
     (let d = \<lparr>dt_year = year, dt_month = month, dt_day = day, dt_hour = hour, dt_minute = minute,
               dt_second = second\<rparr>
      in if date_valid d then Some d else None)))))))"

definition parse_legacy_date_time :: "string \<Rightarrow> header_date_time option" where
  "parse_legacy_date_time value =
     (case split_whitespace value of
        [year, month, day, hour, minute, second] \<Rightarrow>
          date_of_fields year (parse_unsigned 255 month) (parse_unsigned 255 day) hour minute second
      | _ \<Rightarrow> None)"

definition parse_iso8601_date_time :: "string \<Rightarrow> header_date_time option" where
  "parse_iso8601_date_time value =
     (let value = (case strip_suffix_char (CHR ''Z'') value of Some v \<Rightarrow> v | None \<Rightarrow> value) in
      Option.bind (split_once (CHR ''T'') value) (\<lambda>(date, time).
        case (split_on (CHR ''-'') date, split_on (CHR '':'') time) of
          ([year, month, day], [hour, minute, second]) \<Rightarrow>
            date_of_fields year (parse_unsigned 255 month) (parse_unsigned 255 day) hour minute second
        | _ \<Rightarrow> None))"

definition parse_unix_timestamp_date_time :: "string \<Rightarrow> header_date_time option" where
  "parse_unix_timestamp_date_time value =
     (if \<not> list_all is_ascii_digit value then None
      else Option.bind (parse_unsigned (2 ^ 63 - 1) value) (\<lambda>timestamp. from_unix_timestamp (int timestamp)))"

definition parse_ctime_date_time :: "string \<Rightarrow> header_date_time option" where
  "parse_ctime_date_time value =
     (case split_whitespace value of
        weekday # month # day # time # year # rest \<Rightarrow>
          if \<not> is_weekday_name weekday then None
          else (case split_on (CHR '':'') time of
            [hour, minute, second] \<Rightarrow>
              if 2 < length rest then None
              else date_of_fields year (parse_month_name month) (parse_unsigned 255 day) hour minute second
          | _ \<Rightarrow> None)
      | _ \<Rightarrow> None)"

definition or_else :: "'a option \<Rightarrow> 'a option \<Rightarrow> 'a option" where
  "or_else a b = (case a of Some x \<Rightarrow> Some x | None \<Rightarrow> b)"

definition parse_date_time :: "string \<Rightarrow> header_date_time option" where
  "parse_date_time value =
     or_else (or_else (or_else (parse_legacy_date_time value) (parse_iso8601_date_time value))
       (parse_unix_timestamp_date_time value)) (parse_ctime_date_time value)"

definition format_header_date_value :: "string \<Rightarrow> header_date_format \<Rightarrow> string" where
  "format_header_date_value value f =
     (case parse_date_time value of None \<Rightarrow> value | Some d \<Rightarrow> format_date f d)"

definition format_ewf1_header_date_value :: "string \<Rightarrow> string" where
  "format_ewf1_header_date_value value =
     (case parse_date_time value of None \<Rightarrow> value | Some d \<Rightarrow> format_ewf1_header d)"

definition format_ewf1_header2_date_value :: "string \<Rightarrow> string" where
  "format_ewf1_header2_date_value value =
     (case parse_date_time value of None \<Rightarrow> value | Some d \<Rightarrow> i64_text (unix_timestamp d))"

definition format_xheader_date_value :: "string \<Rightarrow> string" where
  "format_xheader_date_value value =
     (case parse_date_time value of None \<Rightarrow> value | Some d \<Rightarrow> format_date Ctime d)"

section \<open>Seconds and calendar dates\<close>

lemma quot_nonneg [simp]: "0 \<le> a \<Longrightarrow> quot a b = a div b"
  by (simp add: quot_def)

lemma div_step: "0 < k \<Longrightarrow> int y div int k - (int y - 1) div int k = (if k dvd y then 1 else 0)" for k y :: nat
proof -
  assume k: "0 < k"
  show ?thesis
  proof (cases "k dvd y")
    case True
    then obtain q where y: "int y = int k * q" by (metis dvd_def of_nat_mult)
    have "(int k * q - 1) div int k = q - 1"
      using k by (intro int_div_pos_eq [where r = "int k - 1"]) (simp_all add: algebra_simps)
    then show ?thesis using True k by (simp add: y)
  next
    case False
    then have r: "0 < y mod k" by (simp add: dvd_eq_mod_eq_0)
    have "int y = int k * int (y div k) + int (y mod k)" by (metis of_nat_add of_nat_mult mult_div_mod_eq)
    moreover have "int (y mod k) < int k" using k by simp
    ultimately have "(int y - 1) div int k = int (y div k)"
      using r by (intro int_div_pos_eq [where r = "int (y mod k) - 1"]) simp_all
    then show ?thesis using False by (simp add: of_nat_div)
  qed
qed

lemma days_before_next_year:
  assumes "0 < y"
  shows "days_before_year (int (y + 1)) = days_before_year (int y) + year_days y"
proof -
  define q where "q k = (int y - 1) div k" for k
  have q: "int y div 4 = q 4 + (if 4 dvd y then 1 else 0)" "int y div 100 = q 100 + (if 100 dvd y then 1 else 0)"
    "int y div 400 = q 400 + (if 400 dvd y then 1 else 0)"
    using div_step [of 4 y] div_step [of 100 y] div_step [of 400 y] by (simp_all add: q_def)
  have old: "days_before_year (int y) = 365 * (int y - 1970) + q 4 - q 100 + q 400 - 477"
    using assms by (simp add: days_before_year_def q_def Let_def)
  have new: "days_before_year (int (y + 1)) = 365 * (int y - 1969) + int y div 4 - int y div 100 + int y div 400 - 477"
    by (simp add: days_before_year_def Let_def)
  have "400 dvd y \<Longrightarrow> 100 dvd y" "100 dvd y \<Longrightarrow> 4 dvd y"
    by (rule dvd_trans; simp)+
  then show ?thesis unfolding new old q year_days_def is_leap_year_def by (auto simp: algebra_simps)
qed

lemma days_before_next_month: "1 \<le> m \<Longrightarrow> days_before_month y (m + 1) = days_before_month y m + days_in_month y m"
  by (simp add: days_before_month_def)

lemma year_days_bounds: "365 \<le> year_days y" "year_days y \<le> 366"
  by (simp_all add: year_days_def)

lemma year_loop_found:
  "0 < y \<Longrightarrow> 0 \<le> r \<Longrightarrow> y \<le> 65535 \<Longrightarrow> year_loop y r = Some (y', r') \<Longrightarrow>
     y \<le> y' \<and> y' \<le> 65535 \<and> days_before_year (int y') + r' = days_before_year (int y) + r \<and>
     0 \<le> r' \<and> r' < year_days y'"
proof (induction y r rule: year_loop.induct)
  case (1 y r)
  show ?case
  proof (cases "r < year_days y")
    case True
    with 1 show ?thesis by (simp add: year_loop.simps [of y r])
  next
    case False
    then have y: "y < 65535" and rec: "year_loop (y + 1) (r - year_days y) = Some (y', r')"
      using 1(5) by (auto simp: year_loop.simps [of y r] split: if_splits)
    from 1(1) [OF False] y rec False 1(2)
    show ?thesis by (auto simp: days_before_next_year [simplified])
  qed
qed

lemma days_before_year_mono: "y \<le> y' \<Longrightarrow> 0 < y \<Longrightarrow> days_before_year (int y) \<le> days_before_year (int y')"
proof (induction rule: dec_induct)
  case (step n)
  then show ?case using days_before_next_year [of n] year_days_bounds [of n] by simp
qed simp

lemma year_loop_finds:
  "0 < y \<Longrightarrow> y \<le> y' \<Longrightarrow> y' \<le> 65535 \<Longrightarrow> 0 \<le> r' \<Longrightarrow> r' < year_days y' \<Longrightarrow>
     r = days_before_year (int y') - days_before_year (int y) + r' \<Longrightarrow> year_loop y r = Some (y', r')"
proof (induction y r rule: year_loop.induct)
  case (1 y r)
  show ?case
  proof (cases "y = y'")
    case True
    with 1 show ?thesis by (subst year_loop.simps) simp
  next
    case False
    then have lt: "y + 1 \<le> y'" using 1 by simp
    have "days_before_year (int (y + 1)) \<le> days_before_year (int y')"
      by (rule days_before_year_mono) (use lt in simp_all)
    then have "\<not> r < year_days y" using 1 days_before_next_year [of y] by simp
    moreover from this have "year_loop (y + 1) (r - year_days y) = Some (y', r')"
      using 1 lt days_before_next_year [of y] by (intro 1(1)) simp_all
    ultimately show ?thesis using lt 1(4) by (subst year_loop.simps) simp
  qed
qed

lemma days_before_month_mono: "m \<le> m' \<Longrightarrow> 1 \<le> m \<Longrightarrow> days_before_month y m \<le> days_before_month y m'"
proof (induction rule: dec_induct)
  case (step n)
  then show ?case using days_before_next_month [of n y] by simp
qed simp

lemma month_loop_found:
  "1 \<le> m \<Longrightarrow> 0 \<le> r \<Longrightarrow> month_loop y m r = Some (m', r') \<Longrightarrow>
     m \<le> m' \<and> int (days_before_month y m') + r' = int (days_before_month y m) + r \<and>
     0 \<le> r' \<and> r' < int (days_in_month y m')"
proof (induction y m r rule: month_loop.induct)
  case (1 y m r)
  show ?case
  proof (cases "r < int (days_in_month y m)")
    case True
    with 1 show ?thesis by (simp add: month_loop.simps [of y m r])
  next
    case False
    then have m: "m < 255" and rec: "month_loop y (m + 1) (r - int (days_in_month y m)) = Some (m', r')"
      using 1(4) by (auto simp: month_loop.simps [of y m r] split: if_splits)
    from 1(1) [OF False] m rec False 1(2)
    show ?thesis by (auto simp: days_before_next_month [simplified])
  qed
qed

lemma month_loop_finds:
  "1 \<le> m \<Longrightarrow> m \<le> m' \<Longrightarrow> m' \<le> 12 \<Longrightarrow> 0 \<le> r' \<Longrightarrow> r' < int (days_in_month y m') \<Longrightarrow>
     r = int (days_before_month y m') - int (days_before_month y m) + r' \<Longrightarrow> month_loop y m r = Some (m', r')"
proof (induction y m r rule: month_loop.induct)
  case (1 y m r)
  show ?case
  proof (cases "m = m'")
    case True
    with 1 show ?thesis by (subst month_loop.simps) simp
  next
    case False
    then have lt: "m + 1 \<le> m'" using 1 by simp
    have "days_before_month y (m + 1) \<le> days_before_month y m'"
      by (rule days_before_month_mono) (use lt in simp_all)
    then have "\<not> r < int (days_in_month y m)" using 1 days_before_next_month [of m y] by simp
    moreover from this have "month_loop y (m + 1) (r - int (days_in_month y m)) = Some (m', r')"
      using 1 lt days_before_next_month [of m y] by (intro 1(1)) simp_all
    ultimately show ?thesis using lt 1(4) by (subst month_loop.simps) simp
  qed
qed

lemma month_cases: "1 \<le> m \<Longrightarrow> m \<le> 12 \<Longrightarrow> m \<in> {1, 2, 3, 4, 5, 6, 7, 8, 9, 10, 11, 12 :: nat}"
  by (auto simp: le_Suc_eq numeral_eq_Suc)

lemma days_before_months:
  "days_before_month y 1 = 0" "days_before_month y 2 = 31"
  "days_before_month y 3 = 59 + (if is_leap_year y then 1 else 0)" "days_before_month y 4 = 90 + (if is_leap_year y then 1 else 0)"
  "days_before_month y 5 = 120 + (if is_leap_year y then 1 else 0)" "days_before_month y 6 = 151 + (if is_leap_year y then 1 else 0)"
  "days_before_month y 7 = 181 + (if is_leap_year y then 1 else 0)" "days_before_month y 8 = 212 + (if is_leap_year y then 1 else 0)"
  "days_before_month y 9 = 243 + (if is_leap_year y then 1 else 0)" "days_before_month y 10 = 273 + (if is_leap_year y then 1 else 0)"
  "days_before_month y 11 = 304 + (if is_leap_year y then 1 else 0)" "days_before_month y 12 = 334 + (if is_leap_year y then 1 else 0)"
  "days_before_month y 13 = 365 + (if is_leap_year y then 1 else 0)"
  by (simp_all add: days_before_month_def days_in_month_def upt_rec)

lemma day_of_year:
  assumes "date_valid d"
  shows "int (days_before_month (dt_year d) (dt_month d)) + int (dt_day d - 1) < year_days (dt_year d)"
proof -
  have m: "1 \<le> dt_month d" "dt_month d \<le> 12" and day: "1 \<le> dt_day d" "dt_day d \<le> days_in_month (dt_year d) (dt_month d)"
    using assms by (simp_all add: date_valid_def)
  have "days_before_month (dt_year d) (dt_month d + 1) \<le> days_before_month (dt_year d) 13"
    by (rule days_before_month_mono) (use m in simp_all)
  then have "days_before_month (dt_year d) (dt_month d) + days_in_month (dt_year d) (dt_month d) \<le> days_before_month (dt_year d) 13"
    using days_before_next_month [OF m(1)] by simp
  then show ?thesis using day by (simp add: days_before_months year_days_def split: if_splits)
qed

lemma days_before_1970: "days_before_year 1970 = 0"
  by (simp add: days_before_year_def)

lemma timestamp_parts:
  fixes d :: int
  assumes "h \<le> 23" "mi \<le> 59" "s \<le> 59"
  defines "X \<equiv> int h * 3600 + int mi * 60 + int s"
  defines "t \<equiv> d * 86400 + X"
  shows "t div 86400 = d \<and> t mod 86400 div 3600 = int h \<and> t mod 86400 mod 3600 div 60 = int mi \<and> t mod 86400 mod 60 = int s"
proof -
  have "0 \<le> X" "X < 86400" using assms(1-3) by (simp_all add: X_def)
  then have t: "t div 86400 = d" "t mod 86400 = X"
    by (simp_all add: t_def div_pos_pos_trivial mod_pos_pos_trivial)
  define Z where "Z = int mi * 60 + int s"
  have Z: "0 \<le> Z" "Z < 3600" "X = Z + int h * 3600" using assms(2,3) by (simp_all add: Z_def X_def)
  then have X: "X div 3600 = int h" "X mod 3600 = Z"
    by (simp_all add: div_pos_pos_trivial mod_pos_pos_trivial)
  have "Z = int s + int mi * 60" by (simp add: Z_def)
  then have m: "Z div 60 = int mi" using assms(3) by (simp add: div_pos_pos_trivial)
  have "X = int s + (int h * 60 + int mi) * 60" by (simp add: X_def)
  then have "X mod 60 = int s mod 60" by (simp only: mod_mult_self1)
  moreover have "int s mod 60 = int s" using assms(3) by (simp add: mod_pos_pos_trivial)
  ultimately have "X mod 60 = int s" by (rule trans)
  then show ?thesis by (simp only: t X m simp_thms)
qed

lemma timestamp_reads_back:
  assumes "date_valid d" "1970 \<le> dt_year d" "dt_year d \<le> 65535" "dt_second d \<le> 59"
  shows "0 \<le> unix_timestamp d \<and> from_unix_timestamp (unix_timestamp d) = Some d"
proof -
  define days where "days = days_before_year (int (dt_year d))"
  define rest where "rest = int (days_before_month (dt_year d) (dt_month d)) + int (dt_day d - 1)"
  have days: "0 \<le> days" using days_before_year_mono [OF assms(2)] days_before_1970 by (simp add: days_def)
  have v: "1 \<le> dt_month d" "dt_month d \<le> 12" "1 \<le> dt_day d" "dt_day d \<le> days_in_month (dt_year d) (dt_month d)"
    "dt_hour d \<le> 23" "dt_minute d \<le> 59" using assms(1) by (simp_all add: date_valid_def)
  have t: "unix_timestamp d = (days + rest) * 86400 + int (dt_hour d) * 3600 + int (dt_minute d) * 60 + int (dt_second d)"
    by (simp add: unix_timestamp_def days_def rest_def Let_def add.assoc)
  have rest: "0 \<le> rest" "rest < year_days (dt_year d)" using day_of_year [OF assms(1)] by (simp_all add: rest_def)
  have parts: "unix_timestamp d div 86400 = days + rest \<and> unix_timestamp d mod 86400 div 3600 = int (dt_hour d) \<and>
    unix_timestamp d mod 86400 mod 3600 div 60 = int (dt_minute d) \<and> unix_timestamp d mod 86400 mod 60 = int (dt_second d)"
    unfolding t using timestamp_parts [OF v(5,6) assms(4), of "days + rest"] by (simp only: add.assoc)
  have "year_loop 1970 (days + rest) = Some (dt_year d, rest)"
    by (rule year_loop_finds) (use assms rest days_before_1970 in \<open>simp_all add: days_def\<close>)
  moreover have "month_loop (dt_year d) 1 rest = Some (dt_month d, int (dt_day d - 1))"
    by (rule month_loop_finds) (use v in \<open>simp_all add: rest_def days_before_months [simplified]\<close>)
  moreover have "dt_day d \<le> 31" using v(4) by (simp add: days_in_month_def split: if_splits)
  moreover have "0 \<le> unix_timestamp d" using days rest by (simp add: t)
  ultimately show ?thesis using v assms(4)
    by (auto simp: from_unix_timestamp_def parts to_u8_def Let_def)
qed

lemma clock_bounds:
  fixes x :: int
  assumes "x < 86400"
  shows "x div 3600 \<le> 23" "x mod 3600 div 60 \<le> 59" "x mod 60 \<le> 59"
proof -
  show "x div 3600 \<le> 23" using assms by linarith
  have "x mod 3600 < 3600" by simp
  then show "x mod 3600 div 60 \<le> 59" by linarith
  have "x mod 60 < 60" by simp
  then show "x mod 60 \<le> 59" by simp
qed

lemma clock_split: "(x :: int) = x div 3600 * 3600 + x mod 3600 div 60 * 60 + x mod 60"
proof -
  have "x mod 3600 = x mod 3600 div 60 * 60 + x mod 3600 mod 60" "x = x div 3600 * 3600 + x mod 3600" by simp_all
  moreover have "x mod 3600 mod 60 = x mod 60" by (rule mod_mod_cancel) simp
  ultimately show ?thesis by linarith
qed

lemma timestamp_is_date:
  assumes "from_unix_timestamp t = Some d"
  shows "0 \<le> t \<and> date_valid d \<and> 1970 \<le> dt_year d \<and> dt_second d \<le> 59 \<and> unix_timestamp d = t"
proof -
  obtain D H M S where abs: "t div 86400 = D" "t mod 86400 div 3600 = H" "t mod 86400 mod 3600 div 60 = M"
    "t mod 86400 mod 60 = S" by blast
  have t: "0 \<le> t" using assms by (simp add: from_unix_timestamp_def split: if_splits)
  have D: "0 \<le> D" using t by (simp flip: abs(1) add: pos_imp_zdiv_nonneg_iff)
  have bounds: "H \<le> 23" "M \<le> 59" "S \<le> 59"
    using clock_bounds [of "t mod 86400"] unfolding abs by simp_all
  have split: "t = D * 86400 + H * 3600 + M * 60 + S"
    using clock_split [of "t mod 86400"] div_mult_mod_eq [of t 86400] unfolding abs by simp
  obtain y r m q where y: "year_loop 1970 D = Some (y, r)" and m: "month_loop y 1 r = Some (m, q)"
    and u: "to_u8 (q + 1) = Some (dt_day d)" "to_u8 H = Some (dt_hour d)"
      "to_u8 M = Some (dt_minute d)" "to_u8 S = Some (dt_second d)"
    and d: "dt_year d = y" "dt_month d = m"
    using assms t by (auto simp: from_unix_timestamp_def Let_def bind_eq_Some_conv abs)
  have fy: "1970 \<le> y" "days_before_year (int y) + r = D" "0 \<le> r" "r < year_days y"
    using year_loop_found [OF _ D _ y] days_before_1970 by simp_all
  have fm: "1 \<le> m" "int (days_before_month y m) + q = r" "0 \<le> q" "q < int (days_in_month y m)"
    using month_loop_found [OF _ fy(3) m] by (simp_all add: days_before_months [simplified])
  have m12: "m \<le> 12" using fm(3,4) by (auto simp: days_in_month_def split: if_splits)
  have day: "int (dt_day d) = q + 1" using u(1) by (auto simp: to_u8_def split: if_splits)
  have clock: "int (dt_hour d) = H" "int (dt_minute d) = M" "int (dt_second d) = S"
    using u(2-4) by (auto simp: to_u8_def split: if_splits)
  have days: "dt_day d \<ge> 1" "int (dt_day d - 1) = q" using day fm(3) by linarith+
  have "unix_timestamp d = t"
  proof -
    have "days_before_year (int y) + int (days_before_month y m) + q = D" using fy(2) fm(2) by simp
    then show ?thesis unfolding unix_timestamp_def Let_def d clock days(2) split by (simp only:)
  qed
  moreover have "date_valid d"
    using fy(1) fm m12 day bounds clock by (simp add: date_valid_def d)
  ultimately show ?thesis using t fy(1) bounds(3) clock(3) by (simp add: d)
qed

section \<open>The weekday\<close>

lemma century_sum:
  fixes Y :: nat
  shows "int (Y mod 100 + Y mod 100 div 4 + Y div 100 div 4 + 5 * (Y div 100)) + 119 * int (Y div 100) =
    int Y + (int (Y div 4) - int (Y div 100) + int (Y div 400))"
proof -
  obtain c k a b where abs: "Y div 100 = c" "Y mod 100 = k" "k div 4 = a" "c div 4 = b" by blast
  have y: "Y = 100 * c + k" using mult_div_mod_eq [of 100 Y] by (simp add: abs)
  have "Y div 400 = b" using div_mult2_eq [of Y 100 4] by (simp add: abs)
  moreover have "Y div 4 = 25 * c + a"
  proof -
    have "(k + 4 * (25 * c)) div 4 = 25 * c + k div 4" by (rule div_mult_self2) simp
    moreover have "k + 4 * (25 * c) = Y" using y by simp
    ultimately have "Y div 4 = 25 * c + k div 4" by (rule subst [rotated])
    then show ?thesis unfolding abs(3) .
  qed
  ultimately show ?thesis unfolding abs using y by simp
qed

lemma days_before_year_after:
  "days_before_year (int Y + 1) = 365 * (int Y - 1969) + (int (Y div 4) - int (Y div 100) + int (Y div 400)) - 477"
  by (simp add: days_before_year_def Let_def of_nat_div)

lemma weekday_is_day_count:
  assumes "0 < y" "1 \<le> m" "m \<le> 12" "1 \<le> d"
  shows "int (weekday_index y m d) = (days_before_year (int y) + int (days_before_month y m) + int (d - 1) + 4) mod 7"
proof -
  define Y where "Y = (if m < 3 then y - 1 else y)"
  define L where "L = Y mod 100 + Y mod 100 div 4 + Y div 100 div 4 + 5 * (Y div 100)"
  define c where "c = int (Y div 100)"
  define M where "M = 13 * ((if m < 3 then m + 12 else m) + 1) div 5"
  define g where "g = int (Y div 4) - int (Y div 100) + int (Y div 400)"
  define e where "e = int (days_before_month y m) - (if 3 \<le> m \<and> is_leap_year y then 1 else 0)"
  have L: "int L + 119 * c = int Y + g" unfolding L_def c_def g_def by (rule century_sum)
  have w: "weekday_index y m d = (d + M + L + 6) mod 7"
  proof -
    have "weekday_index y m d = ((d + M + L) mod 7 + 6) mod 7"
      unfolding weekday_index_def Let_def Y_def [symmetric] M_def L_def by (simp only: add.assoc)
    then show ?thesis by (simp only: mod_add_left_eq)
  qed
  have g: "days_before_year (int Y + 1) = 365 * (int Y - 1969) + g - 477"
    unfolding g_def by (rule days_before_year_after)
  have days: "days_before_year (int y) + int (days_before_month y m) = 365 * (int y - 1970) + g - 477 + e"
  proof (cases "m < 3")
    case True
    then have "int y = int Y + 1" using assms(1) by (simp add: Y_def)
    then show ?thesis using True g by (simp add: e_def)
  next
    case False
    then have "days_before_year (int (y + 1)) = 365 * (int y - 1969) + g - 477"
      using g by (simp add: Y_def add.commute)
    with days_before_next_year [OF assms(1)]
    have "days_before_year (int y) = 365 * (int y - 1969) + g - 477 - year_days y" by simp
    then show ?thesis using False by (simp add: e_def year_days_def)
  qed
  have e: "(m, M, e) \<in> {(1, 36, 0), (2, 39, 31), (3, 10, 59), (4, 13, 90), (5, 15, 120), (6, 18, 151), (7, 20, 181),
      (8, 23, 212), (9, 26, 243), (10, 28, 273), (11, 31, 304), (12, 33, 334)}"
    using month_cases [OF assms(2,3)]
    by (elim insertE emptyE) (simp_all add: M_def e_def days_before_months days_before_months(1) [simplified])
  have y: "int Y = (if m < 3 then int y - 1 else int y)" using assms(1) by (simp add: Y_def)
  have "(int d + int M + int L + 6) mod 7 = (365 * (int y - 1970) + g - 477 + e + (int d - 1) + 4) mod 7"
  proof -
    have "7 dvd int M - e + 719530 - (if m < 3 then 1 else 0)" using e by auto
    moreover have "(int d + int M + int L + 6) - (365 * (int y - 1970) + g - 477 + e + (int d - 1) + 4) =
        int M - e + 719530 - (if m < 3 then 1 else 0) + 7 * (- 52 * int y - 17 * c)"
      using L y by (cases "m < 3") simp_all
    ultimately show ?thesis unfolding mod_eq_dvd_iff by (metis dvd_add dvd_triv_left)
  qed
  then show ?thesis using assms(4) by (simp add: w days zmod_int of_nat_diff)
qed

section \<open>The text forms read back\<close>

lemma visible_digit: "is_ascii_digit c \<Longrightarrow> visible c"
  by (simp add: is_ascii_digit_def visible_def)

lemma digits_dec: "list_all is_ascii_digit (dec n)"
  using dec_digits by (auto simp: list_all_iff)

lemma digits_dec_pad: "list_all is_ascii_digit (dec_pad w n)"
  using digits_dec [of n] by (auto simp: dec_pad_def list_all_iff is_ascii_digit_def code_def)

lemma visible_dec: "list_all visible (dec n)" "list_all visible (dec_pad w n)"
  using digits_dec [of n] digits_dec_pad [of w n] visible_digit by (auto simp: list_all_iff)

lemma dec_pad_nonempty [simp]: "dec_pad w n \<noteq> []"
  by (simp add: dec_pad_def)

lemma not_in_digits:
  "\<not> is_ascii_digit c \<Longrightarrow> c \<notin> set (dec n)" "\<not> is_ascii_digit c \<Longrightarrow> c \<notin> set (dec_pad w n)"
  using digits_dec [of n] digits_dec_pad [of w n] by (auto simp: list_all_iff)

lemma parse_digits_zeros: "parse_digits mx 0 (replicate k (CHR ''0'') @ s) = parse_digits mx 0 s"
  by (induction k) (simp_all add: is_ascii_digit_def code_def)

lemma parse_unsigned_dec_pad: "n \<le> mx \<Longrightarrow> parse_unsigned mx (dec_pad w n) = Some n"
proof -
  assume le: "n \<le> mx"
  obtain c cs where c: "dec_pad w n = c # cs" by (cases "dec_pad w n") auto
  have "is_ascii_digit c" using digits_dec_pad [of w n] by (simp add: c)
  then have "c \<noteq> CHR ''+''" by (auto simp: is_ascii_digit_def code_def)
  moreover have "parse_digits mx 0 (dec_pad w n) = Some n"
    using parse_digits_dec [OF le] by (simp add: dec_pad_def parse_digits_zeros)
  ultimately show ?thesis by (simp add: parse_unsigned_def c)
qed

lemma date_fields_in_range:
  assumes "date_valid d" "dt_year d \<le> 65535"
  shows "dt_month d \<le> 255" "dt_day d \<le> 255" "dt_hour d \<le> 255" "dt_minute d \<le> 255" "dt_second d \<le> 255"
  using assms by (auto simp: date_valid_def days_in_month_def split: if_splits)

lemma date_eta:
  "\<lparr>dt_year = dt_year d, dt_month = dt_month d, dt_day = dt_day d, dt_hour = dt_hour d, dt_minute = dt_minute d,
     dt_second = dt_second d\<rparr> = d"
  by simp

lemma legacy_reads_back:
  assumes "date_valid d" "dt_year d \<le> 65535"
  shows "parse_legacy_date_time (format_ewf1_header d) = Some d"
  using assms date_fields_in_range [OF assms]
  by (simp add: parse_legacy_date_time_def format_ewf1_header_def split_whitespace_word split_whitespace_last visible_dec
      date_of_fields_def parse_unsigned_dec Let_def date_eta)

lemma clock_splits: "split_on (CHR '':'') (clock_text d) = [dec_pad 2 (dt_hour d), dec_pad 2 (dt_minute d), dec_pad 2 (dt_second d)]"
  by (simp add: clock_text_def split_on_piece split_on_whole not_in_digits is_ascii_digit_def code_def)

lemma visible_clock: "list_all visible (clock_text d)" "clock_text d \<noteq> []"
  by (simp_all add: clock_text_def visible_dec) (simp add: visible_def code_def)

lemma iso_reads_back:
  assumes "date_valid d" "dt_year d \<le> 65535"
  shows "parse_iso8601_date_time (format_date Iso8601 d) = Some d"
proof -
  have "last (clock_text d) \<in> set (dec_pad 2 (dt_second d))" by (simp add: clock_text_def)
  moreover have "CHR ''Z'' \<notin> set (dec_pad 2 (dt_second d))" by (rule not_in_digits) (simp add: is_ascii_digit_def code_def)
  ultimately have z: "last (clock_text d) \<noteq> CHR ''Z''" by metis
  let ?date = "dec_pad 4 (dt_year d) @ ''-'' @ dec_pad 2 (dt_month d) @ ''-'' @ dec_pad 2 (dt_day d)"
  have t: "CHR ''T'' \<notin> set ?date" by (auto simp: not_in_digits is_ascii_digit_def code_def)
  have "split_on (CHR ''-'') ?date = [dec_pad 4 (dt_year d), dec_pad 2 (dt_month d), dec_pad 2 (dt_day d)]"
    by (simp add: split_on_piece split_on_whole not_in_digits is_ascii_digit_def code_def)
  moreover have "split_once (CHR ''T'') (?date @ CHR ''T'' # clock_text d) = Some (?date, clock_text d)"
    using t by (rule split_once_char)
  ultimately show ?thesis
    using assms date_fields_in_range [OF assms] z visible_clock(2) [of d]
    by (simp add: parse_iso8601_date_time_def format_date_def strip_suffix_char_def clock_splits date_of_fields_def parse_unsigned_dec_pad Let_def date_eta)
qed

lemma weekday_name_cases: "weekday_name y m d \<in> {''Sun'', ''Mon'', ''Tue'', ''Wed'', ''Thu'', ''Fri'', ''Sat''}"
proof -
  have "weekday_index y m d < 7" by (simp add: weekday_index_def Let_def)
  then have "weekday_index y m d \<in> {0, 1, 2, 3, 4, 5, 6}" by auto
  then show ?thesis unfolding weekday_name_def by (elim insertE emptyE) simp_all
qed

lemma month_name_facts:
  assumes "1 \<le> m" "m \<le> 12"
  shows "parse_month_name (month_name m) = Some m \<and> list_all visible (month_name m) \<and> month_name m \<noteq> [] \<and>
    CHR ''T'' \<notin> set (month_name m)"
  using month_cases [OF assms]
  by (elim insertE emptyE)
    (simp_all add: month_name_def parse_month_name_def MONTH_NAMES_def visible_def code_def upt_rec)

lemma weekday_name_facts:
  "list_all visible (weekday_name y m d) \<and> weekday_name y m d \<noteq> [] \<and> is_weekday_name (weekday_name y m d) \<and>
    \<not> is_ascii_digit (hd (weekday_name y m d)) \<and>
    (CHR ''T'' \<in> set (weekday_name y m d) \<longrightarrow> hd (weekday_name y m d) = CHR ''T'')"
  using weekday_name_cases [of y m d]
  by (elim insertE emptyE) (simp_all add: is_weekday_name_def visible_def is_ascii_digit_def code_def)

lemma split_whitespace_spaces: "split_whitespace (replicate k (CHR '' '') @ s) = split_whitespace s"
  by (induction k) (simp_all add: split_whitespace_space)

lemma ctime_words:
  assumes "date_valid d"
  shows "split_whitespace (format_date Ctime d) =
    [weekday_name (dt_year d) (dt_month d) (dt_day d), month_name (dt_month d), dec (dt_day d), clock_text d, dec_pad 4 (dt_year d)]"
proof -
  have m: "1 \<le> dt_month d" "dt_month d \<le> 12" using assms by (simp_all add: date_valid_def)
  show ?thesis
    using month_name_facts [OF m] weekday_name_facts [of "dt_year d" "dt_month d" "dt_day d"] visible_clock [of d]
    by (simp add: format_date_def space_pad2_def split_whitespace_word split_whitespace_last visible_dec split_whitespace_spaces)
qed

lemma ctime_reads_back:
  assumes "date_valid d" "dt_year d \<le> 65535"
  shows "parse_ctime_date_time (format_date Ctime d) = Some d"
proof -
  have m: "1 \<le> dt_month d" "dt_month d \<le> 12" using assms by (simp_all add: date_valid_def)
  show ?thesis
    using assms date_fields_in_range [OF assms] month_name_facts [OF m] weekday_name_facts [of "dt_year d" "dt_month d" "dt_day d"]
    by (simp add: parse_ctime_date_time_def ctime_words clock_splits date_of_fields_def parse_unsigned_dec parse_unsigned_dec_pad Let_def date_eta)
qed

lemma iso_rejects:
  assumes "last s \<noteq> CHR ''Z''" "CHR ''T'' \<in> set s \<longrightarrow> hd s = CHR ''T''"
  shows "parse_iso8601_date_time s = None"
proof (cases "CHR ''T'' \<in> set s")
  case True
  then obtain t where "s = CHR ''T'' # t" using assms(2) by (cases s) auto
  then show ?thesis using assms(1) by (simp add: parse_iso8601_date_time_def strip_suffix_char_def split_once_def)
next
  case False
  then show ?thesis using assms(1)
    by (simp add: parse_iso8601_date_time_def strip_suffix_char_def split_once_def find_str_no_char)
qed

lemma ctime_not_other:
  assumes "date_valid d"
  shows "parse_legacy_date_time (format_date Ctime d) = None" "parse_iso8601_date_time (format_date Ctime d) = None"
    "parse_unix_timestamp_date_time (format_date Ctime d) = None"
proof -
  have m: "1 \<le> dt_month d" "dt_month d \<le> 12" using assms by (simp_all add: date_valid_def)
  let ?w = "weekday_name (dt_year d) (dt_month d) (dt_day d)"
  have w: "?w \<noteq> []" "\<not> is_ascii_digit (hd ?w)" "CHR ''T'' \<in> set ?w \<longrightarrow> hd ?w = CHR ''T''" "CHR ''T'' \<notin> set (month_name (dt_month d))"
    using weekday_name_facts [of "dt_year d" "dt_month d" "dt_day d"] month_name_facts [OF m] by simp_all
  have T: "\<not> is_ascii_digit (CHR ''T'')" "\<not> is_ascii_digit (CHR ''Z'')" by (simp_all add: is_ascii_digit_def code_def)
  show "parse_legacy_date_time (format_date Ctime d) = None"
    by (simp add: parse_legacy_date_time_def ctime_words [OF assms])
  have hd: "hd (format_date Ctime d) = hd ?w" using w(1) by (simp add: format_date_def)
  have "last (format_date Ctime d) \<in> set (dec_pad 4 (dt_year d))" by (simp add: format_date_def)
  then have "last (format_date Ctime d) \<noteq> CHR ''Z''" using not_in_digits(2) [OF T(2)] by metis
  moreover have "CHR ''T'' \<in> set (format_date Ctime d) \<longrightarrow> CHR ''T'' \<in> set ?w"
    using w(4) by (simp add: format_date_def space_pad2_def clock_text_def not_in_digits [OF T(1)])
  ultimately show "parse_iso8601_date_time (format_date Ctime d) = None"
    using w(3) hd by (intro iso_rejects) simp_all
  obtain c s where "format_date Ctime d = c # s" using w(1) by (cases "format_date Ctime d") (simp_all add: format_date_def)
  then show "parse_unix_timestamp_date_time (format_date Ctime d) = None"
    using hd w(2) by (simp add: parse_unix_timestamp_date_time_def)
qed

lemma timestamp_fits:
  assumes "date_valid d" "dt_year d \<le> 65535"
  shows "unix_timestamp d \<le> 2 ^ 63 - 1"
proof -
  have "days_before_year (int (dt_year d)) \<le> days_before_year (int 65535)"
    by (rule days_before_year_mono) (use assms in \<open>simp_all add: date_valid_def\<close>)
  moreover have "days_before_year (int 65535) = 23216639" by (simp add: days_before_year_def Let_def)
  moreover have "dt_hour d \<le> 23" "dt_minute d \<le> 59" "dt_second d \<le> 60" using assms(1) by (simp_all add: date_valid_def)
  ultimately show ?thesis
    using assms(2) day_of_year [OF assms(1)] year_days_bounds [of "dt_year d"] by (simp add: unix_timestamp_def Let_def)
qed

lemma dates_read_back:
  assumes "date_valid d" "dt_year d \<le> 65535"
  shows "parse_date_time (format_ewf1_header d) = Some d \<and> parse_date_time (format_date Iso8601 d) = Some d \<and>
    parse_date_time (format_date Ctime d) = Some d \<and>
    (1970 \<le> dt_year d \<and> dt_second d \<le> 59 \<longrightarrow> parse_date_time (i64_text (unix_timestamp d)) = Some d)"
proof (intro conjI impI)
  have m: "1 \<le> dt_month d" "dt_month d \<le> 12" using assms by (simp_all add: date_valid_def)
  show "parse_date_time (format_ewf1_header d) = Some d"
    by (simp add: parse_date_time_def or_else_def legacy_reads_back [OF assms])
  have "list_all visible (format_date Iso8601 d)" "format_date Iso8601 d \<noteq> []"
    by (simp_all add: format_date_def visible_dec visible_clock) (simp add: visible_def code_def)
  then have "parse_legacy_date_time (format_date Iso8601 d) = None"
    by (simp add: parse_legacy_date_time_def split_whitespace_last)
  then show "parse_date_time (format_date Iso8601 d) = Some d"
    by (simp add: parse_date_time_def or_else_def iso_reads_back [OF assms])
  show "parse_date_time (format_date Ctime d) = Some d"
    by (simp add: parse_date_time_def or_else_def ctime_reads_back [OF assms] ctime_not_other [OF assms(1)])
next
  assume late: "1970 \<le> dt_year d \<and> dt_second d \<le> 59"
  then have t: "0 \<le> unix_timestamp d" "from_unix_timestamp (unix_timestamp d) = Some d"
    using timestamp_reads_back [OF assms(1) _ assms(2)] by simp_all
  define n where "n = nat (unix_timestamp d)"
  have n: "unix_timestamp d = int n" "i64_text (unix_timestamp d) = dec n" using t(1) by (simp_all add: n_def i64_text_def)
  have "unix_timestamp d \<le> 2 ^ 63 - 1" by (rule timestamp_fits [OF assms])
  then have "n \<le> 2 ^ 63 - 1" using n(1) by simp
  then have "parse_unix_timestamp_date_time (dec n) = Some d"
    using t(2) n by (simp add: parse_unix_timestamp_date_time_def digits_dec parse_unsigned_dec)
  moreover have "parse_legacy_date_time (dec n) = None"
    by (simp add: parse_legacy_date_time_def split_whitespace_last visible_dec)
  moreover have "parse_iso8601_date_time (dec n) = None"
  proof (rule iso_rejects)
    have "is_ascii_digit (last (dec n))" by (rule dec_digits [of _ n]) simp
    then show "last (dec n) \<noteq> CHR ''Z''" by (auto simp: is_ascii_digit_def code_def)
  qed (simp add: not_in_digits is_ascii_digit_def code_def)
  ultimately show "parse_date_time (i64_text (unix_timestamp d)) = Some d"
    unfolding n(2) by (simp add: parse_date_time_def or_else_def)
qed

end
