(* ===== verification/Metadata_Text.thy ===== *)
theory Metadata_Text
  imports Date_Time Stored_Hashes Ewf1_Writer
begin

text \<open>
  The text sections of an image (\<open>src/metadata.rs\<close>, \<open>src/codepage.rs\<close>, \<open>src/types.rs\<close>):
  case metadata, the tab separated header texts, the XML texts, and the device information
  of EWF2 images with the geometry of the media. The code pages of \<open>encoding_rs\<close> are a
  parameter.
\<close>

section \<open>Case metadata\<close>

record ewf_metadata =
  md_case_number :: "string option"
  md_evidence_number :: "string option"
  md_examiner :: "string option"
  md_description :: "string option"
  md_notes :: "string option"
  md_acquisition_software :: "string option"
  md_acquisition_software_version :: "string option"
  md_os_version :: "string option"
  md_acquisition_date :: "string option"
  md_system_date :: "string option"
  md_password :: "string option"
  md_header_values :: btree

definition metadata_default :: ewf_metadata where
  "metadata_default = \<lparr>md_case_number = None, md_evidence_number = None, md_examiner = None,
     md_description = None, md_notes = None, md_acquisition_software = None,
     md_acquisition_software_version = None, md_os_version = None, md_acquisition_date = None,
     md_system_date = None, md_password = None, md_header_values = []\<rparr>"

definition standard_header_value :: "ewf_metadata \<Rightarrow> string \<Rightarrow> string option" where
  "standard_header_value md identifier =
     (if identifier = ''case_number'' then md_case_number md
      else if identifier = ''description'' then md_description md
      else if identifier = ''examiner_name'' then md_examiner md
      else if identifier = ''evidence_number'' then md_evidence_number md
      else if identifier = ''notes'' then md_notes md
      else if identifier = ''acquiry_date'' then md_acquisition_date md
      else if identifier = ''system_date'' then md_system_date md
      else if identifier = ''acquiry_operating_system'' then md_os_version md
      else if identifier = ''acquiry_software'' then md_acquisition_software md
      else if identifier = ''acquiry_software_version'' then md_acquisition_software_version md
      else if identifier = ''password'' then md_password md
      else None)"

definition header_value :: "ewf_metadata \<Rightarrow> string \<Rightarrow> string option" where
  "header_value md identifier =
     or_else (standard_header_value md identifier) (map_of (md_header_values md) identifier)"

definition header_value_with_date_format :: "ewf_metadata \<Rightarrow> string \<Rightarrow> header_date_format \<Rightarrow> string option" where
  "header_value_with_date_format md identifier f =
     map_option (\<lambda>value. if identifier \<in> {''acquiry_date'', ''system_date''} then format_header_date_value value f else value)
       (header_value md identifier)"

definition btree_remove :: "string \<Rightarrow> btree \<Rightarrow> btree" where
  "btree_remove k m = filter (\<lambda>(k', _). k' \<noteq> k) m"

text \<open>\<open>set_header_value\<close>, with the previous value.\<close>

definition set_header_value :: "string \<Rightarrow> string \<Rightarrow> ewf_metadata \<Rightarrow> ewf_metadata \<times> string option" where
  "set_header_value identifier value md =
     (let previous = header_value md identifier;
          md = md\<lparr>md_header_values := btree_remove identifier (md_header_values md)\<rparr> in
      (if identifier = ''case_number'' then md\<lparr>md_case_number := Some value\<rparr>
       else if identifier = ''description'' then md\<lparr>md_description := Some value\<rparr>
       else if identifier = ''examiner_name'' then md\<lparr>md_examiner := Some value\<rparr>
       else if identifier = ''evidence_number'' then md\<lparr>md_evidence_number := Some value\<rparr>
       else if identifier = ''notes'' then md\<lparr>md_notes := Some value\<rparr>
       else if identifier = ''acquiry_date'' then md\<lparr>md_acquisition_date := Some value\<rparr>
       else if identifier = ''system_date'' then md\<lparr>md_system_date := Some value\<rparr>
       else if identifier = ''acquiry_operating_system'' then md\<lparr>md_os_version := Some value\<rparr>
       else if identifier = ''acquiry_software'' then md\<lparr>md_acquisition_software := Some value\<rparr>
       else if identifier = ''acquiry_software_version'' then md\<lparr>md_acquisition_software_version := Some value\<rparr>
       else if identifier = ''password'' then md\<lparr>md_password := Some value\<rparr>
       else md\<lparr>md_header_values := btree_insert identifier value (md_header_values md)\<rparr>,
       previous))"

definition STANDARD_HEADER_VALUE_IDENTIFIERS :: "string list" where
  "STANDARD_HEADER_VALUE_IDENTIFIERS =
     [''case_number'', ''description'', ''examiner_name'', ''evidence_number'', ''notes'', ''acquiry_date'',
      ''system_date'', ''acquiry_operating_system'', ''acquiry_software'', ''acquiry_software_version'',
      ''password'', ''compression_level'', ''model'', ''serial_number'']"

definition is_standard_header_value_identifier :: "string \<Rightarrow> bool" where
  "is_standard_header_value_identifier identifier \<longleftrightarrow> identifier \<in> set STANDARD_HEADER_VALUE_IDENTIFIERS"

definition number_of_header_values :: "ewf_metadata \<Rightarrow> nat" where
  "number_of_header_values md =
     length (filter (\<lambda>i. header_value md i \<noteq> None) STANDARD_HEADER_VALUE_IDENTIFIERS) +
     length (filter (\<lambda>(k, _). \<not> is_standard_header_value_identifier k) (md_header_values md))"

text \<open>\<open>header_value_identifier\<close>: its two loops count down the index.\<close>

fun nth_satisfying :: "('a \<Rightarrow> bool) \<Rightarrow> nat \<Rightarrow> 'a list \<Rightarrow> nat + 'a" where
  "nth_satisfying p remaining [] = Inl remaining"
| "nth_satisfying p remaining (x # xs) =
     (if p x then (if remaining = 0 then Inr x else nth_satisfying p (remaining - 1) xs)
      else nth_satisfying p remaining xs)"

definition header_value_identifier :: "ewf_metadata \<Rightarrow> nat \<Rightarrow> string option" where
  "header_value_identifier md index =
     (case nth_satisfying (\<lambda>i. header_value md i \<noteq> None) index STANDARD_HEADER_VALUE_IDENTIFIERS of
        Inr identifier \<Rightarrow> Some identifier
      | Inl remaining \<Rightarrow>
          (case nth_satisfying (\<lambda>i. \<not> is_standard_header_value_identifier i) remaining (map fst (md_header_values md)) of
             Inr identifier \<Rightarrow> Some identifier
           | Inl _ \<Rightarrow> None))"

section \<open>Code pages\<close>

datatype header_codepage =
  Ascii | Windows874 | Windows932 | Windows936 | Windows1250 | Windows1251 | Windows1252 | Windows1253
| Windows1254 | Windows1255 | Windows1256 | Windows1257 | Windows1258

text \<open>The decoders and encoders of \<open>encoding_rs\<close> for the code pages beside ASCII.\<close>

record codepages =
  cp_decode :: "header_codepage \<Rightarrow> bytes \<Rightarrow> string"
  cp_encode :: "header_codepage \<Rightarrow> string \<Rightarrow> bytes"

definition decode_header_bytes :: "codepages \<Rightarrow> bytes \<Rightarrow> header_codepage \<Rightarrow> string" where
  "decode_header_bytes P raw codepage =
     (if codepage = Ascii then str_of (from_utf8_lossy raw) else cp_decode P codepage raw)"

definition encode_header_text :: "codepages \<Rightarrow> string \<Rightarrow> header_codepage \<Rightarrow> bytes" where
  "encode_header_text P s codepage = (if codepage = Ascii then bytes_of s else cp_encode P codepage s)"

section \<open>Tab separated texts\<close>

text \<open>The fields \<open>for_each_tabular_field\<close> visits, in order.\<close>

definition tabular_fields :: "string \<Rightarrow> (string \<times> string) list" where
  "tabular_fields s =
     (let ls = lines (replace_crlf s) in
      if length ls < 4 then [] else zip (split_on tab (ls ! 2)) (split_on tab (ls ! 3)))"

definition ewf1_identifiers :: "(string \<times> string) list" where
  "ewf1_identifiers =
     [(''a'', ''description''), (''av'', ''acquiry_software_version''), (''c'', ''case_number''),
      (''dc'', ''unknown_dc''), (''e'', ''examiner_name''), (''ext'', ''extents''), (''l'', ''device_label''),
      (''m'', ''acquiry_date''), (''md'', ''model''), (''n'', ''evidence_number''),
      (''ov'', ''acquiry_operating_system''), (''p'', ''password''), (''pid'', ''process_identifier''),
      (''r'', ''compression_level''), (''sn'', ''serial_number''), (''t'', ''notes''), (''u'', ''system_date'')]"

definition ewf1_header_identifier :: "string \<Rightarrow> string" where
  "ewf1_header_identifier name = (case map_of ewf1_identifiers name of Some i \<Rightarrow> i | None \<Rightarrow> name)"

definition ewf1_header_field :: "string \<times> string \<Rightarrow> ewf_metadata \<Rightarrow> ewf_metadata" where
  "ewf1_header_field f md =
     (case f of (name, value) \<Rightarrow>
        if value = [] then md
        else
          let md = md\<lparr>md_header_values := btree_insert (ewf1_header_identifier name) value (md_header_values md)\<rparr> in
          if name = ''c'' then md\<lparr>md_case_number := Some value\<rparr>
          else if name = ''n'' then md\<lparr>md_evidence_number := Some value\<rparr>
          else if name = ''a'' then md\<lparr>md_description := Some value\<rparr>
          else if name = ''e'' then md\<lparr>md_examiner := Some value\<rparr>
          else if name = ''t'' then md\<lparr>md_notes := Some value\<rparr>
          else if name = ''av'' then md\<lparr>md_acquisition_software_version := Some value\<rparr>
          else if name = ''ov'' then md\<lparr>md_os_version := Some value\<rparr>
          else if name = ''m'' then md\<lparr>md_acquisition_date := Some value\<rparr>
          else if name = ''u'' then md\<lparr>md_system_date := Some value\<rparr>
          else if name = ''p'' then md\<lparr>md_password := Some value\<rparr>
          else md)"

definition parse_header_text :: "string \<Rightarrow> ewf_metadata \<Rightarrow> ewf_metadata" where
  "parse_header_text s md = fold ewf1_header_field (tabular_fields s) md"

definition parse_header_data :: "codepages \<Rightarrow> bytes \<Rightarrow> header_codepage \<Rightarrow> ewf_metadata \<Rightarrow> ewf_metadata" where
  "parse_header_data P raw codepage md = parse_header_text (decode_header_bytes P raw codepage) md"

definition decode_utf16le :: "bytes \<Rightarrow> string option" where
  "decode_utf16le raw =
     (if length raw < 2 then None
      else let units = utf16le_units raw;
               units = (if units \<noteq> [] \<and> hd units = 0xfeff then tl units else units) in
        from_utf16 units)"

definition parse_header2_data :: "bytes \<Rightarrow> ewf_metadata \<Rightarrow> ewf_metadata" where
  "parse_header2_data raw md = (case decode_utf16le raw of Some s \<Rightarrow> parse_header_text s md | None \<Rightarrow> md)"

section \<open>The producer of an EWF1 header\<close>

fun position_of :: "('a \<Rightarrow> bool) \<Rightarrow> 'a list \<Rightarrow> nat option" where
  "position_of p [] = None"
| "position_of p (x # xs) = (if p x then Some 0 else map_option Suc (position_of p xs))"

definition profile_of_field ::
    "nat \<Rightarrow> string \<Rightarrow> bool \<Rightarrow> char option \<Rightarrow> nat \<times> string \<Rightarrow> format_profile option \<Rightarrow> format_profile option" where
  "profile_of_field section_number number_of_sections has_carriage_return version f profile =
     (case f of (index, name) \<Rightarrow>
        if section_number = 1 \<and> index = 5 \<and> name = ''av'' then Some Linen5
        else if section_number = 2 \<and> index = 5 \<and> name = ''av'' \<and> number_of_sections = ''1'' then Some EnCase4
        else if section_number = 2 \<and> index = 5 \<and> name = ''av'' \<and> number_of_sections = ''3'' then Some EnCase5
        else if section_number = 1 \<and> index = 5 \<and> name = ''md'' then Some Linen6
        else if section_number = 2 \<and> index = 5 \<and> name = ''md'' then Some EnCase6
        else if section_number = 1 \<and> name = ''l'' then Some Linen7
        else if section_number = 2 \<and> name = ''l'' then Some EnCase7
        else if section_number = 1 \<and> index = 8 \<and> name = ''r'' then Some EnCase1
        else if section_number = 1 \<and> index = 10 \<and> name = ''r'' \<and> has_carriage_return then
          (if version = Some (CHR ''2'') then Some EnCase2
           else if version = Some (CHR ''3'') then Some EnCase3
           else profile)
        else if section_number = 1 \<and> index = 10 \<and> name = ''r'' then Some FtkImager
        else profile)"

definition detect_ewf1_header_profile :: "string \<Rightarrow> nat \<Rightarrow> format_profile option" where
  "detect_ewf1_header_profile s section_number =
     (let has_carriage_return = carriage_return \<in> set s;
          ls = lines (replace_char carriage_return newline (replace_crlf s)) in
      if length ls < 3 then None
      else
        let number_of_sections = ls ! 0;
            types = split_on tab (ls ! 2);
            values = split_on tab (if 3 < length ls then ls ! 3 else []);
            version = Option.bind (position_of (\<lambda>name. name = ''av'') types) (\<lambda>index.
              if index < length values then (case values ! index of [] \<Rightarrow> None | c # _ \<Rightarrow> Some c) else None);
            profile = (if section_number = 1 \<and> number_of_sections = ''3'' then Some Linen5 else None)
        in fold (profile_of_field section_number number_of_sections has_carriage_return version)
             (enumerate 0 types) profile)"

definition detect_ewf1_header2_profile :: "bytes \<Rightarrow> format_profile option" where
  "detect_ewf1_header2_profile raw =
     Option.bind (decode_utf16le raw) (\<lambda>s. detect_ewf1_header_profile s 2)"

section \<open>XML texts\<close>

definition after_find :: "string \<Rightarrow> string \<Rightarrow> (string \<times> string) option" where
  "after_find s p = (case find_str s p of None \<Rightarrow> None | Some i \<Rightarrow> Some (take i s, drop (i + length p) s))"

text \<open>The body of the root element, from the end of its opening tag to its closing tag.\<close>

definition xml_root_body :: "string \<Rightarrow> string \<Rightarrow> string option" where
  "xml_root_body s root_tag =
     Option.bind (find_str s (''<'' @ root_tag)) (\<lambda>root_start.
     Option.bind (after_find (drop root_start s) ''>'') (\<lambda>(_, rest).
     Option.bind (after_find rest (''</'' @ root_tag @ ''>'')) (\<lambda>(body, _). Some body)))"

definition first_word :: "string \<Rightarrow> string" where
  "first_word s = (case split_whitespace s of [] \<Rightarrow> [] | w # _ \<Rightarrow> w)"

lemma find_str_bound: "find_str s p = Some i \<Longrightarrow> i + length p \<le> length s"
proof (induction s arbitrary: i)
  case (Cons c s)
  then show ?case
    by (auto simp: starts_with_iff split: if_splits) (metis append_Cons length_append le_add1 length_Cons)+
qed (auto split: if_splits)

lemma after_find_length: "after_find s p = Some (a, b) \<Longrightarrow> length b + length p \<le> length s"
  using find_str_bound [of s p] by (auto simp: after_find_def split: option.splits)

text \<open>The children of the root element, as the loop visits them: tag and text.\<close>

function xml_children :: "string \<Rightarrow> (string \<times> string) list" where
  "xml_children body =
     (case after_find body ''<'' of
        None \<Rightarrow> []
      | Some (_, body) \<Rightarrow>
          (case after_find body ''>'' of
             None \<Rightarrow> []
           | Some (tag_text, rest) \<Rightarrow>
               if body \<noteq> [] \<and> hd body \<in> {CHR ''/'', CHR ''?'', CHR ''!''} then xml_children rest
               else
                 let tag_name = first_word tag_text in
                 if tag_name = [] then xml_children rest
                 else (case after_find rest (''</'' @ tag_name @ ''>'') of
                     None \<Rightarrow> []
                   | Some (value, rest) \<Rightarrow> (tag_name, value) # xml_children rest)))"
  by pat_completeness auto
termination
  by (relation "measure length") (auto dest!: after_find_length)

declare xml_children.simps [simp del]

definition simple_xml_children :: "string \<Rightarrow> string \<Rightarrow> (string \<times> string) list" where
  "simple_xml_children s root_tag =
     (case xml_root_body s root_tag of None \<Rightarrow> [] | Some body \<Rightarrow> xml_children body)"

definition xml_entity :: "string \<Rightarrow> string" where
  "xml_entity entity =
     (if entity = ''&amp;'' then ''&''
      else if entity = ''&lt;'' then ''<''
      else if entity = ''&gt;'' then ''>''
      else if entity = ''&quot;'' then [char_of (34 :: nat)]
      else if entity = ''&apos;'' then [char_of (39 :: nat)]
      else entity)"

function decode_xml_entities :: "string \<Rightarrow> string" where
  "decode_xml_entities rest =
     (case after_find rest ''&'' of
        None \<Rightarrow> rest
      | Some (before, after) \<Rightarrow>
          before @
          (case after_find after '';'' of
             None \<Rightarrow> ''&'' @ after
           | Some (name, rest) \<Rightarrow> xml_entity (''&'' @ name @ '';'') @ decode_xml_entities rest))"
  by pat_completeness auto
termination
  by (relation "measure length") (auto dest!: after_find_length)

declare decode_xml_entities.simps [simp del]

definition strip_bom :: "bytes \<Rightarrow> bytes" where
  "strip_bom raw = (case strip_prefix [0xef, 0xbb, 0xbf] raw of Some r \<Rightarrow> r | None \<Rightarrow> raw)"

definition xhash_child :: "stored_hashes \<Rightarrow> string \<times> string \<Rightarrow> stored_hashes result" where
  "xhash_child hashes f =
     (case f of (tag, value) \<Rightarrow>
        let value = decode_xml_entities (trim value) in
        if value = [] \<and> canonical_identifier tag = None then Inr hashes
        else insert_stored_hash hashes tag value)"

definition parse_xhash_data :: "bytes \<Rightarrow> stored_hashes \<Rightarrow> stored_hashes result" where
  "parse_xhash_data raw hashes =
     try_fold xhash_child hashes (simple_xml_children (str_of (from_utf8_lossy (strip_bom raw))) ''xhash'')"

definition xheader_child :: "string \<times> string \<Rightarrow> ewf_metadata \<Rightarrow> ewf_metadata" where
  "xheader_child f md =
     (case f of (tag, value) \<Rightarrow>
        let value = trim value in
        if value = [] then md
        else
          let value = decode_xml_entities value;
              md = md\<lparr>md_header_values := btree_or_insert tag value (md_header_values md)\<rparr> in
          if tag = ''case_number'' then md\<lparr>md_case_number := Some value\<rparr>
          else if tag = ''description'' then md\<lparr>md_description := Some value\<rparr>
          else if tag = ''examiner_name'' then md\<lparr>md_examiner := Some value\<rparr>
          else if tag = ''evidence_number'' then md\<lparr>md_evidence_number := Some value\<rparr>
          else if tag = ''notes'' then md\<lparr>md_notes := Some value\<rparr>
          else if tag = ''acquiry_operating_system'' then md\<lparr>md_os_version := Some value\<rparr>
          else if tag = ''acquiry_date'' then md\<lparr>md_acquisition_date := Some value\<rparr>
          else if tag = ''acquiry_software'' then md\<lparr>md_acquisition_software := Some value\<rparr>
          else if tag = ''acquiry_software_version'' then md\<lparr>md_acquisition_software_version := Some value\<rparr>
          else if tag = ''password'' then md\<lparr>md_password := Some value\<rparr>
          else md)"

definition parse_xheader_data :: "bytes \<Rightarrow> ewf_metadata \<Rightarrow> ewf_metadata" where
  "parse_xheader_data raw md =
     fold xheader_child (simple_xml_children (str_of (from_utf8_lossy (strip_bom raw))) ''xheader'') md"

section \<open>EWF2 texts\<close>

definition ewf2_case_identifiers :: "(string \<times> string) list" where
  "ewf2_case_identifiers =
     [(''ad'', ''acquiry_date''), (''at'', ''acquiry_date''), (''av'', ''acquiry_software_version''),
      (''cn'', ''case_number''), (''cp'', ''compression_method''), (''de'', ''description''),
      (''nm'', ''description''), (''en'', ''evidence_number''), (''ex'', ''examiner_name''), (''nt'', ''notes''),
      (''os'', ''acquiry_operating_system''), (''ov'', ''acquiry_operating_system''),
      (''sd'', ''system_date''), (''tt'', ''system_date'')]"

definition ewf2_case_header_identifier :: "string \<Rightarrow> string" where
  "ewf2_case_header_identifier name = (case map_of ewf2_case_identifiers name of Some i \<Rightarrow> i | None \<Rightarrow> name)"

definition ewf2_device_header_identifier :: "string \<Rightarrow> string option" where
  "ewf2_device_header_identifier name =
     map_of [(''lb'', ''device_label''), (''md'', ''model''), (''pid'', ''process_identifier''), (''sn'', ''serial_number'')] name"

definition ewf2_case_field :: "string \<times> string \<Rightarrow> ewf_metadata \<Rightarrow> ewf_metadata" where
  "ewf2_case_field f md =
     (case f of (name, value) \<Rightarrow>
        if value = [] then md
        else
          let md = md\<lparr>md_header_values := btree_insert (ewf2_case_header_identifier name) value (md_header_values md)\<rparr> in
          if name = ''cn'' then md\<lparr>md_case_number := Some value\<rparr>
          else if name = ''en'' then md\<lparr>md_evidence_number := Some value\<rparr>
          else if name = ''ex'' then md\<lparr>md_examiner := Some value\<rparr>
          else if name = ''de'' \<or> name = ''nm'' then md\<lparr>md_description := Some value\<rparr>
          else if name = ''nt'' then md\<lparr>md_notes := Some value\<rparr>
          else if name = ''av'' then md\<lparr>md_acquisition_software_version := Some value\<rparr>
          else if name = ''acquiry_software'' then md\<lparr>md_acquisition_software := Some value\<rparr>
          else if name = ''ov'' \<or> name = ''os'' then md\<lparr>md_os_version := Some value\<rparr>
          else if name = ''ad'' \<or> name = ''at'' then md\<lparr>md_acquisition_date := Some value\<rparr>
          else if name = ''sd'' \<or> name = ''tt'' then md\<lparr>md_system_date := Some value\<rparr>
          else if name = ''password'' then md\<lparr>md_password := Some value\<rparr>
          else md)"

definition parse_ewf2_case_data :: "bytes \<Rightarrow> ewf_metadata \<Rightarrow> ewf_metadata" where
  "parse_ewf2_case_data raw md =
     (case decode_utf16le raw of None \<Rightarrow> md | Some s \<Rightarrow> fold ewf2_case_field (tabular_fields s) md)"

definition ewf2_device_field :: "string \<times> string \<Rightarrow> ewf_metadata \<Rightarrow> ewf_metadata" where
  "ewf2_device_field f md =
     (case f of (name, value) \<Rightarrow>
        if value = [] then md
        else (case ewf2_device_header_identifier name of
          None \<Rightarrow> md
        | Some identifier \<Rightarrow> md\<lparr>md_header_values := btree_insert identifier value (md_header_values md)\<rparr>))"

definition parse_ewf2_device_info_values :: "bytes \<Rightarrow> ewf_metadata \<Rightarrow> ewf_metadata" where
  "parse_ewf2_device_info_values raw md =
     (case decode_utf16le raw of None \<Rightarrow> md | Some s \<Rightarrow> fold ewf2_device_field (tabular_fields s) md)"

record ewf2_geometry =
  g2_sectors_per_chunk :: "u64 option"
  g2_bytes_per_sector :: "u64 option"
  g2_sector_count :: "u64 option"
  g2_chunk_count :: "u64 option"
  g2_error_granularity :: "u64 option"
  g2_chunk_size :: "u64 option"
  g2_logical_size :: "u64 option"
  g2_media_type :: "media_type option"
  g2_physical :: "bool option"
  g2_fastbloc :: bool
  g2_tableau :: bool

definition ewf2_geometry_default :: ewf2_geometry where
  "ewf2_geometry_default = \<lparr>g2_sectors_per_chunk = None, g2_bytes_per_sector = None, g2_sector_count = None,
     g2_chunk_count = None, g2_error_granularity = None, g2_chunk_size = None, g2_logical_size = None,
     g2_media_type = None, g2_physical = None, g2_fastbloc = False, g2_tableau = False\<rparr>"

definition parse_ewf2_media_type :: "string \<Rightarrow> media_type option" where
  "parse_ewf2_media_type value =
     (if length value \<noteq> 1 then None
      else let c = hd value in
        Some (if c = CHR ''c'' then Optical
          else if c = CHR ''f'' then Fixed
          else if c = CHR ''l'' then SingleFiles
          else if c = CHR ''m'' then MediaMemory
          else if c = CHR ''r'' then Removable
          else MediaUnknown (word_of_nat (code c))))"

definition parse_u64 :: "string \<Rightarrow> u64 option" where
  "parse_u64 value = map_option word_of_nat (parse_unsigned (2 ^ 64 - 1) value)"

text \<open>
  The variables of \<open>parse_ewf2_device_info\<close>: the fields of the geometry of the same
  name, before they are checked; \<open>g2_sector_count\<close> is its \<open>total_sectors\<close>.
\<close>

definition ewf2_device_info_field :: "string \<times> string \<Rightarrow> ewf2_geometry \<Rightarrow> ewf2_geometry" where
  "ewf2_device_info_field f g =
     (case f of (name, value) \<Rightarrow>
        if name = ''dt'' then g\<lparr>g2_media_type := parse_ewf2_media_type value\<rparr>
        else if name = ''ph'' then
          (if value = ''0'' then g\<lparr>g2_physical := Some False\<rparr>
           else if value = ''1'' then g\<lparr>g2_physical := Some True\<rparr>
           else g)
        else (case parse_u64 value of
          None \<Rightarrow> g
        | Some parsed \<Rightarrow>
            if name = ''wb'' then
              g\<lparr>g2_fastbloc := (g2_fastbloc g \<or> parsed AND 0x1 \<noteq> 0), g2_tableau := (g2_tableau g \<or> parsed AND 0x2 \<noteq> 0)\<rparr>
            else if name = ''b'' \<or> name = ''bp'' then g\<lparr>g2_bytes_per_sector := Some parsed\<rparr>
            else if name = ''gr'' then g\<lparr>g2_error_granularity := Some parsed\<rparr>
            else if name = ''sc'' \<or> name = ''sb'' then g\<lparr>g2_sectors_per_chunk := Some parsed\<rparr>
            else if name = ''ts'' then g\<lparr>g2_sector_count := Some parsed\<rparr>
            else if name = ''tb'' then g\<lparr>g2_chunk_count := Some parsed\<rparr>
            else g))"

definition checked_ewf2_geometry_mul :: "u64 \<Rightarrow> u64 \<Rightarrow> string \<Rightarrow> u64 result" where
  "checked_ewf2_geometry_mul left right field =
     ok_or (checked_mul left right) (Malformed (''EWF2 geometry '' @ field @ '' overflow''))"

definition positive :: "u64 option \<Rightarrow> u64 option" where
  "positive v = (case v of Some x \<Rightarrow> if 0 < x then Some x else None | None \<Rightarrow> None)"

text \<open>The product of two values that are present and positive, absent otherwise.\<close>

definition product_if_positive :: "u64 option \<Rightarrow> u64 option \<Rightarrow> string \<Rightarrow> u64 option result" where
  "product_if_positive left right field =
     (case (left, right) of
        (Some l, Some r) \<Rightarrow>
          if 0 < l \<and> 0 < r then try_bind (checked_ewf2_geometry_mul l r field) (\<lambda>v. Inr (Some v)) else Inr None
      | _ \<Rightarrow> Inr None)"

definition parse_ewf2_device_info :: "bytes \<Rightarrow> ewf2_geometry result" where
  "parse_ewf2_device_info raw =
     (case decode_utf16le raw of
        None \<Rightarrow> Inr ewf2_geometry_default
      | Some s \<Rightarrow>
          let g = fold ewf2_device_info_field (tabular_fields s) ewf2_geometry_default in
          try_bind (product_if_positive (g2_bytes_per_sector g) (g2_sectors_per_chunk g) ''chunk size'') (\<lambda>chunk_size.
          try_bind (case positive (g2_sector_count g) of
              Some sectors \<Rightarrow> Inr (Some sectors)
            | None \<Rightarrow> product_if_positive (g2_sectors_per_chunk g) (g2_chunk_count g) ''sector count'') (\<lambda>sector_count.
          try_bind (product_if_positive (g2_bytes_per_sector g) sector_count ''logical size'') (\<lambda>logical_size.
          Inr (g\<lparr>g2_sectors_per_chunk := positive (g2_sectors_per_chunk g),
            g2_bytes_per_sector := positive (g2_bytes_per_sector g), g2_sector_count := sector_count,
            g2_chunk_count := positive (g2_chunk_count g), g2_error_granularity := positive (g2_error_granularity g),
            g2_chunk_size := chunk_size, g2_logical_size := logical_size\<rparr>)))))"

end
