(* ===== verification/Catalog_Text.thy ===== *)
theory Catalog_Text
  imports File_Reader Metadata_Text
begin

text \<open>
  The catalog of a logical image (\<open>src/single_files.rs\<close>): a UTF-16 text of five categories
  - the record, permissions, sources, subjects and the tree of entries -, each a line of
  column types and rows of tab-separated values. This theory holds the data of
  \<open>src/types.rs\<close>, the parser and the lookups; \<open>Catalog_Writer\<close> holds the writer and the
  round trip.
\<close>

section \<open>The data of a catalog\<close>

datatype single_file_entry_type = FileEntryFile | FileEntryDirectory | FileEntryUnknown

record single_file_attribute =
  at_name :: "string option"
  at_value :: "string option"

text \<open>\<open>SingleFileEntry\<close> without its children; the fields that reading uses come first.\<close>

record catalog_entry = file_entry +
  ce_identifier :: "u64 option"
  ce_type :: "single_file_entry_type option"
  ce_guid :: "string option"
  ce_name :: "string option"
  ce_name_utf16 :: "u16 list option"
  ce_short_name :: "string option"
  ce_logical_offset :: "i64 option"
  ce_physical_offset :: "i64 option"
  ce_source_identifier :: "i32 option"
  ce_subject_identifier :: "u32 option"
  ce_permission_group_index :: "i32 option"
  ce_record_type :: "u32 option"
  ce_creation_time :: "i64 option"
  ce_modification_time :: "i64 option"
  ce_access_time :: "i64 option"
  ce_entry_modification_time :: "i64 option"
  ce_deletion_time :: "i64 option"
  ce_md5 :: "string option"
  ce_sha1 :: "string option"
  ce_attributes :: "single_file_attribute list"

definition catalog_entry_default :: catalog_entry where
  "catalog_entry_default = \<lparr>fe_flags = None, fe_size = None, fe_duplicate_data_offset = None, fe_extents = [],
     ce_identifier = None, ce_type = None, ce_guid = None, ce_name = None, ce_name_utf16 = None,
     ce_short_name = None, ce_logical_offset = None, ce_physical_offset = None, ce_source_identifier = None,
     ce_subject_identifier = None, ce_permission_group_index = None, ce_record_type = None,
     ce_creation_time = None, ce_modification_time = None, ce_access_time = None,
     ce_entry_modification_time = None, ce_deletion_time = None, ce_md5 = None, ce_sha1 = None, ce_attributes = []\<rparr>"

text \<open>An entry with its children.\<close>

datatype catalog_node = CatalogNode (node_entry: catalog_entry) (node_children: "catalog_node list")

record catalog_source =
  cs_identifier :: "i32 option"
  cs_name :: "string option"
  cs_evidence_number :: "string option"
  cs_location :: "string option"
  cs_device_guid :: "string option"
  cs_primary_device_guid :: "string option"
  cs_drive_type :: "nat option"
  cs_manufacturer :: "string option"
  cs_model :: "string option"
  cs_serial_number :: "string option"
  cs_domain :: "string option"
  cs_ip_address :: "string option"
  cs_mac_address :: "string option"
  cs_size :: "u64 option"
  cs_logical_offset :: "i64 option"
  cs_physical_offset :: "i64 option"
  cs_acquisition_time :: "i64 option"
  cs_md5 :: "string option"
  cs_sha1 :: "string option"

definition catalog_source_default :: catalog_source where
  "catalog_source_default = \<lparr>cs_identifier = None, cs_name = None, cs_evidence_number = None, cs_location = None,
     cs_device_guid = None, cs_primary_device_guid = None, cs_drive_type = None, cs_manufacturer = None,
     cs_model = None, cs_serial_number = None, cs_domain = None, cs_ip_address = None, cs_mac_address = None,
     cs_size = None, cs_logical_offset = None, cs_physical_offset = None, cs_acquisition_time = None,
     cs_md5 = None, cs_sha1 = None\<rparr>"

record catalog_subject =
  su_identifier :: "u32 option"
  su_name :: "string option"

definition catalog_subject_default :: catalog_subject where
  "catalog_subject_default = \<lparr>su_identifier = None, su_name = None\<rparr>"

record catalog_permission =
  pe_name :: "string option"
  pe_identifier :: "string option"
  pe_property_type :: "u32 option"
  pe_access_mask :: "u32 option"
  pe_ace_flags :: "u32 option"

definition catalog_permission_default :: catalog_permission where
  "catalog_permission_default = \<lparr>pe_name = None, pe_identifier = None, pe_property_type = None,
     pe_access_mask = None, pe_ace_flags = None\<rparr>"

text \<open>A permission group is a permission with the permissions in it.\<close>

record catalog_permission_group = catalog_permission +
  pg_permissions :: "catalog_permission list"

record catalog =
  ca_data_size :: u64
  ca_root :: catalog_node
  ca_sources :: "catalog_source list"
  ca_subjects :: "catalog_subject list"
  ca_permission_groups :: "catalog_permission_group list"

section \<open>Looking entries up\<close>

definition usize_of_i32 :: "i32 \<Rightarrow> nat option" where
  "usize_of_i32 i = (if 0 \<le> sint i then Some (unat i) else None)"

definition list_get :: "'a list \<Rightarrow> nat \<Rightarrow> 'a option" where
  "list_get xs i = (if i < length xs then Some (xs ! i) else None)"

definition source_by_identifier :: "catalog \<Rightarrow> i32 \<Rightarrow> catalog_source option" where
  "source_by_identifier cat i = find (\<lambda>source. cs_identifier source = Some i) (ca_sources cat)"

definition source_by_index :: "catalog \<Rightarrow> i32 \<Rightarrow> catalog_source option" where
  "source_by_index cat i = Option.bind (usize_of_i32 i) (list_get (ca_sources cat))"

definition source_for_entry :: "catalog \<Rightarrow> catalog_entry \<Rightarrow> catalog_source option" where
  "source_for_entry cat entry = Option.bind (ce_source_identifier entry)
     (\<lambda>identifier. if sint identifier < 1 then None else source_by_index cat identifier)"

definition subject_by_identifier :: "catalog \<Rightarrow> u32 \<Rightarrow> catalog_subject option" where
  "subject_by_identifier cat i = find (\<lambda>subject. su_identifier subject = Some i) (ca_subjects cat)"

definition subject_for_entry :: "catalog \<Rightarrow> catalog_entry \<Rightarrow> catalog_subject option" where
  "subject_for_entry cat entry = Option.bind (ce_subject_identifier entry) (subject_by_identifier cat)"

definition permission_group_by_index :: "catalog \<Rightarrow> i32 \<Rightarrow> catalog_permission_group option" where
  "permission_group_by_index cat i = Option.bind (usize_of_i32 i) (list_get (ca_permission_groups cat))"

definition permission_group_for_entry :: "catalog \<Rightarrow> catalog_entry \<Rightarrow> catalog_permission_group option" where
  "permission_group_for_entry cat entry =
     Option.bind (ce_permission_group_index entry) (permission_group_by_index cat)"

definition access_control_entries_for_entry :: "catalog \<Rightarrow> catalog_entry \<Rightarrow> catalog_permission list" where
  "access_control_entries_for_entry cat entry =
     (case permission_group_for_entry cat entry of None \<Rightarrow> [] | Some g \<Rightarrow> pg_permissions g)"

definition access_control_entry_for_entry :: "catalog \<Rightarrow> catalog_entry \<Rightarrow> nat \<Rightarrow> catalog_permission option" where
  "access_control_entry_for_entry cat entry i = list_get (access_control_entries_for_entry cat entry) i"

definition child_by_name :: "catalog_node \<Rightarrow> string \<Rightarrow> catalog_node option" where
  "child_by_name node name = find (\<lambda>child. ce_name (node_entry child) = Some name) (node_children node)"

text \<open>The separators of a path are the tab and the NUL character.\<close>

definition is_separator :: "char \<Rightarrow> bool" where
  "is_separator c \<longleftrightarrow> c = tab \<or> c = char_of (0 :: nat)"

function walk_path :: "catalog_node \<Rightarrow> string \<Rightarrow> catalog_node option result" where
  "walk_path node rest =
     (if rest = [] then Inr (Some node)
      else let segment = takeWhile (\<lambda>c. \<not> is_separator c) rest in
        if segment = [] then Inl (Malformed ''single file path is missing entry name'')
        else case child_by_name node segment of
          None \<Rightarrow> Inr None
        | Some child \<Rightarrow> walk_path child (drop (length segment + 1) rest))"
  by pat_completeness auto
termination by (relation "measure (\<lambda>(_, rest). length rest)") auto

declare walk_path.simps [simp del]

definition entry_by_path :: "catalog_node \<Rightarrow> string \<Rightarrow> catalog_node option result" where
  "entry_by_path node path = walk_path node (case strip_prefix [tab] path of Some rest \<Rightarrow> rest | None \<Rightarrow> path)"

section \<open>Numbers\<close>

text \<open>\<open>from_str_radix(_, 16)\<close> for unsigned numbers up to \<open>mx\<close>: an optional plus sign and digits.\<close>

definition hex_digit_value :: "char \<Rightarrow> nat option" where
  "hex_digit_value c =
     (let n = code c in
      if 48 \<le> n \<and> n \<le> 57 then Some (n - 48)
      else if 65 \<le> n \<and> n \<le> 70 then Some (n - 55)
      else if 97 \<le> n \<and> n \<le> 102 then Some (n - 87) else None)"

fun parse_hex_digits :: "nat \<Rightarrow> nat \<Rightarrow> string \<Rightarrow> nat option" where
  "parse_hex_digits mx acc [] = Some acc"
| "parse_hex_digits mx acc (c # s) =
     (case hex_digit_value c of None \<Rightarrow> None
      | Some d \<Rightarrow> if 16 * acc + d \<le> mx then parse_hex_digits mx (16 * acc + d) s else None)"

definition parse_hex_unsigned :: "nat \<Rightarrow> string \<Rightarrow> nat option" where
  "parse_hex_unsigned mx s =
     (let s = (case s of c # t \<Rightarrow> if c = CHR ''+'' then t else s | [] \<Rightarrow> s) in
      if s = [] then None else parse_hex_digits mx 0 s)"

text \<open>\<open>str::parse\<close> for \<open>i64\<close>.\<close>

definition parse_signed64 :: "string \<Rightarrow> i64 option" where
  "parse_signed64 s =
     (case s of
        c # t \<Rightarrow>
          if c = CHR ''-''
          then if t = [] then None else map_option (\<lambda>n. - word_of_nat n) (parse_digits (2 ^ 63) 0 t)
          else map_option word_of_nat (parse_unsigned (2 ^ 63 - 1) s)
      | [] \<Rightarrow> None)"

definition invalid_value :: "string \<Rightarrow> ewf_error" where
  "invalid_value label = Malformed (''invalid EWF2 single files '' @ label @ '' value'')"

definition out_of_bounds :: "string \<Rightarrow> ewf_error" where
  "out_of_bounds label = Malformed (''EWF2 single files '' @ label @ '' out of bounds'')"

definition catalog_hex_u64 :: "string \<Rightarrow> string \<Rightarrow> u64 result" where
  "catalog_hex_u64 v label = ok_or (map_option word_of_nat (parse_hex_unsigned (2 ^ 64 - 1) v)) (invalid_value label)"

definition catalog_hex_usize :: "string \<Rightarrow> string \<Rightarrow> nat result" where
  "catalog_hex_usize v label = try_bind (catalog_hex_u64 v label) (\<lambda>n. Inr (unat n))"

definition catalog_u64 :: "string \<Rightarrow> string \<Rightarrow> u64 result" where
  "catalog_u64 v label = ok_or (map_option word_of_nat (parse_unsigned (2 ^ 64 - 1) v)) (invalid_value label)"

definition catalog_u32 :: "string \<Rightarrow> string \<Rightarrow> u32 result" where
  "catalog_u32 v label = try_bind (catalog_u64 v label) (\<lambda>n.
     if unat n < 2 ^ 32 then Inr (ucast n) else Inl (out_of_bounds label))"

definition catalog_i64 :: "string \<Rightarrow> string \<Rightarrow> i64 result" where
  "catalog_i64 v label = ok_or (parse_signed64 v) (invalid_value label)"

definition catalog_i32 :: "string \<Rightarrow> string \<Rightarrow> i32 result" where
  "catalog_i32 v label = try_bind (catalog_i64 v label) (\<lambda>n.
     if - (2 ^ 31) \<le> sint n \<and> sint n < 2 ^ 31 then Inr (scast n) else Inl (out_of_bounds label))"

definition catalog_non_negative_i32 :: "string \<Rightarrow> string \<Rightarrow> i32 result" where
  "catalog_non_negative_i32 v label = try_bind (catalog_i32 v label) (\<lambda>n.
     if sint n < 0 then Inl (out_of_bounds label) else Inr n)"

definition catalog_number_pair :: "string \<Rightarrow> string \<Rightarrow> (u64 \<times> nat) result" where
  "catalog_number_pair line label =
     (case split_on tab line of
        [a, b] \<Rightarrow>
          try_bind (catalog_u64 a label) (\<lambda>first.
          try_bind (catalog_u64 b label) (\<lambda>second. Inr (first, unat second)))
      | [_] \<Rightarrow> Inl (Malformed (label @ '' is missing second value''))
      | [] \<Rightarrow> Inl (Malformed (label @ '' is missing first value''))
      | _ \<Rightarrow> Inl (Malformed (label @ '' has too many values'')))"

definition category_entry_count :: "string \<Rightarrow> string \<Rightarrow> nat result" where
  "category_entry_count line label =
     try_bind (catalog_number_pair line label) (\<lambda>(first, second).
     if second \<noteq> 1 then Inl (Malformed (label @ '' has unsupported category count shape'')) else Inr (unat first))"

definition child_entry_count :: "string \<Rightarrow> string \<Rightarrow> nat result" where
  "child_entry_count line label =
     try_bind (catalog_number_pair line label) (\<lambda>(first, second).
     if first \<noteq> 0 then Inl (Malformed (label @ '' has unsupported child count shape'')) else Inr second)"

definition file_entry_child_count :: "string \<Rightarrow> string \<Rightarrow> nat result" where
  "file_entry_child_count line label =
     try_bind (catalog_number_pair line label) (\<lambda>(parent_value, child_count).
     if parent_value \<noteq> 0 \<and> parent_value \<noteq> 26 then Inl (Malformed (label @ '' has unsupported parent value''))
     else Inr child_count)"

section \<open>Values\<close>

definition parse_serialized_base16_string :: "string \<Rightarrow> string \<Rightarrow> string option result" where
  "parse_serialized_base16_string v label =
     (if \<not> list_all (\<lambda>c. hex_digit_value c \<noteq> None) v
      then Inl (Malformed (''invalid EWF2 single files '' @ label @ '' hexadecimal value''))
      else Inr (if list_all (\<lambda>c. c = CHR ''0'') v then None else Some (lowercase v)))"

definition parse_single_char :: "string \<Rightarrow> string \<Rightarrow> nat result" where
  "parse_single_char v label =
     (case chars_of v of
        [] \<Rightarrow> Inl (Malformed (label @ '' is empty''))
      | [c] \<Rightarrow> Inr c
      | _ \<Rightarrow> Inl (Malformed (label @ '' has more than one character'')))"

text \<open>An extent: an \<open>S\<close> when it is sparse, and two hexadecimal numbers.\<close>

definition parse_extent :: "string list \<Rightarrow> (file_extent \<times> string list) result" where
  "parse_extent parts =
     (let (sparse, parts) = (if parts \<noteq> [] \<and> hd parts = ''S'' then (True, tl parts) else (False, parts)) in
      case parts of
        [] \<Rightarrow> Inl (Malformed ''EWF2 single files extent missing offset'')
      | a # parts \<Rightarrow>
          try_bind (catalog_hex_u64 a ''extent offset'') (\<lambda>data_offset.
          case parts of
            [] \<Rightarrow> Inl (Malformed ''EWF2 single files extent missing size'')
          | b # parts \<Rightarrow>
              try_bind (catalog_hex_u64 b ''extent size'') (\<lambda>data_size.
              Inr (\<lparr>ex_data_offset = data_offset, ex_data_size = data_size, ex_sparse = sparse\<rparr>, parts))))"

lemma parse_extent_shorter: "parse_extent parts = Inr (e, rest) \<Longrightarrow> length rest < length parts"
  by (cases parts) (auto simp: parse_extent_def try_bind_def Let_def split: if_splits list.splits sum.splits)

function parse_extent_list :: "string list \<Rightarrow> file_extent list result" where
  "parse_extent_list parts =
     (if parts = [] then Inr []
      else try_bind (parse_extent parts) (\<lambda>r.
        try_bind (parse_extent_list (snd r)) (\<lambda>extents. Inr (fst r # extents))))"
  by pat_completeness auto
termination by (relation "measure length") (auto dest: parse_extent_shorter)

declare parse_extent_list.simps [simp del]

definition parse_binary_extents :: "string \<Rightarrow> file_extent list result" where
  "parse_binary_extents v =
     (case filter (\<lambda>part. part \<noteq> []) (split_on (CHR '' '') v) of
        [] \<Rightarrow> Inl (Malformed ''EWF2 single files extents missing count'')
      | count # parts \<Rightarrow>
          try_bind (catalog_hex_usize count ''extent count'') (\<lambda>extent_count.
          try_bind (parse_extent_list parts) (\<lambda>extents.
          if length extents \<noteq> extent_count then Inl (Malformed ''EWF2 single files extent count mismatch'')
          else Inr extents)))"

definition parse_short_name :: "string \<Rightarrow> string result" where
  "parse_short_name v =
     (case split_on (CHR '' '') v of
        [declared, short_name] \<Rightarrow>
          try_bind (catalog_u64 declared ''short name size'') (\<lambda>declared_size.
          if unat declared_size \<noteq> length short_name + 1
          then Inl (Malformed ''short name size does not match value size'')
          else Inr short_name)
      | [] \<Rightarrow> Inl (Malformed ''short name is missing size'')
      | [_] \<Rightarrow> Inl (Malformed ''short name is missing value'')
      | _ \<Rightarrow> Inl (Malformed ''short name has unsupported value count''))"

text \<open>The characters that are not white space.\<close>

function without_whitespace :: "string \<Rightarrow> string" where
  "without_whitespace s =
     (if s = [] then []
      else if ws_length s = 0 then hd s # without_whitespace (tl s)
      else without_whitespace (drop (ws_length s) s))"
  by pat_completeness auto
termination by (relation "measure length") (auto simp: neq_Nil_conv)

declare without_whitespace.simps [simp del]

fun parse_hex_bytes :: "string \<Rightarrow> bytes option" where
  "parse_hex_bytes (a # b # s) =
     (case parse_hex_unsigned 255 [a, b] of
        None \<Rightarrow> None | Some n \<Rightarrow> map_option (\<lambda>bs. word_of_nat n # bs) (parse_hex_bytes s))"
| "parse_hex_bytes _ = Some []"

definition parse_hex_byte_stream :: "string \<Rightarrow> string \<Rightarrow> bytes result" where
  "parse_hex_byte_stream v label =
     (let hex = without_whitespace v in
      if length hex mod 2 \<noteq> 0
      then Inl (Malformed (''EWF2 single files '' @ label @ '' has odd hexadecimal size''))
      else ok_or (if list_all (\<lambda>c. code c < 128) hex then parse_hex_bytes hex else None)
        (Malformed (''invalid EWF2 single files '' @ label @ '' hexadecimal value'')))"

section \<open>Extended attributes\<close>

definition EXTENDED_ATTRIBUTES_HEADER :: bytes where
  "EXTENDED_ATTRIBUTES_HEADER =
     [0x00, 0x00, 0x00, 0x00, 0x01, 0x0b, 0x00, 0x00, 0x00, 0x01, 0x00, 0x00, 0x00, 0x41, 0x00, 0x74,
      0x00, 0x74, 0x00, 0x72, 0x00, 0x69, 0x00, 0x62, 0x00, 0x75, 0x00, 0x74, 0x00, 0x65, 0x00, 0x73,
      0x00, 0x00, 0x00, 0x00, 0x00]"

definition decode_optional_utf16le_string :: "bytes \<Rightarrow> string \<Rightarrow> string option result" where
  "decode_optional_utf16le_string data label =
     (if data = [] then Inr None
      else if length data mod 2 \<noteq> 0 then Inl (Malformed (label @ '' has odd UTF-16 size''))
      else try_bind (ok_or (from_utf16 (utf16le_units data)) (Malformed (label @ '' is not valid UTF-16LE''))) (\<lambda>text.
        let text = (if text \<noteq> [] \<and> last text = char_of (0 :: nat) then butlast text else text) in
        Inr (if text = [] then None else Some text)))"

record parsed_extended_attribute =
  pa_name :: "string option"
  pa_value :: "string option"
  pa_is_branch :: bool

definition truncated_attribute :: ewf_error where
  "truncated_attribute = Malformed ''EWF2 single files extended attribute is truncated''"

definition parse_extended_attribute_record :: "bytes \<Rightarrow> (parsed_extended_attribute \<times> nat) result" where
  "parse_extended_attribute_record data =
     (if length data < 13 then Inl truncated_attribute
      else let is_branch = data ! 4 \<noteq> 0;
          value_offset = 13 + 2 * unat (u32_at data 5);
          end_offset = value_offset + 2 * unat (u32_at data 9) in
        if length data < end_offset then Inl truncated_attribute
        else
        try_bind (decode_optional_utf16le_string (slice data 13 value_offset) ''extended attribute name'') (\<lambda>name.
        try_bind (decode_optional_utf16le_string (slice data value_offset end_offset) ''extended attribute value'') (\<lambda>v.
        Inr (\<lparr>pa_name = name, pa_value = v, pa_is_branch = is_branch\<rparr>, end_offset))))"

lemma attribute_record_size: "parse_extended_attribute_record data = Inr (a, n) \<Longrightarrow> 13 \<le> n \<and> n \<le> length data"
  by (auto simp: parse_extended_attribute_record_def try_bind_def Let_def split: if_splits sum.splits)

function parse_attribute_records :: "bytes \<Rightarrow> single_file_attribute list result" where
  "parse_attribute_records data =
     (if data = [] then Inr []
      else try_bind (parse_extended_attribute_record data) (\<lambda>r.
        try_bind (parse_attribute_records (drop (snd r) data)) (\<lambda>attributes.
        Inr (if pa_is_branch (fst r) then attributes
             else \<lparr>at_name = pa_name (fst r), at_value = pa_value (fst r)\<rparr> # attributes))))"
  by pat_completeness auto
termination by (relation "measure length") (auto dest!: attribute_record_size)

declare parse_attribute_records.simps [simp del]

definition parse_extended_attributes :: "string \<Rightarrow> single_file_attribute list result" where
  "parse_extended_attributes v =
     try_bind (parse_hex_byte_stream v ''extended attributes'') (\<lambda>data.
     if data = [] then Inr []
     else if \<not> starts_with data EXTENDED_ATTRIBUTES_HEADER
     then Inl (Malformed ''EWF2 single files extended attributes header is unsupported'')
     else parse_attribute_records data)"

section \<open>Rows\<close>

text \<open>A value that is parsed into a field: \<open>set\<close> stores what \<open>p\<close> makes of it.\<close>

definition store :: "'a result \<Rightarrow> ('a \<Rightarrow> 'r) \<Rightarrow> 'r result" where
  "store p set_field = try_bind p (\<lambda>x. Inr (set_field x))"

definition split_typed_values :: "string list \<Rightarrow> string \<Rightarrow> string list" where
  "split_typed_values types row =
     (let values = take (length types) (split_on tab row) in
      values @ replicate (length types - length values) [])"

definition split_exact_typed_values :: "string list \<Rightarrow> string \<Rightarrow> string \<Rightarrow> string list result" where
  "split_exact_typed_values types row label =
     (let cells = split_on tab row in
      if length cells \<noteq> length types
      then Inl (Malformed (label @ '' value count does not match type count''))
      else Inr cells)"

definition parse_type_line :: "string \<Rightarrow> string \<Rightarrow> string list result" where
  "parse_type_line line label =
     (let types = split_on tab line in
      if list_ex (\<lambda>t. t = []) types then Inl (Malformed (label @ '' has empty type'')) else Inr types)"

definition source_value :: "catalog_source \<Rightarrow> string \<times> string \<Rightarrow> catalog_source result" where
  "source_value source f =
     (case f of (t, v) \<Rightarrow>
      if v = [] then Inr source
      else if t = ''ah'' then store (parse_serialized_base16_string v ''source MD5 hash'') (\<lambda>x. source\<lparr>cs_md5 := x\<rparr>)
      else if t = ''aq'' then store (catalog_i64 v ''source acquisition time'') (\<lambda>x. source\<lparr>cs_acquisition_time := Some x\<rparr>)
      else if t = ''do'' then Inr (source\<lparr>cs_domain := Some v\<rparr>)
      else if t = ''dt'' then store (parse_single_char v ''source drive type'') (\<lambda>x. source\<lparr>cs_drive_type := Some x\<rparr>)
      else if t = ''ev'' then Inr (source\<lparr>cs_evidence_number := Some v\<rparr>)
      else if t = ''gu'' then store (parse_serialized_base16_string v ''source device GUID'') (\<lambda>x. source\<lparr>cs_device_guid := x\<rparr>)
      else if t = ''id'' then store (catalog_non_negative_i32 v ''source identifier'') (\<lambda>x. source\<lparr>cs_identifier := Some x\<rparr>)
      else if t = ''ip'' then Inr (source\<lparr>cs_ip_address := Some v\<rparr>)
      else if t = ''lo'' then store (catalog_i64 v ''source logical offset'') (\<lambda>x. source\<lparr>cs_logical_offset := Some x\<rparr>)
      else if t = ''loc'' then Inr (source\<lparr>cs_location := Some v\<rparr>)
      else if t = ''ma'' then store (parse_serialized_base16_string v ''source MAC address'') (\<lambda>x. source\<lparr>cs_mac_address := x\<rparr>)
      else if t = ''mfr'' then Inr (source\<lparr>cs_manufacturer := Some v\<rparr>)
      else if t = ''mo'' then Inr (source\<lparr>cs_model := Some v\<rparr>)
      else if t = ''n'' then Inr (source\<lparr>cs_name := Some v\<rparr>)
      else if t = ''pgu''
      then store (parse_serialized_base16_string v ''source primary device GUID'') (\<lambda>x. source\<lparr>cs_primary_device_guid := x\<rparr>)
      else if t = ''po'' then store (catalog_i64 v ''source physical offset'') (\<lambda>x. source\<lparr>cs_physical_offset := Some x\<rparr>)
      else if t = ''se'' then Inr (source\<lparr>cs_serial_number := Some v\<rparr>)
      else if t = ''sh'' then store (parse_serialized_base16_string v ''source SHA1 hash'') (\<lambda>x. source\<lparr>cs_sha1 := x\<rparr>)
      else if t = ''tb'' then store (catalog_u64 v ''source size'') (\<lambda>x. source\<lparr>cs_size := Some x\<rparr>)
      else Inr source)"

definition parse_source_row :: "string list \<Rightarrow> string \<Rightarrow> catalog_source result" where
  "parse_source_row types row =
     try_bind (split_exact_typed_values types row ''EWF2 source row'') (\<lambda>cells.
     try_fold source_value catalog_source_default (zip types cells))"

definition subject_value :: "catalog_subject \<Rightarrow> string \<times> string \<Rightarrow> catalog_subject result" where
  "subject_value subject f =
     (case f of (t, v) \<Rightarrow>
      if v = [] then Inr subject
      else if t = ''id'' then store (catalog_u32 v ''subject identifier'') (\<lambda>x. subject\<lparr>su_identifier := Some x\<rparr>)
      else if t = ''n'' then Inr (subject\<lparr>su_name := Some v\<rparr>)
      else Inr subject)"

definition parse_subject_row :: "string list \<Rightarrow> string \<Rightarrow> catalog_subject result" where
  "parse_subject_row types row =
     try_bind (split_exact_typed_values types row ''EWF2 subject row'') (\<lambda>cells.
     try_fold subject_value catalog_subject_default (zip types cells))"

definition permission_value :: "catalog_permission \<Rightarrow> string \<times> string \<Rightarrow> catalog_permission result" where
  "permission_value permission f =
     (case f of (t, v) \<Rightarrow>
      if v = [] then Inr permission
      else if t = ''n'' then Inr (permission\<lparr>pe_name := Some v\<rparr>)
      else if t = ''nta'' then store (catalog_u32 v ''permission access mask'') (\<lambda>x. permission\<lparr>pe_access_mask := Some x\<rparr>)
      else if t = ''nti'' then store (catalog_u32 v ''permission ACE flags'') (\<lambda>x. permission\<lparr>pe_ace_flags := Some x\<rparr>)
      else if t \<in> {''pr'', ''pt''}
      then store (catalog_u32 v ''permission property type'') (\<lambda>x. permission\<lparr>pe_property_type := Some x\<rparr>)
      else if t = ''s'' then Inr (permission\<lparr>pe_identifier := Some v\<rparr>)
      else Inr permission)"

definition parse_permission_row :: "string list \<Rightarrow> string \<Rightarrow> catalog_permission result" where
  "parse_permission_row types row =
     try_bind (split_exact_typed_values types row ''EWF2 permission row'') (\<lambda>cells.
     try_fold permission_value catalog_permission_default (zip types cells))"

definition require_permission_group_type :: "catalog_permission \<Rightarrow> string \<Rightarrow> unit result" where
  "require_permission_group_type permission label =
     (if pe_property_type permission \<noteq> Some 10
      then Inl (Malformed (label @ '' has unsupported permission group type'')) else Inr ())"

definition permission_group_from_permission :: "catalog_permission \<Rightarrow> catalog_permission_group" where
  "permission_group_from_permission permission = catalog_permission.extend permission (catalog_permission_group.fields [])"

text \<open>\<open>apply_entry_value\<close>: one cell of an entry's row.\<close>

definition apply_entry_value :: "catalog_entry \<Rightarrow> string \<times> string \<Rightarrow> catalog_entry result" where
  "apply_entry_value e f =
     (case f of (t, v) \<Rightarrow>
      if v = [] then Inr (if t = ''p'' then e\<lparr>ce_type := Some FileEntryFile\<rparr> else e)
      else if t = ''ac'' then store (catalog_i64 v ''access time'') (\<lambda>x. e\<lparr>ce_access_time := Some x\<rparr>)
      else if t = ''be'' then store (parse_binary_extents v) (\<lambda>x. e\<lparr>fe_extents := x\<rparr>)
      else if t = ''cid'' then store (catalog_u32 v ''record type'') (\<lambda>x. e\<lparr>ce_record_type := Some x\<rparr>)
      else if t = ''cr'' then store (catalog_i64 v ''creation time'') (\<lambda>x. e\<lparr>ce_creation_time := Some x\<rparr>)
      else if t = ''dl'' then store (catalog_i64 v ''deletion time'') (\<lambda>x. e\<lparr>ce_deletion_time := Some x\<rparr>)
      else if t = ''du'' then store (catalog_i64 v ''duplicate data offset'') (\<lambda>x. e\<lparr>fe_duplicate_data_offset := Some x\<rparr>)
      else if t = ''ea'' then store (parse_extended_attributes v) (\<lambda>x. e\<lparr>ce_attributes := x\<rparr>)
      else if t = ''ha'' then store (parse_serialized_base16_string v ''MD5 hash'') (\<lambda>x. e\<lparr>ce_md5 := x\<rparr>)
      else if t = ''id'' then store (catalog_u64 v ''identifier'') (\<lambda>x. e\<lparr>ce_identifier := Some x\<rparr>)
      else if t = ''lo'' then store (catalog_i64 v ''logical offset'') (\<lambda>x. e\<lparr>ce_logical_offset := Some x\<rparr>)
      else if t = ''ls'' then store (catalog_u64 v ''file size'') (\<lambda>x. e\<lparr>fe_size := Some x\<rparr>)
      else if t = ''mid'' then store (parse_serialized_base16_string v ''GUID'') (\<lambda>x. e\<lparr>ce_guid := x\<rparr>)
      else if t = ''mo''
      then store (catalog_i64 v ''entry modification time'') (\<lambda>x. e\<lparr>ce_entry_modification_time := Some x\<rparr>)
      else if t = ''n'' then Inr (e\<lparr>ce_name := Some v\<rparr>)
      else if t = ''opr'' then store (catalog_u32 v ''entry flags'') (\<lambda>x. e\<lparr>fe_flags := Some x\<rparr>)
      else if t = ''p''
      then Inr (e\<lparr>ce_type := Some (if v \<in> {''f'', ''0''} then FileEntryFile
          else if v \<in> {''d'', ''1''} then FileEntryDirectory else FileEntryUnknown)\<rparr>)
      else if t = ''pm'' then store (catalog_i32 v ''permission group index'') (\<lambda>x. e\<lparr>ce_permission_group_index := Some x\<rparr>)
      else if t = ''po'' then store (catalog_i64 v ''physical offset'') (\<lambda>x. e\<lparr>ce_physical_offset := Some x\<rparr>)
      else if t = ''sha'' then store (parse_serialized_base16_string v ''SHA1 hash'') (\<lambda>x. e\<lparr>ce_sha1 := x\<rparr>)
      else if t = ''snh'' then store (parse_short_name v) (\<lambda>x. e\<lparr>ce_short_name := Some x\<rparr>)
      else if t = ''src'' then store (catalog_non_negative_i32 v ''source identifier'') (\<lambda>x. e\<lparr>ce_source_identifier := Some x\<rparr>)
      else if t = ''sub'' then store (catalog_u32 v ''subject identifier'') (\<lambda>x. e\<lparr>ce_subject_identifier := Some x\<rparr>)
      else if t = ''wr'' then store (catalog_i64 v ''modification time'') (\<lambda>x. e\<lparr>ce_modification_time := Some x\<rparr>)
      else Inr e)"

section \<open>Lines\<close>

text \<open>
  \<open>slice::split\<close> on a code unit, and the lines of a text with the units of those that are
  not valid UTF-16, by their line numbers.
\<close>

fun split_units :: "u16 \<Rightarrow> u16 list \<Rightarrow> u16 list list" where
  "split_units u [] = [[]]"
| "split_units u (x # s) =
     (if x = u then [] # split_units u s
      else case split_units u s of [] \<Rightarrow> [[x]] | p # ps \<Rightarrow> (x # p) # ps)"

text \<open>\<open>String::from_utf16_lossy\<close>.\<close>

fun decode_utf16_lossy :: "nat list \<Rightarrow> nat list" where
  "decode_utf16_lossy [] = []"
| "decode_utf16_lossy (u # us) =
     (if u < 0xD800 \<or> 0xE000 \<le> u then u # decode_utf16_lossy us
      else if 0xDC00 \<le> u then 0xFFFD # decode_utf16_lossy us
      else case us of
        [] \<Rightarrow> [0xFFFD]
      | v # vs \<Rightarrow>
          if 0xDC00 \<le> v \<and> v < 0xE000
          then (0x10000 + (u - 0xD800) * 1024 + (v - 0xDC00)) # decode_utf16_lossy vs
          else 0xFFFD # decode_utf16_lossy us)"

definition from_utf16_lossy :: "u16 list \<Rightarrow> string" where
  "from_utf16_lossy us = string_of_chars (decode_utf16_lossy (map unat us))"

definition decode_raw_line :: "u16 list \<Rightarrow> string \<times> u16 list option" where
  "decode_raw_line raw =
     (let raw = (if raw \<noteq> [] \<and> last raw = 13 then butlast raw else raw) in
      case from_utf16 raw of Some line \<Rightarrow> (line, None) | None \<Rightarrow> (from_utf16_lossy raw, Some raw))"

type_synonym invalid_lines = "(nat \<times> u16 list) list"

definition decode_utf16le_lines :: "bytes \<Rightarrow> (string list \<times> invalid_lines) result" where
  "decode_utf16le_lines data =
     (if length data mod 2 \<noteq> 0 then Inl (Malformed ''EWF2 single files data has odd UTF-16 size'')
      else let units = utf16le_units data;
          units = (case strip_prefix [0xfeff] units of Some us \<Rightarrow> us | None \<Rightarrow> units);
          decoded = map decode_raw_line (split_units 10 units) in
        Inr (map fst decoded,
          concat (map (\<lambda>(i, line, raw). case raw of Some r \<Rightarrow> [(i, r)] | None \<Rightarrow> []) (enumerate 0 decoded))))"

definition get_line :: "string list \<Rightarrow> nat \<Rightarrow> string \<Rightarrow> string result" where
  "get_line lns i label = ok_or (list_get lns i) (Malformed (label @ '' is truncated''))"

definition require_empty_category_terminator :: "string list \<Rightarrow> nat \<Rightarrow> string \<Rightarrow> unit result" where
  "require_empty_category_terminator lns i label =
     try_bind (get_line lns i label) (\<lambda>line. if line \<noteq> [] then Inl (Malformed (label @ '' is not empty'')) else Inr ())"

definition require_category_at :: "string list \<Rightarrow> nat \<Rightarrow> string \<Rightarrow> string \<Rightarrow> unit result" where
  "require_category_at lns i name label =
     try_bind (get_line lns i (''EWF2 single files '' @ label)) (\<lambda>line.
     if line \<noteq> name then Inl (Malformed (''EWF2 single files '' @ label @ '' is missing or out of order'')) else Inr ())"

section \<open>Categories\<close>

text \<open>
  \<open>n\<close> rows that have no children, from row \<open>i\<close> at line \<open>cursor\<close>: \<open>p\<close> parses a
  row and \<open>check\<close> accepts the one with its index.
\<close>

fun parse_leaf_rows ::
    "string \<Rightarrow> (string \<Rightarrow> 'r result) \<Rightarrow> (nat \<Rightarrow> 'r \<Rightarrow> unit result) \<Rightarrow> string list \<Rightarrow> nat \<Rightarrow> nat \<Rightarrow> nat
      \<Rightarrow> ('r list \<times> nat) result" where
  "parse_leaf_rows name p check lns i 0 cursor = Inr ([], cursor)"
| "parse_leaf_rows name p check lns i (Suc n) cursor =
     try_bind (get_line lns cursor (''EWF2 '' @ name @ '' child count'')) (\<lambda>line.
     try_bind (child_entry_count line (''EWF2 '' @ name @ '' child count'')) (\<lambda>child_count.
     if child_count \<noteq> 0 then Inl (Malformed (''EWF2 '' @ name @ '' entries cannot have children''))
     else
     try_bind (get_line lns (cursor + 1) (''EWF2 '' @ name @ '' row'')) (\<lambda>line.
     try_bind (p line) (\<lambda>row.
     try_bind (check i row) (\<lambda>_.
     try_bind (parse_leaf_rows name p check lns (i + 1) n (cursor + 2)) (\<lambda>(rows, cursor).
     Inr (row # rows, cursor)))))))"

definition parse_category_header :: "string list \<Rightarrow> nat \<Rightarrow> string \<Rightarrow> (string list \<times> nat \<times> nat) result" where
  "parse_category_header lns i label =
     try_bind (get_line lns (i + 1) ''EWF2 category count'') (\<lambda>line.
     try_bind (category_entry_count line ''EWF2 category count'') (\<lambda>entry_count.
     try_bind (get_line lns (i + 2) ''EWF2 category types'') (\<lambda>line.
     try_bind (parse_type_line line (''EWF2 '' @ label @ '' category types'')) (\<lambda>types.
     try_bind (get_line lns (i + 3) ''EWF2 category copy count'') (\<lambda>line.
     try_bind (child_entry_count line ''EWF2 category copy count'') (\<lambda>copy_entry_count.
     if copy_entry_count \<noteq> entry_count
     then Inl (Malformed (''EWF2 '' @ label @ '' category entry count mismatch''))
     else Inr (types, entry_count, i + 4)))))))"

definition check_source_identifier :: "nat \<Rightarrow> catalog_source \<Rightarrow> unit result" where
  "check_source_identifier i source =
     (if 2 ^ 31 \<le> i + 1 then Inl (Malformed ''EWF2 source identifier index overflow'')
      else if cs_identifier source \<noteq> Some (word_of_nat (i + 1))
      then Inl (Malformed ''EWF2 source identifier does not match source index'') else Inr ())"

definition parse_sources_category :: "string list \<Rightarrow> nat \<Rightarrow> (catalog_source list \<times> nat) result" where
  "parse_sources_category lns i =
     try_bind (require_category_at lns i ''srce'' ''source category'') (\<lambda>_.
     try_bind (parse_category_header lns i ''srce'') (\<lambda>(types, entry_count, cursor).
     try_bind (get_line lns cursor ''EWF2 source root'') (\<lambda>line.
     try_bind (parse_source_row types line) (\<lambda>root.
     try_bind (parse_leaf_rows ''source'' (parse_source_row types) check_source_identifier lns 0 entry_count (cursor + 1))
       (\<lambda>(sources, cursor).
     try_bind (require_empty_category_terminator lns cursor ''EWF2 single files source category terminator'') (\<lambda>_.
     Inr (root # sources, cursor + 1)))))))"

definition parse_subjects_category :: "string list \<Rightarrow> nat \<Rightarrow> (catalog_subject list \<times> nat) result" where
  "parse_subjects_category lns i =
     try_bind (require_category_at lns i ''sub'' ''subject category'') (\<lambda>_.
     try_bind (parse_category_header lns i ''sub'') (\<lambda>(types, entry_count, cursor).
     try_bind (get_line lns cursor ''EWF2 subject root'') (\<lambda>line.
     try_bind (parse_subject_row types line) (\<lambda>root.
     try_bind (parse_leaf_rows ''subject'' (parse_subject_row types) (\<lambda>_ _. Inr ()) lns 0 entry_count (cursor + 1))
       (\<lambda>(subjects, cursor).
     try_bind (require_empty_category_terminator lns cursor ''EWF2 single files subject category terminator'') (\<lambda>_.
     Inr (root # subjects, cursor + 1)))))))"

fun parse_permission_groups :: "string list \<Rightarrow> string list \<Rightarrow> nat \<Rightarrow> nat \<Rightarrow> (catalog_permission_group list \<times> nat) result" where
  "parse_permission_groups lns types 0 cursor = Inr ([], cursor)"
| "parse_permission_groups lns types (Suc n) cursor =
     try_bind (get_line lns cursor ''EWF2 permission group child count'') (\<lambda>line.
     try_bind (child_entry_count line ''EWF2 permission group child count'') (\<lambda>permission_count.
     try_bind (get_line lns (cursor + 1) ''EWF2 permission group row'') (\<lambda>line.
     try_bind (parse_permission_row types line) (\<lambda>group_permission.
     try_bind (require_permission_group_type group_permission ''EWF2 permission group row'') (\<lambda>_.
     try_bind (parse_leaf_rows ''permission'' (parse_permission_row types) (\<lambda>_ _. Inr ()) lns 0 permission_count (cursor + 2))
       (\<lambda>(permissions, cursor).
     try_bind (parse_permission_groups lns types n cursor) (\<lambda>(groups, cursor).
     Inr ((permission_group_from_permission group_permission)\<lparr>pg_permissions := permissions\<rparr> # groups, cursor))))))))"

definition parse_permission_groups_category :: "string list \<Rightarrow> nat \<Rightarrow> (catalog_permission_group list \<times> nat) result" where
  "parse_permission_groups_category lns i =
     try_bind (require_category_at lns i ''perm'' ''permission category'') (\<lambda>_.
     try_bind (parse_category_header lns i ''perm'') (\<lambda>(types, entry_count, cursor).
     try_bind (get_line lns cursor ''EWF2 permission category root'') (\<lambda>line.
     try_bind (parse_permission_row types line) (\<lambda>root_permission.
     try_bind (require_permission_group_type root_permission ''EWF2 permission category root'') (\<lambda>_.
     try_bind (parse_permission_groups lns types entry_count (cursor + 1)) (\<lambda>(groups, cursor).
     try_bind (require_empty_category_terminator lns cursor ''EWF2 single files permission category terminator'') (\<lambda>_.
     Inr (groups, cursor + 1))))))))"

text \<open>The total size of the data stands in the first column of type \<open>tb\<close>.\<close>

definition record_data_size :: "string list \<Rightarrow> string list \<Rightarrow> u64 option result" where
  "record_data_size types cells =
     (case find (\<lambda>(i, t). t = ''tb'') (enumerate 0 types) of
        None \<Rightarrow> Inr None
      | Some (i, _) \<Rightarrow>
          if i < length cells \<and> cells ! i \<noteq> []
          then try_bind (catalog_u64 (cells ! i) ''record data size'') (\<lambda>n. Inr (Some n)) else Inr None)"

definition parse_record_category :: "string list \<Rightarrow> nat \<Rightarrow> (u64 option \<times> nat) result" where
  "parse_record_category lns i =
     try_bind (require_category_at lns i ''rec'' ''record category'') (\<lambda>_.
     try_bind (get_line lns (i + 1) ''EWF2 record category types'') (\<lambda>line.
     try_bind (parse_type_line line ''EWF2 record category types'') (\<lambda>types.
     try_bind (get_line lns (i + 2) ''EWF2 record category values'') (\<lambda>row.
     try_bind (require_empty_category_terminator lns (i + 3) ''EWF2 single files record category terminator'') (\<lambda>_.
     try_bind (record_data_size types (split_on tab row)) (\<lambda>data_size.
     Inr (data_size, i + 4)))))))"

section \<open>The tree of entries\<close>

text \<open>
  The fields of a line that is not valid UTF-16: only the name may be broken, and its code
  units are kept.
\<close>

fun broken_name :: "string list \<Rightarrow> nat \<Rightarrow> u16 list list \<Rightarrow> u16 list option \<Rightarrow> u16 list option result" where
  "broken_name types i [] found = Inr found"
| "broken_name types i (field # rest) found =
     (if from_utf16 field \<noteq> None then broken_name types (i + 1) rest found
      else if list_get types i \<noteq> Some ''n'' \<or> found \<noteq> None
      then Inl (Malformed ''single files entry has invalid UTF-16 outside its name'')
      else broken_name types (i + 1) rest (Some field))"

definition apply_broken_line :: "string list \<Rightarrow> u16 list \<Rightarrow> catalog_entry \<Rightarrow> catalog_entry result" where
  "apply_broken_line types raw entry =
     try_bind (broken_name types 0 (split_units 9 raw) (ce_name_utf16 entry)) (\<lambda>found.
     if found = None then Inl (Malformed ''single files entry has invalid UTF-16 outside its name'')
     else Inr (entry\<lparr>ce_name_utf16 := found\<rparr>))"

text \<open>One entry without its children: their number, the entry and the lines still broken.\<close>

definition parse_entry_row ::
    "string list \<Rightarrow> string list \<Rightarrow> nat \<Rightarrow> invalid_lines \<Rightarrow> (nat \<times> catalog_entry \<times> invalid_lines) result" where
  "parse_entry_row lns types cursor invalid =
     try_bind (ok_or (list_get lns cursor) (Malformed ''EWF2 single file entry missing count'')) (\<lambda>line.
     try_bind (file_entry_child_count line ''EWF2 single file entry child count'') (\<lambda>child_count.
     try_bind (ok_or (list_get lns (cursor + 1)) (Malformed ''EWF2 single file entry missing values'')) (\<lambda>row.
     try_bind (try_fold apply_entry_value catalog_entry_default (zip types (split_typed_values types row))) (\<lambda>entry.
     case map_of invalid (cursor + 1) of
       None \<Rightarrow> Inr (child_count, entry, invalid)
     | Some raw \<Rightarrow>
         try_bind (apply_broken_line types raw entry) (\<lambda>entry.
         Inr (child_count, entry, filter (\<lambda>(i, _). i \<noteq> cursor + 1) invalid))))))"

text \<open>
  \<open>parse_entry\<close> calls itself for every child; \<open>depth\<close> bounds the nesting. An entry
  takes two lines, so the number of lines is a bound that is never reached.
\<close>

definition nesting_exhausted :: ewf_error where
  "nesting_exhausted = Panic ''stack overflow''"

fun parse_entries ::
    "string list \<Rightarrow> string list \<Rightarrow> nat \<Rightarrow> nat \<Rightarrow> nat \<Rightarrow> invalid_lines \<Rightarrow> (catalog_node list \<times> nat \<times> invalid_lines) result" where
  "parse_entries lns types depth 0 cursor invalid = Inr ([], cursor, invalid)"
| "parse_entries lns types 0 (Suc n) cursor invalid = Inl nesting_exhausted"
| "parse_entries lns types (Suc depth) (Suc n) cursor invalid =
     try_bind (parse_entry_row lns types cursor invalid) (\<lambda>(child_count, entry, invalid).
     try_bind (parse_entries lns types depth child_count (cursor + 2) invalid) (\<lambda>(children, cursor, invalid).
     try_bind (parse_entries lns types (Suc depth) n cursor invalid) (\<lambda>(rest, cursor, invalid).
     Inr (CatalogNode entry children # rest, cursor, invalid))))"

definition parse_entry ::
    "string list \<Rightarrow> string list \<Rightarrow> nat \<Rightarrow> invalid_lines \<Rightarrow> (catalog_node \<times> nat \<times> invalid_lines) result" where
  "parse_entry lns types cursor invalid =
     try_bind (parse_entries lns types (length lns + 1) 1 cursor invalid) (\<lambda>(nodes, cursor, invalid).
     Inr (hd nodes, cursor, invalid))"

definition parse_catalog_lines :: "string list \<Rightarrow> invalid_lines \<Rightarrow> nat \<Rightarrow> bool \<Rightarrow> catalog result" where
  "parse_catalog_lines lns invalid data_length require_record_size =
     (if list_get lns 0 \<noteq> Some ''5''
      then Inl (Malformed ''EWF2 single files data has unsupported category count'')
      else
      try_bind (parse_record_category lns 1) (\<lambda>(data_size, i).
      try_bind (parse_permission_groups_category lns i) (\<lambda>(permission_groups, i).
      try_bind (parse_sources_category lns i) (\<lambda>(sources, i).
      try_bind (parse_subjects_category lns i) (\<lambda>(subjects, i).
      try_bind (require_category_at lns i ''entry'' ''entry category'') (\<lambda>_.
      if length lns \<le> i + 2 then Inl (Malformed ''EWF2 single files entry category is truncated'')
      else
      try_bind (category_entry_count (lns ! (i + 1)) ''EWF2 single files entry count'') (\<lambda>_.
      try_bind (parse_type_line (lns ! (i + 2)) ''EWF2 single files entry category types'') (\<lambda>types.
      try_bind (case data_size of
          Some n \<Rightarrow> Inr n
        | None \<Rightarrow> if require_record_size then Inl (Malformed ''EWF1 ltree record has no total data size'')
            else Inr (word_of_nat data_length)) (\<lambda>data_size.
      try_bind (parse_entry lns types (i + 3) invalid) (\<lambda>(root, cursor, invalid).
      try_bind (require_empty_category_terminator lns cursor ''EWF2 single files entry category terminator'') (\<lambda>_.
      if invalid \<noteq> [] then Inl (Malformed ''single files data has invalid UTF-16 outside an entry name'')
      else Inr \<lparr>ca_data_size = data_size, ca_root = root, ca_sources = sources, ca_subjects = subjects,
        ca_permission_groups = permission_groups\<rparr>)))))))))))"

definition parse_single_files_data :: "bytes \<Rightarrow> bool \<Rightarrow> catalog result" where
  "parse_single_files_data data require_record_size =
     try_bind (decode_utf16le_lines data) (\<lambda>(lns, invalid).
     parse_catalog_lines lns invalid (length data) require_record_size)"

definition parse_ewf2_single_files_data :: "bytes \<Rightarrow> catalog result" where
  "parse_ewf2_single_files_data data = parse_single_files_data data False"

definition parse_ewf1_single_files_data :: "bytes \<Rightarrow> catalog result" where
  "parse_ewf1_single_files_data data = parse_single_files_data data True"

text \<open>
  The \<open>ltree\<close> section of EWF1: the digest of the text, its size and a checksum of the
  header. \<open>md5\<close> is the crate \<open>md5\<close>.
\<close>

abbreviation (input) EWF1_LTREE_HEADER_SIZE :: nat where "EWF1_LTREE_HEADER_SIZE \<equiv> 48"

definition parse_ewf1_ltree_data :: "(bytes \<Rightarrow> bytes) \<Rightarrow> bytes \<Rightarrow> catalog result" where
  "parse_ewf1_ltree_data md5 data =
     (if length data < EWF1_LTREE_HEADER_SIZE then Inl (Malformed ''EWF1 ltree section is too short'')
      else let data_end = EWF1_LTREE_HEADER_SIZE + unat (u64_at data 16) in
        if length data < data_end then Inl (Malformed ''EWF1 ltree data size exceeds section'')
        else
        try_bind (validate_adler32_checksum_value (u32_at data 24)
            (splice (take EWF1_LTREE_HEADER_SIZE data) 24 (replicate 4 0)) ''EWF1 ltree header'') (\<lambda>_.
        let text = slice data EWF1_LTREE_HEADER_SIZE data_end in
        if md5 text \<noteq> take 16 data then Inl (Malformed ''EWF1 ltree text MD5 mismatch'')
        else parse_ewf1_single_files_data text))"

section \<open>The parser is total\<close>

text \<open>
  Every error of the parser is a malformed text: it neither panics nor runs out of nesting
  depth, whatever the text.
\<close>

definition only_malformed :: "'a result \<Rightarrow> bool" where
  "only_malformed r \<longleftrightarrow> (\<forall>e. r = Inl e \<longrightarrow> (\<exists>m. e = Malformed m))"

named_theorems malformed_intros

lemma malformed_basic [malformed_intros]:
  "only_malformed (Inr x)" "only_malformed (Inl (Malformed m))" "only_malformed (ok_or r (Malformed m))"
  by (auto simp: only_malformed_def ok_or_def split: option.splits)

lemma malformed_bind [malformed_intros]:
  "only_malformed r \<Longrightarrow> (\<And>x. r = Inr x \<Longrightarrow> only_malformed (f x)) \<Longrightarrow> only_malformed (try_bind r f)"
  by (cases r) (auto simp: only_malformed_def)

lemma malformed_if [malformed_intros]: "(b \<Longrightarrow> only_malformed r) \<Longrightarrow> (\<not> b \<Longrightarrow> only_malformed s) \<Longrightarrow> only_malformed (if b then r else s)"
  by simp

lemma malformed_store [malformed_intros]: "only_malformed r \<Longrightarrow> only_malformed (store r f)"
  unfolding store_def by (intro malformed_intros)

lemma malformed_fold: "(\<And>x y. only_malformed (f x y)) \<Longrightarrow> only_malformed (try_fold f s xs)"
  by (induction xs arbitrary: s) (auto intro!: malformed_intros)

lemma malformed_numbers [malformed_intros]:
  "only_malformed (catalog_hex_u64 v l)" "only_malformed (catalog_hex_usize v l)" "only_malformed (catalog_u64 v l)"
  "only_malformed (catalog_u32 v l)" "only_malformed (catalog_i64 v l)" "only_malformed (catalog_i32 v l)"
  "only_malformed (catalog_non_negative_i32 v l)"
  unfolding catalog_hex_u64_def catalog_hex_usize_def catalog_u64_def catalog_u32_def catalog_i64_def catalog_i32_def
    catalog_non_negative_i32_def invalid_value_def out_of_bounds_def
  by (intro malformed_intros)+

lemma malformed_counts [malformed_intros]:
  "only_malformed (catalog_number_pair v l)" "only_malformed (category_entry_count v l)"
  "only_malformed (child_entry_count v l)" "only_malformed (file_entry_child_count v l)"
proof -
  show pair: "only_malformed (catalog_number_pair v l)" for v l
    by (auto simp: catalog_number_pair_def intro!: malformed_intros split: list.split)
  show "only_malformed (category_entry_count v l)" "only_malformed (child_entry_count v l)"
    "only_malformed (file_entry_child_count v l)"
    by (auto simp: category_entry_count_def child_entry_count_def file_entry_child_count_def
        intro!: malformed_intros pair split: prod.split)
qed

lemma malformed_extents [malformed_intros]: "only_malformed (parse_binary_extents v)"
proof -
  have one: "only_malformed (parse_extent parts)" for parts
    by (auto simp: parse_extent_def Let_def intro!: malformed_intros split: prod.split list.split)
  have "only_malformed (parse_extent_list parts)" for parts
    by (induction parts rule: parse_extent_list.induct) (subst parse_extent_list.simps, auto intro!: malformed_intros one)
  then show ?thesis by (auto simp: parse_binary_extents_def intro!: malformed_intros split: list.split)
qed

lemma malformed_values [malformed_intros]:
  "only_malformed (parse_serialized_base16_string v l)" "only_malformed (parse_single_char v l)"
  "only_malformed (parse_short_name v)" "only_malformed (parse_hex_byte_stream v l)"
  by (auto simp: parse_serialized_base16_string_def parse_single_char_def parse_short_name_def parse_hex_byte_stream_def
      Let_def intro!: malformed_intros split: list.split)

lemma malformed_attributes [malformed_intros]: "only_malformed (parse_extended_attributes v)"
proof -
  have string: "only_malformed (decode_optional_utf16le_string d l)" for d l
    by (auto simp: decode_optional_utf16le_string_def Let_def intro!: malformed_intros)
  have one: "only_malformed (parse_extended_attribute_record d)" for d
    by (auto simp: parse_extended_attribute_record_def truncated_attribute_def Let_def intro!: malformed_intros string)
  have "only_malformed (parse_attribute_records d)" for d
    by (induction d rule: parse_attribute_records.induct) (subst parse_attribute_records.simps, auto intro!: malformed_intros one)
  then show ?thesis by (auto simp: parse_extended_attributes_def intro!: malformed_intros)
qed

lemma malformed_rows [malformed_intros]:
  "only_malformed (parse_source_row types row)" "only_malformed (parse_subject_row types row)"
  "only_malformed (parse_permission_row types row)" "only_malformed (apply_entry_value e f)"
  unfolding parse_source_row_def parse_subject_row_def parse_permission_row_def apply_entry_value_def
    split_exact_typed_values_def source_value_def subject_value_def permission_value_def Let_def case_prod_beta
  by (intro malformed_intros malformed_fold)+

lemma malformed_lines [malformed_intros]:
  "only_malformed (get_line lns i l)" "only_malformed (require_empty_category_terminator lns i l)"
  "only_malformed (require_category_at lns i n l)" "only_malformed (parse_type_line v l)"
  "only_malformed (require_permission_group_type q l)" "only_malformed (parse_category_header lns i l)"
  unfolding get_line_def require_empty_category_terminator_def require_category_at_def parse_type_line_def
    require_permission_group_type_def parse_category_header_def Let_def
  by (intro malformed_intros)+

lemma malformed_leaf_rows:
  assumes "\<And>v. only_malformed (p v)" "\<And>i r. only_malformed (check i r)"
  shows "only_malformed (parse_leaf_rows name p check lns i n cursor)"
  by (induction n arbitrary: i cursor) (auto intro!: malformed_intros assms split: prod.split)

lemma malformed_categories [malformed_intros]:
  "only_malformed (parse_sources_category lns i)" "only_malformed (parse_subjects_category lns i)"
  "only_malformed (parse_permission_groups_category lns i)" "only_malformed (parse_record_category lns i)"
proof -
  have check: "only_malformed (check_source_identifier k source)" for k source
    by (auto simp: check_source_identifier_def intro!: malformed_intros)
  have size: "only_malformed (record_data_size types cells)" for types cells
    by (auto simp: record_data_size_def intro!: malformed_intros split: option.split prod.split)
  have groups: "only_malformed (parse_permission_groups lns types n cursor)" for types n cursor
    by (induction n arbitrary: cursor) (auto intro!: malformed_intros malformed_leaf_rows split: prod.split)
  show "only_malformed (parse_sources_category lns i)" "only_malformed (parse_subjects_category lns i)"
    "only_malformed (parse_permission_groups_category lns i)" "only_malformed (parse_record_category lns i)"
    unfolding parse_sources_category_def parse_subjects_category_def parse_permission_groups_category_def
      parse_record_category_def
    by (auto intro!: malformed_intros malformed_leaf_rows check size groups split: prod.split)
qed

lemma malformed_entry_row: "only_malformed (parse_entry_row lns types cursor invalid)"
proof -
  have name: "only_malformed (broken_name types i fs found)" for i fs found
    by (induction types i fs found rule: broken_name.induct) (auto intro!: malformed_intros)
  show ?thesis
    by (auto simp: parse_entry_row_def apply_broken_line_def intro!: malformed_intros malformed_fold name
        split: option.split prod.split)
qed

lemma entry_row_present: "parse_entry_row lns types cursor invalid = Inr r \<Longrightarrow> cursor + 1 < length lns"
  by (auto simp: parse_entry_row_def list_get_def ok_or_def try_bind_Inr_iff split: if_splits)

lemma entries_advance: "parse_entries lns types depth n cursor invalid = Inr (nodes, cursor', invalid') \<Longrightarrow> cursor \<le> cursor'"
proof (induction lns types depth n cursor invalid arbitrary: nodes cursor' invalid' rule: parse_entries.induct)
  case (3 lns types depth n cursor invalid)
  then show ?case by (fastforce simp: try_bind_Inr_iff)
qed auto

lemma malformed_entries:
  "length lns < cursor + depth \<Longrightarrow> 0 < depth \<Longrightarrow> only_malformed (parse_entries lns types depth n cursor invalid)"
proof (induction lns types depth n cursor invalid rule: parse_entries.induct)
  case (3 lns types depth n cursor invalid)
  show ?case
    unfolding parse_entries.simps case_prod_beta
  proof (intro malformed_bind malformed_entry_row malformed_basic)
    fix r assume r: "parse_entry_row lns types cursor invalid = Inr r"
    obtain k e inv where re: "r = (k, e, inv)" by (cases r)
    from entry_row_present [OF r] "3.prems" have d: "length lns < cursor + 2 + depth" "0 < depth" by simp_all
    note r' = r [unfolded re]
    show "only_malformed (parse_entries lns types depth (fst r) (cursor + 2) (snd (snd r)))"
      using "3.IH"(1) [OF r' refl refl d] by (simp add: re)
    fix q assume q: "parse_entries lns types depth (fst r) (cursor + 2) (snd (snd r)) = Inr q"
    obtain ns c2 inv2 where qe: "q = (ns, c2, inv2)" by (cases q)
    have q': "parse_entries lns types depth k (cursor + 2) inv = Inr (ns, c2, inv2)" using q by (simp add: re qe)
    then have "length lns < c2 + Suc depth" using entries_advance [OF q'] "3.prems" by simp
    then show "only_malformed (parse_entries lns types (Suc depth) n (fst (snd q)) (snd (snd q)))"
      using "3.IH"(2) [OF r' refl refl q' refl refl] by (simp add: re qe)
  qed
qed (auto intro: malformed_intros)

lemma single_files_errors: "only_malformed (parse_single_files_data data b)"
proof -
  have entry: "only_malformed (parse_entry lns types cursor invalid)" for lns types cursor invalid
    unfolding parse_entry_def case_prod_beta by (intro malformed_bind malformed_entries malformed_basic) simp_all
  have lines: "only_malformed (decode_utf16le_lines data)"
    by (auto simp: decode_utf16le_lines_def Let_def intro!: malformed_intros)
  have "only_malformed (parse_catalog_lines lns invalid k b)" for lns invalid k
    unfolding parse_catalog_lines_def
    by (auto intro!: malformed_intros entry split: prod.split option.split)
  then show ?thesis unfolding parse_single_files_data_def by (auto intro!: malformed_intros lines split: prod.split)
qed

end
