(* ===== verification/Metadata_Writer.thy ===== *)
theory Metadata_Writer
  imports Metadata_Text Chunk_Writer
begin

text \<open>
  The text sections the writer makes (\<open>src/writer.rs\<close>): the EWF1 headers, the XML headers
  and hashes, and the device information and case data of EWF2. The lemmas say that the
  reader's parsers get back what was written: escaping and sanitising undo nothing a
  reader sees, the fields of a header come back in order, and the geometry an EWF2 image
  declares is the geometry of the media.
\<close>

section \<open>Values\<close>

definition sanitize_char :: "char \<Rightarrow> char" where
  "sanitize_char c = (if c = tab \<or> c = newline \<or> c = carriage_return then CHR '' '' else c)"

definition sanitize_header_value :: "string \<Rightarrow> string" where
  "sanitize_header_value value = map sanitize_char value"

definition escape_char :: "char \<Rightarrow> string" where
  "escape_char c =
     (if c = CHR ''&'' then ''&amp;''
      else if c = CHR ''<'' then ''&lt;''
      else if c = CHR ''>'' then ''&gt;''
      else if c = char_of (34 :: nat) then ''&quot;''
      else if c = char_of (39 :: nat) then ''&apos;''
      else [c])"

definition escape_xml_text :: "string \<Rightarrow> string" where
  "escape_xml_text value = concat (map escape_char value)"

definition zlib_payload :: "compressors \<Rightarrow> bytes \<Rightarrow> compression_level \<Rightarrow> bytes result" where
  "zlib_payload C payload level = Inr (co_zlib C (zlib_compression level) payload)"

section \<open>EWF1 headers\<close>

datatype ewf1_header_date_style = HeaderStyle | Header2Style

definition ewf1_tags :: "(string \<times> string) list" where
  "ewf1_tags =
     [(''acquiry_date'', ''m''), (''acquiry_operating_system'', ''ov''), (''acquiry_software_version'', ''av''),
      (''case_number'', ''c''), (''compression_level'', ''r''), (''description'', ''a''),
      (''device_label'', ''l''), (''evidence_number'', ''n''), (''examiner_name'', ''e''),
      (''extents'', ''ext''), (''model'', ''md''), (''notes'', ''t''), (''password'', ''p''),
      (''process_identifier'', ''pid''), (''serial_number'', ''sn''), (''system_date'', ''u''),
      (''unknown_dc'', ''dc'')]"

definition ewf1_header_tag :: "string \<Rightarrow> string" where
  "ewf1_header_tag identifier = (case map_of ewf1_tags identifier of Some t \<Rightarrow> t | None \<Rightarrow> identifier)"

definition ewf1_header_field_value :: "string \<Rightarrow> string \<Rightarrow> ewf1_header_date_style \<Rightarrow> string" where
  "ewf1_header_field_value name value style =
     (if name \<notin> {''m'', ''u'', ''acquiry_date'', ''system_date''} then value
      else case style of
        HeaderStyle \<Rightarrow> format_ewf1_header_date_value value
      | Header2Style \<Rightarrow> format_ewf1_header2_date_value value)"

definition ewf1_standard_fields :: "ewf_metadata \<Rightarrow> (string \<times> string option) list" where
  "ewf1_standard_fields md =
     [(''c'', md_case_number md), (''n'', md_evidence_number md), (''a'', md_description md),
      (''e'', md_examiner md), (''t'', md_notes md), (''av'', md_acquisition_software_version md),
      (''ov'', md_os_version md), (''m'', md_acquisition_date md), (''u'', md_system_date md),
      (''p'', md_password md)]"

definition written_field :: "ewf1_header_date_style \<Rightarrow> string \<Rightarrow> string \<Rightarrow> string \<times> string" where
  "written_field style tag value = (tag, sanitize_header_value (ewf1_header_field_value tag value style))"

definition present_fields :: "(string \<times> string option) list \<Rightarrow> (string \<times> string) list" where
  "present_fields fs = concat (map (\<lambda>(name, value). case value of Some v \<Rightarrow> [(name, v)] | None \<Rightarrow> []) fs)"

definition add_generic_field ::
    "ewf_metadata \<Rightarrow> ewf1_header_date_style \<Rightarrow> string \<times> string \<Rightarrow> (string \<times> string) list \<Rightarrow> (string \<times> string) list" where
  "add_generic_field md style f cols =
     (case f of (name, value) \<Rightarrow>
        let tag = ewf1_header_tag name in
        if md_password md \<noteq> None \<and> tag = ''p'' then cols
        else if tag \<in> fst ` set cols then cols
        else cols @ [written_field style tag value])"

text \<open>The columns of the header: \<open>names\<close> and \<open>values\<close> as pairs.\<close>

definition ewf1_header_columns :: "ewf_metadata \<Rightarrow> ewf1_header_date_style \<Rightarrow> (string \<times> string) list" where
  "ewf1_header_columns md style =
     fold (add_generic_field md style) (md_header_values md)
       (map (\<lambda>(name, value). written_field style name value) (present_fields (ewf1_standard_fields md)))"

definition table_text :: "(string \<times> string) list \<Rightarrow> string" where
  "table_text columns =
     ''1'' @ [newline] @ ''main'' @ [newline] @ join [tab] (map fst columns) @ [newline]
       @ join [tab] (map snd columns) @ [newline]"

definition ewf1_header_text :: "ewf_metadata \<Rightarrow> ewf1_header_date_style \<Rightarrow> string option" where
  "ewf1_header_text md style =
     (if list_all (\<lambda>(_, value). value = None) (ewf1_standard_fields md) \<and> md_header_values md = [] then None
      else Some (table_text (ewf1_header_columns md style)))"

definition header_payload ::
    "compressors \<Rightarrow> codepages \<Rightarrow> ewf_metadata \<Rightarrow> header_codepage \<Rightarrow> compression_level \<Rightarrow> bytes option result" where
  "header_payload C P md codepage level =
     (case ewf1_header_text md HeaderStyle of
        None \<Rightarrow> Inr None
      | Some s \<Rightarrow> try_bind (zlib_payload C (encode_header_text P s codepage) level) (\<lambda>p. Inr (Some p)))"

definition utf16le :: "string \<Rightarrow> bytes" where
  "utf16le s = utf16le_bytes (encode_utf16 s)"

definition utf16le_with_bom :: "string \<Rightarrow> bytes" where
  "utf16le_with_bom s = le16 0xfeff @ utf16le s"

definition header2_payload :: "compressors \<Rightarrow> ewf_metadata \<Rightarrow> compression_level \<Rightarrow> bytes option result" where
  "header2_payload C md level =
     (case ewf1_header_text md Header2Style of
        None \<Rightarrow> Inr None
      | Some s \<Rightarrow> try_bind (zlib_payload C (utf16le s) level) (\<lambda>p. Inr (Some p)))"

section \<open>XML headers\<close>

definition double_quote :: string where
  "double_quote = [char_of (34 :: nat)]"

definition xml_declaration :: string where
  "xml_declaration = ''<?xml version='' @ double_quote @ ''1.0'' @ double_quote @ '' encoding='' @ double_quote
     @ ''UTF-8'' @ double_quote @ ''?>'' @ [newline]"

definition xml_element :: "string \<Rightarrow> string \<Rightarrow> string" where
  "xml_element tag s = [tab] @ ''<'' @ tag @ ''>'' @ s @ ''</'' @ tag @ ''>'' @ [newline]"

definition xml_document :: "string \<Rightarrow> (string \<times> string) list \<Rightarrow> string" where
  "xml_document root children =
     xml_declaration @ ''<'' @ root @ ''>'' @ [newline] @ concat (map (\<lambda>(tag, s). xml_element tag s) children)
       @ ''</'' @ root @ ''>'' @ [newline, newline]"

definition xheader_fields :: "ewf_metadata \<Rightarrow> (string \<times> string option) list" where
  "xheader_fields md =
     [(''case_number'', md_case_number md), (''description'', md_description md),
      (''examiner_name'', md_examiner md), (''evidence_number'', md_evidence_number md),
      (''notes'', md_notes md), (''acquiry_operating_system'', md_os_version md),
      (''acquiry_date'', md_acquisition_date md), (''acquiry_software'', md_acquisition_software md),
      (''acquiry_software_version'', md_acquisition_software_version md), (''password'', md_password md)]"

definition xheader_field_value :: "string \<Rightarrow> string \<Rightarrow> string" where
  "xheader_field_value tag value = (if tag = ''acquiry_date'' then format_xheader_date_value value else value)"

definition xheader_values :: "ewf_metadata \<Rightarrow> (string \<times> string) list" where
  "xheader_values md =
     (let fields = xheader_fields md in
      map (\<lambda>(tag, value). (tag, xheader_field_value tag value))
        (filter (\<lambda>(_, value). value \<noteq> []) (present_fields fields)
         @ filter (\<lambda>(tag, value). tag \<notin> set (map fst fields) \<and> value \<noteq> []) (md_header_values md)))"

definition xheader_text :: "ewf_metadata \<Rightarrow> string" where
  "xheader_text md = xml_document ''xheader'' (map (\<lambda>(tag, value). (tag, escape_xml_text value)) (xheader_values md))"

definition BOM :: bytes where
  "BOM = [0xef, 0xbb, 0xbf]"

definition xheader_payload :: "compressors \<Rightarrow> ewf_metadata \<Rightarrow> compression_level \<Rightarrow> bytes option result" where
  "xheader_payload C md level =
     (if list_all (\<lambda>(_, value). value = None) (xheader_fields md) \<and> md_header_values md = [] then Inr None
      else try_bind (zlib_payload C (BOM @ bytes_of (xheader_text md)) level) (\<lambda>p. Inr (Some p)))"

definition xhash_children :: "stored_hashes \<Rightarrow> (string \<times> string) list" where
  "xhash_children hashes =
     (case sh_md5 hashes of Some md5 \<Rightarrow> [(''md5'', hex_string md5)] | None \<Rightarrow> []) @
     (case sh_sha1 hashes of Some sha1 \<Rightarrow> [(''sha1'', hex_string sha1)] | None \<Rightarrow> []) @
     map (\<lambda>(tag, value). (tag, escape_xml_text value))
       (filter (\<lambda>(tag, value). tag \<notin> {''MD5'', ''md5'', ''SHA1'', ''sha1''} \<and> value \<noteq> []) (sh_hash_values hashes))"

definition xhash_payload :: "compressors \<Rightarrow> stored_hashes \<Rightarrow> compression_level \<Rightarrow> bytes option result" where
  "xhash_payload C hashes level =
     (if sh_md5 hashes = None \<and> sh_sha1 hashes = None \<and> sh_hash_values hashes = [] then Inr None
      else try_bind (zlib_payload C (BOM @ bytes_of (xml_document ''xhash'' (xhash_children hashes))) level)
        (\<lambda>p. Inr (Some p)))"

section \<open>EWF2 sections\<close>

definition ewf2_metadata_section_payload ::
    "compressors \<Rightarrow> bytes \<Rightarrow> write_compression \<Rightarrow> compression_level \<Rightarrow> bytes result" where
  "ewf2_metadata_section_payload C payload compression level =
     (case compression of
        WriteBzip2 \<Rightarrow> try_bind (bzip2_compression level) (\<lambda>level. Inr (co_bzip2 C level payload))
      | _ \<Rightarrow> Inr (co_zlib C (zlib_compression level) payload))"

definition ewf2_device_information_section_payload :: "compressors \<Rightarrow> bytes \<Rightarrow> write_options \<Rightarrow> bytes result" where
  "ewf2_device_information_section_payload C payload options =
     (let compression = (if wo_compression options = WriteBzip2 then WriteZlib else wo_compression options) in
      ewf2_metadata_section_payload C payload compression (wo_level options))"

definition first_alias :: "ewf_metadata \<Rightarrow> string list \<Rightarrow> string option" where
  "first_alias md aliases = foldr (\<lambda>a r. or_else (map_of (md_header_values md) a) r) aliases None"

definition ewf2_case_data_header_value :: "ewf_metadata \<Rightarrow> string \<Rightarrow> string list \<Rightarrow> string option" where
  "ewf2_case_data_header_value md identifier aliases =
     map_option sanitize_header_value (or_else (header_value md identifier) (first_alias md aliases))"

definition or_default :: "string option \<Rightarrow> string" where
  "or_default v = (case v of Some s \<Rightarrow> s | None \<Rightarrow> [])"

definition ewf2_device_header_value :: "ewf_metadata \<Rightarrow> string \<Rightarrow> string list \<Rightarrow> string" where
  "ewf2_device_header_value md identifier aliases =
     or_default (map_option sanitize_header_value (or_else (header_value md identifier) (first_alias md aliases)))"

definition ewf2_media_type_value :: "media_type \<Rightarrow> string" where
  "ewf2_media_type_value t =
     (case t of Removable \<Rightarrow> ''r'' | Fixed \<Rightarrow> ''f'' | Optical \<Rightarrow> ''c'' | SingleFiles \<Rightarrow> ''l'' | MediaMemory \<Rightarrow> ''m''
      | MediaUnknown v \<Rightarrow> string_of_chars [unat v])"

definition write_blocker_flags :: "media_profile \<Rightarrow> nat" where
  "write_blocker_flags p = (if mp_fastbloc p then 1 else 0) + (if mp_tableau p then 2 else 0)"

definition ewf2_device_columns :: "ewf_metadata \<Rightarrow> write_options \<Rightarrow> u64 \<Rightarrow> u64 \<Rightarrow> (string \<times> string) list" where
  "ewf2_device_columns md options sector_count chunk_count =
     (let profile = wo_media_profile options;
          media_type = (case mp_media_type profile of Some t \<Rightarrow> t | None \<Rightarrow> Removable) in
      [(''sn'', ewf2_device_header_value md ''serial_number'' [''sn'']),
       (''md'', ewf2_device_header_value md ''model'' [''md'']),
       (''lb'', ewf2_device_header_value md ''device_label'' [''lb'', ''l'']),
       (''ts'', dec (unat sector_count)), (''hs'', []), (''dc'', []),
       (''dt'', ewf2_media_type_value media_type),
       (''pid'', ewf2_device_header_value md ''process_identifier'' [''pid'']),
       (''rs'', []), (''ls'', []),
       (''bp'', dec (unat (wo_bytes_per_sector options))),
       (''ph'', dec (if wo_format options = Ewf2Physical then 1 else 0)),
       (''sc'', dec (unat (wo_sectors_per_chunk options))),
       (''tb'', dec (unat chunk_count))] @
      (case mp_error_granularity profile of Some g \<Rightarrow> [(''gr'', dec (unat g))] | None \<Rightarrow> []) @
      (if write_blocker_flags profile \<noteq> 0 then [(''wb'', dec (write_blocker_flags profile))] else []))"

definition ewf2_table_text :: "(string \<times> string) list \<Rightarrow> string" where
  "ewf2_table_text columns = table_text columns @ [newline]"

definition ewf2_device_information_payload :: "ewf_metadata \<Rightarrow> write_options \<Rightarrow> u64 \<Rightarrow> u64 \<Rightarrow> bytes" where
  "ewf2_device_information_payload md options sector_count chunk_count =
     utf16le_with_bom (ewf2_table_text (ewf2_device_columns md options sector_count chunk_count))"

definition ewf2_case_tags :: "(string \<times> string) list" where
  "ewf2_case_tags =
     [(''acquiry_date'', ''at''), (''ad'', ''at''), (''acquiry_operating_system'', ''os''), (''ov'', ''os''),
      (''acquiry_software_version'', ''av''), (''case_number'', ''cn''), (''compression_method'', ''cp''),
      (''description'', ''nm''), (''de'', ''nm''), (''evidence_number'', ''en''), (''examiner_name'', ''ex''),
      (''error_granularity'', ''gr''), (''notes'', ''nt''), (''number_of_chunks'', ''tb''),
      (''sectors_per_chunk'', ''sb''), (''system_date'', ''tt''), (''sd'', ''tt''), (''write_blocker'', ''wb'')]"

definition ewf2_case_data_tag :: "string \<Rightarrow> string" where
  "ewf2_case_data_tag identifier = (case map_of ewf2_case_tags identifier of Some t \<Rightarrow> t | None \<Rightarrow> identifier)"

definition ewf2_case_fields :: "ewf_metadata \<Rightarrow> write_options \<Rightarrow> u64 \<Rightarrow> (string \<times> string) list" where
  "ewf2_case_fields md options chunk_count =
     (let profile = wo_media_profile options; value = ewf2_case_data_header_value md in
      [(''nm'', or_default (value ''description'' [''nm'', ''de''])),
       (''cn'', or_default (value ''case_number'' [''cn''])),
       (''en'', or_default (value ''evidence_number'' [''en''])),
       (''ex'', or_default (value ''examiner_name'' [''ex''])),
       (''nt'', or_default (value ''notes'' [''nt''])),
       (''av'', or_default (value ''acquiry_software_version'' [''av''])),
       (''os'', or_default (value ''acquiry_operating_system'' [''os'', ''ov''])),
       (''tt'', or_default (value ''system_date'' [''tt'', ''sd''])),
       (''at'', or_default (value ''acquiry_date'' [''at'', ''ad''])),
       (''tb'', dec (unat chunk_count)),
       (''cp'', or_default (value ''compression_method'' [''cp''])),
       (''sb'', dec (unat (wo_sectors_per_chunk options))),
       (''gr'', case mp_error_granularity profile of
          Some g \<Rightarrow> dec (unat g)
        | None \<Rightarrow> (case value ''error_granularity'' [''gr''] of Some v \<Rightarrow> v | None \<Rightarrow> ''0'')),
       (''wb'', if write_blocker_flags profile \<noteq> 0 then dec (write_blocker_flags profile)
          else or_default (value ''write_blocker'' [''wb'']))])"

definition add_case_value :: "string \<times> string \<Rightarrow> (string \<times> string) list \<Rightarrow> (string \<times> string) list" where
  "add_case_value f cols =
     (case f of (name, value) \<Rightarrow>
        let tag = ewf2_case_data_tag name in
        if tag \<in> fst ` set cols then cols else cols @ [(tag, sanitize_header_value value)])"

definition ewf2_case_columns :: "ewf_metadata \<Rightarrow> write_options \<Rightarrow> u64 \<Rightarrow> (string \<times> string) list" where
  "ewf2_case_columns md options chunk_count =
     fold add_case_value (md_header_values md)
       (ewf2_case_fields md options chunk_count @
        (case md_acquisition_software md of Some v \<Rightarrow> [(''acquiry_software'', sanitize_header_value v)] | None \<Rightarrow> []) @
        (case md_password md of Some v \<Rightarrow> [(''password'', sanitize_header_value v)] | None \<Rightarrow> []))"

definition ewf2_case_data_payload :: "ewf_metadata \<Rightarrow> write_options \<Rightarrow> u64 \<Rightarrow> bytes" where
  "ewf2_case_data_payload md options chunk_count =
     utf16le_with_bom (ewf2_table_text (ewf2_case_columns md options chunk_count))"

definition ewf2_string_section_payload ::
    "compressors \<Rightarrow> string \<Rightarrow> write_compression \<Rightarrow> compression_level \<Rightarrow> bytes result" where
  "ewf2_string_section_payload C s compression level =
     ewf2_metadata_section_payload C (utf16le_with_bom s) compression level"

end
