(* ===== verification/Utf8_Text.thy ===== *)
theory Utf8_Text
  imports Metadata_Writer
begin

text \<open>
  Every \<open>String\<close> of the program is UTF-8. The texts the writer builds from such strings
  are UTF-8 again, UTF-8 is decoded without loss, and UTF-16 sections come back.
\<close>

section \<open>Closure\<close>

lemma string_of_chars_Cons: "string_of_chars (c # cs) = map char_of (utf8_encode c) @ string_of_chars cs"
  by (simp add: string_of_chars_def)

lemma utf8_string_Cons: "code c < 128 \<Longrightarrow> utf8_string s \<Longrightarrow> utf8_string (c # s)"
  using utf8_string_append [of "[c]" s] utf8_string_ascii [of "[c]"] by simp

lemma utf8_string_concat: "\<forall>s \<in> set ss. utf8_string s \<Longrightarrow> utf8_string (concat ss)"
  by (induction ss) auto

lemma utf8_string_join: "\<forall>s \<in> set ss. utf8_string s \<Longrightarrow> utf8_string sep \<Longrightarrow> utf8_string (join sep ss)"
  by (induction sep ss rule: join.induct) auto

lemma high_bytes: "scalar c \<Longrightarrow> 128 \<le> c \<Longrightarrow> b \<in> set (utf8_encode c) \<Longrightarrow> 128 \<le> b \<and> b < 256"
  using utf8_encode_bytes [of c b] by (auto simp: utf8_encode_def scalar_def split: if_splits)

lemma utf8_string_concat_map:
  assumes "utf8_string s" "\<And>c. code c < 128 \<Longrightarrow> utf8_string (f c)" "\<And>c. 128 \<le> code c \<Longrightarrow> f c = [c]"
  shows "utf8_string (concat (map f s))"
proof -
  obtain cs where cs: "list_all scalar cs" "s = string_of_chars cs" using assms(1) unfolding utf8_string_iff by blast
  have "list_all scalar cs \<Longrightarrow> utf8_string (concat (map f (string_of_chars cs)))"
  proof (induction cs)
    case (Cons c cs)
    show ?case
    proof (cases "c < 128")
      case True
      then have "utf8_encode c = [c]" by (simp add: utf8_encode_def)
      with True Cons assms(2) [of "char_of c"] show ?thesis by (auto simp: string_of_chars_Cons)
    next
      case False
      have "concat (map f (map char_of (utf8_encode c))) = map char_of (utf8_encode c)"
      proof -
        have "f (char_of b) = [char_of b]" if "b \<in> set (utf8_encode c)" for b
          using high_bytes [of c b] False Cons.prems that by (intro assms(3)) simp
        then have "map f (map char_of (utf8_encode c)) = map (\<lambda>b. [char_of b]) (utf8_encode c)" by simp
        also have "concat \<dots> = map char_of (utf8_encode c)" by (induction "utf8_encode c") simp_all
        finally show ?thesis .
      qed
      moreover have "utf8_string (map char_of (utf8_encode c))"
        unfolding utf8_string_iff by (rule exI [of _ "[c]"]) (use Cons.prems in \<open>simp add: string_of_chars_def\<close>)
      ultimately show ?thesis using Cons by (auto simp: string_of_chars_Cons)
    qed
  qed (simp add: string_of_chars_def)
  then show ?thesis using cs by simp
qed

lemma code_numerals: "code (CHR '' '') = 32" "code (CHR ''&'') = 38" "code (CHR ''<'') = 60" "code (CHR ''>'') = 62"
  "code tab = 9" "code newline = 10" "code carriage_return = 13"
  by (simp_all add: code_def tab_def newline_def carriage_return_def)

lemma utf8_sanitize: "utf8_string s \<Longrightarrow> utf8_string (sanitize_header_value s)"
proof -
  assume s: "utf8_string s"
  have "sanitize_header_value s = concat (map (\<lambda>c. [sanitize_char c]) s)"
    by (simp add: sanitize_header_value_def)
  moreover have "utf8_string (concat (map (\<lambda>c. [sanitize_char c]) s))"
    by (rule utf8_string_concat_map [OF s])
      (auto simp: sanitize_char_def code_numerals intro!: utf8_string_Cons)
  ultimately show ?thesis by simp
qed

lemma utf8_escape: "utf8_string s \<Longrightarrow> utf8_string (escape_xml_text s)"
  unfolding escape_xml_text_def
proof (rule utf8_string_concat_map)
  show "utf8_string (escape_char c)" if "code c < 128" for c
    using that by (auto simp: escape_char_def intro!: utf8_string_ascii) (simp_all add: code_def)
  show "escape_char c = [c]" if "128 \<le> code c" for c
    using that by (auto simp: escape_char_def code_def)
qed

lemma utf8_digits: "list_all is_ascii_digit s \<Longrightarrow> utf8_string s"
  by (rule utf8_string_ascii) (auto simp: list_all_iff is_ascii_digit_def)

lemma utf8_dec [intro, simp]: "utf8_string (dec n)" "utf8_string (dec_pad w n)"
  by (rule utf8_digits; rule digits_dec digits_dec_pad)+

lemma utf8_visible: "list_all visible s \<Longrightarrow> utf8_string s"
  by (rule utf8_string_ascii) (auto simp: list_all_iff visible_def)

lemma utf8_legacy_date: "utf8_string (format_ewf1_header d)"
  unfolding format_ewf1_header_def by (rule utf8_string_join) (auto intro!: utf8_string_Cons simp: code_numerals)

lemma utf8_i64: "utf8_string (i64_text v)"
  by (auto simp: i64_text_def intro!: utf8_string_Cons) (simp add: code_def)

lemma utf8_replicate_space: "utf8_string s \<Longrightarrow> utf8_string (replicate k (CHR '' '') @ s)"
  by (induction k) (auto intro!: utf8_string_Cons simp: code_numerals)

lemma date_of_fields_valid: "date_of_fields a b c e f g = Some d \<Longrightarrow> date_valid d"
  by (auto simp: date_of_fields_def Let_def bind_eq_Some_conv split: if_splits)

lemma iso_fields_valid:
  "(case (xs, ys) of ([a, b, c], [e, f, g]) \<Rightarrow> date_of_fields a (parse_unsigned 255 b) (parse_unsigned 255 c) e f g | _ \<Rightarrow> None) = Some d
    \<Longrightarrow> date_valid d"
  by (auto split: list.split_asm dest: date_of_fields_valid)

lemma parsed_date_valid: "parse_date_time v = Some d \<Longrightarrow> date_valid d"
proof -
  assume "parse_date_time v = Some d"
  then consider "parse_legacy_date_time v = Some d" | "parse_iso8601_date_time v = Some d"
    | "parse_unix_timestamp_date_time v = Some d" | "parse_ctime_date_time v = Some d"
    by (auto simp: parse_date_time_def or_else_def split: option.splits)
  then show ?thesis
  proof cases
    case 1
    then show ?thesis by (auto simp: parse_legacy_date_time_def split: list.split_asm dest: date_of_fields_valid)
  next
    case 2
    then obtain p where "(case p of (date, time) \<Rightarrow> (case (split_on (CHR ''-'') date, split_on (CHR '':'') time) of
        ([a, b, c], [e, f, g]) \<Rightarrow> date_of_fields a (parse_unsigned 255 b) (parse_unsigned 255 c) e f g | _ \<Rightarrow> None)) = Some d"
      unfolding parse_iso8601_date_time_def Let_def bind_eq_Some_conv by blast
    then show ?thesis by (cases p) (simp only: prod.case iso_fields_valid)
  next
    case 3
    then show ?thesis using timestamp_is_date
      by (auto simp: parse_unix_timestamp_date_time_def bind_eq_Some_conv split: if_splits)
  next
    case 4
    then show ?thesis
      by (auto simp: parse_ctime_date_time_def split: list.split_asm if_split_asm dest: date_of_fields_valid)
  qed
qed

lemma utf8_ctime: "date_valid d \<Longrightarrow> utf8_string (format_date Ctime d)"
proof -
  assume d: "date_valid d"
  then have m: "1 \<le> dt_month d" "dt_month d \<le> 12" by (simp_all add: date_valid_def)
  have "utf8_string (weekday_name (dt_year d) (dt_month d) (dt_day d))" "utf8_string (month_name (dt_month d))"
    "utf8_string (clock_text d)"
    using weekday_name_facts month_name_facts [OF m] visible_clock(1) by (auto intro!: utf8_visible)
  then show ?thesis
    by (auto simp: format_date_def space_pad2_def code_numerals
        intro!: utf8_string_append utf8_string_Cons utf8_replicate_space)
qed

lemma utf8_dates:
  assumes "utf8_string v"
  shows "utf8_string (format_ewf1_header_date_value v)" "utf8_string (format_ewf1_header2_date_value v)"
    "utf8_string (format_xheader_date_value v)"
  using assms parsed_date_valid
  by (auto simp: format_ewf1_header_date_value_def format_ewf1_header2_date_value_def format_xheader_date_value_def
      utf8_legacy_date utf8_i64 intro!: utf8_ctime split: option.splits)

section \<open>Decoding\<close>

lemma decode_utf16le_plain:
  assumes "utf8_string s" "s \<noteq> []" "hd (encode_utf16 s) \<noteq> 0xfeff"
  shows "decode_utf16le (utf16le s) = Some s"
proof -
  have "encode_utf16 s \<noteq> []"
  proof
    assume "encode_utf16 s = []"
    then have "from_utf16 [] = Some s" using from_utf16_encode [OF assms(1)] by simp
    then show False using assms(2) by (simp add: from_utf16_def string_of_chars_def)
  qed
  then have "2 \<le> length (utf16le s)" by (cases "encode_utf16 s") (simp_all add: utf16le_def utf16le_bytes_def)
  then show ?thesis using assms(3) from_utf16_encode [OF assms(1)]
    by (simp add: decode_utf16le_def utf16le_def utf16le_units_bytes Let_def)
qed

lemma decode_utf16le_bom:
  assumes "utf8_string s"
  shows "decode_utf16le (utf16le_with_bom s) = Some s"
proof -
  have "utf16le_with_bom s = utf16le_bytes (0xfeff # encode_utf16 s)"
    by (simp add: utf16le_with_bom_def utf16le_def utf16le_bytes_def)
  then show ?thesis using from_utf16_encode [OF assms] utf16le_units_bytes [of "0xfeff # encode_utf16 s"]
    by (simp add: decode_utf16le_def Let_def utf16le_bytes_def)
qed

text \<open>UTF-8 decodes without loss: each step of the decoder takes one character.\<close>

definition nat_step :: "nat list \<Rightarrow> bool \<times> nat" where
  "nat_step bs =
     (let b = bs ! 0; cont = (\<lambda>i lo hi. i < length bs \<and> lo \<le> bs ! i \<and> bs ! i \<le> hi) in
      if b < 0x80 then (True, 1)
      else if 0xC2 \<le> b \<and> b \<le> 0xDF then (if cont 1 0x80 0xBF then (True, 2) else (False, 1))
      else if 0xE0 \<le> b \<and> b \<le> 0xEF then
        (let lo = (if b = 0xE0 then 0xA0 else 0x80); hi = (if b = 0xED then 0x9F else 0xBF) in
         if \<not> cont 1 lo hi then (False, 1)
         else if \<not> cont 2 0x80 0xBF then (False, 2)
         else (True, 3))
      else if 0xF0 \<le> b \<and> b \<le> 0xF4 then
        (let lo = (if b = 0xF0 then 0x90 else 0x80); hi = (if b = 0xF4 then 0x8F else 0xBF) in
         if \<not> cont 1 lo hi then (False, 1)
         else if \<not> cont 2 0x80 0xBF then (False, 2)
         else if \<not> cont 3 0x80 0xBF then (False, 3)
         else (True, 4))
      else (False, 1))"

lemma nat_step_encode:
  assumes "scalar c"
  shows "nat_step (utf8_encode c @ rest) = (True, length (utf8_encode c))"
proof -
  consider "c < 0x80" | "0x80 \<le> c" "c < 0x800" | "0x800 \<le> c" "c < 0x10000" | "0x10000 \<le> c" "c < 0x110000"
  proof -
    have "c < 0x110000" using assms by (auto simp: scalar_def)
    then show ?thesis using that by linarith
  qed
  then show ?thesis
  proof cases
    case 3
    define q where "q = c div 4096"
    have "c div 64 div 64 = q" by (simp add: q_def div_mult2_eq [symmetric])
    then have r: "c div 64 = 64 * q + c div 64 mod 64" by (metis mult_div_mod_eq)
    have c: "c = 64 * (c div 64) + c mod 64" by simp
    have "c mod 64 < 64" "c div 64 mod 64 < 64" by simp_all
    with 3 r c have q: "q < 16" "q = 0 \<Longrightarrow> 32 \<le> c div 64 mod 64" by linarith+
    moreover have "q = 13 \<Longrightarrow> c div 64 mod 64 < 32" using assms 3 r c \<open>c mod 64 < 64\<close> by (auto simp: scalar_def)
    ultimately show ?thesis using 3 by (auto simp: utf8_encode_def nat_step_def Let_def q_def [symmetric])
  next
    case 4
    define q where "q = c div 262144"
    define r where "r = c div 4096 mod 64"
    have "c div 4096 div 64 = q" by (simp add: q_def div_mult2_eq [symmetric])
    then have r: "c div 4096 = 64 * q + r" unfolding r_def by (metis mult_div_mod_eq)
    have c: "c = 4096 * (c div 4096) + c mod 4096" by simp
    have b: "c mod 4096 < 4096" "r < 64" by (simp_all add: r_def)
    have "q < 5" "q = 0 \<Longrightarrow> 16 \<le> r" "q = 4 \<Longrightarrow> r < 16" using 4 r c b by linarith+
    then show ?thesis using 4 b by (auto simp: utf8_encode_def nat_step_def Let_def q_def [symmetric] r_def [symmetric])
  next
    case 2
    then have "2 \<le> c div 64" "c div 64 < 32" by linarith+
    then show ?thesis using 2 by (auto simp: utf8_encode_def nat_step_def Let_def)
  qed (simp add: utf8_encode_def nat_step_def)
qed

lemma utf8_step_nat:
  assumes "bs \<noteq> []"
  shows "utf8_step bs = nat_step (map unat bs)"
proof -
  define b where "b = bs ! 0"
  define B where "B = unat b"
  have head: "map unat bs ! 0 = B" using assms by (simp add: B_def b_def)
  have cont: "utf8_cont bs i lo hi \<longleftrightarrow> i < length (map unat bs) \<and> unat lo \<le> map unat bs ! i \<and> map unat bs ! i \<le> unat hi"
    for i lo hi by (auto simp: utf8_cont_def word_le_nat_alt)
  have cmp: "b < 0x80 \<longleftrightarrow> B < 0x80" "0xC2 \<le> b \<longleftrightarrow> 0xC2 \<le> B" "b \<le> 0xDF \<longleftrightarrow> B \<le> 0xDF" "0xE0 \<le> b \<longleftrightarrow> 0xE0 \<le> B"
    "b \<le> 0xEF \<longleftrightarrow> B \<le> 0xEF" "0xF0 \<le> b \<longleftrightarrow> 0xF0 \<le> B" "b \<le> 0xF4 \<longleftrightarrow> B \<le> 0xF4"
    by (simp_all add: B_def word_le_nat_alt word_less_nat_alt)
  have eq: "b = 0xE0 \<longleftrightarrow> B = 0xE0" "b = 0xED \<longleftrightarrow> B = 0xED" "b = 0xF0 \<longleftrightarrow> B = 0xF0" "b = 0xF4 \<longleftrightarrow> B = 0xF4"
    by (simp_all add: B_def word_unat_eq_iff)
  have num: "unat (0x80 :: u8) = 0x80" "unat (0xBF :: u8) = 0xBF" "unat (0xA0 :: u8) = 0xA0" "unat (0x9F :: u8) = 0x9F"
    "unat (0x90 :: u8) = 0x90" "unat (0x8F :: u8) = 0x8F" by simp_all
  show ?thesis
    unfolding utf8_step_def nat_step_def Let_def b_def [symmetric] head cont cmp eq if_distrib [of unat] num by (rule refl)
qed

lemma from_utf8_lossy_chars:
  "list_all scalar cs \<Longrightarrow> from_utf8_lossy (bytes_of (string_of_chars cs)) = bytes_of (string_of_chars cs)"
proof (induction cs)
  case (Cons c cs)
  let ?e = "map word_of_nat (utf8_encode c) :: bytes"
  have small: "b \<in> set (utf8_encode c) \<Longrightarrow> b < 256" for b using Cons.prems utf8_encode_bytes [of c b] by simp
  have e: "bytes_of (map char_of (utf8_encode c)) = ?e"
    using small by (auto simp: bytes_of_def)
  have u: "map unat ?e = utf8_encode c"
    using small by (auto intro!: map_idI simp: unsigned_of_nat take_bit_nat_eq_self)
  have ne: "utf8_encode c \<noteq> []" by (simp add: utf8_encode_def)
  have split: "bytes_of (string_of_chars (c # cs)) = ?e @ bytes_of (string_of_chars cs)"
    by (simp add: string_of_chars_Cons bytes_of_def flip: e)
  have "utf8_step (?e @ bytes_of (string_of_chars cs)) = (True, length (utf8_encode c))"
    using nat_step_encode [of c] Cons.prems ne u by (subst utf8_step_nat) simp_all
  then show ?case using Cons ne unfolding split by (subst from_utf8_lossy.simps) simp
qed (simp add: string_of_chars_def bytes_of_def)

lemma from_utf8_lossy_string: "utf8_string s \<Longrightarrow> from_utf8_lossy (bytes_of s) = bytes_of s"
  unfolding utf8_string_iff using from_utf8_lossy_chars by blast

end
