(* ===== verification/Metadata_Round_Trip.thy ===== *)
theory Metadata_Round_Trip
  imports Utf8_Text
begin

text \<open>
  What the reader makes of the texts the writer emits: entities, tables of fields, XML
  documents and UTF-16 come back, and with them the header values, the XML values and the
  geometry of an EWF2 image.
\<close>

section \<open>Finding\<close>

lemma after_find_clear:
  "p \<noteq> [] \<Longrightarrow> hd p \<notin> set a \<Longrightarrow> after_find (a @ p @ b) p = Some (a, b)"
  by (simp add: after_find_def find_str_clear)

lemma after_find_char: "c \<notin> set a \<Longrightarrow> after_find (a @ c # b) [c] = Some (a, b)"
  using after_find_clear [of "[c]" a b] by simp

lemma after_find_no_char: "c \<notin> set a \<Longrightarrow> after_find a [c] = None"
  by (simp add: after_find_def find_str_no_char)

lemma find_str_skip:
  "p \<noteq> [] \<Longrightarrow> hd p \<notin> set a \<Longrightarrow> find_str (a @ s) p = map_option (\<lambda>i. length a + i) (find_str s p)"
proof (induction a)
  case Nil
  then show ?case by (cases "find_str s p") simp_all
next
  case (Cons c a)
  then have "\<not> starts_with (c # a @ s) p" by (intro starts_with_clear) auto
  with Cons show ?case by (cases "find_str s p") simp_all
qed

lemma find_str_skip_one:
  "p \<noteq> [] \<Longrightarrow> \<not> starts_with (c # a @ s) p \<Longrightarrow> hd p \<notin> set a \<Longrightarrow>
     find_str (c # a @ s) p = map_option (\<lambda>i. Suc (length a) + i) (find_str s p)"
  by (cases "find_str s p") (simp_all add: find_str_skip)

lemma after_find_skip:
  assumes "find_str (a @ s) p = map_option (\<lambda>i. length a + i) (find_str s p)"
  shows "after_find (a @ s) p = map_option (\<lambda>(u, v). (a @ u, v)) (after_find s p)"
  using assms by (cases "find_str s p") (simp_all add: after_find_def)

section \<open>Entities\<close>

lemma decode_plain: "c \<noteq> CHR ''&'' \<Longrightarrow> decode_xml_entities (c # s) = c # decode_xml_entities s"
proof -
  assume c: "c \<noteq> CHR ''&''"
  have "find_str ([c] @ s) ''&'' = map_option (\<lambda>i. length [c] + i) (find_str s ''&'')"
    using c by (intro find_str_skip) simp_all
  from after_find_skip [OF this]
  have "after_find (c # s) ''&'' = map_option (\<lambda>(u, v). (c # u, v)) (after_find s ''&'')" by simp
  then show ?thesis
    by (cases "after_find s ''&''") (simp_all add: decode_xml_entities.simps [of s] decode_xml_entities.simps [of "c # s"] split: prod.splits)
qed

lemma decode_entity:
  assumes "CHR '';'' \<notin> set name"
  shows "decode_xml_entities (CHR ''&'' # name @ CHR '';'' # s) = xml_entity (''&'' @ name @ '';'') @ decode_xml_entities s"
  using after_find_char [of "CHR ''&''" "[]" "name @ CHR '';'' # s"] after_find_char [OF assms, of s]
  by (simp add: decode_xml_entities.simps [of "CHR ''&'' # name @ CHR '';'' # s"])

lemma decode_escape: "decode_xml_entities (escape_xml_text v) = v"
proof (induction v)
  case Nil
  then show ?case by (simp add: escape_xml_text_def decode_xml_entities.simps after_find_no_char)
next
  case (Cons c v)
  have step: "decode_xml_entities (escape_char c @ s) = c # decode_xml_entities s" for s
    using decode_entity [of "''amp''" s] decode_entity [of "''lt''" s] decode_entity [of "''gt''" s]
      decode_entity [of "''quot''" s] decode_entity [of "''apos''" s]
    by (auto simp: escape_char_def xml_entity_def decode_plain)
  with Cons show ?case by (simp add: escape_xml_text_def)
qed

lemma escape_no_angle: "CHR ''<'' \<notin> set (escape_xml_text v)" "CHR ''>'' \<notin> set (escape_xml_text v)"
  by (auto simp: escape_xml_text_def escape_char_def split: if_splits)

section \<open>Tables\<close>

definition clean :: "string \<Rightarrow> bool" where
  "clean s \<longleftrightarrow> tab \<notin> set s \<and> newline \<notin> set s \<and> carriage_return \<notin> set s"

lemma space_not_separator: "CHR '' '' \<noteq> tab" "CHR '' '' \<noteq> newline" "CHR '' '' \<noteq> carriage_return"
  by (simp_all add: tab_def newline_def carriage_return_def) (simp_all add: char_of_def)

lemma sanitize_clean: "clean (sanitize_header_value v)"
  using space_not_separator by (auto simp: clean_def sanitize_header_value_def sanitize_char_def)

lemma sanitize_clean_id: "clean v \<Longrightarrow> sanitize_header_value v = v"
  by (auto simp: clean_def sanitize_header_value_def sanitize_char_def intro!: map_idI)

lemma join_clean:
  assumes "\<forall>p \<in> set ps. clean p"
  shows "newline \<notin> set (join [tab] ps)" "carriage_return \<notin> set (join [tab] ps)"
  using assms set_join [of "[tab]" ps] by (auto simp: clean_def)

lemma tabular_fields_table:
  assumes "columns \<noteq> []" "\<forall>c \<in> set columns. clean (fst c) \<and> clean (snd c)" "carriage_return \<notin> set rest"
  shows "tabular_fields (table_text columns @ rest) = columns"
proof -
  have n: "newline \<notin> set (join [tab] (map fst columns))" "carriage_return \<notin> set (join [tab] (map fst columns))"
    and v: "newline \<notin> set (join [tab] (map snd columns))" "carriage_return \<notin> set (join [tab] (map snd columns))"
    using assms(2) by (intro join_clean; auto)+
  have w: "newline \<notin> set ''1''" "carriage_return \<notin> set ''1''" "newline \<notin> set ''main''" "carriage_return \<notin> set ''main''"
    by (simp_all add: newline_def carriage_return_def) (simp_all add: char_of_def)
  have "carriage_return \<notin> set (table_text columns @ rest)"
    using n v w assms(3) by (simp add: table_text_def)
  then have "replace_crlf (table_text columns @ rest) = table_text columns @ rest" by (rule replace_crlf_plain)
  moreover have "lines (table_text columns @ rest) =
      ''1'' # ''main'' # join [tab] (map fst columns) # join [tab] (map snd columns) # lines rest"
    using lines_line [OF w(1,2)] lines_line [OF w(3,4)] lines_line [OF n] lines_line [OF v] by (simp add: table_text_def)
  moreover have "split_on tab (join [tab] (map fst columns)) = map fst columns"
    "split_on tab (join [tab] (map snd columns)) = map snd columns"
    using assms(1,2) by (intro split_on_join; auto simp: clean_def)+
  ultimately show ?thesis by (simp add: tabular_fields_def zip_map_fst_snd)
qed

section \<open>EWF1 headers\<close>

definition nonempty_fields :: "(string \<times> string) list \<Rightarrow> (string \<times> string) list" where
  "nonempty_fields cols = filter (\<lambda>(_, v). v \<noteq> []) cols"

abbreviation (input) last_value :: "(string \<times> string) list \<Rightarrow> string \<Rightarrow> string option" where
  "last_value cols \<equiv> map_of (rev cols)"

definition identified :: "(string \<times> string) list \<Rightarrow> (string \<times> string) list" where
  "identified cols = map (\<lambda>(n, v). (ewf1_header_identifier n, v)) (nonempty_fields cols)"

lemma identified_simps [simp]:
  "identified [] = []"
  "identified ((n, v) # cols) = (if v = [] then identified cols else (ewf1_header_identifier n, v) # identified cols)"
  by (simp_all add: identified_def nonempty_fields_def)

lemma last_value_append:
  "last_value (e # cols) k = or_else (last_value cols k) (if fst e = k then Some (snd e) else None)"
  by (cases e) (auto simp: or_else_def map_add_def split: option.splits)

lemma or_else_simps [simp]: "or_else (Some x) b = Some x" "or_else None b = b" "or_else a None = a"
  by (cases a; simp add: or_else_def)+

lemma or_else_assoc: "or_else (or_else a b) c = or_else a (or_else b c)"
  by (cases a) simp_all

lemma header_fields_values:
  "map_of (md_header_values (fold ewf1_header_field cols md)) k =
     or_else (last_value (identified cols) k) (map_of (md_header_values md) k)"
proof (induction cols arbitrary: md)
  case (Cons f cols)
  obtain n v where f: "f = (n, v)" by (cases f)
  have "map_of (md_header_values (ewf1_header_field f md)) k =
      or_else (if v \<noteq> [] \<and> ewf1_header_identifier n = k then Some v else None) (map_of (md_header_values md) k)"
    by (simp add: f ewf1_header_field_def Let_def)
  then show ?case using Cons by (simp add: f last_value_append or_else_assoc del: rev.simps)
qed simp

definition ewf1_standard_identifiers :: "string list" where
  "ewf1_standard_identifiers =
     [''case_number'', ''evidence_number'', ''description'', ''examiner_name'', ''notes'', ''acquiry_software_version'',
      ''acquiry_operating_system'', ''acquiry_date'', ''system_date'', ''password'']"

text \<open>Names that stand for themselves although they are identifiers do not occur in a header.\<close>

definition no_identifier_names :: "(string \<times> string) list \<Rightarrow> bool" where
  "no_identifier_names cols \<longleftrightarrow> (\<forall>c \<in> set cols. fst c \<notin> set ewf1_standard_identifiers)"

lemma header_field_selectors:
  "md_case_number (ewf1_header_field (n, v) md) = (if v \<noteq> [] \<and> n = ''c'' then Some v else md_case_number md)"
  "md_evidence_number (ewf1_header_field (n, v) md) = (if v \<noteq> [] \<and> n = ''n'' then Some v else md_evidence_number md)"
  "md_description (ewf1_header_field (n, v) md) = (if v \<noteq> [] \<and> n = ''a'' then Some v else md_description md)"
  "md_examiner (ewf1_header_field (n, v) md) = (if v \<noteq> [] \<and> n = ''e'' then Some v else md_examiner md)"
  "md_notes (ewf1_header_field (n, v) md) = (if v \<noteq> [] \<and> n = ''t'' then Some v else md_notes md)"
  "md_acquisition_software_version (ewf1_header_field (n, v) md) = (if v \<noteq> [] \<and> n = ''av'' then Some v else md_acquisition_software_version md)"
  "md_os_version (ewf1_header_field (n, v) md) = (if v \<noteq> [] \<and> n = ''ov'' then Some v else md_os_version md)"
  "md_acquisition_date (ewf1_header_field (n, v) md) = (if v \<noteq> [] \<and> n = ''m'' then Some v else md_acquisition_date md)"
  "md_system_date (ewf1_header_field (n, v) md) = (if v \<noteq> [] \<and> n = ''u'' then Some v else md_system_date md)"
  "md_password (ewf1_header_field (n, v) md) = (if v \<noteq> [] \<and> n = ''p'' then Some v else md_password md)"
  by (simp_all add: ewf1_header_field_def Let_def)

lemma ewf1_identifier_of:
  assumes "n \<notin> set ewf1_standard_identifiers"
  shows
    "ewf1_header_identifier n = ''case_number'' \<longleftrightarrow> n = ''c''"
    "ewf1_header_identifier n = ''evidence_number'' \<longleftrightarrow> n = ''n''"
    "ewf1_header_identifier n = ''description'' \<longleftrightarrow> n = ''a''"
    "ewf1_header_identifier n = ''examiner_name'' \<longleftrightarrow> n = ''e''"
    "ewf1_header_identifier n = ''notes'' \<longleftrightarrow> n = ''t''"
    "ewf1_header_identifier n = ''acquiry_software_version'' \<longleftrightarrow> n = ''av''"
    "ewf1_header_identifier n = ''acquiry_operating_system'' \<longleftrightarrow> n = ''ov''"
    "ewf1_header_identifier n = ''acquiry_date'' \<longleftrightarrow> n = ''m''"
    "ewf1_header_identifier n = ''system_date'' \<longleftrightarrow> n = ''u''"
    "ewf1_header_identifier n = ''password'' \<longleftrightarrow> n = ''p''"
  using assms
  by (auto simp: ewf1_header_identifier_def ewf1_identifiers_def ewf1_standard_identifiers_def)

lemma header_field_standard:
  assumes "ident \<in> set ewf1_standard_identifiers" "n \<notin> set ewf1_standard_identifiers"
  shows "standard_header_value (ewf1_header_field (n, v) md) ident =
    or_else (if v \<noteq> [] \<and> ewf1_header_identifier n = ident then Some v else None) (standard_header_value md ident)"
  using assms(1) unfolding ewf1_standard_identifiers_def set_simps
  by (elim insertE emptyE)
    (simp_all add: standard_header_value_def header_field_selectors ewf1_identifier_of [OF assms(2)])

lemma header_fields_standard:
  assumes "ident \<in> set ewf1_standard_identifiers" "no_identifier_names cols"
  shows "standard_header_value (fold ewf1_header_field cols md) ident =
    or_else (last_value (identified cols) ident) (standard_header_value md ident)"
  using assms(2)
proof (induction cols arbitrary: md)
  case (Cons f cols)
  obtain n v where f: "f = (n, v)" by (cases f)
  from Cons.prems have "no_identifier_names cols" "n \<notin> set ewf1_standard_identifiers"
    by (simp_all add: no_identifier_names_def f)
  with Cons.IH show ?case
    by (simp add: f header_field_standard [OF assms(1)] last_value_append or_else_assoc del: rev.simps)
qed simp

lemma header_field_other:
  assumes "ident \<notin> set ewf1_standard_identifiers"
  shows "standard_header_value (fold ewf1_header_field cols md) ident = standard_header_value md ident"
proof -
  have "md_acquisition_software (ewf1_header_field f md) = md_acquisition_software md" for f md
    by (cases f) (simp add: ewf1_header_field_def Let_def)
  then have "md_acquisition_software (fold ewf1_header_field cols md) = md_acquisition_software md"
    by (induction cols arbitrary: md) simp_all
  then show ?thesis using assms by (simp add: standard_header_value_def ewf1_standard_identifiers_def)
qed

lemma tag_of_unknown: "ident \<notin> set (map fst ewf1_tags) \<Longrightarrow> ewf1_header_tag ident = ident"
  using map_of_eq_None_iff [of ewf1_tags ident] by (simp add: ewf1_header_tag_def)

lemma tag_identifier_tag: "ewf1_header_tag (ewf1_header_identifier (ewf1_header_tag k)) = ewf1_header_tag k"
proof (cases "k \<in> set (map fst ewf1_tags)")
  case True
  then show ?thesis unfolding ewf1_tags_def list.map fst_conv set_simps
    by (elim insertE emptyE) (simp_all add: ewf1_header_tag_def ewf1_header_identifier_def ewf1_tags_def ewf1_identifiers_def)
next
  case False
  then have k: "ewf1_header_tag k = k" by (rule tag_of_unknown)
  show ?thesis
  proof (cases "k \<in> set (map fst ewf1_identifiers)")
    case True
    then have "ewf1_header_tag (ewf1_header_identifier k) = k"
      unfolding ewf1_identifiers_def list.map fst_conv set_simps
      by (elim insertE emptyE) (simp_all add: ewf1_header_tag_def ewf1_header_identifier_def ewf1_tags_def ewf1_identifiers_def)
    then show ?thesis by (simp add: k)
  next
    case False
    then have "ewf1_header_identifier k = k" using map_of_eq_None_iff [of ewf1_identifiers k] by (simp add: ewf1_header_identifier_def)
    then show ?thesis by (simp add: k)
  qed
qed

lemma tags_not_identifiers: "ewf1_header_tag k \<notin> set ewf1_standard_identifiers"
proof
  assume "ewf1_header_tag k \<in> set ewf1_standard_identifiers"
  moreover have "ewf1_header_identifier i = i" "ewf1_header_tag i \<noteq> i" if "i \<in> set ewf1_standard_identifiers" for i
    using that unfolding ewf1_standard_identifiers_def set_simps
    by (elim insertE emptyE; simp add: ewf1_header_tag_def ewf1_header_identifier_def ewf1_tags_def ewf1_identifiers_def)+
  ultimately show False using tag_identifier_tag [of k] by simp
qed

lemma generic_columns:
  "map_of (fold (add_generic_field md style) hs cols) t =
     or_else (map_of cols t)
       (if md_password md \<noteq> None \<and> t = ''p'' then None
        else map_of (map (\<lambda>(k, v). written_field style (ewf1_header_tag k) v) hs) t)"
proof (induction hs arbitrary: cols)
  case (Cons h hs)
  obtain k v where h: "h = (k, v)" by (cases h)
  have dom: "(x \<in> fst ` set cols) = (map_of cols x \<noteq> None)" for x by (metis dom_map_of_conv_image_fst domIff)
  have "map_of (add_generic_field md style h cols) t =
      or_else (map_of cols t)
        (if md_password md \<noteq> None \<and> ewf1_header_tag k = ''p'' then None
         else if ewf1_header_tag k = t then Some (snd (written_field style t v)) else None)"
    by (cases "map_of cols t") (auto simp: h add_generic_field_def Let_def dom written_field_def map_add_def)
  then show ?case unfolding fold_Cons comp_def Cons.IH
    by (cases "map_of cols t") (auto simp: h written_field_def)
qed (simp add: or_else_def split: option.splits)

lemma generic_columns_distinct:
  "distinct (map fst cols) \<Longrightarrow> distinct (map fst (fold (add_generic_field md style) hs cols))"
  by (induction hs arbitrary: cols) (auto simp: add_generic_field_def written_field_def Let_def split: prod.splits)

lemma generic_columns_names:
  "c \<in> set (fold (add_generic_field md style) hs cols) \<Longrightarrow>
     c \<in> set cols \<or> (\<exists>h \<in> set hs. c = written_field style (ewf1_header_tag (fst h)) (snd h))"
proof (induction hs arbitrary: cols)
  case (Cons h hs)
  from Cons.prems have "c \<in> set (fold (add_generic_field md style) hs (add_generic_field md style h cols))" by simp
  from Cons.IH [OF this] show ?case
    by (auto simp: add_generic_field_def Let_def split: prod.splits if_splits)
qed simp

lemma present_fields_simps [simp]:
  "present_fields [] = []"
  "present_fields ((n, v) # fs) = (case v of Some x \<Rightarrow> (n, x) # present_fields fs | None \<Rightarrow> present_fields fs)"
  by (simp_all add: present_fields_def split: option.splits)

lemma present_fields_mem: "(n, v) \<in> set (present_fields fs) \<longleftrightarrow> (n, Some v) \<in> set fs"
  by (induction fs) (auto split: option.splits)

lemma fst_present_fields: "fst ` set (present_fields fs) \<subseteq> fst ` set fs"
proof
  fix n assume "n \<in> fst ` set (present_fields fs)"
  then obtain v where "(n, v) \<in> set (present_fields fs)" by auto
  then show "n \<in> fst ` set fs" unfolding present_fields_mem by (metis fst_conv imageI)
qed

lemma present_fields_distinct: "distinct (map fst fs) \<Longrightarrow> distinct (map fst (present_fields fs))"
proof (induction fs)
  case (Cons f fs)
  obtain n v where f: "f = (n, v)" by (cases f)
  have "n \<notin> fst ` set (present_fields fs)" using Cons.prems fst_present_fields [of fs] by (auto simp: f)
  then show ?case using Cons by (simp add: f split: option.splits)
qed simp

lemma map_of_present: "distinct (map fst fs) \<Longrightarrow> (n, Some v) \<in> set fs \<Longrightarrow> map_of (present_fields fs) n = Some v"
proof (induction fs)
  case (Cons f fs)
  then show ?case by (cases f) (force split: option.splits simp: image_iff)
qed simp

lemma standard_fields_distinct: "distinct (map fst (ewf1_standard_fields md))"
  by (simp add: ewf1_standard_fields_def)

lemma standard_fields_tags: "c \<in> set (ewf1_standard_fields md) \<Longrightarrow> \<exists>k. fst c = ewf1_header_tag k \<and> clean (ewf1_header_tag k)"
proof -
  assume c: "c \<in> set (ewf1_standard_fields md)"
  have "fst c \<notin> set (map fst ewf1_tags) \<and> clean (fst c)"
    using c unfolding ewf1_standard_fields_def set_simps
    by (elim insertE emptyE)
      (simp_all add: ewf1_tags_def clean_def tab_def newline_def carriage_return_def, simp_all add: char_of_def)
  then show ?thesis using tag_of_unknown by metis
qed

lemma written_standard:
  "map (\<lambda>(name, value). written_field style name value) (present_fields fs) =
    present_fields (map (\<lambda>(n, v). (n, map_option (\<lambda>v. snd (written_field style n v)) v)) fs)"
  by (induction fs) (auto simp: written_field_def split: option.splits)

lemma columns_distinct: "distinct (map fst (ewf1_header_columns md style))"
proof -
  have "map fst (map (\<lambda>(name, value). written_field style name value) (present_fields (ewf1_standard_fields md))) =
      map fst (present_fields (ewf1_standard_fields md))"
    by (auto simp: written_field_def)
  then show ?thesis unfolding ewf1_header_columns_def
    using present_fields_distinct [OF standard_fields_distinct [of md]] by (intro generic_columns_distinct) (simp only:)
qed

lemma columns_tags:
  assumes "c \<in> set (ewf1_header_columns md style)" "\<forall>h \<in> set (md_header_values md). clean (ewf1_header_tag (fst h))"
  shows "\<exists>k. fst c = ewf1_header_tag k" "clean (fst c) \<and> clean (snd c)"
proof -
  from generic_columns_names [OF assms(1) [unfolded ewf1_header_columns_def]]
  have *: "(\<exists>k. fst c = ewf1_header_tag k \<and> clean (ewf1_header_tag k)) \<and> clean (snd c)"
  proof (elim disjE bexE)
    assume "c \<in> set (map (\<lambda>(name, value). written_field style name value) (present_fields (ewf1_standard_fields md)))"
    then obtain n v where c: "c = written_field style n v" "(n, Some v) \<in> set (ewf1_standard_fields md)"
      by (auto simp: present_fields_mem)
    then show ?thesis using standard_fields_tags [OF c(2)] sanitize_clean by (auto simp: written_field_def)
  next
    fix h assume "h \<in> set (md_header_values md)" "c = written_field style (ewf1_header_tag (fst h)) (snd h)"
    then show ?thesis using assms(2) sanitize_clean by (auto simp: written_field_def)
  qed
  then show "\<exists>k. fst c = ewf1_header_tag k" "clean (fst c) \<and> clean (snd c)" by auto
qed

definition nonempty :: "string option \<Rightarrow> string option" where
  "nonempty v = (case v of Some s \<Rightarrow> if s = [] then None else Some s | None \<Rightarrow> None)"

lemma last_identified:
  "distinct (map fst cols) \<Longrightarrow> \<forall>c \<in> set cols. ewf1_header_identifier (fst c) = ident \<longleftrightarrow> fst c = t \<Longrightarrow>
     last_value (identified cols) ident = nonempty (map_of cols t)"
proof (induction cols)
  case (Cons c cols)
  obtain n v where c: "c = (n, v)" by (cases c)
  have IH: "last_value (identified cols) ident = nonempty (map_of cols t)" using Cons by simp
  have "n = t \<Longrightarrow> map_of cols t = None" using Cons.prems(1) by (simp add: c map_of_eq_None_iff)
  then show ?case using Cons.prems(2) IH
    by (auto simp: c last_value_append nonempty_def simp del: rev.simps split: option.splits)
qed (simp add: nonempty_def)

lemma standard_column:
  assumes "(tag, Some v) \<in> set (ewf1_standard_fields md)"
  shows "map_of (ewf1_header_columns md style) tag = Some (snd (written_field style tag v))"
proof -
  have "map_of (present_fields (map (\<lambda>(n, v). (n, map_option (\<lambda>v. snd (written_field style n v)) v)) (ewf1_standard_fields md))) tag =
      Some (snd (written_field style tag v))"
  proof (rule map_of_present)
    show "distinct (map fst (map (\<lambda>(n, v). (n, map_option (\<lambda>v. snd (written_field style n v)) v)) (ewf1_standard_fields md)))"
      using standard_fields_distinct [of md] by (simp add: comp_def case_prod_unfold)
    show "(tag, Some (snd (written_field style tag v))) \<in> set (map (\<lambda>(n, v). (n, map_option (\<lambda>v. snd (written_field style n v)) v)) (ewf1_standard_fields md))"
      using assms by force
  qed
  then show ?thesis unfolding ewf1_header_columns_def written_standard by (simp add: generic_columns)
qed

lemma columns_nonempty:
  assumes "\<not> list_all (\<lambda>(_, value). value = None) (ewf1_standard_fields md) \<or> md_header_values md \<noteq> []"
  shows "ewf1_header_columns md style \<noteq> []"
proof (cases "list_all (\<lambda>(_, value). value = None) (ewf1_standard_fields md)")
  case False
  then obtain n v where "(n, Some v) \<in> set (ewf1_standard_fields md)" by (auto simp: list_all_iff)
  from standard_column [OF this, of style] show ?thesis by auto
next
  case True
  then obtain k v hs where hs: "md_header_values md = (k, v) # hs" using assms by (cases "md_header_values md") auto
  have "md_password md = None" using True by (simp add: ewf1_standard_fields_def)
  moreover have "present_fields (ewf1_standard_fields md) = []" using True by (simp add: ewf1_standard_fields_def)
  ultimately have "map_of (ewf1_header_columns md style) (ewf1_header_tag k) = Some (snd (written_field style (ewf1_header_tag k) v))"
    unfolding ewf1_header_columns_def by (simp add: generic_columns hs written_field_def add_generic_field_def Let_def)
  then show ?thesis by auto
qed

lemma header_text_read_back:
  assumes "ewf1_header_text md style = Some s" "\<forall>h \<in> set (md_header_values md). clean (ewf1_header_tag (fst h))"
    and "ewf1_header_identifier (ewf1_header_tag ident) = ident"
  shows "header_value (parse_header_text s metadata_default) ident =
    nonempty (map_of (ewf1_header_columns md style) (ewf1_header_tag ident))"
proof -
  let ?cols = "ewf1_header_columns md style"
  have s: "s = table_text ?cols" and some: "\<not> list_all (\<lambda>(_, value). value = None) (ewf1_standard_fields md) \<or> md_header_values md \<noteq> []"
    using assms(1) by (auto simp: ewf1_header_text_def split: if_splits)
  have "\<forall>c \<in> set ?cols. clean (fst c) \<and> clean (snd c)" using columns_tags(2) [OF _ assms(2)] by blast
  then have fields: "tabular_fields s = ?cols"
    using tabular_fields_table [of ?cols "[]"] columns_nonempty [OF some, of style] by (simp add: s)
  have same: "\<forall>c \<in> set ?cols. ewf1_header_identifier (fst c) = ident \<longleftrightarrow> fst c = ewf1_header_tag ident"
  proof
    fix c assume "c \<in> set ?cols"
    then obtain k where "fst c = ewf1_header_tag k" using columns_tags(1) [OF _ assms(2)] by blast
    then show "ewf1_header_identifier (fst c) = ident \<longleftrightarrow> fst c = ewf1_header_tag ident"
      using assms(3) tag_identifier_tag [of k] by auto
  qed
  have last: "last_value (identified ?cols) ident = nonempty (map_of ?cols (ewf1_header_tag ident))"
    by (rule last_identified [OF columns_distinct same])
  have "no_identifier_names ?cols"
    unfolding no_identifier_names_def using columns_tags(1) [OF _ assms(2)] tags_not_identifiers by metis
  from header_fields_standard [OF _ this] have std: "ident \<in> set ewf1_standard_identifiers \<Longrightarrow>
      standard_header_value (parse_header_text s metadata_default) ident = or_else (last_value (identified ?cols) ident) (standard_header_value metadata_default ident)"
    by (simp add: parse_header_text_def fields)
  have none: "standard_header_value metadata_default ident = None"
    by (simp add: standard_header_value_def metadata_default_def)
  have "map_of (md_header_values (parse_header_text s metadata_default)) ident = last_value (identified ?cols) ident"
    by (simp add: parse_header_text_def fields header_fields_values metadata_default_def)
  then show ?thesis unfolding header_value_def
    using std none last header_field_other [of ident ?cols metadata_default]
    by (cases "ident \<in> set ewf1_standard_identifiers") (simp_all add: parse_header_text_def fields or_else_def split: option.splits)
qed

section \<open>XML documents\<close>

definition valid_tag :: "string \<Rightarrow> bool" where
  "valid_tag t \<longleftrightarrow> t \<noteq> [] \<and> list_all visible t \<and> CHR ''<'' \<notin> set t \<and> CHR ''>'' \<notin> set t \<and>
     hd t \<notin> {CHR ''/'', CHR ''?'', CHR ''!''}"

lemma after_find_suffix: "p \<noteq> [] \<Longrightarrow> after_find (p @ s) p = Some ([], s)"
  using starts_with_append [of p s] by (cases p) (simp_all add: after_find_def)

lemma after_find_at: "find_str (a @ p @ b) p = Some (length a) \<Longrightarrow> after_find (a @ p @ b) p = Some (a, b)"
  by (simp add: after_find_def)

lemma angle_not_white: "CHR ''<'' \<noteq> tab" "CHR ''<'' \<noteq> newline"
  by (simp_all add: tab_def newline_def) (simp_all add: char_of_def)

lemma xml_children_element:
  assumes "valid_tag t" "CHR ''<'' \<notin> set v" "CHR ''<'' \<notin> set pre"
  shows "xml_children (pre @ xml_element t v @ s) = (t, v) # xml_children (newline # s)"
proof -
  let ?close = "''</'' @ t @ ''>''"
  let ?rest = "v @ ?close @ newline # s"
  have body: "pre @ xml_element t v @ s = (pre @ [tab]) @ CHR ''<'' # t @ CHR ''>'' # ?rest"
    by (simp add: xml_element_def)
  have a: "after_find (pre @ xml_element t v @ s) ''<'' = Some (pre @ [tab], t @ CHR ''>'' # ?rest)"
    unfolding body by (rule after_find_char) (use assms(3) angle_not_white in auto)
  have b: "after_find (t @ CHR ''>'' # ?rest) ''>'' = Some (t, ?rest)"
    by (rule after_find_char) (use assms(1) in \<open>simp add: valid_tag_def\<close>)
  have c: "after_find ?rest ?close = Some (v, newline # s)"
    by (rule after_find_clear) (use assms(2) in simp_all)
  have w: "first_word t = t" using assms(1) by (simp add: first_word_def split_whitespace_last valid_tag_def)
  have h: "\<not> (t @ CHR ''>'' # ?rest \<noteq> [] \<and> hd (t @ CHR ''>'' # ?rest) \<in> {CHR ''/'', CHR ''?'', CHR ''!''})" "t \<noteq> []"
    using assms(1) by (simp_all add: valid_tag_def)
  show ?thesis
    by (subst xml_children.simps) (simp only: a b c w h option.case prod.case Let_def if_False)
qed

lemma xml_children_elements:
  assumes "\<forall>(t, v) \<in> set cs. valid_tag t \<and> CHR ''<'' \<notin> set v"
  shows "CHR ''<'' \<notin> set pre \<Longrightarrow> xml_children (pre @ concat (map (\<lambda>(t, v). xml_element t v) cs)) = cs"
  using assms
proof (induction cs arbitrary: pre)
  case Nil
  then show ?case by (subst xml_children.simps) (simp add: after_find_no_char)
next
  case (Cons c cs)
  obtain t v where c: "c = (t, v)" by (cases c)
  have "CHR ''<'' \<notin> set [newline]" using angle_not_white by simp
  then have "xml_children ([newline] @ concat (map (\<lambda>(t, v). xml_element t v) cs)) = cs"
    using Cons.prems(2) by (intro Cons.IH) simp_all
  then show ?case
    using Cons.prems xml_children_element [of t v pre "concat (map (\<lambda>(t, v). xml_element t v) cs)"] by (simp add: c)
qed

lemma starts_with_tag:
  assumes "CHR ''>'' \<notin> set t" "CHR ''>'' \<notin> set r" "starts_with (t @ CHR ''>'' # x) (r @ ''>'')"
  shows "t = r"
proof -
  obtain y where "t @ CHR ''>'' # x = (r @ ''>'') @ y" using assms(3) unfolding starts_with_iff by blast
  then have "t @ CHR ''>'' # x = r @ CHR ''>'' # y" by simp
  then have "Some (t, x) = Some (r, y)"
    using after_find_char [OF assms(1), of x] after_find_char [OF assms(2), of y] by metis
  then show ?thesis by simp
qed

lemma find_past_element:
  assumes "valid_tag t" "valid_tag r" "t \<noteq> r" "CHR ''<'' \<notin> set v"
  shows "find_str (xml_element t v @ s) (''</'' @ r @ ''>'') =
    map_option (\<lambda>i. length (xml_element t v) + i) (find_str s (''</'' @ r @ ''>''))"
proof -
  let ?p = "''</'' @ r @ ''>''"
  let ?close = "CHR ''/'' # t @ ''>'' @ [newline]"
  have t: "t \<noteq> []" "hd t \<noteq> CHR ''/''" "CHR ''<'' \<notin> set t" "CHR ''>'' \<notin> set t" "CHR ''>'' \<notin> set r"
    using assms(1,2) by (auto simp: valid_tag_def)
  have split: "xml_element t v @ s = [tab] @ CHR ''<'' # (t @ CHR ''>'' # v) @ CHR ''<'' # ?close @ s"
    by (simp add: xml_element_def)
  have "\<not> starts_with (CHR ''<'' # (t @ CHR ''>'' # v) @ CHR ''<'' # ?close @ s) ?p"
    using t by (cases t) auto
  moreover have "\<not> starts_with (CHR ''<'' # ?close @ s) ?p"
    using starts_with_tag [OF t(4,5), of "newline # s"] assms(3) by auto
  ultimately have
    "find_str (CHR ''<'' # (t @ CHR ''>'' # v) @ CHR ''<'' # ?close @ s) ?p =
      map_option (\<lambda>i. Suc (length (t @ CHR ''>'' # v)) + i) (find_str (CHR ''<'' # ?close @ s) ?p)"
    "find_str (CHR ''<'' # ?close @ s) ?p = map_option (\<lambda>i. Suc (length ?close) + i) (find_str s ?p)"
    using t(3) assms(4) angle_not_white by (intro find_str_skip_one; simp)+
  moreover have "find_str ([tab] @ u) ?p = map_option (\<lambda>i. length [tab] + i) (find_str u ?p)" for u
    by (rule find_str_skip) (use angle_not_white in simp_all)
  ultimately show ?thesis unfolding split
    by (cases "find_str s ?p") (simp_all only: option.map, simp_all add: xml_element_def)
qed

lemma find_past_elements:
  assumes "valid_tag r" "\<forall>(t, v) \<in> set cs. valid_tag t \<and> t \<noteq> r \<and> CHR ''<'' \<notin> set v"
  shows "find_str (concat (map (\<lambda>(t, v). xml_element t v) cs) @ ''</'' @ r @ ''>'' @ s) (''</'' @ r @ ''>'') =
    Some (length (concat (map (\<lambda>(t, v). xml_element t v) cs)))"
  using assms(2)
proof (induction cs)
  case Nil
  show ?case using find_str_clear [of "''</'' @ r @ ''>''" "[]" s] by simp
next
  case (Cons c cs)
  obtain t v where c: "c = (t, v)" by (cases c)
  with Cons.prems have "valid_tag t" "t \<noteq> r" "CHR ''<'' \<notin> set v" by simp_all
  with Cons find_past_element [OF _ assms(1), of t v] show ?case by (simp add: c)
qed

lemma xml_document_children:
  assumes "valid_tag r" "\<forall>(t, v) \<in> set cs. valid_tag t \<and> t \<noteq> r \<and> CHR ''<'' \<notin> set v"
  shows "simple_xml_children (xml_document r cs) r = cs"
proof -
  let ?es = "concat (map (\<lambda>(t, v). xml_element t v) cs)"
  let ?tail = "[newline, newline]"
  let ?rest = "[newline] @ ?es @ ''</'' @ r @ ''>'' @ ?tail"
  obtain decl where decl: "xml_declaration = CHR ''<'' # CHR ''?'' # decl" "CHR ''<'' \<notin> set decl"
    using angle_not_white by (simp add: xml_declaration_def double_quote_def) (simp add: char_of_def)
  have doc: "xml_document r cs = CHR ''<'' # (CHR ''?'' # decl) @ ''<'' @ r @ CHR ''>'' # ?rest"
    by (simp add: xml_document_def decl(1))
  have r: "r \<noteq> []" "hd r \<noteq> CHR ''?''" "CHR ''>'' \<notin> set (''<'' @ r)" using assms(1) by (auto simp: valid_tag_def)
  have "\<not> starts_with (CHR ''<'' # (CHR ''?'' # decl) @ ''<'' @ r @ CHR ''>'' # ?rest) (''<'' @ r)"
    using r by (cases r) auto
  moreover have "find_str (''<'' @ r @ CHR ''>'' # ?rest) (''<'' @ r) = Some 0"
    using starts_with_append [of "''<'' @ r" "CHR ''>'' # ?rest"] by simp
  ultimately have start: "find_str (xml_document r cs) (''<'' @ r) = Some (length decl + 2)"
    unfolding doc using decl(2) by (subst find_str_skip_one) simp_all
  have at: "drop (length decl + 2) (xml_document r cs) = (''<'' @ r) @ CHR ''>'' # ?rest"
    unfolding doc by simp
  have opened: "after_find ((''<'' @ r) @ CHR ''>'' # ?rest) ''>'' = Some (''<'' @ r, ?rest)"
    by (rule after_find_char [OF r(3)])
  have "find_str ?rest (''</'' @ r @ ''>'') = map_option (\<lambda>i. length [newline] + i) (find_str (?es @ ''</'' @ r @ ''>'' @ ?tail) (''</'' @ r @ ''>''))"
    by (rule find_str_skip) (use angle_not_white in simp_all)
  then have "find_str ?rest (''</'' @ r @ ''>'') = Some (length ([newline] @ ?es))"
    unfolding find_past_elements [OF assms] by simp
  then have closed: "after_find ?rest (''</'' @ r @ ''>'') = Some ([newline] @ ?es, ?tail)"
    using after_find_at [of "[newline] @ ?es" "''</'' @ r @ ''>''" ?tail] by simp
  have "xml_root_body (xml_document r cs) r = Some ([newline] @ ?es)"
    unfolding xml_root_body_def start at bind.bind_lunit opened prod.case closed by simp
  moreover have "xml_children ([newline] @ ?es) = cs"
    by (rule xml_children_elements) (use assms(2) angle_not_white in auto)
  ultimately show ?thesis unfolding simple_xml_children_def by simp
qed

lemma xml_bytes_decoded:
  "utf8_string s \<Longrightarrow> str_of (from_utf8_lossy (strip_bom (BOM @ bytes_of s))) = s"
  using starts_with_append [of BOM "bytes_of s"]
  by (simp add: strip_bom_def strip_prefix_def from_utf8_lossy_string flip: BOM_def)

lemma utf8_document:
  assumes "list_all visible r" "\<forall>(t, v) \<in> set cs. list_all visible t \<and> utf8_string v"
  shows "utf8_string (xml_document r cs)"
proof -
  have "list_all (\<lambda>c. code c < 128) xml_declaration"
    by (simp add: xml_declaration_def double_quote_def code_numerals) (simp add: code_def)
  then have decl: "utf8_string xml_declaration" by (rule utf8_string_ascii)
  have el: "utf8_string (xml_element t v)" if "list_all visible t" "utf8_string v" for t v
    using that utf8_visible [of t] by (auto simp: xml_element_def code_numerals intro!: utf8_string_append utf8_string_Cons) (simp_all add: code_def)
  have "utf8_string (concat (map (\<lambda>(t, v). xml_element t v) cs))"
    by (rule utf8_string_concat) (use assms(2) el in fastforce)
  then show ?thesis using decl utf8_visible [OF assms(1)]
    by (auto simp: xml_document_def code_numerals intro!: utf8_string_append utf8_string_Cons) (simp_all add: code_def)
qed

section \<open>XML headers and hashes\<close>

definition trimmed :: "string \<Rightarrow> bool" where
  "trimmed v \<longleftrightarrow> ws_length v = 0 \<and> ws_length_end v = 0"

lemma escape_Cons: "escape_xml_text (c # v) = escape_char c @ escape_xml_text v"
  by (simp add: escape_xml_text_def)

lemma xheader_child_selectors:
  "md_case_number (xheader_child (t, s) md) = (if trim s \<noteq> [] \<and> t = ''case_number'' then Some (decode_xml_entities (trim s)) else md_case_number md)"
  "md_description (xheader_child (t, s) md) = (if trim s \<noteq> [] \<and> t = ''description'' then Some (decode_xml_entities (trim s)) else md_description md)"
  "md_examiner (xheader_child (t, s) md) = (if trim s \<noteq> [] \<and> t = ''examiner_name'' then Some (decode_xml_entities (trim s)) else md_examiner md)"
  "md_evidence_number (xheader_child (t, s) md) = (if trim s \<noteq> [] \<and> t = ''evidence_number'' then Some (decode_xml_entities (trim s)) else md_evidence_number md)"
  "md_notes (xheader_child (t, s) md) = (if trim s \<noteq> [] \<and> t = ''notes'' then Some (decode_xml_entities (trim s)) else md_notes md)"
  "md_os_version (xheader_child (t, s) md) = (if trim s \<noteq> [] \<and> t = ''acquiry_operating_system'' then Some (decode_xml_entities (trim s)) else md_os_version md)"
  "md_acquisition_date (xheader_child (t, s) md) = (if trim s \<noteq> [] \<and> t = ''acquiry_date'' then Some (decode_xml_entities (trim s)) else md_acquisition_date md)"
  "md_acquisition_software (xheader_child (t, s) md) = (if trim s \<noteq> [] \<and> t = ''acquiry_software'' then Some (decode_xml_entities (trim s)) else md_acquisition_software md)"
  "md_acquisition_software_version (xheader_child (t, s) md) = (if trim s \<noteq> [] \<and> t = ''acquiry_software_version'' then Some (decode_xml_entities (trim s)) else md_acquisition_software_version md)"
  "md_password (xheader_child (t, s) md) = (if trim s \<noteq> [] \<and> t = ''password'' then Some (decode_xml_entities (trim s)) else md_password md)"
  "md_system_date (xheader_child (t, s) md) = md_system_date md"
  "md_header_values (xheader_child (t, s) md) =
    (if trim s \<noteq> [] then btree_or_insert t (decode_xml_entities (trim s)) (md_header_values md) else md_header_values md)"
  by (simp_all add: xheader_child_def Let_def)

lemma xheader_child_value:
  assumes "trim s = escape_xml_text v" "v \<noteq> []" "header_value md t = None"
  shows "header_value (xheader_child (t, s) md) k = (if k = t then Some v else header_value md k)"
proof -
  have e: "escape_xml_text v \<noteq> []" using decode_escape [of v] assms(2) by (auto simp: decode_xml_entities.simps after_find_no_char)
  have t: "standard_header_value md t = None" "map_of (md_header_values md) t = None"
    using assms(3) by (auto simp: header_value_def or_else_def split: option.splits)
  have h: "map_of (md_header_values (xheader_child (t, s) md)) k = (if k = t then Some v else map_of (md_header_values md) k)"
    using t(2) by (simp add: xheader_child_selectors assms(1) e decode_escape map_of_btree_or_insert)
  have "standard_header_value (xheader_child (t, s) md) k = (if k = t \<and> t \<in> set (map fst (xheader_fields md)) then Some v else standard_header_value md k)"
  proof (cases "k \<in> set (''system_date'' # map fst (xheader_fields md))")
    case True
    then show ?thesis unfolding xheader_fields_def list.map fst_conv set_simps
      by (elim insertE emptyE)
        (simp_all add: standard_header_value_def xheader_child_selectors assms(1) e decode_escape, auto)
  next
    case False
    then show ?thesis by (cases "k = t") (simp_all add: standard_header_value_def xheader_fields_def)
  qed
  then show ?thesis unfolding header_value_def using h t by (simp add: or_else_def split: option.splits)
qed

lemma xheader_values_read:
  assumes "distinct (map fst vs)" "\<forall>(t, v) \<in> set vs. v \<noteq> [] \<and> trim (escape_xml_text v) = escape_xml_text v"
    "\<forall>(t, v) \<in> set vs. header_value md t = None"
  shows "header_value (fold xheader_child (map (\<lambda>(t, v). (t, escape_xml_text v)) vs) md) k =
    (case map_of vs k of Some v \<Rightarrow> Some v | None \<Rightarrow> header_value md k)"
  using assms
proof (induction vs arbitrary: md)
  case (Cons c vs)
  obtain t v where c: "c = (t, v)" by (cases c)
  have step: "header_value (xheader_child (t, escape_xml_text v) md) j = (if j = t then Some v else header_value md j)" for j
    using Cons.prems by (intro xheader_child_value) (simp_all add: c)
  have "header_value (fold xheader_child (map (\<lambda>(t, v). (t, escape_xml_text v)) vs) (xheader_child (t, escape_xml_text v) md)) k =
      (case map_of vs k of Some v \<Rightarrow> Some v | None \<Rightarrow> header_value (xheader_child (t, escape_xml_text v) md) k)"
  proof (rule Cons.IH)
    show "\<forall>(u, w) \<in> set vs. header_value (xheader_child (t, escape_xml_text v) md) u = None"
    proof (clarify)
      fix u w assume "(u, w) \<in> set vs"
      moreover from this have "u \<noteq> t" using Cons.prems(1) by (auto simp: c image_iff)
      ultimately show "header_value (xheader_child (t, escape_xml_text v) md) u = None"
        using Cons.prems(3) by (auto simp: c step)
    qed
  qed (use Cons.prems in \<open>simp_all add: c\<close>)
  moreover have "map_of vs t = None" using Cons.prems(1) by (simp add: c map_of_eq_None_iff)
  ultimately show ?case by (auto simp: c step split: option.splits)
qed simp

lemma xheader_read_back:
  assumes "\<forall>(t, v) \<in> set (xheader_values md). valid_tag t \<and> t \<noteq> ''xheader'' \<and> utf8_string v \<and> trim (escape_xml_text v) = escape_xml_text v \<and> v \<noteq> []"
    and "distinct (map fst (xheader_values md))"
  shows "header_value (parse_xheader_data (BOM @ bytes_of (xheader_text md)) metadata_default) k = map_of (xheader_values md) k"
proof -
  let ?cs = "map (\<lambda>(t, v). (t, escape_xml_text v)) (xheader_values md)"
  have valid: "valid_tag ''xheader''" by (simp add: valid_tag_def visible_def code_def)
  have "simple_xml_children (xheader_text md) ''xheader'' = ?cs"
    unfolding xheader_text_def
    by (rule xml_document_children [OF valid]) (use assms(1) escape_no_angle in auto)
  moreover have "utf8_string (xheader_text md)"
    unfolding xheader_text_def by (rule utf8_document) (use assms(1) utf8_escape valid in \<open>auto simp: valid_tag_def\<close>)
  ultimately have "parse_xheader_data (BOM @ bytes_of (xheader_text md)) metadata_default = fold xheader_child ?cs metadata_default"
    by (simp add: parse_xheader_data_def xml_bytes_decoded)
  moreover have "header_value metadata_default j = None" for j
    by (simp add: header_value_def standard_header_value_def metadata_default_def)
  ultimately show ?thesis
    using xheader_values_read [of "xheader_values md" metadata_default k] assms by (fastforce split: option.splits)
qed

section \<open>EWF2 texts\<close>

definition metadata_utf8 :: "ewf_metadata \<Rightarrow> bool" where
  "metadata_utf8 md \<longleftrightarrow> (\<forall>k v. header_value md k = Some v \<longrightarrow> utf8_string v) \<and>
     (\<forall>(k, v) \<in> set (md_header_values md). utf8_string k \<and> utf8_string v)"

lemma utf8_table:
  assumes "\<forall>(n, v) \<in> set cols. utf8_string n \<and> utf8_string v"
  shows "utf8_string (ewf2_table_text cols)"
proof -
  have "utf8_string (join [tab] (map fst cols))" "utf8_string (join [tab] (map snd cols))"
    using assms by (intro utf8_string_join; auto intro!: utf8_string_Cons simp: code_numerals)+
  then show ?thesis
    by (auto simp: ewf2_table_text_def table_text_def code_numerals intro!: utf8_string_append utf8_string_Cons) (simp_all add: code_def)
qed

lemma or_default_utf8: "(\<And>v. x = Some v \<Longrightarrow> utf8_string v) \<Longrightarrow> utf8_string (or_default x)"
  by (cases x) (simp_all add: or_default_def)

lemma first_alias_mem: "first_alias md as = Some v \<Longrightarrow> \<exists>k. map_of (md_header_values md) k = Some v"
  by (induction as) (auto simp: first_alias_def or_else_def split: option.splits)

lemma looked_up_utf8:
  assumes "metadata_utf8 md" "or_else (header_value md i) (first_alias md as) = Some v"
  shows "utf8_string v"
proof (cases "header_value md i")
  case None
  with assms(2) have "first_alias md as = Some v" by simp
  then obtain k where "map_of (md_header_values md) k = Some v" using first_alias_mem by blast
  then show ?thesis using assms(1) by (auto simp: metadata_utf8_def dest!: map_of_SomeD)
qed (use assms in \<open>auto simp: metadata_utf8_def\<close>)

lemma device_value_ok:
  assumes "metadata_utf8 md"
  shows "utf8_string (ewf2_device_header_value md i as)" "clean (ewf2_device_header_value md i as)"
  using looked_up_utf8 [OF assms, of i as] utf8_sanitize sanitize_clean
  by (auto simp: ewf2_device_header_value_def or_default_def clean_def split: option.splits)

lemma clean_digits: "list_all is_ascii_digit s \<Longrightarrow> clean s"
  by (auto simp: clean_def list_all_iff is_ascii_digit_def code_numerals)

lemma clean_dec [simp]: "clean (dec n)"
  by (rule clean_digits [OF digits_dec])

lemma clean_Nil [simp]: "clean []"
  by (simp add: clean_def)

text \<open>Media types the text form can hold: an unknown one is a visible ASCII letter of its own.\<close>

definition media_type_writable :: "media_type \<Rightarrow> bool" where
  "media_type_writable t =
     (case t of MediaUnknown v \<Rightarrow> 33 \<le> v \<and> v < 127 \<and> char_of (unat v) \<notin> {CHR ''c'', CHR ''f'', CHR ''l'', CHR ''m'', CHR ''r''}
      | _ \<Rightarrow> True)"

lemma media_type_text:
  assumes "media_type_writable t"
  shows "parse_ewf2_media_type (ewf2_media_type_value t) = Some t" "utf8_string (ewf2_media_type_value t)"
    "clean (ewf2_media_type_value t)"
proof -
  have *: "parse_ewf2_media_type (ewf2_media_type_value t) = Some t \<and> utf8_string (ewf2_media_type_value t) \<and> clean (ewf2_media_type_value t)"
  proof (cases t)
    case (MediaUnknown v)
    with assms have v: "33 \<le> unat v" "unat v < 127" "char_of (unat v) \<notin> {CHR ''c'', CHR ''f'', CHR ''l'', CHR ''m'', CHR ''r''}"
      by (simp_all add: media_type_writable_def word_le_nat_alt word_less_nat_alt)
    then have t: "ewf2_media_type_value t = [char_of (unat v)]"
      by (simp add: MediaUnknown ewf2_media_type_value_def string_of_chars_def utf8_encode_def)
    have c: "code (char_of (unat v)) = unat v" using v by simp
    then have "tab \<noteq> char_of (unat v)" "newline \<noteq> char_of (unat v)" "carriage_return \<noteq> char_of (unat v)"
      using v unfolding code_inj [symmetric] c code_numerals by simp_all
    then show ?thesis unfolding t using v c
      by (auto simp: parse_ewf2_media_type_def MediaUnknown Let_def clean_def intro!: utf8_string_Cons)
  qed (simp_all add: ewf2_media_type_value_def parse_ewf2_media_type_def clean_def flip: code_inj,
      simp_all add: code_numerals, simp_all add: code_def utf8_string_Cons)
  then show "parse_ewf2_media_type (ewf2_media_type_value t) = Some t" "utf8_string (ewf2_media_type_value t)"
    "clean (ewf2_media_type_value t)" by simp_all
qed

lemma parse_u64_dec: "n < 2 ^ 64 \<Longrightarrow> parse_u64 (dec n) = Some (word_of_nat n)"
  by (simp add: parse_u64_def parse_unsigned_dec)

lemma parse_u64_unat [simp]: "parse_u64 (dec (unat (v :: u64))) = Some v"
  using unat_64_less [of v] by (simp add: parse_u64_dec)

lemma parse_u64_unat32 [simp]: "parse_u64 (dec (unat (v :: u32))) = Some (ucast v)"
  using unat_32_less [of v] parse_u64_dec [of "unat v"] by simp

lemma small_texts: "dec 0 = ''0''" "dec 1 = ''1''" "dec 2 = ''2''" "dec 3 = ''3''"
  by code_simp+

lemma device_columns_fine:
  assumes "metadata_utf8 md" "media_type_writable (case mp_media_type (wo_media_profile options) of Some t \<Rightarrow> t | None \<Rightarrow> Removable)"
  shows "\<forall>c \<in> set (ewf2_device_columns md options sc cc). (clean (fst c) \<and> clean (snd c)) \<and> utf8_string (fst c) \<and> utf8_string (snd c)"
proof -
  let ?names = "[''sn'', ''md'', ''lb'', ''ts'', ''hs'', ''dc'', ''dt'', ''pid'', ''rs'', ''ls'', ''bp'', ''ph'', ''sc'', ''tb'', ''gr'', ''wb'']"
  have names: "clean n \<and> utf8_string n" if "n \<in> set ?names" for n
  proof -
    have "list_all (\<lambda>c. 97 \<le> code c \<and> code c < 123) n"
      using that unfolding set_simps by (elim insertE emptyE) (simp_all add: code_def)
    then have "\<And>c. c \<in> set n \<Longrightarrow> 97 \<le> code c" "\<And>c. c \<in> set n \<Longrightarrow> code c < 128" by (auto simp: list_all_iff)
    then show ?thesis unfolding clean_def
      by (intro conjI utf8_string_ascii) (force simp: list_all_iff code_numerals)+
  qed
  then have "\<forall>n \<in> set ?names. clean n \<and> utf8_string n" by blast
  then have "list_all (\<lambda>c. (clean (fst c) \<and> clean (snd c)) \<and> utf8_string (fst c) \<and> utf8_string (snd c)) (ewf2_device_columns md options sc cc)"
    using device_value_ok [OF assms(1)] media_type_text(2,3) [OF assms(2)]
    by (simp add: ewf2_device_columns_def Let_def split: option.split)
  then show ?thesis by (simp add: list_all_iff)
qed

lemma device_info_other:
  "name \<notin> {''dt'', ''ph'', ''wb'', ''b'', ''bp'', ''gr'', ''sc'', ''sb'', ''ts'', ''tb''} \<Longrightarrow> ewf2_device_info_field (name, v) g = g"
  by (auto simp: ewf2_device_info_field_def split: option.splits)

lemma device_info_fields:
  "ewf2_device_info_field (''dt'', v) g = g\<lparr>g2_media_type := parse_ewf2_media_type v\<rparr>"
  "parse_u64 v = Some n \<Longrightarrow> ewf2_device_info_field (''bp'', v) g = g\<lparr>g2_bytes_per_sector := Some n\<rparr>"
  "parse_u64 v = Some n \<Longrightarrow> ewf2_device_info_field (''gr'', v) g = g\<lparr>g2_error_granularity := Some n\<rparr>"
  "parse_u64 v = Some n \<Longrightarrow> ewf2_device_info_field (''sc'', v) g = g\<lparr>g2_sectors_per_chunk := Some n\<rparr>"
  "parse_u64 v = Some n \<Longrightarrow> ewf2_device_info_field (''ts'', v) g = g\<lparr>g2_sector_count := Some n\<rparr>"
  "parse_u64 v = Some n \<Longrightarrow> ewf2_device_info_field (''tb'', v) g = g\<lparr>g2_chunk_count := Some n\<rparr>"
  by (simp_all add: ewf2_device_info_field_def)

lemma device_info_physical: "ewf2_device_info_field (''ph'', dec (if b then 1 else 0)) g = g\<lparr>g2_physical := Some b\<rparr>"
  by (cases b) (simp_all add: ewf2_device_info_field_def small_texts small_texts(2) [simplified])

lemma device_info_blockers:
  "ewf2_device_info_field (''wb'', dec (write_blocker_flags p)) g =
    g\<lparr>g2_fastbloc := (g2_fastbloc g \<or> mp_fastbloc p), g2_tableau := (g2_tableau g \<or> mp_tableau p)\<rparr>"
proof -
  have "parse_u64 (dec (write_blocker_flags p)) = Some (word_of_nat (write_blocker_flags p))"
    by (rule parse_u64_dec) (simp add: write_blocker_flags_def)
  then show ?thesis
    by (cases "mp_fastbloc p"; cases "mp_tableau p") (simp_all add: ewf2_device_info_field_def write_blocker_flags_def)
qed

definition geometry_written :: "write_options \<Rightarrow> u64 \<Rightarrow> u64 \<Rightarrow> ewf2_geometry" where
  "geometry_written options sector_count chunk_count =
    \<lparr>g2_sectors_per_chunk = Some (ucast (wo_sectors_per_chunk options)),
     g2_bytes_per_sector = Some (ucast (wo_bytes_per_sector options)),
     g2_sector_count = Some sector_count, g2_chunk_count = Some chunk_count,
     g2_error_granularity = mp_error_granularity (wo_media_profile options),
     g2_chunk_size = None, g2_logical_size = None,
     g2_media_type = Some (case mp_media_type (wo_media_profile options) of Some t \<Rightarrow> t | None \<Rightarrow> Removable),
     g2_physical = Some (wo_format options = Ewf2Physical),
     g2_fastbloc = mp_fastbloc (wo_media_profile options), g2_tableau = mp_tableau (wo_media_profile options)\<rparr>"

lemma device_fields_fold:
  assumes "media_type_writable (case mp_media_type (wo_media_profile options) of Some t \<Rightarrow> t | None \<Rightarrow> Removable)"
  shows "fold ewf2_device_info_field (ewf2_device_columns md options sc cc) ewf2_geometry_default = geometry_written options sc cc"
proof -
  let ?p = "wo_media_profile options"
  let ?g = "geometry_written options sc cc\<lparr>g2_error_granularity := None, g2_fastbloc := False, g2_tableau := False\<rparr>"
  have base: "fold ewf2_device_info_field (take 14 (ewf2_device_columns md options sc cc)) ewf2_geometry_default = ?g"
    by (simp add: ewf2_device_columns_def Let_def device_info_fields device_info_other device_info_physical
        media_type_text(1) [OF assms] ewf2_geometry_default_def geometry_written_def del: One_nat_def)
  have split: "ewf2_device_columns md options sc cc = take 14 (ewf2_device_columns md options sc cc) @
      (case mp_error_granularity ?p of Some g \<Rightarrow> [(''gr'', dec (unat g))] | None \<Rightarrow> []) @
      (if write_blocker_flags ?p \<noteq> 0 then [(''wb'', dec (write_blocker_flags ?p))] else [])"
    by (simp add: ewf2_device_columns_def Let_def)
  have blockers: "write_blocker_flags ?p = 0 \<longleftrightarrow> \<not> mp_fastbloc ?p \<and> \<not> mp_tableau ?p"
    by (simp add: write_blocker_flags_def)
  show ?thesis
    by (subst split) (auto simp: base device_info_fields device_info_blockers blockers geometry_written_def split: option.splits)
qed

lemma device_geometry_read_back:
  fixes sc cc :: u64
  assumes "metadata_utf8 md" "media_type_writable (case mp_media_type (wo_media_profile options) of Some t \<Rightarrow> t | None \<Rightarrow> Removable)"
    and "0 < wo_bytes_per_sector options" "0 < wo_sectors_per_chunk options" "0 < sc" "0 < cc"
    and fits: "unat (wo_bytes_per_sector options) * unat sc < 2 ^ 64"
  shows "parse_ewf2_device_info (ewf2_device_information_payload md options sc cc) = Inr
    ((geometry_written options sc cc)
      \<lparr>g2_error_granularity := positive (mp_error_granularity (wo_media_profile options)),
       g2_chunk_size := Some (ucast (wo_bytes_per_sector options) * ucast (wo_sectors_per_chunk options)),
       g2_logical_size := Some (ucast (wo_bytes_per_sector options) * sc)\<rparr>)"
proof -
  let ?cols = "ewf2_device_columns md options sc cc"
  note fine = device_columns_fine [OF assms(1,2), of sc cc]
  have "\<forall>(n, v) \<in> set ?cols. utf8_string n \<and> utf8_string v" using fine by auto
  then have d: "decode_utf16le (ewf2_device_information_payload md options sc cc) = Some (ewf2_table_text ?cols)"
    unfolding ewf2_device_information_payload_def by (rule decode_utf16le_bom [OF utf8_table])
  have "?cols \<noteq> []" by (simp add: ewf2_device_columns_def Let_def)
  then have f: "tabular_fields (ewf2_table_text ?cols) = ?cols"
    unfolding ewf2_table_text_def using fine by (intro tabular_fields_table) simp_all
  let ?b = "ucast (wo_bytes_per_sector options) :: u64" and ?s = "ucast (wo_sectors_per_chunk options) :: u64"
  have pos: "0 < ?b" "0 < ?s" using assms(3,4) by (simp_all add: word_less_nat_alt)
  have "unat (wo_bytes_per_sector options) * unat (wo_sectors_per_chunk options) < 2 ^ 32 * 2 ^ 32"
    by (rule mult_strict_mono) (use unat_32_less in simp_all)
  then have "checked_mul ?b ?s = Some (?b * ?s)" "checked_mul ?b sc = Some (?b * sc)"
    using fits by (simp_all add: checked_mul_def)
  then show ?thesis
    unfolding parse_ewf2_device_info_def d option.case f Let_def device_fields_fold [OF assms(2)]
    using pos assms(5,6) by (simp add: geometry_written_def product_if_positive_def checked_ewf2_geometry_mul_def positive_def ok_or_def)
qed

section \<open>XML hashes\<close>

text \<open>
  Children whose digests belong to a map \<open>D\<close> can be entered one after the other; what they
  name is then known, everything else is as before.
\<close>

lemma xhash_children_enter:
  assumes "hashes_consistent h" "\<And>c. digest_of h c \<in> {None, D c}"
    and "\<forall>(t, s) \<in> set cs. (case canonical_identifier t of
        Some c \<Rightarrow> D c \<noteq> None \<and> parse_hex_array (digest_size c) (decode_xml_entities (trim s)) = D c | None \<Rightarrow> True)"
  shows "\<exists>h'. try_fold xhash_child h cs = Inr h' \<and> hashes_consistent h' \<and>
    (\<forall>c. digest_of h' c = (if \<exists>(t, s) \<in> set cs. canonical_identifier t = Some c then D c else digest_of h c))"
  using assms
proof (induction cs arbitrary: h)
  case (Cons e cs)
  obtain t s where e: "e = (t, s)" by (cases e)
  let ?v = "decode_xml_entities (trim s)"
  have step: "\<exists>h1. xhash_child h e = Inr h1 \<and> hashes_consistent h1 \<and>
      digest_of h1 = (case canonical_identifier t of Some c \<Rightarrow> (digest_of h)(c := D c) | None \<Rightarrow> digest_of h)"
  proof (cases "canonical_identifier t")
    case None
    then show ?thesis using insert_other_identifier [OF Cons.prems(1) None, of ?v] Cons.prems(1)
      by (cases "?v = []") (simp_all add: e xhash_child_def Let_def)
  next
    case (Some c)
    then obtain d where d: "D c = Some d" "parse_hex_array (digest_size c) ?v = Some d"
      using Cons.prems(3) by (auto simp: e)
    have "digest_of h c \<in> {None, Some d}" using Cons.prems(2) [of c] d(1) by simp
    from insert_digest [OF Cons.prems(1) Some d(2) this] show ?thesis
      by (simp add: e xhash_child_def Let_def Some d(1))
  qed
  then obtain h1 where h1: "xhash_child h e = Inr h1" "hashes_consistent h1"
    "digest_of h1 = (case canonical_identifier t of Some c \<Rightarrow> (digest_of h)(c := D c) | None \<Rightarrow> digest_of h)" by blast
  have "digest_of h1 c \<in> {None, D c}" for c
    using Cons.prems(2) [of c] by (simp add: h1(3) split: option.split)
  with Cons.IH [OF h1(2)] Cons.prems(3) obtain h' where h': "try_fold xhash_child h1 cs = Inr h'" "hashes_consistent h'"
    "\<forall>c. digest_of h' c = (if \<exists>(t, s) \<in> set cs. canonical_identifier t = Some c then D c else digest_of h1 c)"
    by (auto simp: e)
  then show ?case using h1(1) by (auto simp: e h1(3) split: option.split)
qed simp

lemma distinct_strictly_ordered: "strictly_ordered m \<Longrightarrow> distinct (map fst m)"
proof (induction m)
  case (Cons e m)
  have "\<not> string_less k k" for k by (induction k) simp_all
  then show ?case using Cons by (cases e) (auto simp: image_iff)
qed simp

definition hashes_writable :: "stored_hashes \<Rightarrow> bool" where
  "hashes_writable h \<longleftrightarrow> hashes_consistent h \<and> hash_lengths h \<and>
     (\<forall>(k, v) \<in> set (sh_hash_values h). valid_tag k \<and> k \<noteq> ''xhash'' \<and> utf8_string v \<and>
        trim (escape_xml_text v) = escape_xml_text v \<and>
        (case canonical_identifier k of Some c \<Rightarrow> k = c | None \<Rightarrow> True))"

lemma hex_char_digit:
  assumes "unat v < 16"
  shows "hex_char v \<in> set ''0123456789abcdef''"
proof -
  have n: "length ''0123456789abcdef'' = 16" by simp
  show ?thesis unfolding hex_char_def by (rule nth_mem) (simp only: n assms)
qed

lemma hex_string_digits: "c \<in> set (hex_string bs) \<Longrightarrow> c \<in> set ''0123456789abcdef''"
proof (induction bs)
  case (Cons b bs)
  then show ?case
    using hex_char_digit [OF unat_high_nibble [of b]] hex_char_digit [OF unat_low_nibble [of b]]
    unfolding hex_string.simps set_simps(2) [of "hex_char (drop_bit 4 b)"] set_simps(2) [of "hex_char (b AND 0x0f)"] by blast
qed simp

lemma hex_string_visible:
  assumes "c \<in> set (hex_string bs)"
  shows "visible c \<and> c \<noteq> CHR ''<'' \<and> c \<noteq> CHR ''&'' \<and> escape_char c = [c]"
proof -
  have "\<forall>c \<in> set ''0123456789abcdef''. visible c \<and> c \<noteq> CHR ''<'' \<and> c \<noteq> CHR ''&'' \<and> escape_char c = [c]" by code_simp
  then show ?thesis using hex_string_digits [OF assms] by blast
qed

lemma hex_string_escape: "escape_xml_text (hex_string bs) = hex_string bs"
proof -
  have "concat (map escape_char s) = s" if "\<And>c. c \<in> set s \<Longrightarrow> escape_char c = [c]" for s
    using that by (induction s) simp_all
  then show ?thesis unfolding escape_xml_text_def using hex_string_visible by blast
qed

lemma ws_length_end_visible: "visible c \<Longrightarrow> ws_length_end (s @ [c]) = 0"
  by (cases "rev s"; cases "tl (rev s)")
    (auto simp: ws_length_end_def visible_def is_ws1_def is_ws2_def is_ws3_def numeral_3_eq_3)

lemma trim_visible: "(\<And>c. c \<in> set s \<Longrightarrow> visible c) \<Longrightarrow> trim s = s"
proof (cases s rule: rev_cases)
  case (snoc t c)
  assume v: "\<And>c. c \<in> set s \<Longrightarrow> visible c"
  then obtain d u where "s = d # u" "visible d" "visible c" by (cases s) (auto simp: snoc)
  then show ?thesis using ws_length_visible [of d u] ws_length_end_visible [of c t] by (intro trim_clean) (simp_all add: snoc)
qed (simp add: trim_clean)

text \<open>
  The digests of the writer, written as XML, are the digests read back. A value under a
  name of its own may be any text that is neither empty nor ends in white space.
\<close>

lemma xhash_children_digests:
  assumes "hashes_writable h" "(t, s) \<in> set (xhash_children h)"
  shows "valid_tag t" "t \<noteq> ''xhash''" "utf8_string s" "CHR ''<'' \<notin> set s"
    and "canonical_identifier t = Some c \<Longrightarrow> digest_of h c \<noteq> None \<and> parse_hex_array (digest_size c) (decode_xml_entities (trim s)) = digest_of h c"
proof -
  have l: "\<And>d. sh_md5 h = Some d \<Longrightarrow> length d = 16" "\<And>d. sh_sha1 h = Some d \<Longrightarrow> length d = 20"
    using assms(1) by (simp_all add: hashes_writable_def hash_lengths_def)
  have hex: "utf8_string (hex_string d)" "CHR ''<'' \<notin> set (hex_string d)" "decode_xml_entities (trim (hex_string d)) = hex_string d" for d
    using hex_string_visible trim_visible [of "hex_string d"] decode_escape [of "hex_string d"]
    by (auto simp: hex_string_escape list_all_iff intro!: utf8_visible)
  have names: "valid_tag ''md5''" "valid_tag ''sha1''" by (simp_all add: valid_tag_def visible_def code_def)
  have canon: "canonical_identifier ''md5'' = Some ''MD5''" "canonical_identifier ''sha1'' = Some ''SHA1''" by code_simp+
  consider d where "sh_md5 h = Some d" "t = ''md5''" "s = hex_string d" | d where "sh_sha1 h = Some d" "t = ''sha1''" "s = hex_string d"
    | v where "(t, v) \<in> set (sh_hash_values h)" "t \<notin> {''MD5'', ''md5'', ''SHA1'', ''sha1''}" "s = escape_xml_text v"
    using assms(2) by (cases "sh_md5 h"; cases "sh_sha1 h") (auto simp: xhash_children_def)
  then have "valid_tag t \<and> t \<noteq> ''xhash'' \<and> utf8_string s \<and> CHR ''<'' \<notin> set s \<and>
    (\<forall>c. canonical_identifier t = Some c \<longrightarrow> digest_of h c \<noteq> None \<and> parse_hex_array (digest_size c) (decode_xml_entities (trim s)) = digest_of h c)"
  proof cases
    case 1
    then show ?thesis using hex names canon l(1) [OF 1(1)] by (simp add: digest_of_def digest_size_def parse_hex_array_hex_string)
  next
    case 2
    then show ?thesis using hex names canon l(2) [OF 2(1)] by (simp add: digest_of_def digest_size_def parse_hex_array_hex_string)
  next
    case 3
    have w: "valid_tag t" "t \<noteq> ''xhash''" "utf8_string v" "trim (escape_xml_text v) = escape_xml_text v"
      "\<And>c. canonical_identifier t = Some c \<Longrightarrow> t = c" "hashes_consistent h"
      using assms(1) 3(1) by (auto simp: hashes_writable_def split: option.splits)
    have m: "map_of (sh_hash_values h) t = Some v"
      using w(6) 3(1) by (intro map_of_is_SomeI distinct_strictly_ordered) (simp_all add: hashes_consistent_def)
    have "digest_of h c \<noteq> None \<and> parse_hex_array (digest_size c) v = digest_of h c" if "canonical_identifier t = Some c" for c
      using w(5) [OF that] w(6) m canonical_identifier_Some [OF that] by (auto simp: hashes_consistent_def)
    then show ?thesis using w escape_no_angle utf8_escape by (auto simp: 3(3) decode_escape)
  qed
  then show "valid_tag t" "t \<noteq> ''xhash''" "utf8_string s" "CHR ''<'' \<notin> set s"
    "canonical_identifier t = Some c \<Longrightarrow> digest_of h c \<noteq> None \<and> parse_hex_array (digest_size c) (decode_xml_entities (trim s)) = digest_of h c"
    by blast+
qed

lemma xhash_children_complete:
  assumes "hashes_writable h" "digest_of h c \<noteq> None"
  shows "\<exists>(t, s) \<in> set (xhash_children h). canonical_identifier t = Some c"
proof -
  have canon: "canonical_identifier ''md5'' = Some ''MD5''" "canonical_identifier ''sha1'' = Some ''SHA1''"
    "canonical_identifier ''SHA256'' = Some ''SHA256''" by code_simp+
  consider d where "c = ''MD5''" "sh_md5 h = Some d" | d where "c = ''SHA1''" "sh_sha1 h = Some d"
    | v where "c = ''SHA256''" "map_of (sh_hash_values h) c = Some v" "parse_hex_array 32 v \<noteq> None"
    using assms(2) by (auto simp: digest_of_def bind_eq_Some_conv split: if_splits)
  then show ?thesis
  proof cases
    case 3
    then have "v \<noteq> []" by (auto simp: parse_hex_array_def)
    then have "(''SHA256'', escape_xml_text v) \<in> set (xhash_children h)"
      using map_of_SomeD [OF 3(2)] 3(1) by (force simp: xhash_children_def)
    then show ?thesis using canon 3(1) by blast
  qed (use canon in \<open>force simp: xhash_children_def\<close>)+
qed

lemma xhash_read_back:
  assumes "hashes_writable h"
  shows "\<exists>h'. parse_xhash_data (BOM @ bytes_of (xml_document ''xhash'' (xhash_children h))) stored_hashes_default = Inr h' \<and>
    hashes_consistent h' \<and> digest_of h' = digest_of h"
proof -
  let ?cs = "xhash_children h"
  note ok = xhash_children_digests [OF assms]
  have valid: "valid_tag ''xhash''" by (simp add: valid_tag_def visible_def code_def)
  have "simple_xml_children (xml_document ''xhash'' ?cs) ''xhash'' = ?cs"
    by (rule xml_document_children [OF valid]) (use ok in auto)
  moreover have "utf8_string (xml_document ''xhash'' ?cs)"
    by (rule utf8_document) (use ok valid in \<open>auto simp: valid_tag_def\<close>)
  ultimately have "parse_xhash_data (BOM @ bytes_of (xml_document ''xhash'' ?cs)) stored_hashes_default = try_fold xhash_child stored_hashes_default ?cs"
    by (simp add: parse_xhash_data_def xml_bytes_decoded)
  moreover have none: "digest_of stored_hashes_default c = None" for c
    by (simp add: digest_of_def stored_hashes_default_def)
  moreover obtain h' where h': "try_fold xhash_child stored_hashes_default ?cs = Inr h'" "hashes_consistent h'"
    "\<forall>c. digest_of h' c = (if \<exists>(t, s) \<in> set ?cs. canonical_identifier t = Some c then digest_of h c else digest_of stored_hashes_default c)"
    using xhash_children_enter [OF default_consistent, of "digest_of h" ?cs] ok(5) none
    by (fastforce split: option.splits)
  moreover have "digest_of h' c = digest_of h c" for c
    using h'(3) xhash_children_complete [OF assms, of c] none by (cases "digest_of h c") auto
  ultimately show ?thesis by (metis ext)
qed

section \<open>EWF1 headers as bytes\<close>

text \<open>
  What the writer records for a tag: the standard field with this tag, or else the first
  value of a header identifier with this tag, its date in the form of the header and
  without characters that would break the table.
\<close>

definition recorded_value :: "ewf_metadata \<Rightarrow> ewf1_header_date_style \<Rightarrow> string \<Rightarrow> string option" where
  "recorded_value md style tag =
     map_option (\<lambda>v. sanitize_header_value (ewf1_header_field_value tag v style))
       (or_else (map_of (present_fields (ewf1_standard_fields md)) tag)
          (map_of (map (\<lambda>(k, v). (ewf1_header_tag k, v)) (md_header_values md)) tag))"

lemma map_of_mapped: "map_of (map (\<lambda>(k, v). (f k, g (f k) v)) xs) t = map_option (g t) (map_of (map (\<lambda>(k, v). (f k, v)) xs) t)"
  by (induction xs) auto

lemma map_of_written: "map_of (map (\<lambda>(n, v). written_field style n v) fs) t =
    map_option (\<lambda>v. sanitize_header_value (ewf1_header_field_value t v style)) (map_of fs t)"
  by (induction fs) (auto simp: written_field_def)

lemma recorded_columns: "map_of (ewf1_header_columns md style) t = recorded_value md style t"
proof -
  have generic: "map_of (map (\<lambda>(k, v). written_field style (ewf1_header_tag k) v) hs) t =
      map_option (\<lambda>v. sanitize_header_value (ewf1_header_field_value t v style))
        (map_of (map (\<lambda>(k, v). (ewf1_header_tag k, v)) hs) t)" for hs
    unfolding written_field_def by (rule map_of_mapped [of ewf1_header_tag "\<lambda>t v. sanitize_header_value (ewf1_header_field_value t v style)"])
  have p: "map_of (present_fields (ewf1_standard_fields md)) ''p'' = Some v" if "md_password md = Some v" for v
    by (rule map_of_present [OF standard_fields_distinct]) (simp add: ewf1_standard_fields_def that)
  show ?thesis
    unfolding ewf1_header_columns_def generic_columns generic map_of_written recorded_value_def
    using p by (cases "map_of (present_fields (ewf1_standard_fields md)) t") auto
qed

lemma metadata_fields_utf8:
  assumes "metadata_utf8 md"
  shows "(n, Some v) \<in> set (ewf1_standard_fields md) \<Longrightarrow> utf8_string v"
proof -
  assume n: "(n, Some v) \<in> set (ewf1_standard_fields md)"
  have "list_all (\<lambda>f. standard_header_value md (ewf1_header_identifier (fst f)) = snd f) (ewf1_standard_fields md)"
    by (simp add: ewf1_standard_fields_def standard_header_value_def ewf1_header_identifier_def ewf1_identifiers_def)
  then have "standard_header_value md (ewf1_header_identifier (fst (n, Some v))) = snd (n, Some v)"
    unfolding list_all_iff by (rule bspec [OF _ n])
  then have "standard_header_value md (ewf1_header_identifier n) = Some v" by simp
  then have "header_value md (ewf1_header_identifier n) = Some v" by (simp add: header_value_def or_else_def)
  then show "utf8_string v" using assms by (auto simp: metadata_utf8_def)
qed

lemma written_field_utf8: "utf8_string v \<Longrightarrow> utf8_string (snd (written_field style n v))"
  by (auto simp: written_field_def ewf1_header_field_value_def utf8_sanitize utf8_dates split: ewf1_header_date_style.splits)

lemma ewf1_columns_utf8:
  assumes "metadata_utf8 md" "c \<in> set (ewf1_header_columns md style)"
  shows "utf8_string (fst c)" "utf8_string (snd c)"
proof -
  have tags: "utf8_string t" if "list_all (\<lambda>c. code c < 128) t" for t using that by (rule utf8_string_ascii)
  have "list_all (\<lambda>f. list_all (\<lambda>c. code c < 128) (fst f)) (ewf1_standard_fields md)"
    by (simp add: ewf1_standard_fields_def) (simp add: code_def)
  then have std: "utf8_string (fst f)" if "f \<in> set (ewf1_standard_fields md)" for f
    using that tags by (simp add: list_all_iff)
  have tag: "utf8_string (ewf1_header_tag k)" if "utf8_string k" for k
  proof (cases "map_of ewf1_tags k")
    case (Some t)
    have "list_all (\<lambda>f. list_all (\<lambda>c. code c < 128) (snd f)) ewf1_tags" by (simp add: ewf1_tags_def) (simp add: code_def)
    then have "list_all (\<lambda>c. code c < 128) t" using map_of_SomeD [OF Some] unfolding list_all_iff by fastforce
    with Some show ?thesis by (simp add: ewf1_header_tag_def tags)
  qed (simp add: ewf1_header_tag_def that)
  from generic_columns_names [OF assms(2) [unfolded ewf1_header_columns_def]]
  show "utf8_string (fst c)" "utf8_string (snd c)"
    using std metadata_fields_utf8 [OF assms(1)] written_field_utf8 tag assms(1)
    by (fastforce simp: present_fields_mem written_field_def metadata_utf8_def)+
qed

lemma ewf1_header_text_utf8: "metadata_utf8 md \<Longrightarrow> ewf1_header_text md style = Some s \<Longrightarrow> utf8_string s \<and> (\<exists>r. s = CHR ''1'' # r \<and> utf8_string r)"
proof -
  assume "metadata_utf8 md" "ewf1_header_text md style = Some s"
  then have s: "s = table_text (ewf1_header_columns md style)"
    and u: "\<forall>c \<in> set (ewf1_header_columns md style). utf8_string (fst c) \<and> utf8_string (snd c)"
    using ewf1_columns_utf8 by (auto simp: ewf1_header_text_def split: if_splits)
  have "utf8_string (join [tab] (map fst (ewf1_header_columns md style)))" "utf8_string (join [tab] (map snd (ewf1_header_columns md style)))"
    using u by (intro utf8_string_join; auto intro!: utf8_string_Cons simp: code_numerals)+
  then have r: "utf8_string (tl s)"
    by (auto simp: s table_text_def code_numerals intro!: utf8_string_append utf8_string_Cons) (simp_all add: code_def)
  have h: "s = CHR ''1'' # tl s" by (simp add: s table_text_def)
  then have "utf8_string s" using r utf8_string_Cons [of "CHR ''1''" "tl s"] by (simp add: code_def)
  with r h show ?thesis by blast
qed

text \<open>
  What the laws of a codepage ask: the texts it can hold come back.
\<close>

lemma ewf1_headers_read_back:
  assumes md: "metadata_utf8 md" "\<forall>h \<in> set (md_header_values md). clean (ewf1_header_tag (fst h))"
    and ident: "ewf1_header_identifier (ewf1_header_tag ident) = ident"
  shows "ewf1_header_text md HeaderStyle = Some s \<Longrightarrow> decode_header_bytes P (encode_header_text P s cp) cp = s \<Longrightarrow>
      header_value (parse_header_data P (encode_header_text P s cp) cp metadata_default) ident
        = nonempty (recorded_value md HeaderStyle (ewf1_header_tag ident))"
    and "ewf1_header_text md HeaderStyle = Some s \<Longrightarrow> decode_header_bytes P (encode_header_text P s Ascii) Ascii = s"
    and "ewf1_header_text md Header2Style = Some s \<Longrightarrow>
      header_value (parse_header2_data (utf16le s) metadata_default) ident
        = nonempty (recorded_value md Header2Style (ewf1_header_tag ident))"
proof -
  show "header_value (parse_header_data P (encode_header_text P s cp) cp metadata_default) ident
      = nonempty (recorded_value md HeaderStyle (ewf1_header_tag ident))"
    if "ewf1_header_text md HeaderStyle = Some s" "decode_header_bytes P (encode_header_text P s cp) cp = s"
    unfolding parse_header_data_def that(2) header_text_read_back [OF that(1) md(2) ident] recorded_columns ..
  show "decode_header_bytes P (encode_header_text P s Ascii) Ascii = s" if "ewf1_header_text md HeaderStyle = Some s"
    using ewf1_header_text_utf8 [OF md(1) that]
    by (simp add: decode_header_bytes_def encode_header_text_def from_utf8_lossy_string)
  show "header_value (parse_header2_data (utf16le s) metadata_default) ident
      = nonempty (recorded_value md Header2Style (ewf1_header_tag ident))"
    if t: "ewf1_header_text md Header2Style = Some s"
  proof -
    obtain r where r: "s = CHR ''1'' # r" "utf8_string s" "utf8_string r" using ewf1_header_text_utf8 [OF md(1) t] by blast
    have "chars_of s = 49 # chars_of r"
    proof -
      have "char_of (49 :: nat) = CHR ''1''" by code_simp
      then have "s = string_of_chars (49 # chars_of r)" using r by (simp add: string_of_chars_Cons utf8_string_def utf8_encode_def)
      moreover have "list_all scalar (49 # chars_of r)" using r(3) by (simp add: utf8_string_def scalar_def)
      ultimately show ?thesis using chars_of_string_of_chars by metis
    qed
    then have "decode_utf16le (utf16le s) = Some s"
      using r by (intro decode_utf16le_plain) (simp_all add: encode_utf16_def utf16_units_def)
    then show ?thesis
      by (simp add: parse_header2_data_def header_text_read_back [OF t md(2) ident] recorded_columns)
  qed
qed

end
