(* ===== verification/Catalog_Writer.thy ===== *)
theory Catalog_Writer
  imports Catalog_Text Metadata_Round_Trip
begin

text \<open>
  The catalog of a logical image as the writer makes it (\<open>ewf2_single_files_data_payload\<close>
  and \<open>ewf1_ltree_payload\<close> in \<open>src/writer.rs\<close>), category by category.
\<close>

section \<open>Values\<close>

definition optional_text :: "string option \<Rightarrow> string" where
  "optional_text v = (case v of None \<Rightarrow> [] | Some s \<Rightarrow> sanitize_header_value s)"

text \<open>\<open>Display\<close> of unsigned and signed integers.\<close>

definition optional_unsigned :: "'a::len word option \<Rightarrow> string" where
  "optional_unsigned v = (case v of None \<Rightarrow> [] | Some n \<Rightarrow> dec (unat n))"

definition optional_signed :: "'a::len word option \<Rightarrow> string" where
  "optional_signed v = (case v of None \<Rightarrow> [] | Some n \<Rightarrow> i64_text (sint n))"

text \<open>\<open>{:x}\<close>.\<close>

fun hex_text :: "nat \<Rightarrow> string" where
  "hex_text n = (if n < 16 then [hex_char (word_of_nat n)] else hex_text (n div 16) @ [hex_char (word_of_nat (n mod 16))])"

declare hex_text.simps [simp del]

definition single_file_entry_type_value :: "single_file_entry_type option \<Rightarrow> string" where
  "single_file_entry_type_value v =
     (case v of
        Some FileEntryFile \<Rightarrow> ''0''
      | Some FileEntryDirectory \<Rightarrow> ''1''
      | Some FileEntryUnknown \<Rightarrow> ''u''
      | None \<Rightarrow> [])"

definition extent_parts :: "file_extent \<Rightarrow> string list" where
  "extent_parts e = (if ex_sparse e then [''S''] else []) @
     [hex_text (unat (ex_data_offset e)), hex_text (unat (ex_data_size e))]"

definition single_file_extents_value :: "file_extent list \<Rightarrow> string" where
  "single_file_extents_value extents =
     (if extents = [] then []
      else join '' '' (hex_text (length extents) # concat (map extent_parts extents)))"

definition optional_utf16le_null_terminated :: "string option \<Rightarrow> bytes" where
  "optional_utf16le_null_terminated v =
     (case v of None \<Rightarrow> [] | Some s \<Rightarrow> utf16le (sanitize_header_value s) @ le16 0)"

definition attribute_record :: "single_file_attribute \<Rightarrow> bytes result" where
  "attribute_record attribute =
     (let name = optional_utf16le_null_terminated (at_name attribute);
          v = optional_utf16le_null_terminated (at_value attribute) in
      try_bind (ok_or (u32_of_usize (length name div 2))
        (Unsupported ''single file attribute name length exceeds u32'')) (\<lambda>name_units.
      try_bind (ok_or (u32_of_usize (length v div 2))
        (Unsupported ''single file attribute value length exceeds u32'')) (\<lambda>value_units.
      Inr (replicate 4 0 @ [0] @ le32 name_units @ le32 value_units @ name @ v))))"

definition single_file_attributes_value :: "single_file_attribute list \<Rightarrow> string result" where
  "single_file_attributes_value attributes =
     (if attributes = [] then Inr []
      else try_bind (try_fold (\<lambda>data attribute. try_bind (attribute_record attribute) (\<lambda>r. Inr (data @ r)))
          EXTENDED_ATTRIBUTES_HEADER attributes) (\<lambda>data. Inr (hex_string data)))"

definition single_file_short_name_value :: "string option \<Rightarrow> string" where
  "single_file_short_name_value v =
     (let s = optional_text v in if s = [] then [] else dec (length s + 1) @ '' '' @ s)"

section \<open>Source identifiers\<close>

definition source_child_identifier :: "nat \<Rightarrow> i32 result" where
  "source_child_identifier i =
     (if i + 1 < 2 ^ 31 then Inr (word_of_nat (i + 1))
      else Inl (Unsupported ''single files source count exceeds supported identifier range''))"

text \<open>The map of old identifiers to positions; the first source with an identifier keeps it.\<close>

definition remember_source :: "(i32 \<times> i32) list \<Rightarrow> nat \<times> catalog_source \<Rightarrow> (i32 \<times> i32) list result" where
  "remember_source remapped s =
     (case s of (i, source) \<Rightarrow>
        case cs_identifier source of
          None \<Rightarrow> Inr remapped
        | Some identifier \<Rightarrow>
            try_bind (source_child_identifier i) (\<lambda>position.
            Inr (if map_of remapped identifier = None then (identifier, position) # remapped else remapped)))"

definition single_file_source_ids :: "catalog_source list \<Rightarrow> (i32 \<times> i32) list result" where
  "single_file_source_ids sources = try_fold remember_source [] (enumerate 0 (drop 1 sources))"

definition entry_identifier :: "(i32 \<times> i32) list \<Rightarrow> i32 option \<Rightarrow> i32 option" where
  "entry_identifier remapped identifier =
     (case identifier of
        Some i \<Rightarrow> if 0 < sint i then (case map_of remapped i of Some j \<Rightarrow> Some j | None \<Rightarrow> Some i) else identifier
      | None \<Rightarrow> None)"

section \<open>Rows\<close>

definition SINGLE_FILE_ENTRY_TYPES :: "string list" where
  "SINGLE_FILE_ENTRY_TYPES =
     [''id'', ''p'', ''n'', ''ls'', ''lo'', ''po'', ''du'', ''src'', ''sub'', ''pm'', ''cid'', ''opr'', ''be'', ''ha'', ''sha'',
      ''snh'', ''cr'', ''wr'', ''ac'', ''mo'', ''dl'', ''ea'']"

definition SINGLE_FILE_SOURCE_TYPES :: "string list" where
  "SINGLE_FILE_SOURCE_TYPES =
     [''id'', ''n'', ''ev'', ''loc'', ''gu'', ''pgu'', ''dt'', ''mfr'', ''mo'', ''se'', ''do'', ''ip'', ''ma'', ''tb'', ''lo'',
      ''po'', ''aq'', ''ah'', ''sh'']"

definition SINGLE_FILE_SUBJECT_TYPES :: "string list" where
  "SINGLE_FILE_SUBJECT_TYPES = [''id'', ''n'']"

definition SINGLE_FILE_PERMISSION_TYPES :: "string list" where
  "SINGLE_FILE_PERMISSION_TYPES = [''n'', ''pr'', ''s'', ''nta'', ''nti'']"

definition entry_cells :: "(i32 \<times> i32) list \<Rightarrow> catalog_entry \<Rightarrow> string list result" where
  "entry_cells ids e =
     try_bind (single_file_attributes_value (ce_attributes e)) (\<lambda>attributes.
     Inr [optional_unsigned (ce_identifier e), single_file_entry_type_value (ce_type e), optional_text (ce_name e),
       optional_unsigned (fe_size e), optional_signed (ce_logical_offset e), optional_signed (ce_physical_offset e),
       optional_signed (fe_duplicate_data_offset e), optional_signed (entry_identifier ids (ce_source_identifier e)),
       optional_unsigned (ce_subject_identifier e), optional_signed (ce_permission_group_index e),
       optional_unsigned (ce_record_type e), optional_unsigned (fe_flags e), single_file_extents_value (fe_extents e),
       optional_text (ce_md5 e), optional_text (ce_sha1 e), single_file_short_name_value (ce_short_name e),
       optional_signed (ce_creation_time e), optional_signed (ce_modification_time e), optional_signed (ce_access_time e),
       optional_signed (ce_entry_modification_time e), optional_signed (ce_deletion_time e), attributes])"

definition single_file_entry_row :: "(i32 \<times> i32) list \<Rightarrow> bool \<Rightarrow> catalog_entry \<Rightarrow> string result" where
  "single_file_entry_row ids include_guid e =
     (if ce_name_utf16 e \<noteq> None
      then Inl (Unsupported ''writing a single-file name with unpaired UTF-16 units is not supported'')
      else try_bind (entry_cells ids e) (\<lambda>cells.
        Inr (join [tab] (if include_guid then cells @ [optional_text (ce_guid e)] else cells))))"

definition single_file_source_row :: "catalog_source \<Rightarrow> i32 option \<Rightarrow> string" where
  "single_file_source_row source identifier =
     join [tab]
       [optional_signed (if identifier \<noteq> None then identifier else cs_identifier source), optional_text (cs_name source),
        optional_text (cs_evidence_number source), optional_text (cs_location source),
        optional_text (cs_device_guid source), optional_text (cs_primary_device_guid source),
        (case cs_drive_type source of None \<Rightarrow> [] | Some c \<Rightarrow> string_of_chars [c]),
        optional_text (cs_manufacturer source), optional_text (cs_model source), optional_text (cs_serial_number source),
        optional_text (cs_domain source), optional_text (cs_ip_address source), optional_text (cs_mac_address source),
        optional_unsigned (cs_size source), optional_signed (cs_logical_offset source),
        optional_signed (cs_physical_offset source), optional_signed (cs_acquisition_time source),
        optional_text (cs_md5 source), optional_text (cs_sha1 source)]"

definition single_file_subject_row :: "catalog_subject \<Rightarrow> string" where
  "single_file_subject_row subject = join [tab] [optional_unsigned (su_identifier subject), optional_text (su_name subject)]"

definition single_file_permission_row :: "catalog_permission \<Rightarrow> string" where
  "single_file_permission_row permission =
     join [tab]
       [optional_text (pe_name permission), optional_unsigned (pe_property_type permission),
        optional_text (pe_identifier permission), optional_unsigned (pe_access_mask permission),
        optional_unsigned (pe_ace_flags permission)]"

definition single_file_permission_root_row :: string where
  "single_file_permission_root_row =
     single_file_permission_row (catalog_permission_default\<lparr>pe_property_type := Some 10\<rparr>)"

definition single_file_permission_group_row :: "catalog_permission_group \<Rightarrow> string" where
  "single_file_permission_group_row g =
     join [tab]
       [optional_text (pe_name g), optional_unsigned (if pe_property_type g \<noteq> None then pe_property_type g else Some 10),
        optional_text (pe_identifier g), optional_unsigned (pe_access_mask g), optional_unsigned (pe_ace_flags g)]"

section \<open>Categories\<close>

definition count_line :: "string \<Rightarrow> nat \<Rightarrow> string" where
  "count_line first n = first @ [tab] @ dec n"

definition category_header :: "string \<Rightarrow> nat \<Rightarrow> string list \<Rightarrow> string list" where
  "category_header name n types = [name, dec n @ [tab] @ ''1'', join [tab] types, count_line ''0'' n]"

definition leaf_lines :: "string list \<Rightarrow> string list" where
  "leaf_lines rows = concat (map (\<lambda>row. [''0'' @ [tab] @ ''0'', row]) rows)"

definition single_file_source_category :: "catalog_source list \<Rightarrow> string list result" where
  "single_file_source_category sources =
     (let (root, children) = (case sources of
          [] \<Rightarrow> (catalog_source_default\<lparr>cs_identifier := Some 0\<rparr>, []) | root # children \<Rightarrow> (root, children)) in
      try_bind (try_fold (\<lambda>rows (i, source). try_bind (source_child_identifier i) (\<lambda>identifier.
          Inr (rows @ [single_file_source_row source (Some identifier)]))) [] (enumerate 0 children)) (\<lambda>rows.
      Inr (category_header ''srce'' (length children) SINGLE_FILE_SOURCE_TYPES
        @ [single_file_source_row root (Some 0)] @ leaf_lines rows @ [[]])))"

definition single_file_subject_category :: "catalog_subject list \<Rightarrow> string list" where
  "single_file_subject_category subjects =
     (let (root, children) = (case subjects of
          [] \<Rightarrow> (catalog_subject_default\<lparr>su_identifier := Some 0\<rparr>, []) | root # children \<Rightarrow> (root, children)) in
      category_header ''sub'' (length children) SINGLE_FILE_SUBJECT_TYPES
        @ [single_file_subject_row root] @ leaf_lines (map single_file_subject_row children) @ [[]])"

definition permission_group_lines :: "catalog_permission_group \<Rightarrow> string list" where
  "permission_group_lines g =
     [count_line ''0'' (length (pg_permissions g)), single_file_permission_group_row g]
       @ leaf_lines (map single_file_permission_row (pg_permissions g))"

definition single_file_permission_category :: "catalog_permission_group list \<Rightarrow> string list" where
  "single_file_permission_category groups =
     category_header ''perm'' (length groups) SINGLE_FILE_PERMISSION_TYPES
       @ [single_file_permission_root_row] @ concat (map permission_group_lines groups) @ [[]]"

definition extents_data_size :: "u64 \<Rightarrow> file_extent list \<Rightarrow> u64 result" where
  "extents_data_size initial extents =
     try_fold (\<lambda>data_size e.
       if ex_sparse e then Inr data_size
       else try_bind (ok_or (checked_add (ex_data_offset e) (ex_data_size e))
         (Malformed ''single files extent end overflow'')) (\<lambda>extent_end. Inr (max data_size extent_end))) initial extents"

fun node_data_size :: "catalog_node \<Rightarrow> u64 result" and nodes_data_size :: "u64 \<Rightarrow> catalog_node list \<Rightarrow> u64 result" where
  "node_data_size (CatalogNode e children) =
     try_bind (extents_data_size (case fe_size e of Some n \<Rightarrow> n | None \<Rightarrow> 0) (fe_extents e)) (\<lambda>data_size.
     nodes_data_size data_size children)"
| "nodes_data_size data_size [] = Inr data_size"
| "nodes_data_size data_size (child # children) =
     try_bind (node_data_size child) (\<lambda>n. nodes_data_size (max data_size n) children)"

definition single_files_record_data_size :: "catalog \<Rightarrow> u64 result" where
  "single_files_record_data_size cat = try_bind (node_data_size (ca_root cat)) (\<lambda>n. Inr (max (ca_data_size cat) n))"

definition single_file_record_category :: "catalog \<Rightarrow> string list result" where
  "single_file_record_category cat =
     try_bind (single_files_record_data_size cat) (\<lambda>n. Inr [''rec'', ''tb'', dec (unat n), []])"

fun has_guid :: "catalog_node \<Rightarrow> bool" where
  "has_guid (CatalogNode e children) = (ce_guid e \<noteq> None \<or> list_ex has_guid children)"

fun node_lines :: "(i32 \<times> i32) list \<Rightarrow> bool \<Rightarrow> catalog_node \<Rightarrow> string list result"
and nodes_lines :: "(i32 \<times> i32) list \<Rightarrow> bool \<Rightarrow> catalog_node list \<Rightarrow> string list result" where
  "node_lines ids include_guid (CatalogNode e children) =
     try_bind (single_file_entry_row ids include_guid e) (\<lambda>row.
     try_bind (nodes_lines ids include_guid children) (\<lambda>rest.
     Inr (count_line ''26'' (length children) # row # rest)))"
| "nodes_lines ids include_guid [] = Inr []"
| "nodes_lines ids include_guid (node # nodes) =
     try_bind (node_lines ids include_guid node) (\<lambda>first.
     try_bind (nodes_lines ids include_guid nodes) (\<lambda>rest. Inr (first @ rest)))"

definition single_file_entry_types :: "bool \<Rightarrow> string list" where
  "single_file_entry_types include_guid = SINGLE_FILE_ENTRY_TYPES @ (if include_guid then [''mid''] else [])"

definition single_file_entry_category :: "(i32 \<times> i32) list \<Rightarrow> catalog_node \<Rightarrow> string list result" where
  "single_file_entry_category ids root =
     (let include_guid = has_guid root in
      try_bind (node_lines ids include_guid root) (\<lambda>entry_lines.
      Inr ([''entry'', ''0'' @ [tab] @ ''1'', join [tab] (single_file_entry_types include_guid)] @ entry_lines @ [[]])))"

definition catalog_lines :: "catalog \<Rightarrow> string list result" where
  "catalog_lines cat =
     try_bind (single_file_source_ids (ca_sources cat)) (\<lambda>source_ids.
     try_bind (single_file_record_category cat) (\<lambda>record_lines.
     try_bind (single_file_source_category (ca_sources cat)) (\<lambda>source_lines.
     try_bind (single_file_entry_category source_ids (ca_root cat)) (\<lambda>entry_lines.
     Inr ([''5''] @ record_lines @ single_file_permission_category (ca_permission_groups cat) @ source_lines
       @ single_file_subject_category (ca_subjects cat) @ entry_lines @ [[]])))))"

definition ewf2_single_files_data_payload :: "catalog \<Rightarrow> bytes result" where
  "ewf2_single_files_data_payload cat =
     try_bind (catalog_lines cat) (\<lambda>lns. Inr (utf16le_with_bom (join [newline] lns)))"

definition ewf1_ltree_payload :: "(bytes \<Rightarrow> bytes) \<Rightarrow> catalog \<Rightarrow> bytes result" where
  "ewf1_ltree_payload md5 cat =
     try_bind (ewf2_single_files_data_payload cat) (\<lambda>single_files_data.
     let header = md5 single_files_data @ le64 (word_of_nat (length single_files_data)) @ le32 0 @ replicate 20 0 in
     Inr (splice header 24 (le32 (writer_adler32 header)) @ single_files_data))"

end
