(* ===== verification/Catalog_Round_Trip.thy ===== *)
theory Catalog_Round_Trip
  imports Catalog_Writer
begin

text \<open>
  The catalog the writer makes is parsed back: its numbers, texts, extents and attributes
  cell by cell, its rows, its categories at their places among the lines, the tree of
  entries, and the lines out of the UTF-16 text.
\<close>

section \<open>Numbers\<close>

lemma catalog_u64_dec [simp]: "catalog_u64 (dec (unat n)) l = Inr n" for n :: u64
proof -
  have "unat n \<le> 2 ^ 64 - 1" using unsigned_less [of n, where 'a = nat] by simp
  then show ?thesis by (simp add: catalog_u64_def parse_unsigned_dec ok_or_def)
qed

lemma catalog_u64_dec_nat: "n < 2 ^ 64 \<Longrightarrow> catalog_u64 (dec n) l = Inr (word_of_nat n)"
  by (simp add: catalog_u64_def parse_unsigned_dec ok_or_def)

lemma catalog_u32_dec [simp]: "catalog_u32 (dec (unat n)) l = Inr n" for n :: u32
proof -
  have n: "unat n < 2 ^ 32" using unsigned_less [of n, where 'a = nat] by simp
  then have "unat (word_of_nat (unat n) :: u64) = unat n" by (simp add: unsigned_of_nat take_bit_nat_eq_self)
  moreover from n have "ucast (word_of_nat (unat n) :: u64) = n" by (simp add: word_unat_eq_iff unsigned_ucast_eq unsigned_take_bit_eq unsigned_of_nat take_bit_nat_eq_self)
  ultimately show ?thesis using n by (simp add: catalog_u32_def catalog_u64_dec_nat)
qed

lemma parse_signed64_text:
  assumes "- (2 ^ 63) \<le> v" "v < 2 ^ 63"
  shows "parse_signed64 (i64_text v) = Some (word_of_int v)"
proof (cases "v < 0")
  case True
  then have "nat (- v) \<le> 2 ^ 63" using assms(1) by simp
  from parse_digits_dec [OF this] True show ?thesis by (simp add: i64_text_def parse_signed64_def)
next
  case False
  then have n: "nat v \<le> 2 ^ 63 - 1" using assms(2) by simp
  obtain c t where d: "dec (nat v) = c # t" by (cases "dec (nat v)") simp_all
  have "is_ascii_digit c" using dec_digits [of c "nat v"] by (simp add: d)
  then have "c \<noteq> CHR ''-''" by (auto simp: is_ascii_digit_def code_def)
  with False parse_unsigned_dec [OF n] show ?thesis by (simp add: i64_text_def parse_signed64_def d)
qed

lemma catalog_i64_text [simp]: "catalog_i64 (i64_text (sint n)) l = Inr n" for n :: i64
  using sint_range_size [of n] by (simp add: catalog_i64_def parse_signed64_text word_size ok_or_def)

lemma catalog_i32_text [simp]: "catalog_i32 (i64_text (sint n)) l = Inr n" for n :: i32
proof -
  have n: "- (2 ^ 31) \<le> sint n" "sint n < 2 ^ 31" using sint_range_size [of n] by (simp_all add: word_size)
  have wide: "sint (word_of_int v :: i64) = v" if "- (2 ^ 31) \<le> v" "v < 2 ^ 31" for v
    using that by (simp add: signed_of_int signed_take_bit_int_eq_self)
  then have "sint (scast (word_of_int (sint n) :: i64) :: i32) = sint n"
    unfolding signed_scast_eq wide [OF n] using n by (simp add: signed_take_bit_int_eq_self)
  then have narrowed: "scast (word_of_int (sint n) :: i64) = n" by (rule word_eq_iff_signed [where ?'a = int, THEN iffD2])
  have "catalog_i64 (i64_text (sint n)) l = Inr (word_of_int (sint n))" using n
    by (simp add: catalog_i64_def parse_signed64_text ok_or_def)
  then show ?thesis using n unfolding catalog_i32_def by (simp only: try_bind_simps wide [OF n] narrowed if_True simp_thms)
qed

lemma catalog_non_negative_i32_text [simp]: "0 \<le> sint n \<Longrightarrow> catalog_non_negative_i32 (i64_text (sint n)) l = Inr n" for n :: i32
  by (simp add: catalog_non_negative_i32_def)

lemma i64_text_nonempty [simp]: "i64_text v \<noteq> []"
  by (simp add: i64_text_def)

lemma hex_digit_char: "n < 16 \<Longrightarrow> hex_digit_value (hex_char (word_of_nat n)) = Some n"
proof -
  have "list_all (\<lambda>n. hex_digit_value (''0123456789abcdef'' ! n) = Some n) [0..<16]" by code_simp
  then have "hex_digit_value (''0123456789abcdef'' ! n) = Some n" if "n < 16" using that by (simp add: list_all_iff)
  moreover have "hex_char (word_of_nat n) = ''0123456789abcdef'' ! n" if "n < 16"
    using that by (simp add: hex_char_def unsigned_of_nat take_bit_nat_eq_self)
  ultimately show "n < 16 \<Longrightarrow> ?thesis" by simp
qed

lemma parse_hex_digits_append:
  "parse_hex_digits mx acc (s @ t) = Option.bind (parse_hex_digits mx acc s) (\<lambda>a. parse_hex_digits mx a t)"
  by (induction s arbitrary: acc) (simp_all split: option.split)

lemma parse_hex_digits_text: "n \<le> mx \<Longrightarrow> parse_hex_digits mx 0 (hex_text n) = Some n"
proof (induction n rule: hex_text.induct)
  case (1 n)
  show ?case
  proof (cases "n < 16")
    case True
    with 1 show ?thesis by (subst hex_text.simps) (simp add: hex_digit_char)
  next
    case False
    then have "parse_hex_digits mx 0 (hex_text (n div 16)) = Some (n div 16)" using 1 by simp
    with False 1(2) show ?thesis
      by (subst hex_text.simps) (simp add: parse_hex_digits_append hex_digit_char)
  qed
qed

lemma hex_text_digits: "c \<in> set (hex_text n) \<Longrightarrow> hex_digit_value c \<noteq> None"
proof (induction n rule: hex_text.induct)
  case (1 n)
  then show ?case by (subst (asm) (2) hex_text.simps) (auto simp: hex_digit_char split: if_splits)
qed

lemma hex_text_nonempty [simp]: "hex_text n \<noteq> []"
  by (subst hex_text.simps) simp

lemma hex_digit_plain: "hex_digit_value c \<noteq> None \<Longrightarrow> c \<noteq> CHR ''+'' \<and> c \<noteq> CHR '' '' \<and> c \<noteq> CHR ''S'' \<and> c \<noteq> tab \<and> c \<noteq> newline \<and> c \<noteq> carriage_return"
  by (auto simp: hex_digit_value_def code_def Let_def tab_def newline_def carriage_return_def)

lemma parse_hex_unsigned_text: "n \<le> mx \<Longrightarrow> parse_hex_unsigned mx (hex_text n) = Some n"
proof -
  assume n: "n \<le> mx"
  obtain c t where d: "hex_text n = c # t" by (cases "hex_text n") simp_all
  have "c \<noteq> CHR ''+''" using hex_text_digits [of c n] hex_digit_plain [of c] by (simp add: d)
  with parse_hex_digits_text [OF n] show ?thesis by (simp add: parse_hex_unsigned_def d)
qed

lemma catalog_hex_text:
  "catalog_hex_u64 (hex_text (unat n)) l = Inr n"
  "k < 2 ^ 64 \<Longrightarrow> catalog_hex_usize (hex_text k) l = Inr k"
proof -
  have "unat n \<le> 2 ^ 64 - 1" using unsigned_less [of n, where 'a = nat] by simp
  then show "catalog_hex_u64 (hex_text (unat n)) l = Inr n" by (simp add: catalog_hex_u64_def parse_hex_unsigned_text ok_or_def)
  assume "k < 2 ^ 64"
  then show "catalog_hex_usize (hex_text k) l = Inr k"
    by (simp add: catalog_hex_usize_def catalog_hex_u64_def parse_hex_unsigned_text ok_or_def unsigned_of_nat take_bit_nat_eq_self)
qed

section \<open>Extents\<close>

lemma parse_extent_parts: "parse_extent (extent_parts e @ rest) = Inr (e, rest)"
proof -
  have "hex_text k \<noteq> ''S''" for k
    using hex_text_digits [of "CHR ''S''" k] hex_digit_plain [of "CHR ''S''"] by auto
  then show ?thesis by (cases e) (simp add: parse_extent_def extent_parts_def catalog_hex_text Let_def)
qed

lemma parse_extent_list_parts: "parse_extent_list (concat (map extent_parts es)) = Inr es"
proof (induction es)
  case Nil
  show ?case by (subst parse_extent_list.simps) simp
next
  case (Cons e es)
  have "extent_parts e \<noteq> []" by (simp add: extent_parts_def)
  then show ?case using Cons by (subst parse_extent_list.simps) (simp add: parse_extent_parts)
qed

lemma extent_part_cases: "p \<in> set (hex_text n # concat (map extent_parts es)) \<Longrightarrow> (\<exists>k. p = hex_text k) \<or> p = ''S''"
  by (auto simp: extent_parts_def split: if_splits)

lemma extents_read_back:
  assumes "es \<noteq> []" "length es < 2 ^ 64"
  shows "parse_binary_extents (single_file_extents_value es) = Inr es"
proof -
  let ?ps = "hex_text (length es) # concat (map extent_parts es)"
  have clear: "CHR '' '' \<notin> set p \<and> p \<noteq> []" if "p \<in> set ?ps" for p
    using extent_part_cases [OF that] hex_text_digits hex_digit_plain by fastforce
  have "split_on (CHR '' '') (join '' '' ?ps) = ?ps" using clear by (intro split_on_join) auto
  moreover have "filter (\<lambda>part. part \<noteq> []) ?ps = ?ps" using clear by (intro filter_True) auto
  ultimately show ?thesis
    using assms by (simp add: parse_binary_extents_def single_file_extents_value_def catalog_hex_text parse_extent_list_parts del: join.simps)
qed

section \<open>UTF-16\<close>

lemma chars_of_append: "utf8_string s \<Longrightarrow> utf8_string t \<Longrightarrow> chars_of (s @ t) = chars_of s @ chars_of t"
  unfolding utf8_string_iff
  by (auto simp: chars_of_string_of_chars simp flip: string_of_chars_append)

lemma encode_utf16_append: "utf8_string s \<Longrightarrow> utf8_string t \<Longrightarrow> encode_utf16 (s @ t) = encode_utf16 s @ encode_utf16 t"
  by (simp add: encode_utf16_def chars_of_append)

lemma encode_utf16_char: "n < 128 \<Longrightarrow> encode_utf16 [char_of n] = [word_of_nat n]"
  by (simp add: encode_utf16_def chars_of_def utf16_units_def)

lemma ascii_unit_absent:
  assumes s: "utf8_string s" and n: "n < 128" "char_of n \<notin> set s"
  shows "word_of_nat n \<notin> set (encode_utf16 s)"
proof
  obtain cs where cs: "list_all scalar cs" "s = string_of_chars cs" using s by (auto simp: utf8_string_iff)
  assume "word_of_nat n \<in> set (encode_utf16 s)"
  then obtain c u where c: "c \<in> set cs" "u \<in> set (utf16_units c)" "word_of_nat n = (word_of_nat u :: u16)"
    by (auto simp: encode_utf16_def cs chars_of_string_of_chars [OF cs(1)])
  have sc: "scalar c" using c(1) cs(1) by (simp add: list_all_iff)
  have "u < 65536" using utf16_units_small [OF sc c(2)] .
  then have "u = n" using arg_cong [OF c(3), of unat] n(1) by (simp add: unsigned_of_nat take_bit_nat_eq_self)
  then have "c = n" using c(2) n(1) by (auto simp: utf16_units_def split: if_splits)
  then have "char_of n \<in> set (string_of_chars cs)" using c(1) n(1)
    by (auto simp: string_of_chars_def utf8_encode_def intro!: bexI [of _ n])
  then show False using n(2) cs(2) by simp
qed

lemma split_units_piece: "u \<notin> set p \<Longrightarrow> split_units u (p @ u # s) = p # split_units u s"
  by (induction p) (auto simp: Let_def)

lemma split_units_whole: "u \<notin> set p \<Longrightarrow> split_units u p = [p]"
  by (induction p) (auto simp: Let_def)

text \<open>What a line must be to survive: no line breaks in it.\<close>

definition line_ok :: "string \<Rightarrow> bool" where
  "line_ok l \<longleftrightarrow> utf8_string l \<and> newline \<notin> set l \<and> carriage_return \<notin> set l"

lemma split_units_lines:
  "ls \<noteq> [] \<Longrightarrow> \<forall>l \<in> set ls. line_ok l \<Longrightarrow> split_units 10 (encode_utf16 (join [newline] ls)) = map encode_utf16 ls"
proof (induction "[newline]" ls rule: join.induct)
  case (2 l)
  then have "word_of_nat 10 \<notin> set (encode_utf16 l)" by (intro ascii_unit_absent) (simp_all add: line_ok_def newline_def)
  then show ?case by (simp add: split_units_whole)
next
  case (3 l m ls)
  have nl: "encode_utf16 [newline] = [10]" using encode_utf16_char [of 10] by (simp add: newline_def)
  have l: "utf8_string l" "newline \<notin> set l" using 3 by (simp_all add: line_ok_def)
  have l10: "10 \<notin> set (encode_utf16 l)" using ascii_unit_absent [OF l(1), of 10] l(2) by (simp add: newline_def)
  have nls: "utf8_string [newline]" by (rule utf8_string_ascii) (simp add: newline_def)
  have rest: "utf8_string (join [newline] (m # ls))" using 3 nls by (intro utf8_string_join) (auto simp: line_ok_def)
  have "encode_utf16 (join [newline] (l # m # ls)) = encode_utf16 l @ 10 # encode_utf16 (join [newline] (m # ls))"
    using encode_utf16_append [OF l(1) utf8_string_append [OF nls rest]] encode_utf16_append [OF nls rest] by (simp add: nl)
  then show ?case using 3 l10 by (simp add: split_units_piece)
qed simp

lemma decode_raw_line_encode: "line_ok l \<Longrightarrow> decode_raw_line (encode_utf16 l) = (l, None)"
proof -
  assume l: "line_ok l"
  then have "word_of_nat 13 \<notin> set (encode_utf16 l)" by (intro ascii_unit_absent) (simp_all add: line_ok_def carriage_return_def)
  then have "\<not> (encode_utf16 l \<noteq> [] \<and> last (encode_utf16 l) = 13)" using last_in_set [of "encode_utf16 l"] by force
  then show ?thesis using from_utf16_encode [of l] l by (auto simp: decode_raw_line_def line_ok_def)
qed

lemma length_utf16le_bytes [simp]: "length (utf16le_bytes us) = 2 * length us"
  by (induction us) (simp_all add: utf16le_bytes_def)

lemma lines_read_back:
  assumes "ls \<noteq> []" "\<forall>l \<in> set ls. line_ok l"
  shows "decode_utf16le_lines (utf16le_with_bom (join [newline] ls)) = Inr (ls, [])"
proof -
  let ?us = "encode_utf16 (join [newline] ls)"
  have w: "utf16le_with_bom (join [newline] ls) = utf16le_bytes (0xfeff # ?us)"
    by (simp add: utf16le_with_bom_def utf16le_def utf16le_bytes_def)
  have "strip_prefix [0xfeff] (0xfeff # ?us) = Some ?us" by (simp add: strip_prefix_def)
  moreover have d: "map decode_raw_line (map encode_utf16 ls) = map (\<lambda>l. (l, None)) ls"
    using assms(2) by (simp add: decode_raw_line_encode)
  moreover have "concat (map (\<lambda>(i, line, raw). case raw of Some r \<Rightarrow> [(i, r)] | None \<Rightarrow> []) (enumerate n (map (\<lambda>l. (l, None)) ls))) = []" for n
    by (induction ls arbitrary: n) simp_all
  ultimately show ?thesis
    using split_units_lines [OF assms]
    by (simp add: decode_utf16le_lines_def w utf16le_units_bytes Let_def comp_def case_prod_beta'
        del: map_map concat_eq_Nil_conv) (simp add: comp_def)
qed

section \<open>Attributes\<close>

lemma hex_byte_text: "parse_hex_unsigned 255 [hex_char (drop_bit 4 b), hex_char (b AND 0x0f)] = Some (unat b)" for b :: u8
proof -
  have digit: "hex_digit_value (hex_char v) = Some (unat v)" if "unat v < 16" for v :: u8
    using hex_digit_char [OF that] by simp
  have hi: "unat (drop_bit 4 b) = unat b div 16" by (simp add: drop_bit_eq_div unat_div)
  have "b AND 0x0f = take_bit 4 b" by (simp add: take_bit_eq_mask mask_eq_exp_minus_1)
  then have lo: "unat (b AND 0x0f) = unat b mod 16" by (simp add: take_bit_eq_mod unat_mod)
  have b: "unat b < 256" using unsigned_less [of b, where 'a = nat] by simp
  then have "unat b div 16 < 16" by (simp add: less_mult_imp_div_less)
  then have h: "hex_digit_value (hex_char (drop_bit 4 b)) = Some (unat b div 16)" "hex_digit_value (hex_char (b AND 0x0f)) = Some (unat b mod 16)"
    using digit hi lo by simp_all
  then have "hex_char (drop_bit 4 b) \<noteq> CHR ''+''" using hex_digit_plain [of "hex_char (drop_bit 4 b)"] by auto
  then show ?thesis using h b by (simp add: parse_hex_unsigned_def)
qed

lemma parse_hex_bytes_string: "parse_hex_bytes (hex_string bs) = Some bs"
  by (induction bs) (simp_all add: hex_byte_text)

lemma without_whitespace_visible: "list_all visible s \<Longrightarrow> without_whitespace s = s"
proof (induction s)
  case Nil
  show ?case by (subst without_whitespace.simps) simp
next
  case (Cons c s)
  then show ?case by (subst without_whitespace.simps) (simp add: ws_length_visible)
qed

lemma hex_stream_read_back: "parse_hex_byte_stream (hex_string bs) l = Inr bs"
proof -
  have ascii: "\<forall>c \<in> set ''0123456789abcdef''. code c < 128" by code_simp
  have "length (hex_string bs) mod 2 = 0" by (induction bs) simp_all
  moreover have "list_all visible (hex_string bs)" using hex_string_visible by (auto simp: list_all_iff)
  moreover have "list_all (\<lambda>c. code c < 128) (hex_string bs)"
    unfolding list_all_iff using hex_string_digits ascii by blast
  ultimately show ?thesis
    by (simp add: parse_hex_byte_stream_def without_whitespace_visible parse_hex_bytes_string ok_or_def)
qed

text \<open>A text that the writer leaves as it is and the reader takes for a value.\<close>

definition plain_text :: "string option \<Rightarrow> bool" where
  "plain_text v \<longleftrightarrow> (case v of None \<Rightarrow> True | Some s \<Rightarrow> utf8_string s \<and> s \<noteq> [] \<and> sanitize_header_value s = s)"

lemma plain_text_None [simp]: "plain_text None"
  by (simp add: plain_text_def)

lemma sanitized_clear: "sanitize_header_value s = s \<Longrightarrow> tab \<notin> set s \<and> newline \<notin> set s \<and> carriage_return \<notin> set s"
proof -
  assume s: "sanitize_header_value s = s"
  have "sanitize_char c = c" if "c \<in> set s" for c
    using s that unfolding sanitize_header_value_def by (metis map_eq_conv list.map_ident)
  moreover have "sanitize_char tab \<noteq> tab" "sanitize_char newline \<noteq> newline" "sanitize_char carriage_return \<noteq> carriage_return"
    by code_simp+
  ultimately show ?thesis by blast
qed

lemma optional_text_plain: "plain_text v \<Longrightarrow> optional_text v = (case v of None \<Rightarrow> [] | Some s \<Rightarrow> s)"
  by (simp add: plain_text_def optional_text_def split: option.splits)

lemma null_terminated_read_back:
  assumes "plain_text v"
  shows "decode_optional_utf16le_string (optional_utf16le_null_terminated v) l = Inr v"
proof (cases v)
  case None
  then show ?thesis by (simp add: decode_optional_utf16le_string_def optional_utf16le_null_terminated_def)
next
  case (Some s)
  then have s: "utf8_string s" "s \<noteq> []" "sanitize_header_value s = s" using assms by (simp_all add: plain_text_def)
  have nul: "utf8_string [char_of (0 :: nat)]" "encode_utf16 [char_of (0 :: nat)] = [0]"
    using encode_utf16_char [of 0] by (simp_all add: utf8_string_ascii)
  have "utf16le s @ le16 0 = utf16le_bytes (encode_utf16 (s @ [char_of (0 :: nat)]))"
    by (simp add: encode_utf16_append [OF s(1) nul(1)] nul(2) utf16le_def utf16le_bytes_def)
  then have t: "optional_utf16le_null_terminated (Some s) = utf16le_bytes (encode_utf16 (s @ [char_of (0 :: nat)]))"
    using Some s(3) by (simp add: optional_utf16le_null_terminated_def)
  have "encode_utf16 (s @ [char_of (0 :: nat)]) \<noteq> []" by (simp add: encode_utf16_append [OF s(1) nul(1)] nul(2))
  then have "utf16le_bytes (encode_utf16 (s @ [char_of (0 :: nat)])) \<noteq> []"
    by (metis length_utf16le_bytes length_0_conv mult_eq_0_iff zero_neq_numeral)
  then show ?thesis
    using from_utf16_encode [OF utf8_string_append [OF s(1) nul(1)]] s(2)
    by (simp add: Some decode_optional_utf16le_string_def t utf16le_units_bytes ok_or_def Let_def)
qed

lemma null_terminated_even: "length (optional_utf16le_null_terminated v) mod 2 = 0"
  by (cases v) (simp_all add: optional_utf16le_null_terminated_def utf16le_def)

definition attribute_ok :: "single_file_attribute \<Rightarrow> bool" where
  "attribute_ok a \<longleftrightarrow> plain_text (at_name a) \<and> plain_text (at_value a)"

lemma slice_middle: "slice (p @ v @ q) (length p) (length p + length v) = v"
  by (simp add: slice_def)

lemma attribute_record_read_back:
  assumes r: "attribute_record a = Inr r" and ok: "attribute_ok a"
  shows "parse_extended_attribute_record (r @ rest) = Inr (\<lparr>pa_name = at_name a, pa_value = at_value a, pa_is_branch = False\<rparr>, length r)"
    and "r \<noteq> []"
proof -
  define n v where "n = optional_utf16le_null_terminated (at_name a)" and "v = optional_utf16le_null_terminated (at_value a)"
  obtain nu vu where u: "u32_of_usize (length n div 2) = Some nu" "u32_of_usize (length v div 2) = Some vu"
    and re: "r = replicate 4 0 @ [0] @ le32 nu @ le32 vu @ n @ v"
    using r by (auto simp: attribute_record_def n_def v_def Let_def try_bind_Inr_iff ok_or_def split: option.splits)
  have len: "2 * unat nu = length n" "2 * unat vu = length v"
    using u null_terminated_even [of "at_name a"] null_terminated_even [of "at_value a"]
    by (auto simp: u32_of_usize_def n_def v_def unsigned_of_nat take_bit_nat_eq_self split: if_splits)
  have parts: "(r @ rest) ! 4 = 0" "u32_at (r @ rest) 5 = nu" "u32_at (r @ rest) 9 = vu"
    "slice (r @ rest) 13 (13 + length n) = n"
    by (simp_all add: re slice_def nth_append)
  have last_part: "slice (r @ rest) (13 + length n) (13 + length n + length v) = v"
    using slice_middle [of "replicate 4 0 @ [0] @ le32 nu @ le32 vu @ n" v rest] by (simp add: re add.assoc)
  show "r \<noteq> []" by (simp add: re)
  have dec: "decode_optional_utf16le_string n l = Inr (at_name a)" "decode_optional_utf16le_string v l = Inr (at_value a)" for l
    using ok null_terminated_read_back by (simp_all add: n_def v_def attribute_ok_def)
  have size: "length r = 13 + length n + length v" by (simp add: re)
  show "parse_extended_attribute_record (r @ rest) = Inr (\<lparr>pa_name = at_name a, pa_value = at_value a, pa_is_branch = False\<rparr>, length r)"
    unfolding parse_extended_attribute_record_def parts(2,3) len
    by (simp add: parts(1,4) last_part dec size Let_def)
qed

lemma attribute_header_read: "\<exists>b. parse_extended_attribute_record (EXTENDED_ATTRIBUTES_HEADER @ rest) = Inr (b, 37) \<and> pa_is_branch b"
proof -
  let ?h = "EXTENDED_ATTRIBUTES_HEADER"
  have len: "length ?h = 37" by (simp add: EXTENDED_ATTRIBUTES_HEADER_def)
  have nth: "(?h @ rest) ! 4 = 1" by (simp add: EXTENDED_ATTRIBUTES_HEADER_def)
  have sl: "slice (?h @ rest) a b = slice ?h a b" if "b \<le> 37" for a b using that by (simp add: slice_def len)
  have n: "u32_at ?h 5 = (11 :: u32)" "u32_at ?h 9 = (1 :: u32)" by code_simp+
  have units: "utf16le_units (slice ?h 13 35) = [65, 116, 116, 114, 105, 98, 117, 116, 101, 115, 0]"
    "utf16le_units (slice ?h 35 37) = [0]" by code_simp+
  have "length (slice ?h 13 35) = 22" "length (slice ?h 35 37) = 2" by (simp_all add: slice_def len)
  then have t: "\<not> isl (decode_optional_utf16le_string (slice ?h 13 35) ''extended attribute name'')"
    "\<not> isl (decode_optional_utf16le_string (slice ?h 35 37) ''extended attribute value'')"
    by (auto simp: decode_optional_utf16le_string_def units from_utf16_def ok_or_def Let_def)
  obtain x y where xy: "decode_optional_utf16le_string (slice ?h 13 35) ''extended attribute name'' = Inr x"
    "decode_optional_utf16le_string (slice ?h 35 37) ''extended attribute value'' = Inr y"
    using t by (metis isl_def sum.exhaust)
  show ?thesis
    using n xy by (simp add: parse_extended_attribute_record_def nth sl len Let_def)
qed

lemma attribute_records_split:
  "try_fold (\<lambda>data attribute. try_bind (attribute_record attribute) (\<lambda>r. Inr (data @ r))) d as = Inr out
    \<Longrightarrow> list_all attribute_ok as \<Longrightarrow> \<exists>rs. out = d @ rs \<and> parse_attribute_records rs = Inr as"
proof (induction as arbitrary: d)
  case Nil
  then show ?case by (intro exI [of _ "[]"], subst parse_attribute_records.simps) simp
next
  case (Cons a as)
  obtain r where r: "attribute_record a = Inr r" using Cons.prems(1) by (auto simp: try_bind_Inr_iff)
  then have "try_fold (\<lambda>data attribute. try_bind (attribute_record attribute) (\<lambda>r. Inr (data @ r))) (d @ r) as = Inr out"
    using Cons.prems(1) by simp
  from Cons.IH [OF this] Cons.prems(2) obtain rs where rs: "out = (d @ r) @ rs" "parse_attribute_records rs = Inr as" by auto
  note one = attribute_record_read_back(1) [OF r, of rs] attribute_record_read_back(2) [OF r]
  have "parse_attribute_records (r @ rs) = Inr (a # as)"
    using one Cons.prems(2) rs(2) by (subst parse_attribute_records.simps) simp
  with rs(1) show ?case by (intro exI [of _ "r @ rs"]) simp
qed

lemma attributes_read_back:
  assumes "single_file_attributes_value as = Inr v" "as \<noteq> []" "list_all attribute_ok as"
  shows "parse_extended_attributes v = Inr as \<and> v \<noteq> []"
proof -
  obtain d where d: "try_fold (\<lambda>data attribute. try_bind (attribute_record attribute) (\<lambda>r. Inr (data @ r)))
      EXTENDED_ATTRIBUTES_HEADER as = Inr d" "v = hex_string d"
    using assms(1,2) by (auto simp: single_file_attributes_value_def try_bind_Inr_iff)
  obtain rs where rs: "d = EXTENDED_ATTRIBUTES_HEADER @ rs" "parse_attribute_records rs = Inr as"
    using attribute_records_split [OF d(1) assms(3)] by blast
  have h: "EXTENDED_ATTRIBUTES_HEADER \<noteq> []" "length EXTENDED_ATTRIBUTES_HEADER = 37" by (simp_all add: EXTENDED_ATTRIBUTES_HEADER_def)
  obtain b where "parse_extended_attribute_record d = Inr (b, 37)" "pa_is_branch b"
    using attribute_header_read [of rs] rs(1) by auto
  then have "parse_attribute_records d = Inr as" using rs h by (subst parse_attribute_records.simps) simp
  moreover have "v \<noteq> []" unfolding d(2) rs(1) by (simp add: EXTENDED_ATTRIBUTES_HEADER_def)
  moreover have "d \<noteq> []" using h(1) rs(1) by simp
  ultimately show ?thesis using rs(1)
    by (simp add: parse_extended_attributes_def d(2) hex_stream_read_back starts_with_append h(1))
qed

section \<open>Cells\<close>

text \<open>What a cell must be to survive: no separators in it.\<close>

definition cell_ok :: "string \<Rightarrow> bool" where
  "cell_ok c \<longleftrightarrow> utf8_string c \<and> tab \<notin> set c \<and> newline \<notin> set c \<and> carriage_return \<notin> set c"

definition hex_value_ok :: "string option \<Rightarrow> bool" where
  "hex_value_ok v \<longleftrightarrow> (case v of None \<Rightarrow> True | Some s \<Rightarrow>
     s \<noteq> [] \<and> list_all (\<lambda>c. hex_digit_value c \<noteq> None) s \<and> lowercase s = s \<and> \<not> list_all (\<lambda>c. c = CHR ''0'') s)"

lemma hex_value_ok_None [simp]: "hex_value_ok None"
  by (simp add: hex_value_ok_def)

lemma hex_digit_ascii: "hex_digit_value c \<noteq> None \<Longrightarrow> code c < 128"
  by (auto simp: hex_digit_value_def Let_def split: if_splits)

lemma hex_value_plain: "hex_value_ok v \<Longrightarrow> plain_text v"
proof (cases v)
  case (Some s)
  assume "hex_value_ok v"
  then have s: "s \<noteq> []" "\<And>c. c \<in> set s \<Longrightarrow> hex_digit_value c \<noteq> None" using Some by (auto simp: hex_value_ok_def list_all_iff)
  have "sanitize_char c = c" if "c \<in> set s" for c
    using hex_digit_plain [OF s(2) [OF that]] by (simp add: sanitize_char_def)
  then have "sanitize_header_value s = s" by (simp add: sanitize_header_value_def map_idI)
  moreover have "utf8_string s" using s(2) hex_digit_ascii by (intro utf8_string_ascii) (auto simp: list_all_iff)
  ultimately show ?thesis using s(1) Some by (simp add: plain_text_def)
qed simp

lemma ascii_cell_ok: "list_all (\<lambda>c. 32 \<le> code c \<and> code c < 128) s \<Longrightarrow> cell_ok s"
proof -
  assume s: "list_all (\<lambda>c. 32 \<le> code c \<and> code c < 128) s"
  then have "utf8_string s" by (intro utf8_string_ascii) (auto simp: list_all_iff)
  moreover have "code tab < 32" "code newline < 32" "code carriage_return < 32"
    by (simp_all add: tab_def newline_def carriage_return_def)
  ultimately show ?thesis using s unfolding cell_ok_def list_all_iff by (metis not_less)
qed

lemma digits_cell_ok: "list_all is_ascii_digit s \<Longrightarrow> cell_ok s"
  by (rule ascii_cell_ok) (auto simp: list_all_iff is_ascii_digit_def)

lemma dec_cell_ok [simp]: "cell_ok (dec n)"
  by (rule digits_cell_ok) (simp add: list_all_iff dec_digits)

lemma cell_ok_Nil [simp]: "cell_ok []"
  by (simp add: cell_ok_def)

lemma cell_ok_append: "cell_ok a \<Longrightarrow> cell_ok b \<Longrightarrow> cell_ok (a @ b)"
  by (auto simp: cell_ok_def)

lemma i64_cell_ok [simp]: "cell_ok (i64_text v)"
proof -
  have "cell_ok ''-''" by (rule ascii_cell_ok) (simp add: code_def)
  then show ?thesis unfolding i64_text_def using cell_ok_append [of "''-''"] by simp
qed

lemma optional_cells_ok [simp]: "cell_ok (optional_unsigned v)" "cell_ok (optional_signed w)"
  by (simp_all add: optional_unsigned_def optional_signed_def split: option.split)

lemma optional_text_cell_ok: "plain_text v \<Longrightarrow> cell_ok (optional_text v)"
  by (cases v) (auto simp: optional_text_def plain_text_def cell_ok_def dest: sanitized_clear)

lemma type_cell_ok [simp]: "cell_ok (single_file_entry_type_value v)"
  by (auto simp: single_file_entry_type_value_def code_def intro!: ascii_cell_ok
      split: option.split single_file_entry_type.split)

lemma hex_cell_ok: "list_all (\<lambda>c. hex_digit_value c \<noteq> None) s \<Longrightarrow> cell_ok s"
  by (rule ascii_cell_ok) (auto simp: list_all_iff hex_digit_value_def Let_def split: if_splits dest!: bspec)

lemma hex_text_cell_ok [simp]: "cell_ok (hex_text n)"
  by (rule hex_cell_ok) (auto simp: list_all_iff dest: hex_text_digits)

lemma hex_string_cell_ok [simp]: "cell_ok (hex_string bs)"
proof (rule hex_cell_ok, unfold list_all_iff, intro ballI)
  fix c assume "c \<in> set (hex_string bs)"
  moreover have "\<forall>c \<in> set ''0123456789abcdef''. hex_digit_value c \<noteq> None" by code_simp
  ultimately show "hex_digit_value c \<noteq> None" using hex_string_digits by blast
qed

lemma join_cell_ok: "\<forall>c \<in> set cs. cell_ok c \<Longrightarrow> cell_ok sep \<Longrightarrow> cell_ok (join sep cs)"
  by (induction sep cs rule: join.induct) (auto intro!: cell_ok_append)

lemma literal_cells_ok [simp]: "cell_ok '' ''" "cell_ok ''S''"
  by (rule ascii_cell_ok, simp add: code_def)+

lemma extents_cell_ok [simp]: "cell_ok (single_file_extents_value es)"
proof -
  have "\<forall>c \<in> set (hex_text (length es) # concat (map extent_parts es)). cell_ok c"
    using extent_part_cases by (metis hex_text_cell_ok literal_cells_ok(2))
  then show ?thesis unfolding single_file_extents_value_def using join_cell_ok by (metis cell_ok_Nil literal_cells_ok(1))
qed

lemma short_name_cell_ok: "plain_text v \<Longrightarrow> cell_ok (single_file_short_name_value v)"
proof -
  assume v: "plain_text v"
  have "cell_ok (dec (length (optional_text v) + 1) @ '' '' @ optional_text v)"
    by (intro cell_ok_append dec_cell_ok literal_cells_ok optional_text_cell_ok v)
  then show ?thesis by (simp add: single_file_short_name_value_def Let_def)
qed

lemma attributes_cell_ok: "single_file_attributes_value as = Inr v \<Longrightarrow> cell_ok v"
  by (auto simp: single_file_attributes_value_def try_bind_Inr_iff split: if_splits)

lemma row_read_back:
  assumes "cells \<noteq> []" "\<forall>c \<in> set cells. cell_ok c"
  shows "split_on tab (join [tab] cells) = cells" "line_ok (join [tab] cells)"
proof -
  show "split_on tab (join [tab] cells) = cells" using assms by (intro split_on_join) (auto simp: cell_ok_def)
  have "utf8_string [tab]" by (rule utf8_string_ascii) (simp add: tab_def)
  then have "utf8_string (join [tab] cells)" using assms(2) by (intro utf8_string_join) (auto simp: cell_ok_def)
  moreover have "newline \<notin> set (join [tab] cells)" "carriage_return \<notin> set (join [tab] cells)"
    using set_join [of "[tab]" cells] assms(2) by (auto simp: cell_ok_def)
  ultimately show "line_ok (join [tab] cells)" by (simp add: line_ok_def)
qed

lemma base16_read_back: "hex_value_ok (Some s) \<Longrightarrow> parse_serialized_base16_string s l = Inr (Some s)"
  by (simp add: hex_value_ok_def parse_serialized_base16_string_def)

definition short_name_ok :: "string option \<Rightarrow> bool" where
  "short_name_ok v \<longleftrightarrow> plain_text v \<and> (case v of None \<Rightarrow> True | Some s \<Rightarrow> CHR '' '' \<notin> set s \<and> length s + 1 < 2 ^ 64)"

lemma short_name_read_back: "short_name_ok (Some s) \<Longrightarrow> parse_short_name (single_file_short_name_value (Some s)) = Inr s"
proof -
  assume s: "short_name_ok (Some s)"
  then have t: "optional_text (Some s) = s" "s \<noteq> []" "CHR '' '' \<notin> set s" "length s + 1 < 2 ^ 64"
    by (auto simp: short_name_ok_def optional_text_plain plain_text_def)
  have "CHR '' '' \<notin> set (dec (length s + 1))"
    using dec_digits [of "CHR '' ''" "length s + 1"] by (auto simp: is_ascii_digit_def code_def)
  then have "split_on (CHR '' '') (dec (length s + 1) @ CHR '' '' # s) = [dec (length s + 1), s]"
    using t(3) by (simp add: split_on_piece split_on_whole)
  moreover have "unat (word_of_nat (length s + 1) :: u64) = length s + 1"
    using t(4) by (simp only: unsigned_of_nat take_bit_nat_eq_self) (simp add: take_bit_nat_eq_self)
  ultimately show ?thesis using t
    by (simp add: parse_short_name_def single_file_short_name_value_def Let_def catalog_u64_dec_nat del: of_nat_Suc of_nat_add)
qed

section \<open>Rows\<close>

named_theorems cell_steps

lemma entry_default_fields [cell_steps]:
  "fe_flags catalog_entry_default = None" "fe_size catalog_entry_default = None"
  "fe_duplicate_data_offset catalog_entry_default = None" "fe_extents catalog_entry_default = []"
  "ce_identifier catalog_entry_default = None" "ce_type catalog_entry_default = None" "ce_guid catalog_entry_default = None"
  "ce_name catalog_entry_default = None" "ce_name_utf16 catalog_entry_default = None" "ce_short_name catalog_entry_default = None"
  "ce_logical_offset catalog_entry_default = None" "ce_physical_offset catalog_entry_default = None"
  "ce_source_identifier catalog_entry_default = None" "ce_subject_identifier catalog_entry_default = None"
  "ce_permission_group_index catalog_entry_default = None" "ce_record_type catalog_entry_default = None"
  "ce_creation_time catalog_entry_default = None" "ce_modification_time catalog_entry_default = None"
  "ce_access_time catalog_entry_default = None" "ce_entry_modification_time catalog_entry_default = None"
  "ce_deletion_time catalog_entry_default = None" "ce_md5 catalog_entry_default = None" "ce_sha1 catalog_entry_default = None"
  "ce_attributes catalog_entry_default = []"
  by (simp_all add: catalog_entry_default_def)

lemma dec_of_word_nonempty: "optional_unsigned (Some n) \<noteq> []" "optional_signed (Some m) \<noteq> []"
  by (simp_all add: optional_unsigned_def optional_signed_def)

lemma entry_number_steps [cell_steps]:
  "ce_identifier e = None \<Longrightarrow> apply_entry_value e (''id'', optional_unsigned i64) = Inr (e\<lparr>ce_identifier := i64\<rparr>)"
  "fe_size e = None \<Longrightarrow> apply_entry_value e (''ls'', optional_unsigned i64) = Inr (e\<lparr>fe_size := i64\<rparr>)"
  "ce_subject_identifier e = None \<Longrightarrow> apply_entry_value e (''sub'', optional_unsigned i32) = Inr (e\<lparr>ce_subject_identifier := i32\<rparr>)"
  "ce_record_type e = None \<Longrightarrow> apply_entry_value e (''cid'', optional_unsigned i32) = Inr (e\<lparr>ce_record_type := i32\<rparr>)"
  "fe_flags e = None \<Longrightarrow> apply_entry_value e (''opr'', optional_unsigned i32) = Inr (e\<lparr>fe_flags := i32\<rparr>)"
  by (cases i64; cases e; simp add: apply_entry_value_def optional_unsigned_def store_def;
      cases i32; cases e; simp add: apply_entry_value_def optional_unsigned_def store_def)+

lemma entry_signed_steps [cell_steps]:
  "ce_logical_offset e = None \<Longrightarrow> apply_entry_value e (''lo'', optional_signed v) = Inr (e\<lparr>ce_logical_offset := v\<rparr>)"
  "ce_physical_offset e = None \<Longrightarrow> apply_entry_value e (''po'', optional_signed v) = Inr (e\<lparr>ce_physical_offset := v\<rparr>)"
  "fe_duplicate_data_offset e = None \<Longrightarrow> apply_entry_value e (''du'', optional_signed v) = Inr (e\<lparr>fe_duplicate_data_offset := v\<rparr>)"
  "ce_creation_time e = None \<Longrightarrow> apply_entry_value e (''cr'', optional_signed v) = Inr (e\<lparr>ce_creation_time := v\<rparr>)"
  "ce_modification_time e = None \<Longrightarrow> apply_entry_value e (''wr'', optional_signed v) = Inr (e\<lparr>ce_modification_time := v\<rparr>)"
  "ce_access_time e = None \<Longrightarrow> apply_entry_value e (''ac'', optional_signed v) = Inr (e\<lparr>ce_access_time := v\<rparr>)"
  "ce_entry_modification_time e = None \<Longrightarrow> apply_entry_value e (''mo'', optional_signed v) = Inr (e\<lparr>ce_entry_modification_time := v\<rparr>)"
  "ce_deletion_time e = None \<Longrightarrow> apply_entry_value e (''dl'', optional_signed v) = Inr (e\<lparr>ce_deletion_time := v\<rparr>)"
  by (cases v; cases e; simp add: apply_entry_value_def optional_signed_def store_def)+

lemma entry_index_steps [cell_steps]:
  "ce_permission_group_index e = None \<Longrightarrow> apply_entry_value e (''pm'', optional_signed v) = Inr (e\<lparr>ce_permission_group_index := v\<rparr>)"
  "ce_source_identifier e = None \<Longrightarrow> (case v of None \<Rightarrow> True | Some i \<Rightarrow> 0 \<le> sint i) \<Longrightarrow>
     apply_entry_value e (''src'', optional_signed v) = Inr (e\<lparr>ce_source_identifier := v\<rparr>)"
  by (cases v; cases e; simp add: apply_entry_value_def optional_signed_def store_def)+

lemma optional_text_Some: "plain_text (Some s) \<Longrightarrow> optional_text (Some s) = s \<and> s \<noteq> []"
  by (auto simp: plain_text_def optional_text_def)

lemma entry_text_steps [cell_steps]:
  "ce_name e = None \<Longrightarrow> plain_text v \<Longrightarrow> apply_entry_value e (''n'', optional_text v) = Inr (e\<lparr>ce_name := v\<rparr>)"
  "ce_md5 e = None \<Longrightarrow> hex_value_ok v \<Longrightarrow> apply_entry_value e (''ha'', optional_text v) = Inr (e\<lparr>ce_md5 := v\<rparr>)"
  "ce_sha1 e = None \<Longrightarrow> hex_value_ok v \<Longrightarrow> apply_entry_value e (''sha'', optional_text v) = Inr (e\<lparr>ce_sha1 := v\<rparr>)"
  "ce_guid e = None \<Longrightarrow> hex_value_ok v \<Longrightarrow> apply_entry_value e (''mid'', optional_text v) = Inr (e\<lparr>ce_guid := v\<rparr>)"
  by (cases v; cases e; simp add: optional_text_def [of None] apply_entry_value_def;
      simp add: apply_entry_value_def store_def base16_read_back optional_text_Some hex_value_plain)+

lemma join_nonempty: "p \<noteq> [] \<Longrightarrow> join sep (p # ps) \<noteq> []"
  by (cases ps) simp_all

lemma entry_other_steps [cell_steps]:
  "t \<noteq> None \<Longrightarrow> apply_entry_value e (''p'', single_file_entry_type_value t) = Inr (e\<lparr>ce_type := t\<rparr>)"
  "fe_extents e = [] \<Longrightarrow> length es < 2 ^ 64 \<Longrightarrow> apply_entry_value e (''be'', single_file_extents_value es) = Inr (e\<lparr>fe_extents := es\<rparr>)"
  "ce_short_name e = None \<Longrightarrow> short_name_ok v \<Longrightarrow>
     apply_entry_value e (''snh'', single_file_short_name_value v) = Inr (e\<lparr>ce_short_name := v\<rparr>)"
  "ce_attributes e = [] \<Longrightarrow> single_file_attributes_value as = Inr a \<Longrightarrow> list_all attribute_ok as \<Longrightarrow>
     apply_entry_value e (''ea'', a) = Inr (e\<lparr>ce_attributes := as\<rparr>)"
proof -
  show "t \<noteq> None \<Longrightarrow> apply_entry_value e (''p'', single_file_entry_type_value t) = Inr (e\<lparr>ce_type := t\<rparr>)"
    by (auto simp: apply_entry_value_def single_file_entry_type_value_def split: option.split single_file_entry_type.split)
  show "fe_extents e = [] \<Longrightarrow> length es < 2 ^ 64 \<Longrightarrow> apply_entry_value e (''be'', single_file_extents_value es) = Inr (e\<lparr>fe_extents := es\<rparr>)"
  proof (cases "es = []")
    case False
    assume "length es < 2 ^ 64"
    moreover have "single_file_extents_value es \<noteq> []" using False
      using join_nonempty [of "hex_text (length es)" "'' ''"] by (simp add: single_file_extents_value_def)
    ultimately show ?thesis using False by (simp add: apply_entry_value_def store_def extents_read_back)
  qed (cases e; simp add: apply_entry_value_def single_file_extents_value_def)
  show "ce_short_name e = None \<Longrightarrow> short_name_ok v \<Longrightarrow>
     apply_entry_value e (''snh'', single_file_short_name_value v) = Inr (e\<lparr>ce_short_name := v\<rparr>)"
  proof (cases v)
    case (Some s)
    assume v: "short_name_ok v"
    then have "optional_text v = s \<and> s \<noteq> []" using Some optional_text_Some by (simp add: short_name_ok_def)
    then have "single_file_short_name_value v \<noteq> []" by (simp add: single_file_short_name_value_def Let_def)
    then show ?thesis using v Some short_name_read_back [of s] by (simp add: apply_entry_value_def store_def)
  qed (cases e; simp add: apply_entry_value_def single_file_short_name_value_def optional_text_def)
  assume as: "ce_attributes e = []" "single_file_attributes_value as = Inr a" "list_all attribute_ok as"
  show "apply_entry_value e (''ea'', a) = Inr (e\<lparr>ce_attributes := as\<rparr>)"
  proof (cases "as = []")
    case True
    then have "a = []" using as(2) by (simp add: single_file_attributes_value_def)
    then show ?thesis using True as(1) by (cases e) (simp add: apply_entry_value_def)
  next
    case False
    then show ?thesis using attributes_read_back [OF as(2) False as(3)] by (simp add: apply_entry_value_def store_def)
  qed
qed

definition catalog_entry_ok :: "(i32 \<times> i32) list \<Rightarrow> catalog_entry \<Rightarrow> bool" where
  "catalog_entry_ok ids e \<longleftrightarrow> ce_type e \<noteq> None \<and> plain_text (ce_name e) \<and> short_name_ok (ce_short_name e) \<and>
     hex_value_ok (ce_md5 e) \<and> hex_value_ok (ce_sha1 e) \<and> hex_value_ok (ce_guid e) \<and>
     list_all attribute_ok (ce_attributes e) \<and> length (fe_extents e) < 2 ^ 64 \<and>
     entry_identifier ids (ce_source_identifier e) = ce_source_identifier e \<and>
     (case ce_source_identifier e of None \<Rightarrow> True | Some i \<Rightarrow> 0 \<le> sint i)"

lemma entry_row_read_back:
  assumes row: "single_file_entry_row ids include_guid e = Inr row" and ok: "catalog_entry_ok ids e"
    and guid: "\<not> include_guid \<longrightarrow> ce_guid e = None"
  shows "try_fold apply_entry_value catalog_entry_default
      (zip (single_file_entry_types include_guid) (split_typed_values (single_file_entry_types include_guid) row)) = Inr e"
    and "line_ok row"
proof -
  have name: "ce_name_utf16 e = None" using row by (simp add: single_file_entry_row_def split: if_splits)
  obtain a where attributes: "single_file_attributes_value (ce_attributes e) = Inr a"
    using row name by (cases "single_file_attributes_value (ce_attributes e)") (simp_all add: single_file_entry_row_def entry_cells_def)
  note a = name attributes
  define cells where cells: "cells = [optional_unsigned (ce_identifier e), single_file_entry_type_value (ce_type e), optional_text (ce_name e),
       optional_unsigned (fe_size e), optional_signed (ce_logical_offset e), optional_signed (ce_physical_offset e),
       optional_signed (fe_duplicate_data_offset e), optional_signed (ce_source_identifier e),
       optional_unsigned (ce_subject_identifier e), optional_signed (ce_permission_group_index e),
       optional_unsigned (ce_record_type e), optional_unsigned (fe_flags e), single_file_extents_value (fe_extents e),
       optional_text (ce_md5 e), optional_text (ce_sha1 e), single_file_short_name_value (ce_short_name e),
       optional_signed (ce_creation_time e), optional_signed (ce_modification_time e), optional_signed (ce_access_time e),
       optional_signed (ce_entry_modification_time e), optional_signed (ce_deletion_time e), a]
       @ (if include_guid then [optional_text (ce_guid e)] else [])"
  have re: "row = join [tab] cells" using row a ok
    by (cases include_guid) (simp_all add: single_file_entry_row_def entry_cells_def cells catalog_entry_ok_def del: join.simps)
  have "\<forall>c \<in> set cells. cell_ok c"
    using ok a(2) by (auto simp: cells catalog_entry_ok_def optional_text_cell_ok hex_value_plain short_name_ok_def short_name_cell_ok
        attributes_cell_ok)
  then have sp: "split_on tab row = cells" and "line_ok row" using row_read_back [of cells] by (simp_all add: cells re)
  then show "line_ok row" by simp
  have "length cells = length (single_file_entry_types include_guid)"
    by (simp add: cells single_file_entry_types_def SINGLE_FILE_ENTRY_TYPES_def)
  then have "split_typed_values (single_file_entry_types include_guid) row = cells"
    by (simp add: split_typed_values_def sp)
  moreover have "try_fold apply_entry_value catalog_entry_default (zip (single_file_entry_types include_guid) cells) = Inr e"
    using ok guid a
    by (cases e; cases include_guid)
      (simp_all add: cells single_file_entry_types_def SINGLE_FILE_ENTRY_TYPES_def cell_steps catalog_entry_ok_def)
  ultimately show "try_fold apply_entry_value catalog_entry_default
      (zip (single_file_entry_types include_guid) (split_typed_values (single_file_entry_types include_guid) row)) = Inr e" by simp
qed

text \<open>Sources.\<close>

definition drive_type_ok :: "nat option \<Rightarrow> bool" where
  "drive_type_ok v \<longleftrightarrow> (case v of None \<Rightarrow> True | Some c \<Rightarrow> scalar c \<and> c \<noteq> 9 \<and> c \<noteq> 10 \<and> c \<noteq> 13)"

definition drive_type_text :: "nat option \<Rightarrow> string" where
  "drive_type_text v = (case v of None \<Rightarrow> [] | Some c \<Rightarrow> string_of_chars [c])"

lemma drive_type_read_back:
  assumes "drive_type_ok (Some c)"
  shows "parse_single_char (drive_type_text (Some c)) l = Inr c" "drive_type_text (Some c) \<noteq> []"
    "cell_ok (drive_type_text (Some c))"
proof -
  have c: "scalar c" "c \<noteq> 9" "c \<noteq> 10" "c \<noteq> 13" using assms by (simp_all add: drive_type_ok_def)
  show "parse_single_char (drive_type_text (Some c)) l = Inr c"
    using chars_of_string_of_chars [of "[c]"] c(1) by (simp add: drive_type_text_def parse_single_char_def)
  show "drive_type_text (Some c) \<noteq> []" by (simp add: drive_type_text_def string_of_chars_def utf8_encode_def)
  have u: "utf8_string (string_of_chars [c])" using c(1) by (auto simp: utf8_string_iff intro!: exI [of _ "[c]"])
  have "char_of n \<notin> set (string_of_chars [c])" if n: "n < 128" "n \<noteq> c" for n
  proof
    assume "char_of n \<in> set (string_of_chars [c])"
    then obtain b where b: "b \<in> set (utf8_encode c)" "(char_of n :: char) = char_of b" by (auto simp: string_of_chars_def)
    have "b < 256" using utf8_encode_bytes [OF c(1) b(1)] .
    then have "b = n" using arg_cong [OF b(2), of code] n(1) by simp
    then show False using high_bytes [OF c(1) _ b(1)] b(1) n by (cases "c < 128") (auto simp: utf8_encode_def)
  qed
  then show "cell_ok (drive_type_text (Some c))" using u c
    by (simp add: cell_ok_def drive_type_text_def tab_def newline_def carriage_return_def)
qed

lemma source_default_fields [cell_steps]:
  "cs_identifier catalog_source_default = None" "cs_name catalog_source_default = None"
  "cs_evidence_number catalog_source_default = None" "cs_location catalog_source_default = None"
  "cs_device_guid catalog_source_default = None" "cs_primary_device_guid catalog_source_default = None"
  "cs_drive_type catalog_source_default = None" "cs_manufacturer catalog_source_default = None"
  "cs_model catalog_source_default = None" "cs_serial_number catalog_source_default = None"
  "cs_domain catalog_source_default = None" "cs_ip_address catalog_source_default = None"
  "cs_mac_address catalog_source_default = None" "cs_size catalog_source_default = None"
  "cs_logical_offset catalog_source_default = None" "cs_physical_offset catalog_source_default = None"
  "cs_acquisition_time catalog_source_default = None" "cs_md5 catalog_source_default = None" "cs_sha1 catalog_source_default = None"
  by (simp_all add: catalog_source_default_def)

lemma source_number_steps [cell_steps]:
  "0 \<le> sint i \<Longrightarrow> source_value e (''id'', optional_signed (Some i)) = Inr (e\<lparr>cs_identifier := Some i\<rparr>)"
  "cs_size e = None \<Longrightarrow> source_value e (''tb'', optional_unsigned u) = Inr (e\<lparr>cs_size := u\<rparr>)"
  "cs_logical_offset e = None \<Longrightarrow> source_value e (''lo'', optional_signed v) = Inr (e\<lparr>cs_logical_offset := v\<rparr>)"
  "cs_physical_offset e = None \<Longrightarrow> source_value e (''po'', optional_signed v) = Inr (e\<lparr>cs_physical_offset := v\<rparr>)"
  "cs_acquisition_time e = None \<Longrightarrow> source_value e (''aq'', optional_signed v) = Inr (e\<lparr>cs_acquisition_time := v\<rparr>)"
  by (simp add: source_value_def optional_signed_def store_def,
      (cases u; cases e; simp add: source_value_def optional_unsigned_def store_def),
      (cases v; cases e; simp add: source_value_def optional_signed_def store_def)+)

lemma source_text_steps [cell_steps]:
  "cs_name e = None \<Longrightarrow> plain_text v \<Longrightarrow> source_value e (''n'', optional_text v) = Inr (e\<lparr>cs_name := v\<rparr>)"
  "cs_evidence_number e = None \<Longrightarrow> plain_text v \<Longrightarrow> source_value e (''ev'', optional_text v) = Inr (e\<lparr>cs_evidence_number := v\<rparr>)"
  "cs_location e = None \<Longrightarrow> plain_text v \<Longrightarrow> source_value e (''loc'', optional_text v) = Inr (e\<lparr>cs_location := v\<rparr>)"
  "cs_manufacturer e = None \<Longrightarrow> plain_text v \<Longrightarrow> source_value e (''mfr'', optional_text v) = Inr (e\<lparr>cs_manufacturer := v\<rparr>)"
  "cs_model e = None \<Longrightarrow> plain_text v \<Longrightarrow> source_value e (''mo'', optional_text v) = Inr (e\<lparr>cs_model := v\<rparr>)"
  "cs_serial_number e = None \<Longrightarrow> plain_text v \<Longrightarrow> source_value e (''se'', optional_text v) = Inr (e\<lparr>cs_serial_number := v\<rparr>)"
  "cs_domain e = None \<Longrightarrow> plain_text v \<Longrightarrow> source_value e (''do'', optional_text v) = Inr (e\<lparr>cs_domain := v\<rparr>)"
  "cs_ip_address e = None \<Longrightarrow> plain_text v \<Longrightarrow> source_value e (''ip'', optional_text v) = Inr (e\<lparr>cs_ip_address := v\<rparr>)"
  by (cases v; cases e; simp add: optional_text_def [of None] source_value_def; simp add: source_value_def optional_text_Some)+

lemma source_hex_steps [cell_steps]:
  "cs_device_guid e = None \<Longrightarrow> hex_value_ok v \<Longrightarrow> source_value e (''gu'', optional_text v) = Inr (e\<lparr>cs_device_guid := v\<rparr>)"
  "cs_primary_device_guid e = None \<Longrightarrow> hex_value_ok v \<Longrightarrow> source_value e (''pgu'', optional_text v) = Inr (e\<lparr>cs_primary_device_guid := v\<rparr>)"
  "cs_mac_address e = None \<Longrightarrow> hex_value_ok v \<Longrightarrow> source_value e (''ma'', optional_text v) = Inr (e\<lparr>cs_mac_address := v\<rparr>)"
  "cs_md5 e = None \<Longrightarrow> hex_value_ok v \<Longrightarrow> source_value e (''ah'', optional_text v) = Inr (e\<lparr>cs_md5 := v\<rparr>)"
  "cs_sha1 e = None \<Longrightarrow> hex_value_ok v \<Longrightarrow> source_value e (''sh'', optional_text v) = Inr (e\<lparr>cs_sha1 := v\<rparr>)"
  by (cases v; cases e; simp add: optional_text_def [of None] source_value_def;
      simp add: source_value_def store_def base16_read_back optional_text_Some hex_value_plain)+

lemma source_drive_step [cell_steps]:
  "cs_drive_type e = None \<Longrightarrow> drive_type_ok v \<Longrightarrow> source_value e (''dt'', drive_type_text v) = Inr (e\<lparr>cs_drive_type := v\<rparr>)"
  by (cases v; cases e) (simp_all add: drive_type_text_def [of None] source_value_def store_def drive_type_read_back)

definition source_ok :: "nat \<Rightarrow> catalog_source \<Rightarrow> bool" where
  "source_ok i source \<longleftrightarrow> i < 2 ^ 31 \<and> cs_identifier source = Some (word_of_nat i) \<and>
     list_all plain_text [cs_name source, cs_evidence_number source, cs_location source, cs_manufacturer source,
       cs_model source, cs_serial_number source, cs_domain source, cs_ip_address source] \<and>
     list_all hex_value_ok [cs_device_guid source, cs_primary_device_guid source, cs_mac_address source, cs_md5 source, cs_sha1 source] \<and>
     drive_type_ok (cs_drive_type source)"

lemma sint_of_small: "i < 2 ^ 31 \<Longrightarrow> sint (word_of_nat i :: i32) = int i"
  by (simp add: signed_of_nat signed_take_bit_int_eq_self)

lemma source_row_read_back:
  assumes ok: "source_ok i source"
  shows "parse_source_row SINGLE_FILE_SOURCE_TYPES (single_file_source_row source (Some (word_of_nat i))) = Inr source"
    and "line_ok (single_file_source_row source (Some (word_of_nat i)))"
proof -
  define cells where cells: "cells = [optional_signed (Some (word_of_nat i :: i32)), optional_text (cs_name source),
        optional_text (cs_evidence_number source), optional_text (cs_location source),
        optional_text (cs_device_guid source), optional_text (cs_primary_device_guid source),
        drive_type_text (cs_drive_type source),
        optional_text (cs_manufacturer source), optional_text (cs_model source), optional_text (cs_serial_number source),
        optional_text (cs_domain source), optional_text (cs_ip_address source), optional_text (cs_mac_address source),
        optional_unsigned (cs_size source), optional_signed (cs_logical_offset source),
        optional_signed (cs_physical_offset source), optional_signed (cs_acquisition_time source),
        optional_text (cs_md5 source), optional_text (cs_sha1 source)]"
  have row: "single_file_source_row source (Some (word_of_nat i)) = join [tab] cells"
    by (simp add: single_file_source_row_def cells drive_type_text_def del: join.simps)
  have "cell_ok (drive_type_text (cs_drive_type source))"
    using ok drive_type_read_back(3) by (cases "cs_drive_type source") (auto simp: drive_type_text_def source_ok_def)
  then have "\<forall>c \<in> set cells. cell_ok c" using ok by (simp add: cells source_ok_def optional_text_cell_ok hex_value_plain)
  then have sp: "split_on tab (join [tab] cells) = cells" and "line_ok (join [tab] cells)" using row_read_back [of cells] by (simp_all add: cells)
  then show "line_ok (single_file_source_row source (Some (word_of_nat i)))" by (simp add: row)
  have "length cells = length SINGLE_FILE_SOURCE_TYPES" by (simp add: cells SINGLE_FILE_SOURCE_TYPES_def)
  moreover have "try_fold source_value catalog_source_default (zip SINGLE_FILE_SOURCE_TYPES cells) = Inr source"
    using ok by (cases source) (simp add: cells SINGLE_FILE_SOURCE_TYPES_def cell_steps source_ok_def sint_of_small)
  ultimately show "parse_source_row SINGLE_FILE_SOURCE_TYPES (single_file_source_row source (Some (word_of_nat i))) = Inr source"
    by (simp add: parse_source_row_def split_exact_typed_values_def sp row)
qed

text \<open>Subjects and permissions.\<close>

lemma subject_row_read_back:
  assumes "plain_text (su_name subject)"
  shows "parse_subject_row SINGLE_FILE_SUBJECT_TYPES (single_file_subject_row subject) = Inr subject"
    and "line_ok (single_file_subject_row subject)"
proof -
  let ?cells = "[optional_unsigned (su_identifier subject), optional_text (su_name subject)]"
  have "\<forall>c \<in> set ?cells. cell_ok c" using assms by (simp add: optional_text_cell_ok)
  note rb = row_read_back [OF _ this, simplified]
  then show "line_ok (single_file_subject_row subject)" by (simp add: single_file_subject_row_def)
  have "subject_value catalog_subject_default (''id'', optional_unsigned v) = Inr (catalog_subject_default\<lparr>su_identifier := v\<rparr>)" for v
    by (cases v) (simp_all add: subject_value_def optional_unsigned_def store_def catalog_subject_default_def)
  moreover have "subject_value e (''n'', optional_text v) = Inr (e\<lparr>su_name := v\<rparr>)" if "su_name e = None" "plain_text v" for e v
    using that optional_text_Some by (cases v; cases e) (auto simp: subject_value_def optional_text_def [of None])
  ultimately show "parse_subject_row SINGLE_FILE_SUBJECT_TYPES (single_file_subject_row subject) = Inr subject"
    using rb assms
    by (cases subject) (simp add: parse_subject_row_def split_exact_typed_values_def single_file_subject_row_def
        SINGLE_FILE_SUBJECT_TYPES_def, simp add: catalog_subject_default_def)
qed

definition permission_ok :: "catalog_permission \<Rightarrow> bool" where
  "permission_ok permission \<longleftrightarrow> plain_text (pe_name permission) \<and> plain_text (pe_identifier permission)"

lemma permission_steps:
  "pe_name e = None \<Longrightarrow> plain_text v \<Longrightarrow> permission_value e (''n'', optional_text v) = Inr (e\<lparr>pe_name := v\<rparr>)"
  "pe_identifier e = None \<Longrightarrow> plain_text v \<Longrightarrow> permission_value e (''s'', optional_text v) = Inr (e\<lparr>pe_identifier := v\<rparr>)"
  "pe_property_type e = None \<Longrightarrow> permission_value e (''pr'', optional_unsigned u) = Inr (e\<lparr>pe_property_type := u\<rparr>)"
  "pe_access_mask e = None \<Longrightarrow> permission_value e (''nta'', optional_unsigned u) = Inr (e\<lparr>pe_access_mask := u\<rparr>)"
  "pe_ace_flags e = None \<Longrightarrow> permission_value e (''nti'', optional_unsigned u) = Inr (e\<lparr>pe_ace_flags := u\<rparr>)"
  by ((cases v; cases e; simp add: optional_text_def [of None] permission_value_def; simp add: permission_value_def optional_text_Some)+,
      (cases u; cases e; simp add: permission_value_def optional_unsigned_def store_def)+)

lemma permission_row_read_back:
  assumes "permission_ok permission"
  shows "parse_permission_row SINGLE_FILE_PERMISSION_TYPES (single_file_permission_row permission) = Inr permission"
    and "line_ok (single_file_permission_row permission)"
proof -
  define cells where cells: "cells = [optional_text (pe_name permission), optional_unsigned (pe_property_type permission),
        optional_text (pe_identifier permission), optional_unsigned (pe_access_mask permission),
        optional_unsigned (pe_ace_flags permission)]"
  have row: "single_file_permission_row permission = join [tab] cells" by (simp add: single_file_permission_row_def cells del: join.simps)
  have "\<forall>c \<in> set cells. cell_ok c" using assms by (simp add: cells permission_ok_def optional_text_cell_ok)
  then have sp: "split_on tab (join [tab] cells) = cells" and "line_ok (join [tab] cells)" using row_read_back [of cells] by (simp_all add: cells)
  then show "line_ok (single_file_permission_row permission)" by (simp add: row)
  have "length cells = length SINGLE_FILE_PERMISSION_TYPES" by (simp add: cells SINGLE_FILE_PERMISSION_TYPES_def)
  moreover have "try_fold permission_value catalog_permission_default (zip SINGLE_FILE_PERMISSION_TYPES cells) = Inr permission"
    using assms by (cases permission) (simp add: cells SINGLE_FILE_PERMISSION_TYPES_def permission_steps permission_ok_def catalog_permission_default_def)
  ultimately show "parse_permission_row SINGLE_FILE_PERMISSION_TYPES (single_file_permission_row permission) = Inr permission"
    by (simp add: parse_permission_row_def split_exact_typed_values_def sp row)
qed

section \<open>Categories\<close>

lemma list_get_append: "list_get (pre @ xs) (length pre + k) = list_get xs k"
  by (simp add: list_get_def nth_append)

lemma get_line_append: "get_line (pre @ xs) (length pre + k) l = get_line xs k l"
  by (simp add: get_line_def list_get_append)

lemma get_line_here [simp]: "get_line (x # xs) 0 l = Inr x" "get_line (x # xs) (Suc k) l = get_line xs k l"
  "list_get (x # xs) 0 = Some x" "list_get (x # xs) (Suc k) = list_get xs k"
  by (simp_all add: get_line_def list_get_def ok_or_def)

lemma get_line_at: "get_line (pre @ x # xs) (length pre) l = Inr x" "get_line (pre @ y # x # xs) (length pre + 1) l = Inr x"
  using get_line_append [of pre "x # xs" 0] get_line_append [of pre "y # x # xs" 1] by simp_all

lemma small_numbers: "dec 0 = ''0''" "dec 1 = ''1''" "dec 26 = ''26''" "dec (Suc 0) = ''1''"
  by code_simp+

lemma number_pair_read_back:
  assumes "a < 2 ^ 64" "b < 2 ^ 64"
  shows "catalog_number_pair (dec a @ [tab] @ dec b) l = Inr (word_of_nat a, b)"
proof -
  have "tab \<notin> set (dec a)" "tab \<notin> set (dec b)" using dec_cell_ok by (simp_all add: cell_ok_def)
  then have "split_on tab (dec a @ tab # dec b) = [dec a, dec b]" by (simp add: split_on_piece split_on_whole)
  then show ?thesis using assms
    by (simp add: catalog_number_pair_def catalog_u64_dec_nat unsigned_of_nat take_bit_nat_eq_self)
qed

lemma counts_read_back:
  assumes "n < 2 ^ 64"
  shows "child_entry_count (count_line ''0'' n) l = Inr n" "category_entry_count (dec n @ [tab] @ ''1'') l = Inr n"
    "file_entry_child_count (count_line ''26'' n) l = Inr n"
  using number_pair_read_back [of 0 n] number_pair_read_back [of n 1] number_pair_read_back [of 26 n] assms
  by (simp_all add: child_entry_count_def category_entry_count_def file_entry_child_count_def count_line_def small_numbers
      unsigned_of_nat take_bit_nat_eq_self)

lemma leaf_count [simp]: "child_entry_count (''0'' @ [tab] @ ''0'') l = Inr 0"
  using counts_read_back(1) [of 0 l] by (simp add: count_line_def small_numbers)

lemma leaf_rows_read_back:
  assumes "list_all2 (\<lambda>row v. p row = Inr v) rows vs" "\<And>k. k < length vs \<Longrightarrow> check (i + k) (vs ! k) = Inr ()"
  shows "parse_leaf_rows name p check (pre @ leaf_lines rows @ post) i (length rows) (length pre)
    = Inr (vs, length pre + length (leaf_lines rows))"
  using assms
proof (induction arbitrary: pre i rule: list_all2_induct)
  case Nil
  then show ?case by (simp add: leaf_lines_def)
next
  case (Cons row rows v vs)
  let ?pre = "pre @ [''0'' @ [tab] @ ''0'', row]"
  have "check (i + 1 + k) (vs ! k) = Inr ()" if "k < length vs" for k using Cons.prems [of "Suc k"] that by simp
  from Cons.IH [OF this, of ?pre]
  have IH: "parse_leaf_rows name p check (?pre @ leaf_lines rows @ post) (i + 1) (length rows) (length ?pre)
    = Inr (vs, length ?pre + length (leaf_lines rows))" .
  have c: "check i v = Inr ()" using Cons.prems [of 0] by simp
  have lns: "pre @ leaf_lines (row # rows) @ post = pre @ (''0'' @ [tab] @ ''0'') # row # leaf_lines rows @ post"
    by (simp add: leaf_lines_def)
  show ?case
    using IH c Cons.hyps(1) get_line_at [of pre]
    by (simp add: lns leaf_lines_def del: append_Cons) (simp add: leaf_count [simplified])
qed

lemma type_line_read_back: "types \<noteq> [] \<Longrightarrow> \<forall>t \<in> set types. cell_ok t \<and> t \<noteq> [] \<Longrightarrow> parse_type_line (join [tab] types) l = Inr types"
  using row_read_back(1) [of types] by (auto simp: parse_type_line_def list_ex_iff)

lemma types_ok:
  "\<forall>t \<in> set SINGLE_FILE_SOURCE_TYPES. cell_ok t \<and> t \<noteq> []" "\<forall>t \<in> set SINGLE_FILE_SUBJECT_TYPES. cell_ok t \<and> t \<noteq> []"
  "\<forall>t \<in> set SINGLE_FILE_PERMISSION_TYPES. cell_ok t \<and> t \<noteq> []" "\<forall>t \<in> set (single_file_entry_types g). cell_ok t \<and> t \<noteq> []"
  by (auto simp: SINGLE_FILE_SOURCE_TYPES_def SINGLE_FILE_SUBJECT_TYPES_def SINGLE_FILE_PERMISSION_TYPES_def
      SINGLE_FILE_ENTRY_TYPES_def single_file_entry_types_def code_def intro!: ascii_cell_ok)

lemma category_header_read_back:
  assumes "types \<noteq> []" "\<forall>t \<in> set types. cell_ok t \<and> t \<noteq> []" "n < 2 ^ 64"
  shows "parse_category_header (pre @ category_header name n types @ rest) (length pre) l = Inr (types, n, length pre + 4)"
    and "require_category_at (pre @ category_header name n types @ rest) (length pre) name label = Inr ()"
proof -
  have g: "get_line (pre @ category_header name n types @ rest) (length pre + k) l = get_line (category_header name n types @ rest) k l" for k l
    by (rule get_line_append)
  show "parse_category_header (pre @ category_header name n types @ rest) (length pre) l = Inr (types, n, length pre + 4)"
    using counts_read_back [OF assms(3)] type_line_read_back [OF assms(1,2)]
    unfolding parse_category_header_def g by (simp add: category_header_def numeral_eq_Suc)
  show "require_category_at (pre @ category_header name n types @ rest) (length pre) name label = Inr ()"
    using g [of 0] unfolding require_category_at_def by (simp add: category_header_def)
qed

lemma terminator_at: "require_empty_category_terminator (pre @ [] # rest) (length pre) l = Inr ()"
  by (simp add: require_empty_category_terminator_def get_line_at)

lemma leaf_lines_Nil [simp]: "leaf_lines [] = []"
  by (simp add: leaf_lines_def)

lemma parse_leaf_rows_at:
  assumes "list_all2 (\<lambda>row v. p row = Inr v) rows vs" "\<forall>k < length vs. check k (vs ! k) = Inr ()"
    and "lns = pre @ leaf_lines rows @ post" "cursor = length pre" "n = length rows"
  shows "parse_leaf_rows name p check lns 0 n cursor = Inr (vs, length (pre @ leaf_lines rows))"
  using leaf_rows_read_back [where p = p and check = check and rows = rows and vs = vs and i = 0 and pre = pre and post = post]
    assms by simp

lemma cell_line_ok: "cell_ok c \<Longrightarrow> line_ok c"
  by (simp add: cell_ok_def line_ok_def)

lemma line_ok_append: "line_ok a \<Longrightarrow> line_ok b \<Longrightarrow> line_ok (a @ b)"
  by (auto simp: line_ok_def)

lemma tab_line_ok: "line_ok [tab]"
proof -
  have "utf8_string [tab]" by (rule utf8_string_ascii) (simp add: tab_def)
  then show ?thesis by (simp add: line_ok_def)
qed

lemma line_ok_Nil [simp]: "line_ok []"
  by (rule cell_line_ok) simp

lemma count_lines_ok: "cell_ok a \<Longrightarrow> cell_ok b \<Longrightarrow> line_ok (a @ [tab] @ b)"
  by (intro line_ok_append tab_line_ok cell_line_ok)

lemma digit_cells_ok: "cell_ok ''0''" "cell_ok ''1''" "cell_ok ''26''" "cell_ok ''5''"
  by (rule ascii_cell_ok, simp add: code_def)+

lemma header_lines_ok:
  assumes "\<forall>t \<in> set types. cell_ok t \<and> t \<noteq> []" "types \<noteq> []" "cell_ok name"
  shows "\<forall>l \<in> set (category_header name n types). line_ok l"
proof -
  have "line_ok (join [tab] types)" using assms by (intro row_read_back(2)) auto
  moreover have "line_ok (dec n @ [tab] @ ''1'')" "line_ok (count_line ''0'' n)"
    unfolding count_line_def by (intro count_lines_ok digit_cells_ok dec_cell_ok)+
  ultimately show ?thesis using assms(3) cell_line_ok by (simp add: category_header_def)
qed

lemma leaf_lines_ok: "\<forall>r \<in> set rows. line_ok r \<Longrightarrow> \<forall>l \<in> set (leaf_lines rows). line_ok l"
proof -
  assume "\<forall>r \<in> set rows. line_ok r"
  moreover have "line_ok (''0'' @ [tab] @ ''0'')" by (intro count_lines_ok digit_cells_ok)
  ultimately show ?thesis by (auto simp: leaf_lines_def)
qed

lemma category_names_ok: "cell_ok ''srce''" "cell_ok ''sub''" "cell_ok ''perm''" "cell_ok ''rec''" "cell_ok ''tb''" "cell_ok ''entry''"
  by (rule ascii_cell_ok, simp add: code_def)+

text \<open>Source rows.\<close>

definition sources_ok :: "catalog_source list \<Rightarrow> bool" where
  "sources_ok sources \<longleftrightarrow> sources \<noteq> [] \<and> (\<forall>i < length sources. source_ok i (sources ! i))"

definition child_source_rows :: "nat \<Rightarrow> catalog_source list \<Rightarrow> string list" where
  "child_source_rows k children = map (\<lambda>(i, s). single_file_source_row s (Some (word_of_nat (i + 1)))) (enumerate k children)"

lemma source_rows_fold:
  "try_fold (\<lambda>rows (i, source). try_bind (source_child_identifier i) (\<lambda>identifier.
     Inr (rows @ [single_file_source_row source (Some identifier)]))) acc (enumerate k children) = Inr rows
    \<Longrightarrow> rows = acc @ child_source_rows k children"
proof (induction children arbitrary: k acc)
  case (Cons c children)
  then have "source_child_identifier k = Inr (word_of_nat (k + 1))"
    by (auto simp: source_child_identifier_def try_bind_Inr_iff split: if_splits)
  with Cons.prems have "try_fold (\<lambda>rows (i, source). try_bind (source_child_identifier i) (\<lambda>identifier.
     Inr (rows @ [single_file_source_row source (Some identifier)])))
     (acc @ [single_file_source_row c (Some (word_of_nat (k + 1)))]) (enumerate (Suc k) children) = Inr rows" by simp
  from Cons.IH [OF this] show ?case by (simp add: child_source_rows_def)
qed (simp add: child_source_rows_def)

lemma child_source_rows_ok:
  assumes "\<forall>i < length children. source_ok (k + i + 1) (children ! i)"
  shows "list_all2 (\<lambda>row v. parse_source_row SINGLE_FILE_SOURCE_TYPES row = Inr v) (child_source_rows k children) children"
    and "\<forall>r \<in> set (child_source_rows k children). line_ok r"
  using assms
  by (auto simp: child_source_rows_def list_all2_conv_all_nth nth_enumerate_eq in_set_conv_nth
      source_row_read_back simp del: of_nat_add of_nat_Suc)

lemma sources_category_read_back:
  assumes ok: "sources_ok sources" and ls: "single_file_source_category sources = Inr ls"
  shows "parse_sources_category (pre @ ls @ rest) (length pre) = Inr (sources, length pre + length ls)"
    and "\<forall>l \<in> set ls. line_ok l"
proof -
  obtain root children where s: "sources = root # children" using ok by (cases sources) (auto simp: sources_ok_def)
  have each: "source_ok i (sources ! i)" if "i < length sources" for i using ok that by (simp add: sources_ok_def)
  have r: "source_ok 0 root" using each [of 0] s by simp
  have kids: "\<forall>i < length children. source_ok (0 + i + 1) (children ! i)" using each [of "Suc i" for i] s by auto
  define rows where "rows = child_source_rows 0 children"
  have lenr: "length rows = length children" by (simp add: rows_def child_source_rows_def)
  have lse: "ls = category_header ''srce'' (length children) SINGLE_FILE_SOURCE_TYPES
      @ [single_file_source_row root (Some 0)] @ leaf_lines rows @ [[]]"
    using ls source_rows_fold [of "[]" 0 children] by (auto simp: single_file_source_category_def s rows_def try_bind_Inr_iff)
  have n: "length children < 2 ^ 64"
    using each [of "length children"] s by (simp add: source_ok_def)
  note h = category_header_read_back [OF _ types_ok(1) n]
  let ?h = "category_header ''srce'' (length children) SINGLE_FILE_SOURCE_TYPES"
  have lenh: "length ?h = 4" by (simp add: category_header_def)
  define p2 where "p2 = pre @ ?h"
  define p3 where "p3 = p2 @ [single_file_source_row root (Some 0)]"
  define lns where "lns = pre @ ls @ rest"
  have l: "lns = pre @ ?h @ [single_file_source_row root (Some 0)] @ leaf_lines rows @ [[]] @ rest"
    "lns = p2 @ single_file_source_row root (Some 0) # leaf_lines rows @ [[]] @ rest"
    "lns = p3 @ leaf_lines rows @ [[]] @ rest" "lns = (p3 @ leaf_lines rows) @ [] # rest"
    by (simp_all add: lns_def lse p2_def p3_def)
  have c: "length p2 = length pre + 4" "length p3 = length pre + 4 + 1" by (simp_all add: p2_def p3_def lenh)
  have check: "\<forall>k < length children. check_source_identifier k (children ! k) = Inr ()"
    using kids by (auto simp: check_source_identifier_def source_ok_def simp del: of_nat_add of_nat_Suc)
  have leaves: "parse_leaf_rows ''source'' (parse_source_row SINGLE_FILE_SOURCE_TYPES) check_source_identifier lns 0
      (length children) (length pre + 4 + 1) = Inr (children, length (p3 @ leaf_lines rows))"
  proof (rule parse_leaf_rows_at [OF _ _ l(3)])
    show "list_all2 (\<lambda>row v. parse_source_row SINGLE_FILE_SOURCE_TYPES row = Inr v) rows children"
      using child_source_rows_ok(1) [OF kids] by (simp add: rows_def)
  qed (use check c lenr in simp_all)
  have head: "parse_category_header lns (length pre) ''srce'' = Inr (SINGLE_FILE_SOURCE_TYPES, length children, length pre + 4)"
    "require_category_at lns (length pre) ''srce'' ''source category'' = Inr ()"
    unfolding l(1) by (rule h; simp add: SINGLE_FILE_SOURCE_TYPES_def)+
  have rootl: "get_line lns (length pre + 4) ''EWF2 source root'' = Inr (single_file_source_row root (Some 0))"
    using get_line_at(1) [of p2] c(1) by (simp add: l(2))
  have rootp: "parse_source_row SINGLE_FILE_SOURCE_TYPES (single_file_source_row root (Some 0)) = Inr root"
    using source_row_read_back(1) [OF r] by simp
  have "parse_sources_category lns (length pre) = Inr (sources, length (p3 @ leaf_lines rows) + 1)"
    unfolding parse_sources_category_def
    using head rootl rootp leaves terminator_at [of "p3 @ leaf_lines rows"] l(4) by (simp add: s)
  then show "parse_sources_category (pre @ ls @ rest) (length pre) = Inr (sources, length pre + length ls)"
    unfolding lns_def [symmetric] by (simp add: lse p3_def p2_def)
  have "line_ok (single_file_source_row root (Some 0))" using source_row_read_back(2) [OF r] by simp
  moreover have "\<forall>r \<in> set rows. line_ok r" using child_source_rows_ok(2) [OF kids] by (simp add: rows_def)
  ultimately show "\<forall>l \<in> set ls. line_ok l"
    using header_lines_ok [OF types_ok(1) _ category_names_ok(1)] leaf_lines_ok [of rows] unfolding lse
    by (auto simp: SINGLE_FILE_SOURCE_TYPES_def)
qed

text \<open>Subjects.\<close>

definition subjects_ok :: "catalog_subject list \<Rightarrow> bool" where
  "subjects_ok subjects \<longleftrightarrow> subjects \<noteq> [] \<and> length subjects < 2 ^ 64 \<and> list_all (\<lambda>s. plain_text (su_name s)) subjects"

lemma subjects_category_read_back:
  assumes ok: "subjects_ok subjects" and ls: "single_file_subject_category subjects = ls"
  shows "parse_subjects_category (pre @ ls @ rest) (length pre) = Inr (subjects, length pre + length ls)"
    and "\<forall>l \<in> set ls. line_ok l"
proof -
  obtain root children where s: "subjects = root # children" using ok by (cases subjects) (auto simp: subjects_ok_def)
  have r: "plain_text (su_name root)" and kids: "\<forall>s \<in> set children. plain_text (su_name s)" and n: "length children < 2 ^ 64"
    using ok s by (auto simp: subjects_ok_def list_all_iff)
  define rows where "rows = map single_file_subject_row children"
  let ?h = "category_header ''sub'' (length children) SINGLE_FILE_SUBJECT_TYPES"
  have lse: "ls = ?h @ [single_file_subject_row root] @ leaf_lines rows @ [[]]"
    using ls by (simp add: single_file_subject_category_def s rows_def)
  note h = category_header_read_back [OF _ types_ok(2) n]
  have lenh: "length ?h = 4" by (simp add: category_header_def)
  define p2 where "p2 = pre @ ?h"
  define p3 where "p3 = p2 @ [single_file_subject_row root]"
  define lns where "lns = pre @ ls @ rest"
  have l: "lns = pre @ ?h @ [single_file_subject_row root] @ leaf_lines rows @ [[]] @ rest"
    "lns = p2 @ single_file_subject_row root # leaf_lines rows @ [[]] @ rest"
    "lns = p3 @ leaf_lines rows @ [[]] @ rest" "lns = (p3 @ leaf_lines rows) @ [] # rest"
    by (simp_all add: lns_def lse p2_def p3_def)
  have c: "length p2 = length pre + 4" "length p3 = length pre + 4 + 1" by (simp_all add: p2_def p3_def lenh)
  have leaves: "parse_leaf_rows ''subject'' (parse_subject_row SINGLE_FILE_SUBJECT_TYPES) (\<lambda>_ _. Inr ()) lns 0
      (length children) (length pre + 4 + 1) = Inr (children, length (p3 @ leaf_lines rows))"
    by (rule parse_leaf_rows_at [OF _ _ l(3)])
      (use kids c in \<open>simp_all add: rows_def list_all2_conv_all_nth subject_row_read_back(1)\<close>)
  have head: "parse_category_header lns (length pre) ''sub'' = Inr (SINGLE_FILE_SUBJECT_TYPES, length children, length pre + 4)"
    "require_category_at lns (length pre) ''sub'' ''subject category'' = Inr ()"
    unfolding l(1) by (rule h; simp add: SINGLE_FILE_SUBJECT_TYPES_def)+
  have rootl: "get_line lns (length pre + 4) ''EWF2 subject root'' = Inr (single_file_subject_row root)"
    using get_line_at(1) [of p2] c(1) by (simp add: l(2))
  have "parse_subjects_category lns (length pre) = Inr (subjects, length (p3 @ leaf_lines rows) + 1)"
    unfolding parse_subjects_category_def
    using head rootl subject_row_read_back(1) [OF r] leaves terminator_at [of "p3 @ leaf_lines rows"] l(4) by (simp add: s)
  then show "parse_subjects_category (pre @ ls @ rest) (length pre) = Inr (subjects, length pre + length ls)"
    unfolding lns_def [symmetric] by (simp add: lse p3_def p2_def)
  have "\<forall>r \<in> set rows. line_ok r" using subject_row_read_back(2) kids by (simp add: rows_def)
  then show "\<forall>l \<in> set ls. line_ok l"
    using header_lines_ok [OF types_ok(2) _ category_names_ok(2)] leaf_lines_ok [of rows] subject_row_read_back(2) [OF r]
    unfolding lse by (auto simp: SINGLE_FILE_SUBJECT_TYPES_def)
qed

text \<open>Permission groups.\<close>

definition permission_group_ok :: "catalog_permission_group \<Rightarrow> bool" where
  "permission_group_ok g \<longleftrightarrow> pe_property_type g = Some 10 \<and> plain_text (pe_name g) \<and> plain_text (pe_identifier g) \<and>
     list_all permission_ok (pg_permissions g) \<and> length (pg_permissions g) < 2 ^ 64"

lemma group_row_read_back:
  assumes "permission_group_ok g"
  shows "single_file_permission_group_row g = single_file_permission_row (catalog_permission.truncate g)"
    and "permission_ok (catalog_permission.truncate g)" "pe_property_type (catalog_permission.truncate g) = Some 10"
    and "(permission_group_from_permission (catalog_permission.truncate g))\<lparr>pg_permissions := pg_permissions g\<rparr> = g"
  using assms
  by (cases g; simp add: permission_group_ok_def single_file_permission_group_row_def single_file_permission_row_def
      catalog_permission.truncate_def permission_ok_def permission_group_from_permission_def catalog_permission.extend_def
      catalog_permission_group.fields_def)+

lemma permission_groups_read_back:
  assumes "list_all permission_group_ok groups"
  shows "parse_permission_groups (pre @ concat (map permission_group_lines groups) @ rest) SINGLE_FILE_PERMISSION_TYPES
      (length groups) (length pre) = Inr (groups, length (pre @ concat (map permission_group_lines groups))) \<and>
    (\<forall>l \<in> set (concat (map permission_group_lines groups)). line_ok l)"
  using assms
proof (induction groups arbitrary: pre)
  case (Cons g groups)
  have g: "permission_group_ok g" using Cons.prems by simp
  note row = group_row_read_back [OF g]
  have n: "length (pg_permissions g) < 2 ^ 64" "list_all permission_ok (pg_permissions g)" using g by (simp_all add: permission_group_ok_def)
  let ?rows = "map single_file_permission_row (pg_permissions g)" and ?row = "single_file_permission_group_row g"
  let ?c = "count_line ''0'' (length (pg_permissions g))"
  define tail where "tail = concat (map permission_group_lines groups) @ rest"
  define lns where "lns = pre @ concat (map permission_group_lines (g # groups)) @ rest"
  define p2 where "p2 = pre @ [?c, ?row]"
  define p3 where "p3 = p2 @ leaf_lines ?rows"
  have l: "lns = pre @ ?c # ?row # leaf_lines ?rows @ tail" "lns = p2 @ leaf_lines ?rows @ tail" "lns = p3 @ tail"
    by (simp_all add: lns_def permission_group_lines_def p2_def p3_def tail_def)
  have leaves: "parse_leaf_rows ''permission'' (parse_permission_row SINGLE_FILE_PERMISSION_TYPES) (\<lambda>_ _. Inr ()) lns 0
      (length (pg_permissions g)) (length pre + 2) = Inr (pg_permissions g, length p3)"
    unfolding p3_def by (rule parse_leaf_rows_at [OF _ _ l(2)])
      (use n(2) in \<open>simp_all add: p2_def list_all2_conv_all_nth list_all_length permission_row_read_back(1)\<close>)
  have IH: "parse_permission_groups lns SINGLE_FILE_PERMISSION_TYPES (length groups) (length p3)
      = Inr (groups, length (p3 @ concat (map permission_group_lines groups)))"
    using Cons.IH [of p3] Cons.prems unfolding l(3) tail_def by simp
  have lines: "get_line lns (length pre) m = Inr ?c" "get_line lns (length pre + 1) m = Inr ?row" for m
    unfolding l(1) by (rule get_line_at)+
  have "parse_permission_groups lns SINGLE_FILE_PERMISSION_TYPES (length (g # groups)) (length pre)
      = Inr (g # groups, length (p3 @ concat (map permission_group_lines groups)))"
    using lines leaves IH counts_read_back(1) [OF n(1)] permission_row_read_back(1) [OF row(2)] row
    by (simp add: require_permission_group_type_def)
  then have main: "parse_permission_groups (pre @ concat (map permission_group_lines (g # groups)) @ rest) SINGLE_FILE_PERMISSION_TYPES
      (length (g # groups)) (length pre) = Inr (g # groups, length (pre @ concat (map permission_group_lines (g # groups))))"
    unfolding lns_def [symmetric] by (simp add: p3_def p2_def permission_group_lines_def)
  have own: "line_ok ?c" "line_ok ?row"
    using count_lines_ok [OF digit_cells_ok(1) dec_cell_ok] permission_row_read_back(2) [OF row(2)]
    by (simp_all add: count_line_def row(1))
  have "\<forall>r \<in> set ?rows. line_ok r" using n(2) permission_row_read_back(2) by (auto simp: list_all_iff)
  then have leaf: "\<forall>l \<in> set (leaf_lines ?rows). line_ok l" by (rule leaf_lines_ok)
  have rest: "\<forall>l \<in> set (concat (map permission_group_lines groups)). line_ok l" using Cons.IH Cons.prems by simp
  have all: "set (concat (map permission_group_lines (g # groups)))
      = {?c, ?row} \<union> set (leaf_lines ?rows) \<union> set (concat (map permission_group_lines groups))"
    by (simp add: permission_group_lines_def)
  have "\<forall>l \<in> set (concat (map permission_group_lines (g # groups))). line_ok l"
    unfolding all ball_Un using own leaf rest by simp
  with main show ?case by blast
qed simp_all

lemma permission_category_read_back:
  assumes ok: "list_all permission_group_ok groups" "length groups < 2 ^ 64" and ls: "single_file_permission_category groups = ls"
  shows "parse_permission_groups_category (pre @ ls @ rest) (length pre) = Inr (groups, length pre + length ls)"
    and "\<forall>l \<in> set ls. line_ok l"
proof -
  let ?h = "category_header ''perm'' (length groups) SINGLE_FILE_PERMISSION_TYPES"
  let ?gs = "concat (map permission_group_lines groups)" and ?root = single_file_permission_root_row
  let ?perm = "catalog_permission_default\<lparr>pe_property_type := Some 10\<rparr>"
  have lse: "ls = ?h @ [?root] @ ?gs @ [[]]" using ls by (simp add: single_file_permission_category_def)
  have lenh: "length ?h = 4" by (simp add: category_header_def)
  have perm: "permission_ok ?perm" by (simp add: permission_ok_def catalog_permission_default_def)
  have root: "parse_permission_row SINGLE_FILE_PERMISSION_TYPES ?root = Inr ?perm" "line_ok ?root"
    using permission_row_read_back [OF perm] by (simp_all add: single_file_permission_root_row_def)
  define p2 where "p2 = pre @ ?h"
  define p3 where "p3 = p2 @ [?root]"
  define lns where "lns = pre @ ls @ rest"
  have l: "lns = pre @ ?h @ [?root] @ ?gs @ [[]] @ rest" "lns = p2 @ ?root # ?gs @ [[]] @ rest"
    "lns = p3 @ ?gs @ [[]] @ rest" "lns = (p3 @ ?gs) @ [] # rest"
    by (simp_all add: lns_def lse p2_def p3_def)
  have c: "length p2 = length pre + 4" "length p3 = length pre + 4 + 1" by (simp_all add: p2_def p3_def lenh)
  have groups: "parse_permission_groups lns SINGLE_FILE_PERMISSION_TYPES (length groups) (length pre + 4 + 1)
      = Inr (groups, length (p3 @ ?gs))"
    using permission_groups_read_back [OF ok(1), THEN conjunct1, of p3] unfolding l(3) c(2) [symmetric] .
  note h = category_header_read_back [OF _ types_ok(3) ok(2)]
  have head: "parse_category_header lns (length pre) ''perm'' = Inr (SINGLE_FILE_PERMISSION_TYPES, length groups, length pre + 4)"
    "require_category_at lns (length pre) ''perm'' ''permission category'' = Inr ()"
    unfolding l(1) by (rule h; simp add: SINGLE_FILE_PERMISSION_TYPES_def)+
  have rootl: "get_line lns (length pre + 4) ''EWF2 permission category root'' = Inr ?root"
    using get_line_at(1) [of p2] c(1) by (simp add: l(2))
  have stop: "require_empty_category_terminator lns (length (p3 @ ?gs)) m = Inr ()" for m
    unfolding l(4) by (rule terminator_at)
  have "parse_permission_groups_category lns (length pre) = Inr (groups, length (p3 @ ?gs) + 1)"
    unfolding parse_permission_groups_category_def
    using head rootl root(1) groups stop by (simp add: require_permission_group_type_def)
  then show "parse_permission_groups_category (pre @ ls @ rest) (length pre) = Inr (groups, length pre + length ls)"
    unfolding lns_def [symmetric] by (simp add: lse p3_def p2_def)
  have "line_ok l" if "l \<in> set ?gs" for l
    using permission_groups_read_back [OF ok(1), THEN conjunct2] that by blast
  then show "\<forall>l \<in> set ls. line_ok l"
    using header_lines_ok [OF types_ok(3) _ category_names_ok(3)] root(2)
    unfolding lse by (auto simp: SINGLE_FILE_PERMISSION_TYPES_def)
qed

section \<open>The tree of entries\<close>

fun tree_ok :: "(i32 \<times> i32) list \<Rightarrow> catalog_node \<Rightarrow> bool" where
  "tree_ok ids (CatalogNode e children) =
     (catalog_entry_ok ids e \<and> length children < 2 ^ 64 \<and> list_all (tree_ok ids) children)"

lemma parse_entry_row_at:
  assumes row: "single_file_entry_row ids g e = Inr row" "catalog_entry_ok ids e" "\<not> g \<longrightarrow> ce_guid e = None" and n: "n < 2 ^ 64"
  shows "parse_entry_row (pre @ count_line ''26'' n # row # rest) (single_file_entry_types g) (length pre) [] = Inr (n, e, [])"
proof -
  have l: "list_get (pre @ a # b # rest) (length pre) = Some a" "list_get (pre @ a # b # rest) (length pre + 1) = Some b"
    for a b :: string
    using list_get_append [of pre "a # b # rest" 0] list_get_append [of pre "a # b # rest" 1] by simp_all
  show ?thesis
    unfolding parse_entry_row_def l using entry_row_read_back(1) [OF row] counts_read_back(3) [OF n]
    by (simp add: ok_or_def)
qed

lemma nodes_read_back:
  assumes "nodes_lines ids g nodes = Inr ls" "list_all (tree_ok ids) nodes" "\<not> g \<longrightarrow> \<not> list_ex has_guid nodes"
    and "length ls \<le> depth"
  shows "parse_entries (pre @ ls @ post) (single_file_entry_types g) depth (length nodes) (length pre) []
    = Inr (nodes, length pre + length ls, []) \<and> (\<forall>l \<in> set ls. line_ok l)"
  using assms
proof (induction "length ls" arbitrary: nodes ls depth pre post rule: less_induct)
  case less
  show ?case
  proof (cases nodes)
    case Nil
    then show ?thesis using less.prems(1) by simp
  next
    case (Cons node rest)
    obtain e children where node: "node = CatalogNode e children" by (cases node)
    obtain row cl rl where ls: "single_file_entry_row ids g e = Inr row" "nodes_lines ids g children = Inr cl"
      "nodes_lines ids g rest = Inr rl" "ls = (count_line ''26'' (length children) # row # cl) @ rl"
      using less.prems(1) by (auto simp: Cons node try_bind_Inr_iff)
    have ok: "catalog_entry_ok ids e" "length children < 2 ^ 64" "list_all (tree_ok ids) children" "list_all (tree_ok ids) rest"
      "\<not> g \<longrightarrow> ce_guid e = None" "\<not> g \<longrightarrow> \<not> list_ex has_guid children" "\<not> g \<longrightarrow> \<not> list_ex has_guid rest"
      using less.prems(2,3) by (simp_all add: Cons node)
    obtain d where d: "depth = Suc d" "length cl \<le> d" "length rl \<le> depth" using less.prems(4) by (cases depth) (simp_all add: ls(4))
    define lns where "lns = pre @ ls @ post"
    define p2 where "p2 = pre @ [count_line ''26'' (length children), row]"
    define p3 where "p3 = p2 @ cl"
    have l: "lns = pre @ count_line ''26'' (length children) # row # cl @ rl @ post" "lns = p2 @ cl @ rl @ post" "lns = p3 @ rl @ post"
      by (simp_all add: lns_def ls(4) p2_def p3_def)
    have c: "length p2 = length pre + 2" "length p3 = length p2 + length cl" "length pre + length ls = length p3 + length rl"
      by (simp_all add: p2_def p3_def ls(4))
    have row: "parse_entry_row lns (single_file_entry_types g) (length pre) [] = Inr (length children, e, [])"
      unfolding l(1) by (rule parse_entry_row_at [OF ls(1) ok(1,5,2)])
    have kids: "parse_entries lns (single_file_entry_types g) d (length children) (length pre + 2) [] = Inr (children, length p3, [])"
      "\<forall>l \<in> set cl. line_ok l"
      using less.hyps [OF _ ls(2) ok(3,6) d(2), of p2 "rl @ post"] unfolding l(2) [symmetric] by (simp_all add: c ls(4))
    have tail: "parse_entries lns (single_file_entry_types g) depth (length rest) (length p3) [] = Inr (rest, length p3 + length rl, [])"
      "\<forall>l \<in> set rl. line_ok l"
      using less.hyps [OF _ ls(3) ok(4,7) d(3), of p3 post] unfolding l(3) [symmetric] by (simp_all add: ls(4))
    have "parse_entries lns (single_file_entry_types g) depth (length nodes) (length pre) [] = Inr (nodes, length pre + length ls, [])"
      using row kids(1) tail(1) by (simp add: Cons node d(1) c(3))
    moreover have "line_ok (count_line ''26'' (length children))" "line_ok row"
      using count_lines_ok [OF digit_cells_ok(3) dec_cell_ok] entry_row_read_back(2) [OF ls(1) ok(1,5)] by (simp_all add: count_line_def)
    ultimately show ?thesis using kids(2) tail(2) unfolding lns_def by (auto simp: ls(4))
  qed
qed

section \<open>The catalog\<close>

definition catalog_ok :: "catalog \<Rightarrow> bool" where
  "catalog_ok cat \<longleftrightarrow> sources_ok (ca_sources cat) \<and> subjects_ok (ca_subjects cat) \<and>
     list_all permission_group_ok (ca_permission_groups cat) \<and> length (ca_permission_groups cat) < 2 ^ 64 \<and>
     (case single_file_source_ids (ca_sources cat) of Inl _ \<Rightarrow> False | Inr ids \<Rightarrow> tree_ok ids (ca_root cat))"

lemma record_category_read_back:
  "parse_record_category (pre @ [''rec'', ''tb'', dec (unat n), []] @ rest) (length pre) = Inr (Some n, length pre + 4)" for n :: u64
proof -
  have g: "get_line (pre @ xs) (length pre + k) l = get_line xs k l" for xs k l by (rule get_line_append)
  have g0: "get_line (pre @ xs) (length pre) l = get_line xs 0 l" for xs l using g [of xs 0] by simp
  have tb: "tab \<notin> set ''tb''" "tab \<notin> set (dec (unat n))"
    using category_names_ok(5) dec_cell_ok [of "unat n"] unfolding cell_ok_def by blast+
  have "split_on tab ''tb'' = [''tb'']" "split_on tab (dec (unat n)) = [dec (unat n)]" by (rule split_on_whole, rule tb)+
  then show ?thesis
    unfolding parse_record_category_def require_category_at_def require_empty_category_terminator_def g g0
    by (simp add: numeral_eq_Suc parse_type_line_def record_data_size_def)
qed

lemma entry_category_read_back:
  assumes ok: "tree_ok ids root" and ls: "single_file_entry_category ids root = Inr ls"
  obtains el where "ls = [''entry'', ''0'' @ [tab] @ ''1'', join [tab] (single_file_entry_types (has_guid root))] @ el @ [[]]"
    and "\<And>pre rest. parse_entry (pre @ el @ rest) (single_file_entry_types (has_guid root)) (length pre) []
      = Inr (root, length pre + length el, [])" and "\<forall>l \<in> set ls. line_ok l"
proof -
  let ?g = "has_guid root"
  obtain el where el: "node_lines ids ?g root = Inr el"
    "ls = [''entry'', ''0'' @ [tab] @ ''1'', join [tab] (single_file_entry_types ?g)] @ el @ [[]]"
    using ls by (auto simp: single_file_entry_category_def Let_def try_bind_Inr_iff)
  have nodes: "nodes_lines ids ?g [root] = Inr el" using el(1) by simp
  have one: "parse_entry (pre @ el @ rest) (single_file_entry_types ?g) (length pre) [] = Inr (root, length pre + length el, [])" for pre rest
    using nodes_read_back [OF nodes, of "length (pre @ el @ rest) + 1" pre rest] ok
    by (simp add: parse_entry_def del: parse_entries.simps)
  have "\<forall>l \<in> set el. line_ok l" using nodes_read_back [OF nodes, of "length el"] ok by simp
  moreover have "line_ok (''0'' @ [tab] @ ''1'')" by (rule count_lines_ok [OF digit_cells_ok(1,2)])
  moreover have "line_ok (join [tab] (single_file_entry_types ?g))"
    using types_ok(4) by (intro row_read_back(2)) (auto simp: single_file_entry_types_def SINGLE_FILE_ENTRY_TYPES_def)
  ultimately have "\<forall>l \<in> set ls. line_ok l" using cell_line_ok [OF category_names_ok(6)] by (auto simp: el(2))
  from that [OF el(2) one this] show thesis .
qed

lemma catalog_lines_read_back:
  assumes ok: "catalog_ok cat" and lines: "catalog_lines cat = Inr lns" and size: "single_files_record_data_size cat = Inr n"
  shows "parse_catalog_lines lns [] k b = Inr (cat\<lparr>ca_data_size := n\<rparr>)" and "\<forall>l \<in> set lns. line_ok l" and "lns \<noteq> []"
proof -
  obtain ids where ids: "single_file_source_ids (ca_sources cat) = Inr ids" "tree_ok ids (ca_root cat)"
    using ok by (auto simp: catalog_ok_def split: sum.splits)
  obtain sl el where sl: "single_file_source_category (ca_sources cat) = Inr sl"
    and el: "single_file_entry_category ids (ca_root cat) = Inr el"
    and lns0: "lns = [''5''] @ [''rec'', ''tb'', dec (unat n), []] @ single_file_permission_category (ca_permission_groups cat) @ sl
      @ single_file_subject_category (ca_subjects cat) @ el @ [[]]"
  proof -
    have rec: "single_file_record_category cat = Inr [''rec'', ''tb'', dec (unat n), []]"
      by (simp add: single_file_record_category_def size)
    obtain sl where sl: "single_file_source_category (ca_sources cat) = Inr sl"
      using lines unfolding catalog_lines_def ids(1) rec by (cases "single_file_source_category (ca_sources cat)") simp_all
    obtain el where el: "single_file_entry_category ids (ca_root cat) = Inr el"
      using lines unfolding catalog_lines_def ids(1) rec sl by (cases "single_file_entry_category ids (ca_root cat)") simp_all
    show thesis
      using lines unfolding catalog_lines_def ids(1) rec sl el by (intro that [OF sl el]) (simp add: el)
  qed
  define pl where "pl = single_file_permission_category (ca_permission_groups cat)"
  define ul where "ul = single_file_subject_category (ca_subjects cat)"
  note parts = ok [unfolded catalog_ok_def]
  obtain tree where tree: "el = [''entry'', ''0'' @ [tab] @ ''1'', join [tab] (single_file_entry_types (has_guid (ca_root cat)))] @ tree @ [[]]"
    and tree_parses: "\<And>pre rest. parse_entry (pre @ tree @ rest) (single_file_entry_types (has_guid (ca_root cat))) (length pre) []
      = Inr (ca_root cat, length pre + length tree, [])" and el_ok: "\<forall>l \<in> set el. line_ok l"
    using entry_category_read_back [OF ids(2) el] by metis
  let ?types = "single_file_entry_types (has_guid (ca_root cat))"
  define p1 where "p1 = [''5'', ''rec'', ''tb'', dec (unat n), []]"
  define p2 where "p2 = p1 @ pl"
  define p3 where "p3 = p2 @ sl"
  define p4 where "p4 = p3 @ ul"
  define p5 where "p5 = p4 @ [''entry'', ''0'' @ [tab] @ ''1'', join [tab] ?types]"
  have l: "lns = [''5''] @ [''rec'', ''tb'', dec (unat n), []] @ pl @ sl @ ul @ el @ [[]]" "lns = p1 @ pl @ sl @ ul @ el @ [[]]"
    "lns = p2 @ sl @ ul @ el @ [[]]" "lns = p3 @ ul @ el @ [[]]" "lns = p4 @ el @ [[]]" "lns = p5 @ tree @ [[], []]"
    "lns = (p5 @ tree) @ [] # [[]]"
    by (simp_all add: lns0 pl_def ul_def p1_def p2_def p3_def p4_def p5_def tree)
  have rec: "parse_record_category lns 1 = Inr (Some n, length p1)"
    using record_category_read_back [of "[''5'']"] unfolding l(1) by (simp add: p1_def)
  have perm: "parse_permission_groups_category lns (length p1) = Inr (ca_permission_groups cat, length p2)"
    using permission_category_read_back(1) [OF _ _ pl_def [symmetric]] parts unfolding l(2) by (simp add: p2_def)
  have src: "parse_sources_category lns (length p2) = Inr (ca_sources cat, length p3)"
    using sources_category_read_back(1) [OF _ sl] parts unfolding l(3) by (simp add: p3_def)
  have sub: "parse_subjects_category lns (length p3) = Inr (ca_subjects cat, length p4)"
    using subjects_category_read_back(1) [OF _ ul_def [symmetric]] parts unfolding l(4) by (simp add: p4_def)
  have at4: "get_line lns (length p4) m = Inr ''entry''" for m
    unfolding l(5) tree append_Cons append_Nil by (rule get_line_at)
  have nth: "lns ! (length p4 + 1) = ''0'' @ [tab] @ ''1''" "lns ! (length p4 + 2) = join [tab] ?types" "length p4 + 2 < length lns"
    unfolding l(5) tree by (simp_all add: nth_append)
  have p5: "length p5 = length p4 + 3" by (simp add: p5_def)
  have root: "parse_entry lns ?types (length p4 + 3) [] = Inr (ca_root cat, length (p5 @ tree), [])"
    using tree_parses [of p5 "[[], []]"] unfolding l(6) p5 [symmetric] by simp
  have count: "category_entry_count (''0'' @ [tab] @ ''1'') m = Inr 0" for m using counts_read_back(2) [of 0 m] by (simp add: small_numbers)
  have types: "parse_type_line (join [tab] ?types) m = Inr ?types" for m
    using types_ok(4) by (intro type_line_read_back) (auto simp: single_file_entry_types_def SINGLE_FILE_ENTRY_TYPES_def)
  have stop: "require_empty_category_terminator lns (length (p5 @ tree)) m = Inr ()" for m
    unfolding l(7) by (rule terminator_at)
  have five: "list_get lns 0 = Some ''5''" by (simp add: l(1))
  show "parse_catalog_lines lns [] k b = Inr (cat\<lparr>ca_data_size := n\<rparr>)"
    unfolding parse_catalog_lines_def require_category_at_def
    using five rec perm src sub at4 nth root count types stop by simp
  have "\<forall>l \<in> set pl. line_ok l" "\<forall>l \<in> set sl. line_ok l" "\<forall>l \<in> set ul. line_ok l"
    using permission_category_read_back(2) [OF _ _ pl_def [symmetric]] sources_category_read_back(2) [OF _ sl]
      subjects_category_read_back(2) [OF _ ul_def [symmetric]] parts by blast+
  moreover have "line_ok ''5''" "line_ok ''rec''" "line_ok ''tb''" "line_ok (dec (unat n))"
    by (intro cell_line_ok digit_cells_ok category_names_ok dec_cell_ok)+
  ultimately show "\<forall>l \<in> set lns. line_ok l" using el_ok unfolding l(1) by auto
  show "lns \<noteq> []" by (simp add: l(1))
qed

lemma catalog_read_back:
  assumes ok: "catalog_ok cat" and p: "ewf2_single_files_data_payload cat = Inr p" and size: "single_files_record_data_size cat = Inr n"
  shows "parse_single_files_data p b = Inr (cat\<lparr>ca_data_size := n\<rparr>)"
proof -
  obtain lns where lns: "catalog_lines cat = Inr lns" "p = utf16le_with_bom (join [newline] lns)"
    using p by (auto simp: ewf2_single_files_data_payload_def try_bind_Inr_iff)
  note rb = catalog_lines_read_back [OF ok lns(1) size]
  show ?thesis using lines_read_back [OF rb(3,2)] rb(1) by (simp add: parse_single_files_data_def lns(2))
qed

lemma ltree_read_back:
  assumes ok: "catalog_ok cat" and p: "ewf1_ltree_payload md5 cat = Inr p" and size: "single_files_record_data_size cat = Inr n"
    and md5: "\<And>t. length (md5 t) = 16" and fits: "length p < 2 ^ 64"
  shows "parse_ewf1_ltree_data md5 p = Inr (cat\<lparr>ca_data_size := n\<rparr>)"
proof -
  obtain d where d: "ewf2_single_files_data_payload cat = Inr d"
    and pe: "p = splice (md5 d @ le64 (word_of_nat (length d)) @ le32 0 @ replicate 20 0) 24
      (le32 (writer_adler32 (md5 d @ le64 (word_of_nat (length d)) @ le32 0 @ replicate 20 0))) @ d"
    using p by (auto simp: ewf1_ltree_payload_def try_bind_Inr_iff Let_def)
  define h where "h = md5 d @ le64 (word_of_nat (length d)) @ le32 0 @ replicate 20 0"
  have zero: "le32 0 = replicate 4 0" by code_simp
  have h: "length h = 48" "splice h 24 (replicate 4 0) = h"
    unfolding h_def zero by (simp_all add: md5 splice_def)
  let ?s = "splice h 24 (le32 (adler32 h))"
  have pe: "p = ?s @ d" using pe by (simp add: h_def)
  have s: "length ?s = 48" using h(1) by (simp add: splice_def)
  have len: "length d < 2 ^ 64" using fits by (simp add: pe s)
  have parts: "u64_at p 16 = word_of_nat (length d)" "u32_at p 24 = adler32 h" "take 16 p = md5 d" "take 48 p = ?s"
    "slice p 48 (48 + length d) = d" "splice ?s 24 (replicate 4 0) = h"
    using h by (simp_all add: pe s slice_def splice_def) (simp_all add: h_def md5)
  have n: "unat (word_of_nat (length d) :: u64) = length d" using len by (simp add: unsigned_of_nat take_bit_nat_eq_self)
  have "parse_ewf1_single_files_data d = Inr (cat\<lparr>ca_data_size := n\<rparr>)"
    unfolding parse_ewf1_single_files_data_def by (rule catalog_read_back [OF ok d size])
  moreover have "length p = 48 + length d" by (simp add: pe s)
  moreover have "validate_adler32_checksum_value (adler32 h) h l = Inr ()" for l
    by (simp add: validate_adler32_checksum_value_def)
  ultimately show ?thesis
    by (simp add: parse_ewf1_ltree_data_def parts parts [simplified] n Let_def)
qed

text \<open>A text takes at most four bytes of UTF-16 per byte.\<close>

lemma utf16le_length: "length (utf16le s) \<le> 4 * length s"
proof -
  have "length (decode_chars bs) \<le> length bs" for bs
  proof (induction bs rule: length_induct)
    case (1 bs)
    then have less: "length s < length bs \<Longrightarrow> length (decode_chars s) \<le> length s" for s by blast
    show ?case
    proof (cases bs)
      case (Cons a s)
      show ?thesis
        unfolding Cons decode_chars.simps(2) [of a s] using Cons less [of s] less [of "tl s"] less [of "tl (tl s)"] less [of "tl (tl (tl s))"]
        by (cases s; cases "tl s"; cases "tl (tl s)") (simp_all del: decode_chars.simps(2))
    qed simp
  qed
  then have chars: "length (chars_of s) \<le> length s" by (metis chars_of_def length_map)
  have "length (concat (map (\<lambda>c. map word_of_nat (utf16_units c) :: u16 list) cs)) \<le> 2 * length cs" for cs
    by (induction cs) (auto simp: utf16_units_def)
  then have "length (encode_utf16 s) \<le> 2 * length (chars_of s)" by (simp add: encode_utf16_def)
  moreover have "length (utf16le_bytes us) = 2 * length us" for us
    by (induction us) (simp_all add: utf16le_bytes_def)
  ultimately show ?thesis using chars by (simp add: utf16le_def)
qed

end
