(* ===== verification/Single_Flight.thy ===== *)
theory Single_Flight
  imports Image_Reader
begin

text \<open>
  Many threads reading chunks of one image (\<open>Image::read_chunk\<close> in \<open>src/image.rs\<close>).
  A thread that misses the cache claims a flight for its chunk, decodes, stores the chunk,
  completes the flight and removes it; other threads that want the chunk wait for the
  flight on its condition variable and look into the cache again. Every critical section is
  one step, a schedule picks the thread of each step, and a waiting thread may also wake up
  by itself. The lemmas: a chunk is decoded by one thread at a time, every thread that
  returns has the result of the sequential reader, and under a fair schedule all return.
\<close>

section \<open>Threads\<close>

text \<open>Where a thread is in \<open>read_chunk\<close>; a flight is the number of its \<open>Arc\<close>.\<close>

datatype reader_pc =
    Entering
  | Checking
  | Claiming
  | Awaiting nat
  | Asleep nat
  | Decoding nat
  | Storing nat bytes
  | Completing nat "bytes result"
  | Releasing nat "bytes result"
  | Returned "bytes result"

text \<open>What the threads share: the state of the image, the map of flights and, for every
  flight, whether it is complete.\<close>

record ('p, 'c) shared =
  sh_state :: "('p, 'c) image_state"
  sh_in_flight :: "(u64 \<times> nat) list"
  sh_complete :: "bool list"

type_synonym ('p, 'c) readers = "(u64 \<times> reader_pc) list \<times> ('p, 'c) shared"

fun reader_step ::
    "('p, 'c) env \<Rightarrow> image \<Rightarrow> u64 \<Rightarrow> reader_pc \<Rightarrow> ('p, 'c) shared \<Rightarrow> (reader_pc \<times> ('p, 'c) shared) option" where
  "reader_step E img i Entering sh =
     (case fst (ensure_not_aborted (sh_state sh)) of
        Inl e \<Rightarrow> Some (Returned (Inl e), sh) | Inr _ \<Rightarrow> Some (Checking, sh))"
| "reader_step E img i Checking sh =
     (let (cached, cc) = lru_get (en_chunk_lru E) i (is_chunk_cache (sh_state sh));
          sh = sh\<lparr>sh_state := (sh_state sh)\<lparr>is_chunk_cache := cc\<rparr>\<rparr> in
      case cached of Some decoded \<Rightarrow> Some (Returned (Inr decoded), sh) | None \<Rightarrow> Some (Claiming, sh))"
| "reader_step E img i Claiming sh =
     (case map_of (sh_in_flight sh) i of
        Some f \<Rightarrow> Some (Awaiting f, sh)
      | None \<Rightarrow> let f = length (sh_complete sh) in
          Some (Decoding f, sh\<lparr>sh_in_flight := (i, f) # sh_in_flight sh, sh_complete := sh_complete sh @ [False]\<rparr>))"
| "reader_step E img i (Awaiting f) sh = Some (if sh_complete sh ! f then Checking else Asleep f, sh)"
| "reader_step E img i (Asleep f) sh = None"
| "reader_step E img i (Decoding f) sh =
     (case sbind (image_lookup_chunk E img i) (decode_chunk_with_policy E img i) (sh_state sh) of
        (Inl e, s) \<Rightarrow> Some (Completing f (Inl e), sh\<lparr>sh_state := s\<rparr>)
      | (Inr (decoded, _), s) \<Rightarrow> Some (Storing f decoded, sh\<lparr>sh_state := s\<rparr>))"
| "reader_step E img i (Storing f decoded) sh =
     (let s = sh_state sh in
      Some (Completing f (Inr decoded),
        sh\<lparr>sh_state := s\<lparr>is_chunk_cache := lru_put (en_chunk_lru E) i decoded (is_chunk_cache s)\<rparr>\<rparr>))"
| "reader_step E img i (Completing f r) sh = Some (Releasing f r, sh\<lparr>sh_complete := (sh_complete sh)[f := True]\<rparr>)"
| "reader_step E img i (Releasing f r) sh =
     Some (Returned r, sh\<lparr>sh_in_flight := filter (\<lambda>(j, _). j \<noteq> i) (sh_in_flight sh)\<rparr>)"
| "reader_step E img i (Returned r) sh = None"

text \<open>\<open>notify_all\<close> on the condition variable of a flight.\<close>

definition wake :: "nat \<Rightarrow> u64 \<times> reader_pc \<Rightarrow> u64 \<times> reader_pc" where
  "wake f th = (case th of (i, pc) \<Rightarrow> (i, if pc = Asleep f then Awaiting f else pc))"

definition notified :: "reader_pc \<Rightarrow> (u64 \<times> reader_pc) list \<Rightarrow> (u64 \<times> reader_pc) list" where
  "notified pc ts = (case pc of Completing f _ \<Rightarrow> map (wake f) ts | _ \<Rightarrow> ts)"

text \<open>A turn of thread \<open>t\<close>. A thread that waits does nothing, or wakes up spuriously.\<close>

definition reader_turn :: "('p, 'c) env \<Rightarrow> image \<Rightarrow> nat \<times> bool \<Rightarrow> ('p, 'c) readers \<Rightarrow> ('p, 'c) readers" where
  "reader_turn E img turn c =
     (case (turn, c) of ((t, spurious), (ts, sh)) \<Rightarrow>
        if length ts \<le> t then (ts, sh)
        else case ts ! t of (i, pc) \<Rightarrow>
          (case reader_step E img i pc sh of
             Some (pc', sh') \<Rightarrow> (notified pc (ts[t := (i, pc')]), sh')
           | None \<Rightarrow> (case pc of Asleep f \<Rightarrow> if spurious then (ts[t := (i, Awaiting f)], sh) else (ts, sh) | _ \<Rightarrow> (ts, sh))))"

primrec readers_after :: "('p, 'c) env \<Rightarrow> image \<Rightarrow> (nat \<Rightarrow> nat \<times> bool) \<Rightarrow> ('p, 'c) readers \<Rightarrow> nat \<Rightarrow> ('p, 'c) readers" where
  "readers_after E img sched c 0 = c"
| "readers_after E img sched c (Suc k) = reader_turn E img (sched k) (readers_after E img sched c k)"

definition readers_start :: "('p, 'c) image_state \<Rightarrow> u64 list \<Rightarrow> ('p, 'c) readers" where
  "readers_start s ids = (map (\<lambda>i. (i, Entering)) ids, \<lparr>sh_state = s, sh_in_flight = [], sh_complete = []\<rparr>)"

section \<open>The invariant\<close>

text \<open>The flight a thread has claimed and not yet given up.\<close>

fun flight_held :: "reader_pc \<Rightarrow> nat option" where
  "flight_held (Decoding f) = Some f"
| "flight_held (Storing f _) = Some f"
| "flight_held (Completing f _) = Some f"
| "flight_held (Releasing f _) = Some f"
| "flight_held _ = None"

fun flight_awaited :: "reader_pc \<Rightarrow> nat option" where
  "flight_awaited (Awaiting f) = Some f"
| "flight_awaited (Asleep f) = Some f"
| "flight_awaited _ = None"

fun is_releasing :: "reader_pc \<Rightarrow> bool" where
  "is_releasing (Releasing _ _) = True"
| "is_releasing _ = False"

text \<open>The results threads carry, \<open>P\<close> being the results of the sequential reader.\<close>

fun carries :: "(u64 \<Rightarrow> bytes result) \<Rightarrow> u64 \<times> reader_pc \<Rightarrow> bool" where
  "carries P (i, Storing _ d) \<longleftrightarrow> P i = Inr d"
| "carries P (i, Completing _ r) \<longleftrightarrow> r = P i"
| "carries P (i, Releasing _ r) \<longleftrightarrow> r = P i"
| "carries P (i, Returned r) \<longleftrightarrow> r = P i"
| "carries P _ \<longleftrightarrow> True"

definition flights_inv :: "('p, 'c) readers \<Rightarrow> bool" where
  "flights_inv c \<longleftrightarrow> (case c of (ts, sh) \<Rightarrow>
     (\<forall>t < length ts. \<forall>f. flight_held (snd (ts ! t)) = Some f \<longrightarrow>
        map_of (sh_in_flight sh) (fst (ts ! t)) = Some f \<and> f < length (sh_complete sh) \<and>
        (sh_complete sh ! f \<longleftrightarrow> is_releasing (snd (ts ! t)))) \<and>
     (\<forall>i f. map_of (sh_in_flight sh) i = Some f \<longrightarrow> (\<exists>t < length ts. fst (ts ! t) = i \<and> flight_held (snd (ts ! t)) = Some f)) \<and>
     (\<forall>t < length ts. \<forall>u < length ts. t \<noteq> u \<longrightarrow> flight_held (snd (ts ! t)) \<noteq> None \<longrightarrow>
        flight_held (snd (ts ! t)) \<noteq> flight_held (snd (ts ! u))) \<and>
     (\<forall>f < length (sh_complete sh). \<not> sh_complete sh ! f \<longrightarrow> (\<exists>t < length ts. flight_held (snd (ts ! t)) = Some f)) \<and>
     (\<forall>t < length ts. \<forall>f. flight_awaited (snd (ts ! t)) = Some f \<longrightarrow> f < length (sh_complete sh)) \<and>
     (\<forall>t < length ts. \<forall>f. snd (ts ! t) = Asleep f \<longrightarrow> \<not> sh_complete sh ! f))"

lemma length_notified [simp]: "length (notified pc ts) = length ts"
  by (simp add: notified_def split: reader_pc.split)

lemma notified_nth:
  assumes "u < length ts"
  shows "fst (notified pc ts ! u) = fst (ts ! u)"
    and "flight_held (snd (notified pc ts ! u)) = flight_held (snd (ts ! u))"
    and "is_releasing (snd (notified pc ts ! u)) = is_releasing (snd (ts ! u))"
    and "flight_awaited (snd (notified pc ts ! u)) = flight_awaited (snd (ts ! u))"
    and "snd (notified pc ts ! u) = Asleep f \<longleftrightarrow> snd (ts ! u) = Asleep f \<and> (\<forall>r. pc \<noteq> Completing f r)"
    and "carries P (notified pc ts ! u) = carries P (ts ! u)"
  using assms by (cases pc; cases "ts ! u"; auto simp: notified_def wake_def)+

text \<open>What a step of thread \<open>t\<close> changes: its own place, and the sleepers it wakes.\<close>

lemma reader_turn_cases [consumes 1, case_names idle wakes moves]:
  assumes "reader_turn E img (t, b) (ts, sh) = c'"
  obtains "c' = (ts, sh)"
    "t < length ts \<Longrightarrow> (\<exists>f. snd (ts ! t) = Asleep f) \<or> (\<exists>r. snd (ts ! t) = Returned r)"
  | i f where "t < length ts" "ts ! t = (i, Asleep f)" "c' = (ts[t := (i, Awaiting f)], sh)"
  | i pc pc' sh' where "t < length ts" "ts ! t = (i, pc)" "reader_step E img i pc sh = Some (pc', sh')"
    "c' = (notified pc (ts[t := (i, pc')]), sh')"
proof -
  have none: "reader_step E img i pc sh = None \<Longrightarrow> (\<exists>f. pc = Asleep f) \<or> (\<exists>r. pc = Returned r)" for i pc
    by (cases pc) (auto simp: Let_def split: sum.splits option.splits prod.splits)
  show thesis
  proof (cases "t < length ts")
    case False
    then show thesis using that(1) assms by (simp add: reader_turn_def)
  next
    case True
    obtain i pc where t: "ts ! t = (i, pc)" by (cases "ts ! t")
    show thesis
    proof (cases "reader_step E img i pc sh")
      case None
      with none [OF this] True t assms that(1,2) show thesis
        by (auto simp: reader_turn_def split: if_splits)
    next
      case (Some r)
      with True t assms that(3) show thesis by (cases r) (simp add: reader_turn_def)
    qed
  qed
qed

lemma flights_inv_start: "flights_inv (readers_start s ids)"
  by (simp add: flights_inv_def readers_start_def)

lemma flights_invD:
  assumes "flights_inv (ts, sh)"
  shows "t < length ts \<Longrightarrow> flight_held (snd (ts ! t)) = Some f \<Longrightarrow> map_of (sh_in_flight sh) (fst (ts ! t)) = Some f"
    and "t < length ts \<Longrightarrow> flight_held (snd (ts ! t)) = Some f \<Longrightarrow> f < length (sh_complete sh)"
    and "t < length ts \<Longrightarrow> flight_held (snd (ts ! t)) = Some f \<Longrightarrow> sh_complete sh ! f \<longleftrightarrow> is_releasing (snd (ts ! t))"
    and "map_of (sh_in_flight sh) i = Some f \<Longrightarrow> \<exists>t < length ts. fst (ts ! t) = i \<and> flight_held (snd (ts ! t)) = Some f"
    and "t < length ts \<Longrightarrow> u < length ts \<Longrightarrow> t \<noteq> u \<Longrightarrow> flight_held (snd (ts ! t)) = Some f \<Longrightarrow> flight_held (snd (ts ! u)) \<noteq> Some f"
    and "f < length (sh_complete sh) \<Longrightarrow> \<not> sh_complete sh ! f \<Longrightarrow> \<exists>t < length ts. flight_held (snd (ts ! t)) = Some f"
    and "t < length ts \<Longrightarrow> flight_awaited (snd (ts ! t)) = Some f \<Longrightarrow> f < length (sh_complete sh)"
    and "t < length ts \<Longrightarrow> snd (ts ! t) = Asleep f \<Longrightarrow> \<not> sh_complete sh ! f"
proof -
  note inv = assms [unfolded flights_inv_def case_prod_conv]
  note 1 = inv [THEN conjunct1, rule_format]
    and 2 = inv [THEN conjunct2, THEN conjunct1, rule_format]
    and 3 = inv [THEN conjunct2, THEN conjunct2, THEN conjunct1, rule_format]
    and 4 = inv [THEN conjunct2, THEN conjunct2, THEN conjunct2, THEN conjunct1, rule_format]
    and 5 = inv [THEN conjunct2, THEN conjunct2, THEN conjunct2, THEN conjunct2, THEN conjunct1, rule_format]
    and 6 = inv [THEN conjunct2, THEN conjunct2, THEN conjunct2, THEN conjunct2, THEN conjunct2, rule_format]
  show "map_of (sh_in_flight sh) (fst (ts ! t)) = Some f" "f < length (sh_complete sh)"
    "sh_complete sh ! f \<longleftrightarrow> is_releasing (snd (ts ! t))"
    if "t < length ts" "flight_held (snd (ts ! t)) = Some f"
    using 1 [OF that] by blast+
  show "\<exists>t < length ts. fst (ts ! t) = i \<and> flight_held (snd (ts ! t)) = Some f"
    if "map_of (sh_in_flight sh) i = Some f" using 2 [OF that] .
  show "flight_held (snd (ts ! u)) \<noteq> Some f"
    if "t < length ts" "u < length ts" "t \<noteq> u" "flight_held (snd (ts ! t)) = Some f"
    using 3 [OF that(1-3)] that(4) by simp
  show "\<exists>t < length ts. flight_held (snd (ts ! t)) = Some f" if "f < length (sh_complete sh)" "\<not> sh_complete sh ! f"
    using 4 [OF that] .
  show "f < length (sh_complete sh)" if "t < length ts" "flight_awaited (snd (ts ! t)) = Some f"
    using 5 [OF that] .
  show "\<not> sh_complete sh ! f" if "t < length ts" "snd (ts ! t) = Asleep f" using 6 [OF that] .
qed

lemma flights_invI:
  assumes "\<And>t f. t < length ts \<Longrightarrow> flight_held (snd (ts ! t)) = Some f \<Longrightarrow> map_of (sh_in_flight sh) (fst (ts ! t)) = Some f \<and>
      f < length (sh_complete sh) \<and> (sh_complete sh ! f \<longleftrightarrow> is_releasing (snd (ts ! t)))"
    and "\<And>i f. map_of (sh_in_flight sh) i = Some f \<Longrightarrow> \<exists>t < length ts. fst (ts ! t) = i \<and> flight_held (snd (ts ! t)) = Some f"
    and "\<And>t u f. t < length ts \<Longrightarrow> u < length ts \<Longrightarrow> t \<noteq> u \<Longrightarrow> flight_held (snd (ts ! t)) = Some f \<Longrightarrow> flight_held (snd (ts ! u)) \<noteq> Some f"
    and "\<And>f. f < length (sh_complete sh) \<Longrightarrow> \<not> sh_complete sh ! f \<Longrightarrow> \<exists>t < length ts. flight_held (snd (ts ! t)) = Some f"
    and "\<And>t f. t < length ts \<Longrightarrow> flight_awaited (snd (ts ! t)) = Some f \<Longrightarrow> f < length (sh_complete sh)"
    and "\<And>t f. t < length ts \<Longrightarrow> snd (ts ! t) = Asleep f \<Longrightarrow> \<not> sh_complete sh ! f"
  shows "flights_inv (ts, sh)"
  unfolding flights_inv_def case_prod_conv
proof (intro conjI allI impI)
  fix t u assume "t < length ts" "u < length ts" "t \<noteq> u" "flight_held (snd (ts ! t)) \<noteq> None"
  then show "flight_held (snd (ts ! t)) \<noteq> flight_held (snd (ts ! u))" using assms(3) [of t u] by fastforce
qed (use assms in blast)+

text \<open>
  A step that neither claims nor gives up a flight and changes no flags keeps the
  invariant when the thread does not fall asleep.
\<close>

lemma flights_inv_local:
  assumes inv: "flights_inv (ts, sh)" and t: "t < length ts" "ts ! t = (i, pc)"
    and same: "flight_held pc' = flight_held pc" "is_releasing pc' = is_releasing pc" "sh_in_flight sh' = sh_in_flight sh"
      "sh_complete sh' = sh_complete sh"
    and wait: "\<And>f. flight_awaited pc' = Some f \<Longrightarrow> f < length (sh_complete sh)"
      "\<And>f. pc' = Asleep f \<Longrightarrow> \<not> sh_complete sh ! f"
  shows "flights_inv (ts[t := (i, pc')], sh')"
proof -
  let ?ts = "ts[t := (i, pc')]"
  have n: "fst (?ts ! u) = fst (ts ! u)" "flight_held (snd (?ts ! u)) = flight_held (snd (ts ! u))"
    "is_releasing (snd (?ts ! u)) = is_releasing (snd (ts ! u))" if "u < length ts" for u
    using that t same by (auto simp: nth_list_update)
  note D = flights_invD [OF inv]
  show ?thesis
  proof (rule flights_invI)
    fix u f assume "u < length ?ts" "flight_awaited (snd (?ts ! u)) = Some f"
    then show "f < length (sh_complete sh')" using D(7) [of u f] wait(1) t by (auto simp: same nth_list_update split: if_splits)
  next
    fix u f assume "u < length ?ts" "snd (?ts ! u) = Asleep f"
    then show "\<not> sh_complete sh' ! f" using D(8) [of u f] wait(2) t by (auto simp: same nth_list_update split: if_splits)
  next
    fix u f assume "u < length ?ts" "flight_held (snd (?ts ! u)) = Some f"
    then show "map_of (sh_in_flight sh') (fst (?ts ! u)) = Some f \<and> f < length (sh_complete sh') \<and>
        (sh_complete sh' ! f \<longleftrightarrow> is_releasing (snd (?ts ! u)))"
      using D(1-3) n by (simp add: same)
  next
    fix j f assume "map_of (sh_in_flight sh') j = Some f"
    then show "\<exists>u < length ?ts. fst (?ts ! u) = j \<and> flight_held (snd (?ts ! u)) = Some f"
      using D(4) n by (metis length_list_update same(3))
  next
    fix f assume "f < length (sh_complete sh')" "\<not> sh_complete sh' ! f"
    then show "\<exists>u < length ?ts. flight_held (snd (?ts ! u)) = Some f"
      using D(6) n by (metis length_list_update same(4))
  qed (use D(5) n in simp)
qed

lemma flights_inv_wake: "flights_inv (ts, sh) \<Longrightarrow> t < length ts \<Longrightarrow> ts ! t = (i, Asleep f) \<Longrightarrow> flights_inv (ts[t := (i, Awaiting f)], sh)"
  using flights_invD(7) [of ts sh t f] by (intro flights_inv_local [of ts sh t i "Asleep f"]) simp_all

lemma flights_inv_step:
  assumes inv: "flights_inv (ts, sh)" and t: "t < length ts" "ts ! t = (i, pc)"
    and step: "reader_step E img i pc sh = Some (pc', sh')"
  shows "flights_inv (notified pc (ts[t := (i, pc')]), sh')"
proof -
  note D = flights_invD [OF inv]
  have same: "notified pc ts' = ts'" if "\<And>f r. pc \<noteq> Completing f r" for ts'
    using that by (cases pc) (auto simp: notified_def)
  show ?thesis
  proof (cases pc)
    case Entering
    then show ?thesis using step by (auto simp: notified_def split: sum.splits intro!: flights_inv_local [OF inv t])
  next
    case Checking
    then show ?thesis using step
      by (auto simp: notified_def Let_def split: prod.splits option.splits intro!: flights_inv_local [OF inv t])
  next
    case (Awaiting f)
    then have "f < length (sh_complete sh)" using D(7) [OF t(1)] t(2) by simp
    then show ?thesis using step Awaiting
      by (cases "sh_complete sh ! f") (auto simp: notified_def intro!: flights_inv_local [OF inv t])
  next
    case (Decoding f)
    then show ?thesis using step
      by (auto simp: notified_def split: prod.splits sum.splits intro!: flights_inv_local [OF inv t])
  next
    case (Storing f d)
    then show ?thesis using step by (auto simp: notified_def Let_def intro!: flights_inv_local [OF inv t])
  next
    case Claiming
    show ?thesis
    proof (cases "map_of (sh_in_flight sh) i")
      case (Some f)
      then have "f < length (sh_complete sh)" using D(4) D(2) by blast
      then show ?thesis using step Claiming Some by (auto simp: notified_def intro!: flights_inv_local [OF inv t])
    next
      case None
      let ?f = "length (sh_complete sh)"
      let ?ts = "ts[t := (i, Decoding ?f)]"
      have r: "pc' = Decoding ?f" "sh_in_flight sh' = (i, ?f) # sh_in_flight sh" "sh_complete sh' = sh_complete sh @ [False]"
        using step by (auto simp: Claiming None Let_def)
      have o: "?ts ! u = ts ! u" if "u \<noteq> t" for u using that by simp
      have "flights_inv (?ts, sh')"
      proof (rule flights_invI)
        fix u f assume u: "u < length ?ts" and h: "flight_held (snd (?ts ! u)) = Some f"
        show "map_of (sh_in_flight sh') (fst (?ts ! u)) = Some f \<and> f < length (sh_complete sh') \<and>
            (sh_complete sh' ! f \<longleftrightarrow> is_releasing (snd (?ts ! u)))"
        proof (cases "u = t")
          case False
          then have h': "flight_held (snd (ts ! u)) = Some f" "u < length ts" using h u by simp_all
          have "fst (ts ! u) \<noteq> i" using D(1) [OF h'(2,1)] None by auto
          then show ?thesis using D(1-3) [OF h'(2,1)] False by (simp add: r nth_append)
        qed (use h t in \<open>auto simp: r nth_append\<close>)
      next
        fix j f assume j: "map_of (sh_in_flight sh') j = Some f"
        show "\<exists>u < length ?ts. fst (?ts ! u) = j \<and> flight_held (snd (?ts ! u)) = Some f"
        proof (cases "j = i")
          case True
          then show ?thesis using j t by (intro exI [of _ t]) (simp add: r)
        next
          case False
          then obtain u where u: "u < length ts" "fst (ts ! u) = j" "flight_held (snd (ts ! u)) = Some f"
            using j D(4) [of j f] by (auto simp: r)
          then show ?thesis using False t by (intro exI [of _ u]) (auto simp: nth_list_update)
        qed
      next
        fix u v f assume "u < length ?ts" "v < length ?ts" "u \<noteq> v" "flight_held (snd (?ts ! u)) = Some f"
        then show "flight_held (snd (?ts ! v)) \<noteq> Some f"
          using D(5) [of u v f] D(2) [of u f] D(2) [of v f] t(1)
          by (cases "u = t"; cases "v = t") auto
      next
        fix f assume f: "f < length (sh_complete sh')" "\<not> sh_complete sh' ! f"
        show "\<exists>u < length ?ts. flight_held (snd (?ts ! u)) = Some f"
        proof (cases "f = ?f")
          case True
          then show ?thesis using t by (intro exI [of _ t]) simp
        next
          case False
          then obtain u where u: "u < length ts" "flight_held (snd (ts ! u)) = Some f"
            using f D(6) [of f] by (auto simp: r nth_append)
          then show ?thesis using t Claiming by (intro exI [of _ u]) (auto simp: nth_list_update)
        qed
      next
        fix u f assume "u < length ?ts" "flight_awaited (snd (?ts ! u)) = Some f"
        then show "f < length (sh_complete sh')" using D(7) [of u f] t(1) by (cases "u = t") (auto simp: r)
      next
        fix u f assume u: "u < length ?ts" "snd (?ts ! u) = Asleep f"
        then have "u < length ts" "snd (ts ! u) = Asleep f" using t(1) by (cases "u = t"; simp)+
        then show "\<not> sh_complete sh' ! f" using D(8) [of u f] D(7) [of u f] by (simp add: r nth_append)
      qed
      then show ?thesis by (simp add: Claiming notified_def r(1))
    qed
  next
    case (Completing f r)
    let ?ts = "ts[t := (i, Releasing f r)]"
    have sh': "pc' = Releasing f r" "sh_in_flight sh' = sh_in_flight sh" "sh_complete sh' = (sh_complete sh)[f := True]"
      using step by (auto simp: Completing)
    have mine: "flight_held (snd (ts ! t)) = Some f" by (simp add: t Completing)
    have upd: "flight_held (snd (?ts ! u)) = flight_held (snd (ts ! u))" "fst (?ts ! u) = fst (ts ! u)"
      "is_releasing (snd (?ts ! u)) \<longleftrightarrow> u = t \<or> is_releasing (snd (ts ! u))"
      "flight_awaited (snd (?ts ! u)) = Some g \<Longrightarrow> flight_awaited (snd (ts ! u)) = Some g"
      "snd (?ts ! u) = Asleep g \<Longrightarrow> u \<noteq> t \<and> snd (ts ! u) = Asleep g" if "u < length ts" for u g
      using that t mine by (cases "u = t"; simp)+
    have held: "flight_held (snd (notified pc ?ts ! u)) = flight_held (snd (ts ! u))" "fst (notified pc ?ts ! u) = fst (ts ! u)"
      "is_releasing (snd (notified pc ?ts ! u)) \<longleftrightarrow> u = t \<or> is_releasing (snd (ts ! u))"
      "flight_awaited (snd (notified pc ?ts ! u)) = Some g \<Longrightarrow> flight_awaited (snd (ts ! u)) = Some g"
      "snd (notified pc ?ts ! u) = Asleep g \<Longrightarrow> u \<noteq> t \<and> snd (ts ! u) = Asleep g" if u: "u < length ts" for u g
    proof -
      have "u < length ?ts" using u by simp
      note N = notified_nth [OF this, where pc = pc]
      show "flight_held (snd (notified pc ?ts ! u)) = flight_held (snd (ts ! u))" "fst (notified pc ?ts ! u) = fst (ts ! u)"
        "is_releasing (snd (notified pc ?ts ! u)) \<longleftrightarrow> u = t \<or> is_releasing (snd (ts ! u))"
        using N(1-3) upd(1-3) [OF u] by simp_all
      show "flight_awaited (snd (ts ! u)) = Some g" if "flight_awaited (snd (notified pc ?ts ! u)) = Some g"
        using that N(4) upd(4) [OF u] by simp
      show "u \<noteq> t \<and> snd (ts ! u) = Asleep g" if "snd (notified pc ?ts ! u) = Asleep g"
        using that N(5) upd(5) [OF u] by blast
    qed
    have other: "u = t" if "u < length ts" "flight_held (snd (ts ! u)) = Some f" for u
      using D(5) [OF t(1) that(1) _ mine] that(2) by blast
    have "flights_inv (notified pc ?ts, sh')"
    proof (rule flights_invI)
      fix u g assume u: "u < length (notified pc ?ts)" and h: "flight_held (snd (notified pc ?ts ! u)) = Some g"
      then have u: "u < length ts" "flight_held (snd (ts ! u)) = Some g" using held(1) [of u] by simp_all
      have "g = f \<longleftrightarrow> u = t" using other [of u] u mine by auto
      then show "map_of (sh_in_flight sh') (fst (notified pc ?ts ! u)) = Some g \<and> g < length (sh_complete sh') \<and>
          (sh_complete sh' ! g \<longleftrightarrow> is_releasing (snd (notified pc ?ts ! u)))"
        unfolding held(2,3) [OF u(1)] sh'(2,3) using D(1-3) [OF u] by (cases "u = t") simp_all
    next
      fix j g assume "map_of (sh_in_flight sh') j = Some g"
      then obtain u where "u < length ts" "fst (ts ! u) = j" "flight_held (snd (ts ! u)) = Some g" using D(4) [of j g] by (auto simp: sh')
      then show "\<exists>u < length (notified pc ?ts). fst (notified pc ?ts ! u) = j \<and> flight_held (snd (notified pc ?ts ! u)) = Some g"
        using held by (intro exI [of _ u]) simp
    next
      fix u v g assume "u < length (notified pc ?ts)" "v < length (notified pc ?ts)" "u \<noteq> v"
        "flight_held (snd (notified pc ?ts ! u)) = Some g"
      then show "flight_held (snd (notified pc ?ts ! v)) \<noteq> Some g" using D(5) [of u v g] held by simp
    next
      fix g assume "g < length (sh_complete sh')" "\<not> sh_complete sh' ! g"
      then obtain u where "u < length ts" "flight_held (snd (ts ! u)) = Some g"
        using D(6) [of g] by (cases "g = f") (auto simp: sh')
      then show "\<exists>u < length (notified pc ?ts). flight_held (snd (notified pc ?ts ! u)) = Some g"
        using held by (intro exI [of _ u]) simp
    next
      fix u g assume "u < length (notified pc ?ts)" "flight_awaited (snd (notified pc ?ts ! u)) = Some g"
      then show "g < length (sh_complete sh')" using held(4) D(7) by (simp add: sh')
    next
      fix u g assume u: "u < length (notified pc ?ts)" "snd (notified pc ?ts ! u) = Asleep g"
      then have "snd (ts ! u) = Asleep g" "u < length ts" using held(5) by simp_all
      moreover from this u have "g \<noteq> f" using notified_nth(5) [where u = u and ts = ?ts and pc = pc and f = g] by (auto simp: Completing)
      ultimately show "\<not> sh_complete sh' ! g" using D(8) by (simp add: sh')
    qed
    then show ?thesis by (simp add: sh'(1))
  next
    case (Releasing f r)
    let ?ts = "ts[t := (i, Returned r)]"
    have sh': "pc' = Returned r" "sh_in_flight sh' = filter (\<lambda>(j, _). j \<noteq> i) (sh_in_flight sh)" "sh_complete sh' = sh_complete sh"
      using step by (auto simp: Releasing)
    have mine: "flight_held (snd (ts ! t)) = Some f" by (simp add: t Releasing)
    have lookup: "map_of (filter (\<lambda>(j, _). j \<noteq> i) m) j = (if j = i then None else map_of m j)" for m :: "(u64 \<times> nat) list" and j
      by (induction m) auto
    have held: "flight_held (snd (?ts ! u)) = (if u = t then None else flight_held (snd (ts ! u)))" "fst (?ts ! u) = fst (ts ! u)"
      "u \<noteq> t \<Longrightarrow> is_releasing (snd (?ts ! u)) = is_releasing (snd (ts ! u))" if "u < length ts" for u
      using that t by (auto simp: nth_list_update)
    have "flights_inv (?ts, sh')"
    proof (rule flights_invI)
      fix u g assume "u < length ?ts" "flight_held (snd (?ts ! u)) = Some g"
      then have u: "u < length ts" "flight_held (snd (ts ! u)) = Some g" "u \<noteq> t" using held(1) [of u] by (auto split: if_splits)
      have "fst (ts ! u) \<noteq> i" using D(1) [OF u(1,2)] D(1) [OF t(1) mine] D(5) [OF t(1) u(1) _ mine] u(2,3) t(2) by auto
      then show "map_of (sh_in_flight sh') (fst (?ts ! u)) = Some g \<and> g < length (sh_complete sh') \<and>
          (sh_complete sh' ! g \<longleftrightarrow> is_releasing (snd (?ts ! u)))"
        using D(1-3) [OF u(1,2)] held [OF u(1)] u(3) by (simp add: sh' lookup)
    next
      fix j g assume "map_of (sh_in_flight sh') j = Some g"
      then have j: "j \<noteq> i" "map_of (sh_in_flight sh) j = Some g" by (auto simp: sh' lookup split: if_splits)
      then obtain u where u: "u < length ts" "fst (ts ! u) = j" "flight_held (snd (ts ! u)) = Some g" using D(4) [of j g] by auto
      then have "u \<noteq> t" using j t by auto
      then show "\<exists>u < length ?ts. fst (?ts ! u) = j \<and> flight_held (snd (?ts ! u)) = Some g" using u held by (intro exI [of _ u]) simp
    next
      fix u v g assume "u < length ?ts" "v < length ?ts" "u \<noteq> v" "flight_held (snd (?ts ! u)) = Some g"
      then show "flight_held (snd (?ts ! v)) \<noteq> Some g" using D(5) [of u v g] held by (auto split: if_splits)
    next
      fix g assume g: "g < length (sh_complete sh')" "\<not> sh_complete sh' ! g"
      then obtain u where u: "u < length ts" "flight_held (snd (ts ! u)) = Some g" using D(6) [of g] by (auto simp: sh')
      moreover have "u \<noteq> t" using D(3) [OF u] g(2) t by (auto simp: sh' Releasing)
      ultimately show "\<exists>u < length ?ts. flight_held (snd (?ts ! u)) = Some g" using held by (intro exI [of _ u]) simp
    next
      fix u g assume "u < length ?ts" "flight_awaited (snd (?ts ! u)) = Some g"
      then show "g < length (sh_complete sh')" using D(7) [of u g] t(1) by (cases "u = t") (auto simp: sh')
    next
      fix u g assume "u < length ?ts" "snd (?ts ! u) = Asleep g"
      then show "\<not> sh_complete sh' ! g" using D(8) [of u g] t(1) by (cases "u = t") (auto simp: sh')
    qed
    then show ?thesis by (simp add: Releasing notified_def sh'(1))
  qed (use step in simp_all)
qed

lemma flights_inv_turn: "flights_inv c \<Longrightarrow> flights_inv (reader_turn E img turn c)"
proof -
  assume inv: "flights_inv c"
  obtain ts sh t b where c: "c = (ts, sh)" "turn = (t, b)" by (cases c; cases turn)
  then have "reader_turn E img (t, b) (ts, sh) = reader_turn E img turn c" by simp
  then show ?thesis
    by (cases rule: reader_turn_cases) (use inv c flights_inv_wake flights_inv_step in auto)
qed

lemma flights_inv_after: "flights_inv c \<Longrightarrow> flights_inv (readers_after E img sched c k)"
  by (induction k) (simp_all add: flights_inv_turn)

section \<open>Results\<close>

definition results_inv ::
    "('p, 'c) env \<Rightarrow> image \<Rightarrow> ('p \<Rightarrow> (table_page_key \<times> bytes) list)
      \<Rightarrow> ('c \<Rightarrow> (u64 \<times> bytes) list) \<Rightarrow> nat \<Rightarrow> nat \<Rightarrow> bool \<Rightarrow> ('p, 'c) readers \<Rightarrow> bool" where
  "results_inv E img pages chunks cap n z c \<longleftrightarrow> (case c of (ts, sh) \<Rightarrow>
     image_inv E img pages chunks cap n z (sh_state sh) \<and>
     (\<forall>th \<in> set ts. carries (policy_chunk (en_decoders E) img (cap = 0) z) th))"

lemma cache_looked_up:
  assumes "image_inv E img pages chunks cap n z s" "lru_get (en_chunk_lru E) i (is_chunk_cache s) = (cached, cc)"
  shows "image_inv E img pages chunks cap n z (s\<lparr>is_chunk_cache := cc\<rparr>)"
    and "cached = Some d \<Longrightarrow> policy_chunk (en_decoders E) img (cap = 0) z i = Inr d"
proof -
  have law: "lru_lawful (Some n) (en_chunk_lru E) chunks" using assms(1) by (simp add: image_inv_def)
  have c: "cached = map_of (chunks (is_chunk_cache s)) i" and cc: "map_of (chunks cc) = map_of (chunks (is_chunk_cache s))"
    using law assms(2) unfolding lru_lawful_def by (metis fst_conv, metis snd_conv map_of_touch)
  show "image_inv E img pages chunks cap n z (s\<lparr>is_chunk_cache := cc\<rparr>)"
    using assms(1) by (simp add: image_inv_def reading_inv_def cc)
  show "policy_chunk (en_decoders E) img (cap = 0) z i = Inr d" if "cached = Some d"
    using assms(1) that by (simp add: image_inv_def c)
qed

lemma chunk_stored:
  assumes "image_inv E img pages chunks cap n z s" "policy_chunk (en_decoders E) img (cap = 0) z i = Inr d"
  shows "image_inv E img pages chunks cap n z (s\<lparr>is_chunk_cache := lru_put (en_chunk_lru E) i d (is_chunk_cache s)\<rparr>)"
proof -
  have "chunks (lru_put (en_chunk_lru E) i d (is_chunk_cache s)) = bounded (Some n) ((i, d) # drop_key i (chunks (is_chunk_cache s)))"
    using assms(1) by (simp add: image_inv_def lru_lawful_def)
  then have "policy_chunk (en_decoders E) img (cap = 0) z j = Inr e"
    if "map_of (chunks (lru_put (en_chunk_lru E) i d (is_chunk_cache s))) j = Some e" for j e
    using that map_of_bounded_put [of "Some n" i d "chunks (is_chunk_cache s)" j e] assms by (auto simp: image_inv_def)
  then show ?thesis using assms(1) by (simp add: image_inv_def reading_inv_def)
qed

lemma chunk_decoded:
  assumes "image_inv E img pages chunks cap n z s"
    and "sbind (image_lookup_chunk E img i) (decode_chunk_with_policy E img i) s = (r, s')"
  shows "image_inv E img pages chunks cap n z s'"
    and "policy_chunk (en_decoders E) img (cap = 0) z i = try_bind r (\<lambda>(decoded, _). Inr decoded)"
proof -
  have s: "reading_inv E img pages cap z (is_chunk_cache s) [] s" using assms(1) by (simp add: image_inv_def)
  have dec: "computes (reading_inv E img pages cap z (is_chunk_cache s) []) (sbind (image_lookup_chunk E img i) (decode_chunk_with_policy E img i))
      (try_bind (chunk_at img (cap = 0) i) (policy_bytes (en_decoders E) img z i))"
    by (intro computes_sbind image_lookup_computes decode_policy_computes)
  have "reading_inv E img pages cap z (is_chunk_cache s) [] s'" "r = try_bind (chunk_at img (cap = 0) i) (policy_bytes (en_decoders E) img z i)"
    using computes_fst [OF dec s] computes_inv [OF dec s] by (simp_all add: assms(2))
  moreover from this(1) have "is_chunk_cache s' = is_chunk_cache s" by (simp add: reading_inv_def)
  ultimately show "image_inv E img pages chunks cap n z s'"
    and "policy_chunk (en_decoders E) img (cap = 0) z i = try_bind r (\<lambda>(decoded, _). Inr decoded)"
    using assms(1) by (simp_all add: image_inv_def policy_chunk_def)
      (cases "chunk_at img (cap = 0) i"; simp)
qed

lemma results_step:
  assumes s: "image_inv E img pages chunks cap n z (sh_state sh)"
    and c: "carries (policy_chunk (en_decoders E) img (cap = 0) z) (i, pc)"
    and step: "reader_step E img i pc sh = Some (pc', sh')"
  shows "image_inv E img pages chunks cap n z (sh_state sh') \<and> carries (policy_chunk (en_decoders E) img (cap = 0) z) (i, pc')"
proof (cases pc)
  case Entering
  have "\<not> is_aborted (sh_state sh)" using s by (simp add: image_inv_def reading_inv_def)
  then show ?thesis using step s by (auto simp: Entering ensure_not_aborted_def)
next
  case Checking
  obtain cached cc where g: "lru_get (en_chunk_lru E) i (is_chunk_cache (sh_state sh)) = (cached, cc)" by fastforce
  show ?thesis using step cache_looked_up [OF s g] by (auto simp: Checking g Let_def split: option.splits)
next
  case (Decoding f)
  obtain r s' where d: "sbind (image_lookup_chunk E img i) (decode_chunk_with_policy E img i) (sh_state sh) = (r, s')" by fastforce
  show ?thesis using step chunk_decoded [OF s d] by (auto simp: Decoding d split: sum.splits prod.splits)
next
  case (Storing f d)
  then show ?thesis using step c chunk_stored [OF s] by (auto simp: Let_def)
qed (use step s c in \<open>auto simp: Let_def split: option.splits if_splits\<close>)

lemma results_turn: "results_inv E img pages chunks cap n z c \<Longrightarrow> results_inv E img pages chunks cap n z (reader_turn E img turn c)"
proof -
  assume inv: "results_inv E img pages chunks cap n z c"
  let ?P = "policy_chunk (en_decoders E) img (cap = 0) z"
  obtain ts sh t b where c: "c = (ts, sh)" "turn = (t, b)" by (cases c; cases turn)
  have ts: "carries ?P th" if "th \<in> set ts" for th using inv that by (simp add: results_inv_def c)
  have "reader_turn E img (t, b) (ts, sh) = reader_turn E img turn c" by (simp add: c)
  then show ?thesis
  proof (cases rule: reader_turn_cases)
    case (wakes i f)
    then show ?thesis using inv c(1) by (auto simp: results_inv_def dest!: set_update_subset_insert [THEN subsetD])
  next
    case (moves i pc pc' sh')
    have "carries ?P (i, pc)" using ts [of "ts ! t"] moves(1,2) nth_mem [of t ts] by simp
    note step = results_step [OF _ this moves(3), of pages chunks n]
    have new: "carries ?P th" if "th \<in> set (ts[t := (i, pc')])" for th
      using set_update_subset_insert [of ts t "(i, pc')"] that ts [of th] step inv c(1) by (auto simp: results_inv_def)
    have "carries ?P th" if th: "th \<in> set (notified pc (ts[t := (i, pc')]))" for th
    proof -
      obtain u where u: "u < length ts" "th = notified pc (ts[t := (i, pc')]) ! u" using th by (auto simp: in_set_conv_nth)
      then show ?thesis
        using notified_nth(6) [where u = u and ts = "ts[t := (i, pc')]" and pc = pc and P = ?P] new [OF nth_mem [of u]] by simp
    qed
    then show ?thesis using step inv c(1) moves(4) by (simp add: results_inv_def)
  qed (use inv c in auto)
qed

lemma results_after: "results_inv E img pages chunks cap n z c \<Longrightarrow> results_inv E img pages chunks cap n z (readers_after E img sched c k)"
  by (induction k) (simp_all add: results_turn)

section \<open>All threads return\<close>

text \<open>A schedule is fair when it gives every thread a turn again and again.\<close>

definition fair_schedule :: "nat \<Rightarrow> (nat \<Rightarrow> nat \<times> bool) \<Rightarrow> bool" where
  "fair_schedule n sched \<longleftrightarrow> (\<forall>t < n. \<forall>k. \<exists>j \<ge> k. fst (sched j) = t)"

fun has_returned :: "reader_pc \<Rightarrow> bool" where
  "has_returned (Returned _) = True"
| "has_returned _ = False"

definition unreturned :: "('p, 'c) readers \<Rightarrow> nat" where
  "unreturned c = card {t. t < length (fst c) \<and> \<not> has_returned (snd (fst c ! t))}"

text \<open>How far the holder of a flight is from its end, and another thread from claiming one.\<close>

fun holder_rank :: "reader_pc \<Rightarrow> nat" where
  "holder_rank (Decoding _) = 4"
| "holder_rank (Storing _ _) = 3"
| "holder_rank (Completing _ _) = 2"
| "holder_rank (Releasing _ _) = 1"
| "holder_rank _ = 0"

fun seeker_rank :: "reader_pc \<Rightarrow> nat" where
  "seeker_rank Entering = 3"
| "seeker_rank (Awaiting _) = 3"
| "seeker_rank Checking = 2"
| "seeker_rank Claiming = 1"
| "seeker_rank _ = 0"

lemma turn_other:
  assumes "reader_turn E img (t, b) (ts, sh) = (ts', sh')" "u \<noteq> t" "u < length ts"
  shows "length ts' = length ts" "fst (ts' ! u) = fst (ts ! u)"
    "snd (ts' ! u) = snd (ts ! u) \<or> (\<exists>f. snd (ts ! u) = Asleep f \<and> snd (ts' ! u) = Awaiting f)"
proof -
  have "length ts' = length ts \<and> fst (ts' ! u) = fst (ts ! u) \<and>
      (snd (ts' ! u) = snd (ts ! u) \<or> (\<exists>f. snd (ts ! u) = Asleep f \<and> snd (ts' ! u) = Awaiting f))"
    using assms(1)
  proof (cases rule: reader_turn_cases)
    case (moves i pc pc' sh'')
    then show ?thesis using assms(2,3)
      by (cases pc; cases "ts ! u") (auto simp: notified_def wake_def)
  qed (use assms in auto)
  then show "length ts' = length ts" "fst (ts' ! u) = fst (ts ! u)"
    "snd (ts' ! u) = snd (ts ! u) \<or> (\<exists>f. snd (ts ! u) = Asleep f \<and> snd (ts' ! u) = Awaiting f)" by blast+
qed

lemma turn_own:
  assumes "reader_turn E img (t, b) (ts, sh) = (ts', sh')" "t < length ts"
  shows "length ts' = length ts \<and> fst (ts' ! t) = fst (ts ! t) \<and>
    (case reader_step E img (fst (ts ! t)) (snd (ts ! t)) sh of
       Some (pc', _) \<Rightarrow> snd (ts' ! t) = pc' \<or> (\<exists>f. pc' = Asleep f \<and> snd (ts' ! t) = Awaiting f)
     | None \<Rightarrow> snd (ts' ! t) = snd (ts ! t) \<or> (\<exists>f. snd (ts ! t) = Asleep f \<and> snd (ts' ! t) = Awaiting f))"
  using assms(1)
proof (cases rule: reader_turn_cases)
  case idle
  then have "reader_step E img (fst (ts ! t)) (snd (ts ! t)) sh = None" using assms(2) by (cases "snd (ts ! t)") auto
  then show ?thesis using idle(1) by simp
next
  case (moves i pc pc' sh'')
  then show ?thesis by (cases pc) (auto simp: notified_def wake_def)
qed (use assms in auto)

lemma turn_length: "length (fst (reader_turn E img turn c)) = length (fst c)"
proof -
  obtain ts sh t b where c: "c = (ts, sh)" "turn = (t, b)" by (cases c; cases turn)
  obtain ts' sh' where r: "reader_turn E img (t, b) (ts, sh) = (ts', sh')" by fastforce
  show ?thesis
    using turn_own [OF r] r c by (cases "t < length ts") (auto simp: reader_turn_def)
qed

lemma after_length [simp]: "length (fst (readers_after E img sched c k)) = length (fst c)"
  by (induction k) (simp_all add: turn_length)

text \<open>The place of thread \<open>u\<close> after a turn.\<close>

definition pc_of :: "nat \<Rightarrow> ('p, 'c) readers \<Rightarrow> reader_pc" where
  "pc_of u c = snd (fst c ! u)"

lemma turn_pc_other:
  assumes "u \<noteq> fst turn" "u < length (fst c)"
  shows "pc_of u (reader_turn E img turn c) = pc_of u c \<or>
    (\<exists>f. pc_of u c = Asleep f \<and> pc_of u (reader_turn E img turn c) = Awaiting f)"
proof -
  obtain ts sh t b where c: "c = (ts, sh)" "turn = (t, b)" by (cases c; cases turn)
  obtain ts' sh' where r: "reader_turn E img (t, b) (ts, sh) = (ts', sh')" by fastforce
  show ?thesis using turn_other(3) [OF r, of u] assms by (simp add: c r pc_of_def)
qed

lemma returned_stays: "u < length (fst c) \<Longrightarrow> has_returned (pc_of u c) \<Longrightarrow> has_returned (pc_of u (reader_turn E img turn c))"
proof (cases "u = fst turn")
  case True
  assume u: "u < length (fst c)" "has_returned (pc_of u c)"
  obtain ts sh t b where c: "c = (ts, sh)" "turn = (t, b)" by (cases c; cases turn)
  obtain ts' sh' where r: "reader_turn E img (t, b) (ts, sh) = (ts', sh')" by fastforce
  obtain x where "snd (ts ! t) = Returned x" using u c True by (cases "snd (ts ! t)") (auto simp: pc_of_def)
  then show ?thesis using turn_own [OF r] u c True r by (simp add: pc_of_def)
next
  case False
  assume "u < length (fst c)" "has_returned (pc_of u c)"
  then show ?thesis using turn_pc_other [OF False, of c E img] by auto
qed

lemma returned_after:
  assumes "u < length (fst c)" "has_returned (pc_of u (readers_after E img sched c k))" "k \<le> j"
  shows "has_returned (pc_of u (readers_after E img sched c j))"
  using assms(3,2)
proof (induction j rule: dec_induct)
  case (step j)
  then show ?case using returned_stays [of u "readers_after E img sched c j"] assms(1) by simp
qed

lemma waits_for_turn:
  assumes fair: "fair_schedule (length (fst c)) sched" and u: "u < length (fst c)"
    and p: "pc_of u (readers_after E img sched c k) = p" "\<And>f. p \<noteq> Asleep f"
  obtains j where "k \<le> j" "fst (sched j) = u" "pc_of u (readers_after E img sched c j) = p"
proof -
  define j where "j = (LEAST j. k \<le> j \<and> fst (sched j) = u)"
  have "\<exists>j. k \<le> j \<and> fst (sched j) = u" using fair u by (auto simp: fair_schedule_def)
  then have j: "k \<le> j" "fst (sched j) = u" unfolding j_def by (metis (mono_tags, lifting) LeastI_ex)+
  have before: "fst (sched m) \<noteq> u" if "k \<le> m" "m < j" for m using that not_less_Least unfolding j_def by blast
  have "pc_of u (readers_after E img sched c m) = p" if "k \<le> m" "m \<le> j" for m
    using that
  proof (induction m rule: dec_induct)
    case (step m)
    then have "u \<noteq> fst (sched m)" using before [of m] by auto
    from turn_pc_other [OF this, of "readers_after E img sched c m" E img] step p(2) u show ?case by auto
  qed (rule p(1))
  with j that show thesis by blast
qed

lemma turn_pc_own:
  assumes "u = fst turn" "u < length (fst c)" "reader_step E img (fst (fst c ! u)) (pc_of u c) (snd c) = Some (p, sh')" "\<And>f. p \<noteq> Asleep f"
  shows "pc_of u (reader_turn E img turn c) = p"
proof -
  obtain ts sh t b where c: "c = (ts, sh)" "turn = (t, b)" by (cases c; cases turn)
  obtain ts' sh' where r: "reader_turn E img (t, b) (ts, sh) = (ts', sh')" by fastforce
  show ?thesis using turn_own [OF r] assms c r by (auto simp: pc_of_def)
qed

lemma holder_steps:
  assumes "flight_held pc \<noteq> None"
  obtains p sh' where "reader_step E img i pc sh = Some (p, sh')" "holder_rank p < holder_rank pc"
    "flight_held p \<noteq> None \<or> has_returned p"
proof (cases pc)
  case (Decoding f)
  obtain r s where d: "sbind (image_lookup_chunk E img i) (decode_chunk_with_policy E img i) (sh_state sh) = (r, s)" by fastforce
  then show thesis using that by (cases r) (auto simp: Decoding split: prod.splits)
qed (use assms that in \<open>auto simp: Let_def\<close>)

lemma holder_returns:
  assumes fair: "fair_schedule (length (fst c)) sched" and u: "u < length (fst c)"
    and "flight_held (pc_of u (readers_after E img sched c k)) \<noteq> None"
  shows "\<exists>j \<ge> k. has_returned (pc_of u (readers_after E img sched c j))"
  using assms(3)
proof (induction "holder_rank (pc_of u (readers_after E img sched c k))" arbitrary: k rule: less_induct)
  case less
  let ?c = "readers_after E img sched c"
  have "pc_of u (?c k) \<noteq> Asleep f" for f using less.prems by auto
  then obtain j where j: "k \<le> j" "fst (sched j) = u" "pc_of u (?c j) = pc_of u (?c k)"
    by (rule waits_for_turn [OF fair u refl])
  have held: "flight_held (pc_of u (?c j)) \<noteq> None" using less.prems j(3) by simp
  obtain p sh' where p: "reader_step E img (fst (fst (?c j) ! u)) (pc_of u (?c j)) (snd (?c j)) = Some (p, sh')"
    "holder_rank p < holder_rank (pc_of u (?c j))" "flight_held p \<noteq> None \<or> has_returned p"
    by (rule holder_steps [OF held])
  have "p \<noteq> Asleep f" for f using p(3) by auto
  then have next_pc: "pc_of u (?c (Suc j)) = p" using turn_pc_own [OF j(2) [symmetric] _ p(1)] u by simp
  show ?case
  proof (cases "has_returned p")
    case True
    then show ?thesis using next_pc j(1) by (intro exI [of _ "Suc j"]) simp
  next
    case False
    with p(2,3) less.hyps [of "Suc j"] next_pc j(3) obtain j' where "j' \<ge> Suc j" "has_returned (pc_of u (?c j'))" by auto
    with j(1) show ?thesis by (intro exI [of _ j']) simp
  qed
qed

lemma seeker_steps:
  assumes inv: "flights_inv c" and u: "u < length (fst c)"
    and none: "\<And>v. v < length (fst c) \<Longrightarrow> flight_held (pc_of v c) = None" and pc: "\<not> has_returned (pc_of u c)"
  obtains p sh' where "reader_step E img (fst (fst c ! u)) (pc_of u c) (snd c) = Some (p, sh')"
    "has_returned p \<or> flight_held p \<noteq> None \<or> (seeker_rank p < seeker_rank (pc_of u c))" "\<And>f. p \<noteq> Asleep f"
    "\<And>f. pc_of u c \<noteq> Asleep f"
proof -
  obtain ts sh where c: "c = (ts, sh)" by (cases c)
  note D = flights_invD [OF inv [unfolded c]]
  have complete: "sh_complete sh ! f" if "flight_awaited (pc_of u c) = Some f" for f
    using D(7) [of u f] D(6) [of f] that u none by (fastforce simp: c pc_of_def)
  have empty: "map_of (sh_in_flight sh) i = None" for i
    using D(4) [of i] none by (cases "map_of (sh_in_flight sh) i") (fastforce simp: c pc_of_def)+
  have awake: "pc_of u c \<noteq> Asleep f" for f
    using D(8) [of u f] complete [of f] u by (auto simp: c pc_of_def)
  have "\<exists>p sh'. reader_step E img (fst (fst c ! u)) (pc_of u c) (snd c) = Some (p, sh') \<and>
    (has_returned p \<or> flight_held p \<noteq> None \<or> seeker_rank p < seeker_rank (pc_of u c)) \<and> (\<forall>f. p \<noteq> Asleep f)"
    using pc awake none [OF u] complete empty
    by (cases "pc_of u c") (auto simp: c Let_def split: sum.splits prod.splits option.splits)
  then show thesis using that awake by blast
qed

lemma holder_or_returned:
  assumes fair: "fair_schedule (length (fst c)) sched" and inv: "flights_inv c" and u: "u < length (fst c)"
  shows "\<exists>j \<ge> k. (\<exists>v < length (fst c). flight_held (pc_of v (readers_after E img sched c j)) \<noteq> None) \<or>
    has_returned (pc_of u (readers_after E img sched c j))"
proof (induction "seeker_rank (pc_of u (readers_after E img sched c k))" arbitrary: k rule: less_induct)
  case less
  let ?c = "readers_after E img sched c"
  show ?case
  proof (cases "(\<exists>v < length (fst c). flight_held (pc_of v (?c k)) \<noteq> None) \<or> has_returned (pc_of u (?c k))")
    case True
    then show ?thesis by blast
  next
    case False
    then have none: "\<And>v. v < length (fst (?c k)) \<Longrightarrow> flight_held (pc_of v (?c k)) = None" and pc: "\<not> has_returned (pc_of u (?c k))" by auto
    have "pc_of u (?c k) \<noteq> Asleep f" for f
      using seeker_steps [OF flights_inv_after [OF inv] _ none pc] u by auto
    then obtain j where j: "k \<le> j" "fst (sched j) = u" "pc_of u (?c j) = pc_of u (?c k)"
      by (rule waits_for_turn [OF fair u refl])
    show ?thesis
    proof (cases "\<exists>v < length (fst c). flight_held (pc_of v (?c j)) \<noteq> None")
      case True
      with j(1) show ?thesis by blast
    next
      case False
      then have none: "\<And>v. v < length (fst (?c j)) \<Longrightarrow> flight_held (pc_of v (?c j)) = None" by auto
      have "u < length (fst (?c j))" "\<not> has_returned (pc_of u (?c j))" using u pc j(3) by simp_all
      then obtain p sh' where p: "reader_step E img (fst (fst (?c j) ! u)) (pc_of u (?c j)) (snd (?c j)) = Some (p, sh')"
        "has_returned p \<or> flight_held p \<noteq> None \<or> seeker_rank p < seeker_rank (pc_of u (?c j))" "\<And>f. p \<noteq> Asleep f"
        using seeker_steps [OF flights_inv_after [OF inv] _ none] by metis
      have next_pc: "pc_of u (?c (Suc j)) = p" using turn_pc_own [OF j(2) [symmetric] _ p(1,3)] u by simp
      consider "has_returned p \<or> flight_held p \<noteq> None" | "seeker_rank p < seeker_rank (pc_of u (?c k))" using p(2) j(3) by auto
      then show ?thesis
      proof cases
        case 1
        then show ?thesis using next_pc u j(1) by (intro exI [of _ "Suc j"]) auto
      next
        case 2
        then obtain j' where "j' \<ge> Suc j" "(\<exists>v < length (fst c). flight_held (pc_of v (?c j')) \<noteq> None) \<or> has_returned (pc_of u (?c j'))"
          using less.hyps [of "Suc j"] next_pc by auto
        with j(1) show ?thesis by (intro exI [of _ j']) auto
      qed
    qed
  qed
qed

lemma one_more_returns:
  assumes fair: "fair_schedule (length (fst c)) sched" and inv: "flights_inv c"
    and u: "u < length (fst c)" "\<not> has_returned (pc_of u (readers_after E img sched c k))"
  shows "\<exists>j \<ge> k. unreturned (readers_after E img sched c j) < unreturned (readers_after E img sched c k)"
proof -
  let ?c = "readers_after E img sched c"
  have "\<exists>j \<ge> k. \<exists>v < length (fst c). \<not> has_returned (pc_of v (?c k)) \<and> has_returned (pc_of v (?c j))"
  proof -
    obtain j where j: "k \<le> j" "(\<exists>v < length (fst c). flight_held (pc_of v (?c j)) \<noteq> None) \<or> has_returned (pc_of u (?c j))"
      using holder_or_returned [OF fair inv u(1)] by blast
    then show ?thesis
    proof (elim disjE exE conjE)
      fix v assume v: "v < length (fst c)" "flight_held (pc_of v (?c j)) \<noteq> None"
      then obtain j' where "j \<le> j'" "has_returned (pc_of v (?c j'))" using holder_returns [OF fair] by blast
      moreover have "\<not> has_returned (pc_of v (?c k))"
        using returned_after [OF v(1) _ j(1), where E = E and img = img and sched = sched] v(2) by (cases "pc_of v (?c j)") auto
      ultimately show ?thesis using v(1) j(1) le_trans by blast
    qed (use u in blast)
  qed
  then obtain j v where j: "k \<le> j" "v < length (fst c)" "\<not> has_returned (pc_of v (?c k))" "has_returned (pc_of v (?c j))" by blast
  have "{t. t < length (fst c) \<and> \<not> has_returned (pc_of t (?c j))} \<subset> {t. t < length (fst c) \<and> \<not> has_returned (pc_of t (?c k))}"
    using returned_after [OF _ _ j(1), where E = E and img = img and sched = sched] j(2-4) by blast
  then have "unreturned (?c j) < unreturned (?c k)"
    unfolding unreturned_def pc_of_def by (intro psubset_card_mono) simp_all
  with j(1) show ?thesis by blast
qed

lemma all_return:
  assumes fair: "fair_schedule (length (fst c)) sched" and inv: "flights_inv c"
  shows "\<exists>k. \<forall>u < length (fst c). has_returned (pc_of u (readers_after E img sched c k))"
proof -
  have "\<exists>j \<ge> k. \<forall>u < length (fst c). has_returned (pc_of u (readers_after E img sched c j))" for k
  proof (induction "unreturned (readers_after E img sched c k)" arbitrary: k rule: less_induct)
    case less
    show ?case
    proof (cases "\<exists>u < length (fst c). \<not> has_returned (pc_of u (readers_after E img sched c k))")
      case True
      then obtain j where j: "k \<le> j" "unreturned (readers_after E img sched c j) < unreturned (readers_after E img sched c k)"
        using one_more_returns [OF fair inv] by blast
      then show ?thesis using less [OF j(2)] le_trans by blast
    qed blast
  qed
  then show ?thesis by blast
qed

text \<open>The chunks the threads want do not change.\<close>

lemma chunks_wanted: "map fst (fst (readers_after E img sched c k)) = map fst (fst c)"
proof (induction k)
  case (Suc k)
  have "map fst (fst (reader_turn E img turn d)) = map fst (fst d)" for turn and d :: "('a, 'b) readers"
  proof (rule nth_equalityI)
    fix u assume "u < length (map fst (fst (reader_turn E img turn d)))"
    then have u: "u < length (fst d)" by (simp add: turn_length)
    obtain ts sh t b where d: "d = (ts, sh)" "turn = (t, b)" by (cases d; cases turn)
    obtain ts' sh' where r: "reader_turn E img (t, b) (ts, sh) = (ts', sh')" by fastforce
    have "fst (ts' ! u) = fst (ts ! u)" "length ts' = length ts"
      using turn_own [OF r] turn_other(1,2) [OF r, of u] u turn_length [of E img turn d]
      by (cases "u = t"; simp add: d r)+
    then show "map fst (fst (reader_turn E img turn d)) ! u = map fst (fst d) ! u" using u by (simp add: d r)
  qed (simp add: turn_length)
  then show ?case using Suc by simp
qed simp

lemma concurrent_reads_return:
  assumes fair: "fair_schedule (length ids) sched" and s: "image_inv E img pages chunks cap n z s"
  shows "\<exists>k. fst (readers_after E img sched (readers_start s ids) k)
    = map (\<lambda>i. (i, Returned (policy_chunk (en_decoders E) img (cap = 0) z i))) ids"
proof -
  let ?c0 = "readers_start s ids" and ?P = "policy_chunk (en_decoders E) img (cap = 0) z"
  have len: "length (fst ?c0) = length ids" by (simp add: readers_start_def)
  obtain k where k: "\<And>u. u < length ids \<Longrightarrow> has_returned (pc_of u (readers_after E img sched ?c0 k))"
    using all_return [of ?c0 sched E img] fair flights_inv_start [of s ids] by (auto simp: len)
  let ?ts = "fst (readers_after E img sched ?c0 k)"
  have l: "length ?ts = length ids" by (simp add: len)
  have "results_inv E img pages chunks cap n z ?c0" using s by (auto simp: results_inv_def readers_start_def)
  then have res: "carries ?P th" if "th \<in> set ?ts" for th
    using results_after [of E img pages chunks cap n z ?c0 sched k] that by (auto simp: results_inv_def split: prod.splits)
  have "?ts = map (\<lambda>i. (i, Returned (?P i))) ids"
  proof (rule nth_equalityI)
    fix u assume "u < length ?ts"
    then have u: "u < length ids" using l by simp
    have "map fst ?ts = ids" unfolding chunks_wanted by (simp add: readers_start_def comp_def)
    then have id: "fst (?ts ! u) = ids ! u" using u by (metis l nth_map)
    have "carries ?P (?ts ! u)" using res u l by simp
    moreover obtain r where "snd (?ts ! u) = Returned r" using k [OF u] by (cases "snd (?ts ! u)") (auto simp: pc_of_def)
    ultimately show "?ts ! u = map (\<lambda>i. (i, Returned (?P i))) ids ! u"
      using id u by (cases "?ts ! u") simp
  qed (simp add: len)
  then show ?thesis by blast
qed

text \<open>At any moment at most one thread decodes, stores or publishes a given chunk.\<close>

lemma one_flight_per_chunk:
  assumes "flights_inv c" "t < length (fst c)" "u < length (fst c)" "t \<noteq> u"
    "flight_held (pc_of t c) \<noteq> None" "flight_held (pc_of u c) \<noteq> None"
  shows "fst (fst c ! t) \<noteq> fst (fst c ! u)"
proof
  assume same: "fst (fst c ! t) = fst (fst c ! u)"
  obtain ts sh where c: "c = (ts, sh)" by (cases c)
  obtain f g where "flight_held (snd (ts ! t)) = Some f" "flight_held (snd (ts ! u)) = Some g" using assms(5,6) by (auto simp: c pc_of_def)
  moreover from this have "f = g" using flights_invD(1) [OF assms(1) [unfolded c], of t f] flights_invD(1) [OF assms(1) [unfolded c], of u g] assms(2,3) same by (simp add: c)
  ultimately show False using flights_invD(5) [OF assms(1) [unfolded c], of t u f] assms(2-4) by (simp add: c)
qed

end
