(* ===== verification/Encryption.thy ===== *)
theory Encryption
  imports Ewf1_Format Stored_Hashes
begin

text \<open>
  X-Ways encryption (\<open>src/encryption.rs\<close> and \<open>read_xways_encryption\<close> in
  \<open>src/format/ewf1.rs\<close>): finding and parsing the encryption section, the password check,
  the keys, and the keystream of a chunk. SHA-256 and the two counter modes of AES are
  parameters: the crate \<open>ctr\<close> is the byte of the keystream at a position, for a key and
  an initial counter block. The lemmas: a keystream applied twice changes nothing, a
  password is accepted exactly when its verifier matches, and with 64-bit counters a range
  decrypts alike in one or in two pieces.
\<close>

section \<open>The encryption section\<close>

datatype encryption_method = XWaysAes128Ctr | XWaysAes256Ctr

record xways_encryption_metadata =
  xw_method :: encryption_method
  xw_flags :: u16
  xw_salt :: bytes
  xw_initial_counter :: bytes
  xw_password_verifier :: "bytes option"

record encryption_info =
  ei_method :: encryption_method
  ei_password_verifier_present :: bool

definition encryption_info_from_xways :: "xways_encryption_metadata \<Rightarrow> encryption_info" where
  "encryption_info_from_xways md =
     \<lparr>ei_method = xw_method md, ei_password_verifier_present = (xw_password_verifier md \<noteq> None)\<rparr>"

abbreviation (input) XWAYS_ENCRYPTION_DATA_SIZE :: nat where "XWAYS_ENCRYPTION_DATA_SIZE \<equiv> 84"

text \<open>\<open>{:04x}\<close> of a 16-bit number.\<close>

definition hex4 :: "u16 \<Rightarrow> string" where
  "hex4 v = hex_string [ucast (drop_bit 8 v), ucast v]"

definition xways_size_error :: "nat \<Rightarrow> ewf_error" where
  "xways_size_error n = Malformed (''X-Ways EWF1 encryption section has size '' @ dec n @ '', expected '' @ dec 84)"

definition xways_encryption_parse :: "bytes \<Rightarrow> xways_encryption_metadata result" where
  "xways_encryption_parse data =
     (if length data \<noteq> XWAYS_ENCRYPTION_DATA_SIZE then Inl (xways_size_error (length data))
      else let raw_method = u16_at data 0; flags = u16_at data 2 in
        if 3 \<le> raw_method
        then Inl (Malformed (''invalid X-Ways EWF1 encryption method '' @ dec (unat raw_method)))
        else if 8 \<le> flags AND 0x0fff
        then Inl (Malformed (''invalid X-Ways EWF1 encryption flags 0x'' @ hex4 flags))
        else if raw_method = 0 \<and> flags AND 1 = 0 \<or> raw_method = 1 \<and> flags AND 1 \<noteq> 0
        then Inl (Malformed (''X-Ways EWF1 encryption method '' @ dec (unat raw_method) @ '' conflicts with flags 0x'' @ hex4 flags))
        else try_bind (if raw_method = 0 then Inr XWaysAes128Ctr
            else if raw_method = 1 then Inr XWaysAes256Ctr
            else Inl (Unsupported ''X-Ways EWF1 encryption method 2'')) (\<lambda>method.
          Inr \<lparr>xw_method = method, xw_flags = flags, xw_salt = slice data 4 36,
            xw_initial_counter = slice data 36 52,
            xw_password_verifier = (if flags AND 2 = 0 then Some (slice data 52 84) else None)\<rparr>))"

text \<open>
  The walk over the sections; \<open>n\<close> counts the rounds left. After the descriptor the file
  is positioned at the data of its section.
\<close>

fun find_xways_section :: "bytes \<Rightarrow> nat \<Rightarrow> u64 \<Rightarrow> xways_encryption_metadata option result" where
  "find_xways_section seg 0 offset = Inl (Malformed ''X-Ways EWF1 section chain is too long'')"
| "find_xways_section seg (Suc n) offset =
     (let file_len = word_of_nat (length seg) in
      try_bind (ok_or (checked_add offset 76) (Malformed ''EWF1 section descriptor overflow'')) (\<lambda>descriptor_end.
      if file_len < descriptor_end then Inl (Malformed ''X-Ways EWF1 section descriptor exceeds file'')
      else
      try_bind (read_exact seg (unat offset) SECTION_DESCRIPTOR_SIZE) (\<lambda>buf.
      try_bind (ewf1_section_descriptor_parse buf offset) (\<lambda>descriptor.
      try_bind (ewf1_data_size descriptor) (\<lambda>data_size.
      try_bind (ok_or (checked_add descriptor_end data_size) (Malformed ''X-Ways EWF1 section overflow'')) (\<lambda>section_end.
      if file_len < section_end then Inl (Malformed ''X-Ways EWF1 section exceeds file'')
      else if sd_section_type descriptor = ''x_encryption'' then
        (if unat data_size \<noteq> XWAYS_ENCRYPTION_DATA_SIZE then Inl (xways_size_error (unat data_size))
         else try_bind (read_exact seg (unat descriptor_end) XWAYS_ENCRYPTION_DATA_SIZE) (\<lambda>data.
           try_bind (xways_encryption_parse data) (\<lambda>md. Inr (Some md))))
      else if sd_section_type descriptor \<in> {''done'', ''next''}
      then Inl (Malformed ''X-Ways EWF1 encrypted marker has no encryption section'')
      else if sd_next descriptor < section_end \<or> sd_next descriptor \<le> offset
      then Inl (Malformed ''X-Ways EWF1 section chain does not advance'')
      else find_xways_section seg n (sd_next descriptor)))))))"

definition read_xways_encryption :: "bytes \<Rightarrow> xways_encryption_metadata option result" where
  "read_xways_encryption seg =
     (if length seg < FILE_HEADER_SIZE then Inr None
      else
      try_bind (read_exact seg 0 FILE_HEADER_SIZE) (\<lambda>raw.
      if slice raw 0 8 \<noteq> EVF_SIGNATURE \<and> slice raw 0 8 \<noteq> LVF_SIGNATURE then Inr None
      else
      try_bind (ewf1_file_header_parse raw) (\<lambda>header.
      if eh_format_marker header \<notin> {XWAYS_ENCRYPTED_ZLIB_MARKER, XWAYS_ENCRYPTED_ZSTD_MARKER} then Inr None
      else find_xways_section seg ((length seg - FILE_HEADER_SIZE) div SECTION_DESCRIPTOR_SIZE + 1)
        (word_of_nat FILE_HEADER_SIZE))))"

definition probe_xways_encryption :: "bytes \<Rightarrow> bool result" where
  "probe_xways_encryption seg = try_bind (read_xways_encryption seg) (\<lambda>md. Inr (md \<noteq> None))"

section \<open>Keys and passwords\<close>

text \<open>What the crates \<open>sha2\<close>, \<open>aes\<close> and \<open>ctr\<close> compute.\<close>

record ciphers =
  ci_sha256 :: "bytes \<Rightarrow> bytes"
  ci_aes128_ctr128be :: "bytes \<Rightarrow> bytes \<Rightarrow> nat \<Rightarrow> u8"
  ci_aes256_ctr64le :: "bytes \<Rightarrow> bytes \<Rightarrow> nat \<Rightarrow> u8"

datatype derived_key = Aes128Key bytes | Aes256Key bytes

record encryption_context =
  ex_method :: encryption_method
  ex_key :: derived_key
  ex_initial_counter :: bytes

definition xways_password_bytes :: "encryption_method \<Rightarrow> bytes \<Rightarrow> bytes result" where
  "xways_password_bytes method password =
     (let maximum_length = (case method of XWaysAes128Ctr \<Rightarrow> 16 | XWaysAes256Ctr \<Rightarrow> 32) in
      if maximum_length < length password then Inl PasswordRejected
      else Inr (splice (replicate 32 0) 0 password))"

definition derive_aes256_key :: "ciphers \<Rightarrow> bytes \<Rightarrow> bytes \<Rightarrow> bytes" where
  "derive_aes256_key C password salt = ci_sha256 C (password @ salt)"

definition derive_aes128_key :: "ciphers \<Rightarrow> bytes \<Rightarrow> bytes \<Rightarrow> bytes" where
  "derive_aes128_key C password salt =
     (let key = derive_aes256_key C password salt in map2 (XOR) (take 16 key) (drop 16 key))"

text \<open>The rounds of the verifier, from the digest of the previous round.\<close>

fun verifier_rounds :: "ciphers \<Rightarrow> bytes \<Rightarrow> nat \<Rightarrow> bytes \<Rightarrow> bytes \<times> bytes" where
  "verifier_rounds C password 0 previous = (previous, replicate 32 0)"
| "verifier_rounds C password (Suc n) previous =
     (let current = ci_sha256 C (password @ previous) in
      if n = 0 then (previous, current) else verifier_rounds C password n current)"

definition xways_password_verifier :: "ciphers \<Rightarrow> encryption_method \<Rightarrow> bytes \<Rightarrow> bytes \<Rightarrow> bytes" where
  "xways_password_verifier C method password salt =
     (let rounds = (case method of XWaysAes128Ctr \<Rightarrow> 100000 | XWaysAes256Ctr \<Rightarrow> 1);
          (previous, current) = verifier_rounds C password rounds (ci_sha256 C password) in
      ci_sha256 C (salt @ previous @ current))"

definition encryption_context_derive ::
    "ciphers \<Rightarrow> xways_encryption_metadata \<Rightarrow> bytes \<Rightarrow> encryption_context result" where
  "encryption_context_derive C md password =
     try_bind (xways_password_bytes (xw_method md) password) (\<lambda>password.
     if (case xw_password_verifier md of None \<Rightarrow> False
         | Some expected \<Rightarrow> xways_password_verifier C (xw_method md) password (xw_salt md) \<noteq> expected)
     then Inl PasswordRejected
     else Inr \<lparr>ex_method = xw_method md,
       ex_key = (case xw_method md of
          XWaysAes128Ctr \<Rightarrow> Aes128Key (derive_aes128_key C password (xw_salt md))
        | XWaysAes256Ctr \<Rightarrow> Aes256Key (derive_aes256_key C password (xw_salt md))),
       ex_initial_counter = xw_initial_counter md\<rparr>)"

section \<open>The keystream\<close>

definition counter_overflow :: ewf_error where
  "counter_overflow = Malformed ''X-Ways AES counter overflow''"

definition counter_at_chunk_offset :: "bytes \<Rightarrow> u64 \<Rightarrow> bytes result" where
  "counter_at_chunk_offset initial_counter block_index =
     try_bind (ok_or (checked_add (u64_at initial_counter 0) block_index) counter_overflow) (\<lambda>prefix.
     Inr (splice initial_counter 0 (le64 prefix)))"

text \<open>\<open>u128::from_be_bytes\<close>, as a natural number.\<close>

definition be_nat :: "bytes \<Rightarrow> nat" where
  "be_nat bs = le_nat (rev bs)"

definition xor_keystream :: "(nat \<Rightarrow> u8) \<Rightarrow> bytes \<Rightarrow> bytes" where
  "xor_keystream k bs = map (\<lambda>(i, b). b XOR k i) (enumerate 0 bs)"

definition apply_keystream :: "ciphers \<Rightarrow> encryption_context \<Rightarrow> u64 \<Rightarrow> bytes \<Rightarrow> bytes result" where
  "apply_keystream C ctx stream_offset bs =
     (if bs = [] then Inr bs
      else if stream_offset mod 16 \<noteq> 0
      then Inl (Malformed ''X-Ways AES chunk offset is not block aligned'')
      else
        let block_index = stream_offset div 16;
            final_block_delta = (length bs - 1) div 16 in
        try_bind (counter_at_chunk_offset (ex_initial_counter ctx) block_index) (\<lambda>counter.
        case ex_key ctx of
          Aes128Key key \<Rightarrow>
            if be_nat counter + final_block_delta < 2 ^ 128
            then Inr (xor_keystream (ci_aes128_ctr128be C key counter) bs) else Inl counter_overflow
        | Aes256Key key \<Rightarrow>
            if unat (u64_at counter 0) + final_block_delta < 2 ^ 64
            then Inr (xor_keystream (ci_aes256_ctr64le C key counter) bs) else Inl counter_overflow))"

section \<open>Decryption undoes encryption\<close>

lemma length_xor_keystream [simp]: "length (xor_keystream k bs) = length bs"
  by (simp add: xor_keystream_def)

lemma nth_xor_keystream: "i < length bs \<Longrightarrow> xor_keystream k bs ! i = bs ! i XOR k i"
  by (simp add: xor_keystream_def nth_enumerate_eq)

lemma xor_keystream_twice [simp]: "xor_keystream k (xor_keystream k bs) = bs"
  by (rule nth_equalityI) (simp_all add: nth_xor_keystream xor.assoc)

lemma xor_keystream_Nil [simp]: "xor_keystream k bs = [] \<longleftrightarrow> bs = []"
  by (metis length_0_conv length_xor_keystream)

lemma apply_keystream_shape:
  assumes "apply_keystream C ctx off bs = Inr cs"
  obtains k where "cs = xor_keystream k bs"
    "\<And>ds. length ds = length bs \<Longrightarrow> apply_keystream C ctx off ds = Inr (xor_keystream k ds)"
proof (cases "bs = []")
  case True
  then show ?thesis using assms that [of "\<lambda>_. 0"] by (simp add: apply_keystream_def xor_keystream_def)
next
  case bs: False
  then have off: "off mod 16 = 0" using assms by (auto simp: apply_keystream_def split: if_splits)
  then obtain c where c: "counter_at_chunk_offset (ex_initial_counter ctx) (off div 16) = Inr c"
    using assms bs by (cases "counter_at_chunk_offset (ex_initial_counter ctx) (off div 16)")
      (simp_all add: apply_keystream_def)
  have ne: "ds \<noteq> []" if "length ds = length bs" for ds :: bytes using that bs by auto
  show ?thesis
  proof (cases "ex_key ctx")
    case (Aes128Key key)
    then show ?thesis using assms bs off c ne
      by (intro that [of "ci_aes128_ctr128be C key c"]) (simp_all add: apply_keystream_def Let_def split: if_splits)
  next
    case (Aes256Key key)
    then show ?thesis using assms bs off c ne
      by (intro that [of "ci_aes256_ctr64le C key c"]) (simp_all add: apply_keystream_def Let_def split: if_splits)
  qed
qed

lemma apply_keystream_twice:
  assumes "apply_keystream C ctx off bs = Inr cs"
  shows "length cs = length bs \<and> apply_keystream C ctx off cs = Inr bs"
  using apply_keystream_shape [OF assms] by (metis length_xor_keystream xor_keystream_twice)

lemma derive_accepts_iff:
  "is_ok (encryption_context_derive C md password) \<longleftrightarrow>
     length password \<le> (case xw_method md of XWaysAes128Ctr \<Rightarrow> 16 | XWaysAes256Ctr \<Rightarrow> 32) \<and>
     (\<forall>expected. xw_password_verifier md = Some expected \<longrightarrow>
        xways_password_verifier C (xw_method md) (splice (replicate 32 0) 0 password) (xw_salt md) = expected)"
proof -
  define V where "V = xways_password_verifier C (xw_method md) (splice (replicate 32 0) 0 password) (xw_salt md)"
  define m :: nat where "m = (case xw_method md of XWaysAes128Ctr \<Rightarrow> 16 | XWaysAes256Ctr \<Rightarrow> 32)"
  show ?thesis
    unfolding encryption_context_derive_def xways_password_bytes_def Let_def m_def [symmetric]
    by (cases "m < length password"; cases "xw_password_verifier md") (simp_all flip: V_def)
qed

lemma derive_rejects:
  "\<not> is_ok (encryption_context_derive C md password) \<Longrightarrow> encryption_context_derive C md password = Inl PasswordRejected"
proof -
  define V where "V = (\<lambda>p. xways_password_verifier C (xw_method md) p (xw_salt md))"
  show "\<not> is_ok (encryption_context_derive C md password) \<Longrightarrow> ?thesis"
    unfolding encryption_context_derive_def xways_password_bytes_def V_def [symmetric, THEN fun_cong] Let_def
    by (auto simp: is_ok_iff try_bind_def simp flip: V_def [THEN fun_cong] split: if_splits option.splits)
qed

section \<open>Random access\<close>

text \<open>
  The law of the crate \<open>ctr\<close> for \<open>Ctr64LE\<close>: the block \<open>n\<close> after a counter is the
  first block of the counter advanced by \<open>n\<close>, as long as the 64-bit counter does not wrap.
\<close>

definition ctr64le_lawful :: "ciphers \<Rightarrow> bool" where
  "ctr64le_lawful C \<longleftrightarrow> (\<forall>key counter n i. length counter = 16 \<longrightarrow> unat (u64_at counter 0) + n < 2 ^ 64 \<longrightarrow>
     ci_aes256_ctr64le C key counter (16 * n + i) =
     ci_aes256_ctr64le C key (splice counter 0 (le64 (u64_at counter 0 + word_of_nat n))) i)"

lemma u64_at_splice: "length c = 16 \<Longrightarrow> u64_at (splice c 0 (le64 v)) 0 = v"
proof -
  assume "length c = 16"
  then have "slice (splice c 0 (le64 v)) 0 (0 + 8) = le64 v" using slice_splice_same [of 0 "le64 v" c] by simp
  then show ?thesis by simp
qed

lemma from_le_slice_splice: "length c = 16 \<Longrightarrow> from_le (slice (splice c 0 (le64 v)) 0 8) = v" for v :: u64
  using u64_at_splice [of c v] by simp

lemma splice_twice: "length c = 16 \<Longrightarrow> splice (splice c 0 (le64 v)) 0 (le64 w) = splice c 0 (le64 w)"
  by (simp add: splice_def)

lemma xor_keystream_append:
  "xor_keystream k (a @ b) = xor_keystream k a @ xor_keystream (\<lambda>i. k (length a + i)) b"
  by (rule nth_equalityI) (auto simp: nth_xor_keystream nth_append)

lemma apply_keystream_pieces:
  assumes law: "ctr64le_lawful C" and key: "ex_key ctx = Aes256Key key" "length (ex_initial_counter ctx) = 16"
    and a: "length a = 16 * n" "unat off + length a < 2 ^ 64" and ok: "apply_keystream C ctx off (a @ b) = Inr cs"
  shows "apply_keystream C ctx off a = Inr (take (length a) cs)"
    and "apply_keystream C ctx (off + word_of_nat (length a)) b = Inr (drop (length a) cs)"
proof -
  have *: "apply_keystream C ctx off a = Inr (take (length a) cs) \<and>
    apply_keystream C ctx (off + word_of_nat (length a)) b = Inr (drop (length a) cs)"
  proof (cases "a = [] \<or> b = []")
    case True
    then show ?thesis
    proof
      assume "b = []"
      moreover have "length cs = length (a @ b)" using apply_keystream_twice [OF ok] by simp
      ultimately show ?thesis using ok by (simp add: apply_keystream_def)
    qed (use ok in \<open>simp add: apply_keystream_def\<close>)
  next
    case False
    then have n: "0 < n" "0 < length b" using a(1) by (cases n; auto)+
    have off: "off mod 16 = 0" using ok False by (auto simp: apply_keystream_def split: if_splits)
    obtain c where c: "counter_at_chunk_offset (ex_initial_counter ctx) (off div 16) = Inr c"
      using ok off False by (cases "counter_at_chunk_offset (ex_initial_counter ctx) (off div 16)")
        (auto simp: apply_keystream_def Let_def)
    let ?p = "u64_at (ex_initial_counter ctx) 0"
    have p: "unat ?p + unat (off div 16) < 2 ^ 64" "c = splice (ex_initial_counter ctx) 0 (le64 (?p + off div 16))"
      using c by (auto simp: counter_at_chunk_offset_def checked_add_def ok_or_def split: if_splits)
    have cp: "u64_at c 0 = ?p + off div 16" "length c = 16" using u64_at_splice [OF key(2)] key(2) by (simp_all add: p(2))
    have wrap: "unat (u64_at c 0) + (length (a @ b) - 1) div 16 < 2 ^ 64"
      and cs: "cs = xor_keystream (ci_aes256_ctr64le C key c) (a @ b)"
      using ok off False c key(1) by (auto simp: apply_keystream_def Let_def split: if_splits)
    have d: "(length (a @ b) - 1) div 16 = n + (length b - 1) div 16"
    proof -
      have "length (a @ b) - 1 = 16 * n + (length b - 1)" using n a(1) by (cases b) simp_all
      then show ?thesis by simp
    qed
    have da: "(length a - 1) div 16 < n" using n a(1) by (simp add: less_mult_imp_div_less)
    have first: "apply_keystream C ctx off a = Inr (xor_keystream (ci_aes256_ctr64le C key c) a)"
      using False off c key(1) wrap d da by (simp add: apply_keystream_def Let_def)
    have noff: "unat (off + word_of_nat (length a)) = unat off + 16 * n"
    proof -
      have "unat (word_of_nat (length a) :: u64) = length a" using a(2) by (simp add: unsigned_of_nat take_bit_nat_eq_self)
      then show ?thesis using a by (simp add: unat_add_less)
    qed
    have dv: "unat ((off + word_of_nat (length a)) div 16) = unat (off div 16) + n"
      by (simp add: unat_div noff)
    have md: "(off + word_of_nat (length a)) mod 16 = 0"
    proof -
      have "unat (off mod 16) = 0" using off by simp
      then have "unat off mod 16 = 0" by (simp add: unat_mod)
      then have "unat ((off + word_of_nat (length a)) mod 16) = 0" by (simp add: unat_mod noff)
      then show ?thesis by (simp add: unat_eq_zero)
    qed
    have dw: "(off + word_of_nat (length a)) div 16 = off div 16 + word_of_nat n"
    proof -
      have "(off + word_of_nat (length a)) div 16 = word_of_nat (unat (off div 16) + n)" by (simp flip: dv)
      then show ?thesis by simp
    qed
    have cpn: "unat (u64_at c 0) = unat ?p + unat (off div 16)" unfolding cp(1) using p(1) by (intro unat_add_less) simp
    have second: "counter_at_chunk_offset (ex_initial_counter ctx) ((off + word_of_nat (length a)) div 16) =
        Inr (splice c 0 (le64 (u64_at c 0 + word_of_nat n)))"
      using wrap d cpn key(2) by (simp add: counter_at_chunk_offset_def checked_add_def ok_or_def dv)
        (simp add: dw p(2) splice_twice from_le_slice_splice add.assoc)
    have "unat (u64_at c 0) + n < 2 ^ 64" using wrap d by simp
    then have streams: "ci_aes256_ctr64le C key c (length a + i) =
        ci_aes256_ctr64le C key (splice c 0 (le64 (u64_at c 0 + word_of_nat n))) i" for i
      using law cp(2) unfolding ctr64le_lawful_def a(1) by blast
    have un: "unat (u64_at c 0 + word_of_nat n) = unat (u64_at c 0) + n"
    proof -
      have nn: "unat (word_of_nat n :: u64) = n" using wrap d by (simp add: unsigned_of_nat take_bit_nat_eq_self)
      then show ?thesis using wrap d by (simp add: unat_add_less)
    qed
    have "apply_keystream C ctx (off + word_of_nat (length a)) b =
        Inr (xor_keystream (ci_aes256_ctr64le C key (splice c 0 (le64 (u64_at c 0 + word_of_nat n)))) b)"
      using False md second key(1) wrap d un cp(2) by (simp add: apply_keystream_def Let_def from_le_slice_splice)
    then show ?thesis using first by (simp add: cs xor_keystream_append streams)
  qed
  then show "apply_keystream C ctx off a = Inr (take (length a) cs)"
    and "apply_keystream C ctx (off + word_of_nat (length a)) b = Inr (drop (length a) cs)" by simp_all
qed

end
