(* ===== verification/Segment_Names.thy ===== *)
theory Segment_Names
  imports Rust_Lines Ewf2_Format "HOL-Library.List_Lexorder" "HOL-Library.Product_Lexorder" "HOL-Library.Char_ord"
begin

text \<open>
  The names of the segment files of an image: the extensions the writer gives them
  (\<open>segment_path\<close> and its helpers in \<open>src/writer.rs\<close>) and how the reader finds them again
  in their directory (\<open>src/segment.rs\<close>). A directory is the list of its entries with what
  opening and reading an entry yields.
\<close>

section \<open>File names\<close>

text \<open>\<open>Path::file_stem\<close>, \<open>Path::extension\<close> and \<open>Path::with_extension\<close>, on the name of the file.\<close>

definition split_last_dot :: "string \<Rightarrow> (string \<times> string) option" where
  "split_last_dot name =
     (if CHR ''.'' \<in> set name
      then Some (rev (tl (dropWhile (\<lambda>c. c \<noteq> CHR ''.'') (rev name))), rev (takeWhile (\<lambda>c. c \<noteq> CHR ''.'') (rev name)))
      else None)"

definition file_stem :: "string \<Rightarrow> string" where
  "file_stem name = (case split_last_dot name of None \<Rightarrow> name | Some (b, _) \<Rightarrow> if b = [] then name else b)"

definition extension :: "string \<Rightarrow> string option" where
  "extension name = (case split_last_dot name of None \<Rightarrow> None | Some (b, a) \<Rightarrow> if b = [] then None else Some a)"

definition with_extension :: "string \<Rightarrow> string \<Rightarrow> string" where
  "with_extension name ext = file_stem name @ (if ext = [] then [] else CHR ''.'' # ext)"

text \<open>\<open>OsStr::to_str\<close>.\<close>

definition to_str :: "string \<Rightarrow> string option" where
  "to_str s = (if utf8_string s then Some s else None)"

text \<open>The ASCII operations of \<open>char\<close>, and of \<open>str\<close>.\<close>

definition char_upper :: "nat \<Rightarrow> nat" where
  "char_upper c = (if 97 \<le> c \<and> c \<le> 122 then c - 32 else c)"

definition char_digit :: "nat \<Rightarrow> bool" where
  "char_digit c \<longleftrightarrow> 48 \<le> c \<and> c \<le> 57"

definition char_alphabetic :: "nat \<Rightarrow> bool" where
  "char_alphabetic c \<longleftrightarrow> 65 \<le> c \<and> c \<le> 90 \<or> 97 \<le> c \<and> c \<le> 122"

definition uppercase :: "string \<Rightarrow> string" where
  "uppercase s = map (\<lambda>c. char_of (char_upper (code c))) s"

section \<open>The names the writer gives\<close>

definition extension_prefix :: "string option \<Rightarrow> nat" where
  "extension_prefix ext =
     char_upper (case Option.bind ext to_str of None \<Rightarrow> 69 | Some s \<Rightarrow> (case chars_of s of [] \<Rightarrow> 69 | c # _ \<Rightarrow> c))"

definition char_from_u32 :: "u32 \<Rightarrow> nat option" where
  "char_from_u32 w = (if scalar (unat w) then Some (unat w) else None)"

definition v1_segment_extension :: "string option \<Rightarrow> nat \<Rightarrow> string result" where
  "v1_segment_extension first_extension n =
     (let prefix = extension_prefix first_extension in
      if n \<le> 99 then Inr (string_of_chars [prefix] @ dec_pad 2 n)
      else let alpha_index = n - 100; prefix_offset = alpha_index div (26 * 26);
          overflow = Unsupported ''EWF1 writer segment extension prefix overflow'' in
        try_bind (ok_or (checked_add (word_of_nat prefix :: u32) (word_of_nat prefix_offset)) overflow) (\<lambda>w.
        try_bind (ok_or (char_from_u32 w) overflow) (\<lambda>prefix.
        if \<not> (65 \<le> prefix \<and> prefix \<le> 90)
        then Inl (Unsupported ''EWF1 writer segment count exceeds supported extensions'')
        else let suffix = alpha_index mod (26 * 26) in
          Inr (string_of_chars [prefix, 65 + suffix div 26, 65 + suffix mod 26]))))"

definition v2_segment_extension :: "string option \<Rightarrow> nat \<Rightarrow> string result" where
  "v2_segment_extension first_extension n =
     (let prefix = extension_prefix first_extension in
      if n \<le> 99 then Inr (string_of_chars [prefix, 120] @ dec_pad 2 n)
      else let alpha_index = n - 100; infix_offset = alpha_index div (26 * 26) in
        try_bind (ok_or (checked_add (120 :: u32) (word_of_nat infix_offset)) (Panic ''attempt to add with overflow'')) (\<lambda>w.
        try_bind (ok_or (char_from_u32 w) (Unsupported ''EWF2 writer segment extension overflow'')) (\<lambda>infix_char.
        if \<not> (120 \<le> infix_char \<and> infix_char \<le> 122)
        then Inl (Unsupported ''EWF2 writer segment count exceeds supported extensions'')
        else let suffix = alpha_index mod (26 * 26) in
          Inr (string_of_chars [prefix, infix_char, 65 + suffix div 26, 65 + suffix mod 26]))))"

definition segment_path :: "string \<Rightarrow> nat \<Rightarrow> string result" where
  "segment_path first n =
     (if n = 1 then Inr first
      else try_bind (v1_segment_extension (extension first) n) (\<lambda>ext. Inr (with_extension first ext)))"

definition ewf2_segment_path :: "string \<Rightarrow> nat \<Rightarrow> string result" where
  "ewf2_segment_path first n =
     (if n = 1 then Inr first
      else try_bind (v2_segment_extension (extension first) n) (\<lambda>ext. Inr (with_extension first ext)))"

section \<open>Finding the segments of an image\<close>

definition segment_suffix_matches :: "nat list \<Rightarrow> bool" where
  "segment_suffix_matches cs \<longleftrightarrow> length cs = 2 \<and> (list_all char_digit cs \<or> list_all char_alphabetic cs)"

definition v2_segment_extension_matches :: "nat list \<Rightarrow> nat \<Rightarrow> bool" where
  "v2_segment_extension_matches cs first_prefix \<longleftrightarrow>
     char_upper (cs ! 0) = char_upper first_prefix \<and>
     (let c = char_upper (cs ! 1) in
      if c = 88 then segment_suffix_matches (drop 2 cs)
      else if c = 89 \<or> c = 90 then list_all char_alphabetic (drop 2 cs)
      else False)"

definition v1_segment_extension_matches :: "nat list \<Rightarrow> nat \<Rightarrow> bool" where
  "v1_segment_extension_matches cs first_prefix \<longleftrightarrow>
     (let candidate_prefix = char_upper (cs ! 0); first_prefix = char_upper first_prefix in
      if candidate_prefix = first_prefix then segment_suffix_matches (drop 1 cs)
      else 65 \<le> first_prefix \<and> first_prefix \<le> 90 \<and> first_prefix < candidate_prefix \<and> candidate_prefix \<le> 90 \<and>
        list_all char_alphabetic (drop 1 cs))"

definition is_segment_extension :: "string \<Rightarrow> nat \<Rightarrow> bool \<Rightarrow> bool" where
  "is_segment_extension ext prefix is_v2 =
     (let cs = chars_of ext in
      if is_v2 then length cs = 4 \<and> v2_segment_extension_matches cs prefix
      else length cs = 3 \<and> v1_segment_extension_matches cs prefix)"

definition expected_segment_signature :: "nat \<Rightarrow> bool \<Rightarrow> bytes" where
  "expected_segment_signature prefix is_v2 =
     (if is_v2 then if char_upper prefix = 76 then LEF2_SIGNATURE else EX01_SIGNATURE
      else if char_upper prefix = 76 then LVF_SIGNATURE else EVF_SIGNATURE)"

type_synonym directory = "(string \<times> bytes result) list"

definition is_discoverable_segment :: "string option \<Rightarrow> string \<times> bytes result \<Rightarrow> bytes \<Rightarrow> bool result" where
  "is_discoverable_segment requested_name entry expected_signature =
     (if Some (fst entry) = requested_name then Inr True
      else try_bind (snd entry) (\<lambda>content.
        if length content < 8 then Inl (Io UnexpectedEof ''failed to fill whole buffer'')
        else Inr (take 8 content = expected_signature)))"

definition extension_key :: "string \<Rightarrow> string" where
  "extension_key name = uppercase (case Option.bind (extension name) to_str of None \<Rightarrow> [] | Some e \<Rightarrow> e)"

definition discover_entry :: "string option \<Rightarrow> string \<Rightarrow> nat \<Rightarrow> bool \<Rightarrow> string list \<Rightarrow> string \<times> bytes result \<Rightarrow> string list result" where
  "discover_entry first stem prefix is_v2 segments entry =
     (if to_str (file_stem (fst entry)) \<noteq> Some stem then Inr segments
      else case Option.bind (extension (fst entry)) to_str of
        None \<Rightarrow> Inr segments
      | Some ext \<Rightarrow>
          if \<not> is_segment_extension ext prefix is_v2 then Inr segments
          else try_bind (is_discoverable_segment first entry (expected_segment_signature prefix is_v2)) (\<lambda>found.
            Inr (if found then segments @ [fst entry] else segments)))"

text \<open>\<open>first\<close> is the file name of the path asked for, \<open>shown\<close> its text in errors.\<close>

definition discover_segments :: "string option \<Rightarrow> string \<Rightarrow> directory result \<Rightarrow> string list result" where
  "discover_segments first shown entries =
     (case Option.bind first (\<lambda>name. to_str (file_stem name)) of
        None \<Rightarrow> Inl (NoSegments shown)
      | Some stem \<Rightarrow>
          let ext = (case Option.bind (Option.bind first extension) to_str of None \<Rightarrow> ''E01'' | Some e \<Rightarrow> e) in
          case chars_of ext of
            [] \<Rightarrow> Inl (NoSegments shown)
          | c # _ \<Rightarrow>
              let prefix = char_upper c; is_v2 = (length (chars_of ext) = 4) in
              try_bind entries (\<lambda>entries.
              try_bind (try_fold (discover_entry first stem prefix is_v2) [] entries) (\<lambda>segments.
              if segments = [] then Inl (NoSegments shown)
              else Inr (sort_key (\<lambda>name. (extension_key name, name)) segments))))"

section \<open>Names and extensions\<close>

lemma split_last_dot_append: "CHR ''.'' \<notin> set e \<Longrightarrow> split_last_dot (s @ CHR ''.'' # e) = Some (s, e)"
proof -
  assume e: "CHR ''.'' \<notin> set e"
  then have "takeWhile (\<lambda>c. c \<noteq> CHR ''.'') (rev e @ CHR ''.'' # rev s) = rev e"
    "dropWhile (\<lambda>c. c \<noteq> CHR ''.'') (rev e @ CHR ''.'' # rev s) = CHR ''.'' # rev s"
    by (subst takeWhile_append2 dropWhile_append2; auto)+
  then show ?thesis by (simp add: split_last_dot_def)
qed

lemma name_parts:
  assumes "s \<noteq> []" "CHR ''.'' \<notin> set e"
  shows "file_stem (s @ CHR ''.'' # e) = s" "extension (s @ CHR ''.'' # e) = Some e"
    "e' \<noteq> [] \<Longrightarrow> with_extension (s @ CHR ''.'' # e) e' = s @ CHR ''.'' # e'"
  using assms by (simp_all add: file_stem_def extension_def with_extension_def split_last_dot_append)

lemma char_upper_idem [simp]: "char_upper (char_upper c) = char_upper c"
  by (auto simp: char_upper_def)

lemma ascii_chars:
  assumes "\<forall>c \<in> set cs. c < 128"
  shows "string_of_chars cs = map char_of cs" "chars_of (map char_of cs) = cs" "utf8_string (map char_of cs)"
proof -
  have cs: "map code (map char_of cs) = cs" using assms by (induction cs) (simp_all add: code_def)
  show s: "string_of_chars cs = map char_of cs"
    using assms by (induction cs) (simp_all add: string_of_chars_def utf8_encode_def)
  have "list_all scalar cs" using assms by (auto simp: list_all_iff scalar_def)
  with chars_of_string_of_chars [of cs] show "chars_of (map char_of cs) = cs" by (simp add: s)
  show "utf8_string (map char_of cs)"
    using assms by (intro utf8_string_ascii) (auto simp: list_all_iff code_def)
qed

lemma ascii_text:
  assumes "list_all (\<lambda>c. code c < 128) s"
  shows "chars_of s = map code s" "to_str s = Some s"
proof -
  have s: "map char_of (map code s) = s" by (simp add: code_def comp_def)
  have "\<forall>c \<in> set (map code s). c < 128" using assms by (auto simp: list_all_iff)
  from ascii_chars(2) [OF this] show "chars_of s = map code s" unfolding s .
  show "to_str s = Some s" using utf8_string_ascii [OF assms] by (simp add: to_str_def)
qed

section \<open>Discovery returns the segments in order\<close>

text \<open>
  An entry of the directory that is one of the segments, and an entry that has nothing to
  do with them: another stem, no extension of a segment, or another signature.
\<close>

definition segment_entry :: "string \<Rightarrow> bytes \<Rightarrow> string \<times> bytes result \<Rightarrow> bool" where
  "segment_entry first sig e \<longleftrightarrow> fst e = first \<or> (\<exists>content. snd e = Inr content \<and> 8 \<le> length content \<and> take 8 content = sig)"

definition foreign_entry :: "string \<Rightarrow> nat \<Rightarrow> bool \<Rightarrow> bytes \<Rightarrow> string \<times> bytes result \<Rightarrow> bool" where
  "foreign_entry stem prefix is_v2 sig e \<longleftrightarrow>
     to_str (file_stem (fst e)) \<noteq> Some stem \<or>
     (case Option.bind (extension (fst e)) to_str of None \<Rightarrow> True | Some ext \<Rightarrow> \<not> is_segment_extension ext prefix is_v2) \<or>
     (\<exists>content. snd e = Inr content \<and> 8 \<le> length content \<and> take 8 content \<noteq> sig)"

lemma discover_entry_foreign:
  assumes "foreign_entry stem prefix is_v2 (expected_segment_signature prefix is_v2) e" "fst e \<noteq> first"
  shows "discover_entry (Some first) stem prefix is_v2 acc e = Inr acc"
  using assms by (auto simp: foreign_entry_def discover_entry_def is_discoverable_segment_def split: option.splits)

lemma discover_entry_segment:
  assumes "segment_entry first (expected_segment_signature prefix is_v2) e" "to_str (file_stem (fst e)) = Some stem"
    "Option.bind (extension (fst e)) to_str = Some ext" "is_segment_extension ext prefix is_v2"
  shows "discover_entry (Some first) stem prefix is_v2 acc e = Inr (acc @ [fst e])"
  using assms by (auto simp: segment_entry_def discover_entry_def is_discoverable_segment_def)

definition segment_names :: "(nat \<Rightarrow> string) \<Rightarrow> nat \<Rightarrow> string \<Rightarrow> string list" where
  "segment_names ext count stem = map (\<lambda>n. stem @ CHR ''.'' # ext n) [1..<count + 1]"

text \<open>The extensions of one set of segments, numbered from 1, as discovery needs them.\<close>

locale segment_naming =
  fixes ext :: "nat \<Rightarrow> string" and count prefix :: nat and is_v2 :: bool
  assumes plain: "\<And>n. 1 \<le> n \<Longrightarrow> n \<le> count \<Longrightarrow> utf8_string (ext n) \<and> CHR ''.'' \<notin> set (ext n)"
    and matches: "\<And>n. 1 \<le> n \<Longrightarrow> n \<le> count \<Longrightarrow> is_segment_extension (ext n) prefix is_v2"
    and increasing: "\<And>m n. 1 \<le> m \<Longrightarrow> m < n \<Longrightarrow> n \<le> count \<Longrightarrow> uppercase (ext m) < uppercase (ext n)"
    and first: "\<exists>c cs. chars_of (ext 1) = c # cs \<and> char_upper c = prefix \<and> (length (c # cs) = 4 \<longleftrightarrow> is_v2)"
begin

lemma discovered:
  assumes stem: "stem \<noteq> []" "utf8_string stem" and count: "1 \<le> count"
    and entries: "distinct (map fst entries)" "set (segment_names ext count stem) \<subseteq> fst ` set entries"
    and own: "\<And>e. e \<in> set entries \<Longrightarrow> fst e \<in> set (segment_names ext count stem) \<Longrightarrow>
      segment_entry (stem @ CHR ''.'' # ext 1) (expected_segment_signature prefix is_v2) e"
    and others: "\<And>e. e \<in> set entries \<Longrightarrow> fst e \<notin> set (segment_names ext count stem) \<Longrightarrow>
      foreign_entry stem prefix is_v2 (expected_segment_signature prefix is_v2) e"
  shows "discover_segments (Some (stem @ CHR ''.'' # ext 1)) shown (Inr entries) = Inr (segment_names ext count stem)"
proof -
  let ?first = "stem @ CHR ''.'' # ext 1"
  let ?key = "\<lambda>name. (extension_key name, name)"
  have named: "file_stem (stem @ CHR ''.'' # ext n) = stem" "extension (stem @ CHR ''.'' # ext n) = Some (ext n)"
    "to_str (ext n) = Some (ext n)" if "1 \<le> n" "n \<le> count" for n
    using plain [OF that] stem by (simp_all add: name_parts to_str_def)
  have firsts: "?first \<in> set (segment_names ext count stem)"
    unfolding segment_names_def set_map by (rule image_eqI [of _ _ 1]) (use count in auto)
  have "try_fold (discover_entry (Some ?first) stem prefix is_v2) acc es
      = Inr (acc @ map fst (filter (\<lambda>e. fst e \<in> set (segment_names ext count stem)) es))" if "set es \<subseteq> set entries" for acc es
    using that
  proof (induction es arbitrary: acc)
    case (Cons e es)
    show ?case
    proof (cases "fst e \<in> set (segment_names ext count stem)")
      case True
      then obtain n where n: "1 \<le> n" "n \<le> count" "fst e = stem @ CHR ''.'' # ext n" by (auto simp: segment_names_def)
      have "discover_entry (Some ?first) stem prefix is_v2 acc e = Inr (acc @ [fst e])"
        using Cons.prems True named [OF n(1,2)] stem(2)
        by (intro discover_entry_segment [OF own _ _ matches [OF n(1,2)]]) (simp_all add: n(3) to_str_def)
      then show ?thesis using Cons True by simp
    next
      case False
      then have "discover_entry (Some ?first) stem prefix is_v2 acc e = Inr acc"
        using Cons.prems firsts by (intro discover_entry_foreign others) auto
      then show ?thesis using Cons False by simp
    qed
  qed simp
  then have fold: "try_fold (discover_entry (Some ?first) stem prefix is_v2) [] entries
      = Inr (map fst (filter (\<lambda>e. fst e \<in> set (segment_names ext count stem)) entries))" by simp
  define found where "found = map fst (filter (\<lambda>e. fst e \<in> set (segment_names ext count stem)) entries)"
  have found: "distinct found" "set found = set (segment_names ext count stem)"
    using entries by (auto simp: found_def distinct_map inj_on_def)
  have keys: "extension_key (stem @ CHR ''.'' # ext n) = uppercase (ext n)" if "1 \<le> n" "n \<le> count" for n
    using named [OF that] by (simp add: extension_key_def)
  have "sorted_wrt (\<lambda>a b. ?key a < ?key b) (segment_names ext count stem)"
    unfolding segment_names_def sorted_wrt_map
    by (rule sorted_wrt_mono_rel [OF _ sorted_wrt_upt]) (use increasing in \<open>auto simp: keys less_prod_def\<close>)
  then have "sorted_wrt (<) (map ?key (segment_names ext count stem))" unfolding sorted_wrt_map .
  then have names: "sorted (map ?key (segment_names ext count stem))" "distinct (map ?key (segment_names ext count stem))"
    unfolding strict_sorted_iff by blast+
  have "map ?key (sort_key ?key found) = map ?key (segment_names ext count stem)"
    using names found by (intro sorted_distinct_set_unique) (auto simp: distinct_map inj_on_def)
  then have sorted: "sort_key ?key found = segment_names ext count stem"
    by (rule map_injective) (simp add: inj_def)
  obtain c cs where c: "chars_of (ext 1) = c # cs" "char_upper c = prefix" "(length (c # cs) = 4) = is_v2"
    using first by blast
  have "found \<noteq> []" using found(2) firsts by auto
  then show ?thesis
    using fold named [of 1] count stem c sorted
    by (simp add: discover_segments_def to_str_def Let_def flip: found_def)
qed

end

section \<open>The extensions the writer gives\<close>

text \<open>
  The characters of the extension of segment \<open>n\<close> in a set whose format letter is \<open>p\<close>: two
  digits up to 99, then two letters, and after each 676 of them the next letter in front
  (EWF1) or in the second place (EWF2).
\<close>

definition v1_chars :: "nat \<Rightarrow> nat \<Rightarrow> nat list" where
  "v1_chars p n =
     (if n \<le> 99 then [p, 48 + n div 10, 48 + n mod 10]
      else [p + (n - 100) div 676, 65 + (n - 100) mod 676 div 26, 65 + (n - 100) mod 26])"

definition v2_chars :: "nat \<Rightarrow> nat \<Rightarrow> nat list" where
  "v2_chars p n =
     (if n \<le> 99 then [p, 120, 48 + n div 10, 48 + n mod 10]
      else [p, 120 + (n - 100) div 676, 65 + (n - 100) mod 676 div 26, 65 + (n - 100) mod 26])"

definition letter :: "nat \<Rightarrow> bool" where
  "letter p \<longleftrightarrow> 65 \<le> p \<and> p \<le> 90"

lemma two_digits: "n \<le> 99 \<Longrightarrow> dec_pad 2 n = map char_of [48 + n div 10, 48 + n mod 10]"
proof -
  assume n: "n \<le> 99"
  have "dec n = (if n < 10 then [digit_char n] else [digit_char (n div 10), digit_char (n mod 10)])"
    using n by (subst dec.simps) (simp add: dec.simps [of "n div 10"] less_mult_imp_div_less)
  moreover have "CHR ''0'' = char_of (48 :: nat)" by (rule code_inj [THEN iffD1]) (simp add: code_def)
  ultimately show ?thesis using n by (simp add: dec_pad_def digit_char_def)
qed

lemma mod_676: "n mod 676 mod 26 = n mod (26 :: nat)"
  by (rule mod_mod_cancel) simp

lemma suffix_bounds: "n mod 676 div 26 < (26 :: nat)" "n mod (26 :: nat) < 26"
  by (simp_all add: less_mult_imp_div_less)

lemma added_char:
  assumes "a + b < 2 ^ 32"
  obtains w where "checked_add (word_of_nat a :: u32) (word_of_nat b) = Some w" "unat w = a + b"
proof
  show "unat (word_of_nat a + word_of_nat b :: u32) = a + b"
    using assms by (simp only: of_nat_add [symmetric] unsigned_of_nat) (simp add: take_bit_nat_eq_self)
  show "checked_add (word_of_nat a :: u32) (word_of_nat b) = Some (word_of_nat a + word_of_nat b)"
    using assms by (simp add: checked_add_def unsigned_of_nat take_bit_nat_eq_self)
qed

lemma v1_extension_value:
  assumes p: "extension_prefix e = p" "letter p" and n: "n < 2 ^ 32"
  shows "n \<le> 99 \<or> p + (n - 100) div 676 \<le> 90 \<Longrightarrow> v1_segment_extension e n = Inr (map char_of (v1_chars p n))"
    and "99 < n \<Longrightarrow> 90 < p + (n - 100) div 676 \<Longrightarrow> \<exists>m. v1_segment_extension e n = Inl (Unsupported m)"
proof -
  have pl: "65 \<le> p" "p \<le> 90" using p(2) by (simp_all add: letter_def)
  have "p + (n - 100) div 676 < 2 ^ 32" using n pl by simp
  then obtain w where w: "checked_add (word_of_nat p :: u32) (word_of_nat ((n - 100) div 676)) = Some w"
    "unat w = p + (n - 100) div 676" by (rule added_char)
  have ascii: "c < 128 \<Longrightarrow> string_of_chars [c, 65 + (n - 100) mod 676 div 26, 65 + (n - 100) mod 26]
      = map char_of [c, 65 + (n - 100) mod 676 div 26, 65 + (n - 100) mod 26]" for c
    using suffix_bounds [of "n - 100"] by (intro ascii_chars) auto
  show "v1_segment_extension e n = Inr (map char_of (v1_chars p n))" if "n \<le> 99 \<or> p + (n - 100) div 676 \<le> 90"
  proof (cases "n \<le> 99")
    case True
    then show ?thesis using ascii_chars(1) [of "[p]"] pl
      by (simp add: v1_segment_extension_def p(1) v1_chars_def two_digits)
  next
    case False
    with that have c: "p + (n - 100) div 676 \<le> 90" by simp
    then have "char_from_u32 w = Some (p + (n - 100) div 676)" by (simp add: char_from_u32_def w(2) scalar_def)
    then show ?thesis
      using False c pl ascii [of "p + (n - 100) div 676"]
      by (simp add: v1_segment_extension_def p(1) v1_chars_def w(1) Let_def mod_676)
  qed
  show "\<exists>m. v1_segment_extension e n = Inl (Unsupported m)" if "99 < n" "90 < p + (n - 100) div 676"
    using that by (auto simp: v1_segment_extension_def p(1) w Let_def char_from_u32_def)
qed

lemma v2_extension_value:
  assumes p: "extension_prefix e = p" "letter p" and n: "n < 2 ^ 32"
  shows "n \<le> 99 \<or> (n - 100) div 676 \<le> 2 \<Longrightarrow> v2_segment_extension e n = Inr (map char_of (v2_chars p n))"
    and "99 < n \<Longrightarrow> 2 < (n - 100) div 676 \<Longrightarrow> \<exists>m. v2_segment_extension e n = Inl (Unsupported m)"
proof -
  have pl: "65 \<le> p" "p \<le> 90" using p(2) by (simp_all add: letter_def)
  have "120 + (n - 100) div 676 < 2 ^ 32" using n by simp
  then obtain w where w: "checked_add (word_of_nat 120 :: u32) (word_of_nat ((n - 100) div 676)) = Some w"
    "unat w = 120 + (n - 100) div 676" by (rule added_char)
  have w1: "checked_add (120 :: u32) (word_of_nat ((n - 100) div 676)) = Some w" using w(1) by simp
  have ascii: "c < 128 \<Longrightarrow> string_of_chars [p, c, 65 + (n - 100) mod 676 div 26, 65 + (n - 100) mod 26]
      = map char_of [p, c, 65 + (n - 100) mod 676 div 26, 65 + (n - 100) mod 26]" for c
    using suffix_bounds [of "n - 100"] pl by (intro ascii_chars) auto
  show "v2_segment_extension e n = Inr (map char_of (v2_chars p n))" if "n \<le> 99 \<or> (n - 100) div 676 \<le> 2"
  proof (cases "n \<le> 99")
    case True
    then show ?thesis using ascii_chars(1) [of "[p, 120]"] pl
      by (simp add: v2_segment_extension_def p(1) v2_chars_def two_digits)
  next
    case False
    with that have c: "(n - 100) div 676 \<le> 2" by simp
    then have "char_from_u32 w = Some (120 + (n - 100) div 676)" by (simp add: char_from_u32_def w(2) scalar_def)
    then show ?thesis
      using False c pl ascii [of "120 + (n - 100) div 676"]
      by (simp add: v2_segment_extension_def p(1) v2_chars_def w1 Let_def mod_676)
  qed
  show "\<exists>m. v2_segment_extension e n = Inl (Unsupported m)" if "99 < n" "2 < (n - 100) div 676"
    using that by (auto simp: v2_segment_extension_def p(1) w1 w(2) Let_def char_from_u32_def)
qed

section \<open>The names of a set of segments\<close>

lemma char_of_less: "a < 256 \<Longrightarrow> b < 256 \<Longrightarrow> char_of a < char_of b \<longleftrightarrow> a < (b :: nat)"
  by (simp add: less_char_def)

lemma char_of_eq: "a < 256 \<Longrightarrow> b < 256 \<Longrightarrow> char_of a = char_of b \<longleftrightarrow> a = (b :: nat)"
  by (metis char_of_less less_irrefl linorder_neqE)

lemma div_mod_less: "m < n \<Longrightarrow> m div k < n div k \<or> m div k = n div k \<and> m mod k < n mod (k :: nat)"
  by (metis div_le_mono div_mult_mod_eq less_imp_le nat_add_left_cancel_less le_neq_implies_less)

lemma suffix_less:
  assumes "m < n" "m div 676 = n div (676 :: nat)"
  shows "m mod 676 div 26 < n mod 676 div 26 \<or> m mod 676 div 26 = n mod 676 div 26 \<and> m mod 26 < n mod 26"
proof -
  have "m mod 676 < n mod 676" using div_mod_less [OF assms(1), of 676] assms(2) by simp
  from div_mod_less [OF this, of 26] show ?thesis by (simp add: mod_676)
qed

lemma lex_chars:
  assumes "a < 256" "a' < (256 :: nat)"
  shows "(char_of a # s < char_of a' # s') \<longleftrightarrow> a < a' \<or> a = a' \<and> s < (s' :: string)"
  using assms by (simp add: char_of_less char_of_eq)

lemma suffix_chars_less:
  assumes "m < n" "m div 676 = n div (676 :: nat)"
  shows "[char_of (65 + m mod 676 div 26), char_of (65 + m mod 26)]
    < [char_of (65 + n mod 676 div 26) :: char, char_of (65 + n mod 26)]"
proof -
  have "65 + m mod 676 div 26 < 256" "65 + n mod 676 div 26 < 256" "65 + m mod 26 < 256" "65 + n mod 26 < 256"
    using suffix_bounds [of m] suffix_bounds [of n] by linarith+
  then show ?thesis using suffix_less [OF assms] by (simp only: lex_chars) auto
qed

lemma head_less: "a < a' \<Longrightarrow> a' < (256 :: nat) \<Longrightarrow> char_of a # s < char_of a' # (s' :: string)"
  by (simp add: char_of_less)

lemma tail_less: "s < s' \<Longrightarrow> c # s < c # (s' :: string)"
  by simp

lemma digit_chars_less:
  fixes m n :: nat
  assumes "m < n" "n \<le> 99"
  shows "[char_of (48 + m div 10), char_of (48 + m mod 10)] < [char_of (48 + n div 10) :: char, char_of (48 + n mod 10)]"
proof -
  have "48 + m div 10 < 256" "48 + n div 10 < 256" "48 + m mod 10 < 256" "48 + n mod 10 < 256"
    using assms by simp_all
  then show ?thesis using div_mod_less [OF assms(1), of 10] by (simp only: lex_chars) auto
qed

lemma digits_before_letters:
  assumes "m \<le> (99 :: nat)"
  shows "char_of (48 + m div 10) # s < char_of (65 + n mod 676 div (26 :: nat)) # (s' :: string)"
proof (rule head_less)
  show "48 + m div 10 < 65 + n mod 676 div 26" using assms by simp
  show "65 + n mod 676 div 26 < 256" using suffix_bounds [of n] by simp
qed

lemma block_less:
  fixes a m n :: nat
  assumes "a + n div 676 < 256" "m < n"
  shows "char_of (a + m div 676) # [char_of (65 + m mod 676 div 26), char_of (65 + m mod 26)]
    < char_of (a + n div 676) # ([char_of (65 + n mod 676 div 26), char_of (65 + n mod 26)] :: string)"
proof (cases "m div 676 = n div 676")
  case True
  show ?thesis unfolding True by (intro tail_less suffix_chars_less [OF assms(2) True])
next
  case False
  moreover have "m div 676 \<le> n div 676" using assms(2) by (intro div_le_mono) simp
  ultimately have "a + m div 676 < a + n div 676" by linarith
  then show ?thesis using assms(1) by (rule head_less)
qed

lemma letters_after_digits:
  fixes a m n :: nat
  assumes "a + n div 676 < 256" "m \<le> 99"
  shows "char_of a # [char_of (48 + m div 10), char_of (48 + m mod 10)]
    < char_of (a + n div 676) # ([char_of (65 + n mod 676 div 26), char_of (65 + n mod 26)] :: string)"
proof (cases "n div 676 = 0")
  case True
  then show ?thesis unfolding True add_0_right by (intro tail_less digits_before_letters [OF assms(2)])
next
  case False
  then have "a < a + n div 676" by linarith
  then show ?thesis using assms(1) by (rule head_less)
qed

lemma v1_chars_less:
  assumes "letter p" "m < n" "n \<le> 99 \<or> p + (n - 100) div 676 \<le> 90"
  shows "(map char_of (v1_chars p m) :: string) < map char_of (v1_chars p n)"
proof -
  consider "m \<le> 99" "n \<le> 99" | "m \<le> 99" "\<not> n \<le> 99" | "\<not> m \<le> 99" "\<not> n \<le> 99" using assms(2) by linarith
  then show ?thesis
  proof cases
    case 1
    show ?thesis unfolding v1_chars_def if_P [OF 1(1)] if_P [OF 1(2)] list.map
      by (intro tail_less digit_chars_less [OF assms(2) 1(2)])
  next
    case 2
    then have "p + (n - 100) div 676 < 256" using assms(3) by simp
    from letters_after_digits [OF this 2(1)] show ?thesis
      unfolding v1_chars_def if_P [OF 2(1)] if_not_P [OF 2(2)] list.map .
  next
    case 3
    then have "p + (n - 100) div 676 < 256" "m - 100 < n - 100" using assms(2,3) by simp_all
    from block_less [OF this] show ?thesis
      unfolding v1_chars_def if_not_P [OF 3(1)] if_not_P [OF 3(2)] list.map .
  qed
qed

text \<open>In capitals, as extensions are compared.\<close>

definition v2_key :: "nat \<Rightarrow> nat \<Rightarrow> nat list" where
  "v2_key p n =
     (if n \<le> 99 then [p, 88, 48 + n div 10, 48 + n mod 10]
      else [p, 88 + (n - 100) div 676, 65 + (n - 100) mod 676 div 26, 65 + (n - 100) mod 26])"

lemma v2_key_less:
  assumes "m < n" "n \<le> 99 \<or> (n - 100) div 676 \<le> 2"
  shows "(map char_of (v2_key p m) :: string) < map char_of (v2_key p n)"
proof -
  consider "m \<le> 99" "n \<le> 99" | "m \<le> 99" "\<not> n \<le> 99" | "\<not> m \<le> 99" "\<not> n \<le> 99" using assms(1) by linarith
  then show ?thesis
  proof cases
    case 1
    show ?thesis unfolding v2_key_def if_P [OF 1(1)] if_P [OF 1(2)] list.map
      by (intro tail_less digit_chars_less [OF assms(1) 1(2)])
  next
    case 2
    then have "88 + (n - 100) div 676 < 256" using assms(2) by simp
    from tail_less [OF letters_after_digits [OF this 2(1)]] show ?thesis
      unfolding v2_key_def if_P [OF 2(1)] if_not_P [OF 2(2)] list.map .
  next
    case 3
    then have "88 + (n - 100) div 676 < 256" "m - 100 < n - 100" using assms by simp_all
    from tail_less [OF block_less [OF this]] show ?thesis
      unfolding v2_key_def if_not_P [OF 3(1)] if_not_P [OF 3(2)] list.map .
  qed
qed

text \<open>
  A set of segments as the writer names it: the first path has the extension \<open>E01\<close> or
  \<open>Ex01\<close> with any letter \<open>c\<close> in either case, the others follow.
\<close>

definition v1_named :: "nat \<Rightarrow> nat \<Rightarrow> string" where
  "v1_named c n = map char_of (if n = 1 then [c, 48, 49] else v1_chars (char_upper c) n)"

definition v2_named :: "nat \<Rightarrow> nat \<Rightarrow> nat \<Rightarrow> string" where
  "v2_named c x n = map char_of (if n = 1 then [c, x, 48, 49] else v2_chars (char_upper c) n)"

lemma uppercase_simps [simp]:
  "uppercase [] = []" "c < 256 \<Longrightarrow> uppercase (char_of c # s) = char_of (char_upper c) # uppercase s"
  by (simp_all add: uppercase_def code_def)

lemma char_upper_id: "c < 97 \<Longrightarrow> char_upper c = c"
  by (simp add: char_upper_def)

lemma char_upper_letter: "letter (char_upper c) \<Longrightarrow> c < 128 \<and> 65 \<le> c"
  by (auto simp: letter_def char_upper_def split: if_splits)

lemma v1_chars_range:
  assumes "letter p" "n \<le> 99 \<or> p + (n - 100) div 676 \<le> 90"
  obtains a b d where "v1_chars p n = [a, b, d]" "p \<le> a" "a \<le> 90"
    "n \<le> 99 \<and> a = p \<and> char_digit b \<and> char_digit d \<or> 99 < n \<and> 65 \<le> b \<and> b \<le> 90 \<and> 65 \<le> d \<and> d \<le> 90"
proof -
  have *: "65 + (n - 100) mod 676 div 26 \<le> 90" "65 + (n - 100) mod 26 \<le> 90" using suffix_bounds [of "n - 100"] by simp_all
  have "n \<le> 99 \<Longrightarrow> char_digit (48 + n div 10) \<and> char_digit (48 + n mod 10)" by (auto simp: char_digit_def)
  with * show thesis using assms that by (cases "n \<le> 99") (auto simp: v1_chars_def letter_def)
qed

lemma v2_chars_range:
  assumes "n \<le> 99 \<or> (n - 100) div 676 \<le> 2"
  obtains a b d where "v2_chars p n = [p, a, b, d]" "v2_key p n = [p, a - 32, b, d]" "120 \<le> a" "a \<le> 122"
    "n \<le> 99 \<and> a = 120 \<and> char_digit b \<and> char_digit d \<or> 99 < n \<and> 65 \<le> b \<and> b \<le> 90 \<and> 65 \<le> d \<and> d \<le> 90"
proof -
  have *: "65 + (n - 100) mod 676 div 26 \<le> 90" "65 + (n - 100) mod 26 \<le> 90" using suffix_bounds [of "n - 100"] by simp_all
  have "n \<le> 99 \<Longrightarrow> char_digit (48 + n div 10) \<and> char_digit (48 + n mod 10)" by (auto simp: char_digit_def)
  with * show thesis using assms that by (cases "n \<le> 99") (auto simp: v2_chars_def v2_key_def)
qed

lemma dot_code: "CHR ''.'' = char_of (46 :: nat)"
  by (rule code_inj [THEN iffD1]) (simp add: code_def)

lemma no_dot:
  fixes cs :: "nat list"
  shows "\<forall>c \<in> set cs. c < 256 \<and> c \<noteq> 46 \<Longrightarrow> CHR ''.'' \<notin> set (map char_of cs :: string)"
  unfolding dot_code by (auto simp: char_of_eq)

lemma v1_naming:
  assumes p: "letter (char_upper c)" and count: "count \<le> 99 \<or> char_upper c + (count - 100) div 676 \<le> 90"
  shows "segment_naming (v1_named c) count (char_upper c) False"
proof -
  note c = char_upper_letter [OF p]
  have in_range: "n \<le> 99 \<or> char_upper c + (n - 100) div 676 \<le> 90" if "n \<le> count" for n
  proof -
    have "(n - 100) div 676 \<le> (count - 100) div 676" using that by (intro div_le_mono) simp
    with count that show ?thesis by linarith
  qed
  have codes: "\<exists>a b d. v1_named c n = map char_of [a, b, d] \<and> v1_chars (char_upper c) n = [char_upper a, b, d] \<and> a < 128 \<and> 65 \<le> a \<and>
      (n \<le> 99 \<and> char_upper a = char_upper c \<and> char_digit b \<and> char_digit d \<or> 99 < n \<and> char_upper c \<le> a \<and> a \<le> 90 \<and> 65 \<le> b \<and> b \<le> 90 \<and> 65 \<le> d \<and> d \<le> 90)"
    if n: "1 \<le> n" "n \<le> count" for n
  proof (cases "n = 1")
    case True
    then show ?thesis using c by (intro exI [of _ c] exI [of _ 48] exI [of _ 49])
      (simp add: v1_named_def v1_chars_def char_digit_def)
  next
    case False
    obtain a b d where v: "v1_chars (char_upper c) n = [a, b, d]" "char_upper c \<le> a" "a \<le> 90"
      "n \<le> 99 \<and> a = char_upper c \<and> char_digit b \<and> char_digit d \<or> 99 < n \<and> 65 \<le> b \<and> b \<le> 90 \<and> 65 \<le> d \<and> d \<le> 90"
      by (rule v1_chars_range [OF p in_range [OF n(2)]])
    have "65 \<le> a" using v(2) p by (simp add: letter_def)
    then show ?thesis using False v by (intro exI [of _ a] exI [of _ b] exI [of _ d])
      (auto simp: v1_named_def char_upper_id)
  qed
  have key: "uppercase (v1_named c n) = map char_of (v1_chars (char_upper c) n)" if n: "1 \<le> n" "n \<le> count" for n
    using codes [OF n] by (auto simp: char_upper_id char_digit_def)
  show ?thesis
  proof
  fix n assume n: "1 \<le> n" "n \<le> count"
  show "utf8_string (v1_named c n) \<and> CHR ''.'' \<notin> set (v1_named c n)"
  proof -
    obtain a b d :: nat where v: "v1_named c n = map char_of [a, b, d]" "\<forall>x \<in> set [a, b, d]. x < 128 \<and> x \<noteq> 46"
      using codes [OF n] by (force simp: char_digit_def)
    have "\<forall>x \<in> set [a, b, d]. x < 256 \<and> x \<noteq> 46" using v(2) by auto
    then show ?thesis unfolding v(1) using ascii_chars(3) [of "[a, b, d]"] no_dot [of "[a, b, d]"] v(2) by blast
  qed
  show "is_segment_extension (v1_named c n) (char_upper c) False"
  proof -
    obtain a b d :: nat where v: "v1_named c n = map char_of [a, b, d]" "\<forall>x \<in> set [a, b, d]. x < 128"
      "n \<le> 99 \<and> char_upper a = char_upper c \<and> char_digit b \<and> char_digit d \<or>
        99 < n \<and> char_upper c \<le> a \<and> a \<le> 90 \<and> 65 \<le> b \<and> b \<le> 90 \<and> 65 \<le> d \<and> d \<le> 90"
      using codes [OF n] by (force simp: char_digit_def)
    then show ?thesis using ascii_chars(2) [of "[a, b, d]"] p
      by (auto simp: is_segment_extension_def v1_segment_extension_matches_def segment_suffix_matches_def Let_def
          char_upper_id letter_def char_alphabetic_def)
  qed
next
  fix m n assume "1 \<le> m" "m < n" "n \<le> count"
  then show "uppercase (v1_named c m) < uppercase (v1_named c n)"
    using v1_chars_less [OF p _ in_range [of n], of m] by (simp add: key)
next
  show "\<exists>d cs. chars_of (v1_named c 1) = d # cs \<and> char_upper d = char_upper c \<and> (length (d # cs) = 4) = False"
    using ascii_chars(2) [of "[c, 48, 49]"] c by (simp add: v1_named_def)
qed
qed

lemma v2_naming:
  assumes p: "letter (char_upper c)" and x: "char_upper x = 88" and count: "count \<le> 99 \<or> (count - 100) div 676 \<le> 2"
  shows "segment_naming (v2_named c x) count (char_upper c) True"
proof -
  note c = char_upper_letter [OF p]
  have xl: "x = 88 \<or> x = 120" using x by (auto simp: char_upper_def split: if_splits)
  have in_range: "n \<le> 99 \<or> (n - 100) div 676 \<le> 2" if "n \<le> count" for n
  proof -
    have "(n - 100) div 676 \<le> (count - 100) div 676" using that by (intro div_le_mono) simp
    with count that show ?thesis by linarith
  qed
  have codes: "\<exists>q a b d. v2_named c x n = map char_of [q, a, b, d] \<and> v2_key (char_upper c) n = [char_upper c, char_upper a, b, d] \<and>
      q < 128 \<and> 65 \<le> q \<and> char_upper q = char_upper c \<and> (a = 88 \<or> 120 \<le> a \<and> a \<le> 122) \<and>
      (n \<le> 99 \<and> char_upper a = 88 \<and> char_digit b \<and> char_digit d \<or> 99 < n \<and> 65 \<le> b \<and> b \<le> 90 \<and> 65 \<le> d \<and> d \<le> 90)"
    if n: "1 \<le> n" "n \<le> count" for n
  proof (cases "n = 1")
    case True
    then show ?thesis using c x xl
      by (intro exI [of _ c] exI [of _ x] exI [of _ 48] exI [of _ 49]) (auto simp: v2_named_def v2_key_def char_digit_def)
  next
    case False
    obtain a b d where v: "v2_chars (char_upper c) n = [char_upper c, a, b, d]" "v2_key (char_upper c) n = [char_upper c, a - 32, b, d]"
      "120 \<le> a" "a \<le> 122"
      "n \<le> 99 \<and> a = 120 \<and> char_digit b \<and> char_digit d \<or> 99 < n \<and> 65 \<le> b \<and> b \<le> 90 \<and> 65 \<le> d \<and> d \<le> 90"
      by (rule v2_chars_range [OF in_range [OF n(2)]])
    have "char_upper a = a - 32" using v(3,4) by (simp add: char_upper_def)
    moreover have "char_upper c < 128" "65 \<le> char_upper c" using p by (simp_all add: letter_def)
    moreover have "v2_named c x n = map char_of [char_upper c, a, b, d]" using False by (simp add: v2_named_def v(1))
    moreover have "char_upper 120 = 88" by (simp add: char_upper_def)
    ultimately show ?thesis using v(2-5)
      by - (rule exI [of _ "char_upper c"], rule exI [of _ a], rule exI [of _ b], rule exI [of _ d], auto)
  qed
  have key: "uppercase (v2_named c x n) = map char_of (v2_key (char_upper c) n)" if n: "1 \<le> n" "n \<le> count" for n
  proof -
    obtain q a b d :: nat where v: "v2_named c x n = map char_of [q, a, b, d]"
      "v2_key (char_upper c) n = [char_upper c, char_upper a, b, d]"
      "q < 128" "char_upper q = char_upper c" "a < 128" "b < 97" "d < 97"
      using codes [OF n] by (elim exE conjE) (rule that, assumption, assumption, auto simp: char_digit_def)
    then show ?thesis by (simp add: char_upper_id)
  qed
  show ?thesis
  proof
  fix n assume n: "1 \<le> n" "n \<le> count"
  show "utf8_string (v2_named c x n) \<and> CHR ''.'' \<notin> set (v2_named c x n)"
  proof -
    obtain q a b d :: nat where v: "v2_named c x n = map char_of [q, a, b, d]" "\<forall>x \<in> set [q, a, b, d]. x < 128 \<and> x \<noteq> 46"
      using codes [OF n] by (elim exE conjE) (rule that, assumption, auto simp: char_digit_def)
    have "\<forall>x \<in> set [q, a, b, d]. x < 256 \<and> x \<noteq> 46" using v(2) by auto
    then show ?thesis unfolding v(1) using ascii_chars(3) [of "[q, a, b, d]"] no_dot [of "[q, a, b, d]"] v(2) by blast
  qed
  show "is_segment_extension (v2_named c x n) (char_upper c) True"
  proof -
    obtain q a b d :: nat where v: "v2_named c x n = map char_of [q, a, b, d]" "\<forall>x \<in> set [q, a, b, d]. x < 128"
      "char_upper q = char_upper c" "a = 88 \<or> 120 \<le> a \<and> a \<le> 122"
      "n \<le> 99 \<and> char_upper a = 88 \<and> char_digit b \<and> char_digit d \<or> 99 < n \<and> 65 \<le> b \<and> b \<le> 90 \<and> 65 \<le> d \<and> d \<le> 90"
      using codes [OF n] by (elim exE conjE) (rule that, assumption, auto simp: char_digit_def)
    have "char_upper a \<in> {88, 89, 90}" using v(4) by (auto simp: char_upper_def)
    then show ?thesis using v ascii_chars(2) [of "[q, a, b, d]"]
      by (auto simp: is_segment_extension_def v2_segment_extension_matches_def segment_suffix_matches_def Let_def char_alphabetic_def)
  qed
next
  fix m n assume "1 \<le> m" "m < n" "n \<le> count"
  then show "uppercase (v2_named c x m) < uppercase (v2_named c x n)"
    using v2_key_less [OF _ in_range [of n], of m] by (simp add: key)
next
  show "\<exists>d cs. chars_of (v2_named c x 1) = d # cs \<and> char_upper d = char_upper c \<and> (length (d # cs) = 4) = True"
    using ascii_chars(2) [of "[c, x, 48, 49]"] c xl by (auto simp: v2_named_def)
qed
qed

interpretation e01: segment_naming "v1_named 69" 14971 69 False
  using v1_naming [of 69 14971] by (simp add: char_upper_def letter_def)

interpretation ex01: segment_naming "v2_named 69 120" 2127 69 True
  using v2_naming [of 69 120 2127] by (simp add: char_upper_def letter_def)

text \<open>The path of segment \<open>n\<close> of a set, in either format.\<close>

definition path_of :: "bool \<Rightarrow> string \<Rightarrow> nat \<Rightarrow> string result" where
  "path_of is_v2 = (if is_v2 then ewf2_segment_path else segment_path)"

definition named :: "bool \<Rightarrow> nat \<Rightarrow> nat \<Rightarrow> nat \<Rightarrow> string" where
  "named is_v2 c x = (if is_v2 then v2_named c x else v1_named c)"

lemma first_extension:
  assumes "letter (char_upper c)" "char_upper x = 88"
  shows "extension_prefix (Some (named is_v2 c x 1)) = char_upper c" "CHR ''.'' \<notin> set (named is_v2 c x 1)"
proof -
  have c: "c < 128" "65 \<le> c" using char_upper_letter [OF assms(1)] by simp_all
  have x: "x = 88 \<or> x = 120" using assms(2) by (auto simp: char_upper_def split: if_splits)
  let ?cs = "if is_v2 then [c, x, 48, 49] else [c, 48, 49]"
  have n: "named is_v2 c x 1 = map char_of ?cs" by (simp add: named_def v1_named_def v2_named_def)
  have cs: "\<forall>d \<in> set ?cs. d < 128" "\<forall>d \<in> set ?cs. d < 256 \<and> d \<noteq> 46" using c x by auto
  show "extension_prefix (Some (named is_v2 c x 1)) = char_upper c"
    unfolding n extension_prefix_def to_str_def using ascii_chars(2,3) [OF cs(1)] by (cases is_v2) simp_all
  show "CHR ''.'' \<notin> set (named is_v2 c x 1)" unfolding n by (rule no_dot [OF cs(2)])
qed

lemma path_of_value:
  assumes c: "letter (char_upper c)" "char_upper x = 88" and stem: "stem \<noteq> []" and n: "1 \<le> n" "n < 2 ^ 32"
    and path: "path_of is_v2 (stem @ CHR ''.'' # named is_v2 c x 1) n = Inr p"
  shows "p = stem @ CHR ''.'' # named is_v2 c x n"
    and "n \<le> 99 \<or> (if is_v2 then (n - 100) div 676 \<le> 2 else char_upper c + (n - 100) div 676 \<le> 90)"
proof -
  let ?first = "stem @ CHR ''.'' # named is_v2 c x 1"
  note e = first_extension [OF c, of is_v2]
  have ext: "extension ?first = Some (named is_v2 c x 1)" using name_parts(2) [OF stem e(2)] .
  have all: "(p = stem @ CHR ''.'' # named is_v2 c x n) \<and>
    (n \<le> 99 \<or> (if is_v2 then (n - 100) div 676 \<le> 2 else char_upper c + (n - 100) div 676 \<le> 90))"
  proof (cases "n = 1")
    case True
    then show ?thesis using path by (cases is_v2) (auto simp: path_of_def segment_path_def ewf2_segment_path_def)
  next
    case False
    show ?thesis
    proof (cases is_v2)
      case True
      obtain y where y: "v2_segment_extension (Some (named is_v2 c x 1)) n = Inr y" "p = with_extension ?first y"
        using path False ext True by (auto simp: path_of_def ewf2_segment_path_def try_bind_Inr_iff)
      note ext_value = v2_extension_value [OF e(1) c(1) n(2)]
      have range: "n \<le> 99 \<or> (n - 100) div 676 \<le> 2" using ext_value(2) y(1) by fastforce
      have "y = named True c x n" using ext_value(1) [OF range] y(1) False True by (simp add: named_def v2_named_def)
      moreover have "v2_chars (char_upper c) n \<noteq> []" by (simp add: v2_chars_def)
      ultimately show ?thesis using y(2) name_parts(3) [OF stem e(2), of y] range True False by (simp add: named_def v2_named_def)
    next
      case v1: False
      obtain y where y: "v1_segment_extension (Some (named is_v2 c x 1)) n = Inr y" "p = with_extension ?first y"
        using path False ext v1 by (auto simp: path_of_def segment_path_def try_bind_Inr_iff)
      note ext_value = v1_extension_value [OF e(1) c(1) n(2)]
      have range: "n \<le> 99 \<or> char_upper c + (n - 100) div 676 \<le> 90" using ext_value(2) y(1) by fastforce
      have "y = named False c x n" using ext_value(1) [OF range] y(1) False v1 by (simp add: named_def v1_named_def)
      moreover have "v1_chars (char_upper c) n \<noteq> []" by (simp add: v1_chars_def)
      ultimately show ?thesis using y(2) name_parts(3) [OF stem e(2), of y] range v1 False by (simp add: named_def v1_named_def)
    qed
  qed
  then show "p = stem @ CHR ''.'' # named is_v2 c x n"
    "n \<le> 99 \<or> (if is_v2 then (n - 100) div 676 \<le> 2 else char_upper c + (n - 100) div 676 \<le> 90)" by blast+
qed

lemma naming:
  assumes "letter (char_upper c)" "char_upper x = 88"
    "n \<le> 99 \<or> (if is_v2 then (n - 100) div 676 \<le> 2 else char_upper c + (n - 100) div 676 \<le> 90)"
  shows "segment_naming (named is_v2 c x) n (char_upper c) is_v2"
  using v1_naming [OF assms(1), of n] v2_naming [OF assms(1,2), of n] assms(3) by (cases is_v2) (simp_all add: named_def)

lemma written_names_are_discovered:
  assumes c: "letter (char_upper c)" "char_upper x = 88" and stem: "stem \<noteq> []" "utf8_string stem"
    and count: "1 \<le> count" "count < 2 ^ 32" and first: "first = stem @ CHR ''.'' # named is_v2 c x 1"
    and paths: "collect_results (path_of is_v2 first) [1..<count + 1] = Inr names"
    and entries: "distinct (map fst entries)" "set names \<subseteq> fst ` set entries"
    and own: "\<forall>e \<in> set entries. fst e \<in> set names \<longrightarrow> segment_entry first (expected_segment_signature (char_upper c) is_v2) e"
    and others: "\<forall>e \<in> set entries. fst e \<notin> set names \<longrightarrow>
      foreign_entry stem (char_upper c) is_v2 (expected_segment_signature (char_upper c) is_v2) e"
  shows "discover_segments (Some first) shown (Inr entries) = Inr names"
proof -
  have path: "\<exists>p. path_of is_v2 first n = Inr p" if "1 \<le> n" "n \<le> count" for n
    using paths that list_all2_nthD [of "\<lambda>n p. path_of is_v2 first n = Inr p" "[1..<count + 1]" names "n - 1"]
    by (auto simp: collect_results_Inr simp del: upt_Suc)
  have range: "count \<le> 99 \<or> (if is_v2 then (count - 100) div 676 \<le> 2 else char_upper c + (count - 100) div 676 \<le> 90)"
    using path [of count] path_of_value(2) [OF c stem(1) count(1,2), of is_v2] count(1) by (auto simp: first)
  have paths': "list_all2 (\<lambda>n p. path_of is_v2 first n = Inr p) [1..<count + 1] names" using paths by (simp add: collect_results_Inr)
  have names: "names = segment_names (named is_v2 c x) count stem"
  proof (rule nth_equalityI)
    show len: "length names = length (segment_names (named is_v2 c x) count stem)"
      using list_all2_lengthD [OF paths'] by (simp add: segment_names_def)
    fix i assume "i < length names"
    then have i: "i < count" "path_of is_v2 first (1 + i) = Inr (names ! i)"
      using list_all2_nthD2 [OF paths'] len by (simp_all add: segment_names_def del: upt_Suc)
    have "names ! i = stem @ CHR ''.'' # named is_v2 c x (1 + i)"
      using path_of_value(1) [OF c stem(1) _ _ i(2) [unfolded first]] i(1) count by simp
    then show "names ! i = segment_names (named is_v2 c x) count stem ! i"
      using i(1) by (simp add: segment_names_def del: upt_Suc)
  qed
  show ?thesis
    unfolding first names
    by (rule segment_naming.discovered [OF naming [OF c range] stem count(1)])
      (use entries own others in \<open>simp_all add: names first\<close>)
qed

section \<open>A small directory\<close>

lemma sample_names:
  "file_stem ''im.E01'' = ''im''" "file_stem ''im.log'' = ''im''" "with_extension ''im.E01'' ''E02'' = ''im.E02''"
  "extension ''im.E01'' = Some ''E01''" "extension ''im.log'' = Some ''log''" "extension ''im.csv'' = Some ''csv''"
  by (simp_all add: file_stem_def extension_def with_extension_def split_last_dot_def)

lemma sample_texts:
  "to_str ''im'' = Some ''im''" "to_str ''E01'' = Some ''E01''" "to_str ''log'' = Some ''log''" "to_str ''csv'' = Some ''csv''"
  "chars_of ''E01'' = [69, 48, 49]" "chars_of ''log'' = [108, 111, 103]" "chars_of ''csv'' = [99, 115, 118]"
  by (simp_all add: ascii_text code_def)

lemma sample_extensions:
  "is_segment_extension ''E01'' 69 False" "is_segment_extension ''log'' 69 False" "\<not> is_segment_extension ''csv'' 69 False"
  by (simp_all add: is_segment_extension_def sample_texts v1_segment_extension_matches_def segment_suffix_matches_def
      char_upper_def char_digit_def char_alphabetic_def)

text \<open>A file too short for a signature under a name like a later segment's ends discovery.\<close>

lemma short_files_break_discovery:
  "discover_segments (Some ''im.E01'') ''im.E01'' (Inr [(''im.E01'', Inr EVF_SIGNATURE), (''im.log'', Inr [])])
    = Inl (Io UnexpectedEof ''failed to fill whole buffer'')"
  by (simp add: discover_segments_def sample_names sample_texts char_upper_def discover_entry_def sample_extensions
      is_discoverable_segment_def Let_def)

end
