(* ===== verification/Spec2Isabelle.thy ===== *)
theory Spec2Isabelle
  imports Sample_Segment Histories Segment_Source Ewf2_Format Catalog_Round_Trip Single_Flight Encryption Segment_Names
begin

text \<open>
  A verification development for the Rust library \<open>ewf-image\<close> (\<open>src/src/\<close>), which reads
  and writes forensic images in the EWF formats: E01, L01 and S01 (EWF1), Ex01 and Lx01
  (EWF2). An image is a sequence of segment files. A segment is a chain of sections; its
  chunk tables say where the compressed chunks of the media lie, other sections hold the
  geometry, descriptive texts, digests, error ranges and, for logical images, a catalog of
  files. The writer buffers media in a spool, encodes it chunk by chunk and lays the
  segments out; the reader scans the segments, builds an index of chunk tables and decodes
  chunks on demand through caches.

  Conventions. Rust's integers are words of their width (\<open>u8\<close> to \<open>u64\<close>, \<open>i32\<close> and \<open>i64\<close> read
  by \<open>sint\<close>), \<open>usize\<close> is \<open>nat\<close> for lengths of things in memory; a \<open>String\<close> is the list of
  its UTF-8 bytes. A \<open>Result\<close> is a sum with the errors of \<open>EwfError\<close> on the left; a panic or an
  arithmetic overflow is a value of that type as well, so that its absence is provable.
  Operations on the state of a reader or a writer are functions from the state to a result
  and the next state (\<open>State_Result\<close>). Code outside the repository is a parameter: the
  compressors and decompressors (flate2, bzip2, Zstandard), the LRU map, SHA-256, AES and
  MD5, the codepage tables of encoding_rs, and the files a caller supplies. What a theorem needs
  of it is a named hypothesis (\<open>compressors_lawful\<close>, \<open>lru_laws\<close> and their like), and every
  witness supplies a concrete instance.

  Foundations.
  \<^item> \<open>Prelude\<close>, \<open>Rust_Text\<close>, \<open>Rust_Lines\<close>, \<open>State_Result\<close>: words, bytes, errors (\<open>error.rs\<close>), little-endian
    fields, and the parts of Rust's string library the code uses.
  \<^item> \<open>Checksums\<close>: Adler-32 in the four copies of the code, the checks built on it and the
    streaming checksum of tables. \<open>Codec\<close>: the interface of fixed-width records and tables of
    them, interpreted by every table of the formats.

  File formats.
  \<^item> \<open>Ewf1_Format\<close>, \<open>Ewf1_Writer\<close>, \<open>Ewf2_Format\<close> (\<open>format/ewf1.rs\<close>, \<open>format/ewf2.rs\<close>, \<open>writer.rs\<close>): file headers,
    section descriptors, volumes, tables and their entries, parsed and written.
  \<^item> \<open>Range_Tables\<close> (\<open>metadata.rs\<close>, \<open>image.rs\<close>, \<open>writer.rs\<close>): error ranges, sessions and tracks, memory extents,
    auxiliary tables. \<open>Stored_Hashes\<close> (\<open>hashes.rs\<close>, \<open>types.rs\<close>): digests and their sections.
  \<^item> \<open>Date_Time\<close>, \<open>Metadata_Text\<close>, \<open>Metadata_Writer\<close>, \<open>Utf8_Text\<close>, \<open>Metadata_Round_Trip\<close> (\<open>metadata.rs\<close>,
    \<open>codepage.rs\<close>, \<open>date_time.rs\<close>, \<open>writer.rs\<close>): header texts, XML headers, device information, dates, and
    the proof that what is written is read back.
  \<^item> \<open>Catalog_Text\<close>, \<open>Catalog_Writer\<close>, \<open>Catalog_Round_Trip\<close> (\<open>single_files.rs\<close>, \<open>writer.rs\<close>): the catalog of a
    logical image, likewise.
  \<^item> \<open>Encryption\<close> (\<open>encryption.rs\<close>): X-Ways key sections, passwords and the keystream.

  The reader.
  \<^item> \<open>Segment_Names\<close> (\<open>segment.rs\<close>, \<open>writer.rs\<close>): the names of the segment files, given by the writer and
    found again in a directory.
  \<^item> \<open>Segment_Source\<close> (\<open>source.rs\<close>): views of backings and the exact read loop.
  \<^item> \<open>Section_Scan\<close>, \<open>Table_Ranges\<close> (\<open>image.rs\<close>): from the bytes of a segment to its sections and its
    chunk tables. \<open>Chunk_Index\<close> (\<open>index.rs\<close>) finds the table of a chunk, \<open>Page_Cache\<close>
    (\<open>reader_cache.rs\<close>) reads tables page by page, \<open>Chunk_Lookup\<close> decodes the entry, \<open>Chunk_Decode\<close>
    (\<open>decode.rs\<close>) the chunk.
  \<^item> \<open>Image_Reader\<close>: the chunk cache, the policy for unreadable chunks, error ranges, aborting.
    \<open>Media_Reader\<close>: byte ranges and cursors. \<open>File_Reader\<close>: catalogued files. \<open>Single_Flight\<close>: many
    threads, of which one decodes a chunk while the others wait, as a step relation with a
    fair scheduler.

  The writer (\<open>writer.rs\<close>).
  \<^item> \<open>Chunk_Writer\<close> chooses the form of a chunk; \<open>Media_Writer\<close> holds the spools, the position and the
    remembered encoded chunks; \<open>Writer_Layout\<close> cuts the chunks into tables.
  \<^item> \<open>Segment_File\<close> plans and emits an EWF1 segment, \<open>Segment_Groups\<close> splits the chunks over segments.
  \<^item> \<open>Written_Media\<close> and \<open>Written_Segment\<close> join both sides: what the writer emits is what the reader
    finds. \<open>Histories\<close> lifts single calls to sequences of calls; \<open>Sample_Image\<close> and
    \<open>Sample_Segment\<close> are the concrete inputs of the witnesses.

  How the parts interact. Components are joined through locales that are interpreted on the
  definitions of the model: records through \<open>Codec\<close>, chunk computations through the laws of the
  caches, media reads through any chunk reader that refines the decoded image. \<open>computes I m r\<close>
  says that an operation returns \<open>r\<close> from every state with invariant \<open>I\<close> and keeps \<open>I\<close>; with it the
  stateful reader refines functions of the image alone.

  What the properties show. The properties of this theory compose the components: written
  media are read back through the whole chain, reads are slices whatever the caches
  hold, concurrent readers all return and decode every chunk once, and the
  history of a writer determines its media. The others are the correctness of one
  component each: round trips of every record, table and text of the formats, refinement of
  caches and stores by what they promise, exact sizes and limits, totality of the parsers, errors.

  Bounds and fuel. Loops over data recurse on it or on the distance to its end. The section
  scans recurse on the offsets, which must grow; the search for X-Ways key sections scans a
  bounded tail; nested catalog entries are bounded by the number of lines, which is shown never
  to be reached. Scheduling in \<open>Single_Flight\<close> is any infinite sequence of threads in which every
  thread recurs. Lengths that must fit \<open>u64\<close> appear as hypotheses \<open>< 2 ^ 64\<close>.

  Not modelled. Statistics counters, on which no result depends. Temporary files of the spools and
  output files are byte strings whose operations do not fail. Publishing output
  under its final name (\<open>publication.rs\<close>) consists of file system operations. Salvaging damaged images
  (\<open>image/recovery.rs\<close>), whole-image verification (\<open>verify.rs\<close>, \<open>integrity.rs\<close>, \<open>logical_verify.rs\<close>), the acquisition, sequential and
  logical front ends (\<open>writer/\<close>), the AFF4 crate and the command line are separate programs
  over the parts modelled here, or rest on external formats (zip, RDF).
\<close>

section \<open>Writing and reading media\<close>







lemma sample_policy_holds: "image_holds (policy_chunk (en_decoders sample_env) sample_image ((8192 :: nat) = 0) z) sample_image [7, 8, 9]"
  by (rule sample_holds)

lemma sample_strict_holds: "image_holds (strict_chunk (en_decoders sample_env) sample_image ((8192 :: nat) = 0)) sample_image [7, 8, 9]"
  by (rule sample_holds_strict)

text \<open>
  C2: Any sequence of reads on one open image, cached and strict ones mixed, in any order,
  at any offsets and of any lengths, returns the slices of the media asked for; neither
  the page cache nor the chunk cache, as earlier reads left them, shows in any answer.
\<close>

theorem any_reads_are_slices:
  assumes "image_holds (policy_chunk (en_decoders E) img (cap = 0) z) img m"
    and "image_holds (strict_chunk (en_decoders E) img (cap = 0)) img m"
    and "image_inv E img pages chunks cap k z s"
    and "\<forall>call \<in> set calls. read_call_length call < 2 ^ 64"
  shows "fst (run_reads E img calls s) = Inr (map (asked m) calls) \<and>
    image_inv E img pages chunks cap k z (snd (run_reads E img calls s))"
  using run_reads_computes [OF assms(1,2,4)] assms(3) by (blast intro: computes_fst computes_inv)

theorem any_reads_are_slices_witness:
  "fst (run_reads sample_env sample_image [ReadAt 2 1, ReadAtStrict 1 0, ReadAt 9 2] (sample_state True))
    = Inr [[8, 9], [7], [9]]"
  using any_reads_are_slices [OF sample_policy_holds sample_strict_holds sample_image_inv [of True],
      of "[ReadAt 2 1, ReadAtStrict 1 0, ReadAt 9 2]"]
  by (simp add: slice_def)

text \<open>
  C3: A strict read depends on nothing but the image: two states with different chunk
  caches, page caches and chunks in flight, and with different policies for unreadable
  chunks, answer it alike, errors included.
\<close>

theorem strict_reads_ignore_state:
  assumes "reading_inv E img pages cap z cc fl s" "reading_inv E img pages cap z' cc' fl' s'" "n < 2 ^ 64"
  shows "fst (read_at_impl E img n off True s) = fst (read_at_impl E img n off True s')"
  using computes_fst [OF read_at_strict [OF assms(3)] assms(1)] computes_fst [OF read_at_strict [OF assms(3)] assms(2)]
  by simp

lemma sample_reading_inv: "reading_inv sample_env sample_image id 8192 z [] [] (sample_state z)"
  using sample_image_inv [of z] by (simp add: image_inv_def sample_state_def)

theorem strict_reads_ignore_state_witness:
  "fst (read_at_impl sample_env sample_image 2 0 True (sample_state False))
    = fst (read_at_impl sample_env sample_image 2 0 True (sample_state True))"
  using strict_reads_ignore_state [OF sample_reading_inv [of False] sample_reading_inv [of True]] by simp

text \<open>
  C13: Consecutive reads through a cursor, of any sizes, deliver the media from the
  cursor's position on without gap or overlap, stop at its end, and leave the cursor
  behind the last byte delivered.
\<close>

theorem cursor_streams_the_media:
  assumes "image_inv E img pages chunks cap k z s"
    and "image_holds (policy_chunk (en_decoders E) img (cap = 0) z) img m"
    and "\<forall>n \<in> set ns. n < 2 ^ 64" and "unat position \<le> length m"
  shows "\<exists>s'. cursor_reads E img ns (position, s)
    = (Inr (slice m (unat position) (unat position + sum_list ns)),
       (word_of_nat (min (length m) (unat position + sum_list ns)), s'))"
  using cursor_reads_ok [OF assms] by blast

theorem cursor_streams_the_media_witness:
  "\<exists>s'. cursor_reads sample_env sample_image [1, 1, 4] (1, sample_state False) = (Inr [8, 9], (3, s'))"
  using cursor_streams_the_media [OF sample_image_inv [of False] sample_policy_holds, of "[1, 1, 4]" 1]
  by (simp add: slice_def)


text \<open>
  C7: Reading a catalogued file returns the bytes of the file - its extents joined with
  sparse parts as zeroes, the data another entry shares, or the one byte an EWF1 sparse
  entry repeats - from the offset on, cut off at the file's size, and leaves the rest of
  the caller's buffer alone.
\<close>

theorem files_read_their_content:
  assumes "single_file_size entry = Inr sz" "entry_ok img entry m (unat sz)" "length buf < 2 ^ 64"
    and "image_inv E img pages chunks cap k z s"
    and "image_holds (policy_chunk (en_decoders E) img (cap = 0) z) img m"
  shows "fst (read_single_file_at E img entry buf off s)
    = (let w = slice (file_content img entry m (unat sz)) (unat off) (min (unat sz) (unat off + length buf))
       in Inr (length w, splice buf 0 w))"
proof -
  have na: "computes (image_inv E img pages chunks cap k z) ensure_not_aborted (Inr ())"
    by (rule image_inv_not_aborted)
  have "computes (\<lambda>s. image_inv E img pages chunks cap k z s \<and>
      image_holds (policy_chunk (en_decoders E) img (cap = 0) z) img m)
    (read_single_file_at E img entry buf off)
    (let w = slice (file_content img entry m (unat sz)) (unat off) (min (unat sz) (unat off + length buf))
     in Inr (length w, splice buf 0 w))"
    unfolding read_single_file_at_def read_single_file_at_impl_def
    by (rule computes_after_Inr, use na in \<open>simp add: computes_def\<close>,
        rule cached_media.read_file_computes [OF assms(1-3)])
  from computes_fst [OF this] assms(4,5) show ?thesis by blast
qed

definition sample_file :: file_entry where
  "sample_file = \<lparr>fe_flags = None, fe_size = Some 4, fe_duplicate_data_offset = None,
     fe_extents = [\<lparr>ex_data_offset = 1, ex_data_size = 2, ex_sparse = False\<rparr>,
       \<lparr>ex_data_offset = 0, ex_data_size = 2, ex_sparse = True\<rparr>]\<rparr>"

lemma sample_file_ok: "single_file_size sample_file = Inr 4" "entry_ok sample_image sample_file [7, 8, 9] 4"
  by (simp_all add: sample_file_def single_file_size_def entry_ok_def duplicate_offset_def ewf1_logical_sparse_def
      extent_ok_def)

theorem files_read_their_content_witness:
  "fst (read_single_file_at sample_env sample_image sample_file [1, 1, 1, 1, 1] 1 (sample_state False))
    = Inr (3, [9, 0, 0, 1, 1])"
proof -
  have two: "replicate 2 (0 :: u8) = [0, 0]" by (simp add: numeral_2_eq_2)
  have "file_content sample_image sample_file [7, 8, 9] 4 = [8, 9] @ replicate 2 0"
    by (simp add: file_content_def sample_file_def duplicate_offset_def ewf1_logical_sparse_def extent_bytes_def
        slice_def)
  then have "file_content sample_image sample_file [7, 8, 9] 4 = [8, 9, 0, 0]" unfolding two by simp
  then show ?thesis
    using files_read_their_content [OF sample_file_ok(1) _ _ sample_image_inv [of False] sample_policy_holds,
        of "[1, 1, 1, 1, 1]" 1] sample_file_ok(2)
    by (simp add: slice_def splice_def)
qed

text \<open>
  C6: Whatever sequence of calls a client makes on a writer, successful or failing, the
  writer's invariant holds and its media are the data of the successful calls laid over
  what was there before, in order; a failed call changes no byte. Encoded chunks the
  writer remembers always still decode to the media they stand for.
\<close>

theorem writer_histories_keep_the_media:
  assumes "writer_inv D w" "\<forall>call \<in> set calls. call_fits call" "unat (ew_chunk_size w) + 4 < 2 ^ 64"
  shows "writer_inv D (run_calls D calls w) \<and>
    writer_byte (run_calls D calls w) = media_after D calls w (writer_byte w)"
  using run_calls_ok [OF assms] by simp

theorem writer_histories_keep_the_media_witness:
  "writer_byte (run_calls sample_decoders [WriteBuffer [7, 8, 9], SeekTo (SeekStart 1)] sample_new) 1 = 8"
proof -
  have ok: "is_ok (fst (run_call sample_decoders (WriteBuffer [7, 8, 9]) sample_new))"
    by (simp add: run_call_def write_buffer_def write_to_current_def sbind_def writer_ensure_not_aborted_def
      sample_new_def sample_options_def checked_add_def raw_write_at_def raw_spool_new_def file_write_def
      forget_encoded_chunks_in_range_def Let_def cong del: if_weak_cong)
  show ?thesis
    using writer_histories_keep_the_media [OF sample_new_inv [of sample_decoders],
        of "[WriteBuffer [7, 8, 9], SeekTo (SeekStart 1)]"] ok
    by (simp add: call_fits_def sample_new_def [THEN arg_cong [where f = ew_chunk_size]] overlay_def call_data_def
        call_start_def)
       (simp add: sample_new_def)
qed

section \<open>Chunks\<close>

text \<open>
  C8: Whatever form the writer chooses for a chunk - raw with a checksum, zlib, bzip2, an
  empty block, a repeated pattern - the reader's decoder yields the chunk's bytes again,
  the stored size is within the reader's limit for that form, and a stored checksum is
  accepted.
\<close>

theorem encoded_chunks_decode:
  assumes "compressors_lawful C D"
    and "encode_chunk C data compression level chunk_size pf eb = Inr e"
    and "length data \<le> unat chunk_size" "length data + 1 < 2 ^ 64" "eb \<Longrightarrow> compression \<noteq> WriteBzip2"
  shows "decode_chunk D (en_bytes e) (stored_encoding (method_of compression) e) (length data) = Inr data \<and>
    (en_pattern_fill e = None \<longrightarrow> 0 < length (en_bytes e) \<and>
      length (en_bytes e) \<le> cap_nat (stored_encoding (method_of compression) e) (unat chunk_size)) \<and>
    (en_has_checksum e \<longrightarrow> validate_raw_chunk_checksum (en_bytes e) (length data) = Inr ())"
  using encode_chunk_stores [OF assms] by (simp add: stores_def)

theorem encoded_chunks_decode_witness:
  "\<exists>e. encode_chunk sample_compressors [5, 5] WriteZlib LevelFast 4 True True = Inr e \<and>
    decode_chunk sample_decoders (en_bytes e) (stored_encoding EncZlib e) (length [5 :: u8, 5]) = Inr [5, 5]"
proof -
  have "\<exists>e. encode_chunk sample_compressors [5, 5] WriteZlib LevelFast 4 True True = Inr e"
    by (auto simp: encode_chunk_def Let_def split: option.splits)
  then obtain e where e: "encode_chunk sample_compressors [5, 5] WriteZlib LevelFast 4 True True = Inr e" ..
  show ?thesis using encoded_chunks_decode [OF sample_law e] e by (simp add: method_of_def)
qed

text \<open>
  C19: A chunk is stored as a pattern exactly when it is some eight bytes repeated, and the
  stored pattern repeated to the chunk's length is the chunk.
\<close>

theorem pattern_fill_is_exact:
  assumes ne: "chunk \<noteq> []"
  shows "case repeated_ewf2_pattern chunk of
      Some pat \<Rightarrow> pattern_fill pat (length chunk) = chunk
    | None \<Rightarrow> \<forall>p. pattern_fill p (length chunk) \<noteq> chunk"
proof (cases "repeated_ewf2_pattern chunk")
  case (Some pat)
  then show ?thesis using repeated_ewf2_pattern_fill by simp
next
  case none: None
  have "pattern_fill p (length chunk) \<noteq> chunk" for p
  proof
    assume fill: "pattern_fill p (length chunk) = chunk"
    have nth: "chunk ! i = le64 p ! (i mod 8)" if "i < length chunk" for i
      using nth_pattern_fill [OF that, of p] by (simp add: fill)
    let ?pat = "splice (replicate 8 0) 0 (take (min (length chunk) 8) chunk)"
    have pat: "?pat ! (i mod 8) = chunk ! i" if i: "i < length chunk" for i
    proof -
      have le: "i mod 8 < length chunk" using i le_less_trans [OF mod_less_eq_dividend] by blast
      then have "?pat ! (i mod 8) = chunk ! (i mod 8)" by (simp add: splice_def nth_append)
      then show ?thesis using nth [OF i] nth [OF le] by simp
    qed
    have "list_all (\<lambda>(i, b). b = ?pat ! (i mod 8)) (enumerate 0 chunk)"
      by (auto simp: list_all_iff in_set_enumerate_eq pat)
    with ne none show False by (simp add: repeated_ewf2_pattern_def Let_def)
  qed
  with none show ?thesis by simp
qed

theorem pattern_fill_is_exact_witness:
  "\<exists>pat. repeated_ewf2_pattern [7, 7, 7] = Some pat \<and> pattern_fill pat (length [7 :: u8, 7, 7]) = [7, 7, 7]"
proof -
  have "\<exists>pat. repeated_ewf2_pattern [7, 7, 7] = Some pat"
    by (simp add: repeated_ewf2_pattern_def splice_def Let_def)
  then show ?thesis using pattern_fill_is_exact [of "[7, 7, 7]"] by auto
qed

text \<open>
  A chunk appended to the chunk spool is copied out of it unchanged, whatever is
  appended after it, and copying leaves the spool's content as it is; the copy loop ends.
\<close>

lemma spooled_chunks_are_copied:
  assumes "spool_append e spool = Inr (d, spool1)" "chunk_spool_ok spool" "length (en_bytes e) < 2 ^ 64"
    and "chunk_spool_ok spool2" "cs_file spool2 = cs_file spool1 @ later"
  shows "\<exists>spool3. copy_chunk_to d spool2 = Inr (en_bytes e, spool3) \<and> cs_file spool3 = cs_file spool2"
proof -
  note ap = spool_append_ok [OF assms(1-3)]
  have "unat (cd_data_offset d) + unat (cd_data_size d) \<le> length (cs_file spool2)"
    using ap(2-4) assms(5) by simp
  moreover have "en_bytes (spooled (cs_file spool2) d) = en_bytes e"
    using ap(2-5) assms(5) by (simp add: spooled_def slice_def)
  ultimately show ?thesis using copy_chunk_to_ok [OF _ assms(4), of d] by auto
qed

lemma spooled_chunks_are_copied_witness:
  "\<exists>d spool1 spool3. spool_append (encode_uncompressed [4, 2]) chunk_spool_new = Inr (d, spool1) \<and>
    copy_chunk_to d spool1 = Inr (en_bytes (encode_uncompressed [4, 2]), spool3)"
proof -
  have new: "chunk_spool_ok chunk_spool_new" by (simp add: chunk_spool_ok_def chunk_spool_new_def)
  have len: "length (en_bytes (encode_uncompressed [4, 2])) < 2 ^ 64" by (simp add: encode_uncompressed_def)
  obtain d spool1 where a: "spool_append (encode_uncompressed [4, 2]) chunk_spool_new = Inr (d, spool1)"
    by (auto simp: spool_append_def chunk_spool_new_def Let_def checked_add_def encode_uncompressed_def)
  show ?thesis
    using spooled_chunks_are_copied [OF a new len spool_append_ok(1) [OF a new len], of "[]"] a by auto
qed

section \<open>Tables, indexes and caches\<close>

datatype cache_op = CacheGet table_page_key | CacheInsert table_page_key bytes

fun run_cache :: "'c page_lru \<Rightarrow> cache_op list \<Rightarrow> 'c table_page_cache \<Rightarrow> 'c table_page_cache" where
  "run_cache L [] pc = pc"
| "run_cache L (CacheGet key # ops) pc = run_cache L ops (snd (page_cache_get L key pc))"
| "run_cache L (CacheInsert key bs # ops) pc = run_cache L ops (snd (page_cache_insert L key bs pc))"

lemma run_cache_ok:
  assumes "lru_lawful None L entries" "page_cache_ok entries pc" "pc_capacity_bytes pc < 2 ^ 64 - 1"
  shows "page_cache_ok entries (run_cache L ops pc) \<and>
    pc_capacity_bytes (run_cache L ops pc) = pc_capacity_bytes pc \<and>
    (\<forall>key page. map_of (entries (pc_pages (run_cache L ops pc))) key = Some page \<longrightarrow>
      map_of (entries (pc_pages pc)) key = Some page \<or> CacheInsert key page \<in> set ops)"
  using assms(2,3)
proof (induction ops arbitrary: pc)
  case (Cons op ops)
  show ?case
  proof (cases op)
    case (CacheGet key)
    from page_cache_get_ok [OF assms(1) Cons.prems(1), of key] Cons.prems(2) show ?thesis
      using Cons.IH [of "snd (page_cache_get L key pc)"] by (simp add: CacheGet)
  next
    case (CacheInsert key bs)
    from page_cache_insert_ok [OF assms(1) Cons.prems, of key bs] Cons.prems(2) show ?thesis
      using Cons.IH [of "snd (page_cache_insert L key bs pc)"] by (auto simp: CacheInsert)
  qed
qed simp

text \<open>
  C9: After any sequence of lookups and insertions the page cache holds at most its
  capacity, its byte count is exactly the total of the pages it holds, and every page it
  holds was inserted under the key it is found under.
\<close>

theorem page_cache_stays_within_capacity:
  assumes "lru_lawful None L entries" "entries empty_pages = []" "capacity < 2 ^ 64 - 1"
  shows "let pc = run_cache L ops (page_cache_new empty_pages capacity) in
    pc_cached_bytes pc = held_bytes (entries (pc_pages pc)) \<and> pc_cached_bytes pc \<le> capacity \<and>
    (map_of (entries (pc_pages pc)) key = Some page \<longrightarrow> CacheInsert key page \<in> set ops)"
  using run_cache_ok [OF assms(1) page_cache_new_ok [of entries empty_pages capacity], of ops] assms(2,3)
  by (auto simp: page_cache_ok_def page_cache_new_def Let_def)

theorem page_cache_stays_within_capacity_witness:
  "pc_cached_bytes (run_cache (list_lru None) [CacheInsert \<lparr>pk_segment_index = 0, pk_page_offset = 0\<rparr> [1, 2, 3],
     CacheInsert \<lparr>pk_segment_index = 0, pk_page_offset = 4096\<rparr> [4, 5, 6]] (page_cache_new [] 5)) \<le> 5"
  using page_cache_stays_within_capacity [OF list_lru_lawful, where capacity = 5 and empty_pages = "[]"
      and ops = "[CacheInsert \<lparr>pk_segment_index = 0, pk_page_offset = 0\<rparr> [1, 2, 3],
        CacheInsert \<lparr>pk_segment_index = 0, pk_page_offset = 4096\<rparr> [4, 5, 6]]"
      and key = "\<lparr>pk_segment_index = 0, pk_page_offset = 0\<rparr>" and page = "[]"]
  by (simp add: Let_def del: run_cache.simps)

text \<open>
  C11: Reading table bytes page by page through the cache yields exactly the segment's
  bytes, whatever pages the cache holds and whether it is enabled or not, and fails
  without reading past the segment's end.
\<close>

theorem table_reads_are_segment_bytes:
  assumes "lru_lawful None L entries" "cache_inv entries segs cap pc" "i < length segs" "length (segs ! i) < 2 ^ 64"
    and "0 < unat n"
  shows "if unat off + unat n \<le> length (segs ! i)
    then fst (read_table_bytes_at L segs i off n pc) = Inr (slice (segs ! i) (unat off) (unat off + unat n))
    else \<exists>msg. fst (read_table_bytes_at L segs i off n pc) = Inl (Malformed msg)"
  using assms(5) computes_fst [OF read_table_bytes_computes [OF assms(1)] assms(2)]
    table_bytes_inside [OF assms(3,4)] table_bytes_outside [OF assms(3,4)] by (auto simp: not_le)

theorem table_reads_are_segment_bytes_witness:
  "fst (read_table_bytes_at (list_lru None) [[1, 2, 3, 4, 5]] 0 1 3 (page_cache_new [] 4096)) = Inr [2, 3, 4]"
proof -
  have "cache_inv id [[1, 2, 3, 4, 5 :: u8]] 4096 (page_cache_new [] 4096)"
    by (simp add: cache_inv_def page_cache_ok_def page_cache_new_def coherent_def)
  from table_reads_are_segment_bytes [OF list_lru_lawful this, of 0 3 1] show ?thesis
    by (simp add: slice_def)
qed

text \<open>
  C10: An index that is built from the table ranges found in the segments, in any order,
  assigns every chunk of the image to exactly one range, the one a lookup finds, and a
  lookup of any other chunk fails. The chunks counted are those of the media's size.
\<close>

theorem built_indexes_cover_every_chunk:
  assumes "chunk_index_new ranges logical_size chunk_size = Inr ix"
  shows "unat (ix_logical_chunks ix) = (unat logical_size + unat chunk_size - 1) div unat chunk_size \<and>
    (if unat c < unat (ix_logical_chunks ix)
     then \<exists>k rng. range_index_for ix c = Inr (k, rng) \<and> rng \<in> set ranges \<and> in_range c rng \<and>
       (\<forall>j < length (ix_ranges ix). in_range c (ix_ranges ix ! j) \<longleftrightarrow> j = k)
     else \<exists>msg. range_index_for ix c = Inl (Malformed msg))"
proof -
  note new = chunk_index_new_ok [OF assms]
  have "unat (ix_logical_chunks ix) = (unat logical_size + unat chunk_size - 1) div unat chunk_size"
    using new(2) by (rule logical_chunk_count_ok(2))
  moreover have "\<exists>msg. range_index_for ix c = Inl (Malformed msg)" if "unat (ix_logical_chunks ix) \<le> unat c"
    using that by (simp add: range_index_for_def word_le_nat_alt)
  moreover have "\<exists>k rng. range_index_for ix c = Inr (k, rng) \<and> rng \<in> set ranges \<and> in_range c rng \<and>
      (\<forall>j < length (ix_ranges ix). in_range c (ix_ranges ix ! j) \<longleftrightarrow> j = k)"
    if c: "unat c < unat (ix_logical_chunks ix)"
  proof -
    obtain k where k: "range_index_for ix c = Inr (k, ix_ranges ix ! k)" "k < length (ix_ranges ix)"
      "in_range c (ix_ranges ix ! k)" using range_index_for_ok [OF new(1) c] by blast
    have "ix_ranges ix ! k \<in> set ranges" using k(2) nth_mem [of k "ix_ranges ix"] by (simp add: new(3))
    moreover have "in_range c (ix_ranges ix ! j) \<longleftrightarrow> j = k" if "j < length (ix_ranges ix)" for j
      using covers_unique [OF new(1) [unfolded index_ok_def] that k(2) _ k(3)] k(3) by blast
    ultimately show ?thesis using k by blast
  qed
  ultimately show ?thesis by (auto simp: not_less)
qed

theorem built_indexes_cover_every_chunk_witness:
  "\<exists>ix. chunk_index_new [sample_range] 3 2 = Inr ix \<and> unat (ix_logical_chunks ix) = 2"
proof -
  obtain ix where ix: "chunk_index_new [sample_range] 3 2 = Inr ix"
    by (simp add: chunk_index_new_def logical_chunk_count_def checked_sub_def check_range_def sample_range_def
        checked_add_def)
  show ?thesis using built_indexes_cover_every_chunk [OF ix] ix by simp
qed

text \<open>
  C20: The full-width reading of an EWF1 entry with the high bit set, which
  \<open>should_use_full_width_ewf1_offset\<close> means for offsets above two gigabytes, is never
  chosen for an entry that has a successor, whatever the successor is: only the last
  entry of a table can get it.
\<close>

theorem full_width_offsets_only_in_last_entries:
  assumes "should_use_full_width_ewf1_offset rng raw masked chunk_size next_raw fin = Inr True"
    and "checked_add (tr_base_offset rng) (ucast (raw AND 0x7fffffff)) = Some masked"
  shows "next_raw = None"
proof (cases next_raw)
  case (Some r)
  with not_full_width_before_last [OF assms(2), of chunk_size r fin] assms(1) show ?thesis by simp
qed

theorem full_width_offsets_only_in_last_entries_witness:
  "should_use_full_width_ewf1_offset (sample_range\<lparr>tr_data_end := Some 0x80000014\<rparr>) 0x80000010 16 4 None True
    = Inr True \<and> None = (None :: u32 option)"
proof -
  have *: "should_use_full_width_ewf1_offset (sample_range\<lparr>tr_data_end := Some 0x80000014\<rparr>) 0x80000010 16 4 None True
    = Inr True"
    by (simp add: should_use_full_width_ewf1_offset_def sample_range_def checked_add_def Let_def
        zlib_compressed_chunk_size_cap_def raw_chunk_size_cap_def saturating_sub_def checked_mul_def checked_sub_def
        cong del: if_weak_cong)
  show ?thesis using full_width_offsets_only_in_last_entries [OF *] * by (simp add: sample_range_def checked_add_def)
qed

section \<open>Checksums\<close>

text \<open>
  C21: The Adler-32 the library computes is the one of RFC 1950 (sums modulo 65521 of the
  bytes and of the running sums), its four copies in the code agree, and a changed byte
  always changes it.
\<close>

theorem adler32_is_standard_and_detects_changes:
  "unat (adler32 data) = 65536 * ((length data + weighted_sum data) mod 65521)
     + (1 + sum_list (map unat data)) mod 65521 \<and>
   types_adler32 data = adler32 data \<and> metadata_adler32 data = adler32 data \<and>
   writer_adler32 data = adler32 data \<and>
   (x \<noteq> y \<longrightarrow> adler32 (p @ x # q) \<noteq> adler32 (p @ y # q))"
  by (simp_all add: unat_adler32 adler_high_def adler_low_def adler32_differs)

theorem adler32_is_standard_and_detects_changes_witness:
  "adler32 ([1] @ 2 # [3]) \<noteq> adler32 ([1] @ 4 # [3])"
  using adler32_is_standard_and_detects_changes [where p = "[1]" and x = 2 and y = 4 and q = "[3]"] by simp

text \<open>
  C22: The checksum of table entries, streamed through a buffer of 64 KiB, is the checksum
  of the whole range read at once; the loop ends for every length. So validation accepts
  a table exactly when no checksum is stored or it is that of the entries.
\<close>

theorem table_checksums_are_validated_exactly:
  assumes "unat entries_offset + unat entry_bytes \<le> length seg" "unat checksum_offset + 4 \<le> length seg"
  shows "validate_present_table_entries_checksum seg entries_offset entry_bytes checksum_offset label = Inr () \<longleftrightarrow>
    (let stored = from_le (slice seg (unat checksum_offset) (unat checksum_offset + 4)) in
     stored = 0 \<or> stored = adler32 (slice seg (unat entries_offset) (unat entries_offset + unat entry_bytes)))"
  using assms
  by (simp add: validate_present_table_entries_checksum_def stream_adler32_eq read_exact_at_def read_exact_ok Let_def)

theorem table_checksums_are_validated_exactly_witness:
  "validate_present_table_entries_checksum [1, 2, 3, 4, 0, 0, 0, 0] 0 4 4 [] = Inr ()"
  using table_checksums_are_validated_exactly [of 0 4 "[1, 2, 3, 4, 0, 0, 0, 0]" 4 "[]"]
  by (simp add: slice_def)

section \<open>The fixed records\<close>

text \<open>
  A section descriptor the writer emits is parsed to the section type, the next
  offset and the size it was written with, and carries the checksum of its own bytes.
\<close>

lemma section_descriptors_round_trip:
  assumes "length t \<le> 16" "\<And>b. b \<in> set t \<Longrightarrow> 0 < b \<and> b < 0x80"
  shows "ewf1_section_descriptor_parse (section_desc t nxt sz) off =
      Inr \<lparr>sd_section_type = str_of t, sd_next = nxt, sd_size = sz, sd_offset = off, sd_compression_method = None\<rparr> \<and>
    length (section_desc t nxt sz) = 76 \<and>
    u32_at (section_desc t nxt sz) 72 = adler32 (take 72 (section_desc t nxt sz))"
  using section_desc_parse [OF assms] section_desc_fields(5) [OF assms(1), of nxt sz] length_section_desc [OF assms(1)]
  by (simp_all add: slice_def)

lemma section_descriptors_round_trip_witness:
  "ewf1_section_descriptor_parse (section_desc (bytes_of ''table'') 500 176) 324 =
    Inr \<lparr>sd_section_type = ''table'', sd_next = 500, sd_size = 176, sd_offset = 324, sd_compression_method = None\<rparr>"
proof -
  have "0 < b \<and> b < 0x80" if "b \<in> set (bytes_of ''table'')" for b
    using that by (auto simp: bytes_of_def)
  from section_descriptors_round_trip [OF _ this] show ?thesis by simp
qed

text \<open>
  C15: The table the writer appends for a group of chunks is read back entry by entry:
  the entry of chunk \<open>i\<close> parses to its compression flag and to the sum of the sizes of
  the chunks before it, and the header and the footer carry the checksums of their bytes.
\<close>

theorem ewf1_tables_round_trip:
  assumes "append_ewf1_table_data bs n base cs True = Inr out" "i < length cs"
  shows "ewf1_table_entry_parse (slice out (length bs + 24 + i * 4) (length bs + 24 + i * 4 + 4))
      = Inr (ewf1_entry_view (cd_compressed (cs ! i), sum_list (map (unat \<circ> cd_data_size) (take i cs)))) \<and>
    u32_at out (length bs + 20) = adler32 (slice out (length bs) (length bs + 20)) \<and>
    u32_at out (length bs + 24 + length cs * 4)
      = adler32 (slice out (length bs + 24) (length bs + 24 + length cs * 4))"
proof -
  let ?es = "entry_offsets 0 cs"
  let ?t = "concat (map ewf1_entry_bytes ?es)"
  note ok = append_ewf1_table_data_ok [OF assms(1)]
  have out: "out = bs @ table_header n base @ ?t @ le32 (adler32 ?t)" using ok(1) by simp
  have small: "\<And>e. e \<in> set ?es \<Longrightarrow> snd e < 0x80000000" using ok(2) by blast
  have len: "length ?t = length cs * 4" using ewf1_table.length_table [OF small] by simp
  have shift: "slice (xs @ ys) (length xs + a) (length xs + b) = slice ys a b" for xs ys :: bytes and a b
    by (simp add: slice_def)
  have "slice out (length bs + 24 + i * 4) (length bs + 24 + i * 4 + 4)
      = slice (?t @ le32 (adler32 ?t)) (i * 4) (i * 4 + 4)"
    using shift [of "bs @ table_header n base" "?t @ le32 (adler32 ?t)" "i * 4" "i * 4 + 4"]
    by (simp add: out add.assoc)
  then have entry: "ewf1_table_entry_parse (slice out (length bs + 24 + i * 4) (length bs + 24 + i * 4 + 4))
      = Inr (ewf1_entry_view (cd_compressed (cs ! i), sum_list (map (unat \<circ> cd_data_size) (take i cs))))"
    using ewf1_table.dec_slice_table [OF small, where i = i and rest = "le32 (adler32 ?t)"] assms(2)
    by (simp add: nth_entry_offsets)
  have h: "slice out (length bs + a) (length bs + b) = slice (table_header n base) a b" if "b \<le> 24" for a b
    using shift [of bs "table_header n base @ ?t @ le32 (adler32 ?t)" a b] that
    by (simp add: out slice_app)
  have header: "u32_at out (length bs + 20) = adler32 (slice out (length bs) (length bs + 20))"
    using table_header_fields(3) [of n base] h [of 24 20] h [of 20 0] by (simp add: add.commute)
  have "slice out (length bs + 24) (length bs + 24 + length cs * 4) = ?t"
    using shift [of "bs @ table_header n base" "?t @ le32 (adler32 ?t)" 0 "length cs * 4"]
    by (simp add: out len [symmetric] add.assoc) (simp add: slice_def)
  moreover have "slice out (length bs + 24 + length cs * 4) (length bs + 24 + length cs * 4 + 4) = le32 (adler32 ?t)"
    using shift [of "bs @ table_header n base @ ?t" "le32 (adler32 ?t)" 0 4]
    by (simp add: out len [symmetric] add.assoc) (simp add: slice_def)
  ultimately show ?thesis using entry header by simp
qed

theorem ewf1_tables_round_trip_witness:
  "\<exists>out. append_ewf1_table_data [] 2 0 sample_chunks True = Inr out \<and>
    ewf1_table_entry_parse (slice out 28 32) = Inr (ewf1_entry_view (False, 6))"
proof -
  obtain out where out: "append_ewf1_table_data [] 2 0 sample_chunks True = Inr out" using sample_table by blast
  show ?thesis
    using ewf1_tables_round_trip [OF out, of 1] out by (simp add: sample_chunks_def)
qed

text \<open>
  C17: The volume section the writer emits is parsed to the geometry, the media type and
  flags, the compression level, the set identifier and the error granularity of the
  options it was written from, and its last four bytes are the checksum of the rest.
\<close>

theorem volumes_round_trip:
  assumes "volume_data opts n sectors = Inr out" "wo_format opts \<in> {Ewf1Physical, Ewf1Logical}"
    and "\<forall>i \<in> set_option (wo_set_identifier opts). length i = 16"
  shows "\<exists>mt. ewf1_media_type_value (wo_format opts) (mp_media_type (wo_media_profile opts)) = Inr mt \<and>
    ewf1_volume_parse out = Inr \<lparr>vol_chunk_count = n,
      vol_sectors_per_chunk = wo_sectors_per_chunk opts,
      vol_bytes_per_sector = wo_bytes_per_sector opts,
      vol_sector_count = sectors,
      vol_set_identifier = nonzero_identifier (wo_set_identifier opts),
      vol_media_type = Some mt,
      vol_media_flags = Some (ewf1_media_flags_value (wo_format opts) (wo_media_profile opts)),
      vol_compression_level = Some (ewf1_compression_level_value (wo_level opts)),
      vol_error_granularity = volume_error_granularity (mp_error_granularity (wo_media_profile opts)),
      vol_smart = False\<rparr> \<and>
    length out = 1052 \<and> u32_at out 1048 = adler32 (slice out 0 1048)"
  using volume_data_parse [OF assms] volume_data_checksum [OF assms(1) _ assms(3)] assms(2) by auto

lemma sample_volume_data: "\<exists>out. volume_data sample_options 2 3 = Inr out"
  by (simp add: volume_data_def volume_data_size_def sample_options_def ewf1_media_type_value_def Let_def
      try_bind_def)

theorem volumes_round_trip_witness:
  "\<exists>out v. volume_data sample_options 2 3 = Inr out \<and> ewf1_volume_parse out = Inr v \<and>
    vol_chunk_count v = 2 \<and> vol_sector_count v = 3 \<and> vol_bytes_per_sector v = 1"
proof -
  obtain out where out: "volume_data sample_options 2 3 = Inr out" using sample_volume_data by blast
  show ?thesis using volumes_round_trip [OF out] out by (auto simp: sample_options_def)
qed

text \<open>
  An EWF2 section descriptor the writer emits is parsed to its type, its size and
  the offset of the descriptor before it, says that the data is neither hashed nor
  encrypted, and its last four bytes are the checksum of the sixty before them.
\<close>

lemma ewf2_descriptors_round_trip:
  "ewf2_section_descriptor_parse (ewf2_section_desc t n prev) off =
     Inr \<lparr>s2_section_type = section_type_from t, s2_data_flags = 0, s2_previous_offset = prev,
       s2_data_size = n, s2_descriptor_size = 64, s2_padding_size = 0,
       s2_data_integrity_hash = replicate 16 0, s2_offset = off,
       s2_has_integrity_hash = False, s2_encrypted = False\<rparr> \<and>
   u32_at (ewf2_section_desc t n prev) 60 = adler32 (take 60 (ewf2_section_desc t n prev))"
  using ewf2_section_desc_parse ewf2_section_desc_checksum [of t n prev] by (simp_all add: slice_def)

text \<open>
  C18: In a table of EWF2 entries every entry is parsed back, at its place, to the offset
  (or the pattern), the size and the flags it was written with, and different tables have
  different bytes.
\<close>

theorem ewf2_tables_round_trip:
  assumes "i < length es"
  shows "ewf2_table_entry_parse (slice (concat (map ewf2_entry_bytes es) @ rest) (i * 16) (i * 16 + 16)) mth
      = Inr (ewf2_entry_view mth (es ! i)) \<and>
    (concat (map ewf2_entry_bytes es) = concat (map ewf2_entry_bytes fs) \<longrightarrow>
      map (ewf2_entry_view mth) es = map (ewf2_entry_view mth) fs)"
  using ewf2_table.dec_slice_table [of es i rest mth] ewf2_table.table_inj_view [of es fs mth] assms by simp

theorem ewf2_tables_round_trip_witness:
  "ewf2_table_entry_parse (slice (concat (map ewf2_entry_bytes
      [\<lparr>en_offset = 96, en_size = 10, en_compressed = False, en_has_checksum = True, en_pattern_fill = False\<rparr>,
       \<lparr>en_offset = 0x55, en_size = 0, en_compressed = True, en_has_checksum = False, en_pattern_fill = True\<rparr>])
      @ [1, 2]) (1 * 16) (1 * 16 + 16)) CompZlib
    = Inr \<lparr>te2_chunk_data_offset = 0x55, te2_chunk_data_size = 0, te2_flags = 5, te2_kind = PatternFill\<rparr>"
  by (subst ewf2_tables_round_trip [THEN conjunct1]) (simp_all add: ewf2_entry_view_def ewf2_entry_flags_def)

text \<open>
  A stored digest of at most 28 bytes is read back from its EWF2 section unchanged,
  and the checksum behind it is that of the digest.
\<close>

lemma ewf2_digests_round_trip:
  assumes "length digest \<le> 28"
  shows "take (length digest) (ewf2_hash_payload digest) = digest \<and>
    u32_at (ewf2_hash_payload digest) (length digest) = adler32 digest"
  using ewf2_hash_payload_fields [OF assms] by (simp_all add: slice_def)

lemma ewf2_digests_round_trip_witness:
  "take (length [1 :: u8, 2, 3]) (ewf2_hash_payload [1, 2, 3]) = [1, 2, 3]"
  by (rule ewf2_digests_round_trip [THEN conjunct1]) simp

section \<open>Layout of segments\<close>

text \<open>
  C16: The table groups the EWF1 writer forms partition the chunks in order: no chunk is
  lost or repeated. A group has at most 16375 entries, its payload is the sum of its
  chunks' sizes, and it exceeds the limit of 31 bits only when it is a single chunk.
\<close>

theorem table_groups_partition_the_chunks:
  assumes "ewf1_table_groups chunks EWF1_TABLE_GROUP_MAX_ENTRIES EWF1_TABLE_GROUP_MAX_PAYLOAD = Inr groups"
  shows "concat (map (\<lambda>g. slice chunks (tg_first_chunk g) (tg_end_chunk g)) groups) = chunks \<and>
    (\<forall>g \<in> set groups. tg_end_chunk g - tg_first_chunk g \<le> 16375 \<and>
      unat (tg_payload_size g) = payload_of (slice chunks (tg_first_chunk g) (tg_end_chunk g)) \<and>
      (tg_end_chunk g - tg_first_chunk g \<le> 1 \<or> unat (tg_payload_size g) \<le> 0x7fffffff))"
proof -
  note ok = ewf1_table_groups_ok [OF assms]
  have "concat (map (\<lambda>g. slice chunks (tg_first_chunk g) (tg_end_chunk g)) groups) = chunks"
    using contiguous_concat_slices [OF ok(1), of chunks]
    by (simp add: group_range_def comp_def slice_def)
  moreover have "tg_end_chunk g - tg_first_chunk g \<le> 16375 \<and>
      unat (tg_payload_size g) = payload_of (slice chunks (tg_first_chunk g) (tg_end_chunk g)) \<and>
      (tg_end_chunk g - tg_first_chunk g \<le> 1 \<or> unat (tg_payload_size g) \<le> 0x7fffffff)"
    if "g \<in> set groups" for g
    using ok(2) [OF that] by (auto simp: group_ok_def Let_def EWF1_TABLE_GROUP_MAX_ENTRIES_def
        EWF1_TABLE_GROUP_MAX_PAYLOAD_def)
  ultimately show ?thesis by blast
qed

theorem table_groups_partition_the_chunks_witness:
  "\<exists>groups. ewf1_table_groups sample_chunks EWF1_TABLE_GROUP_MAX_ENTRIES EWF1_TABLE_GROUP_MAX_PAYLOAD = Inr groups \<and>
    concat (map (\<lambda>g. slice sample_chunks (tg_first_chunk g) (tg_end_chunk g)) groups) = sample_chunks"
proof -
  have "\<exists>groups. ewf1_table_groups sample_chunks EWF1_TABLE_GROUP_MAX_ENTRIES EWF1_TABLE_GROUP_MAX_PAYLOAD = Inr groups"
    by (simp add: ewf1_table_groups_def sample_chunks_def add_chunk_def table_group_state_default_def
        checked_add_def usize_add_def EWF1_TABLE_GROUP_MAX_ENTRIES_def EWF1_TABLE_GROUP_MAX_PAYLOAD_def)
  then show ?thesis using table_groups_partition_the_chunks by blast
qed

text \<open>
  The sections of all table groups - chunk data, table and, where the format has one,
  the second table - follow each other without gap or overlap from the first descriptor
  on: every section starts where the one before it ends, and the sizes are exact.
\<close>

lemma group_sections_are_contiguous:
  assumes "ewf1_table_group_layouts chunks cursor footer table2 = Inr layouts" "length chunks < 2 ^ 64"
  shows "(\<exists>end. contiguous (unat cursor) end (map layout_range layouts)) \<and>
    (\<forall>l \<in> set layouts. layout_exact (unat footer) table2 l) \<and>
    contiguous 0 (length chunks) (map (\<lambda>l. (gl_first_chunk l, gl_end_chunk l)) layouts)"
proof -
  obtain groups where g: "ewf1_table_groups chunks EWF1_TABLE_GROUP_MAX_ENTRIES EWF1_TABLE_GROUP_MAX_PAYLOAD = Inr groups"
    and l: "ewf1_layouts_loop footer table2 cursor groups = Inr layouts"
    using assms(1) by (auto simp: ewf1_table_group_layouts_def try_bind_Inr_iff)
  note ok = ewf1_table_groups_ok [OF g]
  have "tg_end_chunk x - tg_first_chunk x < 2 ^ 64" if "x \<in> set groups" for x
    using ok(2) [OF that] by (simp add: group_ok_def Let_def EWF1_TABLE_GROUP_MAX_ENTRIES_def)
  with ewf1_layouts_loop_ok [OF l] ok(1) show ?thesis by simp
qed

lemma group_sections_are_contiguous_witness:
  "\<exists>layouts end. ewf1_table_group_layouts sample_chunks 100 4 True = Inr layouts \<and>
    contiguous 100 end (map layout_range layouts)"
proof -
  obtain layouts where l: "ewf1_table_group_layouts sample_chunks 100 4 True = Inr layouts"
    by (simp add: ewf1_table_group_layouts_def ewf1_table_groups_def sample_chunks_def add_chunk_def
        table_group_state_default_def checked_add_def checked_mul_def usize_add_def EWF1_TABLE_GROUP_MAX_ENTRIES_def
        EWF1_TABLE_GROUP_MAX_PAYLOAD_def ewf1_group_layout_def)
  show ?thesis using group_sections_are_contiguous [OF l] l by (simp add: sample_chunks_def)
qed

section \<open>Bounds\<close>



text \<open>
  The reader's limit for the stored size of a chunk never refuses what a conforming
  compressor stores: for chunks up to 2^60 bytes it is computed without overflow, and it
  admits zlib's documented bounds for compressed and for stored blocks.
\<close>

lemma stored_size_limits_admit_zlib:
  assumes "unat chunk_size \<le> 2 ^ 60"
  shows "\<exists>limit. zlib_compressed_chunk_size_cap chunk_size = Inr limit \<and>
    unat chunk_size + unat chunk_size div 2 ^ 12 + unat chunk_size div 2 ^ 14 + unat chunk_size div 2 ^ 25 + 13 \<le> unat limit \<and>
    unat chunk_size + 5 * ((unat chunk_size + 511) div 512) + 6 \<le> unat limit"
proof -
  obtain m where m: "zlib_compressed_chunk_size_cap chunk_size = Inr m"
    using zlib_compressed_chunk_size_cap_total [OF assms] by blast
  show ?thesis using m zlib_compressed_chunk_size_cap_ok [OF m] zlib_cap_stored [of "unat chunk_size"]
    by (auto simp: zlib_cap_def)
qed

lemma stored_size_limits_admit_zlib_witness:
  "\<exists>limit. zlib_compressed_chunk_size_cap 32768 = Inr limit \<and> 32768 + 5 * 64 + 6 \<le> unat limit"
  using stored_size_limits_admit_zlib [of 32768] by auto

text \<open>
  C12: Reading a range of a segment subrange whose backing may return short reads and be
  interrupted any finite number of times ends, and returns exactly the bytes of the
  subrange at that offset.
\<close>

theorem segment_reads_end_with_the_bytes:
  assumes "source_subrange (source_from_backing (file_backing content) (word_of_nat (length content))) base len = Inr sub"
    and "length content < 2 ^ 64" "unat offset + n \<le> unat len"
  shows "\<exists>s'. source_read_exact_at sub offset n schedule
    = Some (Inr (slice content (unat base + unat offset) (unat base + unat offset + n)), s')"
proof -
  have "unat base + unat len \<le> length content"
    and sub: "sub = lawful_backing.view (file_backing content) base len"
    using assms(1,2) by (auto simp: source_subrange_Inr source_from_backing_def files.view_def unat_of_small_u64)
  from files.view_read_loop [OF this(1) assms(2) TrueI assms(3), of "[]" schedule]
  show ?thesis by (auto simp: source_read_exact_at_def sub)
qed

theorem segment_reads_end_with_the_bytes_witness:
  "\<exists>sub s'. source_subrange (source_from_backing (file_backing [1, 2, 3, 4, 5, 6]) 6) 1 4 = Inr sub \<and>
    source_read_exact_at sub 1 3 [0, 2, 0, 0] = Some (Inr [3, 4, 5], s')"
proof -
  obtain sub where sub: "source_subrange (source_from_backing (file_backing [1, 2, 3, 4, 5, 6]) 6) 1 4 = Inr sub"
    by (simp add: source_subrange_def checked_add_def source_from_backing_def)
  show ?thesis
    using segment_reads_end_with_the_bytes [where content = "[1, 2, 3, 4, 5, 6]" and base = 1 and len = 4 and sub = sub and offset = 1
      and n = 3 and schedule = "[0, 2, 0, 0]"] sub
    by (auto simp: slice_def)
qed

section \<open>Segment files\<close>



text \<open>
  C25: The size the writer estimates for an EWF1 segment that holds all metadata
  sections is the exact length of the file it then writes.
\<close>

theorem segment_estimates_are_exact:
  assumes "estimated_ewf1_segment_size (length chunks) payload (max (gs_group_count st) 1) options texts = Inr est"
    and "unat payload = data_total chunks" "group_state chunks = Inr st"
    and "write_ewf1_segment spool chunks options texts context = Inr (out, spool')"
    and "chunk_spool_ok spool" "laid_out start chunks" "start + data_total chunks \<le> length (cs_file spool)"
    and "\<forall>i \<in> set_option (wo_set_identifier options). length i = 16"
    and "length out < 2 ^ 64" "wc_sections context = sections_for_segment True True"
  shows "length out = unat est"
  using estimate_bounds_length(2) [OF assms(1-9)] assms(10) by (simp add: ALL_SECTIONS_def)

theorem segment_estimates_are_exact_witness:
  "\<exists>out spool' est. write_ewf1_segment (es_spool sample_spool) sample_chunks limited_options sample_texts
      (sample_context (sections_for_segment True True)) = Inr (out, spool') \<and>
    estimated_ewf1_segment_size 2 11 1 limited_options sample_texts = Inr est \<and> length out = unat est"
proof -
  obtain out spool' where w: "write_ewf1_segment (es_spool sample_spool) sample_chunks limited_options sample_texts
      (sample_context (sections_for_segment True True)) = Inr (out, spool')" "length out = 1528"
    using sample_written_segment by blast
  have "length out = unat (1528 :: u64)"
    by (rule segment_estimates_are_exact [OF _ _ sample_group_state w(1), where payload = 11 and start = 0])
      (simp_all add: sample_estimate sample_spool_laid_out w(2) sample_context_def limited_options_simps)
  with w(1) sample_estimate show ?thesis by auto
qed

text \<open>
  C26: A physical or logical EWF1 segment the writer emits is scanned and its tables are
  parsed without error, and the table ranges found describe every chunk of the segment
  exactly once, in order, from the first chunk the reader expects on.
\<close>

theorem written_segments_are_parsed:
  assumes "write_ewf1_segment spool chunks options texts context = Inr (out, spool')"
    and "chunk_spool_ok spool" "laid_out start chunks" "start + data_total chunks \<le> length (cs_file spool)"
    and "\<forall>i \<in> set_option (wo_set_identifier options). length i = 16"
    and "length out < 2 ^ 64" "wo_format options \<in> {Ewf1Physical, Ewf1Logical}"
    and "chunks \<noteq> []" "unat first_chunk + length chunks < 2 ^ 64"
  shows "\<exists>sections ranges. scan_ewf1_sections out = Inr sections \<and>
    parse_ewf1_ranges out sections index first_chunk logical_size profile = Inr ranges \<and>
    contiguous (unat first_chunk) (unat first_chunk + length chunks)
      (map (\<lambda>r. (unat (tr_first_chunk r), unat (tr_first_chunk r) + unat (tr_chunk_count r))) ranges)"
  by (rule write_scan_parse [OF assms])

theorem written_segments_are_parsed_witness:
  "\<exists>out spool' sections ranges. write_ewf1_segment (es_spool sample_spool) sample_chunks limited_options sample_texts
      (sample_context 15) = Inr (out, spool') \<and>
    scan_ewf1_sections out = Inr sections \<and>
    parse_ewf1_ranges out sections 0 0 3 \<lparr>rp_allow_large_compressed_chunks = False, rp_compression_method = ICZlib\<rparr> = Inr ranges \<and>
    contiguous 0 2 (map (\<lambda>r. (unat (tr_first_chunk r), unat (tr_first_chunk r) + unat (tr_chunk_count r))) ranges)"
proof -
  obtain out spool' where w: "write_ewf1_segment (es_spool sample_spool) sample_chunks limited_options sample_texts
      (sample_context 15) = Inr (out, spool')" "length out = 1528"
    using sample_written_segment by blast
  have "\<exists>sections ranges. scan_ewf1_sections out = Inr sections \<and>
    parse_ewf1_ranges out sections 0 0 3 \<lparr>rp_allow_large_compressed_chunks = False, rp_compression_method = ICZlib\<rparr> = Inr ranges \<and>
    contiguous (unat (0 :: u64)) (unat (0 :: u64) + length sample_chunks)
      (map (\<lambda>r. (unat (tr_first_chunk r), unat (tr_first_chunk r) + unat (tr_chunk_count r))) ranges)"
    by (rule written_segments_are_parsed [OF w(1), where start = 0])
      (simp_all add: w(2) sample_spool_laid_out limited_options_def sample_options_def sample_chunks_def)
  with w(1) show ?thesis by (simp add: sample_spool_laid_out numeral_2_eq_2)
qed

text \<open>
  C27: Scanning the section chain of any EWF1 file ends; the sections it reports follow
  one another in the file and none of them reaches beyond its end.
\<close>

theorem scanned_sections_lie_in_the_file:
  assumes "length seg < 2 ^ 64" "scan_ewf1_sections seg = Inr sections"
  shows "in_file_order FILE_HEADER_SIZE sections \<and> (\<forall>sec \<in> set sections. section_inside (length seg) sec)"
  using scan_ewf1_sections_ok [OF assms] by simp

theorem scanned_sections_lie_in_the_file_witness:
  "\<exists>seg sections. scan_ewf1_sections seg = Inr sections \<and> in_file_order FILE_HEADER_SIZE sections \<and>
    (\<forall>sec \<in> set sections. section_inside (length seg) sec) \<and> sections \<noteq> []"
proof -
  let ?seg = "replicate 13 0 @ section_chain 13 [(bytes_of ''volume'', [1, 2, 3])] (bytes_of ''done'')"
  let ?secs = "chain_sections 13 [(bytes_of ''volume'', [1, 2, 3])] (bytes_of ''done'')"
  have names: "section_name_ok (bytes_of ''volume'')" "section_name_ok (bytes_of ''done'')"
    by (simp_all add: section_name_ok_def bytes_of_def)
  have len: "length ?seg = 168" by (simp add: length_section_desc)
  have header: "length (replicate 13 (0 :: u8)) = 13" by simp
  have scan: "scan_ewf1_sections ?seg = Inr ?secs"
    by (rule scan_written_sections [OF _ refl header]) (use len names in simp_all)
  then have "in_file_order FILE_HEADER_SIZE ?secs \<and> (\<forall>sec \<in> set ?secs. section_inside (length ?seg) sec)"
    by (intro scanned_sections_lie_in_the_file) (simp_all add: length_section_desc)
  with scan show ?thesis by (intro exI [of _ ?seg] exI [of _ ?secs]) simp
qed

section \<open>Many threads\<close>



text \<open>
  C5: At every moment of every run, fair or not, no two threads decode, store or publish
  the same chunk: the work on a chunk is done by one thread, and the others wait for it.
\<close>

theorem chunks_decode_once:
  assumes "c = readers_after E img sched (readers_start s ids) k"
    and "t < length ids" "u < length ids" "t \<noteq> u"
    and "flight_held (snd (fst c ! t)) \<noteq> None" "flight_held (snd (fst c ! u)) \<noteq> None"
  shows "ids ! t \<noteq> ids ! u"
proof -
  have "map fst (fst c) = ids" using chunks_wanted [of E img sched "readers_start s ids" k]
    by (simp add: assms(1) readers_start_def comp_def)
  moreover from this have "length (fst c) = length ids" by (metis length_map)
  moreover have "flights_inv c" unfolding assms(1) by (rule flights_inv_after [OF flights_inv_start])
  ultimately show ?thesis using one_flight_per_chunk [of c t u] assms(2-) by (auto simp: pc_of_def)
qed

theorem chunks_decode_once_witness:
  "\<exists>c. flight_held (snd (fst c ! 0)) \<noteq> None \<and> flight_held (snd (fst c ! 1)) \<noteq> None \<and>
    c = readers_after sample_env sample_image (\<lambda>k. (if k < 3 then 0 else 1, False)) (readers_start (sample_state True) [0, 1]) 6 \<and>
    [0, 1] ! 0 \<noteq> ([0, 1] :: u64 list) ! 1"
proof -
  let ?sched = "\<lambda>k :: nat. (if k < 3 then 0 else 1 :: nat, False)"
  define run where "run = readers_after sample_env sample_image ?sched (readers_start (sample_state True) [0, 1])"
  have get: "lru_get (en_chunk_lru sample_env) i [] = (None, [])" for i by (simp add: sample_env_def list_lru_def touch_def)
  have turn: "run (Suc k) = reader_turn sample_env sample_image (?sched k) (run k)" for k by (simp add: run_def)
  note step = reader_turn_def notified_def ensure_not_aborted_def Let_def get
  have "run 0 = ([(0, Entering), (1, Entering)], \<lparr>sh_state = sample_state True, sh_in_flight = [], sh_complete = []\<rparr>)"
    by (simp add: run_def readers_start_def)
  moreover have "is_aborted (sample_state True) = False" "is_chunk_cache (sample_state True) = []" by (simp_all add: sample_state_def)
  moreover from this(2) have "(sample_state True)\<lparr>is_chunk_cache := []\<rparr> = sample_state True" by (simp add: sample_state_def)
  ultimately have "run (Suc (Suc (Suc (Suc (Suc (Suc 0)))))) = ([(0, Decoding 0), (1, Decoding 1)],
      \<lparr>sh_state = sample_state True, sh_in_flight = [(1, 1), (0, 0)], sh_complete = [False, False]\<rparr>)"
    by (simp add: turn step)
  then have held: "run 6 = ([(0, Decoding 0), (1, Decoding 1)],
      \<lparr>sh_state = sample_state True, sh_in_flight = [(1, 1), (0, 0)], sh_complete = [False, False]\<rparr>)"
    by (simp add: eval_nat_numeral)
  have "[0, 1] ! 0 \<noteq> ([0, 1] :: u64 list) ! 1"
    by (rule chunks_decode_once [OF fun_cong [OF run_def, of 6], of 0 1]) (simp_all add: held)
  with held show ?thesis by (intro exI [of _ "run 6"]) (simp add: run_def)
qed

section \<open>Encryption\<close>






section \<open>Metadata tables\<close>

text \<open>
  C28: Whatever acquisition errors the writer stores, in the EWF1 error2 section or in the
  EWF2 error table, the reader's parsers verify both checksums and return exactly the
  ranges that were stored.
\<close>

theorem error_tables_round_trip:
  "(ewf1_error2_payload errors = Inr (Some p) \<longrightarrow> parse_error2_data p = Inr errors) \<and>
   (ewf2_error_table_payload errors = Inr (Some q) \<longrightarrow> parse_ewf2_error_table_data q = Inr errors)"
  using error_tables_read_back by blast

theorem error_tables_round_trip_witness:
  "\<exists>p q. ewf1_error2_payload [\<lparr>ae_first_sector = 7, ae_sector_count = 2\<rparr>] = Inr (Some p) \<and>
    parse_error2_data p = Inr [\<lparr>ae_first_sector = 7, ae_sector_count = 2\<rparr>] \<and>
    ewf2_error_table_payload [\<lparr>ae_first_sector = 2 ^ 40, ae_sector_count = 2\<rparr>] = Inr (Some q) \<and>
    parse_ewf2_error_table_data q = Inr [\<lparr>ae_first_sector = 2 ^ 40, ae_sector_count = 2\<rparr>]"
proof -
  obtain p q where p: "ewf1_error2_payload [\<lparr>ae_first_sector = 7, ae_sector_count = 2\<rparr>] = Inr (Some p)"
    and q: "ewf2_error_table_payload [\<lparr>ae_first_sector = 2 ^ 40, ae_sector_count = 2\<rparr>] = Inr (Some q)"
    by (simp add: ewf1_error2_payload_def ewf2_error_table_payload_def ewf1_error_entry_def ewf2_error_entry_def
        narrow_def u32_of_usize_def Let_def)
  from error_tables_round_trip [THEN conjunct1, rule_format, OF p] error_tables_round_trip [THEN conjunct2, rule_format, OF q] p q
  show ?thesis by blast
qed

text \<open>
  C29: Sessions that cover the media without gap, and tracks that are absent or equal to
  the sessions, are read back exactly from the session section of EWF1 and from the
  session table of EWF2.
\<close>

theorem session_tables_round_trip:
  assumes "session_payload version sessions tracks = Inr (Some p)" "version = 1 \<or> version = 2"
    and "covering 0 sessions media" "sessions \<noteq> []" "tracks = [] \<or> tracks = sessions"
  shows "parse_session_data p version media = Inr \<lparr>sess_sessions = sessions, sess_tracks = tracks\<rparr>"
  using session_payload_parses [OF assms(1,2)] session_ranges_read_back [OF assms(3,5,4)] by simp

theorem session_tables_round_trip_witness:
  "\<exists>p. session_payload 1 [\<lparr>sr_first_sector = 0, sr_sector_count = 5\<rparr>, \<lparr>sr_first_sector = 5, sr_sector_count = 3\<rparr>] [] = Inr (Some p) \<and>
    parse_session_data p 1 8 = Inr \<lparr>sess_sessions =
      [\<lparr>sr_first_sector = 0, sr_sector_count = 5\<rparr>, \<lparr>sr_first_sector = 5, sr_sector_count = 3\<rparr>], sess_tracks = []\<rparr>"
proof -
  let ?s = "[\<lparr>sr_first_sector = 0, sr_sector_count = 5\<rparr>, \<lparr>sr_first_sector = 5, sr_sector_count = 3\<rparr>]"
  obtain p where p: "session_payload 1 ?s [] = Inr (Some p)"
    by (simp add: session_payload_def session_entries_def session_entry_def u32_of_usize_def narrow_def Let_def)
  have "parse_session_data p 1 8 = Inr \<lparr>sess_sessions = ?s, sess_tracks = []\<rparr>"
    by (rule session_tables_round_trip [OF p]) simp_all
  with p show ?thesis by blast
qed

text \<open>
  The EWF2 tables of memory extents and the auxiliary tables of single files (numbers
  and MD5 hashes) read back to what they were written from.
\<close>

lemma auxiliary_tables_round_trip:
  assumes "ewf2_memory_extents_table_payload extents = Some m"
    and "ewf2_single_files_aux_u64_table_payload entries = Inr (Some p)"
    and "ewf2_single_files_md5_hash_table_payload hashes = Inr (Some q)" "\<forall>h \<in> set hashes. length h = 16"
  shows "parse_ewf2_memory_extents_table m = Inr extents \<and>
    parse_ewf2_single_files_aux_u64_table p label = Inr entries \<and>
    parse_ewf2_single_files_md5_hash_table q = Inr hashes"
  using memory_extents_read_back [OF assms(1)] aux_tables_read_back(1) [OF assms(2)] aux_tables_read_back(2) [OF assms(3,4)]
  by simp

lemma auxiliary_tables_round_trip_witness:
  "\<exists>m p q. ewf2_memory_extents_table_payload [\<lparr>me_start_page = 3, me_page_count = 9\<rparr>] = Some m \<and>
    parse_ewf2_memory_extents_table m = Inr [\<lparr>me_start_page = 3, me_page_count = 9\<rparr>] \<and>
    ewf2_single_files_aux_u64_table_payload [1, 2] = Inr (Some p) \<and>
    parse_ewf2_single_files_aux_u64_table p ''table'' = Inr [1, 2] \<and>
    ewf2_single_files_md5_hash_table_payload [replicate 16 7] = Inr (Some q) \<and>
    parse_ewf2_single_files_md5_hash_table q = Inr [replicate 16 7]"
proof -
  obtain m p q where ok: "ewf2_memory_extents_table_payload [\<lparr>me_start_page = 3, me_page_count = 9\<rparr>] = Some m"
    "ewf2_single_files_aux_u64_table_payload [1, 2] = Inr (Some p)"
    "ewf2_single_files_md5_hash_table_payload [replicate 16 7] = Inr (Some q)"
    by (simp add: ewf2_memory_extents_table_payload_def ewf2_single_files_aux_u64_table_payload_def
        ewf2_single_files_md5_hash_table_payload_def ewf2_single_files_aux_table_payload_def u32_of_usize_def Let_def)
  from auxiliary_tables_round_trip [OF ok, of "''table''"] ok show ?thesis
    by (intro exI [of _ m] exI [of _ p] exI [of _ q]) simp
qed

section \<open>Stored hashes\<close>

text \<open>
  C30: Storing a digest refines an abstract map from MD5, SHA1 and SHA256 to digests: from
  a consistent state, a well-formed value under any spelling of the name is entered if the
  name is free or already holds the same digest, anything else under such a name is
  refused, other names leave the digests alone, and the state stays consistent.
\<close>

theorem stored_hashes_refine_a_digest_map:
  assumes "hashes_consistent hashes"
  shows "(case canonical_identifier identifier of
      None \<Rightarrow> \<exists>h'. insert_stored_hash hashes identifier value = Inr h' \<and> hashes_consistent h' \<and> digest_of h' = digest_of hashes
    | Some name \<Rightarrow>
        (case parse_hex_array (digest_size name) value of
           Some d \<Rightarrow> if digest_of hashes name \<in> {None, Some d}
             then \<exists>h'. insert_stored_hash hashes identifier value = Inr h' \<and> hashes_consistent h' \<and>
               digest_of h' = (digest_of hashes)(name \<mapsto> d)
             else \<exists>m. insert_stored_hash hashes identifier value = Inl (Malformed m)
         | None \<Rightarrow> \<exists>m. insert_stored_hash hashes identifier value = Inl (Malformed m)))"
  using insert_other_identifier [OF assms] insert_digest [OF assms] insert_rejected [OF assms]
  by (auto split: option.split)

theorem stored_hashes_refine_a_digest_map_witness:
  "\<exists>m. insert_stored_hash stored_hashes_default ''md5'' ''zz'' = Inl (Malformed m)"
proof -
  have "canonical_identifier ''md5'' = Some ''MD5''" by code_simp
  moreover have "parse_hex_array (digest_size ''MD5'') ''zz'' = None" by (simp add: parse_hex_array_def digest_size_def)
  ultimately show ?thesis
    using stored_hashes_refine_a_digest_map [OF default_consistent, of "''md5''" "''zz''"] by simp
qed



section \<open>Metadata\<close>

text \<open>
  C32: A valid date of the years 0 to 65535 that is formatted as an EWF1 header date, as an ISO
  8601 date, in the style of \<open>ctime\<close> or - from 1970 on, without a leap second - as a
  number of seconds is parsed back to the same date, and a number of seconds is the date it
  is converted to.
\<close>

theorem dates_round_trip:
  "(date_valid d \<and> dt_year d \<le> 65535 \<longrightarrow>
      parse_date_time (format_ewf1_header d) = Some d \<and> parse_date_time (format_date Iso8601 d) = Some d \<and>
      parse_date_time (format_date Ctime d) = Some d \<and>
      (1970 \<le> dt_year d \<and> dt_second d \<le> 59 \<longrightarrow> parse_date_time (i64_text (unix_timestamp d)) = Some d)) \<and>
   (from_unix_timestamp t = Some d \<longrightarrow> unix_timestamp d = t)"
  using dates_read_back [of d] timestamp_is_date [of t d] by blast

theorem dates_round_trip_witness:
  "parse_date_time (i64_text (unix_timestamp \<lparr>dt_year = 2024, dt_month = 2, dt_day = 29, dt_hour = 23, dt_minute = 59, dt_second = 58\<rparr>))
    = Some \<lparr>dt_year = 2024, dt_month = 2, dt_day = 29, dt_hour = 23, dt_minute = 59, dt_second = 58\<rparr>"
proof -
  let ?d = "\<lparr>dt_year = 2024, dt_month = 2, dt_day = 29, dt_hour = 23, dt_minute = 59, dt_second = 58\<rparr>"
  have "date_valid ?d" by (simp add: date_valid_def days_in_month_def is_leap_year_def)
  then show ?thesis using dates_round_trip [of ?d 0] by simp
qed




text \<open>
  C34: The XML header the writer makes of the metadata is parsed to metadata in which every
  identifier has exactly the value that was written, markup characters included, provided
  the identifiers are XML names and no value starts or ends with white space.
\<close>

theorem xml_headers_round_trip:
  assumes "\<forall>(t, v) \<in> set (xheader_values md). valid_tag t \<and> t \<noteq> ''xheader'' \<and> utf8_string v \<and>
      trim (escape_xml_text v) = escape_xml_text v \<and> v \<noteq> []"
    and "distinct (map fst (xheader_values md))"
  shows "header_value (parse_xheader_data (BOM @ bytes_of (xheader_text md)) metadata_default) ident = map_of (xheader_values md) ident"
  by (rule xheader_read_back [OF assms])

theorem xml_headers_round_trip_witness:
  "header_value (parse_xheader_data (BOM @ bytes_of (xheader_text (metadata_default\<lparr>md_notes := Some ''a<b''\<rparr>))) metadata_default) ''notes''
    = Some ''a<b''"
proof -
  let ?md = "metadata_default\<lparr>md_notes := Some ''a<b''\<rparr>"
  have vals: "xheader_values ?md = [(''notes'', ''a<b'')]"
    by (simp add: xheader_values_def xheader_fields_def metadata_default_def present_fields_def xheader_field_value_def)
  have "escape_xml_text ''a<b'' = ''a&lt;b''" by code_simp
  moreover have "trim ''a&lt;b'' = ''a&lt;b''"
    by (rule trim_visible) (auto simp: visible_def code_def)
  moreover have "utf8_string ''a<b''" by (rule utf8_string_ascii) (auto simp: code_def)
  moreover have "valid_tag ''notes''" by (simp add: valid_tag_def visible_def code_def)
  ultimately have "header_value (parse_xheader_data (BOM @ bytes_of (xheader_text ?md)) metadata_default) ''notes'' = map_of (xheader_values ?md) ''notes''"
    by (intro xml_headers_round_trip) (simp_all add: vals)
  then show ?thesis by (simp add: vals)
qed



section \<open>Names of segments\<close>

text \<open>
  C39: The files the writer makes of an image - \<open>E01\<close>, \<open>E02\<close>, \<open>EAA\<close> and so on after
  \<open>E99\<close>, \<open>FAA\<close> after \<open>EZZ\<close>, and likewise for the other formats - are exactly what the
  reader discovers when it is given the first one, in the order they were written and
  whatever order the directory lists them in, provided every other file of the directory
  has another stem, no extension of a segment, or another signature.
\<close>

theorem written_segments_are_discovered:
  assumes "letter (char_upper c)" "char_upper x = 88" "stem \<noteq> []" "utf8_string stem" "1 \<le> count" "count < 2 ^ 32"
    and "first = stem @ CHR ''.'' # named is_v2 c x 1"
    and "collect_results (path_of is_v2 first) [1..<count + 1] = Inr names"
    and "distinct (map fst entries)" "set names \<subseteq> fst ` set entries"
    and "\<forall>e \<in> set entries. fst e \<in> set names \<longrightarrow> segment_entry first (expected_segment_signature (char_upper c) is_v2) e"
    and "\<forall>e \<in> set entries. fst e \<notin> set names \<longrightarrow>
      foreign_entry stem (char_upper c) is_v2 (expected_segment_signature (char_upper c) is_v2) e"
  shows "discover_segments (Some first) shown (Inr entries) = Inr names"
  by (rule written_names_are_discovered [OF assms])

theorem written_segments_are_discovered_witness:
  "discover_segments (Some ''im.E01'') ''im.E01''
    (Inr [(''im.E02'', Inr EVF_SIGNATURE), (''im.csv'', Inr []), (''im.E01'', Inr [])]) = Inr [''im.E01'', ''im.E02'']"
proof (rule written_segments_are_discovered [of 69 88 "''im''" 2 _ False])
  have named: "named False 69 88 1 = ''E01''" "map char_of (v1_chars 69 2) = ''E02''"
    by (simp_all add: named_def v1_named_def v1_chars_def flip: code_inj) (simp_all add: code_def)
  show "''im.E01'' = ''im'' @ CHR ''.'' # named False 69 88 1" using named(1) by simp
  show "letter (char_upper 69)" "char_upper 88 = 88" by (simp_all add: letter_def char_upper_def)
  show "utf8_string ''im''" using sample_texts(1) by (simp add: to_str_def split: if_splits)
  have "extension_prefix (Some ''E01'') = 69" by (simp add: extension_prefix_def sample_texts char_upper_def)
  from v1_extension_value(1) [OF this, of 2] have "v1_segment_extension (Some ''E01'') 2 = Inr ''E02''"
    by (simp add: letter_def named)
  then show "collect_results (path_of False ''im.E01'') [1..<2 + 1] = Inr [''im.E01'', ''im.E02'']"
    by (simp add: path_of_def segment_path_def sample_names upt_conv_Cons numeral_2_eq_2 [symmetric])
  show "\<forall>e\<in>set [(''im.E02'', Inr EVF_SIGNATURE), (''im.csv'', Inr []), (''im.E01'', Inr [])].
       fst e \<in> set [''im.E01'', ''im.E02''] \<longrightarrow>
       segment_entry ''im.E01'' (expected_segment_signature (char_upper 69) False) e"
    by (simp add: segment_entry_def expected_segment_signature_def char_upper_def EVF_SIGNATURE_def)
  show "\<forall>e\<in>set [(''im.E02'', Inr EVF_SIGNATURE), (''im.csv'', Inr []), (''im.E01'', Inr [])].
       fst e \<notin> set [''im.E01'', ''im.E02''] \<longrightarrow>
       foreign_entry ''im'' (char_upper 69) False (expected_segment_signature (char_upper 69) False) e"
    using sample_extensions(3) by (simp add: foreign_entry_def sample_names sample_texts char_upper_def)
qed simp_all

section \<open>Catalogs of logical images\<close>







end
